(* ===== verification/Prelude_CO.thy ===== *)
theory Prelude_CO
  imports Main
begin

text \<open>
  Shared vocabulary of the development: the result type of a call that may throw, actions
  that thread a world through such calls, JavaScript's insertion-ordered \<open>Map\<close> and
  \<open>Set\<close> as lists, SQL-style tables, JSON values and the string operations the
  orchestrator uses. Strings are ASCII texts (lists of \<open>char\<close>), as all rule texts,
  identifiers and patterns of the program are.
\<close>

named_theorems act_simps \<open>unfolding the action combinators\<close>
named_theorems store_simps \<open>reading and writing keyed collections\<close>
named_theorems keeps \<open>actions that keep a property of the world\<close>

section \<open>Actions: state, results and exceptions\<close>

text \<open>
  An \<open>async\<close> method of the program reads and writes a world and either throws or returns:
  \<open>Inl\<close> is the thrown error, \<open>Inr\<close> the value.
\<close>

type_synonym ('w, 'e, 'a) act = "'w \<Rightarrow> ('e + 'a) \<times> 'w"

definition act_return :: "'a \<Rightarrow> ('w, 'e, 'a) act" where
  "act_return x = (\<lambda>w. (Inr x, w))"

definition act_throw :: "'e \<Rightarrow> ('w, 'e, 'a) act" where
  "act_throw e = (\<lambda>w. (Inl e, w))"

definition act_bind :: "('w, 'e, 'a) act \<Rightarrow> ('a \<Rightarrow> ('w, 'e, 'b) act) \<Rightarrow> ('w, 'e, 'b) act" where
  "act_bind m k = (\<lambda>w. case m w of (Inl e, w') \<Rightarrow> (Inl e, w') | (Inr x, w') \<Rightarrow> k x w')"

text \<open>\<open>try \{ m \} catch (e) \{ h e \}\<close>, the value of the block being passed on.\<close>

definition act_try :: "('w, 'e, 'a) act \<Rightarrow> ('a \<Rightarrow> ('w, 'e, 'b) act) \<Rightarrow> ('e \<Rightarrow> ('w, 'e, 'b) act) \<Rightarrow> ('w, 'e, 'b) act" where
  "act_try m k h = (\<lambda>w. case m w of (Inl e, w') \<Rightarrow> h e w' | (Inr x, w') \<Rightarrow> k x w')"

lemma act_return_app [act_simps]: "act_return x w = (Inr x, w)"
  by (simp add: act_return_def)

lemma act_throw_app [act_simps]: "act_throw e w = (Inl e, w)"
  by (simp add: act_throw_def)

lemma act_bind_Inr [act_simps]: "m w = (Inr x, w') \<Longrightarrow> act_bind m k w = k x w'"
  by (simp add: act_bind_def)

lemma act_bind_Inl [act_simps]: "m w = (Inl e, w') \<Longrightarrow> act_bind m k w = (Inl e, w')"
  by (simp add: act_bind_def)

lemma act_try_Inr [act_simps]: "m w = (Inr x, w') \<Longrightarrow> act_try m k h w = k x w'"
  by (simp add: act_try_def)

lemma act_try_Inl [act_simps]: "m w = (Inl e, w') \<Longrightarrow> act_try m k h w = h e w'"
  by (simp add: act_try_def)

lemma act_bind_returns:
  "act_bind m k w = (Inr y, w') \<longleftrightarrow> (\<exists>x v. m w = (Inr x, v) \<and> k x v = (Inr y, w'))"
  by (auto simp: act_bind_def split: prod.splits sum.splits)

lemma act_bind_throws:
  "act_bind m k w = (Inl e, w') \<longleftrightarrow>
     m w = (Inl e, w') \<or> (\<exists>x v. m w = (Inr x, v) \<and> k x v = (Inl e, w'))"
  by (auto simp: act_bind_def split: prod.splits sum.splits)

lemma act_try_result:
  "act_try m k h w = (r, w') \<longleftrightarrow>
     (\<exists>x v. m w = (Inr x, v) \<and> k x v = (r, w')) \<or> (\<exists>e v. m w = (Inl e, v) \<and> h e v = (r, w'))"
  by (auto simp: act_try_def split: prod.splits sum.splits)

text \<open>Properties of the world that an action keeps.\<close>

definition act_keeps :: "('w \<Rightarrow> bool) \<Rightarrow> ('w, 'e, 'a) act \<Rightarrow> bool" where
  "act_keeps P m \<longleftrightarrow> (\<forall>w. P w \<longrightarrow> P (snd (m w)))"

lemma keeps_return [keeps]: "act_keeps P (act_return y)" by (simp add: act_keeps_def act_return_def)
lemma keeps_throw [keeps]: "act_keeps P (act_throw e)" by (simp add: act_keeps_def act_throw_def)
lemma keeps_bind [keeps]: "act_keeps P m \<Longrightarrow> (\<And>y. act_keeps P (k y)) \<Longrightarrow> act_keeps P (act_bind m k)"
  unfolding act_keeps_def act_bind_def by (simp split: prod.split sum.split) (metis snd_conv)

lemma keeps_try [keeps]:
  "act_keeps P m \<Longrightarrow> (\<And>y. act_keeps P (k y)) \<Longrightarrow> (\<And>e. act_keeps P (h e)) \<Longrightarrow> act_keeps P (act_try m k h)"
  unfolding act_keeps_def act_try_def by (simp split: prod.split sum.split) (metis snd_conv)

section \<open>JavaScript collections\<close>

text \<open>
  A \<open>Map\<close> iterates in insertion order and \<open>set\<close> on a present key keeps its place;
  a \<open>Set\<close> is a list of distinct elements in insertion order.
\<close>

type_synonym ('k, 'v) jsmap = "('k \<times> 'v) list"

fun jm_get :: "('k, 'v) jsmap \<Rightarrow> 'k \<Rightarrow> 'v option" where
  "jm_get [] k = None"
| "jm_get ((a, v) # m) k = (if a = k then Some v else jm_get m k)"

fun jm_set :: "'k \<Rightarrow> 'v \<Rightarrow> ('k, 'v) jsmap \<Rightarrow> ('k, 'v) jsmap" where
  "jm_set k v [] = [(k, v)]"
| "jm_set k v ((a, u) # m) = (if a = k then (a, v) # m else (a, u) # jm_set k v m)"

definition jset_add :: "'a \<Rightarrow> 'a list \<Rightarrow> 'a list" where
  "jset_add x xs = (if x \<in> set xs then xs else xs @ [x])"

definition jset_delete :: "'a \<Rightarrow> 'a list \<Rightarrow> 'a list" where
  "jset_delete x xs = filter (\<lambda>y. y \<noteq> x) xs"

definition jset_of :: "'a list \<Rightarrow> 'a list" where
  "jset_of xs = fold jset_add xs []"

lemma jm_get_set [simp, store_simps]: "jm_get (jm_set k v m) j = (if j = k then Some v else jm_get m j)"
  by (induction m) auto

lemma jm_get_None: "jm_get m k = None \<longleftrightarrow> k \<notin> fst ` set m"
  by (induction m) force+

lemma jm_get_Some_in: "jm_get m k = Some v \<Longrightarrow> (k, v) \<in> set m"
  by (induction m) (auto split: if_splits)

lemma keys_jm_set [simp]: "fst ` set (jm_set k v m) = insert k (fst ` set m)"
  by (induction k v m rule: jm_set.induct) auto

lemma distinct_keys_jm_set: "distinct (map fst m) \<Longrightarrow> distinct (map fst (jm_set k v m))"
proof (induction m)
  case Nil
  then show ?case by simp
next
  case (Cons p m)
  obtain a u where p: "p = (a, u)" by force
  from Cons have IH: "distinct (map fst (jm_set k v m))" by simp
  have keys: "set (map fst (jm_set k v m)) = insert k (set (map fst m))"
    using keys_jm_set [of k v m] by simp
  from Cons.prems IH keys show ?case unfolding p by auto
qed

lemma jm_get_in_distinct: "distinct (map fst m) \<Longrightarrow> (k, v) \<in> set m \<Longrightarrow> jm_get m k = Some v"
  by (induction m) (force split: if_splits)+

lemma set_jset_add [simp]: "set (jset_add x xs) = insert x (set xs)"
  by (auto simp: jset_add_def)

lemma distinct_jset_add: "distinct xs \<Longrightarrow> distinct (jset_add x xs)"
  by (simp add: jset_add_def)

lemma set_jset_delete [simp]: "set (jset_delete x xs) = set xs - {x}"
  by (auto simp: jset_delete_def)

lemma set_fold_jset_add: "set (fold jset_add xs acc) = set acc \<union> set xs"
  by (induction xs arbitrary: acc) auto

lemma set_jset_of [simp]: "set (jset_of xs) = set xs"
  by (simp add: jset_of_def set_fold_jset_add)

lemma distinct_jset_of: "distinct (jset_of xs)"
proof -
  have "distinct acc \<Longrightarrow> distinct (fold jset_add xs acc)" for acc
    by (induction xs arbitrary: acc) (auto simp: distinct_jset_add)
  then show ?thesis by (simp add: jset_of_def)
qed

lemma jset_of_Nil [simp]: "jset_of [] = []"
  by (simp add: jset_of_def)

lemma jset_of_eq_Nil [simp]: "jset_of xs = [] \<longleftrightarrow> xs = []"
proof -
  have "set (jset_of xs) = {} \<longleftrightarrow> set xs = {}" by simp
  then show ?thesis by (simp del: set_jset_of)
qed

text \<open>The contract of a keyed store that its clients rely on, and JavaScript's \<open>Map\<close> as one.\<close>

locale keyed_store =
  fixes lookup :: "'s \<Rightarrow> 'k \<Rightarrow> 'v option"
    and put :: "'k \<Rightarrow> 'v \<Rightarrow> 's \<Rightarrow> 's"
  assumes lookup_put: "lookup (put k v s) j = (if j = k then Some v else lookup s j)"
begin

lemma put_put_lookup: "lookup (put k v (put k u s)) j = lookup (put k v s) j"
  by (simp add: lookup_put)

lemma put_commute: "k \<noteq> l \<Longrightarrow> lookup (put k v (put l u s)) j = lookup (put l u (put k v s)) j"
  by (auto simp: lookup_put)

lemma put_other: "j \<noteq> k \<Longrightarrow> lookup (put k v s) j = lookup s j"
  by (simp add: lookup_put)

lemma put_same: "lookup (put k v s) k = Some v"
  by (simp add: lookup_put)

text \<open>An invariant on the values survives every write of a value that satisfies it.\<close>

lemma put_keeps_all:
  "(\<And>j u. lookup s j = Some u \<Longrightarrow> P j u) \<Longrightarrow> P k v \<Longrightarrow> lookup (put k v s) j = Some u \<Longrightarrow> P j u"
  by (auto simp: lookup_put split: if_splits)

end

interpretation jm: keyed_store jm_get jm_set
  by unfold_locales simp

section \<open>SQL tables as lists of rows\<close>

text \<open>
  A table keeps its rows in insertion order. \<open>updateMany\<close> rewrites the rows its
  predicate selects and reports how many there were.
\<close>

definition find_row :: "('r \<Rightarrow> bool) \<Rightarrow> 'r list \<Rightarrow> 'r option" where
  "find_row p rows = List.find p rows"

definition update_many :: "('r \<Rightarrow> bool) \<Rightarrow> ('r \<Rightarrow> 'r) \<Rightarrow> 'r list \<Rightarrow> nat \<times> 'r list" where
  "update_many p f rows = (length (filter p rows), map (\<lambda>r. if p r then f r else r) rows)"

lemma find_row_Some: "find_row p rows = Some r \<Longrightarrow> r \<in> set rows \<and> p r"
  by (auto simp: find_row_def find_Some_iff)

lemma find_row_None: "find_row p rows = None \<longleftrightarrow> (\<forall>r \<in> set rows. \<not> p r)"
  by (auto simp: find_row_def find_None_iff)

lemma find_row_simps [simp]:
  "find_row p [] = None"
  "find_row p (r # rows) = (if p r then Some r else find_row p rows)"
  by (auto simp: find_row_def)

lemma find_row_append:
  "find_row p (xs @ ys) = (case find_row p xs of None \<Rightarrow> find_row p ys | Some r \<Rightarrow> Some r)"
  by (induction xs) auto

lemma find_row_map_same:
  "(\<And>r. p (f r) = p r) \<Longrightarrow> find_row p (map f rows) = map_option f (find_row p rows)"
  by (induction rows) auto

lemma update_many_count_0: "fst (update_many p f rows) = 0 \<longleftrightarrow> (\<forall>r \<in> set rows. \<not> p r)"
  by (simp add: update_many_def filter_empty_conv)

lemma find_update_many:
  assumes "\<And>r. key (f r) = key r"
  shows "find_row (\<lambda>r. key r = k) (snd (update_many p f rows)) =
    map_option (\<lambda>r. if p r then f r else r) (find_row (\<lambda>r. key r = k) rows)"
proof -
  have "snd (update_many p f rows) = map (\<lambda>r. if p r then f r else r) rows"
    by (simp add: update_many_def)
  then show ?thesis using assms by (simp add: find_row_map_same)
qed

lemma keys_update_many:
  "(\<And>r. key (f r) = key r) \<Longrightarrow> map key (snd (update_many p f rows)) = map key rows"
  by (simp add: update_many_def)

lemma distinct_key_eq: "distinct (map f xs) \<Longrightarrow> x \<in> set xs \<Longrightarrow> y \<in> set xs \<Longrightarrow> f x = f y \<Longrightarrow> x = y"
  by (auto simp: distinct_map inj_on_def)

lemma find_row_key: "distinct (map key rows) \<Longrightarrow> r \<in> set rows \<Longrightarrow> find_row (\<lambda>x. key x = key r) rows = Some r"
  by (induction rows) (auto simp: rev_image_eqI)

lemma le_fold_max: "x \<in> set (n # xs) \<Longrightarrow> x \<le> fold max xs (n :: nat)"
  using Max_ge [of "set (n # xs)" x] by (simp add: Max.set_eq_fold del: set_simps)

lemma find_SomeD: "List.find p xs = Some x \<Longrightarrow> x \<in> set xs \<and> p x"
  by (auto simp: find_Some_iff)

section \<open>Strings\<close>

definition lower_char :: "char \<Rightarrow> char" where
  "lower_char c = (let n = (of_char c :: nat) in if 65 \<le> n \<and> n \<le> 90 then char_of (n + 32) else c)"

definition upper_char :: "char \<Rightarrow> char" where
  "upper_char c = (let n = (of_char c :: nat) in if 97 \<le> n \<and> n \<le> 122 then char_of (n - 32) else c)"

definition lower :: "string \<Rightarrow> string" where
  "lower s = map lower_char s"

definition upper :: "string \<Rightarrow> string" where
  "upper s = map upper_char s"

fun starts_with :: "string \<Rightarrow> string \<Rightarrow> bool" where
  "starts_with s [] = True"
| "starts_with [] (p # ps) = False"
| "starts_with (c # s) (p # ps) = (c = p \<and> starts_with s ps)"

definition ends_with :: "string \<Rightarrow> string \<Rightarrow> bool" where
  "ends_with s p = starts_with (rev s) (rev p)"

fun str_includes :: "string \<Rightarrow> string \<Rightarrow> bool" where
  "str_includes [] p = (p = [])"
| "str_includes (c # s) p = (starts_with (c # s) p \<or> str_includes s p)"

lemma starts_with_iff: "starts_with s p \<longleftrightarrow> (\<exists>t. s = p @ t)"
  by (induction s p rule: starts_with.induct) auto

lemma ends_with_iff: "ends_with s p \<longleftrightarrow> (\<exists>t. s = t @ p)"
proof -
  have "ends_with s p \<longleftrightarrow> (\<exists>t. rev s = rev p @ t)"
    by (simp add: ends_with_def starts_with_iff)
  also have "\<dots> \<longleftrightarrow> (\<exists>t. s = rev t @ p)"
    by (metis rev_append rev_rev_ident)
  also have "\<dots> \<longleftrightarrow> (\<exists>t. s = t @ p)" by (metis rev_rev_ident)
  finally show ?thesis .
qed

lemma includes_iff: "str_includes s p \<longleftrightarrow> (\<exists>a b. s = a @ p @ b)"
proof (induction s)
  case Nil
  then show ?case by auto
next
  case (Cons c s)
  show ?case
  proof
    assume "str_includes (c # s) p"
    then consider "starts_with (c # s) p" | "str_includes s p" by auto
    then show "\<exists>a b. c # s = a @ p @ b"
    proof cases
      case 1
      then obtain t where "c # s = [] @ p @ t" by (auto simp: starts_with_iff)
      then show ?thesis by blast
    next
      case 2
      then obtain a b where "c # s = (c # a) @ p @ b" using Cons.IH by auto
      then show ?thesis by blast
    qed
  next
    assume "\<exists>a b. c # s = a @ p @ b"
    then obtain a b where ab: "c # s = a @ p @ b" by blast
    show "str_includes (c # s) p"
    proof (cases a)
      case Nil
      with ab have "starts_with (c # s) p" by (auto simp: starts_with_iff)
      then show ?thesis by simp
    next
      case (Cons d a')
      with ab have "s = a' @ p @ b" by simp
      then show ?thesis using Cons.IH by auto
    qed
  qed
qed

lemma includes_self [simp]: "str_includes s s"
  unfolding includes_iff by (rule exI [of _ "[]"], rule exI [of _ "[]"]) simp

definition is_space :: "char \<Rightarrow> bool" where
  "is_space c \<longleftrightarrow> (of_char c :: nat) \<in> {9, 10, 11, 12, 13, 32, 160}"

definition is_word :: "char \<Rightarrow> bool" where
  "is_word c \<longleftrightarrow> (let n = (of_char c :: nat) in
     48 \<le> n \<and> n \<le> 57 \<or> 65 \<le> n \<and> n \<le> 90 \<or> 97 \<le> n \<and> n \<le> 122 \<or> n = 95)"

definition trim :: "string \<Rightarrow> string" where
  "trim s = rev (dropWhile is_space (rev (dropWhile is_space s)))"

text \<open>\<open>s.split(/\s+/)\<close>: an empty first or last part stands before or after outer blanks.\<close>

fun split_ws_aux :: "string \<Rightarrow> bool \<Rightarrow> string \<Rightarrow> string list" where
  "split_ws_aux acc b [] = [rev acc]"
| "split_ws_aux acc b (c # s) =
     (if is_space c then (if b then split_ws_aux acc True s else rev acc # split_ws_aux [] True s)
      else split_ws_aux (c # acc) False s)"

definition split_ws :: "string \<Rightarrow> string list" where
  "split_ws s = split_ws_aux [] False s"

fun join :: "string \<Rightarrow> string list \<Rightarrow> string" where
  "join sep [] = []"
| "join sep [s] = s"
| "join sep (s # t # ts) = s @ sep @ join sep (t # ts)"

text \<open>A JavaScript string is falsy when it is \<open>undefined\<close>, \<open>null\<close> or empty.\<close>

definition truthy :: "string option \<Rightarrow> bool" where
  "truthy s = (case s of None \<Rightarrow> False | Some t \<Rightarrow> t \<noteq> [])"

definition or_empty :: "string option \<Rightarrow> string" where
  "or_empty s = (case s of None \<Rightarrow> [] | Some t \<Rightarrow> t)"

lemma truthy_simps [simp]: "\<not> truthy None" "truthy (Some t) \<longleftrightarrow> t \<noteq> []"
  by (simp_all add: truthy_def)

lemma or_empty_simps [simp]: "or_empty None = []" "or_empty (Some t) = t"
  by (simp_all add: or_empty_def)

section \<open>JSON values\<close>

datatype json = JNull | JBool bool | JNum int | JStr string
  | JArr "json list" | JObj "(string \<times> json) list"

fun digits_of :: "nat \<Rightarrow> string" where
  "digits_of n = (if n < 10 then [char_of (48 + n)] else digits_of (n div 10) @ [char_of (48 + n mod 10)])"

declare digits_of.simps [simp del]

definition show_int :: "int \<Rightarrow> string" where
  "show_int i = (if i < 0 then ''-'' @ digits_of (nat (- i)) else digits_of (nat i))"

text \<open>\<open>String(v)\<close>; inside an array \<open>null\<close> prints as the empty text.\<close>

fun js_string :: "json \<Rightarrow> string" where
  "js_string JNull = ''null''"
| "js_string (JBool b) = (if b then ''true'' else ''false'')"
| "js_string (JNum i) = show_int i"
| "js_string (JStr s) = s"
| "js_string (JArr vs) = join '','' (map (\<lambda>v. if v = JNull then [] else js_string v) vs)"
| "js_string (JObj kvs) = ''[object Object]''"

definition json_str :: "json option \<Rightarrow> string option" where
  "json_str v = (case v of Some (JStr s) \<Rightarrow> Some s | _ \<Rightarrow> None)"

definition json_arr :: "json option \<Rightarrow> json list option" where
  "json_arr v = (case v of Some (JArr vs) \<Rightarrow> Some vs | _ \<Rightarrow> None)"

end
