(* ===== verification/Domain_Model.thy ===== *)
theory Domain_Model
  imports Prelude_CO
begin

text \<open>
  The domain core (\<^verbatim>\<open>packages/domain/src\<close>): work items and attempts with their lifecycle
  tables, projects and project events, and the errors the core throws. Identifiers are
  texts, revisions and attempt numbers are naturals, dates are milliseconds.
\<close>

section \<open>Work items\<close>

datatype wi_state = WI_DRAFT | WI_READY | WI_QUEUED | WI_ASSIGNED | WI_RUNNING | WI_WAITING
  | WI_BLOCKED | WI_REVIEW_REQUIRED | WI_VERIFICATION_REQUIRED | WI_REPAIR_REQUIRED
  | WI_RECOVERY_REQUIRED | WI_COMPLETED | WI_CANCELLED | WI_SUPERSEDED

datatype at_state = AT_NOT_STARTED | AT_STARTING | AT_RUNNING | AT_SUCCEEDED | AT_FAILED
  | AT_TIMED_OUT | AT_INTERRUPTED | AT_CANCELLED | AT_UNKNOWN

definition active_attempt_states :: "at_state list" where
  "active_attempt_states = [AT_NOT_STARTED, AT_STARTING, AT_RUNNING, AT_UNKNOWN]"

definition terminal_attempt_states :: "at_state list" where
  "terminal_attempt_states = [AT_SUCCEEDED, AT_FAILED, AT_TIMED_OUT, AT_INTERRUPTED, AT_CANCELLED]"

datatype wi_kind = MILESTONE | FEATURE | TASK | SUBTASK | RECOVERY_TASK | VERIFICATION_TASK
  | REVIEW_TASK | AUDIT_TASK | DEPLOYMENT_TASK | OWNER_ACTION_TASK | EXTERNAL_WAIT_TASK

record work_item =
  wi_id :: string
  wi_projectId :: string
  wi_parentId :: "string option"
  wi_type :: wi_kind
  wi_objective :: string
  wi_lifecycleState :: wi_state
  wi_revision :: nat
  wi_evidenceRequirements :: "string list"
  wi_currentAttemptId :: "string option"
  wi_createdAt :: int
  wi_updatedAt :: int

text \<open>An attempt before the store has given it a number (\<open>NewAttempt\<close>), and after.\<close>

record new_attempt =
  at_id :: string
  at_projectId :: string
  at_workItemId :: string
  at_st :: at_state
  at_workPackageVersion :: nat
  at_agentRunId :: "string option"
  at_agentAdapterId :: "string option"
  at_startedAt :: "int option"
  at_endedAt :: "int option"
  at_createdAt :: int
  at_updatedAt :: int

record attempt = new_attempt +
  at_attemptNumber :: nat

fun wi_transitions :: "wi_state \<Rightarrow> wi_state list" where
  "wi_transitions WI_DRAFT = [WI_READY, WI_CANCELLED, WI_SUPERSEDED]"
| "wi_transitions WI_READY =
     [WI_QUEUED, WI_ASSIGNED, WI_BLOCKED, WI_WAITING, WI_CANCELLED, WI_SUPERSEDED]"
| "wi_transitions WI_QUEUED =
     [WI_ASSIGNED, WI_READY, WI_BLOCKED, WI_WAITING, WI_CANCELLED, WI_SUPERSEDED]"
| "wi_transitions WI_ASSIGNED =
     [WI_RUNNING, WI_READY, WI_RECOVERY_REQUIRED, WI_BLOCKED, WI_WAITING, WI_CANCELLED, WI_SUPERSEDED]"
| "wi_transitions WI_RUNNING =
     [WI_REVIEW_REQUIRED, WI_VERIFICATION_REQUIRED, WI_REPAIR_REQUIRED, WI_RECOVERY_REQUIRED,
      WI_WAITING, WI_BLOCKED, WI_COMPLETED, WI_CANCELLED, WI_SUPERSEDED]"
| "wi_transitions WI_WAITING = [WI_READY, WI_BLOCKED, WI_CANCELLED, WI_SUPERSEDED]"
| "wi_transitions WI_BLOCKED = [WI_READY, WI_WAITING, WI_CANCELLED, WI_SUPERSEDED]"
| "wi_transitions WI_REVIEW_REQUIRED =
     [WI_VERIFICATION_REQUIRED, WI_REPAIR_REQUIRED, WI_BLOCKED, WI_WAITING, WI_COMPLETED,
      WI_CANCELLED, WI_SUPERSEDED]"
| "wi_transitions WI_VERIFICATION_REQUIRED =
     [WI_COMPLETED, WI_REPAIR_REQUIRED, WI_RECOVERY_REQUIRED, WI_BLOCKED, WI_WAITING,
      WI_CANCELLED, WI_SUPERSEDED]"
| "wi_transitions WI_REPAIR_REQUIRED =
     [WI_READY, WI_BLOCKED, WI_WAITING, WI_CANCELLED, WI_SUPERSEDED]"
| "wi_transitions WI_RECOVERY_REQUIRED =
     [WI_READY, WI_WAITING, WI_BLOCKED, WI_CANCELLED, WI_SUPERSEDED]"
| "wi_transitions WI_COMPLETED = [WI_VERIFICATION_REQUIRED, WI_READY, WI_SUPERSEDED]"
| "wi_transitions WI_CANCELLED = []"
| "wi_transitions WI_SUPERSEDED = []"

fun at_transitions :: "at_state \<Rightarrow> at_state list" where
  "at_transitions AT_NOT_STARTED = [AT_STARTING, AT_CANCELLED]"
| "at_transitions AT_STARTING =
     [AT_RUNNING, AT_FAILED, AT_TIMED_OUT, AT_INTERRUPTED, AT_CANCELLED, AT_UNKNOWN]"
| "at_transitions AT_RUNNING =
     [AT_SUCCEEDED, AT_FAILED, AT_TIMED_OUT, AT_INTERRUPTED, AT_CANCELLED, AT_UNKNOWN]"
| "at_transitions AT_UNKNOWN =
     [AT_RUNNING, AT_SUCCEEDED, AT_FAILED, AT_TIMED_OUT, AT_INTERRUPTED, AT_CANCELLED]"
| "at_transitions AT_SUCCEEDED = []"
| "at_transitions AT_FAILED = []"
| "at_transitions AT_TIMED_OUT = []"
| "at_transitions AT_INTERRUPTED = []"
| "at_transitions AT_CANCELLED = []"

section \<open>Errors\<close>

text \<open>
  The error classes of domain, persistence, evidence and workflow; \<open>RecordNotFound\<close>,
  \<open>UniqueViolation\<close> and \<open>ForeignKeyViolation\<close> are the database client's P2025, P2002 and P2003, \<open>GenericError\<close> is
  \<open>new Error(message)\<close> and \<open>ExternalError\<close> anything thrown by code outside the program.
\<close>

datatype exn =
    InvalidWorkItemTransitionError wi_state wi_state
  | InvalidAttemptTransitionError at_state at_state
  | RecordNotFound string
  | UniqueViolation string
  | ForeignKeyViolation string
  | WorkItemRevisionConflictError string nat
  | ActiveAttemptExistsError string
  | AttemptStateConflictError string at_state
  | WorkItemNotReadyError string wi_state
  | WorkPackageWorkItemMismatchError string
  | StaleProjectRevisionError string nat
  | VerificationEvidenceError string
  | EvidenceTamperedError string
  | DuplicateRecordError string string
  | GenericError string
  | ZodError string
  | AgentRunNotFoundError string
  | AgentResultValidationError string
  | ExternalError string

definition assertWorkItemTransition :: "wi_state \<Rightarrow> wi_state \<Rightarrow> exn + unit" where
  "assertWorkItemTransition f t =
     (if t \<in> set (wi_transitions f) then Inr () else Inl (InvalidWorkItemTransitionError f t))"

definition assertAttemptTransition :: "at_state \<Rightarrow> at_state \<Rightarrow> exn + unit" where
  "assertAttemptTransition f t =
     (if t \<in> set (at_transitions f) then Inr () else Inl (InvalidAttemptTransitionError f t))"

definition isActiveAttemptState :: "at_state \<Rightarrow> bool" where
  "isActiveAttemptState s = (s \<in> set active_attempt_states)"

text \<open>
  \<open>createWorkItem\<close>: an absent requirement list gets the default; an empty list is truthy in
  JavaScript and is kept.
\<close>

definition createWorkItem ::
  "string \<Rightarrow> string \<Rightarrow> string option \<Rightarrow> wi_kind \<Rightarrow> string \<Rightarrow> string list option \<Rightarrow> int \<Rightarrow> work_item" where
  "createWorkItem i pid parent k obj reqs now =
     \<lparr>wi_id = i, wi_projectId = pid, wi_parentId = parent, wi_type = k, wi_objective = obj,
      wi_lifecycleState = WI_DRAFT, wi_revision = 1,
      wi_evidenceRequirements = (case reqs of None \<Rightarrow> [''AGENT_RESULT_VERIFICATION''] | Some rs \<Rightarrow> rs),
      wi_currentAttemptId = None, wi_createdAt = now, wi_updatedAt = now\<rparr>"

section \<open>Projects and project events\<close>

datatype project_state = PJ_ACTIVE | PJ_PAUSED | PJ_ARCHIVED

record project =
  pj_id :: string
  pj_slug :: string
  pj_name :: string
  pj_lifecycleState :: project_state
  pj_revision :: nat
  pj_createdAt :: int
  pj_updatedAt :: int

definition createProject :: "string \<Rightarrow> string \<Rightarrow> string \<Rightarrow> int \<Rightarrow> project" where
  "createProject i slug name now =
     \<lparr>pj_id = i, pj_slug = slug, pj_name = name, pj_lifecycleState = PJ_ACTIVE, pj_revision = 1,
      pj_createdAt = now, pj_updatedAt = now\<rparr>"

datatype aggregate_type = AGG_PROJECT | AGG_WORK_ITEM | AGG_ATTEMPT | AGG_RUN

datatype actor_type = OWNER | HUMAN_USER | ORCHESTRATOR | AGENT | SYSTEM | EXTERNAL_ACTOR

record 'p project_event =
  pe_id :: string
  pe_projectId :: string
  pe_eventType :: string
  pe_aggregateType :: aggregate_type
  pe_aggregateId :: string
  pe_aggregateRevision :: nat
  pe_actorType :: actor_type
  pe_actorId :: string
  pe_correlationId :: string
  pe_causationId :: "string option"
  pe_schemaVersion :: nat
  pe_payload :: 'p
  pe_occurredAt :: int

section \<open>Facts about the lifecycle tables\<close>

lemma at_terminal_no_transitions: "at_transitions s = [] \<longleftrightarrow> s \<in> set terminal_attempt_states"
  by (cases s) (auto simp: terminal_attempt_states_def)

lemma at_active_or_terminal: "isActiveAttemptState s \<longleftrightarrow> s \<notin> set terminal_attempt_states"
  by (cases s) (auto simp: isActiveAttemptState_def active_attempt_states_def terminal_attempt_states_def)

lemma at_transition_from_active: "t \<in> set (at_transitions s) \<Longrightarrow> isActiveAttemptState s"
  by (cases s) (auto simp: isActiveAttemptState_def active_attempt_states_def)

lemma isActive_simps [simp]:
  "isActiveAttemptState AT_NOT_STARTED" "isActiveAttemptState AT_STARTING"
  "isActiveAttemptState AT_RUNNING" "isActiveAttemptState AT_UNKNOWN"
  "\<not> isActiveAttemptState AT_SUCCEEDED" "\<not> isActiveAttemptState AT_FAILED"
  "\<not> isActiveAttemptState AT_TIMED_OUT" "\<not> isActiveAttemptState AT_INTERRUPTED"
  "\<not> isActiveAttemptState AT_CANCELLED"
  by (simp_all add: isActiveAttemptState_def active_attempt_states_def)

lemma assertWorkItemTransition_Inr [simp]:
  "assertWorkItemTransition f t = Inr u \<longleftrightarrow> t \<in> set (wi_transitions f)"
  by (simp add: assertWorkItemTransition_def)

lemma assertAttemptTransition_Inr [simp]:
  "assertAttemptTransition f t = Inr u \<longleftrightarrow> t \<in> set (at_transitions f)"
  by (simp add: assertAttemptTransition_def)

text \<open>Sequences of permitted moves of the two lifecycles.\<close>

inductive wi_reach :: "wi_state \<Rightarrow> wi_state \<Rightarrow> bool" where
  wi_here: "wi_reach s s"
| wi_move: "wi_reach s t \<Longrightarrow> u \<in> set (wi_transitions t) \<Longrightarrow> wi_reach s u"

inductive at_reach :: "at_state \<Rightarrow> at_state \<Rightarrow> bool" where
  at_here: "at_reach s s"
| at_move: "at_reach s t \<Longrightarrow> u \<in> set (at_transitions t) \<Longrightarrow> at_reach s u"

lemma wi_reach_closed:
  assumes "wi_reach s t" and "P s" and "\<And>a b. P a \<Longrightarrow> b \<in> set (wi_transitions a) \<Longrightarrow> P b"
  shows "P t"
  using assms by (induction rule: wi_reach.induct) auto

lemma at_reach_closed:
  assumes "at_reach s t" and "P s" and "\<And>a b. P a \<Longrightarrow> b \<in> set (at_transitions a) \<Longrightarrow> P b"
  shows "P t"
  using assms by (induction rule: at_reach.induct) auto

end
