(* ===== verification/Work_Store.thy ===== *)
theory Work_Store
  imports Domain_Model
begin

text \<open>
  The durable store of work items and attempts (\<^verbatim>\<open>packages/persistence/src/work/work-store.ts\<close>)
  over the two tables of \<^verbatim>\<open>schema.prisma\<close>, the interface the workflow engine sees
  (\<open>WorkflowWorkStore\<close>) as a locale, and the invariants of the tables. A method body is one
  transaction: when it throws, the tables are as before. \<open>db_now\<close> is the clock that
  \<open>new Date()\<close> reads; the database client refreshes \<open>updatedAt\<close> on each row it updates.
\<close>

record attempt_row = attempt +
  at_active :: bool

record work_db =
  db_items :: "work_item list"
  db_attempts :: "attempt_row list"
  db_now :: int

definition item_of :: "work_db \<Rightarrow> string \<Rightarrow> work_item option" where
  "item_of db i = find_row (\<lambda>w. wi_id w = i) (db_items db)"

definition attempt_of :: "work_db \<Rightarrow> string \<Rightarrow> attempt_row option" where
  "attempt_of db i = find_row (\<lambda>a. at_id a = i) (db_attempts db)"

section \<open>Operations\<close>

definition ws_createWorkItem :: "work_item \<Rightarrow> (work_db, exn, work_item) act" where
  "ws_createWorkItem wi db =
     (if item_of db (wi_id wi) \<noteq> None then (Inl (UniqueViolation (wi_id wi)), db)
      else (Inr wi, db\<lparr>db_items := db_items db @ [wi]\<rparr>))"

definition ws_transitionWorkItem :: "string \<Rightarrow> nat \<Rightarrow> wi_state \<Rightarrow> (work_db, exn, work_item) act" where
  "ws_transitionWorkItem i expected to db =
     (case item_of db i of
        None \<Rightarrow> (Inl (RecordNotFound i), db)
      | Some current \<Rightarrow>
          if wi_revision current \<noteq> expected then (Inl (WorkItemRevisionConflictError i expected), db)
          else (case assertWorkItemTransition (wi_lifecycleState current) to of
              Inl e \<Rightarrow> (Inl e, db)
            | Inr _ \<Rightarrow>
                (case update_many (\<lambda>w. wi_id w = i \<and> wi_revision w = expected)
                        (\<lambda>w. w\<lparr>wi_lifecycleState := to, wi_revision := wi_revision w + 1,
                               wi_updatedAt := db_now db\<rparr>) (db_items db) of
                   (count, rows) \<Rightarrow>
                     if count = 0 then (Inl (WorkItemRevisionConflictError i expected), db)
                     else (case find_row (\<lambda>w. wi_id w = i) rows of
                             None \<Rightarrow> (Inl (RecordNotFound i), db)
                           | Some updated \<Rightarrow> (Inr updated, db\<lparr>db_items := rows\<rparr>)))))"

definition max_attempt_number :: "string \<Rightarrow> attempt_row list \<Rightarrow> nat" where
  "max_attempt_number wid rows =
     fold max (map at_attemptNumber (filter (\<lambda>a. at_workItemId a = wid) rows)) 0"

definition number_attempt :: "new_attempt \<Rightarrow> nat \<Rightarrow> attempt_row" where
  "number_attempt a n =
     \<lparr>at_id = at_id a, at_projectId = at_projectId a, at_workItemId = at_workItemId a, at_st = at_st a,
      at_workPackageVersion = at_workPackageVersion a, at_agentRunId = at_agentRunId a,
      at_agentAdapterId = at_agentAdapterId a, at_startedAt = at_startedAt a, at_endedAt = at_endedAt a,
      at_createdAt = at_createdAt a, at_updatedAt = at_updatedAt a, at_attemptNumber = n,
      at_active = isActiveAttemptState (at_st a)\<rparr>"

definition ws_startAttempt :: "new_attempt \<Rightarrow> nat \<Rightarrow> (work_db, exn, work_item \<times> attempt_row) act" where
  "ws_startAttempt a expected db =
     (case item_of db (at_workItemId a) of
        None \<Rightarrow> (Inl (RecordNotFound (at_workItemId a)), db)
      | Some work \<Rightarrow>
          if wi_revision work \<noteq> expected then (Inl (WorkItemRevisionConflictError (wi_id work) expected), db)
          else (case assertWorkItemTransition (wi_lifecycleState work) WI_ASSIGNED of
              Inl e \<Rightarrow> (Inl e, db)
            | Inr _ \<Rightarrow>
                if find_row (\<lambda>r. at_workItemId r = wi_id work \<and> at_active r) (db_attempts db) \<noteq> None
                then (Inl (ActiveAttemptExistsError (wi_id work)), db)
                else (case update_many (\<lambda>w. wi_id w = wi_id work \<and> wi_revision w = expected)
                             (\<lambda>w. w\<lparr>wi_lifecycleState := WI_ASSIGNED, wi_currentAttemptId := Some (at_id a),
                                    wi_revision := wi_revision w + 1, wi_updatedAt := db_now db\<rparr>)
                             (db_items db) of
                   (count, rows) \<Rightarrow>
                     if count = 0 then (Inl (WorkItemRevisionConflictError (wi_id work) expected), db)
                     else
                       let created = number_attempt a (max_attempt_number (wi_id work) (db_attempts db) + 1)
                       in if attempt_of db (at_id a) \<noteq> None then (Inl (UniqueViolation (at_id a)), db)
                          else (case find_row (\<lambda>w. wi_id w = wi_id work) rows of
                                  None \<Rightarrow> (Inl (RecordNotFound (wi_id work)), db)
                                | Some updatedWork \<Rightarrow>
                                    (Inr (updatedWork, created),
                                     db\<lparr>db_items := rows, db_attempts := db_attempts db @ [created]\<rparr>)))))"

definition ws_getWorkItem :: "string \<Rightarrow> (work_db, exn, work_item) act" where
  "ws_getWorkItem i db = (case item_of db i of None \<Rightarrow> (Inl (RecordNotFound i), db) | Some w \<Rightarrow> (Inr w, db))"

definition ws_getAttempt :: "string \<Rightarrow> (work_db, exn, attempt_row) act" where
  "ws_getAttempt i db = (case attempt_of db i of None \<Rightarrow> (Inl (RecordNotFound i), db) | Some a \<Rightarrow> (Inr a, db))"

definition ws_bindAgentRun :: "string \<Rightarrow> string \<Rightarrow> string \<Rightarrow> (work_db, exn, attempt_row) act" where
  "ws_bindAgentRun i runId adapterId db =
     (case attempt_of db i of
        None \<Rightarrow> (Inl (RecordNotFound i), db)
      | Some a \<Rightarrow>
          let bind = (\<lambda>r. r\<lparr>at_agentRunId := Some runId, at_agentAdapterId := Some adapterId,
                           at_updatedAt := db_now db\<rparr>)
          in (Inr (bind a), db\<lparr>db_attempts := snd (update_many (\<lambda>r. at_id r = i) bind (db_attempts db))\<rparr>))"

definition ws_transitionAttempt :: "string \<Rightarrow> at_state \<Rightarrow> (work_db, exn, attempt_row) act" where
  "ws_transitionAttempt i to db =
     (case attempt_of db i of
        None \<Rightarrow> (Inl (RecordNotFound i), db)
      | Some current \<Rightarrow>
          (case assertAttemptTransition (at_st current) to of
             Inl e \<Rightarrow> (Inl e, db)
           | Inr _ \<Rightarrow>
               let active = isActiveAttemptState to;
                   stamp = (to = AT_RUNNING \<and> at_startedAt current = None)
               in (case update_many (\<lambda>r. at_id r = i \<and> at_st r = at_st current)
                          (\<lambda>r. r\<lparr>at_st := to, at_active := active,
                                 at_endedAt := (if active then None else Some (db_now db)),
                                 at_startedAt := (if stamp then Some (db_now db) else at_startedAt r),
                                 at_updatedAt := db_now db\<rparr>)
                          (db_attempts db) of
                     (count, rows) \<Rightarrow>
                       if count = 0 then (Inl (AttemptStateConflictError i (at_st current)), db)
                       else (case find_row (\<lambda>r. at_id r = i) rows of
                               None \<Rightarrow> (Inl (RecordNotFound i), db)
                             | Some row \<Rightarrow>
                                 (Inr row,
                                  db\<lparr>db_attempts := rows,
                                     db_items := (if active then db_items db else
                                       snd (update_many
                                         (\<lambda>w. wi_id w = at_workItemId current \<and> wi_currentAttemptId w = Some (at_id current))
                                         (\<lambda>w. w\<lparr>wi_currentAttemptId := None, wi_updatedAt := db_now db\<rparr>)
                                         (db_items db)))\<rparr>)))))"

section \<open>What each operation does to the tables\<close>

lemma item_of_Some: "item_of db i = Some w \<Longrightarrow> w \<in> set (db_items db) \<and> wi_id w = i"
  using find_row_Some [of "\<lambda>w. wi_id w = i"] by (simp add: item_of_def)

lemma attempt_of_Some: "attempt_of db i = Some a \<Longrightarrow> a \<in> set (db_attempts db) \<and> at_id a = i"
  using find_row_Some [of "\<lambda>a. at_id a = i"] by (simp add: attempt_of_def)

lemma item_of_id: "item_of db i = Some w \<Longrightarrow> wi_id w = i"
  using item_of_Some by blast

lemma attempt_of_id: "attempt_of db i = Some a \<Longrightarrow> at_id a = i"
  using attempt_of_Some by blast

lemma tables_simps [simp]:
  "item_of (db\<lparr>db_attempts := as\<rparr>) = item_of db"
  "attempt_of (db\<lparr>db_items := ws\<rparr>) = attempt_of db"
  by (simp_all add: fun_eq_iff item_of_def attempt_of_def)

text \<open>The four ways a guarded update of one work item row can be read back.\<close>

lemma item_of_update:
  assumes cur: "item_of db i = Some w" and p: "p w"
    and only: "\<And>r. p r \<Longrightarrow> wi_id r = i" and key: "\<And>r. wi_id (f r) = wi_id r"
  shows "item_of (db\<lparr>db_items := snd (update_many p f (db_items db))\<rparr>) = (item_of db)(i \<mapsto> f w)"
proof
  fix k
  have "item_of (db\<lparr>db_items := snd (update_many p f (db_items db))\<rparr>) k =
      map_option (\<lambda>r. if p r then f r else r) (item_of db k)"
    using find_update_many [of wi_id f k p] key by (simp add: item_of_def)
  also have "\<dots> = ((item_of db)(i \<mapsto> f w)) k"
    using cur p only by (cases "item_of db k") (auto dest: item_of_Some)
  finally show "item_of (db\<lparr>db_items := snd (update_many p f (db_items db))\<rparr>) k =
      ((item_of db)(i \<mapsto> f w)) k" .
qed

lemma attempt_of_update:
  assumes cur: "attempt_of db i = Some a" and p: "p a"
    and only: "\<And>r. p r \<Longrightarrow> at_id r = i" and key: "\<And>r. at_id (f r) = at_id r"
  shows "attempt_of (db\<lparr>db_attempts := snd (update_many p f (db_attempts db))\<rparr>) = (attempt_of db)(i \<mapsto> f a)"
proof
  fix k
  have "attempt_of (db\<lparr>db_attempts := snd (update_many p f (db_attempts db))\<rparr>) k =
      map_option (\<lambda>r. if p r then f r else r) (attempt_of db k)"
    using find_update_many [of at_id f k p] key by (simp add: attempt_of_def)
  also have "\<dots> = ((attempt_of db)(i \<mapsto> f a)) k"
    using cur p only by (cases "attempt_of db k") (auto dest: attempt_of_Some)
  finally show "attempt_of (db\<lparr>db_attempts := snd (update_many p f (db_attempts db))\<rparr>) k =
      ((attempt_of db)(i \<mapsto> f a)) k" .
qed

lemma update_item_count:
  "item_of db i = Some w \<Longrightarrow> p w \<Longrightarrow> fst (update_many p f (db_items db)) \<noteq> 0"
  by (auto simp: update_many_count_0 dest: item_of_Some)

lemma update_attempt_count:
  "attempt_of db i = Some a \<Longrightarrow> p a \<Longrightarrow> fst (update_many p f (db_attempts db)) \<noteq> 0"
  by (auto simp: update_many_count_0 dest: attempt_of_Some)

definition moved_item :: "work_db \<Rightarrow> wi_state \<Rightarrow> work_item \<Rightarrow> work_item" where
  "moved_item db to w =
     w\<lparr>wi_lifecycleState := to, wi_revision := wi_revision w + 1, wi_updatedAt := db_now db\<rparr>"

definition claimed_item :: "work_db \<Rightarrow> string \<Rightarrow> work_item \<Rightarrow> work_item" where
  "claimed_item db aid w = (moved_item db WI_ASSIGNED w)\<lparr>wi_currentAttemptId := Some aid\<rparr>"

definition stamped_attempt :: "work_db \<Rightarrow> at_state \<Rightarrow> bool \<Rightarrow> attempt_row \<Rightarrow> attempt_row" where
  "stamped_attempt db to stamp a =
     a\<lparr>at_st := to, at_active := isActiveAttemptState to,
       at_endedAt := (if isActiveAttemptState to then None else Some (db_now db)),
       at_startedAt := (if stamp then Some (db_now db) else at_startedAt a),
       at_updatedAt := db_now db\<rparr>"

definition moved_attempt :: "work_db \<Rightarrow> at_state \<Rightarrow> attempt_row \<Rightarrow> attempt_row" where
  "moved_attempt db to a = stamped_attempt db to (to = AT_RUNNING \<and> at_startedAt a = None) a"

lemma moved_item_sel [simp]:
  "wi_id (moved_item db to w) = wi_id w" "wi_lifecycleState (moved_item db to w) = to"
  "wi_revision (moved_item db to w) = wi_revision w + 1"
  "wi_currentAttemptId (moved_item db to w) = wi_currentAttemptId w"
  "wi_projectId (moved_item db to w) = wi_projectId w"
  by (simp_all add: moved_item_def)

lemma claimed_item_sel [simp]:
  "wi_id (claimed_item db aid w) = wi_id w" "wi_lifecycleState (claimed_item db aid w) = WI_ASSIGNED"
  "wi_revision (claimed_item db aid w) = wi_revision w + 1"
  "wi_currentAttemptId (claimed_item db aid w) = Some aid"
  by (simp_all add: claimed_item_def)

lemma stamped_attempt_sel [simp]:
  "at_id (stamped_attempt db to b a) = at_id a" "at_st (stamped_attempt db to b a) = to"
  "at_active (stamped_attempt db to b a) = isActiveAttemptState to"
  "at_workItemId (stamped_attempt db to b a) = at_workItemId a"
  "at_attemptNumber (stamped_attempt db to b a) = at_attemptNumber a"
  "at_agentRunId (stamped_attempt db to b a) = at_agentRunId a"
  by (simp_all add: stamped_attempt_def)

lemma moved_attempt_sel [simp]:
  "at_id (moved_attempt db to a) = at_id a" "at_st (moved_attempt db to a) = to"
  "at_active (moved_attempt db to a) = isActiveAttemptState to"
  "at_workItemId (moved_attempt db to a) = at_workItemId a"
  "at_attemptNumber (moved_attempt db to a) = at_attemptNumber a"
  "at_agentRunId (moved_attempt db to a) = at_agentRunId a"
  by (simp_all add: moved_attempt_def)

lemma number_attempt_sel [simp]:
  "at_id (number_attempt a n) = at_id a" "at_st (number_attempt a n) = at_st a"
  "at_active (number_attempt a n) = isActiveAttemptState (at_st a)"
  "at_workItemId (number_attempt a n) = at_workItemId a"
  "at_attemptNumber (number_attempt a n) = n"
  by (simp_all add: number_attempt_def)

text \<open>
  Inside one transaction the guarded update hits the row that was read, and reading it back
  finds it: each operation equals its straight-line reading.
\<close>

definition with_item :: "work_db \<Rightarrow> string \<Rightarrow> (work_item \<Rightarrow> bool) \<Rightarrow> (work_item \<Rightarrow> work_item) \<Rightarrow> work_db" where
  "with_item db i p f = db\<lparr>db_items := snd (update_many (\<lambda>w. wi_id w = i \<and> p w) f (db_items db))\<rparr>"

definition with_attempt :: "work_db \<Rightarrow> string \<Rightarrow> (attempt_row \<Rightarrow> bool) \<Rightarrow> (attempt_row \<Rightarrow> attempt_row) \<Rightarrow> work_db" where
  "with_attempt db i p f = db\<lparr>db_attempts := snd (update_many (\<lambda>r. at_id r = i \<and> p r) f (db_attempts db))\<rparr>"

lemma with_item_sel [simp]:
  "db_attempts (with_item db i p f) = db_attempts db" "db_now (with_item db i p f) = db_now db"
  "attempt_of (with_item db i p f) = attempt_of db"
  by (simp_all add: with_item_def)

lemma with_attempt_sel [simp]:
  "db_items (with_attempt db i p f) = db_items db" "db_now (with_attempt db i p f) = db_now db"
  "item_of (with_attempt db i p f) = item_of db"
  by (simp_all add: with_attempt_def)

lemma set_with_item: "set (db_items (with_item db i p f)) =
    (\<lambda>w. if wi_id w = i \<and> p w then f w else w) ` set (db_items db)"
  by (simp add: with_item_def update_many_def)

lemma set_with_attempt: "set (db_attempts (with_attempt db i p f)) =
    (\<lambda>r. if at_id r = i \<and> p r then f r else r) ` set (db_attempts db)"
  by (simp add: with_attempt_def update_many_def)

lemma item_of_with_item:
  "item_of db i = Some w \<Longrightarrow> p w \<Longrightarrow> (\<And>r. wi_id (f r) = wi_id r) \<Longrightarrow>
   item_of (with_item db i p f) = (item_of db)(i \<mapsto> f w)"
  using item_of_update [of db i w "\<lambda>w. wi_id w = i \<and> p w" f] item_of_id [of db i w]
  by (simp add: with_item_def)

lemma attempt_of_with_attempt:
  "attempt_of db i = Some a \<Longrightarrow> p a \<Longrightarrow> (\<And>r. at_id (f r) = at_id r) \<Longrightarrow>
   attempt_of (with_attempt db i p f) = (attempt_of db)(i \<mapsto> f a)"
  using attempt_of_update [of db i a "\<lambda>r. at_id r = i \<and> p r" f] attempt_of_id [of db i a]
  by (simp add: with_attempt_def)

lemma item_row_with:
  "item_of db i = Some w \<Longrightarrow> p w \<Longrightarrow> (\<And>r. wi_id (f r) = wi_id r) \<Longrightarrow>
   find_row (\<lambda>w. wi_id w = i) (snd (update_many (\<lambda>w. wi_id w = i \<and> p w) f (db_items db))) = Some (f w)"
  using item_of_with_item [of db i w p f] by (simp add: item_of_def with_item_def fun_eq_iff)

lemma attempt_row_with:
  "attempt_of db i = Some a \<Longrightarrow> p a \<Longrightarrow> (\<And>r. at_id (f r) = at_id r) \<Longrightarrow>
   find_row (\<lambda>r. at_id r = i) (snd (update_many (\<lambda>r. at_id r = i \<and> p r) f (db_attempts db))) = Some (f a)"
  using attempt_of_with_attempt [of db i a p f] by (simp add: attempt_of_def with_attempt_def fun_eq_iff)

lemma transitionWorkItem_eq:
  "ws_transitionWorkItem i n to db =
     (case item_of db i of
        None \<Rightarrow> (Inl (RecordNotFound i), db)
      | Some w \<Rightarrow>
          if wi_revision w \<noteq> n then (Inl (WorkItemRevisionConflictError i n), db)
          else if to \<notin> set (wi_transitions (wi_lifecycleState w))
          then (Inl (InvalidWorkItemTransitionError (wi_lifecycleState w) to), db)
          else (Inr (moved_item db to w), with_item db i (\<lambda>w. wi_revision w = n) (moved_item db to)))"
proof (cases "item_of db i")
  case (Some w)
  have row: "wi_revision w = n \<Longrightarrow> find_row (\<lambda>w. wi_id w = i)
      (snd (update_many (\<lambda>w. wi_id w = i \<and> wi_revision w = n) (moved_item db to) (db_items db))) =
      Some (moved_item db to w)"
    using item_row_with [OF Some, of "\<lambda>w. wi_revision w = n" "moved_item db to"] by simp
  have cnt: "wi_revision w = n \<Longrightarrow>
      fst (update_many (\<lambda>w. wi_id w = i \<and> wi_revision w = n) (moved_item db to) (db_items db)) \<noteq> 0"
    using update_item_count [OF Some, of "\<lambda>w. wi_id w = i \<and> wi_revision w = n"] item_of_id [OF Some] by blast
  show ?thesis using Some row cnt
    by (auto simp: ws_transitionWorkItem_def assertWorkItemTransition_def with_item_def
        moved_item_def [abs_def] split: prod.split)
qed (simp add: ws_transitionWorkItem_def)

definition next_attempt :: "work_db \<Rightarrow> new_attempt \<Rightarrow> attempt_row" where
  "next_attempt db a = number_attempt a (max_attempt_number (at_workItemId a) (db_attempts db) + 1)"

lemma next_attempt_sel [simp]:
  "at_id (next_attempt db a) = at_id a" "at_st (next_attempt db a) = at_st a"
  "at_active (next_attempt db a) = isActiveAttemptState (at_st a)"
  "at_workItemId (next_attempt db a) = at_workItemId a"
  by (simp_all add: next_attempt_def)

lemma startAttempt_eq:
  "ws_startAttempt a n db =
     (case item_of db (at_workItemId a) of
        None \<Rightarrow> (Inl (RecordNotFound (at_workItemId a)), db)
      | Some w \<Rightarrow>
          if wi_revision w \<noteq> n then (Inl (WorkItemRevisionConflictError (at_workItemId a) n), db)
          else if WI_ASSIGNED \<notin> set (wi_transitions (wi_lifecycleState w))
          then (Inl (InvalidWorkItemTransitionError (wi_lifecycleState w) WI_ASSIGNED), db)
          else if \<exists>r \<in> set (db_attempts db). at_workItemId r = at_workItemId a \<and> at_active r
          then (Inl (ActiveAttemptExistsError (at_workItemId a)), db)
          else if attempt_of db (at_id a) \<noteq> None then (Inl (UniqueViolation (at_id a)), db)
          else (Inr (claimed_item db (at_id a) w, next_attempt db a),
                (with_item db (at_workItemId a) (\<lambda>w. wi_revision w = n) (claimed_item db (at_id a)))
                  \<lparr>db_attempts := db_attempts db @ [next_attempt db a]\<rparr>))"
proof (cases "item_of db (at_workItemId a)")
  case (Some w)
  let ?i = "at_workItemId a" and ?f = "claimed_item db (at_id a)"
  have id: "wi_id w = ?i" using item_of_id [OF Some] .
  have row: "wi_revision w = n \<Longrightarrow> find_row (\<lambda>w. wi_id w = ?i)
      (snd (update_many (\<lambda>w. wi_id w = ?i \<and> wi_revision w = n) ?f (db_items db))) = Some (?f w)"
    using item_row_with [OF Some, of "\<lambda>w. wi_revision w = n" ?f] by simp
  have cnt: "wi_revision w = n \<Longrightarrow>
      fst (update_many (\<lambda>w. wi_id w = ?i \<and> wi_revision w = n) ?f (db_items db)) \<noteq> 0"
    using update_item_count [OF Some, of "\<lambda>w. wi_id w = ?i \<and> wi_revision w = n"] id by blast
  have f: "?f = (\<lambda>w. w\<lparr>wi_lifecycleState := WI_ASSIGNED, wi_currentAttemptId := Some (at_id a),
      wi_revision := wi_revision w + 1, wi_updatedAt := db_now db\<rparr>)"
    by (simp add: fun_eq_iff claimed_item_def moved_item_def)
  have active: "find_row (\<lambda>r. at_workItemId r = ?i \<and> at_active r) (db_attempts db) = None \<longleftrightarrow>
      \<not> (\<exists>r \<in> set (db_attempts db). at_workItemId r = ?i \<and> at_active r)"
    by (auto simp: find_row_None)
  show ?thesis
    using Some row cnt active unfolding f
    by (auto simp: ws_startAttempt_def assertWorkItemTransition_def with_item_def id
        next_attempt_def Let_def split: prod.split)
qed (simp add: ws_startAttempt_def)

text \<open>Ending an attempt releases its work item.\<close>

definition released_item :: "work_db \<Rightarrow> work_item \<Rightarrow> work_item" where
  "released_item db w = w\<lparr>wi_currentAttemptId := None, wi_updatedAt := db_now db\<rparr>"

lemma released_item_sel [simp]:
  "wi_id (released_item db w) = wi_id w" "wi_lifecycleState (released_item db w) = wi_lifecycleState w"
  "wi_revision (released_item db w) = wi_revision w" "wi_currentAttemptId (released_item db w) = None"
  "wi_projectId (released_item db w) = wi_projectId w"
  by (simp_all add: released_item_def)

definition after_attempt_move :: "work_db \<Rightarrow> at_state \<Rightarrow> attempt_row \<Rightarrow> work_db" where
  "after_attempt_move db to a =
     (let db' = with_attempt db (at_id a) (\<lambda>r. at_st r = at_st a)
                  (stamped_attempt db to (to = AT_RUNNING \<and> at_startedAt a = None))
      in if isActiveAttemptState to then db'
         else with_item db' (at_workItemId a) (\<lambda>w. wi_currentAttemptId w = Some (at_id a)) (released_item db))"

lemma transitionAttempt_eq:
  "ws_transitionAttempt i to db =
     (case attempt_of db i of
        None \<Rightarrow> (Inl (RecordNotFound i), db)
      | Some a \<Rightarrow>
          if to \<notin> set (at_transitions (at_st a))
          then (Inl (InvalidAttemptTransitionError (at_st a) to), db)
          else (Inr (moved_attempt db to a), after_attempt_move db to a))"
proof (cases "attempt_of db i")
  case (Some a)
  let ?g = "stamped_attempt db to (to = AT_RUNNING \<and> at_startedAt a = None)"
  have id: "at_id a = i" using attempt_of_id [OF Some] .
  have row: "find_row (\<lambda>r. at_id r = i)
      (snd (update_many (\<lambda>r. at_id r = i \<and> at_st r = at_st a) ?g (db_attempts db))) = Some (?g a)"
    using attempt_row_with [OF Some, of "\<lambda>r. at_st r = at_st a" ?g] by simp
  have cnt: "fst (update_many (\<lambda>r. at_id r = i \<and> at_st r = at_st a) ?g (db_attempts db)) \<noteq> 0"
    using update_attempt_count [OF Some, of "\<lambda>r. at_id r = i \<and> at_st r = at_st a"] id by blast
  have g: "?g = (\<lambda>r. r\<lparr>at_st := to, at_active := isActiveAttemptState to,
      at_endedAt := (if isActiveAttemptState to then None else Some (db_now db)),
      at_startedAt := (if to = AT_RUNNING \<and> at_startedAt a = None then Some (db_now db) else at_startedAt r),
      at_updatedAt := db_now db\<rparr>)"
    by (simp add: fun_eq_iff stamped_attempt_def)
  have rel: "released_item db = (\<lambda>w. w\<lparr>wi_currentAttemptId := None, wi_updatedAt := db_now db\<rparr>)"
    by (simp add: fun_eq_iff released_item_def)
  obtain cnt' rows where u: "update_many (\<lambda>r. at_id r = i \<and> at_st r = at_st a) ?g (db_attempts db) = (cnt', rows)"
    by fastforce
  have lhs: "ws_transitionAttempt i to db =
     (if to \<notin> set (at_transitions (at_st a)) then (Inl (InvalidAttemptTransitionError (at_st a) to), db)
      else (Inr (?g a), db\<lparr>db_attempts := rows, db_items := (if isActiveAttemptState to then db_items db
         else snd (update_many (\<lambda>w. wi_id w = at_workItemId a \<and> wi_currentAttemptId w = Some (at_id a))
               (released_item db) (db_items db)))\<rparr>))"
    using Some row cnt u unfolding g rel
    by (simp add: ws_transitionAttempt_def assertAttemptTransition_def Let_def split: prod.split)
  show ?thesis
    unfolding lhs using Some u id
    by (simp add: moved_attempt_def after_attempt_move_def with_attempt_def with_item_def Let_def)
qed (simp add: ws_transitionAttempt_def)

definition bound_attempt :: "work_db \<Rightarrow> string \<Rightarrow> string \<Rightarrow> attempt_row \<Rightarrow> attempt_row" where
  "bound_attempt db r d a =
     a\<lparr>at_agentRunId := Some r, at_agentAdapterId := Some d, at_updatedAt := db_now db\<rparr>"

lemma bound_attempt_sel [simp]:
  "at_id (bound_attempt db r d a) = at_id a" "at_st (bound_attempt db r d a) = at_st a"
  "at_active (bound_attempt db r d a) = at_active a"
  "at_workItemId (bound_attempt db r d a) = at_workItemId a"
  "at_attemptNumber (bound_attempt db r d a) = at_attemptNumber a"
  "at_agentRunId (bound_attempt db r d a) = Some r"
  by (simp_all add: bound_attempt_def)

lemma bindAgentRun_eq:
  "ws_bindAgentRun i r d db =
     (case attempt_of db i of None \<Rightarrow> (Inl (RecordNotFound i), db)
      | Some a \<Rightarrow> (Inr (bound_attempt db r d a), with_attempt db i (\<lambda>_. True) (bound_attempt db r d)))"
  by (simp add: ws_bindAgentRun_def with_attempt_def update_many_def bound_attempt_def [abs_def]
      Let_def split: option.split)

lemmas ws_eqs = transitionWorkItem_eq startAttempt_eq transitionAttempt_eq bindAgentRun_eq
  ws_createWorkItem_def ws_getWorkItem_def ws_getAttempt_def

text \<open>A call that throws leaves the tables as they were.\<close>

lemma ws_throw_keeps:
  "ws_createWorkItem w db = (Inl e, db') \<Longrightarrow> db' = db"
  "ws_transitionWorkItem i n to db = (Inl e, db') \<Longrightarrow> db' = db"
  "ws_startAttempt a n db = (Inl e, db') \<Longrightarrow> db' = db"
  "ws_transitionAttempt i t db = (Inl e, db') \<Longrightarrow> db' = db"
  "ws_bindAgentRun i r d db = (Inl e, db') \<Longrightarrow> db' = db"
  by (auto simp: ws_eqs split: option.splits if_splits)

section \<open>The invariant of the tables\<close>

definition held_pair :: "work_item \<Rightarrow> (string \<times> string) set" where
  "held_pair w = (case wi_currentAttemptId w of None \<Rightarrow> {} | Some c \<Rightarrow> {(wi_id w, c)})"

definition active_pair :: "attempt_row \<Rightarrow> (string \<times> string) set" where
  "active_pair a = (if at_active a then {(at_workItemId a, at_id a)} else {})"

text \<open>
  Identifiers and attempt numbers are unique, the \<open>active\<close> column agrees with the state, and
  the current attempts that the work items name are exactly the active attempts.
\<close>

definition db_inv :: "work_db \<Rightarrow> bool" where
  "db_inv db \<longleftrightarrow>
     distinct (map wi_id (db_items db)) \<and> distinct (map at_id (db_attempts db)) \<and>
     distinct (map (\<lambda>a. (at_workItemId a, at_attemptNumber a)) (db_attempts db)) \<and>
     (\<forall>a \<in> set (db_attempts db). at_active a = isActiveAttemptState (at_st a) \<and> 1 \<le> at_attemptNumber a) \<and>
     (\<Union>w \<in> set (db_items db). held_pair w) = (\<Union>a \<in> set (db_attempts db). active_pair a)"

lemma db_inv_item:
  "db_inv db \<Longrightarrow> w \<in> set (db_items db) \<Longrightarrow> item_of db (wi_id w) = Some w"
  by (simp add: db_inv_def item_of_def find_row_key [of wi_id])

lemma db_inv_attempt:
  "db_inv db \<Longrightarrow> a \<in> set (db_attempts db) \<Longrightarrow> attempt_of db (at_id a) = Some a"
  by (simp add: db_inv_def attempt_of_def find_row_key [of at_id])

lemma keys_with_item: "(\<And>r. wi_id (f r) = wi_id r) \<Longrightarrow>
    map wi_id (db_items (with_item db i p f)) = map wi_id (db_items db)"
  by (simp add: with_item_def keys_update_many)

lemma keys_with_attempt: "(\<And>r. key (f r) = key r) \<Longrightarrow>
    map key (db_attempts (with_attempt db i p f)) = map key (db_attempts db)"
  by (simp add: with_attempt_def keys_update_many)

lemma max_attempt_number_ge:
  "a \<in> set rows \<Longrightarrow> at_attemptNumber a \<le> max_attempt_number (at_workItemId a) rows"
  unfolding max_attempt_number_def by (rule le_fold_max) auto

lemma next_number_above:
  "r \<in> set (db_attempts db) \<Longrightarrow> at_workItemId r = at_workItemId a \<Longrightarrow>
   at_attemptNumber r < at_attemptNumber (next_attempt db a)"
  using max_attempt_number_ge [of r "db_attempts db"] by (simp add: next_attempt_def)

text \<open>Each operation keeps the invariant.\<close>

lemma db_inv_move_item:
  assumes inv: "db_inv db" and f: "\<And>w. wi_id (f w) = wi_id w" "\<And>w. wi_currentAttemptId (f w) = wi_currentAttemptId w"
  shows "db_inv (with_item db i p f)"
proof -
  have "map wi_id (db_items (with_item db i p f)) = map wi_id (db_items db)"
    by (rule keys_with_item) (rule f)
  moreover have same: "held_pair (if wi_id w = i \<and> p w then f w else w) = held_pair w" for w
    by (cases "wi_currentAttemptId w") (simp_all add: held_pair_def f)
  have "(\<Union>w \<in> set (db_items (with_item db i p f)). held_pair w) = (\<Union>w \<in> set (db_items db). held_pair w)"
    by (simp only: set_with_item image_image same)
  ultimately show ?thesis
    using inv unfolding db_inv_def with_item_sel by simp
qed

lemma db_inv_same_attempts:
  assumes inv: "db_inv db"
    and f: "\<And>r. at_id (f r) = at_id r" "\<And>r. at_st (f r) = at_st r" "\<And>r. at_active (f r) = at_active r"
      "\<And>r. at_workItemId (f r) = at_workItemId r" "\<And>r. at_attemptNumber (f r) = at_attemptNumber r"
  shows "db_inv (with_attempt db i p f)"
proof -
  have "map at_id (db_attempts (with_attempt db i p f)) = map at_id (db_attempts db)"
    "map (\<lambda>a. (at_workItemId a, at_attemptNumber a)) (db_attempts (with_attempt db i p f)) =
     map (\<lambda>a. (at_workItemId a, at_attemptNumber a)) (db_attempts db)"
    by (rule keys_with_attempt, simp add: f)+
  moreover have same: "active_pair (if at_id a = i \<and> p a then f a else a) = active_pair a" for a
    by (simp add: active_pair_def f)
  have "(\<Union>a \<in> set (db_attempts (with_attempt db i p f)). active_pair a) =
      (\<Union>a \<in> set (db_attempts db). active_pair a)"
    by (simp only: set_with_attempt image_image same)
  moreover have "\<forall>a \<in> set (db_attempts (with_attempt db i p f)).
      at_active a = isActiveAttemptState (at_st a) \<and> 1 \<le> at_attemptNumber a"
    using inv unfolding set_with_attempt by (auto simp: db_inv_def f)
  ultimately show ?thesis
    using inv unfolding db_inv_def with_attempt_sel by metis
qed

lemma db_inv_create:
  assumes inv: "db_inv db" and new: "item_of db (wi_id w) = None" and cur: "wi_currentAttemptId w = None"
  shows "db_inv (db\<lparr>db_items := db_items db @ [w]\<rparr>)"
proof -
  have "wi_id w \<notin> wi_id ` set (db_items db)"
    using new by (auto simp: item_of_def find_row_None)
  moreover have "held_pair w = {}" by (simp add: held_pair_def cur)
  ultimately show ?thesis using inv by (simp add: db_inv_def)
qed

lemma UN_update_one:
  "r0 \<in> set rows \<Longrightarrow> (\<And>r. r \<in> set rows \<Longrightarrow> q r \<longleftrightarrow> r = r0) \<Longrightarrow>
   (\<Union>r \<in> set rows. g (if q r then f r else r)) = g (f r0) \<union> (\<Union>r \<in> set rows - {r0}. g r)"
  by (auto split: if_splits)

lemma UN_split_one: "r0 \<in> S \<Longrightarrow> (\<Union>r \<in> S. g r) = g r0 \<union> (\<Union>r \<in> S - {r0}. g r)"
  by auto

lemma held_pair_iff [simp]: "x \<in> held_pair w \<longleftrightarrow> fst x = wi_id w \<and> wi_currentAttemptId w = Some (snd x)"
  by (cases x) (auto simp: held_pair_def split: option.splits)

lemma active_pair_iff [simp]: "x \<in> active_pair a \<longleftrightarrow> at_active a \<and> x = (at_workItemId a, at_id a)"
  by (auto simp: active_pair_def)

lemma db_inv_held_active:
  "db_inv db \<Longrightarrow> w \<in> set (db_items db) \<Longrightarrow> wi_currentAttemptId w = Some c \<Longrightarrow>
   \<exists>a \<in> set (db_attempts db). at_id a = c \<and> at_workItemId a = wi_id w \<and> at_active a"
proof -
  assume inv: "db_inv db" and w: "w \<in> set (db_items db)" and c: "wi_currentAttemptId w = Some c"
  have "(wi_id w, c) \<in> (\<Union>w \<in> set (db_items db). held_pair w)" using w c by force
  also have "\<dots> = (\<Union>a \<in> set (db_attempts db). active_pair a)" using inv by (simp add: db_inv_def)
  finally show ?thesis by auto
qed

lemma db_inv_active_held:
  "db_inv db \<Longrightarrow> a \<in> set (db_attempts db) \<Longrightarrow> at_active a \<Longrightarrow>
   \<exists>w \<in> set (db_items db). wi_id w = at_workItemId a \<and> wi_currentAttemptId w = Some (at_id a)"
proof -
  assume inv: "db_inv db" and a: "a \<in> set (db_attempts db)" "at_active a"
  have "(at_workItemId a, at_id a) \<in> (\<Union>a \<in> set (db_attempts db). active_pair a)" using a by auto
  also have "\<dots> = (\<Union>w \<in> set (db_items db). held_pair w)" using inv by (simp add: db_inv_def)
  finally show ?thesis by auto
qed

lemma db_inv_start:
  assumes inv: "db_inv db" and w: "item_of db (at_workItemId a) = Some w" "wi_revision w = n"
    and act: "isActiveAttemptState (at_st a)"
    and none: "\<not> (\<exists>r \<in> set (db_attempts db). at_workItemId r = at_workItemId a \<and> at_active r)"
    and new: "attempt_of db (at_id a) = None"
  shows "db_inv ((with_item db (at_workItemId a) (\<lambda>w. wi_revision w = n) (claimed_item db (at_id a)))
    \<lparr>db_attempts := db_attempts db @ [next_attempt db a]\<rparr>)" (is "db_inv ?db'")
proof -
  let ?i = "at_workItemId a" and ?q = "\<lambda>r. wi_id r = at_workItemId a \<and> wi_revision r = n"
  have wm: "w \<in> set (db_items db)" "wi_id w = ?i" using item_of_Some [OF w(1)] by auto
  have only: "r \<in> set (db_items db) \<Longrightarrow> ?q r \<longleftrightarrow> r = w" for r
    using distinct_key_eq [of wi_id "db_items db" r w] wm w inv by (auto simp: db_inv_def)
  have ids: "map wi_id (db_items (with_item db ?i (\<lambda>w. wi_revision w = n) (claimed_item db (at_id a)))) =
      map wi_id (db_items db)"
    by (rule keys_with_item) simp
  have free: "wi_currentAttemptId w = None"
    using db_inv_held_active [OF inv wm(1)] none wm(2) by (cases "wi_currentAttemptId w") auto
  have sel: "db_items ?db' = db_items (with_item db ?i (\<lambda>w. wi_revision w = n) (claimed_item db (at_id a)))"
    by simp
  have rows: "set (db_items ?db') = (\<lambda>r. if ?q r then claimed_item db (at_id a) r else r) ` set (db_items db)"
    unfolding sel by (rule set_with_item)
  have "(\<Union>r \<in> set (db_items ?db'). held_pair r) =
      held_pair (claimed_item db (at_id a) w) \<union> (\<Union>r \<in> set (db_items db) - {w}. held_pair r)"
    unfolding rows image_image by (rule UN_update_one [OF wm(1) only])
  also have "\<dots> = {(?i, at_id a)} \<union> (\<Union>r \<in> set (db_items db). held_pair r)"
    using UN_split_one [OF wm(1), of held_pair] free wm(2) by (auto simp: held_pair_def)
  also have "\<dots> = (\<Union>r \<in> set (db_attempts ?db'). active_pair r)"
    using inv act by (simp add: db_inv_def active_pair_def)
  finally have pairs: "(\<Union>r \<in> set (db_items ?db'). held_pair r) = (\<Union>r \<in> set (db_attempts ?db'). active_pair r)" .
  have "at_id a \<notin> at_id ` set (db_attempts db)"
    using new by (auto simp: attempt_of_def find_row_None)
  moreover have "(?i, at_attemptNumber (next_attempt db a)) \<notin>
      (\<lambda>a. (at_workItemId a, at_attemptNumber a)) ` set (db_attempts db)"
    using next_number_above [of _ db a] by fastforce
  moreover have "1 \<le> at_attemptNumber (next_attempt db a)" by (simp add: next_attempt_def)
  ultimately show ?thesis
    using inv act pairs ids unfolding db_inv_def by simp
qed

lemma db_inv_move_attempt:
  assumes inv: "db_inv db" and a: "attempt_of db (at_id a) = Some a" and to: "to \<in> set (at_transitions (at_st a))"
  shows "db_inv (after_attempt_move db to a)"
proof -
  let ?f = "stamped_attempt db to (to = AT_RUNNING \<and> at_startedAt a = None)"
  let ?q = "\<lambda>r. at_id r = at_id a \<and> at_st r = at_st a"
  let ?db1 = "with_attempt db (at_id a) (\<lambda>r. at_st r = at_st a) ?f"
  let ?db' = "after_attempt_move db to a"
  have am: "a \<in> set (db_attempts db)" using attempt_of_Some [OF a] by simp
  have act: "at_active a" using inv am at_transition_from_active [OF to] by (simp add: db_inv_def)
  have only: "r \<in> set (db_attempts db) \<Longrightarrow> ?q r \<longleftrightarrow> r = a" for r
    using distinct_key_eq [of at_id "db_attempts db" r a] am inv by (auto simp: db_inv_def)
  have atts: "db_attempts ?db' = db_attempts ?db1"
    by (simp add: after_attempt_move_def Let_def)
  have rows: "set (db_attempts ?db') = (\<lambda>r. if ?q r then ?f r else r) ` set (db_attempts db)"
    unfolding atts by (simp only: set_with_attempt)
  have aids: "map at_id (db_attempts ?db') = map at_id (db_attempts db)"
    "map (\<lambda>a. (at_workItemId a, at_attemptNumber a)) (db_attempts ?db') =
     map (\<lambda>a. (at_workItemId a, at_attemptNumber a)) (db_attempts db)"
    unfolding atts by (rule keys_with_attempt, simp)+
  have each: "\<forall>r \<in> set (db_attempts ?db'). at_active r = isActiveAttemptState (at_st r) \<and> 1 \<le> at_attemptNumber r"
    using inv unfolding rows by (auto simp: db_inv_def)
  have apairs: "(\<Union>r \<in> set (db_attempts ?db'). active_pair r) =
      active_pair (?f a) \<union> (\<Union>r \<in> set (db_attempts db) - {a}. active_pair r)"
    unfolding rows image_image by (rule UN_update_one [OF am only])
  have old: "(\<Union>r \<in> set (db_items db). held_pair r) = active_pair a \<union> (\<Union>r \<in> set (db_attempts db) - {a}. active_pair r)"
    using inv UN_split_one [OF am, of active_pair] by (simp add: db_inv_def)
  show ?thesis
  proof (cases "isActiveAttemptState to")
    case True
    then have "db_items ?db' = db_items db" by (simp add: after_attempt_move_def Let_def)
    moreover have "active_pair (?f a) = active_pair a" using True act by (simp add: active_pair_def)
    ultimately show ?thesis using inv aids each apairs old unfolding db_inv_def by simp
  next
    case False
    let ?r = "\<lambda>w. wi_id w = at_workItemId a \<and> wi_currentAttemptId w = Some (at_id a)"
    obtain w where w: "w \<in> set (db_items db)" "wi_id w = at_workItemId a" "wi_currentAttemptId w = Some (at_id a)"
      using db_inv_active_held [OF inv am act] by blast
    have onlyw: "r \<in> set (db_items db) \<Longrightarrow> ?r r \<longleftrightarrow> r = w" for r
      using distinct_key_eq [of wi_id "db_items db" r w] w inv by (auto simp: db_inv_def)
    have its: "set (db_items ?db') = (\<lambda>r. if ?r r then released_item db r else r) ` set (db_items db)"
      using False by (simp only: after_attempt_move_def Let_def if_False set_with_item with_attempt_sel)
    have wids: "map wi_id (db_items ?db') = map wi_id (db_items db)"
      using False by (simp add: after_attempt_move_def Let_def keys_with_item del: map_eq_conv)
    have "(\<Union>r \<in> set (db_items ?db'). held_pair r) =
        held_pair (released_item db w) \<union> (\<Union>r \<in> set (db_items db) - {w}. held_pair r)"
      unfolding its image_image by (rule UN_update_one [OF w(1) onlyw])
    also have "\<dots> = (\<Union>r \<in> set (db_items db) - {w}. held_pair r)" by (simp add: held_pair_def)
    also have "\<dots> = (\<Union>r \<in> set (db_items db). held_pair r) - {(at_workItemId a, at_id a)}"
    proof -
      have "(at_workItemId a, at_id a) \<notin> (\<Union>r \<in> set (db_items db) - {w}. held_pair r)"
        using onlyw by (auto dest: sym)
      moreover have "held_pair w = {(at_workItemId a, at_id a)}" using w by (simp add: held_pair_def)
      ultimately show ?thesis using UN_split_one [OF w(1), of held_pair] by auto
    qed
    also have "\<dots> = (\<Union>r \<in> set (db_attempts db) - {a}. active_pair r)"
    proof -
      have "(at_workItemId a, at_id a) \<notin> (\<Union>r \<in> set (db_attempts db) - {a}. active_pair r)"
        using distinct_key_eq [of at_id "db_attempts db" _ a] am inv by (auto simp: db_inv_def)
      moreover have "active_pair a = {(at_workItemId a, at_id a)}" using act by (simp add: active_pair_def)
      ultimately show ?thesis unfolding old by auto
    qed
    also have "\<dots> = (\<Union>r \<in> set (db_attempts ?db'). active_pair r)"
      unfolding apairs using False by (simp add: active_pair_def)
    finally show ?thesis using inv aids each wids unfolding db_inv_def by simp
  qed
qed

section \<open>Runs of the store\<close>

text \<open>
  A store lives through any sequence of calls, successful or not, and of clock readings. New
  work items have no attempt yet and new attempts start active, as \<open>createWorkItem\<close> and the
  workflow engine build them.
\<close>

inductive ws_step :: "work_db \<Rightarrow> work_db \<Rightarrow> bool" where
  ws_create: "wi_currentAttemptId w = None \<Longrightarrow> ws_step db (snd (ws_createWorkItem w db))"
| ws_move: "ws_step db (snd (ws_transitionWorkItem i n to db))"
| ws_start: "isActiveAttemptState (at_st a) \<Longrightarrow> ws_step db (snd (ws_startAttempt a n db))"
| ws_attempt: "ws_step db (snd (ws_transitionAttempt i st db))"
| ws_bind: "ws_step db (snd (ws_bindAgentRun i r d db))"
| ws_tick: "ws_step db (db\<lparr>db_now := t\<rparr>)"

inductive ws_reach :: "work_db \<Rightarrow> work_db \<Rightarrow> bool" where
  ws_here: "ws_reach db db"
| ws_next: "ws_reach db db' \<Longrightarrow> ws_step db' db'' \<Longrightarrow> ws_reach db db''"

definition empty_work_db :: "int \<Rightarrow> work_db" where
  "empty_work_db t = \<lparr>db_items = [], db_attempts = [], db_now = t\<rparr>"

lemma ws_reach_closed:
  assumes "ws_reach db db'" "P db" "\<And>x y. P x \<Longrightarrow> ws_step x y \<Longrightarrow> P y"
  shows "P db'"
  using assms by (induction rule: ws_reach.induct) auto

lemma db_inv_step: "ws_step db db' \<Longrightarrow> db_inv db \<Longrightarrow> db_inv db'"
proof (induction rule: ws_step.induct)
  case (ws_create w db)
  then show ?case by (simp add: ws_createWorkItem_def db_inv_create)
next
  case (ws_move db i n to)
  then show ?case
    by (simp add: transitionWorkItem_eq db_inv_move_item split: option.split)
next
  case (ws_start a db n)
  then show ?case
    using db_inv_start [of db a] by (auto simp: startAttempt_eq split: option.split)
next
  case (ws_attempt db i st)
  show ?case
  proof (cases "attempt_of db i")
    case (Some a)
    then have "attempt_of db (at_id a) = Some a" using attempt_of_id [OF Some] by simp
    with ws_attempt Some show ?thesis by (simp add: transitionAttempt_eq db_inv_move_attempt)
  qed (simp add: transitionAttempt_eq ws_attempt)
next
  case (ws_bind db i r d)
  then show ?case
    by (simp add: bindAgentRun_eq db_inv_same_attempts split: option.split)
next
  case (ws_tick db t)
  then show ?case by (simp add: db_inv_def)
qed

lemma db_inv_reach: "ws_reach db db' \<Longrightarrow> db_inv db \<Longrightarrow> db_inv db'"
  by (rule ws_reach_closed [of db db' db_inv]) (auto intro: db_inv_step)

lemma db_inv_empty: "db_inv (empty_work_db t)"
  by (simp add: db_inv_def empty_work_db_def)

lemma one_active:
  "db_inv db \<Longrightarrow> a \<in> set (db_attempts db) \<Longrightarrow> b \<in> set (db_attempts db) \<Longrightarrow> at_active a \<Longrightarrow> at_active b \<Longrightarrow>
   at_workItemId a = at_workItemId b \<Longrightarrow> a = b"
proof -
  assume inv: "db_inv db" and a: "a \<in> set (db_attempts db)" "at_active a"
    and b: "b \<in> set (db_attempts db)" "at_active b" and eq: "at_workItemId a = at_workItemId b"
  obtain u v where u: "u \<in> set (db_items db)" "wi_id u = at_workItemId a" "wi_currentAttemptId u = Some (at_id a)"
    and v: "v \<in> set (db_items db)" "wi_id v = at_workItemId b" "wi_currentAttemptId v = Some (at_id b)"
    using db_inv_active_held [OF inv a] db_inv_active_held [OF inv b] by blast
  have "u = v" using inv u v eq by (auto simp: db_inv_def intro: distinct_key_eq)
  with u v have "at_id a = at_id b" by simp
  then show "a = b" using inv a b by (auto simp: db_inv_def intro: distinct_key_eq)
qed

lemma item_of_with:
  "(\<And>r. wi_id (f r) = wi_id r) \<Longrightarrow>
   item_of (with_item db i p f) k = map_option (\<lambda>r. if wi_id r = i \<and> p r then f r else r) (item_of db k)"
  using find_update_many [of wi_id f k "\<lambda>w. wi_id w = i \<and> p w" "db_items db"]
  by (simp add: item_of_def with_item_def)

lemma attempt_of_with:
  "(\<And>r. at_id (f r) = at_id r) \<Longrightarrow>
   attempt_of (with_attempt db i p f) k = map_option (\<lambda>r. if at_id r = i \<and> p r then f r else r) (attempt_of db k)"
  using find_update_many [of at_id f k "\<lambda>w. at_id w = i \<and> p w" "db_attempts db"]
  by (simp add: attempt_of_def with_attempt_def)

text \<open>How a row may differ from an earlier reading of it.\<close>

definition item_later :: "work_item \<Rightarrow> work_item \<Rightarrow> bool" where
  "item_later w w' \<longleftrightarrow> wi_id w' = wi_id w \<and> wi_projectId w' = wi_projectId w \<and> wi_objective w' = wi_objective w \<and>
     wi_revision w \<le> wi_revision w' \<and> wi_reach (wi_lifecycleState w) (wi_lifecycleState w') \<and>
     (wi_revision w' = wi_revision w \<longrightarrow> wi_lifecycleState w' = wi_lifecycleState w \<and>
        wi_currentAttemptId w' \<in> {None, wi_currentAttemptId w})"

definition attempt_later :: "attempt_row \<Rightarrow> attempt_row \<Rightarrow> bool" where
  "attempt_later a a' \<longleftrightarrow> at_id a' = at_id a \<and> at_workItemId a' = at_workItemId a \<and>
     at_attemptNumber a' = at_attemptNumber a \<and> at_reach (at_st a) (at_st a')"

lemma item_later_refl: "item_later w w"
  by (simp add: item_later_def wi_here)

lemma attempt_later_refl: "attempt_later a a"
  by (simp add: attempt_later_def at_here)

lemma wi_reach_trans: "wi_reach a b \<Longrightarrow> wi_reach b c \<Longrightarrow> wi_reach a c"
  by (rotate_tac 1, induction rule: wi_reach.induct) (auto intro: wi_move)

lemma at_reach_trans: "at_reach a b \<Longrightarrow> at_reach b c \<Longrightarrow> at_reach a c"
  by (rotate_tac 1, induction rule: at_reach.induct) (auto intro: at_move)

lemma item_later_trans: "item_later a b \<Longrightarrow> item_later b c \<Longrightarrow> item_later a c"
  unfolding item_later_def by (auto intro: wi_reach_trans)

lemma attempt_later_trans: "attempt_later a b \<Longrightarrow> attempt_later b c \<Longrightarrow> attempt_later a c"
  unfolding attempt_later_def by (auto intro: at_reach_trans)

lemma item_later_moved:
  "to \<in> set (wi_transitions (wi_lifecycleState w)) \<Longrightarrow> item_later w (moved_item db to w)"
  "WI_ASSIGNED \<in> set (wi_transitions (wi_lifecycleState w)) \<Longrightarrow> item_later w (claimed_item db aid w)"
  "item_later w (released_item db w)"
  by (auto simp: item_later_def claimed_item_def moved_item_def released_item_def intro: wi_move wi_here)

lemma attempt_later_moved:
  "to \<in> set (at_transitions (at_st a)) \<Longrightarrow> attempt_later a (stamped_attempt db to s a)"
  "attempt_later a (bound_attempt db r d a)"
  by (auto simp: attempt_later_def intro: at_move at_here)

lemma item_later_step:
  "ws_step db db' \<Longrightarrow> item_of db i = Some w \<Longrightarrow> \<exists>w'. item_of db' i = Some w' \<and> item_later w w'"
proof (induction rule: ws_step.induct)
  case (ws_create v db)
  then show ?case
    by (auto simp: ws_createWorkItem_def item_of_def find_row_append item_later_refl)
next
  case (ws_move db j n to)
  show ?case
  proof (cases "item_of db j")
    case (Some v)
    then show ?thesis using ws_move item_of_id [OF Some] item_of_id [OF ws_move]
      by (cases "j = i") (simp_all add: transitionWorkItem_eq item_of_with item_later_refl item_later_moved)
  qed (simp add: transitionWorkItem_eq ws_move item_later_refl)
next
  case (ws_start a db n)
  show ?case
  proof (cases "item_of db (at_workItemId a)")
    case (Some v)
    then show ?thesis using ws_start item_of_id [OF Some] item_of_id [OF ws_start(2)]
      by (cases "at_workItemId a = i") (simp_all add: startAttempt_eq item_of_with item_later_refl item_later_moved)
  qed (simp add: startAttempt_eq ws_start item_later_refl)
next
  case (ws_attempt db j st)
  then show ?case
    by (auto simp: transitionAttempt_eq after_attempt_move_def item_of_with Let_def item_later_refl
        item_later_moved split: option.split)
next
  case (ws_bind db j r d)
  then show ?case by (simp add: bindAgentRun_eq item_later_refl split: option.split)
next
  case (ws_tick db t)
  then show ?case by (simp add: item_of_def item_later_refl)
qed

lemma attempt_later_step:
  "ws_step db db' \<Longrightarrow> attempt_of db i = Some a \<Longrightarrow> \<exists>a'. attempt_of db' i = Some a' \<and> attempt_later a a'"
proof (induction rule: ws_step.induct)
  case (ws_create v db)
  then show ?case by (auto simp: ws_createWorkItem_def attempt_later_refl)
next
  case (ws_move db j n to)
  then show ?case by (auto simp: transitionWorkItem_eq attempt_later_refl split: option.split)
next
  case (ws_start b db n)
  then show ?case
    by (auto simp: startAttempt_eq attempt_of_def find_row_append attempt_later_refl split: option.split)
next
  case (ws_attempt db j st)
  show ?case
  proof (cases "attempt_of db j")
    case (Some b)
    have "at_id b = j" "at_id a = i" using attempt_of_id Some ws_attempt by blast+
    then show ?thesis using Some ws_attempt
      by (cases "j = i") (auto simp: transitionAttempt_eq after_attempt_move_def attempt_of_with Let_def
          attempt_later_refl attempt_later_moved)
  qed (simp add: transitionAttempt_eq ws_attempt attempt_later_refl)
next
  case (ws_bind db j r d)
  then show ?case
    by (auto simp: bindAgentRun_eq attempt_of_with attempt_later_refl attempt_later_moved split: option.split)
next
  case (ws_tick db t)
  then show ?case by (simp add: attempt_of_def attempt_later_refl)
qed

lemma item_later_reach:
  "ws_reach db db' \<Longrightarrow> item_of db i = Some w \<Longrightarrow> \<exists>w'. item_of db' i = Some w' \<and> item_later w w'"
  by (induction rule: ws_reach.induct) (blast intro: item_later_refl item_later_trans dest: item_later_step)+

lemma attempt_later_reach:
  "ws_reach db db' \<Longrightarrow> attempt_of db i = Some a \<Longrightarrow> \<exists>a'. attempt_of db' i = Some a' \<and> attempt_later a a'"
  by (induction rule: ws_reach.induct) (blast intro: attempt_later_refl attempt_later_trans dest: attempt_later_step)+

section \<open>Properties\<close>

definition sample_item :: work_item where
  "sample_item = createWorkItem ''w'' ''p'' None TASK ''o'' None 5"

definition sample_attempt :: "string \<Rightarrow> new_attempt" where
  "sample_attempt i = \<lparr>at_id = i, at_projectId = ''p'', at_workItemId = ''w'', at_st = AT_NOT_STARTED,
     at_workPackageVersion = 1, at_agentRunId = None, at_agentAdapterId = None, at_startedAt = None,
     at_endedAt = None, at_createdAt = 5, at_updatedAt = 5\<rparr>"

definition sample_ready :: work_db where
  "sample_ready = snd (ws_transitionWorkItem ''w'' 1 WI_READY
     (snd (ws_createWorkItem sample_item (empty_work_db 7))))"

definition sample_started :: work_db where
  "sample_started = snd (ws_startAttempt (sample_attempt ''a'') 2 sample_ready)"

lemma sample_ready_reach: "ws_reach (empty_work_db 7) sample_ready"
  unfolding sample_ready_def
  by (rule ws_next [OF ws_next [OF ws_here ws_create] ws_move]) (simp add: sample_item_def createWorkItem_def)

lemma sample_started_reach: "ws_reach (empty_work_db 7) sample_started"
  unfolding sample_started_def
  by (rule ws_next [OF sample_ready_reach ws_start]) (simp add: sample_attempt_def)

text \<open>
  C4: from an empty database, whatever calls are made and in whatever order, a work item never
  has two active attempts, and it names its active attempt as the current one.
\<close>

theorem at_most_one_active_attempt:
  assumes "ws_reach (empty_work_db t) db"
    and "a \<in> set (db_attempts db)" "b \<in> set (db_attempts db)" "at_active a" "at_active b"
    and "at_workItemId a = at_workItemId b"
  shows "a = b \<and> (\<exists>w. item_of db (at_workItemId a) = Some w \<and> wi_currentAttemptId w = Some (at_id a))"
proof -
  have inv: "db_inv db" using assms(1) by (rule db_inv_reach) (rule db_inv_empty)
  have "a = b" using one_active [OF inv] assms by blast
  moreover have "\<exists>w. item_of db (at_workItemId a) = Some w \<and> wi_currentAttemptId w = Some (at_id a)"
    using db_inv_active_held [OF inv assms(2,4)] db_inv_item [OF inv] by metis
  ultimately show ?thesis by blast
qed

lemma at_most_one_active_attempt_witness:
  "at_active (hd (db_attempts sample_started)) \<and>
   (\<exists>w. item_of sample_started ''w'' = Some w \<and> wi_currentAttemptId w = Some ''a'')"
proof -
  have m: "hd (db_attempts sample_started) \<in> set (db_attempts sample_started)" by code_simp
  have a: "at_active (hd (db_attempts sample_started))" by code_simp
  have w: "at_workItemId (hd (db_attempts sample_started)) = ''w''" "at_id (hd (db_attempts sample_started)) = ''a''"
    by code_simp+
  show ?thesis using at_most_one_active_attempt [OF sample_started_reach m m a a refl] a w by simp
qed

text \<open>
  C5: the optimistic lock. Once a move of a work item has succeeded at revision \<open>n\<close>, no later
  move at the same expected revision succeeds, whatever happened in between: it is refused
  with the revision conflict and changes nothing.
\<close>

theorem optimistic_lock:
  assumes "ws_transitionWorkItem i n to db = (Inr w, db1)" and "ws_reach db1 db2"
  shows "ws_transitionWorkItem i n to2 db2 = (Inl (WorkItemRevisionConflictError i n), db2)"
proof -
  obtain v where v: "item_of db i = Some v" "wi_revision v = n"
    and db1: "db1 = with_item db i (\<lambda>w. wi_revision w = n) (moved_item db to)"
    using assms(1) by (auto simp: transitionWorkItem_eq split: option.splits if_splits)
  have "item_of db1 i = Some (moved_item db to v)"
    using v item_of_id [OF v(1)] by (simp add: db1 item_of_with)
  then obtain w' where "item_of db2 i = Some w'" "wi_revision w' > n"
    using item_later_reach [OF assms(2)] v(2) by (fastforce simp: item_later_def)
  then show ?thesis by (simp add: transitionWorkItem_eq)
qed

lemma optimistic_lock_witness:
  "fst (ws_transitionWorkItem ''w'' 2 WI_BLOCKED (snd (ws_transitionWorkItem ''w'' 2 WI_QUEUED sample_ready))) =
     Inl (WorkItemRevisionConflictError ''w'' 2)"
proof -
  let ?r = "ws_transitionWorkItem ''w'' 2 WI_QUEUED sample_ready"
  have "?r = (Inr (projr (fst ?r)), snd ?r)" by code_simp
  from optimistic_lock [OF this ws_here, of WI_BLOCKED] show ?thesis by simp
qed

text \<open>
  Attempt numbers grow. An attempt started later on the same work item has a larger
  number than every attempt started before it.
\<close>

theorem attempt_numbers_increase:
  assumes "ws_startAttempt a n db = (Inr (w, c), db1)" and "ws_reach db1 db2"
    and "ws_startAttempt a' n' db2 = (Inr (w', c'), db3)" and "at_workItemId a' = at_workItemId a"
  shows "at_attemptNumber c < at_attemptNumber c'"
proof -
  obtain v where "item_of db (at_workItemId a) = Some v" and new: "attempt_of db (at_id a) = None"
    and c: "c = next_attempt db a" and atts: "db_attempts db1 = db_attempts db @ [c]"
    using assms(1) by (auto simp: startAttempt_eq split: option.splits if_splits)
  have "attempt_of db1 (at_id a) = Some c"
    using new by (simp add: attempt_of_def atts find_row_append c split: option.split)
  then obtain c2 where c2: "attempt_of db2 (at_id a) = Some c2" "attempt_later c c2"
    using attempt_later_reach [OF assms(2)] by blast
  have "c' = next_attempt db2 a'"
    using assms(3) by (auto simp: startAttempt_eq split: option.splits if_splits)
  then show ?thesis
    using next_number_above [of c2 db2 a'] attempt_of_Some [OF c2(1)] c2(2) assms(4) c
    by (simp add: attempt_later_def)
qed

definition sample_ended :: work_db where
  "sample_ended = snd (ws_transitionWorkItem ''w'' 3 WI_READY
     (snd (ws_transitionAttempt ''a'' AT_CANCELLED sample_started)))"

lemma attempt_numbers_increase_witness:
  "(case (fst (ws_startAttempt (sample_attempt ''a'') 2 sample_ready),
          fst (ws_startAttempt (sample_attempt ''b'') 4 sample_ended)) of
      (Inr (_, c), Inr (_, c')) \<Rightarrow> at_attemptNumber c < at_attemptNumber c' | _ \<Rightarrow> False)"
proof -
  let ?r = "ws_startAttempt (sample_attempt ''a'') 2 sample_ready"
  let ?s = "ws_startAttempt (sample_attempt ''b'') 4 sample_ended"
  obtain w c where r: "?r = (Inr (w, c), sample_started)"
    unfolding sample_started_def
    by (cases ?r; cases "fst ?r") (auto, (code_simp)?)
  obtain w' c' db3 where s: "?s = (Inr (w', c'), db3)"
    by (cases ?s; cases "fst ?s") (auto, (code_simp)?)
  have "ws_reach sample_started sample_ended"
    unfolding sample_ended_def by (rule ws_next [OF ws_next [OF ws_here ws_attempt] ws_move])
  from attempt_numbers_increase [OF r this s] show ?thesis
    using r s by (simp add: sample_attempt_def)
qed

text \<open>
  An attempt that has ended stays ended in the same state for ever: no later call moves it, and each is
  refused as an invalid transition.
\<close>

theorem ended_attempt_is_final:
  assumes "attempt_of db i = Some a" "\<not> isActiveAttemptState (at_st a)" "ws_reach db db'"
  shows "ws_transitionAttempt i to db' = (Inl (InvalidAttemptTransitionError (at_st a) to), db')"
proof -
  obtain a' where a': "attempt_of db' i = Some a'" "at_reach (at_st a) (at_st a')"
    using attempt_later_reach [OF assms(3,1)] by (auto simp: attempt_later_def)
  have "at_st a' = at_st a"
    using assms(2) at_reach_closed [OF a'(2), of "\<lambda>s. s = at_st a"] at_transition_from_active by blast
  moreover have "to \<notin> set (at_transitions (at_st a))" using assms(2) at_transition_from_active by blast
  ultimately show ?thesis using a'(1) by (simp add: transitionAttempt_eq)
qed

lemma ended_attempt_is_final_witness:
  "fst (ws_transitionAttempt ''a'' AT_RUNNING sample_ended) =
     Inl (InvalidAttemptTransitionError AT_CANCELLED AT_RUNNING)"
proof -
  have a: "attempt_of sample_ended ''a'' = Some (hd (db_attempts sample_ended))" by code_simp
  have s: "at_st (hd (db_attempts sample_ended)) = AT_CANCELLED" by code_simp
  show ?thesis using ended_attempt_is_final [OF a _ ws_here, of AT_RUNNING] s by simp
qed

end
