(* ===== verification/Workflow_Engine.thy ===== *)
theory Workflow_Engine
  imports Complex_Main Work_Store
begin

text \<open>
  The minimal workflow engine and the resume coordinator (\<^verbatim>\<open>packages/workflow/src\<close>) over the
  agent contract (\<^verbatim>\<open>packages/contracts/src/agent/contracts.ts\<close>). The store is an interface
  (\<open>WorkflowWorkStore\<close>): the engine is generic in it, and its outcome is proved once from the
  laws of the interface, which the durable store of \<^verbatim>\<open>Work_Store\<close> satisfies. The agent adapter is
  external: its calls are parameters that act on a world of their own.
\<close>

section \<open>The agent contract\<close>

datatype agent_run_status = AR_CREATED | AR_QUEUED | AR_STARTING | AR_RUNNING | AR_WAITING_FOR_TOOL
  | AR_WAITING_FOR_INPUT | AR_COMPLETED | AR_FAILED | AR_CANCELLING | AR_CANCELLED
  | AR_INTERRUPTED | AR_UNKNOWN

datatype input_class = IC_AUTHORITATIVE | IC_DERIVED | IC_OBSERVED | IC_PROPOSED

record work_package =
  wp_schemaVersion :: string
  wp_workPackageId :: string
  wp_version :: nat
  wp_projectId :: string
  wp_workItemId :: string
  wp_completionObjectRef :: string
  wp_objective :: string
  wp_authoritativeInputs :: "(string \<times> input_class) list"
  wp_scopeRefs :: "string list"
  wp_constraints :: "string list"
  wp_authorityContextRef :: string
  wp_requiredCapabilities :: "string list"
  wp_allowedActions :: "string list"
  wp_forbiddenActions :: "string list"
  wp_toolsAllowed :: "string list"
  wp_expectedArtifactsOut :: "string list"
  wp_verificationRequirements :: "string list"
  wp_evidenceRequirements :: "string list"
  wp_dependencies :: "string list"
  wp_stopConditions :: "string list"

record runtime_context =
  rc_correlationId :: string
  rc_workflowRunId :: string
  rc_attemptId :: string
  rc_secretRefs :: "string list"

record run_handle =
  rh_runId :: string
  rh_status :: agent_run_status

text \<open>The types of the enumeration, and a text that an unchecked cast of an adapter let through.\<close>

datatype artifact_type = ART_PATCH | ART_FILE | ART_COMMIT | ART_BRANCH | ART_PR | ART_TEST_REPORT
  | ART_BUILD | ART_DEPLOYMENT | ART_DOCUMENT | ART_SCREENSHOT | ART_LOG_BUNDLE | ART_UNCHECKED string

record artifact_ref =
  ar_artifactId :: string
  ar_type :: artifact_type
  ar_ref :: string

record evidence_ref =
  er_evidenceId :: string
  er_type :: string
  er_claimSupported :: string
  er_sourceRef :: string

datatype cost_status = COST_KNOWN | COST_ESTIMATED | COST_UNKNOWN

record agent_usage =
  us_inputUnits :: nat
  us_outputUnits :: nat
  us_estimatedCost :: rat
  us_currency :: string
  us_costStatus :: cost_status

datatype finding_severity = SEV_CRITICAL | SEV_HIGH | SEV_MEDIUM | SEV_LOW

record agent_run_result =
  res_schemaVersion :: string
  res_runId :: string
  res_status :: agent_run_status
  res_summary :: string
  res_actionsTaken :: "string list"
  res_artifacts :: "artifact_ref list"
  res_findings :: "(string \<times> finding_severity \<times> string list) list"
  res_evidence :: "evidence_ref list"
  res_unresolvedItems :: "string list"
  res_requestedInputs :: "string list"
  res_sideEffects :: "string list"
  res_usage :: agent_usage

record 'x agent_adapter =
  ad_execute :: "work_package \<Rightarrow> runtime_context \<Rightarrow> ('x, exn, run_handle) act"
  ad_resume :: "string \<Rightarrow> runtime_context \<Rightarrow> ('x, exn, run_handle) act"
  ad_getStatus :: "string \<Rightarrow> ('x, exn, agent_run_status) act"
  ad_getArtifacts :: "string \<Rightarrow> ('x, exn, artifact_ref list) act"
  ad_getEvidence :: "string \<Rightarrow> ('x, exn, evidence_ref list) act"
  ad_getUsage :: "string \<Rightarrow> ('x, exn, agent_usage) act"

section \<open>The store interface\<close>

record 's store_ops =
  so_startAttempt :: "new_attempt \<Rightarrow> nat \<Rightarrow> ('s, exn, work_item \<times> attempt_row) act"
  so_transitionAttempt :: "string \<Rightarrow> at_state \<Rightarrow> ('s, exn, attempt_row) act"
  so_bindAgentRun :: "string \<Rightarrow> string \<Rightarrow> string \<Rightarrow> ('s, exn, attempt_row) act"
  so_transitionWorkItem :: "string \<Rightarrow> nat \<Rightarrow> wi_state \<Rightarrow> ('s, exn, work_item) act"

text \<open>The world of the engine: the store and the agent's own world.\<close>

definition on_store :: "('s, 'e, 'a) act \<Rightarrow> ('s \<times> 'x, 'e, 'a) act" where
  "on_store m = (\<lambda>(s, x). case m s of (r, s') \<Rightarrow> (r, (s', x)))"

definition on_agent :: "('x, 'e, 'a) act \<Rightarrow> ('s \<times> 'x, 'e, 'a) act" where
  "on_agent m = (\<lambda>(s, x). case m x of (r, x') \<Rightarrow> (r, (s, x')))"

section \<open>The engine\<close>

record workflow_result =
  wr_workItem :: work_item
  wr_attempt :: attempt_row
  wr_agentRun :: "run_handle option"
  wr_agentResult :: "agent_run_result option"

fun mapResult :: "agent_run_status \<Rightarrow> at_state \<times> wi_state" where
  "mapResult AR_COMPLETED = (AT_SUCCEEDED, WI_VERIFICATION_REQUIRED)"
| "mapResult AR_FAILED = (AT_FAILED, WI_REPAIR_REQUIRED)"
| "mapResult AR_INTERRUPTED = (AT_INTERRUPTED, WI_RECOVERY_REQUIRED)"
| "mapResult AR_CANCELLED = (AT_CANCELLED, WI_RECOVERY_REQUIRED)"
| "mapResult _ = (AT_FAILED, WI_REPAIR_REQUIRED)"

definition assertExecutable :: "work_item \<Rightarrow> work_package \<Rightarrow> exn + unit" where
  "assertExecutable w wp =
     (if wi_lifecycleState w \<noteq> WI_READY then Inl (WorkItemNotReadyError (wi_id w) (wi_lifecycleState w))
      else if wp_projectId wp \<noteq> wi_projectId w \<or> wp_workItemId wp \<noteq> wi_id w
      then Inl (WorkPackageWorkItemMismatchError
        (''WorkPackage '' @ wp_workPackageId wp @ '' does not target WorkItem '' @ wi_id w @
         '' in Project '' @ wi_projectId w @ ''.''))
      else Inr ())"

text \<open>The four calls that build the result of a run, and the result.\<close>

definition collectResult :: "'x agent_adapter \<Rightarrow> string \<Rightarrow> string \<Rightarrow> ('x, exn, agent_run_result) act" where
  "collectResult ad runId summary =
     act_bind (ad_getStatus ad runId) (\<lambda>status.
     act_bind (ad_getArtifacts ad runId) (\<lambda>artifacts.
     act_bind (ad_getEvidence ad runId) (\<lambda>evidence.
     act_bind (ad_getUsage ad runId) (\<lambda>usage.
     act_return \<lparr>res_schemaVersion = ''1.0.0'', res_runId = runId, res_status = status,
       res_summary = summary, res_actionsTaken = [], res_artifacts = artifacts, res_findings = [],
       res_evidence = evidence, res_unresolvedItems = [], res_requestedInputs = [],
       res_sideEffects = [], res_usage = usage\<rparr>))))"

text \<open>The way every branch ends: the attempt moves, then the work item, then the result.\<close>

definition settle :: "'s store_ops \<Rightarrow> string \<Rightarrow> at_state \<Rightarrow> work_item \<Rightarrow> wi_state \<Rightarrow>
    run_handle option \<Rightarrow> agent_run_result option \<Rightarrow> ('s \<times> 'x, exn, workflow_result) act" where
  "settle st aid to w wto run result =
     act_bind (on_store (so_transitionAttempt st aid to)) (\<lambda>a.
     act_bind (on_store (so_transitionWorkItem st (wi_id w) (wi_revision w) wto)) (\<lambda>w'.
     act_return \<lparr>wr_workItem = w', wr_attempt = a, wr_agentRun = run, wr_agentResult = result\<rparr>))"

definition finish_run :: "'s store_ops \<Rightarrow> 'x agent_adapter \<Rightarrow> string \<Rightarrow> work_item \<Rightarrow> run_handle \<Rightarrow>
    ('s \<times> 'x, exn, workflow_result) act" where
  "finish_run st ad aid w run =
     (if rh_status run = AR_WAITING_FOR_INPUT then settle st aid AT_INTERRUPTED w WI_WAITING (Some run) None
      else if rh_status run = AR_UNKNOWN then settle st aid AT_UNKNOWN w WI_RECOVERY_REQUIRED (Some run) None
      else act_try (on_agent (collectResult ad (rh_runId run) ''Execution completed''))
        (\<lambda>result. case mapResult (res_status result) of
           (to, wto) \<Rightarrow> settle st aid to w wto (Some run) (Some result))
        (\<lambda>_. settle st aid AT_FAILED w WI_RECOVERY_REQUIRED (Some run) None))"

definition new_engine_attempt :: "work_item \<Rightarrow> work_package \<Rightarrow> string \<Rightarrow> int \<Rightarrow> new_attempt" where
  "new_engine_attempt w wp aid now =
     \<lparr>at_id = aid, at_projectId = wi_projectId w, at_workItemId = wi_id w, at_st = AT_NOT_STARTED,
      at_workPackageVersion = wp_version wp, at_agentRunId = None, at_agentAdapterId = None,
      at_startedAt = None, at_endedAt = None, at_createdAt = now, at_updatedAt = now\<rparr>"

text \<open>\<open>execute\<close>; \<open>aid\<close> is the fresh \<open>randomUUID()\<close>, \<open>now\<close> the date of the call.\<close>

definition engine_execute :: "'s store_ops \<Rightarrow> 'x agent_adapter \<Rightarrow> work_item \<Rightarrow> work_package \<Rightarrow>
    string \<Rightarrow> string \<Rightarrow> string \<Rightarrow> int \<Rightarrow> ('s \<times> 'x, exn, workflow_result) act" where
  "engine_execute st ad w wp corr wrun aid now =
     (case assertExecutable w wp of
        Inl e \<Rightarrow> act_throw e
      | Inr _ \<Rightarrow>
          act_bind (on_store (so_startAttempt st (new_engine_attempt w wp aid now) (wi_revision w)))
            (\<lambda>(pw, _).
          act_bind (on_store (so_transitionAttempt st aid AT_STARTING)) (\<lambda>_.
          act_bind (on_store (so_transitionAttempt st aid AT_RUNNING)) (\<lambda>_.
          act_bind (on_store (so_transitionWorkItem st (wi_id w) (wi_revision pw) WI_RUNNING)) (\<lambda>rw.
          let ctx = \<lparr>rc_correlationId = corr, rc_workflowRunId = wrun, rc_attemptId = aid, rc_secretRefs = []\<rparr>
          in act_try
            (act_bind (on_agent (ad_execute ad wp ctx)) (\<lambda>run.
             act_bind (on_store (so_bindAgentRun st aid (rh_runId run) ''codex-adapter'')) (\<lambda>_.
             act_return run)))
            (finish_run st ad aid rw)
            (\<lambda>_. settle st aid AT_FAILED rw WI_RECOVERY_REQUIRED None None))))))"

section \<open>The resume coordinator\<close>

definition resume_run :: "'s store_ops \<Rightarrow> 'x agent_adapter \<Rightarrow> work_item \<Rightarrow> attempt_row \<Rightarrow>
    string \<Rightarrow> string \<Rightarrow> ('s \<times> 'x, exn, workflow_result) act" where
  "resume_run st ad w a corr wrun =
     (if \<not> truthy (at_agentRunId a) then act_throw (GenericError (''Attempt '' @ at_id a @ '' has no agentRunId''))
      else
        let rid = or_empty (at_agentRunId a);
            ctx = \<lparr>rc_correlationId = corr, rc_workflowRunId = wrun, rc_attemptId = at_id a, rc_secretRefs = []\<rparr>
        in act_try (on_agent (ad_resume ad rid ctx))
          (\<lambda>run.
             if rh_status run \<in> {AR_WAITING_FOR_INPUT, AR_WAITING_FOR_TOOL, AR_INTERRUPTED}
             then settle st (at_id a) AT_INTERRUPTED w WI_WAITING None None
             else act_try (on_agent (collectResult ad rid ''Resume completed''))
               (\<lambda>result. case mapResult (res_status result) of
                  (to, wto) \<Rightarrow> settle st (at_id a) to w wto None (Some result))
               (\<lambda>_. settle st (at_id a) AT_FAILED w WI_RECOVERY_REQUIRED None None))
          (\<lambda>_. settle st (at_id a) AT_FAILED w WI_RECOVERY_REQUIRED None None))"

section \<open>The contract of the store\<close>

definition advanced :: "work_item \<Rightarrow> work_item \<Rightarrow> wi_state \<Rightarrow> string option \<Rightarrow> bool" where
  "advanced v v' to cur \<longleftrightarrow> wi_id v' = wi_id v \<and> wi_projectId v' = wi_projectId v \<and> wi_lifecycleState v' = to \<and>
     wi_revision v' = wi_revision v + 1 \<and> wi_currentAttemptId v' = cur"

definition attempt_in :: "attempt_row \<Rightarrow> string \<Rightarrow> string \<Rightarrow> at_state \<Rightarrow> bool" where
  "attempt_in a i wid st \<longleftrightarrow> at_id a = i \<and> at_workItemId a = wid \<and> at_st a = st"

text \<open>
  What a client may rely on: under its documented precondition each call returns, and its effect
  on the two views \<open>item\<close> and \<open>att\<close> is the one row it names (and, when an attempt ends, the
  release of its work item).
\<close>

locale workflow_store =
  fixes st :: "'s store_ops"
    and item :: "'s \<Rightarrow> string \<Rightarrow> work_item option"
    and att :: "'s \<Rightarrow> string \<Rightarrow> attempt_row option"
    and busy :: "'s \<Rightarrow> string \<Rightarrow> bool"
  assumes start_law: "item s (at_workItemId na) = Some v \<Longrightarrow> wi_revision v = n \<Longrightarrow>
      WI_ASSIGNED \<in> set (wi_transitions (wi_lifecycleState v)) \<Longrightarrow> \<not> busy s (at_workItemId na) \<Longrightarrow>
      att s (at_id na) = None \<Longrightarrow>
      \<exists>v' c s'. so_startAttempt st na n s = (Inr (v', c), s') \<and>
        item s' = (item s)(at_workItemId na \<mapsto> v') \<and> att s' = (att s)(at_id na \<mapsto> c) \<and>
        advanced v v' WI_ASSIGNED (Some (at_id na)) \<and> attempt_in c (at_id na) (at_workItemId na) (at_st na)"
    and move_attempt_law: "att s i = Some a \<Longrightarrow> to \<in> set (at_transitions (at_st a)) \<Longrightarrow>
      item s (at_workItemId a) = Some w \<Longrightarrow>
      \<exists>a' w' s'. so_transitionAttempt st i to s = (Inr a', s') \<and> att s' = (att s)(i \<mapsto> a') \<and>
        item s' = (item s)(at_workItemId a \<mapsto> w') \<and> attempt_in a' i (at_workItemId a) to \<and>
        wi_id w' = wi_id w \<and> wi_projectId w' = wi_projectId w \<and> wi_lifecycleState w' = wi_lifecycleState w \<and> wi_revision w' = wi_revision w \<and>
        wi_currentAttemptId w' = (if \<not> isActiveAttemptState to \<and> wi_currentAttemptId w = Some i then None
                                  else wi_currentAttemptId w)"
    and bind_law: "att s i = Some a \<Longrightarrow>
      \<exists>a' s'. so_bindAgentRun st i r d s = (Inr a', s') \<and> att s' = (att s)(i \<mapsto> a') \<and> item s' = item s \<and>
        attempt_in a' i (at_workItemId a) (at_st a) \<and> at_agentRunId a' = Some r"
    and move_item_law: "item s i = Some v \<Longrightarrow> wi_revision v = n \<Longrightarrow>
      wto \<in> set (wi_transitions (wi_lifecycleState v)) \<Longrightarrow>
      \<exists>v' s'. so_transitionWorkItem st i n wto s = (Inr v', s') \<and> item s' = (item s)(i \<mapsto> v') \<and>
        att s' = att s \<and> advanced v v' wto (wi_currentAttemptId v)"
begin

text \<open>An attempt of a work item that is underway: the state every branch of the engine settles from.\<close>

definition underway :: "'s \<Rightarrow> string \<Rightarrow> at_state \<Rightarrow> work_item \<Rightarrow> bool" where
  "underway s aid t w \<longleftrightarrow> (\<exists>a. att s aid = Some a \<and> attempt_in a aid (wi_id w) t) \<and>
     item s (wi_id w) = Some w \<and> wi_currentAttemptId w = Some aid"

lemma settle_returns:
  assumes u: "underway s aid t w" and to: "to \<in> set (at_transitions t)"
    and wto: "wto \<in> set (wi_transitions (wi_lifecycleState w))"
  shows "\<exists>w' a' s'. settle st aid to w wto run res (s, x) =
      (Inr \<lparr>wr_workItem = w', wr_attempt = a', wr_agentRun = run, wr_agentResult = res\<rparr>, (s', x)) \<and>
    att s' aid = Some a' \<and> item s' (wi_id w) = Some w' \<and> attempt_in a' aid (wi_id w) to \<and>
    advanced w w' wto (if isActiveAttemptState to then Some aid else None)"
proof -
  obtain a where a: "att s aid = Some a" "attempt_in a aid (wi_id w) t" "item s (wi_id w) = Some w"
    "wi_currentAttemptId w = Some aid" using u by (auto simp: underway_def)
  have wid: "at_workItemId a = wi_id w" "at_st a = t" using a(2) by (simp_all add: attempt_in_def)
  obtain a' w1 s1 where s1: "so_transitionAttempt st aid to s = (Inr a', s1)" "att s1 = (att s)(aid \<mapsto> a')"
    "item s1 = (item s)(wi_id w \<mapsto> w1)" "attempt_in a' aid (wi_id w) to" "wi_id w1 = wi_id w"
    "wi_projectId w1 = wi_projectId w" "wi_lifecycleState w1 = wi_lifecycleState w" "wi_revision w1 = wi_revision w"
    "wi_currentAttemptId w1 = (if isActiveAttemptState to then Some aid else None)"
    using move_attempt_law [OF a(1), of to w] to a(3,4) wid by auto
  obtain w2 s2 where s2: "so_transitionWorkItem st (wi_id w) (wi_revision w) wto s1 = (Inr w2, s2)"
    "item s2 = (item s1)(wi_id w \<mapsto> w2)" "att s2 = att s1" "advanced w1 w2 wto (wi_currentAttemptId w1)"
    using move_item_law [of s1 "wi_id w" w1 "wi_revision w" wto] s1 wto by auto
  show ?thesis
    using s1 s2 by (auto simp: settle_def act_bind_def on_store_def act_return_def advanced_def)
qed

lemma begin_attempt:
  assumes "item s (wi_id w) = Some v" "wi_id v = wi_id w" "wi_revision v = wi_revision w"
    "WI_ASSIGNED \<in> set (wi_transitions (wi_lifecycleState v))" "\<not> busy s (wi_id w)" "att s aid = None"
  shows "\<exists>pw pa s1 a2 s2 a3 s3 rw s4.
    so_startAttempt st (new_engine_attempt w wp aid now) (wi_revision w) s = (Inr (pw, pa), s1) \<and>
    so_transitionAttempt st aid AT_STARTING s1 = (Inr a2, s2) \<and>
    so_transitionAttempt st aid AT_RUNNING s2 = (Inr a3, s3) \<and>
    so_transitionWorkItem st (wi_id w) (wi_revision pw) WI_RUNNING s3 = (Inr rw, s4) \<and>
    underway s4 aid AT_RUNNING rw \<and> wi_id rw = wi_id w \<and> wi_projectId rw = wi_projectId v \<and>
    wi_lifecycleState rw = WI_RUNNING \<and> wi_revision rw = wi_revision w + 2"
proof -
  let ?na = "new_engine_attempt w wp aid now"
  have na [simp]: "at_workItemId ?na = wi_id w" "at_id ?na = aid" "at_st ?na = AT_NOT_STARTED"
    by (simp_all add: new_engine_attempt_def)
  obtain v1 c s1 where s1: "so_startAttempt st ?na (wi_revision w) s = (Inr (v1, c), s1)"
    "item s1 = (item s)(wi_id w \<mapsto> v1)" "att s1 = (att s)(aid \<mapsto> c)"
    "advanced v v1 WI_ASSIGNED (Some aid)" "attempt_in c aid (wi_id w) AT_NOT_STARTED"
    using start_law [of s ?na v "wi_revision w"] assms by auto
  obtain a2 v2 s2 where s2: "so_transitionAttempt st aid AT_STARTING s1 = (Inr a2, s2)"
    "att s2 = (att s1)(aid \<mapsto> a2)" "item s2 = (item s1)(wi_id w \<mapsto> v2)" "attempt_in a2 aid (wi_id w) AT_STARTING"
    "wi_id v2 = wi_id v1" "wi_projectId v2 = wi_projectId v1" "wi_lifecycleState v2 = wi_lifecycleState v1"
    "wi_revision v2 = wi_revision v1" "wi_currentAttemptId v2 = wi_currentAttemptId v1"
    using move_attempt_law [of s1 aid c AT_STARTING v1] s1 by (auto simp: attempt_in_def)
  obtain a3 v3 s3 where s3: "so_transitionAttempt st aid AT_RUNNING s2 = (Inr a3, s3)"
    "att s3 = (att s2)(aid \<mapsto> a3)" "item s3 = (item s2)(wi_id w \<mapsto> v3)" "attempt_in a3 aid (wi_id w) AT_RUNNING"
    "wi_id v3 = wi_id v2" "wi_projectId v3 = wi_projectId v2" "wi_lifecycleState v3 = wi_lifecycleState v2"
    "wi_revision v3 = wi_revision v2" "wi_currentAttemptId v3 = wi_currentAttemptId v2"
    using move_attempt_law [of s2 aid a2 AT_RUNNING v2] s2 by (auto simp: attempt_in_def)
  obtain v4 s4 where s4: "so_transitionWorkItem st (wi_id w) (wi_revision v1) WI_RUNNING s3 = (Inr v4, s4)"
    "item s4 = (item s3)(wi_id w \<mapsto> v4)" "att s4 = att s3" "advanced v3 v4 WI_RUNNING (wi_currentAttemptId v3)"
    using move_item_law [of s3 "wi_id w" v3 "wi_revision v1" WI_RUNNING] s1(4) s2 s3 by (auto simp: advanced_def)
  have "underway s4 aid AT_RUNNING v4 \<and> wi_id v4 = wi_id w \<and> wi_projectId v4 = wi_projectId v \<and>
      wi_lifecycleState v4 = WI_RUNNING \<and> wi_revision v4 = wi_revision w + 2"
    using assms(2,3) s1(4) s2 s3 s4 by (auto simp: underway_def advanced_def)
  then show ?thesis using s1(1) s2(1) s3(1) s4(1) by blast
qed
end

section \<open>What the agent's answers mean\<close>

text \<open>
  The abstract engine: it only talks to the agent, and says which run and result are reported
  and in which states the attempt and the work item end.
\<close>

record verdict =
  vd_run :: "run_handle option"
  vd_result :: "agent_run_result option"
  vd_attempt :: at_state
  vd_item :: wi_state

definition run_verdict :: "'x agent_adapter \<Rightarrow> run_handle \<Rightarrow> 'x \<Rightarrow> verdict \<times> 'x" where
  "run_verdict ad run x =
     (if rh_status run = AR_WAITING_FOR_INPUT
      then (\<lparr>vd_run = Some run, vd_result = None, vd_attempt = AT_INTERRUPTED, vd_item = WI_WAITING\<rparr>, x)
      else if rh_status run = AR_UNKNOWN
      then (\<lparr>vd_run = Some run, vd_result = None, vd_attempt = AT_UNKNOWN, vd_item = WI_RECOVERY_REQUIRED\<rparr>, x)
      else (case collectResult ad (rh_runId run) ''Execution completed'' x of
         (Inl _, x') \<Rightarrow>
           (\<lparr>vd_run = Some run, vd_result = None, vd_attempt = AT_FAILED, vd_item = WI_RECOVERY_REQUIRED\<rparr>, x')
       | (Inr r, x') \<Rightarrow>
           (\<lparr>vd_run = Some run, vd_result = Some r, vd_attempt = fst (mapResult (res_status r)),
             vd_item = snd (mapResult (res_status r))\<rparr>, x')))"

definition agent_verdict :: "'x agent_adapter \<Rightarrow> work_package \<Rightarrow> runtime_context \<Rightarrow> 'x \<Rightarrow> verdict \<times> 'x" where
  "agent_verdict ad wp ctx x =
     (case ad_execute ad wp ctx x of
        (Inl _, x') \<Rightarrow> (\<lparr>vd_run = None, vd_result = None, vd_attempt = AT_FAILED, vd_item = WI_RECOVERY_REQUIRED\<rparr>, x')
      | (Inr run, x') \<Rightarrow> run_verdict ad run x')"

definition engine_ctx :: "string \<Rightarrow> string \<Rightarrow> string \<Rightarrow> runtime_context" where
  "engine_ctx corr wrun aid =
     \<lparr>rc_correlationId = corr, rc_workflowRunId = wrun, rc_attemptId = aid, rc_secretRefs = []\<rparr>"

lemma mapResult_allowed:
  "fst (mapResult r) \<in> set (at_transitions AT_RUNNING)" "snd (mapResult r) \<in> set (wi_transitions WI_RUNNING)"
  by (cases r; simp)+

definition settle_verdict :: "'s store_ops \<Rightarrow> string \<Rightarrow> work_item \<Rightarrow> verdict \<Rightarrow>
    ('s \<times> 'x, exn, workflow_result) act" where
  "settle_verdict st aid w v = settle st aid (vd_attempt v) w (vd_item v) (vd_run v) (vd_result v)"

lemma finish_run_verdict:
  "run_verdict ad run x = (v, x') \<Longrightarrow> finish_run st ad aid w run (s, x) = settle_verdict st aid w v (s, x')"
  by (auto simp: run_verdict_def finish_run_def settle_verdict_def act_try_def on_agent_def
      split: if_splits prod.splits sum.splits)

lemma run_verdict_allowed:
  "run_verdict ad run x = (v, x') \<Longrightarrow> vd_attempt v \<in> set (at_transitions AT_RUNNING)"
  "run_verdict ad run x = (v, x') \<Longrightarrow> vd_item v \<in> set (wi_transitions WI_RUNNING)"
  using mapResult_allowed by (auto simp: run_verdict_def simp del: at_transitions.simps wi_transitions.simps
      split: if_splits prod.splits sum.splits) simp_all

context workflow_store begin

lemma execute_claims:
  assumes stored: "item s (wi_id w) = Some v0" "wi_id v0 = wi_id w" "wi_revision v0 = wi_revision w"
      "WI_ASSIGNED \<in> set (wi_transitions (wi_lifecycleState v0))"
    and pre: "assertExecutable w wp = Inr ()" "\<not> busy s (wi_id w)" "att s aid = None"
    and v: "agent_verdict ad wp (engine_ctx corr wrun aid) x = (v, x')"
  shows "\<exists>w' a' s'. engine_execute st ad w wp corr wrun aid now (s, x) =
      (Inr \<lparr>wr_workItem = w', wr_attempt = a', wr_agentRun = vd_run v, wr_agentResult = vd_result v\<rparr>, (s', x')) \<and>
    item s' (wi_id w) = Some w' \<and> att s' aid = Some a' \<and> attempt_in a' aid (wi_id w) (vd_attempt v) \<and>
    wi_id w' = wi_id w \<and> wi_projectId w' = wi_projectId v0 \<and> wi_lifecycleState w' = vd_item v \<and> wi_revision w' = wi_revision w + 3 \<and>
    wi_currentAttemptId w' = (if isActiveAttemptState (vd_attempt v) then Some aid else None)"
proof -
  let ?ctx = "engine_ctx corr wrun aid"
  obtain pw pa s1 a2 s2 a3 s3 rw s4 where b:
    "so_startAttempt st (new_engine_attempt w wp aid now) (wi_revision w) s = (Inr (pw, pa), s1)"
    "so_transitionAttempt st aid AT_STARTING s1 = (Inr a2, s2)"
    "so_transitionAttempt st aid AT_RUNNING s2 = (Inr a3, s3)"
    "so_transitionWorkItem st (wi_id w) (wi_revision pw) WI_RUNNING s3 = (Inr rw, s4)"
    and u: "underway s4 aid AT_RUNNING rw" and rw: "wi_id rw = wi_id w" "wi_projectId rw = wi_projectId v0" "wi_lifecycleState rw = WI_RUNNING"
    "wi_revision rw = wi_revision w + 2"
    using begin_attempt [OF stored pre(2,3), of wp now] by blast
  have run: "engine_execute st ad w wp corr wrun aid now (s, x) =
      act_try (act_bind (on_agent (ad_execute ad wp ?ctx)) (\<lambda>run.
          act_bind (on_store (so_bindAgentRun st aid (rh_runId run) ''codex-adapter'')) (\<lambda>_. act_return run)))
        (finish_run st ad aid rw) (\<lambda>_. settle st aid AT_FAILED rw WI_RECOVERY_REQUIRED None None) (s4, x)"
    by (simp add: engine_execute_def pre(1) act_bind_def on_store_def b engine_ctx_def)
  have settled: "\<exists>w' a' s'. settle_verdict st aid rw v (t, y) =
      (Inr \<lparr>wr_workItem = w', wr_attempt = a', wr_agentRun = vd_run v, wr_agentResult = vd_result v\<rparr>, (s', y)) \<and>
    item s' (wi_id w) = Some w' \<and> att s' aid = Some a' \<and> attempt_in a' aid (wi_id w) (vd_attempt v) \<and>
    wi_id w' = wi_id w \<and> wi_projectId w' = wi_projectId v0 \<and> wi_lifecycleState w' = vd_item v \<and> wi_revision w' = wi_revision w + 3 \<and>
    wi_currentAttemptId w' = (if isActiveAttemptState (vd_attempt v) then Some aid else None)"
    if ut: "underway t aid AT_RUNNING rw" and tt: "vd_attempt v \<in> set (at_transitions AT_RUNNING)"
      and wt: "vd_item v \<in> set (wi_transitions WI_RUNNING)" for t and y :: 'b
  proof -
    have wto: "vd_item v \<in> set (wi_transitions (wi_lifecycleState rw))" using wt rw(3) by simp
    obtain w' a' s' where "settle st aid (vd_attempt v) rw (vd_item v) (vd_run v) (vd_result v) (t, y) =
        (Inr \<lparr>wr_workItem = w', wr_attempt = a', wr_agentRun = vd_run v, wr_agentResult = vd_result v\<rparr>, (s', y))"
      "att s' aid = Some a'" "item s' (wi_id rw) = Some w'" "attempt_in a' aid (wi_id rw) (vd_attempt v)"
      "advanced rw w' (vd_item v) (if isActiveAttemptState (vd_attempt v) then Some aid else None)"
      using settle_returns [OF ut tt wto, of "vd_run v" "vd_result v" y] by blast
    then show ?thesis
      using rw by (intro exI [of _ w'] exI [of _ a'] exI [of _ s']) (simp add: advanced_def settle_verdict_def)
  qed
  obtain o1 x1 where e: "ad_execute ad wp ?ctx x = (o1, x1)" by fastforce
  show ?thesis
  proof (cases o1)
    case (Inl err)
    have "v = \<lparr>vd_run = None, vd_result = None, vd_attempt = AT_FAILED, vd_item = WI_RECOVERY_REQUIRED\<rparr>" "x' = x1"
      using v by (simp_all add: agent_verdict_def e Inl)
    then show ?thesis
      using settled [OF u, of x1]
      by (simp add: run act_try_def act_bind_def on_agent_def settle_verdict_def e Inl)
  next
    case (Inr r)
    obtain a where "att s4 aid = Some a" "attempt_in a aid (wi_id rw) AT_RUNNING" using u by (auto simp: underway_def)
    then obtain a5 s5 where s5: "so_bindAgentRun st aid (rh_runId r) ''codex-adapter'' s4 = (Inr a5, s5)"
      and u5: "underway s5 aid AT_RUNNING rw"
      using bind_law [of s4 aid a "rh_runId r" "''codex-adapter''"] u
      by (auto simp: underway_def attempt_in_def)
    have rv: "run_verdict ad r x1 = (v, x')" using v by (simp add: agent_verdict_def e Inr)
    have "engine_execute st ad w wp corr wrun aid now (s, x) = settle_verdict st aid rw v (s5, x')"
      by (simp add: run act_try_def act_bind_def on_agent_def on_store_def act_return_def e Inr s5
          finish_run_verdict [OF rv])
    then show ?thesis using settled [OF u5 run_verdict_allowed [OF rv], of x'] by simp
  qed
qed

lemma execute_returns:
  assumes "item s (wi_id w) = Some w" "assertExecutable w wp = Inr ()" "\<not> busy s (wi_id w)" "att s aid = None"
    and "agent_verdict ad wp (engine_ctx corr wrun aid) x = (v, x')"
  shows "\<exists>w' a' s'. engine_execute st ad w wp corr wrun aid now (s, x) =
      (Inr \<lparr>wr_workItem = w', wr_attempt = a', wr_agentRun = vd_run v, wr_agentResult = vd_result v\<rparr>, (s', x')) \<and>
    item s' (wi_id w) = Some w' \<and> att s' aid = Some a' \<and> attempt_in a' aid (wi_id w) (vd_attempt v) \<and>
    wi_id w' = wi_id w \<and> wi_lifecycleState w' = vd_item v \<and> wi_revision w' = wi_revision w + 3 \<and>
    wi_currentAttemptId w' = (if isActiveAttemptState (vd_attempt v) then Some aid else None)"
proof -
  have "wi_lifecycleState w = WI_READY" using assms(2) by (simp add: assertExecutable_def split: if_splits)
  then have "WI_ASSIGNED \<in> set (wi_transitions (wi_lifecycleState w))" by simp
  from execute_claims [OF assms(1) refl refl this assms(2-5), of now] show ?thesis by blast
qed

end

definition resume_verdict :: "'x agent_adapter \<Rightarrow> string \<Rightarrow> runtime_context \<Rightarrow> 'x \<Rightarrow> verdict \<times> 'x" where
  "resume_verdict ad rid ctx x =
     (case ad_resume ad rid ctx x of
        (Inl _, x') \<Rightarrow> (\<lparr>vd_run = None, vd_result = None, vd_attempt = AT_FAILED, vd_item = WI_RECOVERY_REQUIRED\<rparr>, x')
      | (Inr run, x') \<Rightarrow>
          if rh_status run \<in> {AR_WAITING_FOR_INPUT, AR_WAITING_FOR_TOOL, AR_INTERRUPTED}
          then (\<lparr>vd_run = None, vd_result = None, vd_attempt = AT_INTERRUPTED, vd_item = WI_WAITING\<rparr>, x')
          else (case collectResult ad rid ''Resume completed'' x' of
             (Inl _, x'') \<Rightarrow>
               (\<lparr>vd_run = None, vd_result = None, vd_attempt = AT_FAILED, vd_item = WI_RECOVERY_REQUIRED\<rparr>, x'')
           | (Inr r, x'') \<Rightarrow>
               (\<lparr>vd_run = None, vd_result = Some r, vd_attempt = fst (mapResult (res_status r)),
                 vd_item = snd (mapResult (res_status r))\<rparr>, x'')))"

lemma resume_run_verdict:
  "truthy (at_agentRunId a) \<Longrightarrow>
   resume_verdict ad (or_empty (at_agentRunId a)) (engine_ctx corr wrun (at_id a)) x = (v, x') \<Longrightarrow>
   resume_run st ad w a corr wrun (s, x) = settle_verdict st (at_id a) w v (s, x')"
  by (auto simp: resume_verdict_def resume_run_def settle_verdict_def act_try_def on_agent_def engine_ctx_def Let_def
      split: if_splits prod.splits sum.splits)

lemma mapResult_ends: "fst (mapResult r) \<in> {AT_SUCCEEDED, AT_FAILED, AT_INTERRUPTED, AT_CANCELLED}"
  by (cases r; simp)

lemma mapResult_items: "snd (mapResult r) \<in> {WI_VERIFICATION_REQUIRED, WI_REPAIR_REQUIRED, WI_RECOVERY_REQUIRED, WI_WAITING}"
  by (cases r; simp)

lemma resume_verdict_ends:
  "resume_verdict ad rid ctx x = (v, x') \<Longrightarrow> vd_attempt v \<in> {AT_SUCCEEDED, AT_FAILED, AT_INTERRUPTED, AT_CANCELLED}"
  "resume_verdict ad rid ctx x = (v, x') \<Longrightarrow> vd_item v \<in> {WI_VERIFICATION_REQUIRED, WI_REPAIR_REQUIRED, WI_RECOVERY_REQUIRED, WI_WAITING}"
  by (auto simp: resume_verdict_def mapResult_ends mapResult_items simp del: mapResult.simps insert_iff
      split: if_splits prod.splits sum.splits)
    (use mapResult_ends mapResult_items in \<open>blast+\<close>)

context workflow_store begin

lemma resume_returns:
  assumes u: "underway s (at_id a) t w" and t: "t \<in> {AT_RUNNING, AT_UNKNOWN}"
    and run: "wi_lifecycleState w = WI_RUNNING" and rid: "truthy (at_agentRunId a)"
    and v: "resume_verdict ad (or_empty (at_agentRunId a)) (engine_ctx corr wrun (at_id a)) x = (v, x')"
  shows "\<exists>w' a' s'. resume_run st ad w a corr wrun (s, x) =
      (Inr \<lparr>wr_workItem = w', wr_attempt = a', wr_agentRun = None, wr_agentResult = vd_result v\<rparr>, (s', x')) \<and>
    att s' (at_id a) = Some a' \<and> item s' (wi_id w) = Some w' \<and> attempt_in a' (at_id a) (wi_id w) (vd_attempt v) \<and>
    advanced w w' (vd_item v) None"
proof -
  have "vd_attempt v \<in> set (at_transitions t)" "vd_item v \<in> set (wi_transitions (wi_lifecycleState w))"
    "\<not> isActiveAttemptState (vd_attempt v)" "vd_run v = None"
    using resume_verdict_ends [OF v] t run v
    by (auto simp: resume_verdict_def split: if_splits prod.splits sum.splits)
  then show ?thesis
    using settle_returns [OF u, of "vd_attempt v" "vd_item v" None "vd_result v" x']
    by (simp add: resume_run_verdict [OF rid v] settle_verdict_def)
qed

end

section \<open>The durable store satisfies the contract\<close>

definition work_store_ops :: "work_db store_ops" where
  "work_store_ops = \<lparr>so_startAttempt = ws_startAttempt, so_transitionAttempt = ws_transitionAttempt,
     so_bindAgentRun = ws_bindAgentRun, so_transitionWorkItem = ws_transitionWorkItem\<rparr>"

lemma work_store_ops_sel [simp]:
  "so_startAttempt work_store_ops = ws_startAttempt" "so_transitionAttempt work_store_ops = ws_transitionAttempt"
  "so_bindAgentRun work_store_ops = ws_bindAgentRun" "so_transitionWorkItem work_store_ops = ws_transitionWorkItem"
  by (simp_all add: work_store_ops_def)

definition busy_item :: "work_db \<Rightarrow> string \<Rightarrow> bool" where
  "busy_item db i = list_ex (\<lambda>r. at_workItemId r = i \<and> at_active r) (db_attempts db)"

interpretation wstore: workflow_store work_store_ops item_of attempt_of busy_item
proof unfold_locales
  fix s :: work_db and na :: new_attempt and v n
  assume a: "item_of s (at_workItemId na) = Some v" "wi_revision v = n"
    "WI_ASSIGNED \<in> set (wi_transitions (wi_lifecycleState v))" "\<not> busy_item s (at_workItemId na)"
    "attempt_of s (at_id na) = None"
  let ?i = "at_workItemId na" and ?f = "claimed_item s (at_id na)" and ?c = "next_attempt s na"
  let ?s = "(with_item s ?i (\<lambda>w. wi_revision w = n) ?f)\<lparr>db_attempts := db_attempts s @ [?c]\<rparr>"
  have "ws_startAttempt na n s = (Inr (?f v, ?c), ?s)"
    using a by (auto simp: startAttempt_eq busy_item_def list_ex_iff)
  moreover have "item_of ?s = (item_of s)(?i \<mapsto> ?f v)"
    using item_of_with_item [OF a(1), of "\<lambda>w. wi_revision w = n" ?f] a(2) by simp
  moreover have "attempt_of ?s = (attempt_of s)(at_id na \<mapsto> ?c)"
    using a(5) by (auto simp: attempt_of_def fun_eq_iff find_row_append split: option.split)
  ultimately show "\<exists>v' c s'. so_startAttempt work_store_ops na n s = (Inr (v', c), s') \<and>
      item_of s' = (item_of s)(?i \<mapsto> v') \<and> attempt_of s' = (attempt_of s)(at_id na \<mapsto> c) \<and>
      advanced v v' WI_ASSIGNED (Some (at_id na)) \<and> attempt_in c (at_id na) ?i (at_st na)"
    using a(2) by (intro exI [of _ "?f v"] exI [of _ ?c] exI [of _ ?s])
      (simp add: advanced_def attempt_in_def claimed_item_def)
next
  fix s :: work_db and i a to w
  assume a: "attempt_of s i = Some a" "to \<in> set (at_transitions (at_st a))" "item_of s (at_workItemId a) = Some w"
  let ?s = "after_attempt_move s to a" and ?a = "moved_attempt s to a" and ?i = "at_workItemId a"
  let ?w = "if \<not> isActiveAttemptState to \<and> wi_currentAttemptId w = Some i then released_item s w else w"
  have id: "at_id a = i" "wi_id w = ?i" using attempt_of_id a item_of_id by blast+
  have "ws_transitionAttempt i to s = (Inr ?a, ?s)" using a by (simp add: transitionAttempt_eq)
  moreover have "attempt_of ?s = (attempt_of s)(i \<mapsto> ?a)"
    using attempt_of_with_attempt [OF a(1), of "\<lambda>r. at_st r = at_st a"] id
    by (simp add: after_attempt_move_def Let_def moved_attempt_def)
  moreover have "item_of ?s = (item_of s)(?i \<mapsto> ?w)"
    using a id item_of_id by (auto simp: after_attempt_move_def Let_def item_of_with fun_eq_iff map_option_case
        split: option.split)
  ultimately show "\<exists>a' w' s'. so_transitionAttempt work_store_ops i to s = (Inr a', s') \<and>
      attempt_of s' = (attempt_of s)(i \<mapsto> a') \<and> item_of s' = (item_of s)(?i \<mapsto> w') \<and> attempt_in a' i ?i to \<and>
      wi_id w' = wi_id w \<and> wi_projectId w' = wi_projectId w \<and> wi_lifecycleState w' = wi_lifecycleState w \<and>
      wi_revision w' = wi_revision w \<and>
      wi_currentAttemptId w' = (if \<not> isActiveAttemptState to \<and> wi_currentAttemptId w = Some i then None
                                else wi_currentAttemptId w)"
    using id by (intro exI [of _ ?a] exI [of _ ?w] exI [of _ ?s]) (simp add: attempt_in_def)
next
  fix s :: work_db and i r d a
  assume a: "attempt_of s i = Some a"
  show "\<exists>a' s'. so_bindAgentRun work_store_ops i r d s = (Inr a', s') \<and> attempt_of s' = (attempt_of s)(i \<mapsto> a') \<and>
      item_of s' = item_of s \<and> attempt_in a' i (at_workItemId a) (at_st a) \<and> at_agentRunId a' = Some r"
    using a attempt_of_with_attempt [OF a, of "\<lambda>_. True" "bound_attempt s r d"] attempt_of_id [OF a]
    by (simp add: bindAgentRun_eq attempt_in_def)
next
  fix s :: work_db and i v n wto
  assume a: "item_of s i = Some v" "wi_revision v = n" "wto \<in> set (wi_transitions (wi_lifecycleState v))"
  show "\<exists>v' s'. so_transitionWorkItem work_store_ops i n wto s = (Inr v', s') \<and> item_of s' = (item_of s)(i \<mapsto> v') \<and>
      attempt_of s' = attempt_of s \<and> advanced v v' wto (wi_currentAttemptId v)"
    using a item_of_with_item [OF a(1), of "\<lambda>w. wi_revision w = n" "moved_item s wto"]
    by (simp add: transitionWorkItem_eq advanced_def)
qed

section \<open>Properties\<close>

text \<open>A quiet agent for concrete runs: every call answers as given and the agent's world is untouched.\<close>

definition sample_adapter :: "(exn + agent_run_status) \<Rightarrow> agent_run_status \<Rightarrow> unit agent_adapter" where
  "sample_adapter start status =
     \<lparr>ad_execute = (\<lambda>_ _ x. (case start of Inl e \<Rightarrow> Inl e | Inr s \<Rightarrow> Inr \<lparr>rh_runId = ''r'', rh_status = s\<rparr>, x)),
      ad_resume = (\<lambda>_ _ x. (case start of Inl e \<Rightarrow> Inl e | Inr s \<Rightarrow> Inr \<lparr>rh_runId = ''r'', rh_status = s\<rparr>, x)),
      ad_getStatus = (\<lambda>_ x. (Inr status, x)), ad_getArtifacts = (\<lambda>_ x. (Inr [], x)),
      ad_getEvidence = (\<lambda>_ x. (Inr [], x)),
      ad_getUsage = (\<lambda>_ x. (Inr \<lparr>us_inputUnits = 0, us_outputUnits = 0, us_estimatedCost = 0,
        us_currency = ''USD'', us_costStatus = COST_UNKNOWN\<rparr>, x))\<rparr>"

definition sample_package :: work_package where
  "sample_package = \<lparr>wp_schemaVersion = ''1.0.0'', wp_workPackageId = ''k'', wp_version = 1, wp_projectId = ''p'',
     wp_workItemId = ''w'', wp_completionObjectRef = ''c'', wp_objective = ''o'', wp_authoritativeInputs = [],
     wp_scopeRefs = [], wp_constraints = [], wp_authorityContextRef = ''x'', wp_requiredCapabilities = [],
     wp_allowedActions = [], wp_forbiddenActions = [], wp_toolsAllowed = [], wp_expectedArtifactsOut = [],
     wp_verificationRequirements = [], wp_evidenceRequirements = [], wp_dependencies = [], wp_stopConditions = []\<rparr>"

text \<open>
  C1: \<open>execute\<close> on the durable store implements the verdict of the agent's answers. Called on a
  stored READY work item that has no active attempt, with a matching package and a fresh
  attempt id, it always returns; run, result and final states are those of \<open>agent_verdict\<close>, the
  agent's world is what the verdict leaves, the work item is three revisions further and holds the attempt only
  if the attempt may still be alive (UNKNOWN).
\<close>

theorem execute_implements_verdict:
  assumes "item_of db (wi_id w) = Some w" "assertExecutable w wp = Inr ()" "\<not> busy_item db (wi_id w)"
    and "attempt_of db aid = None"
    and "agent_verdict ad wp (engine_ctx corr wrun aid) x = (v, x')"
  shows "\<exists>w' a' db'. engine_execute work_store_ops ad w wp corr wrun aid now (db, x) =
      (Inr \<lparr>wr_workItem = w', wr_attempt = a', wr_agentRun = vd_run v, wr_agentResult = vd_result v\<rparr>, (db', x')) \<and>
    item_of db' (wi_id w) = Some w' \<and> attempt_of db' aid = Some a' \<and> at_st a' = vd_attempt v \<and>
    wi_lifecycleState w' = vd_item v \<and> wi_revision w' = wi_revision w + 3 \<and>
    wi_currentAttemptId w' = (if isActiveAttemptState (vd_attempt v) then Some aid else None)"
  using wstore.execute_returns [OF assms, of now] unfolding attempt_in_def by blast

definition sample_ready_item :: work_item where
  "sample_ready_item = the (item_of sample_ready ''w'')"

lemma sample_ready_item_facts:
  "item_of sample_ready (wi_id sample_ready_item) = Some sample_ready_item"
  "assertExecutable sample_ready_item sample_package = Inr ()"
  "\<not> busy_item sample_ready (wi_id sample_ready_item)" "attempt_of sample_ready ''a'' = None"
  by code_simp+

lemma execute_implements_verdict_witness:
  "\<exists>w' a' db'. engine_execute work_store_ops (sample_adapter (Inr AR_RUNNING) AR_COMPLETED) sample_ready_item
      sample_package ''c'' ''n'' ''a'' 9 (sample_ready, ()) =
      (Inr \<lparr>wr_workItem = w', wr_attempt = a', wr_agentRun = Some \<lparr>rh_runId = ''r'', rh_status = AR_RUNNING\<rparr>,
        wr_agentResult = vd_result (fst (agent_verdict (sample_adapter (Inr AR_RUNNING) AR_COMPLETED)
          sample_package (engine_ctx ''c'' ''n'' ''a'') ()))\<rparr>, (db', ())) \<and>
      at_st a' = AT_SUCCEEDED \<and> wi_lifecycleState w' = WI_VERIFICATION_REQUIRED"
proof -
  let ?av = "agent_verdict (sample_adapter (Inr AR_RUNNING) AR_COMPLETED) sample_package (engine_ctx ''c'' ''n'' ''a'') ()"
  have v: "?av = (fst ?av, ())" by (simp add: prod_eq_iff)
  have f: "vd_run (fst ?av) = Some \<lparr>rh_runId = ''r'', rh_status = AR_RUNNING\<rparr>" "vd_attempt (fst ?av) = AT_SUCCEEDED"
    "vd_item (fst ?av) = WI_VERIFICATION_REQUIRED" by code_simp+
  show ?thesis using execute_implements_verdict [OF sample_ready_item_facts v, of 9] f by auto
qed

lemma settle_item_state:
  "settle work_store_ops aid to w wto run res sx = (Inr r, sx') \<Longrightarrow>
   wi_lifecycleState (wr_workItem r) = wto \<and> wr_agentResult r = res"
  by (cases sx) (auto simp: settle_def act_bind_returns on_store_def act_return_def transitionWorkItem_eq
      split: prod.splits option.splits if_splits)

lemma finish_run_state:
  "finish_run work_store_ops ad aid w run (s, x) = (Inr r, sx') \<Longrightarrow> \<exists>v x'. run_verdict ad run x = (v, x') \<and>
   wi_lifecycleState (wr_workItem r) = vd_item v \<and> wr_agentResult r = vd_result v"
proof -
  assume r: "finish_run work_store_ops ad aid w run (s, x) = (Inr r, sx')"
  obtain v x' where v: "run_verdict ad run x = (v, x')" by fastforce
  have "settle_verdict work_store_ops aid w v (s, x') = (Inr r, sx')"
    using r unfolding finish_run_verdict [OF v] .
  from settle_item_state [OF this [unfolded settle_verdict_def]] v show ?thesis by simp
qed

lemma run_verdict_item:
  "run_verdict ad run x = (v, x') \<Longrightarrow>
   vd_item v \<in> {WI_VERIFICATION_REQUIRED, WI_REPAIR_REQUIRED, WI_RECOVERY_REQUIRED, WI_WAITING} \<and>
   (vd_item v = WI_VERIFICATION_REQUIRED \<longleftrightarrow> (\<exists>r. vd_result v = Some r \<and> res_status r = AR_COMPLETED))"
proof -
  assume v: "run_verdict ad run x = (v, x')"
  obtain c y where c: "collectResult ad (rh_runId run) ''Execution completed'' x = (c, y)" by fastforce
  show ?thesis
  proof (cases c)
    case (Inr r)
    then show ?thesis using v c
      by (cases "res_status r") (auto simp: run_verdict_def split: if_splits)
  qed (use v c in \<open>auto simp: run_verdict_def split: if_splits\<close>)
qed

text \<open>
  The engine never completes a work item. Whatever the tables and the agent, a run of
  \<open>execute\<close> that returns leaves the item awaiting verification, repair, recovery or input, and awaiting
  verification exactly when the agent reported COMPLETED.
\<close>

theorem execute_never_completes:
  assumes "engine_execute work_store_ops ad w wp corr wrun aid now sx = (Inr r, sx')"
  shows "wi_lifecycleState (wr_workItem r) \<in>
      {WI_VERIFICATION_REQUIRED, WI_REPAIR_REQUIRED, WI_RECOVERY_REQUIRED, WI_WAITING} \<and>
    (wi_lifecycleState (wr_workItem r) = WI_VERIFICATION_REQUIRED \<longleftrightarrow>
      (\<exists>res. wr_agentResult r = Some res \<and> res_status res = AR_COMPLETED))"
proof -
  have "(\<exists>rw run sx2. finish_run work_store_ops ad aid rw run sx2 = (Inr r, sx')) \<or>
      (\<exists>rw sx2. settle work_store_ops aid AT_FAILED rw WI_RECOVERY_REQUIRED None None sx2 = (Inr r, sx'))"
    using assms unfolding engine_execute_def
    by (fastforce simp: act_bind_returns act_try_result Let_def act_throw_def split: sum.splits prod.splits)
  then show ?thesis
  proof
    assume "\<exists>rw run sx2. finish_run work_store_ops ad aid rw run sx2 = (Inr r, sx')"
    then obtain run x v x' where "run_verdict ad run x = (v, x')"
      "wi_lifecycleState (wr_workItem r) = vd_item v" "wr_agentResult r = vd_result v"
      using finish_run_state by (metis surj_pair)
    then show ?thesis using run_verdict_item [of ad run x v x'] by auto
  next
    assume "\<exists>rw sx2. settle work_store_ops aid AT_FAILED rw WI_RECOVERY_REQUIRED None None sx2 = (Inr r, sx')"
    then show ?thesis using settle_item_state by fastforce
  qed
qed

lemma execute_never_completes_witness:
  "\<exists>r sx'. engine_execute work_store_ops (sample_adapter (Inr AR_RUNNING) AR_FAILED) sample_ready_item
     sample_package ''c'' ''n'' ''a'' 9 (sample_ready, ()) = (Inr r, sx') \<and>
     wi_lifecycleState (wr_workItem r) \<in>
      {WI_VERIFICATION_REQUIRED, WI_REPAIR_REQUIRED, WI_RECOVERY_REQUIRED, WI_WAITING}"
proof -
  let ?o = "engine_execute work_store_ops (sample_adapter (Inr AR_RUNNING) AR_FAILED) sample_ready_item
     sample_package ''c'' ''n'' ''a'' 9 (sample_ready, ())"
  have "\<not> isl (fst ?o)" by code_simp
  then obtain r sx' where o: "?o = (Inr r, sx')" by (cases ?o; cases "fst ?o") auto
  from execute_never_completes [OF o] o show ?thesis by blast
qed

text \<open>
  \<open>execute\<close> refuses without a trace. On a work item that is not READY, with a package for another item or
  project, or with a stale revision, it throws, neither the tables nor the agent's world change.
\<close>

theorem execute_refuses:
  assumes "wi_lifecycleState w \<noteq> WI_READY \<or> wp_projectId wp \<noteq> wi_projectId w \<or> wp_workItemId wp \<noteq> wi_id w \<or>
    (\<forall>v. item_of db (wi_id w) = Some v \<longrightarrow> wi_revision v \<noteq> wi_revision w)"
  shows "\<exists>e. engine_execute work_store_ops ad w wp corr wrun aid now (db, x) = (Inl e, (db, x))"
proof (cases "assertExecutable w wp")
  case (Inl e)
  then show ?thesis by (simp add: engine_execute_def act_throw_def)
next
  case (Inr u)
  then have "\<forall>v. item_of db (wi_id w) = Some v \<longrightarrow> wi_revision v \<noteq> wi_revision w"
    using assms by (auto simp: assertExecutable_def split: if_splits)
  then show ?thesis
    using Inr by (auto simp: engine_execute_def act_bind_def on_store_def startAttempt_eq new_engine_attempt_def
        split: option.splits)
qed

lemma execute_refuses_witness:
  "\<exists>e. engine_execute work_store_ops (sample_adapter (Inr AR_RUNNING) AR_COMPLETED) sample_ready_item
     sample_package ''c'' ''n'' ''b'' 9 (sample_started, ()) = (Inl e, (sample_started, ()))"
proof (rule execute_refuses)
  have "item_of sample_started (wi_id sample_ready_item) = Some (hd (db_items sample_started))"
    "wi_revision (hd (db_items sample_started)) = 3" "wi_revision sample_ready_item = 2" by code_simp+
  then show "wi_lifecycleState sample_ready_item \<noteq> WI_READY \<or> wp_projectId sample_package \<noteq> wi_projectId sample_ready_item \<or>
    wp_workItemId sample_package \<noteq> wi_id sample_ready_item \<or>
    (\<forall>v. item_of sample_started (wi_id sample_ready_item) = Some v \<longrightarrow> wi_revision v \<noteq> wi_revision sample_ready_item)"
    by simp
qed

text \<open>
  C2: \<open>resume\<close> of a run that was interrupted by a crash. When the stored work item is RUNNING with the given attempt as
  its current one, the attempt is RUNNING or UNKNOWN and has a run id, resuming always returns,
  ends the attempt and moves the work item as \<open>resume_verdict\<close> says, at the next revision and without a current attempt.
\<close>

theorem resume_implements_verdict:
  assumes "attempt_of db (at_id a) = Some b" "at_workItemId b = wi_id w" "at_st b \<in> {AT_RUNNING, AT_UNKNOWN}"
    and "item_of db (wi_id w) = Some w" "wi_currentAttemptId w = Some (at_id a)" "wi_lifecycleState w = WI_RUNNING"
    and "truthy (at_agentRunId a)"
    and "resume_verdict ad (or_empty (at_agentRunId a)) (engine_ctx corr wrun (at_id a)) x = (v, x')"
  shows "\<exists>w' a' db'. resume_run work_store_ops ad w a corr wrun (db, x) =
      (Inr \<lparr>wr_workItem = w', wr_attempt = a', wr_agentRun = None, wr_agentResult = vd_result v\<rparr>, (db', x')) \<and>
    attempt_of db' (at_id a) = Some a' \<and> item_of db' (wi_id w) = Some w' \<and> at_st a' = vd_attempt v \<and>
    \<not> isActiveAttemptState (vd_attempt v) \<and> wi_lifecycleState w' = vd_item v \<and>
    wi_revision w' = wi_revision w + 1 \<and> wi_currentAttemptId w' = None"
proof -
  have "wstore.underway db (at_id a) (at_st b) w"
    using assms attempt_of_id [OF assms(1)] by (simp add: wstore.underway_def attempt_in_def)
  moreover have "\<not> isActiveAttemptState (vd_attempt v)" using resume_verdict_ends(1) [OF assms(8)] by auto
  ultimately show ?thesis
    using wstore.resume_returns [of db a "at_st b" w ad corr wrun x v x'] assms(3,6-8)
    unfolding attempt_in_def advanced_def by blast
qed

definition sample_crashed :: work_db where
  "sample_crashed = snd (ws_bindAgentRun ''a'' ''r'' ''d'' (snd (ws_transitionWorkItem ''w'' 3 WI_RUNNING
     (snd (ws_transitionAttempt ''a'' AT_RUNNING (snd (ws_transitionAttempt ''a'' AT_STARTING sample_started)))))))"

lemma resume_implements_verdict_witness:
  "\<exists>w' a' db'. resume_run work_store_ops (sample_adapter (Inr AR_RUNNING) AR_COMPLETED) (hd (db_items sample_crashed))
      (hd (db_attempts sample_crashed)) ''c'' ''n'' (sample_crashed, ()) =
      (Inr \<lparr>wr_workItem = w', wr_attempt = a', wr_agentRun = None, wr_agentResult =
        vd_result (fst (resume_verdict (sample_adapter (Inr AR_RUNNING) AR_COMPLETED) ''r'' (engine_ctx ''c'' ''n'' ''a'') ()))\<rparr>,
       (db', ())) \<and> at_st a' = AT_SUCCEEDED"
proof -
  let ?v = "resume_verdict (sample_adapter (Inr AR_RUNNING) AR_COMPLETED) ''r'' (engine_ctx ''c'' ''n'' ''a'') ()"
  let ?w = "hd (db_items sample_crashed)" and ?a = "hd (db_attempts sample_crashed)"
  have f: "attempt_of sample_crashed (at_id ?a) = Some ?a" "at_workItemId ?a = wi_id ?w"
    "at_st ?a \<in> {AT_RUNNING, AT_UNKNOWN}" "item_of sample_crashed (wi_id ?w) = Some ?w"
    "wi_currentAttemptId ?w = Some (at_id ?a)" "wi_lifecycleState ?w = WI_RUNNING" "truthy (at_agentRunId ?a)"
    "at_id ?a = ''a''" "or_empty (at_agentRunId ?a) = ''r''" "vd_attempt (fst ?v) = AT_SUCCEEDED"
    by code_simp+
  have v: "resume_verdict (sample_adapter (Inr AR_RUNNING) AR_COMPLETED) (or_empty (at_agentRunId ?a))
      (engine_ctx ''c'' ''n'' (at_id ?a)) () = (fst ?v, ())" by (simp add: f prod_eq_iff)
  show ?thesis using resume_implements_verdict [OF f(1-7) v] f(10) by auto
qed

text \<open>
  A run that the engine itself parked cannot be resumed: it leaves the attempt INTERRUPTED
  (asked for input) or FAILED, which is final, so after the agent has been resumed the store refuses the move
  and \<open>resume\<close> throws, whatever the agent answered, with the tables as they were.
\<close>

theorem resume_of_ended_attempt_throws:
  assumes "attempt_of db (at_id a) = Some b" "\<not> isActiveAttemptState (at_st b)"
  shows "\<exists>e x'. resume_run work_store_ops ad w a corr wrun (db, x) = (Inl e, (db, x'))"
proof (cases "truthy (at_agentRunId a)")
  case True
  obtain v x' where v: "resume_verdict ad (or_empty (at_agentRunId a)) (engine_ctx corr wrun (at_id a)) x = (v, x')"
    by fastforce
  have "to \<notin> set (at_transitions (at_st b))" for to using assms(2) at_transition_from_active by blast
  then show ?thesis
    using assms(1) by (simp add: resume_run_verdict [OF True v] settle_verdict_def settle_def act_bind_def on_store_def
        transitionAttempt_eq)
qed (simp add: resume_run_def act_throw_def)

lemma resume_of_ended_attempt_throws_witness:
  "\<exists>e x'. resume_run work_store_ops (sample_adapter (Inr AR_RUNNING) AR_COMPLETED) (hd (db_items sample_ended))
     (hd (db_attempts sample_ended)) ''c'' ''n'' (sample_ended, ()) = (Inl e, (sample_ended, x'))"
proof -
  have "attempt_of sample_ended (at_id (hd (db_attempts sample_ended))) = Some (hd (db_attempts sample_ended))"
    "\<not> isActiveAttemptState (at_st (hd (db_attempts sample_ended)))" by code_simp+
  then show ?thesis by (rule resume_of_ended_attempt_throws)
qed

text \<open>
  An attempt the engine left UNKNOWN has its work item in RECOVERY_REQUIRED: when the resumed agent
  completes, the attempt is moved to SUCCEEDED and then the work item move is refused, so \<open>resume\<close>
  throws with the attempt ended and the work item still waiting for recovery.
\<close>

definition sample_unknown :: work_db where
  "sample_unknown = snd (ws_transitionWorkItem ''w'' 4 WI_RECOVERY_REQUIRED
     (snd (ws_transitionAttempt ''a'' AT_UNKNOWN sample_crashed)))"

lemma resume_of_unknown_splits_states:
  "(case resume_run work_store_ops (sample_adapter (Inr AR_RUNNING) AR_COMPLETED) (hd (db_items sample_unknown))
      (hd (db_attempts sample_unknown)) ''c'' ''n'' (sample_unknown, ()) of
      (r, (db, _)) \<Rightarrow> r = Inl (InvalidWorkItemTransitionError WI_RECOVERY_REQUIRED WI_VERIFICATION_REQUIRED) \<and>
        map_option at_st (attempt_of db ''a'') = Some AT_SUCCEEDED \<and>
        map_option wi_lifecycleState (item_of db ''w'') = Some WI_RECOVERY_REQUIRED)"
  by code_simp

text \<open>A status that is not a final one is treated as a failed run, not as one to recover.\<close>

lemma ambiguous_status_is_repair: "mapResult AR_UNKNOWN = (AT_FAILED, WI_REPAIR_REQUIRED)"
  "mapResult AR_RUNNING = (AT_FAILED, WI_REPAIR_REQUIRED)"
  by simp_all

end
