(* ===== verification/Js_Regex.thy ===== *)
theory Js_Regex
  imports Prelude_CO
begin

text \<open>
  The regular expressions of the program: the fragment of JavaScript's syntax that its rules
  use (classes, sequences, alternatives, repetition, \<open>^\<close> and \<open>$\<close>) with the flag \<open>i\<close>, an
  executable matcher for \<open>RegExp.prototype.test\<close> and its agreement with the declarative
  meaning of the expressions. Greedy and lazy repetition do not differ for \<open>test\<close>.
\<close>

section \<open>Expressions\<close>

text \<open>
  \<open>Cls neg rs\<close> is one character inside (or, when \<open>neg\<close>, outside) the ranges \<open>rs\<close> of character
  codes; with the flag \<open>i\<close> a character is in a range when one of its two cases is.
\<close>

datatype rx = Cls bool "(nat \<times> nat) list" | Eps | Seq rx rx | Alt rx rx | Star rx | Bol | Eol

definition in_ranges :: "(nat \<times> nat) list \<Rightarrow> nat \<Rightarrow> bool" where
  "in_ranges rs n = list_ex (\<lambda>(lo, hi). lo \<le> n \<and> n \<le> hi) rs"

definition other_case :: "nat \<Rightarrow> nat" where
  "other_case n = (if 65 \<le> n \<and> n \<le> 90 then n + 32 else if 97 \<le> n \<and> n \<le> 122 then n - 32 else n)"

definition in_class :: "bool \<Rightarrow> (nat \<times> nat) list \<Rightarrow> nat \<Rightarrow> bool" where
  "in_class neg rs n = ((in_ranges rs n \<or> in_ranges rs (other_case n)) \<noteq> neg)"

definition codes :: "string \<Rightarrow> nat list" where
  "codes s = map of_char s"

text \<open>A position is whether the text starts there, and what is left of it.\<close>

type_synonym position = "bool \<times> nat list"

section \<open>The matcher\<close>

primrec star_iter :: "(position \<Rightarrow> position list) \<Rightarrow> nat \<Rightarrow> position \<Rightarrow> position list" where
  "star_iter f 0 p = [p]"
| "star_iter f (Suc n) p =
     p # concat (map (star_iter f n) (filter (\<lambda>q. length (snd q) < length (snd p)) (f p)))"

primrec rests :: "rx \<Rightarrow> position \<Rightarrow> position list" where
  "rests (Cls neg rs) p = (case snd p of [] \<Rightarrow> [] | c # s \<Rightarrow> if in_class neg rs c then [(False, s)] else [])"
| "rests Eps p = [p]"
| "rests (Seq r1 r2) p = concat (map (rests r2) (rests r1 p))"
| "rests (Alt r1 r2) p = rests r1 p @ rests r2 p"
| "rests (Star r) p = star_iter (rests r) (length (snd p)) p"
| "rests Bol p = (if fst p then [p] else [])"
| "rests Eol p = (if snd p = [] then [p] else [])"

fun later_positions :: "nat list \<Rightarrow> position list" where
  "later_positions [] = []"
| "later_positions (c # s) = (False, s) # later_positions s"

definition rx_test :: "rx \<Rightarrow> string \<Rightarrow> bool" where
  "rx_test r s = list_ex (\<lambda>p. rests r p \<noteq> []) ((True, codes s) # later_positions (codes s))"

section \<open>Building expressions\<close>

definition code :: "char \<Rightarrow> nat" where "code c = of_char c"

definition one :: "char \<Rightarrow> nat \<times> nat" where "one c = (code c, code c)"

definition rx_chr :: "char \<Rightarrow> rx" where "rx_chr c = Cls False [one c]"

definition rx_not :: "(nat \<times> nat) list \<Rightarrow> rx" where "rx_not rs = Cls True rs"

definition rx_in :: "(nat \<times> nat) list \<Rightarrow> rx" where "rx_in rs = Cls False rs"

fun rx_lit :: "string \<Rightarrow> rx" where
  "rx_lit [] = Eps"
| "rx_lit [c] = rx_chr c"
| "rx_lit (c # d # s) = Seq (rx_chr c) (rx_lit (d # s))"

fun rx_seq :: "rx list \<Rightarrow> rx" where
  "rx_seq [] = Eps"
| "rx_seq [r] = r"
| "rx_seq (r # q # rs) = Seq r (rx_seq (q # rs))"

fun rx_alts :: "rx list \<Rightarrow> rx" where
  "rx_alts [] = Cls False []"
| "rx_alts [r] = r"
| "rx_alts (r # q # rs) = Alt r (rx_alts (q # rs))"

definition rx_opt :: "rx \<Rightarrow> rx" where "rx_opt r = Alt r Eps"

definition rx_plus :: "rx \<Rightarrow> rx" where "rx_plus r = Seq r (Star r)"

primrec rx_least :: "nat \<Rightarrow> rx \<Rightarrow> rx" where
  "rx_least 0 r = Star r"
| "rx_least (Suc n) r = Seq r (rx_least n r)"

definition space_ranges :: "(nat \<times> nat) list" where
  "space_ranges = [(9, 13), (32, 32), (160, 160)]"

definition word_ranges :: "(nat \<times> nat) list" where
  "word_ranges = [(code CHR ''a'', code CHR ''z''), (code CHR ''A'', code CHR ''Z''),
     (code CHR ''0'', code CHR ''9''), one CHR ''_'']"

definition rx_space :: rx where "rx_space = Cls False space_ranges"

definition rx_word :: rx where "rx_word = Cls False word_ranges"

text \<open>The dot, which stops at line ends unless the flag \<open>s\<close> is set.\<close>

definition rx_dot :: rx where "rx_dot = Cls True [(10, 10), (13, 13)]"

definition rx_any :: rx where "rx_any = Cls True []"

section \<open>Meaning\<close>

inductive rx_match :: "rx \<Rightarrow> position \<Rightarrow> position \<Rightarrow> bool" where
  m_cls: "in_class neg rs c \<Longrightarrow> rx_match (Cls neg rs) (b, c # s) (False, s)"
| m_eps: "rx_match Eps p p"
| m_seq: "rx_match r1 p q \<Longrightarrow> rx_match r2 q q' \<Longrightarrow> rx_match (Seq r1 r2) p q'"
| m_left: "rx_match r1 p q \<Longrightarrow> rx_match (Alt r1 r2) p q"
| m_right: "rx_match r2 p q \<Longrightarrow> rx_match (Alt r1 r2) p q"
| m_stop: "rx_match (Star r) p p"
| m_more: "rx_match r p q \<Longrightarrow> rx_match (Star r) q q' \<Longrightarrow> rx_match (Star r) p q'"
| m_bol: "rx_match Bol (True, s) (True, s)"
| m_eol: "rx_match Eol (b, []) (b, [])"

inductive_cases m_clsE: "rx_match (Cls neg rs) p q"
inductive_cases m_epsE: "rx_match Eps p q"
inductive_cases m_seqE: "rx_match (Seq r1 r2) p q"
inductive_cases m_altE: "rx_match (Alt r1 r2) p q"
inductive_cases m_starE: "rx_match (Star r) p q"
inductive_cases m_bolE: "rx_match Bol p q"
inductive_cases m_eolE: "rx_match Eol p q"

text \<open>A match reads a prefix; it stays at the same position only when the prefix is empty.\<close>

lemma rx_match_prefix:
  "rx_match r p q \<Longrightarrow> \<exists>u. snd p = u @ snd q \<and> fst q = (fst p \<and> u = [])"
proof (induction rule: rx_match.induct)
  case (m_seq r1 p q r2 q')
  then show ?case by force
next
  case (m_more r p q q')
  then show ?case by force
qed auto

lemma rx_match_shorter: "rx_match r p q \<Longrightarrow> q = p \<or> length (snd q) < length (snd p)"
  using rx_match_prefix [of r p q] by (cases p; cases q) auto

lemma star_iter_sound:
  "(\<And>p q. q \<in> set (f p) \<Longrightarrow> rx_match r p q) \<Longrightarrow> q \<in> set (star_iter f n p) \<Longrightarrow> rx_match (Star r) p q"
proof (induction n arbitrary: p)
  case 0
  then show ?case by (simp add: m_stop)
next
  case (Suc n)
  from Suc.prems(2) consider "q = p" | t where "t \<in> set (f p)" "q \<in> set (star_iter f n t)" by auto
  then show ?case
  proof cases
    case 2
    then show ?thesis using Suc.IH [of t] Suc.prems(1) m_more by blast
  qed (simp add: m_stop)
qed

lemma star_iter_complete:
  assumes "\<And>p q. rx_match r p q \<Longrightarrow> q \<in> set (f p)"
  shows "rx_match s p q \<Longrightarrow> s = Star r \<Longrightarrow> length (snd p) \<le> n \<Longrightarrow> q \<in> set (star_iter f n p)"
proof (induction arbitrary: n rule: rx_match.induct)
  case (m_stop r' p)
  then show ?case by (cases n) auto
next
  case (m_more r' p q q')
  consider "q = p" | "length (snd q) < length (snd p)" using rx_match_shorter m_more.hyps(1) by blast
  then show ?case
  proof cases
    case 1
    then show ?thesis using m_more by blast
  next
    case 2
    then obtain k where n: "n = Suc k" using m_more.prems by (cases n) auto
    have "q \<in> set (f p)" using assms m_more by blast
    moreover have "q' \<in> set (star_iter f k q)" using m_more.IH(2) [of k] m_more.prems 2 n by simp
    ultimately have "\<exists>t \<in> set (f p). length (snd t) < length (snd p) \<and> q' \<in> set (star_iter f k t)"
      using 2 by blast
    then show ?thesis unfolding n by (simp add: Bex_def del: split_paired_Ex)
  qed
qed auto

theorem rests_iff: "q \<in> set (rests r p) \<longleftrightarrow> rx_match r p q"
proof (induction r arbitrary: p q)
  case (Cls neg rs)
  show ?case by (cases p) (auto split: list.splits if_splits intro: m_cls elim: m_clsE)
next
  case (Star r)
  show ?case
  proof
    assume "q \<in> set (rests (Star r) p)"
    then show "rx_match (Star r) p q" using star_iter_sound [of "rests r" r] Star by simp
  next
    assume "rx_match (Star r) p q"
    then show "q \<in> set (rests (Star r) p)"
      using star_iter_complete [of r "rests r" "Star r" p q "length (snd p)"] Star by simp
  qed
next
  case (Seq r1 r2)
  have "q \<in> set (rests (Seq r1 r2) p) \<longleftrightarrow> (\<exists>t. rx_match r1 p t \<and> rx_match r2 t q)"
    by (simp add: Seq.IH Bex_def del: split_paired_Ex)
  then show ?case by (blast intro: m_seq elim: m_seqE)
next
  case (Alt r1 r2)
  then show ?case by (auto intro: m_left m_right elim!: m_altE)
next
  case Bol
  show ?case by (cases p) (auto intro: m_bol elim: m_bolE)
next
  case Eol
  show ?case by (cases p) (auto intro: m_eol elim: m_eolE)
qed (auto intro: m_eps elim: m_epsE)

lemma later_positions_iff: "(b, t) \<in> set (later_positions s) \<longleftrightarrow> \<not> b \<and> (\<exists>a. a \<noteq> [] \<and> s = a @ t)"
  by (induction s) (auto simp: Cons_eq_append_conv)

lemma positions_iff:
  "(b, t) \<in> set ((True, s) # later_positions s) \<longleftrightarrow> (\<exists>a. s = a @ t \<and> b = (a = []))"
  by (auto simp: later_positions_iff)

text \<open>
  \<open>test\<close> holds exactly when some part of the text is one the expression describes, at the
  place where it stands.
\<close>

theorem rx_test_iff:
  "rx_test r s = (\<exists>a u b. s = a @ u @ b \<and>
     rx_match r (a = [], codes (u @ b)) (a = [] \<and> u = [], codes b))"
proof
  assume "rx_test r s"
  then obtain b t q where p: "(b, t) \<in> set ((True, codes s) # later_positions (codes s))"
    and q: "q \<in> set (rests r (b, t))"
    unfolding rx_test_def list_ex_iff by (metis list.set_intros(1) neq_Nil_conv surj_pair)
  then obtain a' where a: "codes s = a' @ t" "b = (a' = [])" unfolding positions_iff by blast
  have m: "rx_match r (b, t) q" using q by (simp add: rests_iff)
  obtain u' where u: "t = u' @ snd q" "fst q = (b \<and> u' = [])" using rx_match_prefix [OF m] by auto
  have "map of_char s = a' @ u' @ snd q" using a u by (simp add: codes_def)
  then obtain x y z where "s = x @ y @ z" "a' = codes x" "u' = codes y" "snd q = codes z"
    unfolding codes_def by (metis map_eq_append_conv)
  then show "\<exists>a u b. s = a @ u @ b \<and> rx_match r (a = [], codes (u @ b)) (a = [] \<and> u = [], codes b)"
    using m a u by (intro exI [of _ x] exI [of _ y] exI [of _ z]) (cases q, simp add: codes_def)
next
  assume "\<exists>a u b. s = a @ u @ b \<and> rx_match r (a = [], codes (u @ b)) (a = [] \<and> u = [], codes b)"
  then obtain a u b where s: "s = a @ u @ b"
    and m: "rx_match r (a = [], codes (u @ b)) (a = [] \<and> u = [], codes b)" by blast
  have "\<exists>c. codes s = c @ codes (u @ b) \<and> (a = []) = (c = [])"
    using s by (intro exI [of _ "codes a"]) (simp add: codes_def)
  then have "(a = [], codes (u @ b)) \<in> set ((True, codes s) # later_positions (codes s))"
    unfolding positions_iff .
  moreover have "rests r (a = [], codes (u @ b)) \<noteq> []" using m unfolding rests_iff [symmetric] by auto
  ultimately show "rx_test r s" unfolding rx_test_def list_ex_iff by blast
qed

end
