(* ===== verification/Policy_Types.thy ===== *)
theory Policy_Types
  imports Js_Regex
begin

text \<open>
  The canonical types of the pre-execution policy layer (\<^verbatim>\<open>packages/policy/src/types.ts\<close>) with
  the names the program prints for them. Optional fields are options; \<open>httpMethod\<close> is a text,
  since the gateway casts any upper-cased text to it.
\<close>

datatype mutation_class = READ_ONLY | LOCAL_MUTATION | SOURCE_MUTATION | GIT_STAGE | GIT_COMMIT
  | GIT_PUSH | GIT_DESTRUCTIVE | DEPLOYMENT | PRODUCTION_READ | PRODUCTION_MUTATION
  | DATABASE_READ | DATABASE_MUTATION | SCHEMA_MUTATION | SCHEMA_SOURCE_MUTATION | SECRET_READ
  | SECRET_OUTPUT | CREDENTIAL_USE | AUTH_SESSION_CREATION | DESTRUCTIVE | MC_UNKNOWN

fun class_name :: "mutation_class \<Rightarrow> string" where
  "class_name READ_ONLY = ''READ_ONLY''"
| "class_name LOCAL_MUTATION = ''LOCAL_MUTATION''"
| "class_name SOURCE_MUTATION = ''SOURCE_MUTATION''"
| "class_name GIT_STAGE = ''GIT_STAGE''"
| "class_name GIT_COMMIT = ''GIT_COMMIT''"
| "class_name GIT_PUSH = ''GIT_PUSH''"
| "class_name GIT_DESTRUCTIVE = ''GIT_DESTRUCTIVE''"
| "class_name DEPLOYMENT = ''DEPLOYMENT''"
| "class_name PRODUCTION_READ = ''PRODUCTION_READ''"
| "class_name PRODUCTION_MUTATION = ''PRODUCTION_MUTATION''"
| "class_name DATABASE_READ = ''DATABASE_READ''"
| "class_name DATABASE_MUTATION = ''DATABASE_MUTATION''"
| "class_name SCHEMA_MUTATION = ''SCHEMA_MUTATION''"
| "class_name SCHEMA_SOURCE_MUTATION = ''SCHEMA_SOURCE_MUTATION''"
| "class_name SECRET_READ = ''SECRET_READ''"
| "class_name SECRET_OUTPUT = ''SECRET_OUTPUT''"
| "class_name CREDENTIAL_USE = ''CREDENTIAL_USE''"
| "class_name AUTH_SESSION_CREATION = ''AUTH_SESSION_CREATION''"
| "class_name DESTRUCTIVE = ''DESTRUCTIVE''"
| "class_name MC_UNKNOWN = ''UNKNOWN''"

datatype execution_gate = G_AUDIT | G_PLAN | G_OWNER_PLAN_REVIEW | G_IMPLEMENTATION | G_TEST
  | G_OWNER_PRECOMMIT | G_COMMIT | G_PUSH | G_DEPLOY | G_PRODUCTION_VALIDATION
  | G_PRODUCTION_VALIDATION_READ_ONLY | G_OWNER_FINAL_CLOSURE

fun gate_name :: "execution_gate \<Rightarrow> string" where
  "gate_name G_AUDIT = ''AUDIT''"
| "gate_name G_PLAN = ''PLAN''"
| "gate_name G_OWNER_PLAN_REVIEW = ''OWNER_PLAN_REVIEW''"
| "gate_name G_IMPLEMENTATION = ''IMPLEMENTATION''"
| "gate_name G_TEST = ''TEST''"
| "gate_name G_OWNER_PRECOMMIT = ''OWNER_PRECOMMIT''"
| "gate_name G_COMMIT = ''COMMIT''"
| "gate_name G_PUSH = ''PUSH''"
| "gate_name G_DEPLOY = ''DEPLOY''"
| "gate_name G_PRODUCTION_VALIDATION = ''PRODUCTION_VALIDATION''"
| "gate_name G_PRODUCTION_VALIDATION_READ_ONLY = ''PRODUCTION_VALIDATION_READ_ONLY''"
| "gate_name G_OWNER_FINAL_CLOSURE = ''OWNER_FINAL_CLOSURE''"

datatype owner_token = OWNER_PLAN_APPROVED | OWNER_IMPLEMENTATION_APPROVED | OWNER_COMMIT_APPROVED
  | OWNER_PUSH_APPROVED | OWNER_DEPLOY_APPROVED | OWNER_PRODUCTION_MUTATION_APPROVED
  | OWNER_SCHEMA_CHANGE_APPROVED

fun token_name :: "owner_token \<Rightarrow> string" where
  "token_name OWNER_PLAN_APPROVED = ''OWNER_PLAN_APPROVED''"
| "token_name OWNER_IMPLEMENTATION_APPROVED = ''OWNER_IMPLEMENTATION_APPROVED''"
| "token_name OWNER_COMMIT_APPROVED = ''OWNER_COMMIT_APPROVED''"
| "token_name OWNER_PUSH_APPROVED = ''OWNER_PUSH_APPROVED''"
| "token_name OWNER_DEPLOY_APPROVED = ''OWNER_DEPLOY_APPROVED''"
| "token_name OWNER_PRODUCTION_MUTATION_APPROVED = ''OWNER_PRODUCTION_MUTATION_APPROVED''"
| "token_name OWNER_SCHEMA_CHANGE_APPROVED = ''OWNER_SCHEMA_CHANGE_APPROVED''"

datatype grant_status = GS_ISSUED | GS_ACTIVE | GS_RESERVED | GS_CONSUMED | GS_RECONCILIATION_REQUIRED

record grant_view =
  gv_grantId :: string
  gv_token :: owner_token
  gv_taskId :: string
  gv_status :: grant_status
  gv_reservedForActionId :: "string option"
  gv_boundToGate :: "execution_gate option"
  gv_boundToAction :: "string option"
  gv_issuedAt :: int

datatype environment = ENV_LOCAL | ENV_TEST | ENV_STAGING | ENV_PRODUCTION

record action_request =
  rq_actionId :: string
  rq_taskId :: string
  rq_agentId :: string
  rq_provider :: string
  rq_tool :: string
  rq_operation :: string
  rq_command :: "string option"
  rq_args :: "string list option"
  rq_resource :: string
  rq_httpMethod :: "string option"
  rq_gitOperation :: "string option"
  rq_environment :: environment
  rq_parameters :: "(string \<times> json) list"
  rq_authorityContextRef :: string
  rq_correlationId :: string
  rq_targetFilePaths :: "string list"
  rq_generatedContent :: "string option"

datatype policy_decision = PD_ALLOW | PD_DENY | PD_REQUIRE_APPROVAL | PD_OWNER_DECISION_REQUIRED

record action_policy_decision =
  pd_actionId :: string
  pd_decision :: policy_decision
  pd_policyRule :: string
  pd_currentGate :: execution_gate
  pd_requiredAuthority :: "owner_token option"
  pd_grantedByAuthorityId :: "string option"
  pd_triggeringClasses :: "mutation_class list"
  pd_allClasses :: "mutation_class list"
  pd_reason :: string

record guard_violation =
  gd_guardName :: string
  gd_ruleCode :: string
  gd_detail :: string

record gate_rule =
  gr_allowedClasses :: "mutation_class list"
  gr_deniedClasses :: "mutation_class list"
  gr_requiredTokens :: "(mutation_class \<times> owner_token) list"
  gr_enforceFileScope :: bool

text \<open>What agents and the policy engine may read of the execution context.\<close>

record read_only_context =
  cx_gate :: execution_gate
  cx_environment :: environment
  cx_approvedFiles :: "string list"
  cx_activeAuthorities :: "grant_view list"

lemma class_name_inj [simp]: "class_name a = class_name b \<longleftrightarrow> a = b"
  by (cases a; cases b; simp)

definition sq :: "string \<Rightarrow> string" where
  "sq s = CHR 0x27 # s @ [CHR 0x27]"

definition dq :: "string \<Rightarrow> string" where
  "dq s = CHR 0x22 # s @ [CHR 0x22]"

end
