(* ===== verification/Owner_Authority.thy ===== *)
theory Owner_Authority
  imports Policy_Types
begin

text \<open>
  Owner authority (\<^verbatim>\<open>packages/policy/src/context\<close>): the issuer of sealed owner events, the
  processor that applies them to the gate, the approved files and the grants, the grant
  capability of the gateway, and the transition policy of the gates. The module-private brand
  is the constructor of an event: an object without it is \<open>PlainObject\<close>. Identifiers, dates and
  the clock are arguments. Messages of the audit log are kept as structured entries.
\<close>

section \<open>Gate transitions\<close>

record gate_transition_rule =
  tr_from :: execution_gate
  tr_to :: execution_gate
  tr_requiredToken :: "owner_token option"

definition rule_of :: "execution_gate \<Rightarrow> execution_gate \<Rightarrow> owner_token option \<Rightarrow> gate_transition_rule" where
  "rule_of f t k = \<lparr>tr_from = f, tr_to = t, tr_requiredToken = k\<rparr>"

definition GATE_TRANSITION_POLICY :: "gate_transition_rule list" where
  "GATE_TRANSITION_POLICY =
     [rule_of G_AUDIT G_PLAN None,
      rule_of G_PLAN G_OWNER_PLAN_REVIEW None,
      rule_of G_OWNER_PLAN_REVIEW G_IMPLEMENTATION (Some OWNER_IMPLEMENTATION_APPROVED),
      rule_of G_IMPLEMENTATION G_TEST None,
      rule_of G_TEST G_OWNER_PRECOMMIT None,
      rule_of G_OWNER_PRECOMMIT G_COMMIT (Some OWNER_COMMIT_APPROVED),
      rule_of G_COMMIT G_PUSH (Some OWNER_PUSH_APPROVED),
      rule_of G_PUSH G_DEPLOY (Some OWNER_DEPLOY_APPROVED),
      rule_of G_DEPLOY G_PRODUCTION_VALIDATION None,
      rule_of G_PRODUCTION_VALIDATION G_OWNER_FINAL_CLOSURE None,
      rule_of G_PUSH G_PRODUCTION_VALIDATION_READ_ONLY None,
      rule_of G_PRODUCTION_VALIDATION G_PRODUCTION_VALIDATION_READ_ONLY None,
      rule_of G_PRODUCTION_VALIDATION_READ_ONLY G_OWNER_FINAL_CLOSURE None]"

section \<open>Owner events and their issuer\<close>

record authority_event =
  ae_eventId :: string
  ae_ownerRef :: string
  ae_taskId :: string
  ae_authorityType :: owner_token
  ae_boundToGate :: "execution_gate option"
  ae_boundToAction :: "string option"
  ae_issuedAt :: int
  ae_correlationId :: string

record gate_event =
  ge_eventId :: string
  ge_ownerRef :: string
  ge_taskId :: string
  ge_fromGate :: execution_gate
  ge_toGate :: execution_gate
  ge_issuedAt :: int
  ge_correlationId :: string

record scope_event =
  se_eventId :: string
  se_ownerRef :: string
  se_taskId :: string
  se_approvedFiles :: "string list"
  se_issuedAt :: int
  se_correlationId :: string

datatype owner_event = SealedOwnerAuthorityEvent authority_event | SealedGateTransitionEvent gate_event
  | SealedApprovedScopeEvent scope_event | PlainObject

record issuer =
  is_ownerRef :: string
  is_taskId :: string

definition issueAuthorityEvent :: "issuer \<Rightarrow> owner_token \<Rightarrow> execution_gate option \<Rightarrow> string option \<Rightarrow> string \<Rightarrow>
    string \<Rightarrow> int \<Rightarrow> owner_event" where
  "issueAuthorityEvent i token gate action corr eid now = SealedOwnerAuthorityEvent
     \<lparr>ae_eventId = eid, ae_ownerRef = is_ownerRef i, ae_taskId = is_taskId i, ae_authorityType = token,
      ae_boundToGate = gate, ae_boundToAction = action, ae_issuedAt = now, ae_correlationId = corr\<rparr>"

definition issueGateTransitionEvent :: "issuer \<Rightarrow> execution_gate \<Rightarrow> execution_gate \<Rightarrow> string \<Rightarrow> string \<Rightarrow> int \<Rightarrow>
    owner_event" where
  "issueGateTransitionEvent i f t corr eid now = SealedGateTransitionEvent
     \<lparr>ge_eventId = eid, ge_ownerRef = is_ownerRef i, ge_taskId = is_taskId i, ge_fromGate = f, ge_toGate = t,
      ge_issuedAt = now, ge_correlationId = corr\<rparr>"

definition issueApprovedScopeEvent :: "issuer \<Rightarrow> string list \<Rightarrow> string \<Rightarrow> string \<Rightarrow> int \<Rightarrow> owner_event" where
  "issueApprovedScopeEvent i files corr eid now = SealedApprovedScopeEvent
     \<lparr>se_eventId = eid, se_ownerRef = is_ownerRef i, se_taskId = is_taskId i, se_approvedFiles = files,
      se_issuedAt = now, se_correlationId = corr\<rparr>"

definition issueAuthorityAndTransition :: "issuer \<Rightarrow> owner_token \<Rightarrow> execution_gate \<Rightarrow> execution_gate \<Rightarrow>
    string option \<Rightarrow> string \<Rightarrow> string \<Rightarrow> string \<Rightarrow> int \<Rightarrow> owner_event \<times> owner_event" where
  "issueAuthorityAndTransition i token f t action corr eid1 eid2 now =
     (issueAuthorityEvent i token (Some t) action corr eid1 now, issueGateTransitionEvent i f t corr eid2 now)"

section \<open>The processor\<close>

record grant_record =
  gt_token :: owner_token
  gt_taskId :: string
  gt_status :: grant_status
  gt_reservedForActionId :: "string option"
  gt_boundToGate :: "execution_gate option"
  gt_boundToAction :: "string option"
  gt_issuedAt :: int

datatype audit_event = GateInit execution_gate | AuthorityGranted owner_token string
  | GateTransition execution_gate execution_gate | FileScopeSet nat | AuthorityRevoked owner_token string
  | GrantUsedMulti owner_token string string | GrantReserved owner_token string string
  | GrantConsumed owner_token string string | GrantReleasedForRetry owner_token string string
  | GrantReconciliationRequired owner_token string string

record owner_processor =
  ow_taskId :: string
  ow_gate :: execution_gate
  ow_environment :: environment
  ow_grants :: "(string, grant_record) jsmap"
  ow_approvedFileScope :: "string list"
  ow_auditLog :: "(int \<times> audit_event) list"

datatype gate_refusal = NotInPolicy | WrongCurrentGate execution_gate | TokenNotActive owner_token

datatype owner_error = UntrustedOwnerEventError | TaskMismatchError string string
  | GateTransitionNotPermittedError execution_gate execution_gate gate_refusal
  | GrantStateError string grant_status grant_status | GrantNotFoundError string string

definition new_processor :: "string \<Rightarrow> execution_gate \<Rightarrow> environment \<Rightarrow> int \<Rightarrow> owner_processor" where
  "new_processor task gate env now =
     \<lparr>ow_taskId = task, ow_gate = gate, ow_environment = env, ow_grants = [], ow_approvedFileScope = [],
      ow_auditLog = [(now, GateInit gate)]\<rparr>"

definition log_event :: "int \<Rightarrow> audit_event \<Rightarrow> owner_processor \<Rightarrow> owner_processor" where
  "log_event now e p = p\<lparr>ow_auditLog := ow_auditLog p @ [(now, e)]\<rparr>"

definition put_grant :: "string \<Rightarrow> grant_record \<Rightarrow> owner_processor \<Rightarrow> owner_processor" where
  "put_grant i g p = p\<lparr>ow_grants := jm_set i g (ow_grants p)\<rparr>"

definition grant_of :: "owner_processor \<Rightarrow> string \<Rightarrow> grant_record option" where
  "grant_of p i = jm_get (ow_grants p) i"

definition view_of_grant :: "string \<times> grant_record \<Rightarrow> grant_view" where
  "view_of_grant = (\<lambda>(i, g). \<lparr>gv_grantId = i, gv_token = gt_token g, gv_taskId = gt_taskId g, gv_status = gt_status g,
     gv_reservedForActionId = gt_reservedForActionId g, gv_boundToGate = gt_boundToGate g,
     gv_boundToAction = gt_boundToAction g, gv_issuedAt = gt_issuedAt g\<rparr>)"

definition readOnlyView :: "owner_processor \<Rightarrow> read_only_context" where
  "readOnlyView p = \<lparr>cx_gate = ow_gate p, cx_environment = ow_environment p,
     cx_approvedFiles = ow_approvedFileScope p, cx_activeAuthorities = map view_of_grant (ow_grants p)\<rparr>"

definition hasActiveGrant :: "owner_processor \<Rightarrow> owner_token \<Rightarrow> bool" where
  "hasActiveGrant p token = list_ex (\<lambda>(i, g). gt_token g = token \<and> gt_status g = GS_ACTIVE) (ow_grants p)"

definition applyOwnerAuthorityEvent :: "owner_event \<Rightarrow> int \<Rightarrow> (owner_processor, owner_error, unit) act" where
  "applyOwnerAuthorityEvent ev now p =
     (case ev of
        SealedOwnerAuthorityEvent e \<Rightarrow>
          if ae_taskId e \<noteq> ow_taskId p then (Inl (TaskMismatchError (ow_taskId p) (ae_taskId e)), p)
          else (Inr (), log_event now (AuthorityGranted (ae_authorityType e) (ae_eventId e))
            (put_grant (ae_eventId e)
              \<lparr>gt_token = ae_authorityType e, gt_taskId = ae_taskId e, gt_status = GS_ACTIVE,
               gt_reservedForActionId = None, gt_boundToGate = ae_boundToGate e,
               gt_boundToAction = ae_boundToAction e, gt_issuedAt = ae_issuedAt e\<rparr> p))
      | _ \<Rightarrow> (Inl UntrustedOwnerEventError, p))"

definition transitionGateFromEvent :: "owner_event \<Rightarrow> int \<Rightarrow> (owner_processor, owner_error, unit) act" where
  "transitionGateFromEvent ev now p =
     (case ev of
        SealedGateTransitionEvent e \<Rightarrow>
          let f = ge_fromGate e; t = ge_toGate e in
          if ge_taskId e \<noteq> ow_taskId p then (Inl (TaskMismatchError (ow_taskId p) (ge_taskId e)), p)
          else (case List.find (\<lambda>r. tr_from r = f \<and> tr_to r = t) GATE_TRANSITION_POLICY of
              None \<Rightarrow> (Inl (GateTransitionNotPermittedError f t NotInPolicy), p)
            | Some rule \<Rightarrow>
                if f \<noteq> ow_gate p then (Inl (GateTransitionNotPermittedError f t (WrongCurrentGate (ow_gate p))), p)
                else (case tr_requiredToken rule of
                    Some token \<Rightarrow>
                      if \<not> hasActiveGrant p token
                      then (Inl (GateTransitionNotPermittedError f t (TokenNotActive token)), p)
                      else (Inr (), log_event now (GateTransition (ow_gate p) t) (p\<lparr>ow_gate := t\<rparr>))
                  | None \<Rightarrow> (Inr (), log_event now (GateTransition (ow_gate p) t) (p\<lparr>ow_gate := t\<rparr>))))
      | _ \<Rightarrow> (Inl UntrustedOwnerEventError, p))"

definition setApprovedScopeFromPlan :: "owner_event \<Rightarrow> int \<Rightarrow> (owner_processor, owner_error, unit) act" where
  "setApprovedScopeFromPlan ev now p =
     (case ev of
        SealedApprovedScopeEvent e \<Rightarrow>
          if se_taskId e \<noteq> ow_taskId p then (Inl (TaskMismatchError (ow_taskId p) (se_taskId e)), p)
          else (Inr (), log_event now (FileScopeSet (length (se_approvedFiles e)))
                 (p\<lparr>ow_approvedFileScope := jset_of (se_approvedFiles e)\<rparr>))
      | _ \<Rightarrow> (Inl UntrustedOwnerEventError, p))"

definition revokeGrant :: "owner_token \<Rightarrow> int \<Rightarrow> owner_processor \<Rightarrow> owner_processor" where
  "revokeGrant token now p =
     (case List.find (\<lambda>(i, g). gt_token g = token \<and> gt_status g \<in> {GS_ACTIVE, GS_RESERVED, GS_ISSUED}) (ow_grants p) of
        None \<Rightarrow> p
      | Some (i, g) \<Rightarrow> log_event now (AuthorityRevoked token i) (put_grant i (g\<lparr>gt_status := GS_CONSUMED\<rparr>) p))"

section \<open>The grant capability of the gateway\<close>

definition reserveGrant :: "string \<Rightarrow> string \<Rightarrow> int \<Rightarrow> (owner_processor, owner_error, unit) act" where
  "reserveGrant i action now p =
     (case grant_of p i of
        None \<Rightarrow> (Inl (GrantNotFoundError i action), p)
      | Some g \<Rightarrow>
          if gt_token g = OWNER_IMPLEMENTATION_APPROVED
          then (Inr (), log_event now (GrantUsedMulti (gt_token g) i action) p)
          else if gt_status g \<noteq> GS_ACTIVE then (Inl (GrantStateError i GS_ACTIVE (gt_status g)), p)
          else (Inr (), log_event now (GrantReserved (gt_token g) i action)
                 (put_grant i (g\<lparr>gt_status := GS_RESERVED, gt_reservedForActionId := Some action\<rparr>) p)))"

definition consumeGrant :: "string \<Rightarrow> string \<Rightarrow> int \<Rightarrow> (owner_processor, owner_error, unit) act" where
  "consumeGrant i action now p =
     (case grant_of p i of
        None \<Rightarrow> (Inl (GrantNotFoundError i action), p)
      | Some g \<Rightarrow>
          if gt_token g = OWNER_IMPLEMENTATION_APPROVED then (Inr (), p)
          else if gt_status g \<noteq> GS_RESERVED \<or> gt_reservedForActionId g \<noteq> Some action
          then (Inl (GrantStateError i GS_RESERVED (gt_status g)), p)
          else (Inr (), log_event now (GrantConsumed (gt_token g) i action)
                 (put_grant i (g\<lparr>gt_status := GS_CONSUMED\<rparr>) p)))"

definition releaseGrantForRetry :: "string \<Rightarrow> string \<Rightarrow> int \<Rightarrow> (owner_processor, owner_error, unit) act" where
  "releaseGrantForRetry i action now p =
     (case grant_of p i of
        None \<Rightarrow> (Inl (GrantNotFoundError i action), p)
      | Some g \<Rightarrow>
          if gt_token g = OWNER_IMPLEMENTATION_APPROVED then (Inr (), p)
          else (Inr (), log_event now (GrantReleasedForRetry (gt_token g) i action)
                 (put_grant i (g\<lparr>gt_status := GS_ACTIVE, gt_reservedForActionId := None\<rparr>) p)))"

definition requireReconciliation :: "string \<Rightarrow> string \<Rightarrow> int \<Rightarrow> (owner_processor, owner_error, unit) act" where
  "requireReconciliation i action now p =
     (case grant_of p i of
        None \<Rightarrow> (Inl (GrantNotFoundError i action), p)
      | Some g \<Rightarrow>
          if gt_token g = OWNER_IMPLEMENTATION_APPROVED then (Inr (), p)
          else (Inr (), log_event now (GrantReconciliationRequired (gt_token g) i action)
                 (put_grant i (g\<lparr>gt_status := GS_RECONCILIATION_REQUIRED\<rparr>) p)))"

lemmas owner_ops = applyOwnerAuthorityEvent_def transitionGateFromEvent_def setApprovedScopeFromPlan_def
  reserveGrant_def consumeGrant_def releaseGrantForRetry_def requireReconciliation_def

section \<open>Basic facts\<close>

lemma put_grant_sel [simp]:
  "grant_of (put_grant i g p) j = (if j = i then Some g else grant_of p j)"
  "ow_gate (put_grant i g p) = ow_gate p" "ow_taskId (put_grant i g p) = ow_taskId p"
  "ow_approvedFileScope (put_grant i g p) = ow_approvedFileScope p"
  by (simp_all add: put_grant_def grant_of_def)

lemma log_event_sel [simp]:
  "grant_of (log_event now e p) = grant_of p" "ow_gate (log_event now e p) = ow_gate p"
  "ow_grants (log_event now e p) = ow_grants p" "ow_taskId (log_event now e p) = ow_taskId p"
  "ow_approvedFileScope (log_event now e p) = ow_approvedFileScope p"
  by (simp_all add: log_event_def grant_of_def fun_eq_iff)

lemma gate_update_sel [simp]:
  "grant_of (p\<lparr>ow_gate := t\<rparr>) = grant_of p" "grant_of (p\<lparr>ow_approvedFileScope := fs\<rparr>) = grant_of p"
  by (simp_all add: grant_of_def fun_eq_iff)

definition owner_inv :: "owner_processor \<Rightarrow> bool" where
  "owner_inv p \<longleftrightarrow> distinct (map fst (ow_grants p)) \<and> (\<forall>i g. grant_of p i = Some g \<longrightarrow> gt_taskId g = ow_taskId p)"

lemma owner_inv_put:
  "owner_inv p \<Longrightarrow> gt_taskId g = ow_taskId p \<Longrightarrow> owner_inv (put_grant i g p)"
proof -
  assume inv: "owner_inv p" and g: "gt_taskId g = ow_taskId p"
  have "distinct (map fst (ow_grants (put_grant i g p)))"
    using inv by (simp add: owner_inv_def put_grant_def distinct_keys_jm_set)
  then show ?thesis using inv g unfolding owner_inv_def by simp
qed

lemma owner_inv_log [simp]: "owner_inv (log_event now e p) = owner_inv p"
  by (simp add: owner_inv_def)

lemma owner_inv_gate [simp]:
  "owner_inv (p\<lparr>ow_gate := t\<rparr>) = owner_inv p" "owner_inv (p\<lparr>ow_approvedFileScope := fs\<rparr>) = owner_inv p"
  by (simp_all add: owner_inv_def)

lemma grant_of_in: "owner_inv p \<Longrightarrow> (i, g) \<in> set (ow_grants p) \<Longrightarrow> grant_of p i = Some g"
  by (simp add: owner_inv_def grant_of_def jm_get_in_distinct)

lemma grant_of_Some_in: "grant_of p i = Some g \<Longrightarrow> (i, g) \<in> set (ow_grants p)"
  by (simp add: grant_of_def jm_get_Some_in)

lemma hasActiveGrant_iff:
  "owner_inv p \<Longrightarrow> hasActiveGrant p token \<longleftrightarrow>
     (\<exists>i g. grant_of p i = Some g \<and> gt_token g = token \<and> gt_status g = GS_ACTIVE)"
proof -
  assume inv: "owner_inv p"
  have "hasActiveGrant p token \<longleftrightarrow> (\<exists>i g. (i, g) \<in> set (ow_grants p) \<and> gt_token g = token \<and> gt_status g = GS_ACTIVE)"
    by (auto simp: hasActiveGrant_def list_ex_iff)
  moreover have "(i, g) \<in> set (ow_grants p) \<longleftrightarrow> grant_of p i = Some g" for i g
    using grant_of_in [OF inv] grant_of_Some_in by blast
  ultimately show ?thesis by simp
qed

section \<open>Runs of the processor\<close>

text \<open>
  Everything that can happen to a processor, in any order: events of any kind, revocations, and
  any call of the grant capability.
\<close>

inductive owner_step :: "owner_processor \<Rightarrow> owner_processor \<Rightarrow> bool" where
  os_authority: "owner_step p (snd (applyOwnerAuthorityEvent ev now p))"
| os_gate: "owner_step p (snd (transitionGateFromEvent ev now p))"
| os_scope: "owner_step p (snd (setApprovedScopeFromPlan ev now p))"
| os_revoke: "owner_step p (revokeGrant token now p)"
| os_reserve: "owner_step p (snd (reserveGrant i a now p))"
| os_consume: "owner_step p (snd (consumeGrant i a now p))"
| os_release: "owner_step p (snd (releaseGrantForRetry i a now p))"
| os_reconcile: "owner_step p (snd (requireReconciliation i a now p))"

inductive owner_reach :: "owner_processor \<Rightarrow> owner_processor \<Rightarrow> bool" where
  or_here: "owner_reach p p"
| or_next: "owner_reach p q \<Longrightarrow> owner_step q q' \<Longrightarrow> owner_reach p q'"

lemma owner_reach_closed:
  assumes "owner_reach p q" "P p" "\<And>x y. P x \<Longrightarrow> owner_step x y \<Longrightarrow> P y"
  shows "P q"
  using assms by (induction rule: owner_reach.induct) auto

lemma owner_inv_new: "owner_inv (new_processor task gate env now)"
  by (simp add: owner_inv_def new_processor_def grant_of_def)

lemma owner_inv_task: "owner_inv p \<Longrightarrow> grant_of p i = Some g \<Longrightarrow> gt_taskId g = ow_taskId p"
  by (simp add: owner_inv_def)

lemma owner_inv_step: "owner_step p q \<Longrightarrow> owner_inv p \<Longrightarrow> owner_inv q"
proof (induction rule: owner_step.induct)
  case (os_revoke p token now)
  have "gt_taskId g = ow_taskId p" if "(i, g) \<in> set (ow_grants p)" for i g
    using owner_inv_task [OF os_revoke grant_of_in [OF os_revoke that]] .
  then show ?case using os_revoke
    by (auto simp: revokeGrant_def owner_inv_put split: option.split dest!: find_SomeD)
qed (auto simp: owner_ops Let_def owner_inv_put owner_inv_task split: option.splits owner_event.splits if_splits)

text \<open>
  A gate transition succeeds exactly for a sealed event of the same task whose transition is in the policy, starts at
  the current gate and, when the policy asks for a token, finds an ACTIVE grant of it; the gate then moves to the target
  and no grant changes. Every other event leaves the processor as it was.
\<close>

theorem gate_transition_iff:
  assumes "owner_inv p"
  shows "(fst (transitionGateFromEvent ev now p) = Inr () \<longleftrightarrow>
      (\<exists>e rule. ev = SealedGateTransitionEvent e \<and> ge_taskId e = ow_taskId p \<and> rule \<in> set GATE_TRANSITION_POLICY \<and>
        tr_from rule = ge_fromGate e \<and> tr_to rule = ge_toGate e \<and> ge_fromGate e = ow_gate p \<and>
        (\<forall>t. tr_requiredToken rule = Some t \<longrightarrow>
           (\<exists>i g. grant_of p i = Some g \<and> gt_token g = t \<and> gt_status g = GS_ACTIVE)))) \<and>
    (fst (transitionGateFromEvent ev now p) = Inr () \<longrightarrow>
      (\<exists>e. ev = SealedGateTransitionEvent e \<and> ow_gate (snd (transitionGateFromEvent ev now p)) = ge_toGate e) \<and>
      grant_of (snd (transitionGateFromEvent ev now p)) = grant_of p) \<and>
    (fst (transitionGateFromEvent ev now p) \<noteq> Inr () \<longrightarrow> snd (transitionGateFromEvent ev now p) = p)"
proof (cases ev)
  case (SealedGateTransitionEvent e)
  let ?m = "\<lambda>r. tr_from r = ge_fromGate e \<and> tr_to r = ge_toGate e"
  have unique: "rule' = rule" if "List.find ?m GATE_TRANSITION_POLICY = Some rule"
    "rule' \<in> set GATE_TRANSITION_POLICY" "?m rule'" for rule rule'
    using find_SomeD [OF that(1)] that(2,3)
    by (auto simp: GATE_TRANSITION_POLICY_def rule_of_def)
  show ?thesis
  proof (cases "List.find ?m GATE_TRANSITION_POLICY")
    case None
    then have "\<not> ?m r" if "r \<in> set GATE_TRANSITION_POLICY" for r using that by (auto simp: find_None_iff)
    then show ?thesis using None SealedGateTransitionEvent
      by (auto simp: transitionGateFromEvent_def Let_def)
  next
    case (Some rule)
    note r = find_SomeD [OF Some]
    have "(\<exists>rule'. rule' \<in> set GATE_TRANSITION_POLICY \<and> tr_from rule' = ge_fromGate e \<and> tr_to rule' = ge_toGate e \<and> Q rule')
        \<longleftrightarrow> Q rule" for Q using r unique [OF Some] by blast
    then show ?thesis using Some SealedGateTransitionEvent hasActiveGrant_iff [OF assms]
      by (auto simp: transitionGateFromEvent_def Let_def split: option.split)
  qed
qed (simp_all add: transitionGateFromEvent_def)

definition sample_issuer :: issuer where
  "sample_issuer = \<lparr>is_ownerRef = ''o'', is_taskId = ''t''\<rparr>"

definition sample_precommit :: owner_processor where
  "sample_precommit = snd (applyOwnerAuthorityEvent
     (issueAuthorityEvent sample_issuer OWNER_COMMIT_APPROVED (Some G_COMMIT) (Some ''GIT_COMMIT'') ''k'' ''g'' 1) 2
     (new_processor ''t'' G_OWNER_PRECOMMIT ENV_LOCAL 0))"

lemma sample_precommit_inv: "owner_inv sample_precommit"
  unfolding sample_precommit_def by (rule owner_inv_step [OF os_authority owner_inv_new])

lemma gate_transition_iff_witness:
  "fst (transitionGateFromEvent (issueGateTransitionEvent sample_issuer G_OWNER_PRECOMMIT G_COMMIT ''k'' ''e'' 3) 4
     sample_precommit) = Inr ()"
proof -
  let ?ev = "issueGateTransitionEvent sample_issuer G_OWNER_PRECOMMIT G_COMMIT ''k'' ''e'' 3"
  let ?g = "the (grant_of sample_precommit ''g'')"
  have "grant_of sample_precommit ''g'' = Some ?g" "gt_token ?g = OWNER_COMMIT_APPROVED" "gt_status ?g = GS_ACTIVE"
    "ow_taskId sample_precommit = ''t''" "ow_gate sample_precommit = G_OWNER_PRECOMMIT"
    by code_simp+
  moreover have "rule_of G_OWNER_PRECOMMIT G_COMMIT (Some OWNER_COMMIT_APPROVED) \<in> set GATE_TRANSITION_POLICY"
    by (simp add: GATE_TRANSITION_POLICY_def)
  ultimately have "\<exists>e rule. ?ev = SealedGateTransitionEvent e \<and> ge_taskId e = ow_taskId sample_precommit \<and>
      rule \<in> set GATE_TRANSITION_POLICY \<and>
      tr_from rule = ge_fromGate e \<and> tr_to rule = ge_toGate e \<and> ge_fromGate e = ow_gate sample_precommit \<and>
      (\<forall>t. tr_requiredToken rule = Some t \<longrightarrow>
         (\<exists>i g. grant_of sample_precommit i = Some g \<and> gt_token g = t \<and> gt_status g = GS_ACTIVE))"
    by (intro exI [of _ "rule_of G_OWNER_PRECOMMIT G_COMMIT (Some OWNER_COMMIT_APPROVED)"]
        exI [of _ "\<lparr>ge_eventId = ''e'', ge_ownerRef = ''o'', ge_taskId = ''t'', ge_fromGate = G_OWNER_PRECOMMIT,
          ge_toGate = G_COMMIT, ge_issuedAt = 3, ge_correlationId = ''k''\<rparr>"])
      (auto simp: issueGateTransitionEvent_def sample_issuer_def rule_of_def)
  then show ?thesis using gate_transition_iff [OF sample_precommit_inv, of ?ev 4] by blast
qed

text \<open>The tokens that must have been granted before a gate can be reached from AUDIT.\<close>

fun tokens_before :: "execution_gate \<Rightarrow> owner_token list" where
  "tokens_before G_AUDIT = []"
| "tokens_before G_PLAN = []"
| "tokens_before G_OWNER_PLAN_REVIEW = []"
| "tokens_before G_IMPLEMENTATION = [OWNER_IMPLEMENTATION_APPROVED]"
| "tokens_before G_TEST = [OWNER_IMPLEMENTATION_APPROVED]"
| "tokens_before G_OWNER_PRECOMMIT = [OWNER_IMPLEMENTATION_APPROVED]"
| "tokens_before G_COMMIT = [OWNER_IMPLEMENTATION_APPROVED, OWNER_COMMIT_APPROVED]"
| "tokens_before G_DEPLOY = [OWNER_IMPLEMENTATION_APPROVED, OWNER_COMMIT_APPROVED, OWNER_PUSH_APPROVED, OWNER_DEPLOY_APPROVED]"
| "tokens_before G_PRODUCTION_VALIDATION =
     [OWNER_IMPLEMENTATION_APPROVED, OWNER_COMMIT_APPROVED, OWNER_PUSH_APPROVED, OWNER_DEPLOY_APPROVED]"
| "tokens_before _ = [OWNER_IMPLEMENTATION_APPROVED, OWNER_COMMIT_APPROVED, OWNER_PUSH_APPROVED]"

definition granted_once :: "owner_processor \<Rightarrow> owner_token \<Rightarrow> bool" where
  "granted_once p t \<longleftrightarrow> (\<exists>at i. (at, AuthorityGranted t i) \<in> set (ow_auditLog p))"

definition log_inv :: "owner_processor \<Rightarrow> bool" where
  "log_inv p \<longleftrightarrow> (\<forall>(i, g) \<in> set (ow_grants p). granted_once p (gt_token g)) \<and>
     (\<forall>t \<in> set (tokens_before (ow_gate p)). granted_once p t)"

lemma granted_once_log [simp]:
  "granted_once (log_event now e p) t \<longleftrightarrow> granted_once p t \<or> (\<exists>i. e = AuthorityGranted t i)"
  by (auto simp: granted_once_def log_event_def)

lemma granted_once_other [simp]:
  "granted_once (put_grant i g p) = granted_once p" "granted_once (p\<lparr>ow_gate := t\<rparr>) = granted_once p"
  "granted_once (p\<lparr>ow_approvedFileScope := fs\<rparr>) = granted_once p"
  by (simp_all add: granted_once_def put_grant_def fun_eq_iff)

lemma jm_set_in: "x \<in> set (jm_set k v m) \<Longrightarrow> x = (k, v) \<or> x \<in> set m"
  by (induction k v m rule: jm_set.induct) (auto split: if_splits)

lemma put_grants: "ow_grants (put_grant i g p) = jm_set i g (ow_grants p)"
  by (simp add: put_grant_def)

lemma log_inv_put_log:
  "log_inv p \<Longrightarrow> granted_once p (gt_token g) \<or> (\<exists>j. e = AuthorityGranted (gt_token g) j) \<Longrightarrow>
   log_inv (log_event now e (put_grant i g p))"
proof -
  assume inv: "log_inv p" and g: "granted_once p (gt_token g) \<or> (\<exists>j. e = AuthorityGranted (gt_token g) j)"
  let ?q = "log_event now e (put_grant i g p)"
  have "granted_once ?q (gt_token h)" if "(j, h) \<in> set (ow_grants ?q)" for j h
    using that jm_set_in [of "(j, h)" i g "ow_grants p"] inv g by (auto simp: log_inv_def put_grants)
  moreover have "granted_once ?q t" if "t \<in> set (tokens_before (ow_gate ?q))" for t
    using that inv by (auto simp: log_inv_def)
  ultimately show ?thesis unfolding log_inv_def by blast
qed

lemma log_inv_log: "log_inv p \<Longrightarrow> log_inv (log_event now e p)"
  by (auto simp: log_inv_def)

lemma log_inv_grant: "log_inv p \<Longrightarrow> grant_of p i = Some g \<Longrightarrow> granted_once p (gt_token g)"
  using grant_of_Some_in [of p i g] by (auto simp: log_inv_def)

lemma policy_tokens_before:
  "rule \<in> set GATE_TRANSITION_POLICY \<Longrightarrow> set (tokens_before (tr_to rule)) \<subseteq>
     set (tokens_before (tr_from rule)) \<union> set_option (tr_requiredToken rule)"
  by (auto simp: GATE_TRANSITION_POLICY_def rule_of_def)


lemma log_inv_step: "owner_step p q \<Longrightarrow> log_inv p \<Longrightarrow> log_inv q"
proof (induction rule: owner_step.induct)
  case (os_gate p ev now)
  show ?case
  proof (cases "fst (transitionGateFromEvent ev now p) = Inr ()")
    case True
    then obtain e rule where e: "ev = SealedGateTransitionEvent e" and
      rule: "List.find (\<lambda>r. tr_from r = ge_fromGate e \<and> tr_to r = ge_toGate e) GATE_TRANSITION_POLICY = Some rule"
      and fr: "ge_fromGate e = ow_gate p" and q: "snd (transitionGateFromEvent ev now p) =
        log_event now (GateTransition (ow_gate p) (ge_toGate e)) (p\<lparr>ow_gate := ge_toGate e\<rparr>)"
      and tok: "\<forall>t. tr_requiredToken rule = Some t \<longrightarrow> hasActiveGrant p t"
      by (auto simp: transitionGateFromEvent_def Let_def split: owner_event.splits option.splits if_splits)
    have "granted_once p t" if "tr_requiredToken rule = Some t" for t
      using tok that os_gate by (auto simp: hasActiveGrant_def list_ex_iff log_inv_def)
    moreover have "set (tokens_before (ge_toGate e)) \<subseteq> set (tokens_before (ow_gate p)) \<union> set_option (tr_requiredToken rule)"
      using policy_tokens_before [of rule] find_SomeD [OF rule] fr by metis
    ultimately have "granted_once p t" if "t \<in> set (tokens_before (ge_toGate e))" for t
      using that os_gate by (auto simp: log_inv_def)
    then show ?thesis using os_gate unfolding q by (auto simp: log_inv_def)
  next
    case False
    then have "snd (transitionGateFromEvent ev now p) = p"
      by (auto simp: transitionGateFromEvent_def Let_def split: owner_event.splits option.splits if_splits)
    then show ?thesis using os_gate by simp
  qed
next
  case (os_scope p ev now)
  then show ?case
    by (auto simp: setApprovedScopeFromPlan_def log_inv_def split: owner_event.split)
next
  case (os_revoke p token now)
  have "log_inv (log_event now e (put_grant i (g\<lparr>gt_status := GS_CONSUMED\<rparr>) p))" if "(i, g) \<in> set (ow_grants p)" for i g e
    using that os_revoke by (intro log_inv_put_log) (auto simp: log_inv_def)
  then show ?case using os_revoke
    by (auto simp: revokeGrant_def split: option.split dest!: find_SomeD)
next
  case (os_authority p ev now)
  then show ?case
    by (auto simp: applyOwnerAuthorityEvent_def intro!: log_inv_put_log split: owner_event.split)
qed (auto simp: owner_ops intro!: log_inv_put_log intro: log_inv_log dest: log_inv_grant split: option.split)

text \<open>
  C11: no gate without its grants. Whatever events, revocations and capability calls are made, in
  whatever order, a processor that starts at AUDIT stands at a gate only if an authority event was applied for
  each token that must come before that gate: a commit needs the implementation and the commit approval, a push
  also the push approval, a deployment also the deploy approval.
\<close>

theorem gate_reached_with_grants:
  assumes "owner_reach (new_processor task G_AUDIT env now) p" and "t \<in> set (tokens_before (ow_gate p))"
  shows "\<exists>at i. (at, AuthorityGranted t i) \<in> set (ow_auditLog p)"
proof -
  have "log_inv p"
    by (rule owner_reach_closed [where P = log_inv, OF assms(1)])
      (simp add: log_inv_def new_processor_def, rule log_inv_step)
  then show ?thesis using assms(2) by (auto simp: log_inv_def granted_once_def)
qed

definition sample_implementing :: owner_processor where
  "sample_implementing =
     snd (transitionGateFromEvent (issueGateTransitionEvent sample_issuer G_OWNER_PLAN_REVIEW G_IMPLEMENTATION ''k'' ''e'' 3) 4
    (snd (transitionGateFromEvent (issueGateTransitionEvent sample_issuer G_PLAN G_OWNER_PLAN_REVIEW ''k'' ''e'' 3) 4
    (snd (transitionGateFromEvent (issueGateTransitionEvent sample_issuer G_AUDIT G_PLAN ''k'' ''e'' 3) 4
    (snd (applyOwnerAuthorityEvent
       (issueAuthorityEvent sample_issuer OWNER_IMPLEMENTATION_APPROVED None None ''k'' ''i'' 1) 2
       (new_processor ''t'' G_AUDIT ENV_LOCAL 0))))))))"

lemma gate_reached_with_grants_witness:
  "ow_gate sample_implementing = G_IMPLEMENTATION \<and>
   (\<exists>at i. (at, AuthorityGranted OWNER_IMPLEMENTATION_APPROVED i) \<in> set (ow_auditLog sample_implementing))"
proof -
  have "owner_reach (new_processor ''t'' G_AUDIT ENV_LOCAL 0) sample_implementing"
    unfolding sample_implementing_def 
    by (rule or_next [OF or_next [OF or_next [OF or_next [OF or_here os_authority] os_gate] os_gate] os_gate])
  moreover have "ow_gate sample_implementing = G_IMPLEMENTATION" by code_simp
  ultimately show ?thesis
    using gate_reached_with_grants [of "''t''" ENV_LOCAL 0 sample_implementing OWNER_IMPLEMENTATION_APPROVED] by simp
qed

text \<open>
  Replaying a sealed event makes a used grant ACTIVE again, and a release after a revocation brings the grant back:
  neither checks the state the grant is in.
\<close>

definition sample_event :: owner_event where
  "sample_event = issueAuthorityEvent sample_issuer OWNER_COMMIT_APPROVED (Some G_COMMIT) (Some ''GIT_COMMIT'') ''k'' ''g'' 1"

definition sample_consumed :: owner_processor where
  "sample_consumed = snd (consumeGrant ''g'' ''x'' 6 (snd (reserveGrant ''g'' ''x'' 5 sample_precommit)))"

lemma replay_reactivates_consumed_grant:
  "map_option gt_status (grant_of sample_consumed ''g'') = Some GS_CONSUMED"
  "map_option gt_status (grant_of (snd (applyOwnerAuthorityEvent sample_event 7 sample_consumed)) ''g'') = Some GS_ACTIVE"
  by code_simp+

lemma release_undoes_revocation:
  "map_option gt_status (grant_of (snd (releaseGrantForRetry ''g'' ''x'' 7
     (revokeGrant OWNER_COMMIT_APPROVED 6 (snd (reserveGrant ''g'' ''x'' 5 sample_precommit))))) ''g'') = Some GS_ACTIVE"
  by code_simp

end
