(* ===== verification/Action_Classifier.thy ===== *)
theory Action_Classifier
  imports Policy_Types
begin

text \<open>
  The action classifier and the four content guards
  (\<^verbatim>\<open>packages/policy/src/classification/action-classifier.ts\<close>): an action request is sorted into
  mutation classes, kept in the order in which the rules add them, and a request with secrets
  in its texts is reported by a guard. The pattern libraries are the program's regular
  expressions, all with the flag \<open>i\<close>.
\<close>

section \<open>Pattern libraries\<close>

definition quotes :: "(nat \<times> nat) list" where
  "quotes = [one CHR 0x27, one CHR 0x22]"

definition rx_quote :: rx where "rx_quote = rx_in quotes"

text \<open>\<open>\s*[:=]\s*\<close>\<close>

definition rx_assign :: rx where
  "rx_assign = rx_seq [Star rx_space, rx_in [one CHR '':'', one CHR ''=''], Star rx_space]"

text \<open>A quoted literal of at least \<open>n\<close> characters, none of them a quote or \<open>$\<close>.\<close>

definition rx_quoted :: "nat \<Rightarrow> rx" where
  "rx_quoted n = rx_seq [rx_quote, rx_least n (rx_not (quotes @ [one CHR ''$''])), rx_quote]"

definition rx_space_or_end :: rx where "rx_space_or_end = Alt rx_space Eol"

definition SECRET_BEARING_PATH_PATTERNS :: "rx list" where
  "SECRET_BEARING_PATH_PATTERNS =
     [rx_seq [Alt Bol (rx_in (space_ranges @ [one CHR ''/''])), rx_lit ''.env'', rx_space_or_end],
      rx_seq [rx_lit ''.env.'', rx_plus rx_word],
      rx_lit ''**/.env'',
      rx_lit ''/.env'',
      rx_seq [rx_lit ''secret'', rx_opt (rx_chr CHR ''s''), rx_chr CHR ''.'',
              rx_alts [rx_lit ''json'', rx_lit ''yaml'', rx_lit ''yml'', rx_lit ''toml'']],
      rx_seq [rx_lit ''credential'', rx_opt (rx_chr CHR ''s''), rx_chr CHR ''.'',
              rx_alts [rx_lit ''json'', rx_lit ''yaml'', rx_lit ''yml'']],
      rx_seq [rx_lit ''private.key'', rx_space_or_end],
      rx_seq [rx_lit ''.pem'', rx_space_or_end],
      rx_seq [rx_lit ''.pfx'', rx_space_or_end],
      rx_seq [rx_lit ''.p12'', rx_space_or_end],
      rx_lit ''keystore'',
      rx_lit ''serviceaccount'']"

definition SECRET_VARIABLE_PATTERNS :: "rx list" where
  "SECRET_VARIABLE_PATTERNS =
     map rx_lit [''DATABASE_URL'', ''JWT_SECRET'', ''API_KEY'', ''SECRET_KEY'', ''PRIVATE_KEY'',
       ''ACCESS_TOKEN'', ''REFRESH_TOKEN'', ''SESSION_SECRET'', ''ENCRYPTION_KEY'',
       ''OPENAI_API_KEY'', ''ANTHROPIC_API_KEY'', ''RAILWAY_TOKEN'', ''GITHUB_TOKEN'',
       ''STRIPE_SECRET'', ''SENDGRID_API_KEY'', ''SMTP_PASSWORD''] @
     [rx_seq [rx_chr CHR ''$'', Star rx_word,
              rx_alts [rx_lit ''TOKEN'', rx_lit ''SECRET'', rx_lit ''PASSWORD'', rx_lit ''KEY'', rx_lit ''CREDENTIAL''],
              Star rx_word]]"

text \<open>\<open>[^@\s]+\<close>, and the alphabets of encoded tokens.\<close>

definition rx_no_at :: rx where
  "rx_no_at = rx_plus (rx_not (one CHR ''@'' # space_ranges))"

definition alnum_ranges :: "(nat \<times> nat) list" where
  "alnum_ranges = [(code CHR ''A'', code CHR ''Z''), (code CHR ''a'', code CHR ''z''), (code CHR ''0'', code CHR ''9'')]"

definition rx_no_dollar :: rx where
  "rx_no_dollar = rx_plus (rx_not (one CHR ''$'' # space_ranges))"

text \<open>
  Each literal pattern with the first forty characters of its source, as the violation prints
  them; \<open>%\<close> stands for a backslash, \<open>`\<close> and \<open>#\<close> for the two quotes.
\<close>

definition source_text :: "string \<Rightarrow> string" where
  "source_text = map (\<lambda>c. if c = CHR ''%'' then CHR 0x5C else if c = CHR 0x60 then CHR 0x27
     else if c = CHR ''#'' then CHR 0x22 else c)"

definition SECRET_LITERAL_PATTERNS :: "(string \<times> rx) list" where
  "SECRET_LITERAL_PATTERNS =
     [(source_text ''postgres(?:ql)?:%/%/[^@%s]+:[^@%s]+@'',
       rx_seq [rx_lit ''postgres'', rx_opt (rx_lit ''ql''), rx_lit ''://'', rx_no_at, rx_chr CHR '':'',
               rx_no_at, rx_chr CHR ''@'']),
      (source_text ''mysql:%/%/[^@%s]+:[^@%s]+@'',
       rx_seq [rx_lit ''mysql://'', rx_no_at, rx_chr CHR '':'', rx_no_at, rx_chr CHR ''@'']),
      (source_text ''redis:%/%/:[^@%s]+@'',
       rx_seq [rx_lit ''redis://:'', rx_no_at, rx_chr CHR ''@'']),
      (source_text ''Authorization:%s*Bearer%s+[A-Za-z0-9%-._'',
       rx_seq [rx_lit ''Authorization:'', Star rx_space, rx_lit ''Bearer'', rx_plus rx_space,
               rx_plus (rx_in (alnum_ranges @ map one ''-._~+/'')), Star (rx_chr CHR ''='')]),
      (source_text ''Authorization:%s*Basic%s+[A-Za-z0-9+/]+='',
       rx_seq [rx_lit ''Authorization:'', Star rx_space, rx_lit ''Basic'', rx_plus rx_space,
               rx_plus (rx_in (alnum_ranges @ map one ''+/'')), Star (rx_chr CHR ''='')]),
      (source_text ''curl%s+.*-u%s+[^$%s]+:[^$%s]+'',
       rx_seq [rx_lit ''curl'', rx_plus rx_space, Star rx_dot, rx_lit ''-u'', rx_plus rx_space,
               rx_no_dollar, rx_chr CHR '':'', rx_no_dollar]),
      (source_text ''password%s*[:=]%s*[`#][^`#$]{4,}[`#]'',
       rx_seq [rx_lit ''password'', rx_assign, rx_quoted 4]),
      (source_text ''secret%s*[:=]%s*[`#][^`#$]{8,}[`#]'',
       rx_seq [rx_lit ''secret'', rx_assign, rx_quoted 8]),
      (source_text ''(?:api[_-]?key|apikey)%s*[:=]%s*[`#][A-Z'',
       rx_seq [Alt (rx_seq [rx_lit ''api'', rx_opt (rx_in [one CHR ''_'', one CHR ''-'']), rx_lit ''key''])
                   (rx_lit ''apikey''),
               rx_assign, rx_quote, rx_least 20 (rx_in (alnum_ranges @ map one ''-_'')), rx_quote]),
      (source_text ''-----BEGIN%s+(?:RSA|EC|PRIVATE|ENCRYPTED'',
       rx_seq [rx_lit ''-----BEGIN'', rx_plus rx_space,
               rx_alts [rx_lit ''RSA'', rx_lit ''EC'', rx_lit ''PRIVATE'', rx_lit ''ENCRYPTED''],
               rx_plus rx_space, rx_lit ''PRIVATE'', rx_plus rx_space, rx_lit ''KEY-----''])]"

definition AUTH_CREDENTIAL_PATTERNS :: "rx list" where
  "AUTH_CREDENTIAL_PATTERNS =
     [rx_seq [rx_lit ''email'', rx_assign, rx_quote, rx_least 3 (rx_not quotes), rx_quote, Star rx_space,
              rx_opt (rx_in [one CHR '','', one CHR '';'']), Star rx_space, rx_opt (rx_chr CHR 0x0A), Star rx_dot,
              rx_lit ''password'', Star rx_space, rx_in [one CHR '':'', one CHR ''='']],
      rx_seq [rx_alts [rx_lit ''login'', rx_lit ''signin'', rx_lit ''auth'', rx_lit ''authenticate''],
              Star rx_space, rx_chr CHR ''('', Star (rx_not [one CHR '')'']), rx_lit ''password'', rx_assign, rx_quoted 4],
      rx_seq [rx_alts [rx_lit ''fetch'', rx_lit ''axios'', rx_lit ''request'', rx_lit ''got''],
              Star rx_space, rx_chr CHR ''('', Star (rx_not [one CHR '')'']), rx_lit ''body'', Star rx_any,
              rx_lit ''password'', rx_assign, rx_quoted 4],
      rx_seq [rx_lit ''POST'', rx_plus rx_space, rx_in (quotes @ [one CHR ''/'']), Star rx_dot, rx_lit ''auth'',
              Star rx_dot, rx_quote, Star rx_dot, rx_lit ''password'', Star rx_space,
              rx_in [one CHR '':'', one CHR ''='']]] @
     map snd SECRET_LITERAL_PATTERNS"

definition any_test :: "rx list \<Rightarrow> string \<Rightarrow> bool" where
  "any_test ps s = list_ex (\<lambda>p. rx_test p s) ps"

section \<open>Helpers of the classifier\<close>

type_synonym classes = "mutation_class list"

definition add_all :: "mutation_class list \<Rightarrow> classes \<Rightarrow> classes" where
  "add_all cs out = fold jset_add cs out"

definition isSourcePath :: "string \<Rightarrow> bool" where
  "isSourcePath path =
     (list_ex (\<lambda>e. ends_with path (CHR ''.'' # e))
        [''ts'', ''js'', ''tsx'', ''jsx'', ''mjs'', ''cjs'', ''json'', ''yaml'', ''yml'', ''prisma'', ''sql'', ''sh'', ''env.example'']
      \<and> \<not> str_includes path ''node_modules'' \<and> \<not> str_includes path ''/dist/'')"

definition isSecretBearingPath :: "string \<Rightarrow> bool" where
  "isSecretBearingPath = any_test SECRET_BEARING_PATH_PATTERNS"

definition hasSecretSearchPattern :: "string \<Rightarrow> bool" where
  "hasSecretSearchPattern = any_test SECRET_VARIABLE_PATTERNS"

definition includes_any :: "string \<Rightarrow> string list \<Rightarrow> bool" where
  "includes_any s ps = list_ex (str_includes s) ps"

definition classifyDatabaseOperation :: "string \<Rightarrow> classes \<Rightarrow> classes" where
  "classifyDatabaseOperation op out =
     (if includes_any op [''select'', ''read'', ''find'', ''get''] then jset_add DATABASE_READ out
      else if includes_any op [''migrate'', ''schema''] then add_all [SCHEMA_MUTATION, DATABASE_MUTATION] out
      else jset_add DATABASE_MUTATION out)"

definition classifyByTool :: "action_request \<Rightarrow> classes \<Rightarrow> classes" where
  "classifyByTool r out =
     (let tool = lower (rq_tool r); op = lower (rq_operation r) in
      if tool \<in> {''filesystem'', ''sandbox-filesystem''} then
        (if str_includes op ''read'' then jset_add READ_ONLY out
         else if includes_any op [''write'', ''delete'', ''mkdir''] then
           (let out' = jset_add LOCAL_MUTATION out
            in if isSourcePath (rq_resource r) then jset_add SOURCE_MUTATION out' else out')
         else out)
      else if tool \<in> {''shell'', ''exec''} then out
      else if tool = ''git'' then out
      else if tool \<in> {''http'', ''fetch''} then out
      else if tool \<in> {''database'', ''prisma'', ''psql'', ''sql''} then classifyDatabaseOperation op out
      else if tool \<in> {''llm'', ''openai'', ''claude''} then jset_add READ_ONLY out
      else out)"

definition classifyByHttpMethod :: "action_request \<Rightarrow> classes \<Rightarrow> classes" where
  "classifyByHttpMethod r out =
     (if \<not> truthy (rq_httpMethod r) then out
      else
        let m = or_empty (rq_httpMethod r); res = lower (rq_resource r); prod = (rq_environment r = ENV_PRODUCTION) in
        if m \<in> {''GET'', ''HEAD'', ''OPTIONS''} then jset_add (if prod then PRODUCTION_READ else READ_ONLY) out
        else
          let out1 = jset_add (if prod then PRODUCTION_MUTATION else LOCAL_MUTATION) out;
              out2 = (if m = ''POST'' then
                        let out2a = (if includes_any res [''/auth/'', ''/login'', ''/signin'', ''/token'']
                                     then add_all [AUTH_SESSION_CREATION, CREDENTIAL_USE] out1 else out1)
                        in if includes_any res [''/password-reset'', ''/forgot-password'']
                           then jset_add DATABASE_MUTATION out2a else out2a
                      else out1)
          in if m = ''DELETE'' then jset_add DESTRUCTIVE out2 else out2)"

text \<open>The git classifier reads only the operation and the arguments of a request.\<close>

definition classifyByGitOperation :: "string option \<Rightarrow> string list option \<Rightarrow> classes \<Rightarrow> classes" where
  "classifyByGitOperation gitOperation rargs out =
     (let gitOp = lower (or_empty gitOperation); raw = (case rargs of None \<Rightarrow> [] | Some as \<Rightarrow> as);
          args = lower (join '' '' raw) in
      if gitOp = [] then out
      else if gitOp \<in> {''status'', ''log'', ''diff'', ''show'', ''ls-remote'', ''rev-parse'', ''branch''} then
        (if \<not> str_includes args ''-d'' \<and> \<not> str_includes args ''--delete'' then jset_add READ_ONLY out
         else jset_add GIT_DESTRUCTIVE out)
      else if gitOp = ''add'' then
        (if ''.'' \<in> set raw \<or> ''-A'' \<in> set raw \<or> ''--all'' \<in> set raw \<or> ''-a'' \<in> set raw
         then add_all [GIT_STAGE, MC_UNKNOWN] out
         else jset_add GIT_STAGE out)
      else if gitOp = ''commit'' then jset_add GIT_COMMIT out
      else if gitOp = ''push'' then
        (let out' = jset_add GIT_PUSH out
         in if str_includes args ''--force'' \<or> str_includes args ''-f'' then jset_add GIT_DESTRUCTIVE out' else out')
      else if gitOp = ''reset'' then
        (if str_includes args ''--hard'' then jset_add GIT_DESTRUCTIVE out else jset_add LOCAL_MUTATION out)
      else if gitOp = ''clean'' then jset_add GIT_DESTRUCTIVE out
      else if gitOp \<in> {''fetch'', ''ls-files''} then jset_add READ_ONLY out
      else jset_add LOCAL_MUTATION out)"

definition classifyPrismaCommand :: "string \<Rightarrow> classes \<Rightarrow> classes" where
  "classifyPrismaCommand rest out =
     (if starts_with rest ''db pull'' then add_all [DATABASE_READ, SCHEMA_SOURCE_MUTATION] out
      else if starts_with rest ''db push'' then add_all [DATABASE_MUTATION, SCHEMA_MUTATION] out
      else if starts_with rest ''migrate dev'' \<or> starts_with rest ''migrate reset''
      then add_all [DATABASE_MUTATION, SCHEMA_MUTATION, DESTRUCTIVE] out
      else if starts_with rest ''migrate deploy'' then add_all [DATABASE_MUTATION, SCHEMA_MUTATION] out
      else if starts_with rest ''generate'' then jset_add LOCAL_MUTATION out
      else if starts_with rest ''studio'' then jset_add PRODUCTION_READ out
      else jset_add MC_UNKNOWN out)"

text \<open>
  The group of \<open>/FLAG\s+(\w+)/i\<close>: the word after the first occurrence of the flag that blanks
  and a word follow.
\<close>

fun word_after :: "string \<Rightarrow> string \<Rightarrow> string option" where
  "word_after flag [] = None"
| "word_after flag (c # s) =
     (let t = drop (length flag) (c # s); u = dropWhile is_space t in
      if starts_with (lower (c # s)) (lower flag) \<and> u \<noteq> t \<and> u \<noteq> [] \<and> is_word (hd u)
      then Some (takeWhile is_word u) else word_after flag s)"

definition extractCurlMethod :: "string \<Rightarrow> string \<Rightarrow> string" where
  "extractCurlMethod cmd rest =
     (case (case word_after ''-X'' cmd of Some w \<Rightarrow> Some w | None \<Rightarrow> word_after ''--request'' cmd) of
        Some w \<Rightarrow> upper w
      | None \<Rightarrow> if str_includes rest ''--data'' \<or> str_includes rest ''-d '' then ''POST'' else ''GET'')"

definition urlIsProduction :: "string \<Rightarrow> bool" where
  "urlIsProduction cmd = (\<not> includes_any cmd [''localhost'', ''127.0.0.1'', ''0.0.0.0''])"

definition classifyCurlCommand :: "string \<Rightarrow> string \<Rightarrow> classes \<Rightarrow> classes" where
  "classifyCurlCommand cmd rest out =
     (let m = extractCurlMethod cmd rest; prod = urlIsProduction cmd;
          out1 = (if m = ''GET'' \<or> m = ''HEAD'' then jset_add (if prod then PRODUCTION_READ else READ_ONLY) out
                  else let o1 = jset_add (if prod then PRODUCTION_MUTATION else LOCAL_MUTATION) out
                       in if includes_any rest [''auth'', ''login'', ''token'']
                          then add_all [AUTH_SESSION_CREATION, CREDENTIAL_USE] o1 else o1)
      in if includes_any rest [''-u '', ''--user '', ''Authorization:'', ''password'']
         then jset_add CREDENTIAL_USE out1 else out1)"

definition isSecretReadCommand :: "string \<Rightarrow> string \<Rightarrow> string \<Rightarrow> bool" where
  "isSecretReadCommand cmd base rest =
     (base \<in> {''printenv'', ''env''}
      \<or> base = ''echo'' \<and> hasSecretSearchPattern rest
      \<or> str_includes cmd ''railway variables'' \<or> str_includes cmd ''railway secrets''
      \<or> base = ''cat'' \<and> isSecretBearingPath rest
      \<or> base \<in> {''grep'', ''rg''} \<and> hasSecretSearchPattern rest \<and> isSecretBearingPath rest
      \<or> base \<in> {''awk'', ''sed''} \<and> isSecretBearingPath rest)"

definition inspection_commands :: "string list" where
  "inspection_commands = [''cat'', ''ls'', ''pwd'', ''echo'', ''head'', ''tail'', ''wc'', ''find'', ''grep'', ''rg'', ''fd'',
     ''which'', ''type'', ''file'', ''stat'', ''du'', ''df'', ''uname'', ''date'', ''whoami'', ''id'']"

definition classifyByCommand :: "action_request \<Rightarrow> classes \<Rightarrow> classes" where
  "classifyByCommand r out =
     (let cmd = trim (or_empty (rq_command r)) in
      if cmd = [] then out
      else
        let parts = split_ws cmd; base = lower (hd parts); rest = lower (join '' '' (tl parts)) in
        if base = ''git'' then
          classifyByGitOperation (Some (case tl parts of [] \<Rightarrow> [] | sub # _ \<Rightarrow> lower sub)) (Some (drop 2 parts)) out
        else if base = ''prisma'' \<or> base = ''npx prisma'' \<or> starts_with cmd ''npx prisma'' \<or> starts_with cmd ''pnpm prisma''
        then classifyPrismaCommand rest out
        else if base \<in> {''psql'', ''mysql'', ''sqlite3''} then
          (let out1 = jset_add DATABASE_READ out
           in if includes_any rest [''drop'', ''delete'', ''truncate'']
              then add_all [DATABASE_MUTATION, DESTRUCTIVE] out1 else out1)
        else if base = ''railway'' \<or> str_includes cmd ''railway up'' \<or> str_includes cmd ''railway redeploy''
        then jset_add DEPLOYMENT out
        else if isSecretReadCommand cmd base rest then jset_add SECRET_READ out
        else if base \<in> {''curl'', ''wget'', ''httpie'', ''http''} then classifyCurlCommand cmd rest out
        else if base \<in> {''node'', ''npx'', ''tsx'', ''ts-node''} then jset_add LOCAL_MUTATION out
        else if base = ''cat'' \<and> str_includes rest ''>'' then jset_add LOCAL_MUTATION out
        else if base = ''tee'' then jset_add LOCAL_MUTATION out
        else if base \<in> {''rm'', ''rmdir''} then add_all [LOCAL_MUTATION, DESTRUCTIVE] out
        else if base = ''mv'' then jset_add LOCAL_MUTATION out
        else if base = ''cp'' then jset_add LOCAL_MUTATION out
        else if base \<in> {''chmod'', ''chown''} then jset_add LOCAL_MUTATION out
        else if base \<in> {''npm'', ''pnpm'', ''yarn'', ''bun''} then
          (if list_ex (starts_with rest) [''install'', ''add'', ''remove'', ''update'']
           then jset_add LOCAL_MUTATION out else jset_add READ_ONLY out)
        else if base \<in> set inspection_commands then jset_add READ_ONLY out
        else jset_add MC_UNKNOWN out)"

definition classifyByResource :: "action_request \<Rightarrow> classes \<Rightarrow> classes" where
  "classifyByResource r out =
     (let resource = lower (rq_resource r);
          out1 = (if isSecretBearingPath resource then jset_add SECRET_READ out else out);
          cmd = lower (or_empty (rq_command r) @ '' '' @ join '' '' (case rq_args r of None \<Rightarrow> [] | Some as \<Rightarrow> as))
      in if hasSecretSearchPattern cmd then jset_add SECRET_READ out1 else out1)"

definition classifyByEnvironment :: "action_request \<Rightarrow> classes \<Rightarrow> classes" where
  "classifyByEnvironment r out =
     (if rq_environment r = ENV_PRODUCTION \<and> LOCAL_MUTATION \<in> set out
      then jset_add PRODUCTION_MUTATION (jset_delete LOCAL_MUTATION out) else out)"

definition classify :: "action_request \<Rightarrow> classes" where
  "classify r =
     (let c1 = classifyByTool r [];
          c2 = classifyByHttpMethod r c1;
          c3 = classifyByGitOperation (rq_gitOperation r) (rq_args r) c2;
          c4 = classifyByCommand r c3;
          c5 = classifyByResource r c4;
          c6 = classifyByEnvironment r c5
      in if c6 = [] then [MC_UNKNOWN] else c6)"

section \<open>Guards\<close>

definition args_text :: "action_request \<Rightarrow> string" where
  "args_text r = join '' '' (case rq_args r of None \<Rightarrow> [] | Some as \<Rightarrow> as)"

definition SecretFileGuard_check :: "action_request \<Rightarrow> guard_violation option" where
  "SecretFileGuard_check r =
     (let combined = trim (lower (or_empty (rq_command r)) @ '' '' @ lower (args_text r) @ '' '' @ lower (rq_resource r)) in
      if any_test SECRET_BEARING_PATH_PATTERNS combined
      then Some \<lparr>gd_guardName = ''SecretFileGuard'', gd_ruleCode = ''SECRET_FILE_READ'',
             gd_detail = ''Access to secret-bearing resource detected: '' @ dq (rq_resource r)\<rparr>
      else
        let base = lower (hd (split_ws (or_empty (rq_command r)))) in
        if base \<in> {''grep'', ''rg'', ''awk'', ''sed''} \<and> any_test SECRET_VARIABLE_PATTERNS combined \<and>
           any_test SECRET_BEARING_PATH_PATTERNS combined
        then Some \<lparr>gd_guardName = ''SecretFileGuard'', gd_ruleCode = ''SECRET_FILE_READ'',
               gd_detail = ''Secret variable extraction from env file detected in: '' @ dq (or_empty (rq_command r))\<rparr>
        else None)"

definition SecretOutputGuard_check :: "action_request \<Rightarrow> guard_violation option" where
  "SecretOutputGuard_check r =
     (let combined = trim (lower (or_empty (rq_command r)) @ '' '' @ lower (args_text r));
          base = hd (split_ws combined) in
      if base \<in> {''printenv'', ''env''}
      then Some \<lparr>gd_guardName = ''SecretOutputGuard'', gd_ruleCode = ''SECRET_OUTPUT_ENV_DUMP'',
             gd_detail = ''Environment dump command would expose secret values: '' @ dq combined\<rparr>
      else if base = ''echo'' \<and> any_test SECRET_VARIABLE_PATTERNS combined
      then Some \<lparr>gd_guardName = ''SecretOutputGuard'', gd_ruleCode = ''SECRET_OUTPUT_ECHO'',
             gd_detail = ''Echo of secret variable detected: '' @ dq combined\<rparr>
      else if str_includes combined ''railway variables'' \<or> str_includes combined ''railway secrets''
      then Some \<lparr>gd_guardName = ''SecretOutputGuard'', gd_ruleCode = ''SECRET_OUTPUT_RAILWAY_VARS'',
             gd_detail = ''Railway variables/secrets dump would expose production secrets''\<rparr>
      else None)"

definition detectLiterals :: "string \<Rightarrow> guard_violation option" where
  "detectLiterals text =
     (case List.find (\<lambda>(src, p). rx_test p text) SECRET_LITERAL_PATTERNS of
        None \<Rightarrow> None
      | Some (src, p) \<Rightarrow>
          Some \<lparr>gd_guardName = ''SecretLiteralGuard'', gd_ruleCode = ''SECRET_LITERAL_DETECTED'',
            gd_detail = ''Credential literal detected in action content. Pattern: '' @ take 40 src @ ''...''\<rparr>)"

fun first_violation :: "guard_violation option list \<Rightarrow> guard_violation option" where
  "first_violation [] = None"
| "first_violation (Some v # vs) = Some v"
| "first_violation (None # vs) = first_violation vs"

definition SecretLiteralGuard_check :: "action_request \<Rightarrow> guard_violation option" where
  "SecretLiteralGuard_check r =
     first_violation
       (detectLiterals (or_empty (rq_generatedContent r) @ [CHR 0x0A] @ or_empty (rq_command r)) #
        detectLiterals (args_text r) #
        map (\<lambda>(key, v). case v of JStr s \<Rightarrow> detectLiterals (key @ ''='' @ s) | _ \<Rightarrow> None) (rq_parameters r))"

definition AuthCredentialScriptGuard_check :: "action_request \<Rightarrow> guard_violation option" where
  "AuthCredentialScriptGuard_check r =
     (let content = or_empty (rq_generatedContent r) in
      if content = [] then None
      else if any_test AUTH_CREDENTIAL_PATTERNS content
      then Some \<lparr>gd_guardName = ''AuthCredentialScriptGuard'', gd_ruleCode = ''AUTH_CREDENTIAL_IN_GENERATED_CONTENT'',
             gd_detail = ''Generated content contains authentication credentials (email/password/token literal). '' @
               ''Use a secure secret-channel mechanism instead of embedding credentials.''\<rparr>
      else None)"

end
