(* ===== verification/Policy_Engine.thy ===== *)
theory Policy_Engine
  imports Action_Classifier
begin

text \<open>
  The pre-execution policy engine
  (\<^verbatim>\<open>packages/policy/src/engine/action-classifying-policy-engine.ts\<close>): the matrix of gates and
  mutation classes, the evaluation of a request, and the declarative reading of ALLOW.
\<close>

section \<open>The gate matrix\<close>


fun GATE_POLICY :: "execution_gate \<Rightarrow> gate_rule" where
  "GATE_POLICY G_AUDIT =
     \<lparr>gr_allowedClasses = [READ_ONLY, PRODUCTION_READ],
      gr_deniedClasses = [LOCAL_MUTATION, SOURCE_MUTATION, GIT_STAGE, GIT_COMMIT, GIT_PUSH, GIT_DESTRUCTIVE,
        DEPLOYMENT, PRODUCTION_MUTATION, DATABASE_MUTATION, SCHEMA_MUTATION, SCHEMA_SOURCE_MUTATION,
        SECRET_READ, SECRET_OUTPUT, CREDENTIAL_USE, AUTH_SESSION_CREATION, DESTRUCTIVE],
      gr_requiredTokens = [], gr_enforceFileScope = False\<rparr>"
| "GATE_POLICY G_PLAN =
     \<lparr>gr_allowedClasses = [READ_ONLY],
      gr_deniedClasses = [LOCAL_MUTATION, SOURCE_MUTATION, GIT_STAGE, GIT_COMMIT, GIT_PUSH, GIT_DESTRUCTIVE,
        DEPLOYMENT, PRODUCTION_MUTATION, PRODUCTION_READ, DATABASE_MUTATION, SCHEMA_MUTATION,
        SCHEMA_SOURCE_MUTATION, SECRET_READ, SECRET_OUTPUT, CREDENTIAL_USE, AUTH_SESSION_CREATION, DESTRUCTIVE],
      gr_requiredTokens = [], gr_enforceFileScope = False\<rparr>"
| "GATE_POLICY G_OWNER_PLAN_REVIEW =
     \<lparr>gr_allowedClasses = [READ_ONLY],
      gr_deniedClasses = [LOCAL_MUTATION, SOURCE_MUTATION, GIT_STAGE, GIT_COMMIT, GIT_PUSH, GIT_DESTRUCTIVE,
        DEPLOYMENT, PRODUCTION_MUTATION, PRODUCTION_READ, DATABASE_MUTATION, SCHEMA_MUTATION,
        SCHEMA_SOURCE_MUTATION, SECRET_READ, SECRET_OUTPUT, CREDENTIAL_USE, AUTH_SESSION_CREATION, DESTRUCTIVE],
      gr_requiredTokens = [], gr_enforceFileScope = False\<rparr>"
| "GATE_POLICY G_IMPLEMENTATION =
     \<lparr>gr_allowedClasses = [READ_ONLY, LOCAL_MUTATION, SOURCE_MUTATION],
      gr_deniedClasses = [GIT_COMMIT, GIT_PUSH, GIT_DESTRUCTIVE, DEPLOYMENT, PRODUCTION_MUTATION,
        PRODUCTION_READ, DATABASE_MUTATION, SCHEMA_MUTATION, SECRET_READ, SECRET_OUTPUT, DESTRUCTIVE],
      gr_requiredTokens = [(SOURCE_MUTATION, OWNER_IMPLEMENTATION_APPROVED)], gr_enforceFileScope = True\<rparr>"
| "GATE_POLICY G_TEST =
     \<lparr>gr_allowedClasses = [READ_ONLY, LOCAL_MUTATION, DATABASE_READ],
      gr_deniedClasses = [SOURCE_MUTATION, GIT_STAGE, GIT_COMMIT, GIT_PUSH, GIT_DESTRUCTIVE, DEPLOYMENT,
        PRODUCTION_MUTATION, DATABASE_MUTATION, SCHEMA_MUTATION, SCHEMA_SOURCE_MUTATION,
        SECRET_READ, SECRET_OUTPUT, DESTRUCTIVE],
      gr_requiredTokens = [], gr_enforceFileScope = False\<rparr>"
| "GATE_POLICY G_OWNER_PRECOMMIT =
     \<lparr>gr_allowedClasses = [READ_ONLY],
      gr_deniedClasses = [LOCAL_MUTATION, SOURCE_MUTATION, GIT_STAGE, GIT_COMMIT, GIT_PUSH, GIT_DESTRUCTIVE,
        DEPLOYMENT, PRODUCTION_MUTATION, DATABASE_MUTATION, SCHEMA_MUTATION, SCHEMA_SOURCE_MUTATION,
        SECRET_READ, SECRET_OUTPUT, CREDENTIAL_USE, AUTH_SESSION_CREATION, DESTRUCTIVE],
      gr_requiredTokens = [], gr_enforceFileScope = False\<rparr>"
| "GATE_POLICY G_COMMIT =
     \<lparr>gr_allowedClasses = [READ_ONLY, GIT_STAGE, GIT_COMMIT],
      gr_deniedClasses = [LOCAL_MUTATION, SOURCE_MUTATION, GIT_PUSH, GIT_DESTRUCTIVE, DEPLOYMENT,
        PRODUCTION_MUTATION, DATABASE_MUTATION, SCHEMA_MUTATION, SCHEMA_SOURCE_MUTATION,
        SECRET_READ, SECRET_OUTPUT, CREDENTIAL_USE, AUTH_SESSION_CREATION, DESTRUCTIVE],
      gr_requiredTokens = [(GIT_STAGE, OWNER_COMMIT_APPROVED), (GIT_COMMIT, OWNER_COMMIT_APPROVED)],
      gr_enforceFileScope = True\<rparr>"
| "GATE_POLICY G_PUSH =
     \<lparr>gr_allowedClasses = [READ_ONLY, GIT_PUSH],
      gr_deniedClasses = [LOCAL_MUTATION, SOURCE_MUTATION, GIT_STAGE, GIT_COMMIT, GIT_DESTRUCTIVE,
        DEPLOYMENT, PRODUCTION_MUTATION, DATABASE_MUTATION, SCHEMA_MUTATION, SCHEMA_SOURCE_MUTATION,
        SECRET_READ, SECRET_OUTPUT, CREDENTIAL_USE, AUTH_SESSION_CREATION, DESTRUCTIVE],
      gr_requiredTokens = [(GIT_PUSH, OWNER_PUSH_APPROVED)], gr_enforceFileScope = False\<rparr>"
| "GATE_POLICY G_DEPLOY =
     \<lparr>gr_allowedClasses = [READ_ONLY, DEPLOYMENT],
      gr_deniedClasses = [LOCAL_MUTATION, SOURCE_MUTATION, GIT_STAGE, GIT_COMMIT, GIT_PUSH, GIT_DESTRUCTIVE,
        PRODUCTION_MUTATION, DATABASE_MUTATION, SCHEMA_MUTATION, SCHEMA_SOURCE_MUTATION,
        SECRET_READ, SECRET_OUTPUT, CREDENTIAL_USE, AUTH_SESSION_CREATION, DESTRUCTIVE],
      gr_requiredTokens = [(DEPLOYMENT, OWNER_DEPLOY_APPROVED)], gr_enforceFileScope = False\<rparr>"
| "GATE_POLICY G_PRODUCTION_VALIDATION =
     \<lparr>gr_allowedClasses = [READ_ONLY, PRODUCTION_READ],
      gr_deniedClasses = [LOCAL_MUTATION, SOURCE_MUTATION, GIT_STAGE, GIT_COMMIT, GIT_PUSH, GIT_DESTRUCTIVE,
        DEPLOYMENT, PRODUCTION_MUTATION, DATABASE_MUTATION, SCHEMA_MUTATION, SCHEMA_SOURCE_MUTATION,
        SECRET_READ, SECRET_OUTPUT, CREDENTIAL_USE, AUTH_SESSION_CREATION, DESTRUCTIVE],
      gr_requiredTokens = [], gr_enforceFileScope = False\<rparr>"
| "GATE_POLICY G_PRODUCTION_VALIDATION_READ_ONLY =
     \<lparr>gr_allowedClasses = [READ_ONLY, PRODUCTION_READ],
      gr_deniedClasses = [LOCAL_MUTATION, SOURCE_MUTATION, GIT_STAGE, GIT_COMMIT, GIT_PUSH, GIT_DESTRUCTIVE,
        DEPLOYMENT, PRODUCTION_MUTATION, DATABASE_MUTATION, SCHEMA_MUTATION, SCHEMA_SOURCE_MUTATION,
        SECRET_READ, SECRET_OUTPUT, CREDENTIAL_USE, AUTH_SESSION_CREATION, DESTRUCTIVE],
      gr_requiredTokens = [], gr_enforceFileScope = False\<rparr>"
| "GATE_POLICY G_OWNER_FINAL_CLOSURE =
     \<lparr>gr_allowedClasses = [READ_ONLY],
      gr_deniedClasses = [LOCAL_MUTATION, SOURCE_MUTATION, GIT_STAGE, GIT_COMMIT, GIT_PUSH, GIT_DESTRUCTIVE,
        DEPLOYMENT, PRODUCTION_MUTATION, DATABASE_MUTATION, SCHEMA_MUTATION, SCHEMA_SOURCE_MUTATION,
        SECRET_READ, SECRET_OUTPUT, CREDENTIAL_USE, AUTH_SESSION_CREATION, DESTRUCTIVE],
      gr_requiredTokens = [], gr_enforceFileScope = False\<rparr>"

definition required_token :: "gate_rule \<Rightarrow> mutation_class \<Rightarrow> owner_token option" where
  "required_token g c = map_of (gr_requiredTokens g) c"

section \<open>Evaluation\<close>

definition deny :: "action_request \<Rightarrow> mutation_class list \<Rightarrow> execution_gate \<Rightarrow> string \<Rightarrow> string \<Rightarrow> action_policy_decision" where
  "deny r classes gate rule reason =
     \<lparr>pd_actionId = rq_actionId r, pd_decision = PD_DENY, pd_policyRule = rule, pd_currentGate = gate,
      pd_requiredAuthority = None, pd_grantedByAuthorityId = None,
      pd_triggeringClasses = (if classes \<noteq> [] then classes else [MC_UNKNOWN]), pd_allClasses = classes,
      pd_reason = reason\<rparr>"

definition sensitive_tokens :: "owner_token list" where
  "sensitive_tokens = [OWNER_COMMIT_APPROVED, OWNER_PUSH_APPROVED, OWNER_DEPLOY_APPROVED,
     OWNER_PRODUCTION_MUTATION_APPROVED, OWNER_SCHEMA_CHANGE_APPROVED]"

definition grant_matches :: "action_request \<Rightarrow> execution_gate \<Rightarrow> mutation_class \<Rightarrow> owner_token \<Rightarrow> grant_view \<Rightarrow> bool" where
  "grant_matches r gate cls token a =
     (if gv_token a \<noteq> token \<or> gv_status a \<noteq> GS_ACTIVE \<or> gv_taskId a \<noteq> rq_taskId r then False
      else
        let target = class_name (if token = OWNER_COMMIT_APPROVED \<and> cls = GIT_STAGE then GIT_COMMIT else cls) in
        if token \<in> set sensitive_tokens then gv_boundToGate a = Some gate \<and> gv_boundToAction a = Some target
        else (gv_boundToGate a = None \<or> gv_boundToGate a = Some gate) \<and>
             (\<not> truthy (gv_boundToAction a) \<or> gv_boundToAction a = Some target))"

definition consumes_grant :: "mutation_class \<Rightarrow> owner_token \<Rightarrow> bool" where
  "consumes_grant cls token \<longleftrightarrow>
     cls = GIT_COMMIT \<and> token = OWNER_COMMIT_APPROVED \<or> cls = GIT_PUSH \<and> token = OWNER_PUSH_APPROVED \<or>
     cls = DEPLOYMENT \<and> token = OWNER_DEPLOY_APPROVED"

text \<open>Step 7: the loop over the classes, with the grant that the action will use up.\<close>

fun check_tokens :: "read_only_context \<Rightarrow> action_request \<Rightarrow> mutation_class list \<Rightarrow> mutation_class list \<Rightarrow>
    string option \<Rightarrow> action_policy_decision + string option" where
  "check_tokens ctx r all_classes [] granted = Inr granted"
| "check_tokens ctx r all_classes (cls # clss) granted =
     (let gate = cx_gate ctx in
      case required_token (GATE_POLICY gate) cls of
        None \<Rightarrow> check_tokens ctx r all_classes clss granted
      | Some token \<Rightarrow>
          (case List.find (grant_matches r gate cls token) (cx_activeAuthorities ctx) of
             None \<Rightarrow> Inl \<lparr>pd_actionId = rq_actionId r, pd_decision = PD_DENY,
               pd_policyRule = token_name token @ ''_REQUIRED'', pd_currentGate = gate,
               pd_requiredAuthority = Some token, pd_grantedByAuthorityId = None,
               pd_triggeringClasses = [cls], pd_allClasses = all_classes,
               pd_reason = ''Class '' @ sq (class_name cls) @ '' in gate '' @ sq (gate_name gate) @
                 '' requires authority token '' @ sq (token_name token) @ '' valid for this task/gate/action, '' @
                 ''which has not been granted. Owner must explicitly authorize this action.''\<rparr>
           | Some g \<Rightarrow> check_tokens ctx r all_classes clss
               (if consumes_grant cls token then Some (gv_grantId g) else granted)))"

definition blanket_git_add :: "action_request \<Rightarrow> bool" where
  "blanket_git_add r =
     (let args = (case rq_args r of None \<Rightarrow> [] | Some as \<Rightarrow> as); cmd = or_empty (rq_command r)
      in ''.'' \<in> set args \<or> ''-A'' \<in> set args \<or> ''--all'' \<in> set args \<or>
         includes_any cmd [''git add .'', ''git add -A'', ''git add --all''])"

text \<open>Step 8: the first target path outside the approved files, if any.\<close>

definition check_file_scope :: "read_only_context \<Rightarrow> action_request \<Rightarrow> mutation_class list \<Rightarrow> action_policy_decision option" where
  "check_file_scope ctx r classes =
     (let gate = cx_gate ctx in
      if \<not> gr_enforceFileScope (GATE_POLICY gate) then None
      else if rq_targetFilePaths r = [] then
        (if SOURCE_MUTATION \<in> set classes \<or> GIT_STAGE \<in> set classes
         then Some (deny r classes gate ''FILE_SCOPE_TARGET_UNRESOLVED''
                ''Action mutates files but no target path could be resolved from the request.'')
         else None)
      else (case List.find (\<lambda>f. f \<notin> set (cx_approvedFiles ctx)) (rq_targetFilePaths r) of
              None \<Rightarrow> None
            | Some f \<Rightarrow> Some (deny r classes gate ''FILE_NOT_IN_APPROVED_SCOPE''
                (''File path '' @ sq f @ '' is not in the approved file scope for gate '' @ sq (gate_name gate) @ ''. '' @
                 ''Approved files: ['' @ join '', '' (cx_approvedFiles ctx) @ ''].''))))"

definition guard_checks :: "action_request \<Rightarrow> guard_violation option list" where
  "guard_checks r = [SecretFileGuard_check r, SecretOutputGuard_check r, SecretLiteralGuard_check r,
     AuthCredentialScriptGuard_check r]"

definition evaluate :: "read_only_context \<Rightarrow> action_request \<Rightarrow> action_policy_decision" where
  "evaluate ctx r =
     (let gate = cx_gate ctx; rule = GATE_POLICY gate in
      case first_violation (guard_checks r) of
        Some v \<Rightarrow> deny r [] gate (gd_ruleCode v) (''Guard '' @ sq (gd_guardName v) @ '' triggered: '' @ gd_detail v)
      | None \<Rightarrow>
          let classes = classify r in
          if MC_UNKNOWN \<in> set classes then
            \<lparr>pd_actionId = rq_actionId r, pd_decision = PD_REQUIRE_APPROVAL,
             pd_policyRule = ''AMBIGUOUS_CLASSIFICATION_FAIL_CLOSED'', pd_currentGate = gate,
             pd_requiredAuthority = None, pd_grantedByAuthorityId = None, pd_triggeringClasses = [MC_UNKNOWN],
             pd_allClasses = classes,
             pd_reason = ''Action could not be definitively classified. '' @
               ''Fail-closed policy requires explicit owner approval before execution.''\<rparr>
          else (case List.find (\<lambda>c. c \<in> set (gr_deniedClasses rule)) classes of
            Some c \<Rightarrow> deny r classes gate (class_name c @ ''_NOT_ALLOWED_IN_GATE_'' @ gate_name gate)
              (''Class '' @ sq (class_name c) @ '' is explicitly denied in gate '' @ sq (gate_name gate) @ ''.'')
          | None \<Rightarrow>
          (case List.find (\<lambda>c. c \<notin> set (gr_allowedClasses rule)) classes of
            Some c \<Rightarrow> deny r classes gate (class_name c @ ''_NOT_IN_ALLOWED_SET_FOR_GATE_'' @ gate_name gate)
              (''Class '' @ sq (class_name c) @ '' is not in the allowed set for gate '' @ sq (gate_name gate) @ ''. '' @
               ''Allowed: '' @ join '', '' (map class_name (gr_allowedClasses rule)) @ ''.'')
          | None \<Rightarrow>
          (case check_tokens ctx r classes classes None of
            Inl d \<Rightarrow> d
          | Inr granted \<Rightarrow>
              if GIT_STAGE \<in> set classes \<and> blanket_git_add r then
                deny r classes gate ''GLOBAL_DENY_BLANKET_GIT_ADD''
                  ''git add ., -A, or --all is globally denied. You must explicitly stage approved files.''
              else (case check_file_scope ctx r classes of
                Some d \<Rightarrow> d
              | None \<Rightarrow>
                  \<lparr>pd_actionId = rq_actionId r, pd_decision = PD_ALLOW, pd_policyRule = ''GATE_POLICY_ALLOW'',
                   pd_currentGate = gate, pd_requiredAuthority = None, pd_grantedByAuthorityId = granted,
                   pd_triggeringClasses = [], pd_allClasses = classes,
                   pd_reason = ''All '' @ show_int (int (length classes)) @ '' class(es) ['' @
                     join '', '' (map class_name classes) @ ''] are allowed in gate '' @ sq (gate_name gate) @ ''.''\<rparr>)))))"

section \<open>Facts about the classifier\<close>

lemma set_add_all [simp]: "set (add_all cs out) = set out \<union> set cs"
  by (simp add: add_all_def set_fold_jset_add)

lemma classifyByTool_mono: "set out \<subseteq> set (classifyByTool r out)"
  by (auto simp: classifyByTool_def classifyDatabaseOperation_def Let_def)

lemma classifyByHttpMethod_mono: "set out \<subseteq> set (classifyByHttpMethod r out)"
  by (auto simp: classifyByHttpMethod_def Let_def)

lemma classifyByGitOperation_mono: "set out \<subseteq> set (classifyByGitOperation g a out)"
  by (auto simp: classifyByGitOperation_def Let_def)

lemma classifyCurlCommand_mono: "set out \<subseteq> set (classifyCurlCommand cmd rest out)"
  by (auto simp: classifyCurlCommand_def Let_def)

lemma classifyPrismaCommand_mono: "set out \<subseteq> set (classifyPrismaCommand rest out)"
  by (auto simp: classifyPrismaCommand_def)

lemma classifyByCommand_mono: "set out \<subseteq> set (classifyByCommand r out)"
proof (rule subsetI)
  fix c assume "c \<in> set out"
  moreover have "c \<in> set out \<Longrightarrow> c \<in> set (classifyByGitOperation g a out)"
    "c \<in> set out \<Longrightarrow> c \<in> set (classifyCurlCommand cmd rest out)"
    "c \<in> set out \<Longrightarrow> c \<in> set (classifyPrismaCommand rest out)" for g a cmd rest
    using classifyByGitOperation_mono classifyCurlCommand_mono classifyPrismaCommand_mono by blast+
  ultimately show "c \<in> set (classifyByCommand r out)" by (simp add: classifyByCommand_def Let_def)
qed

lemma classifyByResource_mono: "set out \<subseteq> set (classifyByResource r out)"
  by (auto simp: classifyByResource_def Let_def)

lemma classifyByEnvironment_keeps: "c \<in> set out \<Longrightarrow> c \<noteq> LOCAL_MUTATION \<Longrightarrow> c \<in> set (classifyByEnvironment r out)"
  by (simp add: classifyByEnvironment_def)

lemmas classify_stages_mono = classifyByTool_mono classifyByHttpMethod_mono classifyByGitOperation_mono
  classifyByCommand_mono classifyByResource_mono

lemma classify_nonempty: "classify r \<noteq> []"
  by (simp add: classify_def Let_def)

lemma classifyByGitOperation_out:
  "set (classifyByGitOperation g a out) = set out \<union> set (classifyByGitOperation g a [])"
  unfolding classifyByGitOperation_def Let_def by (simp split del: if_split add: if_distrib [of set]) auto

text \<open>What a stage adds stays in the classification, but for a local mutation in production.\<close>

lemma classify_keeps_git:
  assumes "c \<in> set (classifyByGitOperation (rq_gitOperation r) (rq_args r) [])" "c \<noteq> LOCAL_MUTATION"
  shows "c \<in> set (classify r)"
proof -
  let ?c2 = "classifyByHttpMethod r (classifyByTool r [])"
  let ?c3 = "classifyByGitOperation (rq_gitOperation r) (rq_args r) ?c2"
  have "c \<in> set ?c3" using assms(1) classifyByGitOperation_out [of _ _ ?c2] by blast
  then have "c \<in> set (classifyByResource r (classifyByCommand r ?c3))"
    using classifyByCommand_mono classifyByResource_mono by blast
  then have "c \<in> set (classifyByEnvironment r (classifyByResource r (classifyByCommand r ?c3)))"
    using assms(2) by (rule classifyByEnvironment_keeps)
  then show ?thesis by (auto simp: classify_def Let_def)
qed

lemma classify_production:
  "rq_environment r = ENV_PRODUCTION \<Longrightarrow> LOCAL_MUTATION \<notin> set (classify r)"
  by (simp add: classify_def classifyByEnvironment_def Let_def)

section \<open>What ALLOW means\<close>

definition allow_conditions :: "read_only_context \<Rightarrow> action_request \<Rightarrow> bool" where
  "allow_conditions ctx r \<longleftrightarrow>
     (\<forall>v \<in> set (guard_checks r). v = None) \<and>
     (\<forall>c \<in> set (classify r). c \<noteq> MC_UNKNOWN \<and> c \<in> set (gr_allowedClasses (GATE_POLICY (cx_gate ctx))) \<and>
        c \<notin> set (gr_deniedClasses (GATE_POLICY (cx_gate ctx))) \<and>
        (\<forall>t. required_token (GATE_POLICY (cx_gate ctx)) c = Some t \<longrightarrow>
           (\<exists>g \<in> set (cx_activeAuthorities ctx). grant_matches r (cx_gate ctx) c t g))) \<and>
     \<not> (GIT_STAGE \<in> set (classify r) \<and> blanket_git_add r) \<and>
     (gr_enforceFileScope (GATE_POLICY (cx_gate ctx)) \<longrightarrow>
        set (rq_targetFilePaths r) \<subseteq> set (cx_approvedFiles ctx) \<and>
        (rq_targetFilePaths r = [] \<longrightarrow> SOURCE_MUTATION \<notin> set (classify r) \<and> GIT_STAGE \<notin> set (classify r)))"

lemma first_violation_None: "first_violation vs = None \<longleftrightarrow> (\<forall>v \<in> set vs. v = None)"
  by (induction vs rule: first_violation.induct) auto

lemma check_tokens_Inr:
  "(\<exists>g. check_tokens ctx r all cs granted = Inr g) \<longleftrightarrow>
   (\<forall>c \<in> set cs. \<forall>t. required_token (GATE_POLICY (cx_gate ctx)) c = Some t \<longrightarrow>
      (\<exists>g \<in> set (cx_activeAuthorities ctx). grant_matches r (cx_gate ctx) c t g))"
  by (induction cs arbitrary: granted)
    (auto simp: Let_def find_None_iff find_Some_iff split: option.splits)

lemma check_tokens_Inl: "check_tokens ctx r all cs granted = Inl d \<Longrightarrow> pd_decision d = PD_DENY"
  by (induction cs arbitrary: granted) (auto simp: Let_def split: option.splits)

lemma check_file_scope_None:
  "check_file_scope ctx r classes = None \<longleftrightarrow> (gr_enforceFileScope (GATE_POLICY (cx_gate ctx)) \<longrightarrow>
     set (rq_targetFilePaths r) \<subseteq> set (cx_approvedFiles ctx) \<and>
     (rq_targetFilePaths r = [] \<longrightarrow> SOURCE_MUTATION \<notin> set classes \<and> GIT_STAGE \<notin> set classes))"
  by (auto simp: check_file_scope_def Let_def find_None_iff split: option.splits dest: find_SomeD)

lemma check_file_scope_Some: "check_file_scope ctx r classes = Some d \<Longrightarrow> pd_decision d = PD_DENY"
  by (auto simp: check_file_scope_def deny_def Let_def split: option.splits if_splits)

lemma evaluate_allow_shape:
  "pd_decision (evaluate ctx r) = PD_ALLOW \<longleftrightarrow> first_violation (guard_checks r) = None \<and>
     MC_UNKNOWN \<notin> set (classify r) \<and>
     List.find (\<lambda>c. c \<in> set (gr_deniedClasses (GATE_POLICY (cx_gate ctx)))) (classify r) = None \<and>
     List.find (\<lambda>c. c \<notin> set (gr_allowedClasses (GATE_POLICY (cx_gate ctx)))) (classify r) = None \<and>
     (\<exists>g. check_tokens ctx r (classify r) (classify r) None = Inr g) \<and>
     \<not> (GIT_STAGE \<in> set (classify r) \<and> blanket_git_add r) \<and> check_file_scope ctx r (classify r) = None"
  unfolding evaluate_def Let_def
  by (auto simp: deny_def split: option.splits sum.splits if_splits dest: check_tokens_Inl check_file_scope_Some)

lemma allow_conditions_iff: "pd_decision (evaluate ctx r) = PD_ALLOW \<longleftrightarrow> allow_conditions ctx r"
  unfolding evaluate_allow_shape allow_conditions_def check_tokens_Inr check_file_scope_None first_violation_None
    find_None_iff by blast

lemma allowed_class:
  "pd_decision (evaluate ctx r) = PD_ALLOW \<Longrightarrow> c \<in> set (classify r) \<Longrightarrow>
   c \<in> set (gr_allowedClasses (GATE_POLICY (cx_gate ctx)))"
  unfolding allow_conditions_iff allow_conditions_def by blast

text \<open>
  C9: a request is allowed exactly when no guard objects, every class of it is known, in the allowed set and not in the
  denied set of the current gate and has its matching grant where the gate demands one, it is not a blanket \<open>git add\<close>,
  and, where the gate enforces the file scope, its target paths are approved (and there are some if it changes files).
\<close>

theorem evaluate_allow_iff: "pd_decision (evaluate ctx r) = PD_ALLOW \<longleftrightarrow> allow_conditions ctx r"
  by (rule allow_conditions_iff)

text \<open>A git request that carries its operation in the structured field, and the grant that unlocks it.\<close>

definition sample_git_request :: "string \<Rightarrow> string list \<Rightarrow> string list \<Rightarrow> action_request" where
  "sample_git_request g args paths =
     \<lparr>rq_actionId = ''x'', rq_taskId = ''t'', rq_agentId = ''a'', rq_provider = ''p'', rq_tool = ''git'',
      rq_operation = ''o'', rq_command = None, rq_args = Some args, rq_resource = ''r'', rq_httpMethod = None,
      rq_gitOperation = Some g, rq_environment = ENV_LOCAL, rq_parameters = [], rq_authorityContextRef = ''c'',
      rq_correlationId = ''k'', rq_targetFilePaths = paths, rq_generatedContent = None\<rparr>"

definition sample_grant :: "owner_token \<Rightarrow> execution_gate \<Rightarrow> mutation_class \<Rightarrow> grant_view" where
  "sample_grant token gate cls =
     \<lparr>gv_grantId = ''g'', gv_token = token, gv_taskId = ''t'', gv_status = GS_ACTIVE, gv_reservedForActionId = None,
      gv_boundToGate = Some gate, gv_boundToAction = Some (class_name cls), gv_issuedAt = 0\<rparr>"

definition sample_context :: "execution_gate \<Rightarrow> grant_view list \<Rightarrow> read_only_context" where
  "sample_context gate grants =
     \<lparr>cx_gate = gate, cx_environment = ENV_LOCAL, cx_approvedFiles = [''f''], cx_activeAuthorities = grants\<rparr>"

lemma sample_commit_allowed:
  "pd_decision (evaluate (sample_context G_COMMIT [sample_grant OWNER_COMMIT_APPROVED G_COMMIT GIT_COMMIT])
     (sample_git_request ''commit'' [] [''f''])) = PD_ALLOW"
  by code_simp

text \<open>
  No gate and no grant ever allows a destructive git action, any destructive or production mutation, a database,
  schema or schema source mutation, a secret read or output, the use of credentials or the creation of an auth session.
\<close>

theorem never_allowed:
  assumes "pd_decision (evaluate ctx r) = PD_ALLOW"
    and "c \<in> {GIT_DESTRUCTIVE, PRODUCTION_MUTATION, DATABASE_MUTATION, SCHEMA_MUTATION, SCHEMA_SOURCE_MUTATION,
      SECRET_READ, SECRET_OUTPUT, CREDENTIAL_USE, AUTH_SESSION_CREATION, DESTRUCTIVE, MC_UNKNOWN}"
  shows "c \<notin> set (classify r)"
proof
  assume "c \<in> set (classify r)"
  then have "c \<in> set (gr_allowedClasses (GATE_POLICY (cx_gate ctx)))"
    using allowed_class assms(1) by blast
  then show False using assms(2) by (cases "cx_gate ctx") auto
qed

lemma never_allowed_witness:
  "SECRET_READ \<notin> set (classify (sample_git_request ''commit'' [] [''f'']))"
  by (rule never_allowed [OF sample_commit_allowed]) simp

lemma check_tokens_granted:
  "check_tokens ctx r all cs granted = Inr g \<Longrightarrow> g \<noteq> granted \<Longrightarrow>
   \<exists>c \<in> set cs. \<exists>t a. required_token (GATE_POLICY (cx_gate ctx)) c = Some t \<and> consumes_grant c t \<and>
     a \<in> set (cx_activeAuthorities ctx) \<and> grant_matches r (cx_gate ctx) c t a \<and> g = Some (gv_grantId a)"
proof (induction cs arbitrary: granted)
  case (Cons c cs)
  show ?case
  proof (cases "required_token (GATE_POLICY (cx_gate ctx)) c")
    case (Some t)
    then obtain a where a: "List.find (grant_matches r (cx_gate ctx) c t) (cx_activeAuthorities ctx) = Some a"
      using Cons.prems(1) by (auto simp: Let_def split: option.splits)
    let ?g = "if consumes_grant c t then Some (gv_grantId a) else granted"
    have rest: "check_tokens ctx r all cs ?g = Inr g" using Cons.prems(1) Some a by (simp add: Let_def)
    show ?thesis
    proof (cases "g = ?g")
      case True
      then show ?thesis using Some find_SomeD [OF a] Cons.prems(2) by (auto split: if_splits)
    qed (use Cons.IH [OF rest] in auto)
  qed (use Cons in \<open>auto simp: Let_def\<close>)
qed simp

lemma check_tokens_kept:
  "check_tokens ctx r all cs granted = Inr g \<Longrightarrow> granted \<noteq> None \<Longrightarrow> g \<noteq> None"
  by (induction cs arbitrary: granted) (auto simp: Let_def split: option.splits if_splits)

lemma check_tokens_consumed:
  "check_tokens ctx r all cs granted = Inr g \<Longrightarrow> c \<in> set cs \<Longrightarrow>
   required_token (GATE_POLICY (cx_gate ctx)) c = Some t \<Longrightarrow> consumes_grant c t \<Longrightarrow> g \<noteq> None"
proof (induction cs arbitrary: granted)
  case (Cons d ds)
  then show ?case by (auto simp: Let_def split: option.splits if_splits dest: check_tokens_kept)
qed simp

lemma evaluate_granted:
  "pd_decision (evaluate ctx r) = PD_ALLOW \<Longrightarrow>
   check_tokens ctx r (classify r) (classify r) None = Inr (pd_grantedByAuthorityId (evaluate ctx r)) \<and>
   pd_allClasses (evaluate ctx r) = classify r \<and> pd_actionId (evaluate ctx r) = rq_actionId r"
  unfolding evaluate_def Let_def
  by (auto simp: deny_def split: option.splits sum.splits if_splits dest: check_tokens_Inl check_file_scope_Some)

text \<open>
  C10: a commit, a push or a deployment is allowed only in its own gate, and only on an ACTIVE grant of its own token
  for the same task that is bound to that gate and that action; the decision names such a grant as the one to use up.
\<close>

theorem sensitive_needs_bound_grant:
  assumes "pd_decision (evaluate ctx r) = PD_ALLOW" and "c \<in> set (classify r)"
    and "(c, gate, token) \<in> {(GIT_COMMIT, G_COMMIT, OWNER_COMMIT_APPROVED), (GIT_PUSH, G_PUSH, OWNER_PUSH_APPROVED),
      (DEPLOYMENT, G_DEPLOY, OWNER_DEPLOY_APPROVED)}"
  shows "cx_gate ctx = gate \<and> (\<exists>a \<in> set (cx_activeAuthorities ctx).
    pd_grantedByAuthorityId (evaluate ctx r) = Some (gv_grantId a) \<and> gv_token a = token \<and> gv_status a = GS_ACTIVE \<and>
    gv_taskId a = rq_taskId r \<and> gv_boundToGate a = Some gate \<and> gv_boundToAction a = Some (class_name c))"
proof -
  have gate: "cx_gate ctx = gate"
    using allowed_class [OF assms(1,2)] assms(3) by (cases "cx_gate ctx") auto
  have req: "required_token (GATE_POLICY gate) c = Some token" and con: "consumes_grant c token"
    using assms(3) by (auto simp: required_token_def consumes_grant_def)
  let ?g = "pd_grantedByAuthorityId (evaluate ctx r)"
  have ct: "check_tokens ctx r (classify r) (classify r) None = Inr ?g" using evaluate_granted [OF assms(1)] by simp
  have "?g \<noteq> None" using check_tokens_consumed [OF ct assms(2)] req con gate by simp
  then obtain d t a where d: "required_token (GATE_POLICY gate) d = Some t" "consumes_grant d t"
    "a \<in> set (cx_activeAuthorities ctx)" "grant_matches r gate d t a" "?g = Some (gv_grantId a)"
    using check_tokens_granted [OF ct] gate by blast
  have "d = c \<and> t = token"
    using d(1,2) assms(3) by (auto simp: required_token_def consumes_grant_def split: if_splits)
  then have "gv_token a = token \<and> gv_status a = GS_ACTIVE \<and> gv_taskId a = rq_taskId r \<and>
      gv_boundToGate a = Some gate \<and> gv_boundToAction a = Some (class_name c)"
    using d(4) assms(3) by (auto simp: grant_matches_def sensitive_tokens_def Let_def split: if_splits)
  then show ?thesis using gate d(3,5) by blast
qed

lemma sample_commit_classes: "classify (sample_git_request ''commit'' [] [''f'']) = [GIT_COMMIT]"
  by code_simp

lemma sensitive_needs_bound_grant_witness:
  "pd_grantedByAuthorityId (evaluate (sample_context G_COMMIT [sample_grant OWNER_COMMIT_APPROVED G_COMMIT GIT_COMMIT])
     (sample_git_request ''commit'' [] [''f''])) = Some ''g''"
proof -
  have "GIT_COMMIT \<in> set (classify (sample_git_request ''commit'' [] [''f'']))" by (simp add: sample_commit_classes)
  from sensitive_needs_bound_grant [OF sample_commit_allowed this, of G_COMMIT OWNER_COMMIT_APPROVED]
  show ?thesis by (simp add: sample_context_def sample_grant_def)
qed

text \<open>
  A request whose git operation is \<open>push\<close> or \<open>commit\<close> in any letter case is never allowed outside its gate, and a
  push whose arguments carry \<open>--force\<close> or \<open>-f\<close> is never allowed at all.
\<close>

theorem structured_git_needs_its_gate:
  assumes "pd_decision (evaluate ctx r) = PD_ALLOW" and "rq_gitOperation r = Some g"
  shows "(lower g = ''commit'' \<longrightarrow> cx_gate ctx = G_COMMIT) \<and> (lower g = ''push'' \<longrightarrow> cx_gate ctx = G_PUSH \<and>
    \<not> str_includes (lower (args_text r)) ''--force'' \<and> \<not> str_includes (lower (args_text r)) ''-f'')"
proof -
  have cls: "c \<in> set (classifyByGitOperation (Some g) (rq_args r) []) \<Longrightarrow> c \<noteq> LOCAL_MUTATION \<Longrightarrow>
      c \<in> set (gr_allowedClasses (GATE_POLICY (cx_gate ctx)))" for c
    using allowed_class [OF assms(1)] classify_keeps_git [of c r] assms(2) by simp
  show ?thesis
  proof (intro conjI impI)
    assume "lower g = ''commit''"
    then have "GIT_COMMIT \<in> set (classifyByGitOperation (Some g) (rq_args r) [])"
      by (simp add: classifyByGitOperation_def Let_def)
    from cls [OF this] show "cx_gate ctx = G_COMMIT" by (cases "cx_gate ctx") auto
  next
    assume g: "lower g = ''push''"
    then have "GIT_PUSH \<in> set (classifyByGitOperation (Some g) (rq_args r) [])"
      by (simp add: classifyByGitOperation_def Let_def)
    from cls [OF this] show "cx_gate ctx = G_PUSH" by (cases "cx_gate ctx") auto
    have "GIT_DESTRUCTIVE \<notin> set (classifyByGitOperation (Some g) (rq_args r) [])"
      using cls [of GIT_DESTRUCTIVE] by (cases "cx_gate ctx") auto
    then show "\<not> str_includes (lower (args_text r)) ''--force''" "\<not> str_includes (lower (args_text r)) ''-f''"
      using g by (auto simp: classifyByGitOperation_def args_text_def Let_def split: if_splits)
  qed
qed

lemma structured_git_needs_its_gate_witness:
  "cx_gate (sample_context G_COMMIT [sample_grant OWNER_COMMIT_APPROVED G_COMMIT GIT_COMMIT]) = G_COMMIT"
proof -
  have "rq_gitOperation (sample_git_request ''commit'' [] [''f'']) = Some ''commit''"
    by (simp add: sample_git_request_def)
  from structured_git_needs_its_gate [OF sample_commit_allowed this] show ?thesis
    by (simp add: lower_def lower_char_def)
qed
text \<open>
  The classifier reads the first command of a line only: what follows \<open>&&\<close> is not seen, and a push hidden behind
  an inspection command is allowed in every gate.
\<close>

definition sample_shell_request :: "string \<Rightarrow> action_request" where
  "sample_shell_request cmd = (sample_git_request [] [] [])\<lparr>rq_tool := ''shell'', rq_command := Some cmd,
     rq_gitOperation := None, rq_args := None\<rparr>"

lemma chained_push_is_allowed:
  "classify (sample_shell_request ''ls && git push'') = [READ_ONLY]"
  "pd_decision (evaluate (sample_context G_AUDIT []) (sample_shell_request ''ls && git push'')) = PD_ALLOW"
  by code_simp+

text \<open>An option before the subcommand hides it.\<close>

lemma git_option_misread: "classify (sample_shell_request ''git -C . push'') = [LOCAL_MUTATION]"
  by code_simp

end
