(* ===== verification/Tool_Gateway.thy ===== *)
theory Tool_Gateway
  imports Owner_Authority Policy_Engine
begin

text \<open>
  The governed tool gateway (\<^verbatim>\<open>packages/tools/src/governed-tool-gateway.ts\<close>) with the tool contract
  (\<^verbatim>\<open>packages/contracts/src/tool/contracts.ts\<close>), the static policy, the mock adapter, the output redactor and the
  in-memory audit ledger. A call acts on three worlds: the owner processor, whose grants it reserves and settles, the
  audit ledger, which may fail, and the world of the external adapters. The clock reads one
  value during a call; the fresh action id is an argument.
\<close>

section \<open>The tool contract\<close>

datatype tool_status = TS_SUCCEEDED | TS_FAILED | TS_DENIED | TS_CANCELLED | TS_TIMED_OUT | TS_UNKNOWN

datatype tool_policy_decision = TP_ALLOW | TP_DENY | TP_OWNER_DECISION_REQUIRED
  | TP_EXTERNAL_ACTION_REQUIRED | TP_REQUIRE_ADDITIONAL_CONTROL | TP_UNRESOLVED

record tool_request =
  tq_schemaVersion :: string
  tq_requestId :: string
  tq_projectId :: string
  tq_actorRef :: string
  tq_workItemRef :: string
  tq_workPackageRef :: string
  tq_toolId :: string
  tq_operationId :: string
  tq_targetResource :: string
  tq_environment :: string
  tq_parameters :: "(string \<times> json) list"
  tq_authorityContextRef :: string
  tq_idempotencyKey :: string
  tq_correlationId :: string

record tool_policy_evaluation =
  te_requestId :: string
  te_decision :: tool_policy_decision
  te_reasonCode :: string
  te_policyRefs :: "string list"
  te_authorityRefs :: "string list"

record tool_artifact =
  ta_artifactId :: string
  ta_type :: string
  ta_ref :: string

record evidence_candidate =
  ec_type :: string
  ec_claimSupported :: string
  ec_sourceRef :: string

record tool_result =
  tx_schemaVersion :: string
  tx_executionId :: string
  tx_requestId :: string
  tx_toolId :: string
  tx_operationId :: string
  tx_status :: tool_status
  tx_summary :: string
  tx_observedEffect :: "string option"
  tx_artifacts :: "tool_artifact list"
  tx_evidenceCandidates :: "evidence_candidate list"
  tx_sideEffects :: "string list"
  tx_reconciliationRequired :: bool

datatype gateway_error = ZodError | ToolNotRegisteredError string | GrantError owner_error
  | AdapterError string | AuditError string

text \<open>The checks of the schemas that a value of the right shape can still fail.\<close>

definition valid_request :: "tool_request \<Rightarrow> bool" where
  "valid_request q \<longleftrightarrow> tq_schemaVersion q = ''1.0.0'' \<and> list_all (\<lambda>s. s \<noteq> [])
     [tq_requestId q, tq_projectId q, tq_actorRef q, tq_workItemRef q, tq_workPackageRef q, tq_toolId q,
      tq_operationId q, tq_targetResource q, tq_environment q, tq_authorityContextRef q, tq_idempotencyKey q,
      tq_correlationId q]"

definition valid_result :: "tool_result \<Rightarrow> bool" where
  "valid_result x \<longleftrightarrow> tx_schemaVersion x = ''1.0.0'' \<and>
     list_all (\<lambda>s. s \<noteq> []) [tx_executionId x, tx_requestId x, tx_toolId x, tx_operationId x] \<and>
     list_all (\<lambda>a. ta_artifactId a \<noteq> [] \<and> ta_type a \<noteq> [] \<and> ta_ref a \<noteq> []) (tx_artifacts x) \<and>
     list_all (\<lambda>e. ec_type e \<noteq> [] \<and> ec_claimSupported e \<noteq> [] \<and> ec_sourceRef e \<noteq> []) (tx_evidenceCandidates x)"

definition parse_result :: "tool_result \<Rightarrow> gateway_error + tool_result" where
  "parse_result x = (if valid_result x then Inr x else Inl ZodError)"

record authorized_request =
  az_request :: tool_request
  az_policy :: tool_policy_evaluation

definition parse_authorized :: "authorized_request \<Rightarrow> gateway_error + authorized_request" where
  "parse_authorized a =
     (if valid_request (az_request a) \<and> te_requestId (az_policy a) \<noteq> [] \<and> te_reasonCode (az_policy a) \<noteq> [] \<and>
         te_decision (az_policy a) = TP_ALLOW then Inr a else Inl ZodError)"

section \<open>The static policy, the mock adapter and the redactor\<close>

definition static_evaluate :: "string list \<Rightarrow> string list \<Rightarrow> tool_request \<Rightarrow> tool_policy_evaluation" where
  "static_evaluate allowed denied q =
     (let ev = (\<lambda>d code. \<lparr>te_requestId = tq_requestId q, te_decision = d, te_reasonCode = code,
                  te_policyRefs = [''static-tool-policy''], te_authorityRefs = [tq_authorityContextRef q]\<rparr>) in
      if tq_operationId q \<in> set denied then ev TP_DENY ''OPERATION_EXPLICITLY_DENIED''
      else if tq_operationId q \<notin> set allowed then ev TP_DENY ''OPERATION_NOT_ALLOWED''
      else ev TP_ALLOW ''STATIC_POLICY_ALLOW'')"

datatype mock_scenario = MOCK_SUCCESS | MOCK_FAIL | MOCK_TIMEOUT | MOCK_UNKNOWN

definition mock_execute :: "mock_scenario \<Rightarrow> string \<Rightarrow> authorized_request \<Rightarrow> tool_result" where
  "mock_execute scenario eid a =
     (let res = (\<lambda>st summary rec. \<lparr>tx_schemaVersion = ''1.0.0'', tx_executionId = eid,
            tx_requestId = tq_requestId (az_request a), tx_toolId = ''mock'',
            tx_operationId = tq_operationId (az_request a), tx_status = st, tx_summary = summary,
            tx_observedEffect = None, tx_artifacts = [], tx_evidenceCandidates = [], tx_sideEffects = [],
            tx_reconciliationRequired = rec\<rparr>) in
      case scenario of
        MOCK_SUCCESS \<Rightarrow> res TS_SUCCEEDED ''Mock tool execution succeeded'' False
      | MOCK_FAIL \<Rightarrow> res TS_FAILED ''Mock tool execution failed'' False
      | MOCK_TIMEOUT \<Rightarrow> res TS_TIMED_OUT ''Mock tool execution timed out'' True
      | MOCK_UNKNOWN \<Rightarrow> res TS_UNKNOWN ''Mock tool effect is unknown'' True)"

text \<open>\<open>text.replace(new RegExp(escaped, 'g'), by)\<close>: non-overlapping occurrences from the left.\<close>

function replace_all :: "string \<Rightarrow> string \<Rightarrow> string \<Rightarrow> string" where
  "replace_all pat by [] = []"
| "replace_all pat by (c # s) =
     (if pat \<noteq> [] \<and> starts_with (c # s) pat then by @ replace_all pat by (drop (length pat) (c # s))
      else c # replace_all pat by s)"
  by pat_completeness auto
termination by (relation "measure (\<lambda>(pat, by, s). length s)") auto

definition redactor_of :: "string list \<Rightarrow> string list" where
  "redactor_of secrets = jset_of (filter (\<lambda>s. 3 < length s) secrets)"

definition redact :: "string list \<Rightarrow> string \<Rightarrow> string" where
  "redact secrets text =
     (if text = [] \<or> secrets = [] then text
      else fold (\<lambda>secret t. replace_all secret ''[REDACTED]'' t) secrets text)"

section \<open>The audit ledger\<close>

datatype execution_outcome = NotExecuted | Executed tool_result

record audit_entry =
  au_actionId :: string
  au_proposedAt :: int
  au_request :: action_request
  au_classification :: "mutation_class list"
  au_decision :: action_policy_decision
  au_executedAt :: "int option"
  au_executionResult :: "execution_outcome option"

record 'l audit_ops =
  al_recordProposed :: "audit_entry \<Rightarrow> ('l, string, unit) act"
  al_recordExecuted :: "string \<Rightarrow> tool_result \<Rightarrow> int \<Rightarrow> ('l, string, unit) act"

type_synonym memory_ledger = "(string, audit_entry) jsmap"

definition mem_recordProposed :: "audit_entry \<Rightarrow> (memory_ledger, string, unit) act" where
  "mem_recordProposed e l = (Inr (), jm_set (au_actionId e)
     (e\<lparr>au_executedAt := None, au_executionResult :=
         (if pd_decision (au_decision e) = PD_DENY then Some NotExecuted else None)\<rparr>) l)"

definition mem_recordExecuted :: "string \<Rightarrow> tool_result \<Rightarrow> int \<Rightarrow> (memory_ledger, string, unit) act" where
  "mem_recordExecuted i x now l =
     (case jm_get l i of
        None \<Rightarrow> (Inr (), l)
      | Some e \<Rightarrow> (Inr (), jm_set i (e\<lparr>au_executedAt := Some now, au_executionResult := Some (Executed x)\<rparr>) l))"

definition mem_entries :: "memory_ledger \<Rightarrow> audit_entry list" where
  "mem_entries l = map snd l"

definition mem_denied :: "memory_ledger \<Rightarrow> audit_entry list" where
  "mem_denied l = filter (\<lambda>e. pd_decision (au_decision e) = PD_DENY) (mem_entries l)"

definition mem_ops :: "memory_ledger audit_ops" where
  "mem_ops = \<lparr>al_recordProposed = mem_recordProposed, al_recordExecuted = mem_recordExecuted\<rparr>"

section \<open>From a tool request to an action request\<close>

definition replace_first :: "string \<Rightarrow> string \<Rightarrow> string" where
  "replace_first pat s =
     (let i = List.find (\<lambda>k. starts_with (drop k s) pat) [0..<Suc (length s)]
      in case i of None \<Rightarrow> s | Some k \<Rightarrow> take k s @ drop (k + length pat) s)"

definition param :: "tool_request \<Rightarrow> string \<Rightarrow> json option" where
  "param q k = (case map_of (tq_parameters q) k of Some JNull \<Rightarrow> None | v \<Rightarrow> v)"

text \<open>The elements of an array that is read as an array of texts.\<close>

definition texts_of :: "json list \<Rightarrow> string list" where
  "texts_of vs = map (\<lambda>v. if v = JNull then [] else js_string v) vs"

definition extractHttpMethodFromOperation :: "string \<Rightarrow> string option" where
  "extractHttpMethodFromOperation op =
     (let l = lower op in
      if str_includes l ''get'' then Some ''GET''
      else if str_includes l ''post'' then Some ''POST''
      else if str_includes l ''put'' then Some ''PUT''
      else if str_includes l ''patch'' then Some ''PATCH''
      else if str_includes l ''delete'' then Some ''DELETE''
      else None)"

definition mapEnvironment :: "string \<Rightarrow> environment" where
  "mapEnvironment env =
     (let l = lower env in
      if l = ''production'' \<or> l = ''prod'' then ENV_PRODUCTION
      else if l = ''staging'' \<or> l = ''stage'' then ENV_STAGING
      else if l = ''test'' then ENV_TEST else ENV_LOCAL)"

definition bridge_paths :: "tool_request \<Rightarrow> string list" where
  "bridge_paths q =
     (let fromParams =
            (case json_arr (param q ''filePaths'') of Some vs \<Rightarrow> texts_of vs
             | None \<Rightarrow> (case json_arr (param q ''requestedFilePaths'') of Some vs \<Rightarrow> texts_of vs
             | None \<Rightarrow> (case json_str (param q ''path'') of Some s \<Rightarrow> [s]
             | None \<Rightarrow> (case json_str (param q ''file'') of Some s \<Rightarrow> [s] | None \<Rightarrow> []))));
          res = tq_targetResource q;
          addp = (\<lambda>p. if p \<in> set fromParams then fromParams else fromParams @ [p]) in
      if starts_with res ''file://'' then addp (drop 7 res)
      else if str_includes res ''/'' \<and> \<not> str_includes res ''://'' then addp res
      else fromParams)"

definition bridgeToActionRequest :: "string \<Rightarrow> tool_request \<Rightarrow> action_request" where
  "bridgeToActionRequest aid q =
     \<lparr>rq_actionId = aid, rq_taskId = tq_workItemRef q, rq_agentId = tq_actorRef q,
      rq_provider = (case param q ''provider'' of Some v \<Rightarrow> js_string v | None \<Rightarrow> ''unknown''),
      rq_tool = tq_toolId q, rq_operation = tq_operationId q, rq_command = json_str (param q ''command''),
      rq_args = map_option texts_of (json_arr (param q ''args'')),
      rq_resource = tq_targetResource q,
      rq_httpMethod = (case json_str (param q ''method'') of Some m \<Rightarrow> Some (upper m)
        | None \<Rightarrow> if tq_toolId q \<in> {''http'', ''fetch''} then extractHttpMethodFromOperation (tq_operationId q) else None),
      rq_gitOperation = (if tq_toolId q = ''git'' then
          Some (case param q ''subcommand'' of Some v \<Rightarrow> js_string v
                | None \<Rightarrow> replace_first ''git.'' (tq_operationId q)) else None),
      rq_environment = mapEnvironment (tq_environment q), rq_parameters = tq_parameters q,
      rq_authorityContextRef = tq_authorityContextRef q, rq_correlationId = tq_correlationId q,
      rq_targetFilePaths = bridge_paths q, rq_generatedContent = json_str (param q ''generatedContent'')\<rparr>"

section \<open>The gateway\<close>

type_synonym ('l, 'x) gw_world = "owner_processor \<times> 'l \<times> 'x"

type_synonym 'x tool_adapter = "authorized_request \<Rightarrow> ('x, string, tool_result) act"

datatype tool_policy = LegacyPolicy "tool_request \<Rightarrow> tool_policy_evaluation" | ActionPolicy

text \<open>
  A gateway: its policy (the engine reads the processor's read-only view), its adapters in constructor
  order, an audit ledger, the grant capability and a redactor, where given.
\<close>

record ('l, 'x) gateway =
  gw_policy :: tool_policy
  gw_adapters :: "(string \<times> 'x tool_adapter) list"
  gw_audit :: "'l audit_ops option"
  gw_consumer :: bool
  gw_redactor :: "string list option"

definition adapter_of :: "('l, 'x) gateway \<Rightarrow> string \<Rightarrow> 'x tool_adapter option" where
  "adapter_of g i = jm_get (fold (\<lambda>(k, a). jm_set k a) (gw_adapters g) []) i"

definition on_owner :: "(owner_processor, owner_error, unit) act \<Rightarrow> (('l, 'x) gw_world, gateway_error, unit) act" where
  "on_owner m = (\<lambda>(p, l, x). case m p of (Inl e, p') \<Rightarrow> (Inl (GrantError e), (p', l, x)) | (Inr u, p') \<Rightarrow> (Inr u, (p', l, x)))"

definition on_audit :: "('l, string, unit) act \<Rightarrow> (('l, 'x) gw_world, gateway_error, unit) act" where
  "on_audit m = (\<lambda>(p, l, x). case m l of (Inl e, l') \<Rightarrow> (Inl (AuditError e), (p, l', x)) | (Inr u, l') \<Rightarrow> (Inr u, (p, l', x)))"

definition on_adapter :: "('x, string, 'a) act \<Rightarrow> (('l, 'x) gw_world, gateway_error, 'a) act" where
  "on_adapter m = (\<lambda>(p, l, x). case m x of (Inl e, x') \<Rightarrow> (Inl (AdapterError e), (p, l, x')) | (Inr r, x') \<Rightarrow> (Inr r, (p, l, x')))"

definition of_sum :: "'e + 'a \<Rightarrow> ('w, 'e, 'a) act" where
  "of_sum r = (\<lambda>w. (r, w))"

definition plain_result :: "tool_request \<Rightarrow> string \<Rightarrow> tool_status \<Rightarrow> string \<Rightarrow> tool_result" where
  "plain_result q eid st summary =
     \<lparr>tx_schemaVersion = ''1.0.0'', tx_executionId = eid, tx_requestId = tq_requestId q, tx_toolId = tq_toolId q,
      tx_operationId = tq_operationId q, tx_status = st, tx_summary = summary, tx_observedEffect = None,
      tx_artifacts = [], tx_evidenceCandidates = [], tx_sideEffects = [], tx_reconciliationRequired = False\<rparr>"

text \<open>
  What the policy step yields: a stop with a result, or the reason, the authorization, the action id and the grant.
\<close>

record verdict_of_policy =
  vp_allow :: bool
  vp_reason :: string
  vp_actionId :: "string option"
  vp_grant :: "string option"
  vp_evaluation :: tool_policy_evaluation

datatype policy_step = StopWith tool_result | Proceed verdict_of_policy

definition decide :: "('l, 'x) gateway \<Rightarrow> tool_request \<Rightarrow> string \<Rightarrow> int \<Rightarrow>
    (('l, 'x) gw_world, gateway_error, policy_step) act" where
  "decide g q aid now w =
     (case gw_policy g of
        ActionPolicy \<Rightarrow>
          let rq = bridgeToActionRequest aid q;
              d = evaluate (readOnlyView (fst w)) rq;
              entry = \<lparr>au_actionId = aid, au_proposedAt = now, au_request = rq, au_classification = pd_allClasses d,
                       au_decision = d, au_executedAt = None, au_executionResult = None\<rparr>;
              record = (case gw_audit g of None \<Rightarrow> act_return () | Some ops \<Rightarrow> on_audit (al_recordProposed ops entry))
          in act_try record
              (\<lambda>_. act_return (Proceed
                 \<lparr>vp_allow = (pd_decision d = PD_ALLOW), vp_reason = pd_policyRule d, vp_actionId = Some aid,
                  vp_grant = pd_grantedByAuthorityId d,
                  vp_evaluation = \<lparr>te_requestId = tq_requestId q, te_decision = TP_ALLOW, te_reasonCode = pd_policyRule d,
                    te_policyRefs = [''action-classifying-policy-engine''], te_authorityRefs = [tq_authorityContextRef q]\<rparr>\<rparr>))
              (\<lambda>e. act_bind (of_sum (parse_result (plain_result q (''audit-fail:'' @ tq_requestId q) TS_FAILED
                     (''Pre-execution audit failed: '' @ (case e of AuditError m \<Rightarrow> m | _ \<Rightarrow> [])))))
                   (\<lambda>r. act_return (StopWith r))) w
      | LegacyPolicy ev \<Rightarrow>
          let d = ev q in
          act_return (Proceed
            \<lparr>vp_allow = (te_decision d = TP_ALLOW), vp_reason = te_reasonCode d, vp_actionId = None, vp_grant = None,
             vp_evaluation = \<lparr>te_requestId = tq_requestId q, te_decision = TP_ALLOW, te_reasonCode = te_reasonCode d,
               te_policyRefs = te_policyRefs d, te_authorityRefs = te_authorityRefs d\<rparr>\<rparr>) w)"

text \<open>A call of the grant capability, made when there is an action, a grant and the capability.\<close>

definition with_grant :: "('l, 'x) gateway \<Rightarrow> verdict_of_policy \<Rightarrow>
    (string \<Rightarrow> string \<Rightarrow> (owner_processor, owner_error, unit) act) \<Rightarrow> (('l, 'x) gw_world, gateway_error, unit) act" where
  "with_grant g v f =
     (if truthy (vp_actionId v) \<and> truthy (vp_grant v) \<and> gw_consumer g
      then on_owner (f (or_empty (vp_grant v)) (or_empty (vp_actionId v))) else act_return ())"

definition sanitize :: "('l, 'x) gateway \<Rightarrow> tool_result \<Rightarrow> tool_result" where
  "sanitize g r =
     (case gw_redactor g of
        None \<Rightarrow> r
      | Some secrets \<Rightarrow> r\<lparr>tx_summary := redact secrets (tx_summary r),
          tx_observedEffect := Some (redact secrets (or_empty (tx_observedEffect r))),
          tx_evidenceCandidates := map (\<lambda>e. e\<lparr>ec_claimSupported := redact secrets (ec_claimSupported e)\<rparr>)
            (tx_evidenceCandidates r)\<rparr>)"

definition settle_grant :: "('l, 'x) gateway \<Rightarrow> verdict_of_policy \<Rightarrow> tool_status \<Rightarrow> int \<Rightarrow>
    (('l, 'x) gw_world, gateway_error, unit) act" where
  "settle_grant g v st now =
     with_grant g v (\<lambda>i a. case st of TS_SUCCEEDED \<Rightarrow> consumeGrant i a now
       | TS_CANCELLED \<Rightarrow> releaseGrantForRetry i a now | _ \<Rightarrow> requireReconciliation i a now)"

definition record_execution :: "('l, 'x) gateway \<Rightarrow> verdict_of_policy \<Rightarrow> tool_result \<Rightarrow> int \<Rightarrow>
    (('l, 'x) gw_world, gateway_error, tool_result) act" where
  "record_execution g v clean now =
     (if \<not> truthy (vp_actionId v) then act_return clean
      else act_try (case gw_audit g of None \<Rightarrow> act_return ()
                    | Some ops \<Rightarrow> on_audit (al_recordExecuted ops (or_empty (vp_actionId v)) clean now))
        (\<lambda>_. act_return clean)
        (\<lambda>e. act_bind (with_grant g v (\<lambda>i a. requireReconciliation i a now))
             (\<lambda>_. of_sum (parse_result (clean\<lparr>tx_status := TS_UNKNOWN,
                tx_summary := tx_summary clean @ [CHR 0x0A] @ ''[AUDIT PERSISTENCE FAILED: '' @
                  (case e of AuditError m \<Rightarrow> m | _ \<Rightarrow> []) @ '']'',
                tx_reconciliationRequired := True\<rparr>)))))"

definition gateway_execute :: "('l, 'x) gateway \<Rightarrow> tool_request \<Rightarrow> string \<Rightarrow> int \<Rightarrow>
    (('l, 'x) gw_world, gateway_error, tool_result) act" where
  "gateway_execute g q aid now =
     (if \<not> valid_request q then act_throw ZodError
      else act_bind (decide g q aid now) (\<lambda>step.
        case step of
          StopWith r \<Rightarrow> act_return r
        | Proceed v \<Rightarrow>
            if \<not> vp_allow v
            then of_sum (parse_result (plain_result q (''denied:'' @ tq_requestId q) TS_DENIED
                   (''Tool execution denied: '' @ vp_reason v)))
            else (case adapter_of g (tq_toolId q) of
                None \<Rightarrow> act_throw (ToolNotRegisteredError (tq_toolId q))
              | Some adapter \<Rightarrow>
                  act_bind (with_grant g v (\<lambda>i a. reserveGrant i a now)) (\<lambda>_.
                  act_bind (of_sum (parse_authorized \<lparr>az_request = q, az_policy = vp_evaluation v\<rparr>)) (\<lambda>az.
                  act_try (on_adapter (adapter az))
                    (\<lambda>result.
                      act_bind (of_sum (parse_result result)) (\<lambda>parsed.
                      act_bind (settle_grant g v (tx_status parsed) now) (\<lambda>_.
                      record_execution g v (sanitize g parsed) now)))
                    (\<lambda>e. act_bind (with_grant g v (\<lambda>i a. requireReconciliation i a now)) (\<lambda>_. act_throw e)))))))"

definition createProductionGateway :: "(string \<times> 'x tool_adapter) list \<Rightarrow> 'l audit_ops \<Rightarrow> bool \<Rightarrow> string list option \<Rightarrow>
    ('l, 'x) gateway" where
  "createProductionGateway adapters audit consumer redactor =
     \<lparr>gw_policy = ActionPolicy, gw_adapters = adapters, gw_audit = Some audit, gw_consumer = consumer,
      gw_redactor = redactor\<rparr>"

section \<open>What a call does\<close>

lemma act_bind_of_sum [simp]: "act_bind (of_sum (Inr y)) k w = k y w" "act_bind (of_sum (Inl e)) k w = (Inl e, w)"
  by (simp_all add: act_bind_def of_sum_def)

lemma act_bind_return [simp]: "act_bind (act_return y) k w = k y w"
  by (simp add: act_bind_def act_return_def)

lemma plain_result_valid:
  "valid_request q \<Longrightarrow> eid \<noteq> [] \<Longrightarrow> parse_result (plain_result q eid st summary) = Inr (plain_result q eid st summary)"
  by (simp add: parse_result_def valid_result_def plain_result_def valid_request_def)

definition policy_decision_of :: "owner_processor \<Rightarrow> string \<Rightarrow> tool_request \<Rightarrow> action_policy_decision" where
  "policy_decision_of p aid q = evaluate (readOnlyView p) (bridgeToActionRequest aid q)"

definition proposed_entry :: "owner_processor \<Rightarrow> string \<Rightarrow> tool_request \<Rightarrow> int \<Rightarrow> audit_entry" where
  "proposed_entry p aid q now =
     \<lparr>au_actionId = aid, au_proposedAt = now, au_request = bridgeToActionRequest aid q,
      au_classification = pd_allClasses (policy_decision_of p aid q), au_decision = policy_decision_of p aid q,
      au_executedAt = None, au_executionResult = None\<rparr>"

definition record_proposed :: "('l, 'x) gateway \<Rightarrow> audit_entry \<Rightarrow> ('l, string, unit) act" where
  "record_proposed g e = (case gw_audit g of None \<Rightarrow> act_return () | Some ops \<Rightarrow> al_recordProposed ops e)"

definition verdict_for :: "owner_processor \<Rightarrow> string \<Rightarrow> tool_request \<Rightarrow> verdict_of_policy" where
  "verdict_for p aid q =
     (let d = policy_decision_of p aid q in
      \<lparr>vp_allow = (pd_decision d = PD_ALLOW), vp_reason = pd_policyRule d, vp_actionId = Some aid,
       vp_grant = pd_grantedByAuthorityId d,
       vp_evaluation = \<lparr>te_requestId = tq_requestId q, te_decision = TP_ALLOW, te_reasonCode = pd_policyRule d,
         te_policyRefs = [''action-classifying-policy-engine''], te_authorityRefs = [tq_authorityContextRef q]\<rparr>\<rparr>)"

lemma decide_action:
  assumes "gw_policy g = ActionPolicy" "valid_request q"
  shows "decide g q aid now (p, l, x) =
    (case record_proposed g (proposed_entry p aid q now) l of
       (Inr _, l') \<Rightarrow> (Inr (Proceed (verdict_for p aid q)), (p, l', x))
     | (Inl m, l') \<Rightarrow> (Inr (StopWith (plain_result q (''audit-fail:'' @ tq_requestId q) TS_FAILED
         (''Pre-execution audit failed: '' @ m))), (p, l', x)))"
proof (cases "gw_audit g")
  case None
  then show ?thesis using assms
    by (simp add: decide_def Let_def act_try_def act_return_def record_proposed_def verdict_for_def policy_decision_of_def)
next
  case (Some ops)
  obtain r l' where r: "al_recordProposed ops (proposed_entry p aid q now) l = (r, l')" by fastforce
  have e: "proposed_entry p aid q now = \<lparr>au_actionId = aid, au_proposedAt = now, au_request = bridgeToActionRequest aid q,
      au_classification = pd_allClasses (policy_decision_of p aid q), au_decision = policy_decision_of p aid q,
      au_executedAt = None, au_executionResult = None\<rparr>" by (simp add: proposed_entry_def)
  show ?thesis using assms Some r [unfolded e] unfolding e
    by (cases r) (simp_all add: decide_def Let_def act_try_def act_return_def record_proposed_def verdict_for_def
        policy_decision_of_def on_audit_def plain_result_valid act_bind_def of_sum_def)
qed

lemma allowed_rule: "pd_decision (evaluate ctx r) = PD_ALLOW \<Longrightarrow> pd_policyRule (evaluate ctx r) = ''GATE_POLICY_ALLOW''"
  unfolding evaluate_def Let_def
  by (auto simp: deny_def split: option.splits sum.splits if_splits dest: check_tokens_Inl check_file_scope_Some)

definition authorized_for :: "owner_processor \<Rightarrow> string \<Rightarrow> tool_request \<Rightarrow> authorized_request" where
  "authorized_for p aid q = \<lparr>az_request = q, az_policy = vp_evaluation (verdict_for p aid q)\<rparr>"

lemma parse_authorized_allowed:
  "valid_request q \<Longrightarrow> pd_decision (policy_decision_of p aid q) = PD_ALLOW \<Longrightarrow>
   parse_authorized (authorized_for p aid q) = Inr (authorized_for p aid q)"
  by (simp add: parse_authorized_def authorized_for_def verdict_for_def Let_def policy_decision_of_def allowed_rule
      valid_request_def)

text \<open>The four outcomes of a call under the action policy.\<close>

lemma gateway_action_eq:
  assumes "gw_policy g = ActionPolicy" "valid_request q"
  shows "gateway_execute g q aid now (p, l, x) =
    (case record_proposed g (proposed_entry p aid q now) l of
       (Inl m, l') \<Rightarrow> (Inr (plain_result q (''audit-fail:'' @ tq_requestId q) TS_FAILED
         (''Pre-execution audit failed: '' @ m)), (p, l', x))
     | (Inr _, l') \<Rightarrow>
         if pd_decision (policy_decision_of p aid q) \<noteq> PD_ALLOW
         then (Inr (plain_result q (''denied:'' @ tq_requestId q) TS_DENIED
           (''Tool execution denied: '' @ pd_policyRule (policy_decision_of p aid q))), (p, l', x))
         else (case adapter_of g (tq_toolId q) of
             None \<Rightarrow> (Inl (ToolNotRegisteredError (tq_toolId q)), (p, l', x))
           | Some ad \<Rightarrow>
               act_bind (with_grant g (verdict_for p aid q) (\<lambda>i a. reserveGrant i a now)) (\<lambda>_.
                 act_try (on_adapter (ad (authorized_for p aid q)))
                   (\<lambda>result. act_bind (of_sum (parse_result result)) (\<lambda>parsed.
                      act_bind (settle_grant g (verdict_for p aid q) (tx_status parsed) now) (\<lambda>_.
                      record_execution g (verdict_for p aid q) (sanitize g parsed) now)))
                   (\<lambda>e. act_bind (with_grant g (verdict_for p aid q) (\<lambda>i a. requireReconciliation i a now))
                      (\<lambda>_. act_throw e))) (p, l', x)))"
proof -
  obtain r l' where r: "record_proposed g (proposed_entry p aid q now) l = (r, l')" by fastforce
  have v: "vp_allow (verdict_for p aid q) = (pd_decision (policy_decision_of p aid q) = PD_ALLOW)"
    "vp_reason (verdict_for p aid q) = pd_policyRule (policy_decision_of p aid q)"
    by (simp_all add: verdict_for_def Let_def)
  have unit: "act_bind m (\<lambda>_. act_bind (of_sum (Inr y)) k) = act_bind m (\<lambda>_. k y)"
    for m :: "(('a, 'b) gw_world, gateway_error, unit) act" and y k
    by (rule arg_cong [of _ _ "act_bind m"]) (simp add: fun_eq_iff)
  show ?thesis
    using r decide_action [OF assms, of aid now p l x] parse_authorized_allowed [OF assms(2), of p aid]
    unfolding authorized_for_def
    by (cases r) (auto simp: gateway_execute_def assms act_bind_def [of "decide g q aid now"] v plain_result_valid of_sum_def
        act_return_def act_throw_def unit [unfolded of_sum_def] split: option.split)
qed


section \<open>Grants over a call\<close>

text \<open>\<open>only_grant p i P p'\<close>: nothing but the grant \<open>i\<close> has changed, and it now satisfies \<open>P\<close>.\<close>

definition only_grant :: "owner_processor \<Rightarrow> string \<Rightarrow> (grant_record \<Rightarrow> bool) \<Rightarrow> owner_processor \<Rightarrow> bool" where
  "only_grant p i P p' \<longleftrightarrow> ow_gate p' = ow_gate p \<and> ow_taskId p' = ow_taskId p \<and>
     (\<forall>j. j \<noteq> i \<longrightarrow> grant_of p' j = grant_of p j) \<and> (\<exists>gr. grant_of p' i = Some gr \<and> P gr)"

definition limited_token :: "grant_record \<Rightarrow> bool" where
  "limited_token gr \<longleftrightarrow> gt_token gr \<noteq> OWNER_IMPLEMENTATION_APPROVED"

lemma only_grant_trans:
  "only_grant p i P p1 \<Longrightarrow> only_grant p1 i Q p2 \<Longrightarrow> only_grant p i Q p2"
  by (auto simp: only_grant_def)

lemma only_grant_put:
  "P gr \<Longrightarrow> only_grant p i P (log_event now e (put_grant i gr p))"
  by (simp add: only_grant_def)

lemma reserve_active:
  "grant_of p i = Some gr \<Longrightarrow> limited_token gr \<Longrightarrow> gt_status gr = GS_ACTIVE \<Longrightarrow>
   \<exists>p'. reserveGrant i a now p = (Inr (), p') \<and>
     only_grant p i (\<lambda>g. limited_token g \<and> gt_status g = GS_RESERVED \<and> gt_reservedForActionId g = Some a) p'"
  by (simp add: reserveGrant_def limited_token_def only_grant_put)

lemma consume_reserved:
  "grant_of p i = Some gr \<Longrightarrow> limited_token gr \<Longrightarrow> gt_status gr = GS_RESERVED \<Longrightarrow> gt_reservedForActionId gr = Some a \<Longrightarrow>
   \<exists>p'. consumeGrant i a now p = (Inr (), p') \<and> only_grant p i (\<lambda>g. limited_token g \<and> gt_status g = GS_CONSUMED) p'"
  by (simp add: consumeGrant_def limited_token_def only_grant_put)

lemma release_any:
  "grant_of p i = Some gr \<Longrightarrow> limited_token gr \<Longrightarrow>
   \<exists>p'. releaseGrantForRetry i a now p = (Inr (), p') \<and> only_grant p i (\<lambda>g. limited_token g \<and> gt_status g = GS_ACTIVE) p'"
  by (simp add: releaseGrantForRetry_def limited_token_def only_grant_put)

lemma reconcile_any:
  "grant_of p i = Some gr \<Longrightarrow> limited_token gr \<Longrightarrow>
   \<exists>p'. requireReconciliation i a now p = (Inr (), p') \<and>
     only_grant p i (\<lambda>g. limited_token g \<and> gt_status g = GS_RECONCILIATION_REQUIRED) p'"
  by (simp add: requireReconciliation_def limited_token_def only_grant_put)

text \<open>The status in which an execution leaves its grant.\<close>

definition status_after :: "tool_status \<Rightarrow> grant_status" where
  "status_after st = (case st of TS_SUCCEEDED \<Rightarrow> GS_CONSUMED | TS_CANCELLED \<Rightarrow> GS_ACTIVE | _ \<Rightarrow> GS_RECONCILIATION_REQUIRED)"

definition uses_grant :: "('l, 'x) gateway \<Rightarrow> verdict_of_policy \<Rightarrow> string \<Rightarrow> string \<Rightarrow> bool" where
  "uses_grant g v i a \<longleftrightarrow> gw_consumer g \<and> vp_actionId v = Some a \<and> a \<noteq> [] \<and> vp_grant v = Some i \<and> i \<noteq> []"

lemma with_grant_used: "uses_grant g v i a \<Longrightarrow> with_grant g v f (p, l, x) =
    (case f i a p of (Inl e, p') \<Rightarrow> (Inl (GrantError e), (p', l, x)) | (Inr u, p') \<Rightarrow> (Inr u, (p', l, x)))"
  by (simp add: uses_grant_def with_grant_def on_owner_def)

lemma settle_reserved:
  assumes "uses_grant g v i a" "grant_of p i = Some gr" "limited_token gr" "gt_status gr = GS_RESERVED"
    and "gt_reservedForActionId gr = Some a"
  shows "\<exists>p'. settle_grant g v st now (p, l, x) = (Inr (), (p', l, x)) \<and>
    only_grant p i (\<lambda>g. limited_token g \<and> gt_status g = status_after st) p'"
proof (cases "st = TS_SUCCEEDED \<or> st = TS_CANCELLED")
  case True
  then show ?thesis
    using consume_reserved [OF assms(2-5), of now] release_any [OF assms(2,3), of a now]
    by (auto simp: settle_grant_def with_grant_used [OF assms(1)] status_after_def)
next
  case False
  then show ?thesis
    using reconcile_any [OF assms(2,3), of a now]
    by (cases st) (auto simp: settle_grant_def with_grant_used [OF assms(1)] status_after_def)
qed

text \<open>Recording the execution: the grant keeps its status, or needs reconciliation when the record cannot be written.\<close>

definition audit_write_fails :: "('l, 'x) gateway \<Rightarrow> string \<Rightarrow> tool_result \<Rightarrow> int \<Rightarrow> 'l \<Rightarrow> bool" where
  "audit_write_fails g a clean now l =
     (case gw_audit g of None \<Rightarrow> False | Some ops \<Rightarrow> isl (fst (al_recordExecuted ops a clean now l)))"

lemma record_execution_effect:
  assumes "uses_grant g v i a" "grant_of p i = Some gr" "limited_token gr"
    and "record_execution g v clean now (p, l, x) = (r, (p', l', x'))"
  shows "x' = x \<and> (p' = p \<and> r = Inr clean \<or>
    only_grant p i (\<lambda>g. limited_token g \<and> gt_status g = GS_RECONCILIATION_REQUIRED) p' \<and>
    (\<forall>res. r = Inr res \<longrightarrow> tx_status res = TS_UNKNOWN) \<and> audit_write_fails g a clean now l)"
proof -
  have act: "truthy (vp_actionId v)" "or_empty (vp_actionId v) = a" using assms(1) by (simp_all add: uses_grant_def)
  let ?rec = "case gw_audit g of None \<Rightarrow> act_return () | Some ops \<Rightarrow> on_audit (al_recordExecuted ops a clean now)"
  let ?lost = "\<lambda>e. clean\<lparr>tx_status := TS_UNKNOWN,
      tx_summary := tx_summary clean @ [CHR 0x0A] @ ''[AUDIT PERSISTENCE FAILED: '' @
        (case e of AuditError m \<Rightarrow> m | _ \<Rightarrow> []) @ '']'', tx_reconciliationRequired := True\<rparr>"
  have eq: "record_execution g v clean now = act_try ?rec (\<lambda>_. act_return clean)
      (\<lambda>e. act_bind (with_grant g v (\<lambda>i a. requireReconciliation i a now)) (\<lambda>_. of_sum (parse_result (?lost e))))"
    unfolding record_execution_def act(2) by (rule if_not_P) (simp add: act(1))
  obtain o1 p1 l1 x1 where o1: "?rec (p, l, x) = (o1, (p1, l1, x1))" by (metis prod_cases4)
  have same: "p1 = p \<and> x1 = x"
    using o1 by (auto simp: on_audit_def act_return_def split: option.splits prod.splits sum.splits)
  show ?thesis
  proof (cases o1)
    case (Inr u)
    have "record_execution g v clean now (p, l, x) = (Inr clean, (p1, l1, x1))"
      unfolding eq act_try_def o1 Inr by (simp add: act_return_def)
    then show ?thesis using assms(4) same by simp
  next
    case (Inl e)
    obtain p2 where p2: "requireReconciliation i a now p = (Inr (), p2)"
      "only_grant p i (\<lambda>g. limited_token g \<and> gt_status g = GS_RECONCILIATION_REQUIRED) p2"
      using reconcile_any [OF assms(2,3)] by blast
    have "with_grant g v (\<lambda>i a. requireReconciliation i a now) (p, l1, x) = (Inr (), (p2, l1, x))"
      by (simp add: with_grant_used [OF assms(1)] p2)
    then have "record_execution g v clean now (p, l, x) = (parse_result (?lost e), (p2, l1, x))"
      unfolding eq act_try_def o1 Inl using same by (simp add: act_bind_def of_sum_def)
    moreover have "audit_write_fails g a clean now l"
      using o1 Inl by (auto simp: audit_write_fails_def on_audit_def act_return_def
          split: option.splits prod.splits sum.splits)
    ultimately show ?thesis using assms(4) p2(2) by (auto simp: parse_result_def split: if_splits)
  qed
qed

text \<open>The grant an ALLOW names is ACTIVE, is not the multi-use one, and belongs to the request's task.\<close>

lemma granted_is_active:
  assumes "owner_inv p" "pd_decision (policy_decision_of p aid q) = PD_ALLOW"
    and "pd_grantedByAuthorityId (policy_decision_of p aid q) = Some i"
  shows "\<exists>gr. grant_of p i = Some gr \<and> gt_status gr = GS_ACTIVE \<and> limited_token gr"
proof -
  let ?ctx = "readOnlyView p" and ?r = "bridgeToActionRequest aid q"
  have "check_tokens ?ctx ?r (classify ?r) (classify ?r) None = Inr (Some i)"
    using evaluate_granted [of ?ctx ?r] assms(2,3) by (simp add: policy_decision_of_def)
  from check_tokens_granted [OF this] obtain c t v where con: "consumes_grant c t"
    and v: "v \<in> set (cx_activeAuthorities ?ctx)" and m: "grant_matches ?r (cx_gate ?ctx) c t v" and i: "i = gv_grantId v"
    by blast
  have "v \<in> view_of_grant ` set (ow_grants p)" using v by (simp add: readOnlyView_def)
  then obtain j gr where gr: "(j, gr) \<in> set (ow_grants p)" "v = view_of_grant (j, gr)" by force
  have "j = i" using gr(2) i by (simp add: view_of_grant_def)
  moreover have "gt_status gr = GS_ACTIVE" "gt_token gr = t"
    using m gr(2) unfolding grant_matches_def view_of_grant_def by (simp_all split: if_splits)
  ultimately show ?thesis
    using grant_of_in [OF assms(1) gr(1)] con by (simp add: consumes_grant_def limited_token_def) auto
qed


lemma only_grant_Some: "only_grant p i P p' \<Longrightarrow> \<exists>gr. grant_of p' i = Some gr \<and> P gr"
  by (simp add: only_grant_def)

lemma only_grant_self: "grant_of p i = Some gr \<Longrightarrow> P gr \<Longrightarrow> only_grant p i P p"
  by (simp add: only_grant_def)

text \<open>An allowed call that uses a limited grant, up to the record of the execution.\<close>

lemma allowed_call:
  assumes cfg: "gw_policy g = ActionPolicy" "gw_consumer g" "valid_request q" "aid \<noteq> []" "i \<noteq> []" "owner_inv p"
    and allow: "pd_decision (policy_decision_of p aid q) = PD_ALLOW"
    and granted: "pd_grantedByAuthorityId (policy_decision_of p aid q) = Some i"
    and rec: "record_proposed g (proposed_entry p aid q now) l = (Inr u, l1)"
    and ad: "adapter_of g (tq_toolId q) = Some adapter"
    and out: "adapter (authorized_for p aid q) x = (out, x1)"
    and call: "gateway_execute g q aid now (p, l, x) = (r, (p', l', x'))"
  shows "x' = x1 \<and> (case out of
      Inl e \<Rightarrow> r = Inl (AdapterError e) \<and> only_grant p i (\<lambda>gr. gt_status gr = GS_RECONCILIATION_REQUIRED) p'
    | Inr res \<Rightarrow>
        if \<not> valid_result res then r = Inl ZodError \<and> only_grant p i (\<lambda>gr. gt_status gr = GS_RESERVED) p'
        else only_grant p i (\<lambda>gr. gt_status gr = status_after (tx_status res)) p' \<and> r = Inr (sanitize g res) \<or>
             only_grant p i (\<lambda>gr. gt_status gr = GS_RECONCILIATION_REQUIRED) p' \<and>
             (\<forall>res. r = Inr res \<longrightarrow> tx_status res = TS_UNKNOWN) \<and> audit_write_fails g aid (sanitize g res) now l1)"
proof -
  let ?v = "verdict_for p aid q"
  have used: "uses_grant g ?v i aid" using cfg granted by (simp add: uses_grant_def verdict_for_def Let_def)
  obtain gr where gr: "grant_of p i = Some gr" "gt_status gr = GS_ACTIVE" "limited_token gr"
    using granted_is_active [OF cfg(6) allow granted] by blast
  obtain p1 where p1: "reserveGrant i aid now p = (Inr (), p1)"
    "only_grant p i (\<lambda>g. limited_token g \<and> gt_status g = GS_RESERVED \<and> gt_reservedForActionId g = Some aid) p1"
    using reserve_active [OF gr(1,3,2)] by blast
  then obtain gr1 where gr1: "grant_of p1 i = Some gr1" "limited_token gr1" "gt_status gr1 = GS_RESERVED"
    "gt_reservedForActionId gr1 = Some aid" by (auto dest: only_grant_Some)
  have res: "with_grant g ?v (\<lambda>i a. reserveGrant i a now) (p, l1, x) = (Inr (), (p1, l1, x))"
    by (simp add: with_grant_used [OF used] p1)
  have step: "gateway_execute g q aid now (p, l, x) =
      act_try (on_adapter (adapter (authorized_for p aid q)))
        (\<lambda>result. act_bind (of_sum (parse_result result)) (\<lambda>parsed.
           act_bind (settle_grant g ?v (tx_status parsed) now) (\<lambda>_. record_execution g ?v (sanitize g parsed) now)))
        (\<lambda>e. act_bind (with_grant g ?v (\<lambda>i a. requireReconciliation i a now)) (\<lambda>_. act_throw e)) (p1, l1, x)"
    using allow by (simp add: gateway_action_eq [OF cfg(1,3)] rec ad act_bind_def [of "with_grant _ _ _"] res)
  show ?thesis
  proof (cases out)
    case (Inl e)
    obtain p2 where p2: "requireReconciliation i aid now p1 = (Inr (), p2)"
      "only_grant p1 i (\<lambda>g. limited_token g \<and> gt_status g = GS_RECONCILIATION_REQUIRED) p2"
      using reconcile_any [OF gr1(1,2)] by blast
    have "gateway_execute g q aid now (p, l, x) = (Inl (AdapterError e), (p2, l1, x1))"
      unfolding step by (simp add: act_try_def on_adapter_def out Inl act_bind_def with_grant_used [OF used] p2 act_throw_def)
    then show ?thesis using call Inl only_grant_trans [OF p1(2) p2(2)] by (auto simp: only_grant_def)
  next
    case (Inr res)
    have on: "on_adapter (adapter (authorized_for p aid q)) (p1, l1, x) = (Inr res, (p1, l1, x1))"
      by (simp add: on_adapter_def out Inr)
    show ?thesis
    proof (cases "valid_result res")
      case False
      then have "gateway_execute g q aid now (p, l, x) = (Inl ZodError, (p1, l1, x1))"
        unfolding step by (simp add: act_try_def on parse_result_def)
      then show ?thesis using call Inr False p1(2) by (auto simp: only_grant_def)
    next
      case True
      obtain p2 where p2: "settle_grant g ?v (tx_status res) now (p1, l1, x1) = (Inr (), (p2, l1, x1))"
        "only_grant p1 i (\<lambda>g. limited_token g \<and> gt_status g = status_after (tx_status res)) p2"
        using settle_reserved [OF used gr1] by blast
      have p02: "only_grant p i (\<lambda>g. limited_token g \<and> gt_status g = status_after (tx_status res)) p2"
        using only_grant_trans [OF p1(2) p2(2)] .
      obtain gr2 where gr2: "grant_of p2 i = Some gr2" "limited_token gr2" using p02 by (auto dest: only_grant_Some)
      have "record_execution g ?v (sanitize g res) now (p2, l1, x1) = (r, (p', l', x'))"
        using call unfolding step
        by (simp add: act_try_def on parse_result_def True act_bind_def [of "settle_grant _ _ _ _"] p2(1))
      from record_execution_effect [OF used gr2 this] p02 show ?thesis
        using only_grant_trans [OF p02] Inr True by (auto simp: only_grant_def)
    qed
  qed
qed

end
