(* ===== verification/Governed_Runs.thy ===== *)
theory Governed_Runs
  imports Tool_Gateway
begin

text \<open>
  Runs of a governed task: the gateway, the owner processor, the ledger and the outside world over
  time, and the properties of a call and of whole runs.
\<close>

lemma keeps_of_sum [keeps]: "act_keeps P (of_sum r)" by (simp add: act_keeps_def of_sum_def)

definition gw_inv :: "('l, 'x) gw_world \<Rightarrow> bool" where
  "gw_inv w \<longleftrightarrow> owner_inv (fst w) \<and> grant_of (fst w) [] = None"

lemma keeps_on_audit [keeps]: "act_keeps gw_inv (on_audit m)"
  by (auto simp: act_keeps_def on_audit_def gw_inv_def split: prod.split sum.split)

lemma keeps_on_adapter [keeps]: "act_keeps gw_inv (on_adapter m)"
  by (auto simp: act_keeps_def on_adapter_def gw_inv_def split: prod.split sum.split)

lemma keeps_on_owner:
  "(\<And>p. owner_inv p \<Longrightarrow> grant_of p [] = None \<Longrightarrow> owner_inv (snd (m p)) \<and> grant_of (snd (m p)) [] = None) \<Longrightarrow>
   act_keeps gw_inv (on_owner m)"
  by (auto simp: act_keeps_def on_owner_def gw_inv_def split: prod.split sum.split) (metis snd_conv)+

lemma keeps_grant_ops [keeps]:
  "act_keeps gw_inv (on_owner (reserveGrant i a now))" "act_keeps gw_inv (on_owner (consumeGrant i a now))"
  "act_keeps gw_inv (on_owner (releaseGrantForRetry i a now))" "act_keeps gw_inv (on_owner (requireReconciliation i a now))"
  by (rule keeps_on_owner, rule conjI, blast intro: owner_inv_step owner_step.intros,
      auto simp: owner_ops split: option.split)+

lemma keeps_with_grant [keeps]:
  fixes g :: "('l, 'x) gateway"
  assumes "\<And>i a. act_keeps gw_inv (on_owner (f i a) :: (('l, 'x) gw_world, gateway_error, unit) act)"
  shows "act_keeps gw_inv (with_grant g v f)"
  using assms
  by (simp add: with_grant_def keeps_return)

lemma keeps_settle_grant [keeps]: "act_keeps gw_inv (settle_grant g v st now)"
  unfolding settle_grant_def by (cases st) (auto intro!: keeps)

lemma keeps_record_execution [keeps]: "act_keeps gw_inv (record_execution g v r now)"
  unfolding record_execution_def by (auto intro!: keeps split: option.split)

lemma gateway_keeps_inv:
  assumes "gw_policy g = ActionPolicy" "gw_inv w"
  shows "gw_inv (snd (gateway_execute g q aid now w))"
proof (cases "valid_request q")
  case True
  obtain p l x where w: "w = (p, l, x)" by (cases w) auto
  have inv': "gw_inv (p, l', x)" for l' :: 'a using assms(2) by (simp add: w gw_inv_def)
  have keep: "act_keeps gw_inv m \<Longrightarrow> gw_inv (snd (m (p, l', x)))"
    for m :: "(('a, 'b) gw_world, gateway_error, tool_result) act" and l'
    using inv' by (simp add: act_keeps_def)
  show ?thesis unfolding w gateway_action_eq [OF assms(1) True]
    by (auto simp: inv' intro!: keep keeps split: prod.split sum.split option.split)
qed (simp add: gateway_execute_def act_throw_def assms)

section \<open>Runs of the governed system\<close>

text \<open>
  What happens to a governed task over time: calls of the gateway, owner events of every kind, revocations, and changes of the
  ledger and of the outside world. The processor keeps no list of the events it has applied (\<^verbatim>\<open>owner-event-processor.ts\<close>), so a sealed
  event may be applied again; a step is labelled with the ids of the authority events it applies. An event id is never empty: the
  issuer takes it from \<open>randomUUID\<close>.
\<close>

definition authority_ids :: "owner_event \<Rightarrow> string list" where
  "authority_ids ev = (case ev of SealedOwnerAuthorityEvent e \<Rightarrow> [ae_eventId e] | _ \<Rightarrow> [])"

inductive gw_step :: "('l, 'x) gateway \<Rightarrow> ('l, 'x) gw_world \<Rightarrow> string list \<Rightarrow> ('l, 'x) gw_world \<Rightarrow> bool" for g where
  gs_call: "aid \<noteq> [] \<Longrightarrow> gw_step g w [] (snd (gateway_execute g q aid now w))"
| gs_authority: "[] \<notin> set (authority_ids ev) \<Longrightarrow>
    gw_step g (p, l, x) (authority_ids ev) (snd (applyOwnerAuthorityEvent ev now p), l, x)"
| gs_gate: "gw_step g (p, l, x) [] (snd (transitionGateFromEvent ev now p), l, x)"
| gs_scope: "gw_step g (p, l, x) [] (snd (setApprovedScopeFromPlan ev now p), l, x)"
| gs_revoke: "gw_step g (p, l, x) [] (revokeGrant token now p, l, x)"
| gs_outside: "gw_step g (p, l, x) [] (p, l', x')"

text \<open>The runs between two worlds, with the ids of all authority events applied on the way.\<close>

inductive gw_reach :: "('l, 'x) gateway \<Rightarrow> ('l, 'x) gw_world \<Rightarrow> string list \<Rightarrow> ('l, 'x) gw_world \<Rightarrow> bool" for g where
  gr_here: "gw_reach g w [] w"
| gr_next: "gw_reach g w applied w' \<Longrightarrow> gw_step g w' ids w'' \<Longrightarrow> gw_reach g w (applied @ ids) w''"

definition spent :: "owner_processor \<Rightarrow> string \<Rightarrow> bool" where
  "spent p i \<longleftrightarrow> (\<exists>gr. grant_of p i = Some gr \<and> gt_status gr \<notin> {GS_ACTIVE, GS_ISSUED})"

lemma with_grant_unused: "vp_grant v = None \<Longrightarrow> with_grant g v f w = (Inr (), w)"
  by (simp add: with_grant_def act_return_def)

text \<open>A call under a decision that names no grant leaves the owner's state alone.\<close>

lemma ungranted_call:
  assumes cfg: "gw_policy g = ActionPolicy" and none: "pd_grantedByAuthorityId (policy_decision_of p aid q) = None"
    and call: "gateway_execute g q aid now (p, l, x) = (r, (p', l', x'))"
  shows "p' = p"
proof (cases "valid_request q")
  case True
  have v: "vp_grant (verdict_for p aid q) = None" using none by (simp add: verdict_for_def Let_def)
  show ?thesis using call
    by (auto simp: gateway_action_eq [OF cfg True] act_bind_def act_try_def on_adapter_def with_grant_unused [OF v]
        settle_grant_def of_sum_def act_throw_def record_execution_def act_return_def on_audit_def
        split: sum.splits if_splits option.splits prod.splits)
qed (use call in \<open>simp add: gateway_execute_def act_throw_def\<close>)

text \<open>A call changes at most the one grant it uses, which was ACTIVE.\<close>

lemma call_changes_active:
  assumes cfg: "gw_policy g = ActionPolicy" "gw_consumer g" "aid \<noteq> []" "gw_inv (p, l, x)"
    and call: "gateway_execute g q aid now (p, l, x) = (r, (p', l', x'))" and s: "spent p i"
  shows "grant_of p' i = grant_of p i"
proof (cases "valid_request q")
  case True
  have inv: "owner_inv p" "grant_of p [] = None" using cfg(4) by (simp_all add: gw_inv_def)
  obtain o1 l1 where rec: "record_proposed g (proposed_entry p aid q now) l = (o1, l1)" by fastforce
  show ?thesis
  proof (cases "isl o1 \<or> pd_decision (policy_decision_of p aid q) \<noteq> PD_ALLOW \<or> adapter_of g (tq_toolId q) = None")
    case True
    then show ?thesis using call rec
      by (auto simp: gateway_action_eq [OF cfg(1) \<open>valid_request q\<close>] split: sum.splits if_splits)
  next
    case False
    then obtain ad where allow: "pd_decision (policy_decision_of p aid q) = PD_ALLOW" and
      ad: "adapter_of g (tq_toolId q) = Some ad" and o1: "o1 = Inr ()" by (cases o1) auto
    obtain out x1 where out: "ad (authorized_for p aid q) x = (out, x1)" by fastforce
    show ?thesis
    proof (cases "pd_grantedByAuthorityId (policy_decision_of p aid q)")
      case None
      show ?thesis using ungranted_call [OF cfg(1) None call] by simp
    next
      case (Some j)
      obtain gj where gj: "grant_of p j = Some gj" "gt_status gj = GS_ACTIVE"
        using granted_is_active [OF inv(1) allow Some] by blast
      have j: "j \<noteq> []" "j \<noteq> i" using gj inv(2) s by (auto simp: spent_def)
      have "\<exists>P. only_grant p j P p'"
        using allowed_call [OF cfg(1,2) \<open>valid_request q\<close> cfg(3) j(1) inv(1) allow Some rec [unfolded o1] ad out call]
        by (auto split: sum.splits if_splits)
      then show ?thesis using j(2) by (auto simp: only_grant_def)
    qed
  qed
qed (use call in \<open>simp add: gateway_execute_def act_throw_def\<close>)

lemma gw_inv_step:
  "gw_step g w ids w' \<Longrightarrow> gw_policy g = ActionPolicy \<Longrightarrow> gw_inv w \<Longrightarrow> gw_inv w'"
proof (induction rule: gw_step.induct)
  case (gs_authority ev p l x now)
  then show ?case using owner_inv_step [OF os_authority, of p ev now]
    by (auto simp: gw_inv_def authority_ids_def applyOwnerAuthorityEvent_def split: owner_event.splits)
next
  case (gs_gate p l x ev now)
  then show ?case using owner_inv_step [OF os_gate, of p ev now]
    by (auto simp: gw_inv_def transitionGateFromEvent_def Let_def split: owner_event.splits option.splits)
next
  case (gs_scope p l x ev now)
  then show ?case using owner_inv_step [OF os_scope, of p ev now]
    by (auto simp: gw_inv_def setApprovedScopeFromPlan_def split: owner_event.splits)
next
  case (gs_revoke p l x token now)
  have "grant_of p [] = None" "owner_inv p" using gs_revoke(2) by (simp_all add: gw_inv_def)
  then show ?case using owner_inv_step [OF os_revoke, of p token now]
    by (auto simp: gw_inv_def revokeGrant_def split: option.split dest!: find_SomeD grant_of_in)
qed (auto simp: gw_inv_def gateway_keeps_inv [unfolded gw_inv_def])

lemma spent_step:
  "gw_step g w ids w' \<Longrightarrow> gw_policy g = ActionPolicy \<Longrightarrow> gw_consumer g \<Longrightarrow> gw_inv w \<Longrightarrow> spent (fst w) i \<Longrightarrow>
   i \<notin> set ids \<Longrightarrow> spent (fst w') i"
proof (induction rule: gw_step.induct)
  case (gs_call aid w q now)
  obtain p l x where w: "w = (p, l, x)" by (cases w) auto
  obtain r p' l' x' where call: "gateway_execute g q aid now (p, l, x) = (r, (p', l', x'))" by (metis prod_cases4)
  have "grant_of p' i = grant_of p i"
    using call_changes_active [OF gs_call(2,3,1) gs_call(4) [unfolded w] call] gs_call(5) w by simp
  then show ?case using gs_call(5) by (simp add: w call spent_def)
next
  case (gs_authority ev p l x now)
  then show ?case
    by (auto simp: spent_def authority_ids_def applyOwnerAuthorityEvent_def split: owner_event.splits)
next
  case (gs_gate p l x ev now)
  then show ?case
    by (auto simp: spent_def transitionGateFromEvent_def Let_def split: owner_event.splits option.splits)
next
  case (gs_scope p l x ev now)
  then show ?case by (auto simp: spent_def setApprovedScopeFromPlan_def split: owner_event.splits)
next
  case (gs_revoke p l x token now)
  have inv: "owner_inv p" using gs_revoke(3) by (simp add: gw_inv_def)
  show ?case using gs_revoke
    by (auto simp: spent_def revokeGrant_def split: option.split dest!: find_SomeD dest: grant_of_in [OF inv])
qed auto

lemma spent_reach:
  "gw_reach g w applied w' \<Longrightarrow> gw_policy g = ActionPolicy \<Longrightarrow> gw_consumer g \<Longrightarrow> gw_inv w \<Longrightarrow> spent (fst w) i \<Longrightarrow>
   gw_inv w' \<and> (i \<notin> set applied \<longrightarrow> spent (fst w') i)"
  by (induction rule: gw_reach.induct) (auto intro: spent_step gw_inv_step)

section \<open>Properties\<close>

definition sample_commit_ready :: owner_processor where
  "sample_commit_ready =
     snd (transitionGateFromEvent (issueGateTransitionEvent sample_issuer G_OWNER_PRECOMMIT G_COMMIT ''k'' ''e'' 3) 4
    (snd (setApprovedScopeFromPlan (issueApprovedScopeEvent sample_issuer [''f''] ''k'' ''s'' 3) 4 sample_precommit)))"

definition sample_tool_request :: "string \<Rightarrow> (string \<times> json) list \<Rightarrow> tool_request" where
  "sample_tool_request op params =
     \<lparr>tq_schemaVersion = ''1.0.0'', tq_requestId = ''r'', tq_projectId = ''p'', tq_actorRef = ''a'', tq_workItemRef = ''t'',
      tq_workPackageRef = ''w'', tq_toolId = ''git'', tq_operationId = op, tq_targetResource = ''r'', tq_environment = ''l'',
      tq_parameters = params, tq_authorityContextRef = ''c'', tq_idempotencyKey = ''y'', tq_correlationId = ''k''\<rparr>"

definition sample_commit_request :: tool_request where
  "sample_commit_request = sample_tool_request ''git.commit'' [(''file'', JStr ''f'')]"

text \<open>An outside world that logs the operations it was asked for.\<close>

definition sample_git_adapter :: "(string + tool_status) \<Rightarrow> string list tool_adapter" where
  "sample_git_adapter out a xs =
     (map_sum id (\<lambda>st. plain_result (az_request a) ''n'' st ''d'') out, xs @ [tq_operationId (az_request a)])"

definition sample_gateway :: "(string + tool_status) \<Rightarrow> (memory_ledger, string list) gateway" where
  "sample_gateway out = createProductionGateway [(''git'', sample_git_adapter out)] mem_ops True None"

lemma sample_gateway_sel [simp]:
  "gw_policy (sample_gateway out) = ActionPolicy" "gw_consumer (sample_gateway out)"
  "gw_audit (sample_gateway out) = Some mem_ops"
  "adapter_of (sample_gateway out) ''git'' = Some (sample_git_adapter out)"
  by (simp_all add: sample_gateway_def createProductionGateway_def adapter_of_def)

lemma sample_request_valid: "valid_request sample_commit_request"
  by (simp add: valid_request_def sample_commit_request_def sample_tool_request_def)

lemma sample_ready_inv: "owner_inv sample_commit_ready"
  unfolding sample_commit_ready_def by (intro owner_inv_step [OF os_gate] owner_inv_step [OF os_scope] sample_precommit_inv)

definition allows_with :: "action_policy_decision \<Rightarrow> string \<Rightarrow> bool" where
  "allows_with d i \<longleftrightarrow> pd_decision d = PD_ALLOW \<and> pd_grantedByAuthorityId d = Some i"

lemma sample_denied: "pd_decision (evaluate (readOnlyView sample_precommit) (bridgeToActionRequest ''x'' sample_commit_request)) \<noteq> PD_ALLOW"
  by code_simp

lemma sample_allowed:
  "pd_decision (evaluate (readOnlyView sample_commit_ready) (bridgeToActionRequest ''x'' sample_commit_request)) = PD_ALLOW"
  "pd_grantedByAuthorityId (evaluate (readOnlyView sample_commit_ready) (bridgeToActionRequest ''x'' sample_commit_request)) = Some ''g''"
proof -
  have "allows_with (evaluate (readOnlyView sample_commit_ready) (bridgeToActionRequest ''x'' sample_commit_request)) ''g''"
    by code_simp
  then show
    "pd_decision (evaluate (readOnlyView sample_commit_ready) (bridgeToActionRequest ''x'' sample_commit_request)) = PD_ALLOW"
    "pd_grantedByAuthorityId (evaluate (readOnlyView sample_commit_ready) (bridgeToActionRequest ''x'' sample_commit_request)) = Some ''g''"
    by (simp_all add: allows_with_def)
qed

text \<open>
  C7: unless the policy says ALLOW, no adapter is called and no grant changes: the call answers DENIED with the policy's
  rule (or FAILED when the audit record could not be written), without side effects.
\<close>

theorem denied_never_reaches_adapter:
  assumes "gw_policy g = ActionPolicy" "valid_request q"
    and "pd_decision (evaluate (readOnlyView p) (bridgeToActionRequest aid q)) \<noteq> PD_ALLOW"
    and "gateway_execute g q aid now (p, l, x) = (r, (p', l', x'))"
  shows "p' = p \<and> x' = x \<and> (\<exists>res. r = Inr res \<and> tx_sideEffects res = [] \<and>
    (tx_status res = TS_DENIED \<and> tx_summary res = ''Tool execution denied: '' @
        pd_policyRule (evaluate (readOnlyView p) (bridgeToActionRequest aid q)) \<or> tx_status res = TS_FAILED))"
  using assms(3,4) unfolding gateway_action_eq [OF assms(1,2)]
  by (auto simp: policy_decision_of_def plain_result_def split: prod.splits sum.splits)

lemma denied_never_reaches_adapter_witness:
  "snd (snd (snd (gateway_execute (sample_gateway (Inr TS_SUCCEEDED)) sample_commit_request ''x'' 9
     (sample_precommit, [], [])))) = []"
proof -
  let ?c = "gateway_execute (sample_gateway (Inr TS_SUCCEEDED)) sample_commit_request ''x'' 9 (sample_precommit, [], [])"
  obtain r p' l' x' where c: "?c = (r, (p', l', x'))" by (metis prod_cases4)
  show ?thesis using denied_never_reaches_adapter [OF _ sample_request_valid sample_denied c] c by simp
qed

lemma mem_proposed: "gw_audit g = Some mem_ops \<Longrightarrow> \<exists>l'. record_proposed g e l = (Inr (), l') \<and>
    map_option au_actionId (jm_get l' (au_actionId e)) = Some (au_actionId e)"
  by (simp add: record_proposed_def mem_ops_def mem_recordProposed_def)

text \<open>
  C8: the life of a grant over one call. When ALLOW rests on grant \<open>i\<close> and the ledger is the in-memory one, the adapter is
  called once with the authorized request and afterwards the grant is CONSUMED if it succeeded, ACTIVE again if it
  was cancelled, in need of reconciliation if it threw or answered anything else, and still RESERVED if its answer
  was malformed; no other grant, nor the gate, has changed.
\<close>

theorem grant_follows_execution:
  assumes "gw_policy g = ActionPolicy" "gw_consumer g" "gw_audit g = Some mem_ops" "valid_request q" "aid \<noteq> []" "i \<noteq> []"
    and "owner_inv p" and "pd_decision (evaluate (readOnlyView p) (bridgeToActionRequest aid q)) = PD_ALLOW"
    and "pd_grantedByAuthorityId (evaluate (readOnlyView p) (bridgeToActionRequest aid q)) = Some i"
    and "adapter_of g (tq_toolId q) = Some adapter" and "adapter (authorized_for p aid q) x = (out, x1)"
    and "gateway_execute g q aid now (p, l, x) = (r, (p', l', x'))"
  shows "x' = x1 \<and> ow_gate p' = ow_gate p \<and> (\<forall>j. j \<noteq> i \<longrightarrow> grant_of p' j = grant_of p j) \<and>
    (case out of
       Inl e \<Rightarrow> r = Inl (AdapterError e) \<and> map_option gt_status (grant_of p' i) = Some GS_RECONCILIATION_REQUIRED
     | Inr res \<Rightarrow>
         if valid_result res then r = Inr (sanitize g res) \<and> map_option gt_status (grant_of p' i) =
           Some (case tx_status res of TS_SUCCEEDED \<Rightarrow> GS_CONSUMED | TS_CANCELLED \<Rightarrow> GS_ACTIVE | _ \<Rightarrow> GS_RECONCILIATION_REQUIRED)
         else r = Inl ZodError \<and> map_option gt_status (grant_of p' i) = Some GS_RESERVED)"
proof -
  obtain l1 where rec: "record_proposed g (proposed_entry p aid q now) l = (Inr (), l1)"
    using mem_proposed [OF assms(3)] by blast
  have "\<not> audit_write_fails g aid c now l1" for c
    by (simp add: audit_write_fails_def assms(3) mem_ops_def mem_recordExecuted_def split: option.split)
  then show ?thesis
    using allowed_call [OF assms(1,2,4-7) assms(8,9) [folded policy_decision_of_def] rec assms(10-12)]
    by (cases out) (auto simp: only_grant_def status_after_def split: if_splits)
qed

lemma grant_follows_execution_witness:
  "\<forall>st. let (r, p', l', x') = gateway_execute (sample_gateway (Inr st)) sample_commit_request ''x'' 9 (sample_commit_ready, [], [])
     in x' = [''git.commit''] \<and> (st = TS_SUCCEEDED \<longrightarrow> map_option gt_status (grant_of p' ''g'') = Some GS_CONSUMED)"
proof
  fix st
  let ?g = "sample_gateway (Inr st)"
  obtain r p' l' x' where c: "gateway_execute ?g sample_commit_request ''x'' 9 (sample_commit_ready, [], []) = (r, (p', l', x'))"
    by (metis prod_cases4)
  let ?az = "authorized_for sample_commit_ready ''x'' sample_commit_request"
  have ad: "adapter_of ?g (tq_toolId sample_commit_request) = Some (sample_git_adapter (Inr st))"
    by (simp add: sample_commit_request_def sample_tool_request_def)
  have az: "az_request ?az = sample_commit_request" by (simp add: authorized_for_def)
  have out: "sample_git_adapter (Inr st) ?az [] = (Inr (plain_result sample_commit_request ''n'' st ''d''), [''git.commit''])"
    by (simp add: sample_git_adapter_def az) (simp add: sample_commit_request_def sample_tool_request_def)
  have "valid_result (plain_result sample_commit_request ''n'' st ''d'')"
    by (simp add: valid_result_def plain_result_def sample_commit_request_def sample_tool_request_def)
  then show "let (r, p', l', x') = gateway_execute ?g sample_commit_request ''x'' 9 (sample_commit_ready, [], [])
     in x' = [''git.commit''] \<and> (st = TS_SUCCEEDED \<longrightarrow> map_option gt_status (grant_of p' ''g'') = Some GS_CONSUMED)"
    using grant_follows_execution [OF _ _ _ sample_request_valid _ _ sample_ready_inv sample_allowed ad out c]
    by (auto simp: c plain_result_def)
qed


definition sample_authority :: owner_event where
  "sample_authority = issueAuthorityEvent sample_issuer OWNER_COMMIT_APPROVED (Some G_COMMIT) (Some ''GIT_COMMIT'') ''k'' ''g'' 1"

text \<open>The call has succeeded on the grant; the sealed event applied once more makes the request allowed on it again.\<close>

definition paid_twice :: "(gateway_error + tool_result) \<Rightarrow> (memory_ledger, string list) gw_world \<Rightarrow> bool" where
  "paid_twice r w \<longleftrightarrow> (case r of Inr res \<Rightarrow> tx_status res = TS_SUCCEEDED | Inl _ \<Rightarrow> False) \<and>
     allows_with (evaluate (readOnlyView (snd (applyOwnerAuthorityEvent sample_authority 10 (fst w))))
       (bridgeToActionRequest ''y'' sample_commit_request)) ''g''"

lemma sample_paid:
  "case gateway_execute (sample_gateway (Inr TS_SUCCEEDED)) sample_commit_request ''x'' 9 (sample_commit_ready, [], []) of
     (r, w) \<Rightarrow> paid_twice r w"
  by code_simp


section \<open>What the bridge loses\<close>

text \<open>
  The operation ids that the structured Git adapter serves reach the classifier as \<open>push_main\<close> and \<open>stage_paths\<close>,
  which are none of its Git verbs, and a parameter \<open>subcommand\<close> replaces the operation altogether.
\<close>

lemma structured_push_is_local_mutation:
  "classify (bridgeToActionRequest ''x'' (sample_tool_request ''git.push_main'' [])) = [LOCAL_MUTATION]"
  "classify (bridgeToActionRequest ''x'' (sample_tool_request ''git.stage_paths'' [])) = [LOCAL_MUTATION]"
  by code_simp+

lemma subcommand_parameter_hides_commit:
  "classify (bridgeToActionRequest ''x'' (sample_tool_request ''git.commit'' [(''subcommand'', JStr ''status'')])) = [READ_ONLY]"
  by code_simp
end
