(* ===== verification/Event_Ledger.thy ===== *)
theory Event_Ledger
  imports Domain_Model
begin

text \<open>
  Event ledgers: the interface \<open>EventLedger\<close> with its in-memory version
  (\<^verbatim>\<open>packages/workflow/src/run-coordinator.ts\<close>) and its durable version
  (\<^verbatim>\<open>packages/persistence/src/project/prisma-event-ledger.ts\<close>), and the project store that
  writes the same tables (\<^verbatim>\<open>project-store.ts\<close>). The contract that the run coordinator relies on
  is the locale \<open>run_ledger\<close>; both ledgers satisfy it. Payloads are of an arbitrary type.
\<close>

record ('l, 'p) ledger_ops =
  lo_append :: "'p project_event \<Rightarrow> ('l, exn, unit) act"
  lo_getEvents :: "string \<Rightarrow> ('l, exn, 'p project_event list) act"

section \<open>The in-memory ledger\<close>

type_synonym 'p memory_log = "'p project_event list"

definition ml_append :: "'p project_event \<Rightarrow> ('p memory_log, exn, unit) act" where
  "ml_append ev = (\<lambda>evs. (Inr (), evs @ [ev]))"

definition ml_getEvents :: "string \<Rightarrow> ('p memory_log, exn, 'p project_event list) act" where
  "ml_getEvents a = (\<lambda>evs. (Inr (filter (\<lambda>e. pe_aggregateId e = a) evs), evs))"

definition memory_log_ops :: "('p memory_log, 'p) ledger_ops" where
  "memory_log_ops = \<lparr>lo_append = ml_append, lo_getEvents = ml_getEvents\<rparr>"

section \<open>The tables of projects, events and outbox\<close>

record 'p outbox_row =
  ob_id :: string
  ob_projectId :: string
  ob_eventType :: string
  ob_aggregateType :: aggregate_type
  ob_aggregateId :: string
  ob_payload :: 'p
  ob_correlationId :: string

record 'p ledger_db =
  ld_projects :: "project list"
  ld_events :: "'p project_event list"
  ld_outbox :: "'p outbox_row list"
  ld_now :: int

definition outbox_of :: "'p project_event \<Rightarrow> 'p outbox_row" where
  "outbox_of ev = \<lparr>ob_id = pe_id ev, ob_projectId = pe_projectId ev, ob_eventType = pe_eventType ev,
     ob_aggregateType = pe_aggregateType ev, ob_aggregateId = pe_aggregateId ev, ob_payload = pe_payload ev,
     ob_correlationId = pe_correlationId ev\<rparr>"

definition project_of :: "'p ledger_db \<Rightarrow> string \<Rightarrow> project option" where
  "project_of db i = find_row (\<lambda>p. pj_id p = i) (ld_projects db)"

text \<open>
  The two inserts every writer makes, with the constraints of \<^verbatim>\<open>schema.prisma\<close>: the primary keys,
  one event per aggregate revision, and the reference to an existing project.
\<close>

definition event_violation :: "'p project_event \<Rightarrow> 'p ledger_db \<Rightarrow> exn option" where
  "event_violation ev db =
     (if find_row (\<lambda>e. pe_id e = pe_id ev) (ld_events db) \<noteq> None then Some (UniqueViolation (pe_id ev))
      else if find_row (\<lambda>e. pe_aggregateId e = pe_aggregateId ev \<and> pe_aggregateRevision e = pe_aggregateRevision ev)
                (ld_events db) \<noteq> None then Some (UniqueViolation (pe_aggregateId ev))
      else if project_of db (pe_projectId ev) = None then Some (ForeignKeyViolation (pe_projectId ev))
      else if find_row (\<lambda>r. ob_id r = pe_id ev) (ld_outbox db) \<noteq> None then Some (UniqueViolation (pe_id ev))
      else None)"

definition insert_event :: "'p project_event \<Rightarrow> ('p ledger_db, exn, unit) act" where
  "insert_event ev db =
     (case event_violation ev db of
        Some e \<Rightarrow> (Inl e, db)
      | None \<Rightarrow> (Inr (), db\<lparr>ld_events := ld_events db @ [ev], ld_outbox := ld_outbox db @ [outbox_of ev]\<rparr>))"

definition pl_append :: "'p project_event \<Rightarrow> ('p ledger_db, exn, unit) act" where
  "pl_append ev = insert_event ev"

definition pl_getEvents :: "string \<Rightarrow> ('p ledger_db, exn, 'p project_event list) act" where
  "pl_getEvents a db =
     (Inr (sort_key pe_aggregateRevision (filter (\<lambda>e. pe_aggregateId e = a) (ld_events db))), db)"

definition prisma_ledger_ops :: "('p ledger_db, 'p) ledger_ops" where
  "prisma_ledger_ops = \<lparr>lo_append = pl_append, lo_getEvents = pl_getEvents\<rparr>"

section \<open>The project store\<close>

definition ps_create :: "project \<Rightarrow> 'p project_event \<Rightarrow> ('p ledger_db, exn, project) act" where
  "ps_create p ev db =
     (if project_of db (pj_id p) \<noteq> None then (Inl (UniqueViolation (pj_id p)), db)
      else if find_row (\<lambda>q. pj_slug q = pj_slug p) (ld_projects db) \<noteq> None then (Inl (UniqueViolation (pj_slug p)), db)
      else (case insert_event ev (db\<lparr>ld_projects := ld_projects db @ [p]\<rparr>) of
              (Inl e, _) \<Rightarrow> (Inl e, db)
            | (Inr _, db') \<Rightarrow> (Inr p, db')))"

definition ps_getById :: "string \<Rightarrow> ('p ledger_db, exn, project option) act" where
  "ps_getById i db = (Inr (project_of db i), db)"

definition ps_rename :: "string \<Rightarrow> nat \<Rightarrow> string \<Rightarrow> 'p project_event \<Rightarrow> ('p ledger_db, exn, project) act" where
  "ps_rename i expected name ev db =
     (let next = expected + 1 in
      case update_many (\<lambda>p. pj_id p = i \<and> pj_revision p = expected)
             (\<lambda>p. p\<lparr>pj_name := name, pj_revision := next, pj_updatedAt := ld_now db\<rparr>) (ld_projects db) of
        (count, rows) \<Rightarrow>
          if count \<noteq> 1 then (Inl (StaleProjectRevisionError i expected), db)
          else if pe_aggregateRevision ev \<noteq> next
          then (Inl (GenericError (''Event revision '' @ show_int (int (pe_aggregateRevision ev)) @
                  '' does not match next project revision '' @ show_int (int next) @ ''.'')), db)
          else (case insert_event ev (db\<lparr>ld_projects := rows\<rparr>) of
                  (Inl e, _) \<Rightarrow> (Inl e, db)
                | (Inr _, db') \<Rightarrow>
                    (case project_of db' i of
                       None \<Rightarrow> (Inl (RecordNotFound i), db)
                     | Some p \<Rightarrow> (Inr p, db'))))"

section \<open>The contract of a ledger\<close>

text \<open>
  What a client may rely on: an append that succeeds adds the event at the end of its aggregate's
  log, provided its revision is beyond those already there; one that fails adds nothing; reading gives the log.
\<close>

locale run_ledger =
  fixes lo :: "('l, 'p) ledger_ops"
    and log :: "'l \<Rightarrow> string \<Rightarrow> 'p project_event list"
  assumes append_ok: "lo_append lo ev l = (Inr u, l') \<Longrightarrow>
      (\<forall>e \<in> set (log l (pe_aggregateId ev)). pe_aggregateRevision e < pe_aggregateRevision ev) \<Longrightarrow>
      log l' = (log l)(pe_aggregateId ev := log l (pe_aggregateId ev) @ [ev])"
    and append_fails: "lo_append lo ev l = (Inl e, l') \<Longrightarrow> log l' = log l"
    and get_events: "lo_getEvents lo a l = (Inr (log l a), l)"
    and log_aggregate: "ev \<in> set (log l a) \<Longrightarrow> pe_aggregateId ev = a"

definition memory_log :: "'p memory_log \<Rightarrow> string \<Rightarrow> 'p project_event list" where
  "memory_log evs a = filter (\<lambda>e. pe_aggregateId e = a) evs"

definition prisma_log :: "'p ledger_db \<Rightarrow> string \<Rightarrow> 'p project_event list" where
  "prisma_log db a = sort_key pe_aggregateRevision (memory_log (ld_events db) a)"

lemma sort_key_snoc: "\<forall>y \<in> set xs. f y \<le> f x \<Longrightarrow> sort_key f (xs @ [x]) = sort_key f xs @ [x]"
proof (induction xs)
  case (Cons a xs)
  have "f a \<le> f x \<Longrightarrow> insort_key f a (ys @ [x]) = insort_key f a ys @ [x]" for ys
    by (induction ys) auto
  with Cons show ?case by simp
qed simp

lemma insert_event_cases:
  obtains (fails) e where "insert_event ev db = (Inl e, db)"
  | (inserts) "insert_event ev db =
      (Inr (), db\<lparr>ld_events := ld_events db @ [ev], ld_outbox := ld_outbox db @ [outbox_of ev]\<rparr>)"
    "pe_id ev \<notin> pe_id ` set (ld_events db)" "project_of db (pe_projectId ev) \<noteq> None"
    "(pe_aggregateId ev, pe_aggregateRevision ev) \<notin> (\<lambda>e. (pe_aggregateId e, pe_aggregateRevision e)) ` set (ld_events db)"
proof (cases "event_violation ev db")
  case None
  then show thesis
    by (intro inserts) (force simp: insert_event_def event_violation_def find_row_None split: if_splits)+
qed (simp add: fails insert_event_def)

interpretation memlog: run_ledger memory_log_ops memory_log
  by unfold_locales (auto simp: memory_log_ops_def ml_append_def ml_getEvents_def memory_log_def fun_eq_iff)

interpretation prlog: run_ledger prisma_ledger_ops prisma_log
proof unfold_locales
  fix ev l u l'
  assume "lo_append prisma_ledger_ops ev l = (Inr u, l')"
    and later: "\<forall>e \<in> set (prisma_log l (pe_aggregateId ev)). pe_aggregateRevision e < pe_aggregateRevision ev"
  then have l': "ld_events l' = ld_events l @ [ev]"
    by (cases rule: insert_event_cases [of ev l]) (auto simp: prisma_ledger_ops_def pl_append_def)
  show "prisma_log l' = (prisma_log l)(pe_aggregateId ev := prisma_log l (pe_aggregateId ev) @ [ev])"
    using later by (auto simp: prisma_log_def memory_log_def l' fun_eq_iff intro!: sort_key_snoc less_imp_le)
next
  fix ev l e l'
  assume "lo_append prisma_ledger_ops ev l = (Inl e, l')"
  then show "prisma_log l' = prisma_log l"
    by (cases rule: insert_event_cases [of ev l]) (auto simp: prisma_ledger_ops_def pl_append_def)
qed (auto simp: prisma_ledger_ops_def pl_getEvents_def prisma_log_def memory_log_def)


section \<open>Invariants of the tables\<close>

definition ledger_inv :: "'p ledger_db \<Rightarrow> bool" where
  "ledger_inv db \<longleftrightarrow> distinct (map pj_id (ld_projects db)) \<and> distinct (map pj_slug (ld_projects db)) \<and>
     distinct (map pe_id (ld_events db)) \<and>
     distinct (map (\<lambda>e. (pe_aggregateId e, pe_aggregateRevision e)) (ld_events db)) \<and>
     ld_outbox db = map outbox_of (ld_events db) \<and>
     pe_projectId ` set (ld_events db) \<subseteq> pj_id ` set (ld_projects db)"

lemma project_of_None: "project_of db i = None \<longleftrightarrow> i \<notin> pj_id ` set (ld_projects db)"
  by (auto simp: project_of_def find_row_None)

lemma insert_event_inv: "ledger_inv db \<Longrightarrow> ledger_inv (snd (insert_event ev db))"
  by (cases rule: insert_event_cases [of ev db]) (auto simp: ledger_inv_def project_of_None)

lemma insert_event_fails: "insert_event ev db = (Inl e, db') \<Longrightarrow> db' = db"
  by (cases rule: insert_event_cases [of ev db]) auto

lemma create_inv: "ledger_inv db \<Longrightarrow> ledger_inv (snd (ps_create p ev db))"
proof -
  assume inv: "ledger_inv db"
  show ?thesis
  proof (cases "project_of db (pj_id p) \<noteq> None \<or> find_row (\<lambda>q. pj_slug q = pj_slug p) (ld_projects db) \<noteq> None")
    case False
    then have "ledger_inv (db\<lparr>ld_projects := ld_projects db @ [p]\<rparr>)"
      using inv by (auto simp: ledger_inv_def project_of_None find_row_None)
    from insert_event_inv [OF this, of ev] inv False show ?thesis
      by (auto simp: ps_create_def split: prod.split sum.split)
  qed (use inv in \<open>auto simp: ps_create_def\<close>)
qed

lemma rename_inv: "ledger_inv db \<Longrightarrow> ledger_inv (snd (ps_rename i n name ev db))"
proof -
  assume inv: "ledger_inv db"
  let ?rows = "snd (update_many (\<lambda>p. pj_id p = i \<and> pj_revision p = n)
    (\<lambda>p. p\<lparr>pj_name := name, pj_revision := n + 1, pj_updatedAt := ld_now db\<rparr>) (ld_projects db))"
  have keys: "map pj_id ?rows = map pj_id (ld_projects db)" "map pj_slug ?rows = map pj_slug (ld_projects db)"
    by (simp_all add: keys_update_many)
  then have "pj_id ` set ?rows = pj_id ` set (ld_projects db)" by (metis list.set_map)
  then have "ledger_inv (db\<lparr>ld_projects := ?rows\<rparr>)" using inv keys by (simp add: ledger_inv_def)
  from insert_event_inv [OF this, of ev] inv show ?thesis
    by (auto simp: ps_rename_def Let_def split: prod.split sum.split option.split)
qed

inductive ledger_step :: "'p ledger_db \<Rightarrow> 'p ledger_db \<Rightarrow> bool" where
  ls_append: "ledger_step db (snd (pl_append ev db))"
| ls_create: "ledger_step db (snd (ps_create p ev db))"
| ls_rename: "ledger_step db (snd (ps_rename i n name ev db))"
| ls_tick: "ledger_step db (db\<lparr>ld_now := t\<rparr>)"

inductive ledger_reach :: "'p ledger_db \<Rightarrow> 'p ledger_db \<Rightarrow> bool" where
  lr_here: "ledger_reach db db"
| lr_next: "ledger_reach db db' \<Longrightarrow> ledger_step db' db'' \<Longrightarrow> ledger_reach db db''"

lemma ledger_inv_step: "ledger_step db db' \<Longrightarrow> ledger_inv db \<Longrightarrow> ledger_inv db'"
  by (induction rule: ledger_step.induct)
     (auto simp: pl_append_def insert_event_inv create_inv rename_inv, simp add: ledger_inv_def)

lemma ledger_inv_reach: "ledger_reach db db' \<Longrightarrow> ledger_inv db \<Longrightarrow> ledger_inv db'"
  by (induction rule: ledger_reach.induct) (auto intro: ledger_inv_step)

definition empty_ledger :: "'p ledger_db" where
  "empty_ledger = \<lparr>ld_projects = [], ld_events = [], ld_outbox = [], ld_now = 0\<rparr>"

lemma empty_ledger_inv: "ledger_inv empty_ledger"
  by (simp add: ledger_inv_def empty_ledger_def)

text \<open>
  C17: the transactional outbox. After any sequence of appends, project creations and renames, failed ones included,
  the outbox holds exactly one message per event, in the order of the events and with their content; no two events
  share an id or a place in the history of their aggregate, and each belongs to an existing project.
\<close>

theorem outbox_mirrors_events:
  assumes "ledger_reach empty_ledger db"
  shows "ld_outbox db = map outbox_of (ld_events db) \<and> distinct (map pe_id (ld_events db)) \<and>
    distinct (map (\<lambda>e. (pe_aggregateId e, pe_aggregateRevision e)) (ld_events db)) \<and>
    (\<forall>e \<in> set (ld_events db). project_of db (pe_projectId e) \<noteq> None)"
  using ledger_inv_reach [OF assms empty_ledger_inv] unfolding ledger_inv_def project_of_None by blast

definition sample_event_row :: "string \<Rightarrow> nat \<Rightarrow> unit project_event" where
  "sample_event_row i n = \<lparr>pe_id = i, pe_projectId = ''p'', pe_eventType = ''T'', pe_aggregateType = AGG_PROJECT,
     pe_aggregateId = ''p'', pe_aggregateRevision = n, pe_actorType = SYSTEM, pe_actorId = ''s'', pe_correlationId = ''c'',
     pe_causationId = None, pe_schemaVersion = 1, pe_payload = (), pe_occurredAt = 0\<rparr>"

definition sample_ledger :: "unit ledger_db" where
  "sample_ledger = snd (ps_rename ''p'' 1 ''new'' (sample_event_row ''f'' 2)
     (snd (ps_create (createProject ''p'' ''s'' ''n'' 0) (sample_event_row ''e'' 1) empty_ledger)))"

lemma outbox_mirrors_events_witness:
  "map ob_id (ld_outbox sample_ledger) = [''e'', ''f'']"
proof -
  have "ledger_reach empty_ledger sample_ledger" unfolding sample_ledger_def
    by (intro lr_next [OF lr_next [OF lr_here ls_create] ls_rename])
  from outbox_mirrors_events [OF this] have "map ob_id (ld_outbox sample_ledger) = map pe_id (ld_events sample_ledger)"
    by (simp add: outbox_of_def)
  also have "map pe_id (ld_events sample_ledger) = [''e'', ''f'']" by code_simp
  finally show ?thesis .
qed

lemma rename_outcome:
  assumes "ledger_inv db"
  shows "ps_rename i n name ev db = (r, db') \<Longrightarrow> (\<exists>e. r = Inl e \<and> db' = db) \<or>
    (\<exists>p. r = Inr p \<and> pj_revision p = n + 1 \<and> pj_name p = name \<and> project_of db' i = Some p \<and>
       (\<exists>q. project_of db i = Some q \<and> pj_revision q = n) \<and> pe_aggregateRevision ev = n + 1 \<and>
       ld_events db' = ld_events db @ [ev])"
proof -
  assume r: "ps_rename i n name ev db = (r, db')"
  let ?p = "\<lambda>p. pj_id p = i \<and> pj_revision p = n"
  let ?f = "\<lambda>p. p\<lparr>pj_name := name, pj_revision := n + 1, pj_updatedAt := ld_now db\<rparr>"
  obtain c rows where u: "update_many ?p ?f (ld_projects db) = (c, rows)" by fastforce
  have rows: "find_row (\<lambda>p. pj_id p = i) rows =
      map_option (\<lambda>q. if ?p q then ?f q else q) (find_row (\<lambda>p. pj_id p = i) (ld_projects db))"
    using find_update_many [of pj_id ?f i ?p "ld_projects db"] u by simp
  show ?thesis
  proof (cases "c = 1 \<and> pe_aggregateRevision ev = n + 1")
    case True
    then obtain q where q: "q \<in> set (ld_projects db)" "?p q"
      using u update_many_count_0 [of ?p ?f "ld_projects db"] by auto
    then have qi: "project_of db i = Some q"
      using find_row_key [of pj_id "ld_projects db" q] assms by (simp add: project_of_def ledger_inv_def)
    then have "project_of (db\<lparr>ld_projects := rows\<rparr>) i = Some (?f q)"
      using rows q(2) by (simp add: project_of_def)
    then show ?thesis using r u True q(2) qi
      by (cases rule: insert_event_cases [of ev "db\<lparr>ld_projects := rows\<rparr>"])
         (auto simp: ps_rename_def project_of_def)
  qed (use r u in \<open>auto simp: ps_rename_def Let_def split: if_splits\<close>)
qed

end
