(* ===== verification/Run_Coordinator.thy ===== *)
theory Run_Coordinator
  imports Workflow_Engine Owner_Authority Event_Ledger
begin

text \<open>
  The run coordinator (\<^verbatim>\<open>packages/workflow/src/run-coordinator.ts\<close>): it drives a run from dispatch
  to evaluation over an agent bridge and a reviewer, writes every step to an event ledger, and resumes a
  parked run by replaying that ledger. The ledger is the interface of \<^verbatim>\<open>Event_Ledger\<close>; the bridge, the
  reviewer, the clock and \<open>randomUUID\<close> act on an outer world. A loop that may not end is an
  option-valued function: \<open>None\<close> is "does not return".
\<close>

section \<open>States, verdicts and events\<close>

datatype run_state = RS_STARTING | RS_RUNNING | RS_EVALUATING | RS_REPAIRING | RS_WAITING_FOR_OWNER
  | RS_RECONCILING | RS_CLOSED | RS_BLOCKED

datatype review_decision = RD_PASS | RD_FAIL_REPAIRABLE | RD_OWNER_DECISION_REQUIRED | RD_AMBIGUOUS_SIDE_EFFECT
  | RD_BLOCKED | RD_COMPLETE | RD_NEEDS_EVIDENCE

fun decision_name :: "review_decision \<Rightarrow> string" where
  "decision_name RD_PASS = ''PASS''"
| "decision_name RD_FAIL_REPAIRABLE = ''FAIL_REPAIRABLE''"
| "decision_name RD_OWNER_DECISION_REQUIRED = ''OWNER_DECISION_REQUIRED''"
| "decision_name RD_AMBIGUOUS_SIDE_EFFECT = ''AMBIGUOUS_SIDE_EFFECT''"
| "decision_name RD_BLOCKED = ''BLOCKED''"
| "decision_name RD_COMPLETE = ''COMPLETE''"
| "decision_name RD_NEEDS_EVIDENCE = ''NEEDS_EVIDENCE''"

record repair_package =
  rp_findingId :: string
  rp_requirementRef :: string
  rp_observedEvidence :: string
  rp_allowedScope :: "string list"
  rp_forbiddenActions :: "string list"
  rp_requiredVerification :: "string list"
  rp_requiredEvidence :: "string list"
  rp_reReviewTrigger :: string

record review_verdict =
  rv_decision :: review_decision
  rv_findings :: "string list"
  rv_repairPackage :: "repair_package option"
  rv_reviewDepth :: string
  rv_lineage :: "string list"
  rv_pendingAction :: "string option"
  rv_pendingGate :: "string option"
  rv_pendingAuthorityType :: "string option"
  rv_nextAction :: "string option"

record review_request =
  rq_projectId :: string
  rq_workflowRunId :: string
  rq_workPackageId :: string
  rq_attemptId :: string
  rq_scopeRevision :: string
  rq_contractRevision :: string
  rq_mocRevision :: string
  rq_artifactHashes :: "(string \<times> string) list"
  rq_authoritySnapshot :: "(string \<times> json) list"
  rq_requirementRefs :: "string list"
  rq_evidenceRefs :: "string list"
  rq_verificationRefs :: "string list"
  rq_ledgerRevision :: nat

text \<open>The payload of a run event: an object literal, each of whose fields may be absent.\<close>

record run_payload =
  pl_attemptId :: "string option"
  pl_workPackageId :: "string option"
  pl_workPackage :: "work_package option"
  pl_pendingAction :: "string option"
  pl_pendingGate :: "string option"
  pl_pendingAuthorityType :: "string option"
  pl_taskId :: "string option"
  pl_runId :: "string option"
  pl_result :: "(string + agent_run_result) option"
  pl_repairAttempts :: "nat option"
  pl_repairPackage :: "repair_package option"
  pl_nextAction :: "string option"
  pl_reason :: "string option"
  pl_authorityType :: "string option"
  pl_safeToRetry :: "bool option"
  pl_verifiedBy :: "string option"
  pl_blueprintId :: "string option"
  pl_workPackageCount :: "nat option"
  pl_status :: "string option"

definition no_payload :: run_payload where
  "no_payload = \<lparr>pl_attemptId = None, pl_workPackageId = None, pl_workPackage = None, pl_pendingAction = None,
     pl_pendingGate = None, pl_pendingAuthorityType = None, pl_taskId = None, pl_runId = None, pl_result = None,
     pl_repairAttempts = None, pl_repairPackage = None, pl_nextAction = None, pl_reason = None,
     pl_authorityType = None, pl_safeToRetry = None, pl_verifiedBy = None, pl_blueprintId = None,
     pl_workPackageCount = None, pl_status = None\<rparr>"

type_synonym run_event = "run_payload project_event"

section \<open>Reconciliation outcomes and their issuer\<close>

record outcome =
  oc_safeToRetry :: bool
  oc_correlationId :: string
  oc_causationId :: string
  oc_verifiedBy :: string
  oc_reason :: string

text \<open>What reaches \<open>resumeFromReconciliation\<close>: a value with the module's brand, or any other object.\<close>

datatype outcome_arg = SealedReconciliationOutcome outcome | UnbrandedOutcome

definition isReconciliationOutcome :: "outcome_arg \<Rightarrow> bool" where
  "isReconciliationOutcome v = (case v of SealedReconciliationOutcome _ \<Rightarrow> True | UnbrandedOutcome \<Rightarrow> False)"

definition issueOutcome :: "string \<Rightarrow> bool \<Rightarrow> string \<Rightarrow> string \<Rightarrow> string \<Rightarrow> outcome_arg" where
  "issueOutcome identity safe corr caus reason = SealedReconciliationOutcome
     \<lparr>oc_safeToRetry = safe, oc_correlationId = corr, oc_causationId = caus, oc_verifiedBy = identity, oc_reason = reason\<rparr>"

section \<open>The coordinator and its surroundings\<close>

datatype status_class = NON_TERMINAL | TERMINAL | AMBIGUOUS

fun classifyStatus :: "agent_run_status \<Rightarrow> status_class" where
  "classifyStatus AR_COMPLETED = TERMINAL"
| "classifyStatus AR_FAILED = TERMINAL"
| "classifyStatus AR_CANCELLED = TERMINAL"
| "classifyStatus AR_INTERRUPTED = TERMINAL"
| "classifyStatus AR_UNKNOWN = AMBIGUOUS"
| "classifyStatus _ = NON_TERMINAL"

record 'x agent_bridge =
  br_dispatch :: "work_package \<Rightarrow> runtime_context \<Rightarrow> ('x, exn, run_handle) act"
  br_getStatus :: "string \<Rightarrow> ('x, exn, agent_run_status) act"
  br_getResult :: "string \<Rightarrow> ('x, exn, agent_run_result) act"
  br_cancel :: "string \<Rightarrow> ('x, exn, unit) act"

text \<open>The host: \<open>Date.now()\<close> reads the world, \<open>setTimeout\<close> and \<open>randomUUID()\<close> move it on.\<close>

record 'x host =
  ho_now :: "'x \<Rightarrow> int"
  ho_sleep :: "int \<Rightarrow> 'x \<Rightarrow> 'x"
  ho_uuid :: "'x \<Rightarrow> string \<times> 'x"

record ('l, 'x) coordinator =
  co_bridge :: "'x agent_bridge"
  co_ledger :: "('l, run_payload) ledger_ops"
  co_reviewer :: "agent_run_result \<Rightarrow> review_request \<Rightarrow> ('x, exn, review_verdict) act"
  co_canonicalTaskId :: string
  co_timeoutMs :: int
  co_intervalMs :: int
  co_maxRepairAttempts :: nat
  co_host :: "'x host"

definition randomUUID :: "('l, 'x) coordinator \<Rightarrow> ('l \<times> 'x, exn, string) act" where
  "randomUUID c = (\<lambda>(l, x). case ho_uuid (co_host c) x of (u, x') \<Rightarrow> (Inr u, (l, x')))"

text \<open>The arguments of \<open>execute\<close>, and its local variables.\<close>

record run_args =
  ra_workflowRunId :: string
  ra_correlationId :: string
  ra_projectId :: string
  ra_causationId :: "string option"

record run_locals =
  rl_state :: run_state
  rl_wp :: work_package
  rl_attemptId :: string
  rl_revision :: nat
  rl_pendingAction :: "string option"
  rl_pendingGate :: "string option"
  rl_pendingAuthorityType :: "string option"
  rl_repairAttempts :: nat

definition run_event :: "run_args \<Rightarrow> string \<Rightarrow> run_payload \<Rightarrow> nat \<Rightarrow> string \<Rightarrow> int \<Rightarrow> run_event" where
  "run_event a type payload rn eid now =
     \<lparr>pe_id = eid, pe_projectId = ra_projectId a, pe_eventType = type, pe_aggregateType = AGG_RUN,
      pe_aggregateId = ra_workflowRunId a, pe_aggregateRevision = rn, pe_actorType = ORCHESTRATOR,
      pe_actorId = ''system'', pe_correlationId = ra_correlationId a, pe_causationId = ra_causationId a,
      pe_schemaVersion = 1, pe_payload = payload, pe_occurredAt = now\<rparr>"

text \<open>\<open>emit\<close> returns the next revision (\<open>revision++\<close>).\<close>

definition emit :: "('l, 'x) coordinator \<Rightarrow> run_args \<Rightarrow> string \<Rightarrow> run_payload \<Rightarrow> nat \<Rightarrow> ('l \<times> 'x, exn, nat) act" where
  "emit c a type payload rn =
     act_bind (randomUUID c) (\<lambda>eid (l, x).
       case lo_append (co_ledger c) (run_event a type payload rn eid (ho_now (co_host c) x)) l of
         (Inl e, l') \<Rightarrow> (Inl e, (l', x))
       | (Inr _, l') \<Rightarrow> (Inr (rn + 1), (l', x)))"


section \<open>One pass of the run loop\<close>

definition begin_step :: "('l, 'x) coordinator \<Rightarrow> run_args \<Rightarrow> run_locals \<Rightarrow> ('l \<times> 'x, exn, run_locals) act" where
  "begin_step c a L =
     (if rl_state L = RS_STARTING \<or> rl_state L = RS_REPAIRING then
        act_bind (emit c a (if rl_state L = RS_STARTING then ''RUN_STARTED'' else ''RUN_REPAIR_STARTED'')
            (no_payload\<lparr>pl_attemptId := Some (rl_attemptId L), pl_workPackageId := Some (wp_workPackageId (rl_wp L)),
               pl_workPackage := Some (rl_wp L), pl_pendingAction := rl_pendingAction L,
               pl_pendingGate := rl_pendingGate L, pl_pendingAuthorityType := rl_pendingAuthorityType L,
               pl_taskId := Some (co_canonicalTaskId c)\<rparr>)
            (rl_revision L))
          (\<lambda>rn. act_return (L\<lparr>rl_state := RS_RUNNING, rl_revision := rn\<rparr>))
      else act_return L)"

definition dispatch_step :: "('l, 'x) coordinator \<Rightarrow> run_args \<Rightarrow> run_locals \<Rightarrow>
    ('l \<times> 'x, exn, string \<times> agent_run_status \<times> run_locals) act" where
  "dispatch_step c a L =
     act_bind (on_agent (br_dispatch (co_bridge c) (rl_wp L)
        \<lparr>rc_correlationId = ra_correlationId a, rc_workflowRunId = ra_workflowRunId a,
         rc_attemptId = rl_attemptId L, rc_secretRefs = []\<rparr>)) (\<lambda>handle.
     act_bind (emit c a ''RUN_DISPATCHED''
        (no_payload\<lparr>pl_attemptId := Some (rl_attemptId L), pl_runId := Some (rh_runId handle)\<rparr>) (rl_revision L)) (\<lambda>rn.
     act_bind (on_agent (br_getStatus (co_bridge c) (rh_runId handle))) (\<lambda>status.
     act_return (rh_runId handle, status, L\<lparr>rl_revision := rn\<rparr>))))"

text \<open>The polling loop; \<open>None\<close> when neither the status nor the clock ever ends it.\<close>

partial_function (option) wait_status ::
  "('l, 'x) coordinator \<Rightarrow> string \<Rightarrow> int \<Rightarrow> agent_run_status \<Rightarrow> 'x \<Rightarrow> ((exn + agent_run_status) \<times> 'x) option" where
  "wait_status c rid start st x =
     (if classifyStatus st = NON_TERMINAL \<and> ho_now (co_host c) x - start < co_timeoutMs c then
        (case br_getStatus (co_bridge c) rid (ho_sleep (co_host c) (co_intervalMs c) x) of
           (r, x') \<Rightarrow> (case r of Inl e \<Rightarrow> Some (Inl e, x') | Inr st' \<Rightarrow> wait_status c rid start st' x'))
      else Some (Inr st, x))"

definition system_verdict :: "review_decision \<Rightarrow> string \<Rightarrow> review_verdict" where
  "system_verdict d finding = \<lparr>rv_decision = d, rv_findings = [finding], rv_repairPackage = None, rv_reviewDepth = ''SYSTEM'',
     rv_lineage = [], rv_pendingAction = None, rv_pendingGate = None, rv_pendingAuthorityType = None, rv_nextAction = None\<rparr>"

definition review_request_of :: "run_args \<Rightarrow> run_locals \<Rightarrow> review_request" where
  "review_request_of a L = \<lparr>rq_projectId = ra_projectId a, rq_workflowRunId = ra_workflowRunId a,
     rq_workPackageId = wp_workPackageId (rl_wp L), rq_attemptId = rl_attemptId L, rq_scopeRevision = ''v1'',
     rq_contractRevision = ''v1'', rq_mocRevision = ''v1'', rq_artifactHashes = [], rq_authoritySnapshot = [],
     rq_requirementRefs = [], rq_evidenceRefs = [], rq_verificationRefs = [], rq_ledgerRevision = rl_revision L\<rparr>"

text \<open>The verdict on a run that has stopped or timed out, and the result if one was read; nothing here throws.\<close>

definition judge :: "('l, 'x) coordinator \<Rightarrow> run_args \<Rightarrow> run_locals \<Rightarrow> string \<Rightarrow> agent_run_status \<Rightarrow> 'x \<Rightarrow>
    (agent_run_result option \<times> review_verdict) \<times> 'x" where
  "judge c a L rid st x =
     (case classifyStatus st of
        NON_TERMINAL \<Rightarrow>
          ((None, system_verdict RD_AMBIGUOUS_SIDE_EFFECT ''TIMEOUT_AMBIGUOUS''), snd (br_cancel (co_bridge c) rid x))
      | AMBIGUOUS \<Rightarrow> ((None, system_verdict RD_AMBIGUOUS_SIDE_EFFECT ''TRANSPORT_LOST_AMBIGUOUS''), x)
      | TERMINAL \<Rightarrow>
          (case br_getResult (co_bridge c) rid x of
             (Inl e, x1) \<Rightarrow> ((None, system_verdict RD_AMBIGUOUS_SIDE_EFFECT ''TRANSPORT_LOST_AMBIGUOUS''), x1)
           | (Inr r, x1) \<Rightarrow>
               if res_status r = AR_CANCELLED \<or> res_status r = AR_INTERRUPTED
               then ((Some r, system_verdict RD_AMBIGUOUS_SIDE_EFFECT ''Cancelled''), x1)
               else if res_status r = AR_FAILED
               then ((Some r, system_verdict RD_FAIL_REPAIRABLE ''Run failed naturally, repairing.''), x1)
               else (case co_reviewer c r (review_request_of a L) x1 of
                  (Inl e, x2) \<Rightarrow> ((Some r, system_verdict RD_AMBIGUOUS_SIDE_EFFECT ''TRANSPORT_LOST_AMBIGUOUS''), x2)
                | (Inr v, x2) \<Rightarrow> ((Some r, v), x2))))"

definition newline :: string where "newline = [CHR 0x0A]"

definition with_constraints :: "review_verdict \<Rightarrow> work_package \<Rightarrow> work_package" where
  "with_constraints v wp =
     (case rv_repairPackage v of
        None \<Rightarrow> wp
      | Some rp \<Rightarrow> wp\<lparr>wp_objective := wp_objective wp @ newline @ ''Repair Constraints: Allowed['' @
          join '','' (rp_allowedScope rp) @ ''], Forbidden['' @ join '','' (rp_forbiddenActions rp) @ '']''\<rparr>)"

text \<open>A new attempt on the work package with an amended objective.\<close>

definition next_attempt :: "('l, 'x) coordinator \<Rightarrow> run_locals \<Rightarrow> string \<Rightarrow> ('l \<times> 'x, exn, run_locals) act" where
  "next_attempt c L objective =
     act_bind (randomUUID c) (\<lambda>attempt. act_bind (randomUUID c) (\<lambda>wpid.
     act_return (L\<lparr>rl_state := RS_REPAIRING, rl_attemptId := attempt, rl_repairAttempts := rl_repairAttempts L + 1,
       rl_wp := (rl_wp L)\<lparr>wp_workPackageId := wpid, wp_objective := objective\<rparr>\<rparr>)))"

definition emit_and :: "('l, 'x) coordinator \<Rightarrow> run_args \<Rightarrow> string \<Rightarrow> run_payload \<Rightarrow> run_locals \<Rightarrow> bool \<Rightarrow>
    ('l \<times> 'x, exn, run_locals \<times> bool) act" where
  "emit_and c a type payload L brk =
     act_bind (emit c a type payload (rl_revision L)) (\<lambda>rn. act_return (L\<lparr>rl_revision := rn\<rparr>, brk))"

definition block_run :: "('l, 'x) coordinator \<Rightarrow> run_args \<Rightarrow> string \<Rightarrow> run_locals \<Rightarrow> ('l \<times> 'x, exn, run_locals \<times> bool) act" where
  "block_run c a reason L =
     emit_and c a ''RUN_BLOCKED'' (no_payload\<lparr>pl_attemptId := Some (rl_attemptId L), pl_reason := Some reason\<rparr>)
       (L\<lparr>rl_state := RS_BLOCKED\<rparr>) False"

text \<open>The branches on the decision; the flag says whether the branch ends with \<open>break\<close>.\<close>

definition apply_verdict :: "('l, 'x) coordinator \<Rightarrow> run_args \<Rightarrow> run_locals \<Rightarrow> review_verdict \<Rightarrow>
    ('l \<times> 'x, exn, run_locals \<times> bool) act" where
  "apply_verdict c a L v =
     (let aid = no_payload\<lparr>pl_attemptId := Some (rl_attemptId L)\<rparr>; findings = join '';'' (rv_findings v) in
      case rv_decision v of
        RD_FAIL_REPAIRABLE \<Rightarrow>
          if co_maxRepairAttempts c \<le> rl_repairAttempts L then block_run c a ''MAX_REPAIR_ATTEMPTS_EXCEEDED'' L
          else act_bind (next_attempt c L (''Repair feedback: '' @ findings @ newline @ ''Original: '' @ wp_objective (rl_wp L)))
            (\<lambda>L1. let L2 = L1\<lparr>rl_wp := with_constraints v (rl_wp L1)\<rparr> in
              emit_and c a ''EVALUATION_FAILED_REPAIRABLE''
                (no_payload\<lparr>pl_attemptId := Some (rl_attemptId L2), pl_repairAttempts := Some (rl_repairAttempts L2),
                   pl_repairPackage := rv_repairPackage v\<rparr>) L2 False)
      | RD_NEEDS_EVIDENCE \<Rightarrow>
          if co_maxRepairAttempts c \<le> rl_repairAttempts L then block_run c a ''MAX_REPAIR_ATTEMPTS_EXCEEDED'' L
          else act_bind (next_attempt c L (''Needs evidence: '' @ findings @ newline @ ''Original: '' @ wp_objective (rl_wp L)))
            (\<lambda>L1. emit_and c a ''EVALUATION_NEEDS_EVIDENCE''
                (no_payload\<lparr>pl_attemptId := Some (rl_attemptId L1), pl_repairAttempts := Some (rl_repairAttempts L1)\<rparr>) L1 False)
      | RD_AMBIGUOUS_SIDE_EFFECT \<Rightarrow>
          emit_and c a ''EVALUATION_AMBIGUOUS_SIDE_EFFECT'' aid (L\<lparr>rl_state := RS_RECONCILING\<rparr>) True
      | RD_OWNER_DECISION_REQUIRED \<Rightarrow>
          emit_and c a ''EVALUATION_OWNER_DECISION_REQUIRED''
            (aid\<lparr>pl_pendingAction := rv_pendingAction v, pl_pendingGate := rv_pendingGate v,
                 pl_pendingAuthorityType := rv_pendingAuthorityType v\<rparr>)
            (L\<lparr>rl_state := RS_WAITING_FOR_OWNER, rl_pendingAction := rv_pendingAction v,
               rl_pendingGate := rv_pendingGate v, rl_pendingAuthorityType := rv_pendingAuthorityType v\<rparr>) True
      | RD_PASS \<Rightarrow>
          act_bind (emit_and c a ''EVALUATION_PASSED'' (aid\<lparr>pl_nextAction := rv_nextAction v\<rparr>) L False) (\<lambda>(L1, _).
            if \<not> truthy (rv_nextAction v)
            then act_throw (GenericError ''PASS decision missing nextAction continuation plan'')
            else act_bind (randomUUID c) (\<lambda>wpid. act_bind (randomUUID c) (\<lambda>attempt.
              act_return (L1\<lparr>rl_state := RS_STARTING, rl_attemptId := attempt,
                rl_wp := (rl_wp L1)\<lparr>wp_workPackageId := wpid, wp_objective := or_empty (rv_nextAction v)\<rparr>\<rparr>, False))))
      | RD_COMPLETE \<Rightarrow> emit_and c a ''RUN_CLOSED'' aid (L\<lparr>rl_state := RS_CLOSED\<rparr>) False
      | RD_BLOCKED \<Rightarrow> block_run c a (decision_name RD_BLOCKED) L)"

definition evaluate_step :: "('l, 'x) coordinator \<Rightarrow> run_args \<Rightarrow> run_locals \<Rightarrow> string \<Rightarrow> agent_run_status \<Rightarrow>
    ('l \<times> 'x, exn, run_locals \<times> bool) act" where
  "evaluate_step c a L rid st = (\<lambda>(l, x).
     case judge c a L rid st x of
       ((result, v), x') \<Rightarrow>
         act_bind (emit c a ''RUN_COMPLETED''
             (no_payload\<lparr>pl_attemptId := Some (rl_attemptId L),
                pl_result := Some (case result of None \<Rightarrow> Inl (join '';'' (rv_findings v)) | Some r \<Rightarrow> Inr r)\<rparr>)
             (rl_revision L))
           (\<lambda>rn. apply_verdict c a (L\<lparr>rl_state := RS_EVALUATING, rl_revision := rn\<rparr>) v) (l, x'))"

definition run_body :: "('l, 'x) coordinator \<Rightarrow> run_args \<Rightarrow> run_locals \<Rightarrow> 'l \<times> 'x \<Rightarrow>
    ((exn + run_locals \<times> bool) \<times> ('l \<times> 'x)) option" where
  "run_body c a L w =
     (case begin_step c a L w of
        (Inl e, w1) \<Rightarrow> Some (Inl e, w1)
      | (Inr L1, w1) \<Rightarrow>
          if rl_state L1 \<noteq> RS_RUNNING then Some (Inr (L1, False), w1)
          else (case dispatch_step c a L1 w1 of
              (Inl e, w2) \<Rightarrow> Some (Inl e, w2)
            | (Inr (rid, st, L2), (l, x)) \<Rightarrow>
                (case wait_status c rid (ho_now (co_host c) x) st x of
                   None \<Rightarrow> None
                 | Some (Inl e, x') \<Rightarrow> Some (Inl e, (l, x'))
                 | Some (Inr st', x') \<Rightarrow> Some (evaluate_step c a L2 rid st' (l, x')))))"

text \<open>The loop, which ends with the value of its local variables; \<open>execute\<close> itself returns nothing.\<close>

partial_function (option) run_loop ::
  "('l, 'x) coordinator \<Rightarrow> run_args \<Rightarrow> run_locals \<Rightarrow> 'l \<times> 'x \<Rightarrow> ((exn + run_locals) \<times> ('l \<times> 'x)) option" where
  "run_loop c a L w =
     (if rl_state L = RS_CLOSED \<or> rl_state L = RS_BLOCKED then Some (Inr L, w)
      else Option.bind (run_body c a L w) (\<lambda>(r, w').
        case r of
          Inl e \<Rightarrow> Some (Inl e, w')
        | Inr (L', brk) \<Rightarrow> if brk then Some (Inr L', w') else run_loop c a L' w'))"

definition initial_locals :: "work_package \<Rightarrow> string \<Rightarrow> run_locals" where
  "initial_locals wp attempt = \<lparr>rl_state = RS_STARTING, rl_wp = wp, rl_attemptId = attempt, rl_revision = 1,
     rl_pendingAction = None, rl_pendingGate = None, rl_pendingAuthorityType = None, rl_repairAttempts = 0\<rparr>"

text \<open>\<open>execute\<close>; a reconstructed state gives the local variables their first values.\<close>

definition execute_run :: "('l, 'x) coordinator \<Rightarrow> work_package \<Rightarrow> run_args \<Rightarrow> run_locals option \<Rightarrow> 'l \<times> 'x \<Rightarrow>
    ((exn + run_locals) \<times> ('l \<times> 'x)) option" where
  "execute_run c wp a reconstructed w =
     (case reconstructed of
        Some L \<Rightarrow> run_loop c (a\<lparr>ra_causationId := None\<rparr>) L w
      | None \<Rightarrow>
          (case randomUUID c w of
             (Inl e, w1) \<Rightarrow> Some (Inl e, w1)
           | (Inr attempt, w1) \<Rightarrow> run_loop c (a\<lparr>ra_causationId := None\<rparr>) (initial_locals wp attempt) w1))"


declare wait_status.simps [code] run_loop.simps [code]

section \<open>Resuming from the ledger\<close>

record replayed =
  rs_wp :: "work_package option"
  rs_attemptId :: "string option"
  rs_state :: run_state
  rs_pendingAction :: "string option"
  rs_pendingGate :: "string option"
  rs_pendingAuthorityType :: "string option"
  rs_repairAttempts :: nat

definition replay_start :: "string \<Rightarrow> replayed" where
  "replay_start attempt = \<lparr>rs_wp = None, rs_attemptId = Some attempt, rs_state = RS_STARTING, rs_pendingAction = None,
     rs_pendingGate = None, rs_pendingAuthorityType = None, rs_repairAttempts = 0\<rparr>"

definition repairs_after :: "replayed \<Rightarrow> run_payload \<Rightarrow> nat" where
  "repairs_after s p = (case pl_repairAttempts p of Some n \<Rightarrow> n | None \<Rightarrow> rs_repairAttempts s)"

definition replay_event :: "run_event \<Rightarrow> replayed \<Rightarrow> replayed" where
  "replay_event e s =
     (let t = pe_eventType e; p = pe_payload e in
      if t = ''RUN_STARTED'' \<or> t = ''RUN_REPAIR_STARTED'' then
        s\<lparr>rs_wp := pl_workPackage p, rs_attemptId := pl_attemptId p, rs_pendingAction := pl_pendingAction p,
          rs_pendingGate := pl_pendingGate p, rs_pendingAuthorityType := pl_pendingAuthorityType p, rs_state := RS_RUNNING\<rparr>
      else if t = ''RUN_DISPATCHED'' then s\<lparr>rs_state := RS_RUNNING\<rparr>
      else if t = ''RUN_COMPLETED'' then s\<lparr>rs_state := RS_EVALUATING\<rparr>
      else if t = ''EVALUATION_FAILED_REPAIRABLE'' then
        s\<lparr>rs_repairAttempts := repairs_after s p, rs_state := RS_REPAIRING\<rparr>
      else if t = ''EVALUATION_AMBIGUOUS_SIDE_EFFECT'' then s\<lparr>rs_state := RS_RECONCILING\<rparr>
      else if t = ''EVALUATION_OWNER_DECISION_REQUIRED'' then
        s\<lparr>rs_state := RS_WAITING_FOR_OWNER, rs_pendingAction := pl_pendingAction p, rs_pendingGate := pl_pendingGate p,
          rs_pendingAuthorityType := pl_pendingAuthorityType p\<rparr>
      else if t = ''EVALUATION_PASSED'' then s
      else if t = ''RUN_CLOSED'' then s\<lparr>rs_state := RS_CLOSED\<rparr>
      else if t = ''RUN_BLOCKED'' then s\<lparr>rs_state := RS_BLOCKED\<rparr>
      else s)"

definition replay :: "string \<Rightarrow> run_event list \<Rightarrow> replayed" where
  "replay attempt evs = fold replay_event evs (replay_start attempt)"

text \<open>The replay of \<open>resumeFromReconciliation\<close>, which leaves the pending fields alone.\<close>

definition replay_event_reconciling :: "run_event \<Rightarrow> replayed \<Rightarrow> replayed" where
  "replay_event_reconciling e s =
     (let t = pe_eventType e; p = pe_payload e in
      if t = ''RUN_STARTED'' \<or> t = ''RUN_REPAIR_STARTED'' then
        s\<lparr>rs_wp := pl_workPackage p, rs_attemptId := pl_attemptId p, rs_state := RS_RUNNING\<rparr>
      else if t = ''RUN_DISPATCHED'' then s\<lparr>rs_state := RS_RUNNING\<rparr>
      else if t = ''RUN_COMPLETED'' then s\<lparr>rs_state := RS_EVALUATING\<rparr>
      else if t = ''EVALUATION_FAILED_REPAIRABLE'' then
        s\<lparr>rs_repairAttempts := repairs_after s p, rs_state := RS_REPAIRING\<rparr>
      else if t = ''EVALUATION_AMBIGUOUS_SIDE_EFFECT'' then s\<lparr>rs_state := RS_RECONCILING\<rparr>
      else if t = ''EVALUATION_OWNER_DECISION_REQUIRED'' then s\<lparr>rs_state := RS_WAITING_FOR_OWNER\<rparr>
      else if t = ''RUN_CLOSED'' then s\<lparr>rs_state := RS_CLOSED\<rparr>
      else if t = ''RUN_BLOCKED'' then s\<lparr>rs_state := RS_BLOCKED\<rparr>
      else s)"

definition replay_reconciling :: "string \<Rightarrow> run_event list \<Rightarrow> replayed" where
  "replay_reconciling attempt evs = fold replay_event_reconciling evs (replay_start attempt)"

definition js_text :: "string option \<Rightarrow> string" where
  "js_text s = (case s of None \<Rightarrow> ''undefined'' | Some t \<Rightarrow> t)"

fun run_state_name :: "run_state \<Rightarrow> string" where
  "run_state_name RS_STARTING = ''STARTING''"
| "run_state_name RS_RUNNING = ''RUNNING''"
| "run_state_name RS_EVALUATING = ''EVALUATING''"
| "run_state_name RS_REPAIRING = ''REPAIRING''"
| "run_state_name RS_WAITING_FOR_OWNER = ''WAITING_FOR_OWNER''"
| "run_state_name RS_RECONCILING = ''RECONCILING''"
| "run_state_name RS_CLOSED = ''CLOSED''"
| "run_state_name RS_BLOCKED = ''BLOCKED''"

definition mismatch :: "string \<Rightarrow> string option \<Rightarrow> string option \<Rightarrow> exn" where
  "mismatch what expected got = GenericError (what @ '': expected '' @ sq (js_text expected) @ '', got '' @ sq (js_text got))"

text \<open>The checks of \<open>resumeWithAuthority\<close> on the replayed run, in the order of the code.\<close>

definition check_authority :: "string \<Rightarrow> string \<Rightarrow> authority_event \<Rightarrow> replayed \<Rightarrow> exn + work_package" where
  "check_authority canonicalTaskId runId authority s =
     (let gate = map_option gate_name (ae_boundToGate authority);
          type = Some (token_name (ae_authorityType authority)) in
      case rs_wp s of
        None \<Rightarrow> Inl (GenericError (''Cannot resume workflow '' @ runId @ '': No valid work package found in event history.''))
      | Some wp \<Rightarrow>
          if ae_taskId authority \<noteq> canonicalTaskId
          then Inl (GenericError (''Owner event taskId mismatch: expected canonical taskId '' @ sq canonicalTaskId @
                 '', got '' @ sq (ae_taskId authority)))
          else if rs_state s \<noteq> RS_WAITING_FOR_OWNER
          then Inl (GenericError (''Cannot resume workflow '' @ runId @ '' with owner authority from state '' @
                 run_state_name (rs_state s)))
          else if \<not> truthy (ae_boundToAction authority) \<or> ae_boundToAction authority \<noteq> rs_pendingAction s
          then Inl (mismatch ''Owner event action binding missing or mismatched'' (rs_pendingAction s) (ae_boundToAction authority))
          else if \<not> truthy gate \<or> gate \<noteq> rs_pendingGate s
          then Inl (mismatch ''Owner event gate binding missing or mismatched'' (rs_pendingGate s) gate)
          else if type \<noteq> rs_pendingAuthorityType s
          then Inl (mismatch ''Owner event authority type missing or mismatched'' (rs_pendingAuthorityType s) type)
          else Inr wp)"

definition no_events :: "string \<Rightarrow> exn" where
  "no_events runId = GenericError (''Cannot resume workflow '' @ runId @ '': No events found.'')"

text \<open>A package and an attempt for the next run; the package keeps its objective.\<close>

definition fresh_package :: "('l, 'x) coordinator \<Rightarrow> work_package \<Rightarrow> ('l \<times> 'x, exn, work_package) act" where
  "fresh_package c wp = act_bind (randomUUID c) (\<lambda>u. act_return (wp\<lparr>wp_workPackageId := u\<rparr>))"

definition lift_act :: "('w, 'e, 'a) act \<Rightarrow> ('a \<Rightarrow> 'w \<Rightarrow> (('e + 'b) \<times> 'w) option) \<Rightarrow> 'w \<Rightarrow> (('e + 'b) \<times> 'w) option" where
  "lift_act m k w = (case m w of (Inl e, w') \<Rightarrow> Some (Inl e, w') | (Inr v, w') \<Rightarrow> k v w')"

text \<open>The end of the method: \<open>n\<close> is the next revision, \<open>s\<close> the replayed run.\<close>

definition restart_with_authority :: "('l, 'x) coordinator \<Rightarrow> run_args \<Rightarrow> authority_event \<Rightarrow> replayed \<Rightarrow> nat \<Rightarrow> work_package \<Rightarrow>
    'l \<times> 'x \<Rightarrow> ((exn + run_locals) \<times> ('l \<times> 'x)) option" where
  "restart_with_authority c a authority s n lastWp =
     lift_act (emit c a ''RUN_RESUMED'' (no_payload\<lparr>pl_attemptId := rs_attemptId s,
         pl_authorityType := Some (token_name (ae_authorityType authority))\<rparr>) n) (\<lambda>rn.
     lift_act (fresh_package c lastWp) (\<lambda>wp.
     lift_act (randomUUID c) (\<lambda>attempt.
       execute_run c wp a (Some \<lparr>rl_state = RS_STARTING, rl_wp = wp, rl_attemptId = attempt,
         rl_revision = rn, rl_pendingAction = rs_pendingAction s, rl_pendingGate = rs_pendingGate s,
         rl_pendingAuthorityType = rs_pendingAuthorityType s, rl_repairAttempts = rs_repairAttempts s\<rparr>))))"

definition resumeWithAuthority :: "('l, 'x) coordinator \<Rightarrow> string \<Rightarrow> owner_event \<Rightarrow> 'l \<times> 'x \<Rightarrow>
    ((exn + run_locals) \<times> ('l \<times> 'x)) option" where
  "resumeWithAuthority c runId ev =
     (case ev of
        SealedOwnerAuthorityEvent authority \<Rightarrow>
          lift_act (on_store (lo_getEvents (co_ledger c) runId)) (\<lambda>events.
            case events of
              [] \<Rightarrow> lift_act (act_throw (no_events runId)) (\<lambda>u. Some \<circ> act_return u)
            | e # _ \<Rightarrow>
              lift_act (randomUUID c) (\<lambda>attempt0.
                let s = replay attempt0 events;
                    a = \<lparr>ra_workflowRunId = runId, ra_correlationId = ae_correlationId authority,
                         ra_projectId = pe_projectId e, ra_causationId = Some (ae_eventId authority)\<rparr> in
                case check_authority (co_canonicalTaskId c) runId authority s of
                  Inl err \<Rightarrow> lift_act (act_throw err) (\<lambda>u. Some \<circ> act_return u)
                | Inr lastWp \<Rightarrow>
                    restart_with_authority c a authority s (length events + 1) lastWp))
      | _ \<Rightarrow> lift_act (act_throw (GenericError
               ''Untrusted owner event: Forgeable ProjectEvent rejected. Must be a SealedOwnerAuthorityEvent.''))
               (\<lambda>u. Some \<circ> act_return u))"

definition check_reconciling :: "string \<Rightarrow> replayed \<Rightarrow> exn + work_package" where
  "check_reconciling runId s =
     (case rs_wp s of
        None \<Rightarrow> Inl (GenericError (''Cannot resume workflow '' @ runId @ '': No valid work package found in event history.''))
      | Some wp \<Rightarrow>
          if rs_state s \<noteq> RS_RECONCILING
          then Inl (GenericError (''Cannot resume workflow '' @ runId @ '' from reconciliation in state '' @
                 run_state_name (rs_state s)))
          else Inr wp)"

text \<open>The value is \<open>None\<close> after an unsafe outcome: no run is started.\<close>

definition restart_after_outcome :: "('l, 'x) coordinator \<Rightarrow> run_args \<Rightarrow> outcome \<Rightarrow> replayed \<Rightarrow> nat \<Rightarrow> work_package \<Rightarrow>
    'l \<times> 'x \<Rightarrow> ((exn + run_locals option) \<times> ('l \<times> 'x)) option" where
  "restart_after_outcome c a proof s n lastWp =
     lift_act (emit c a ''RECONCILIATION_OUTCOME'' (no_payload\<lparr>pl_attemptId := rs_attemptId s,
         pl_safeToRetry := Some (oc_safeToRetry proof), pl_verifiedBy := Some (oc_verifiedBy proof),
         pl_reason := Some (oc_reason proof)\<rparr>) n) (\<lambda>rn.
     if \<not> oc_safeToRetry proof then
       lift_act (emit c a ''RUN_BLOCKED'' (no_payload\<lparr>pl_attemptId := rs_attemptId s,
         pl_reason := Some (''RECONCILIATION_UNSAFE: '' @ oc_reason proof)\<rparr>) rn) (\<lambda>_. Some \<circ> act_return None)
     else
       lift_act (fresh_package c lastWp) (\<lambda>wp.
       lift_act (randomUUID c) (\<lambda>attempt w.
         map_option (\<lambda>(r, w'). (map_sum id Some r, w'))
           (execute_run c wp a (Some \<lparr>rl_state = RS_REPAIRING, rl_wp = wp, rl_attemptId = attempt,
             rl_revision = rn, rl_pendingAction = None, rl_pendingGate = None,
             rl_pendingAuthorityType = None, rl_repairAttempts = rs_repairAttempts s\<rparr>) w))))"

definition resumeFromReconciliation :: "('l, 'x) coordinator \<Rightarrow> string \<Rightarrow> outcome_arg \<Rightarrow> 'l \<times> 'x \<Rightarrow>
    ((exn + run_locals option) \<times> ('l \<times> 'x)) option" where
  "resumeFromReconciliation c runId v =
     (case v of
        SealedReconciliationOutcome proof \<Rightarrow>
          lift_act (on_store (lo_getEvents (co_ledger c) runId)) (\<lambda>events.
            case events of
              [] \<Rightarrow> lift_act (act_throw (no_events runId)) (\<lambda>u. Some \<circ> act_return u)
            | e # _ \<Rightarrow>
              lift_act (randomUUID c) (\<lambda>attempt0.
                let s = replay_reconciling attempt0 events;
                    a = \<lparr>ra_workflowRunId = runId, ra_correlationId = oc_correlationId proof,
                         ra_projectId = pe_projectId e, ra_causationId = Some (oc_causationId proof)\<rparr> in
                case check_reconciling runId s of
                  Inl err \<Rightarrow> lift_act (act_throw err) (\<lambda>u. Some \<circ> act_return u)
                | Inr lastWp \<Rightarrow>
                    restart_after_outcome c a proof s (length events + 1) lastWp))
      | UnbrandedOutcome \<Rightarrow> lift_act (act_throw (GenericError
               ''Untrusted reconciliation outcome: must be a SealedReconciliationOutcome from TrustedReconciliationIssuer.''))
               (\<lambda>u. Some \<circ> act_return u))"

end
