(* ===== verification/Run_Trace.thy ===== *)
theory Run_Trace
  imports Run_Coordinator
begin

text \<open>
  What a run writes: the successor table of run events, the specification of actions that append to
  the log of one run (\<open>appending\<close>), and the effect of one pass of the coordinator's loop and of the whole loop
  on the log, proved once from the contract of the ledger.
\<close>

section \<open>The order of run events\<close>

definition next_events :: "string \<Rightarrow> string list" where
  "next_events t =
     (if t = ''RUN_STARTED'' \<or> t = ''RUN_REPAIR_STARTED'' then [''RUN_DISPATCHED'']
      else if t = ''RUN_DISPATCHED'' then [''RUN_COMPLETED'']
      else if t = ''RUN_COMPLETED'' then [''EVALUATION_PASSED'', ''EVALUATION_FAILED_REPAIRABLE'', ''EVALUATION_NEEDS_EVIDENCE'',
        ''EVALUATION_AMBIGUOUS_SIDE_EFFECT'', ''EVALUATION_OWNER_DECISION_REQUIRED'', ''RUN_CLOSED'', ''RUN_BLOCKED'']
      else if t = ''EVALUATION_FAILED_REPAIRABLE'' \<or> t = ''EVALUATION_NEEDS_EVIDENCE'' then [''RUN_REPAIR_STARTED'']
      else if t = ''EVALUATION_PASSED'' then [''RUN_STARTED'']
      else [])"

definition first_event :: "run_state \<Rightarrow> string" where
  "first_event s = (if s = RS_STARTING then ''RUN_STARTED'' else ''RUN_REPAIR_STARTED'')"

definition run_path :: "run_state \<Rightarrow> run_event list \<Rightarrow> bool" where
  "run_path s es \<longleftrightarrow> successively (\<lambda>t u. u \<in> set (next_events t)) (map pe_eventType es) \<and>
     (es \<noteq> [] \<longrightarrow> pe_eventType (hd es) = first_event s)"

definition repairs :: "run_event list \<Rightarrow> nat" where
  "repairs es = length (filter (\<lambda>e. pe_eventType e = ''EVALUATION_FAILED_REPAIRABLE'' \<or>
     pe_eventType e = ''EVALUATION_NEEDS_EVIDENCE'') es)"

lemma repairs_append [simp]: "repairs (xs @ ys) = repairs xs + repairs ys"
  by (simp add: repairs_def)

text \<open>The state that a replay of the log gives against the local variables of the run.\<close>

definition agrees :: "replayed \<Rightarrow> run_locals \<Rightarrow> bool" where
  "agrees s L \<longleftrightarrow> rs_wp s = Some (rl_wp L) \<and> rs_attemptId s = Some (rl_attemptId L) \<and> rs_state s = rl_state L \<and>
     rs_pendingAction s = rl_pendingAction L \<and> rs_pendingGate s = rl_pendingGate L \<and>
     rs_pendingAuthorityType s = rl_pendingAuthorityType L"

definition ended :: "run_locals \<Rightarrow> bool" where
  "ended L \<longleftrightarrow> rl_state L \<in> {RS_WAITING_FOR_OWNER, RS_RECONCILING, RS_CLOSED, RS_BLOCKED}"

text \<open>What one pass or the whole loop may have done, as far as the written events \<open>es\<close> tell.\<close>

definition kept_count :: "run_locals \<Rightarrow> run_event list \<Rightarrow> run_locals \<Rightarrow> bool" where
  "kept_count L es L' \<longleftrightarrow>
     (\<forall>s. (rs_repairAttempts s \<le> rl_repairAttempts L \<longrightarrow>
            rs_repairAttempts (fold replay_event es s) \<le> rl_repairAttempts L') \<and>
          (rs_repairAttempts s = rl_repairAttempts L \<and> (\<forall>e \<in> set es. pe_eventType e \<noteq> ''EVALUATION_NEEDS_EVIDENCE'') \<longrightarrow>
            rs_repairAttempts (fold replay_event es s) = rl_repairAttempts L'))"

definition finished :: "run_locals \<Rightarrow> run_event list \<Rightarrow> run_locals \<Rightarrow> bool" where
  "finished L es L' \<longleftrightarrow> ended L' \<and> rl_revision L' = rl_revision L + length es \<and> es \<noteq> [] \<and>
     next_events (pe_eventType (last es)) = [] \<and> (\<forall>s. agrees (fold replay_event es s) L') \<and> kept_count L es L'"

definition continues :: "run_locals \<Rightarrow> run_event list \<Rightarrow> run_locals \<Rightarrow> bool" where
  "continues L es L' \<longleftrightarrow> rl_state L' \<in> {RS_STARTING, RS_REPAIRING} \<and> rl_revision L' = rl_revision L + length es \<and> es \<noteq> [] \<and>
     next_events (pe_eventType (last es)) = [first_event (rl_state L')] \<and> kept_count L es L'"

definition within_repairs :: "nat \<Rightarrow> run_locals \<Rightarrow> run_event list \<Rightarrow> bool" where
  "within_repairs m L es \<longleftrightarrow> rl_repairAttempts L + repairs es \<le> max m (rl_repairAttempts L)"

lemma kept_count_trans: "kept_count L es L1 \<Longrightarrow> kept_count L1 es' L' \<Longrightarrow> kept_count L (es @ es') L'"
  by (simp add: kept_count_def)

lemma continues_then_finished:
  "continues L es L1 \<Longrightarrow> finished L1 es' L' \<Longrightarrow> finished L (es @ es') L'"
  by (auto simp: continues_def finished_def intro: kept_count_trans)

lemma run_path_append:
  "run_path s es \<Longrightarrow> run_path s' es' \<Longrightarrow> es \<noteq> [] \<Longrightarrow> next_events (pe_eventType (last es)) = [first_event s'] \<Longrightarrow>
   run_path s (es @ es')"
  by (cases "es' = []") (auto simp: run_path_def successively_append_iff last_map hd_map)

section \<open>Actions that append to the log of a run\<close>

locale coordinated = run_ledger "co_ledger c" log
  for c :: "('l, 'x) coordinator" and log :: "'l \<Rightarrow> string \<Rightarrow> run_event list"
begin

definition free_from :: "run_args \<Rightarrow> 'l \<Rightarrow> nat \<Rightarrow> bool" where
  "free_from a l n \<longleftrightarrow> (\<forall>e \<in> set (log l (ra_workflowRunId a)). pe_aggregateRevision e < n)"

definition appended :: "run_args \<Rightarrow> nat \<Rightarrow> 'l \<Rightarrow> run_event list \<Rightarrow> 'l \<Rightarrow> bool" where
  "appended a n l es l' \<longleftrightarrow> log l' = (log l)(ra_workflowRunId a := log l (ra_workflowRunId a) @ es) \<and>
     map pe_aggregateRevision es = [n..<n + length es] \<and>
     (\<forall>e \<in> set es. pe_aggregateId e = ra_workflowRunId a \<and> pe_projectId e = ra_projectId a \<and>
        pe_correlationId e = ra_correlationId a)"

definition appending :: "run_args \<Rightarrow> nat \<Rightarrow> ('l \<times> 'x, exn, 'a) act \<Rightarrow> (exn + 'a \<Rightarrow> run_event list \<Rightarrow> bool) \<Rightarrow> bool" where
  "appending a n m Q \<longleftrightarrow> (\<forall>l x. free_from a l n \<longrightarrow>
     (\<forall>r l' x'. m (l, x) = (r, (l', x')) \<longrightarrow> (\<exists>es. appended a n l es l' \<and> Q r es)))"

lemma appended_Nil: "appended a n l [] l' \<longleftrightarrow> log l' = log l"
  by (auto simp: appended_def fun_eq_iff)

lemma appended_append: "appended a n l es l1 \<Longrightarrow> appended a (n + length es) l1 es' l2 \<Longrightarrow> appended a n l (es @ es') l2"
proof -
  have "[n..<n + length (es @ es')] = [n..<n + length es] @ [n + length es..<n + length es + length es']"
    using upt_add_eq_append [of n "n + length es" "length es'"] by (simp add: add.assoc)
  then show "appended a n l es l1 \<Longrightarrow> appended a (n + length es) l1 es' l2 \<Longrightarrow> appended a n l (es @ es') l2"
    unfolding appended_def map_append by (metis Un_iff append.assoc fun_upd_same fun_upd_upd set_append)
qed

lemma appended_free: "free_from a l n \<Longrightarrow> appended a n l es l' \<Longrightarrow> free_from a l' (n + length es)"
proof -
  assume f: "free_from a l n" and es: "appended a n l es l'"
  have "pe_aggregateRevision e < n + length es" if "e \<in> set es" for e
  proof -
    have "pe_aggregateRevision e \<in> set (map pe_aggregateRevision es)" using that by simp
    then show ?thesis using es by (simp only: appended_def set_upt) simp
  qed
  then show ?thesis using f es by (fastforce simp: free_from_def appended_def)
qed

lemma appending_return: "Q (Inr y) [] \<Longrightarrow> appending a n (act_return y) Q"
  by (auto simp: appending_def act_return_def appended_Nil intro!: exI [of _ "[]"])

lemma appending_throw: "Q (Inl e) [] \<Longrightarrow> appending a n (act_throw e) Q"
  by (auto simp: appending_def act_throw_def appended_Nil intro!: exI [of _ "[]"])

lemma appending_silent:
  "(\<And>l x r l' x'. m (l, x) = (r, (l', x')) \<Longrightarrow> l' = l) \<Longrightarrow> (\<And>r. Q r []) \<Longrightarrow> appending a n m Q"
  unfolding appending_def by (metis appended_Nil)

lemma appending_agent: "(\<And>r. Q r []) \<Longrightarrow> appending a n (on_agent m) Q"
  by (rule appending_silent) (auto simp: on_agent_def split: prod.splits)

lemma appending_uuid: "(\<And>u. Q (Inr u) []) \<Longrightarrow> appending a n (randomUUID c) Q"
  by (auto simp: appending_def randomUUID_def appended_Nil split: prod.splits intro!: exI [of _ "[]"])

lemma appending_bind:
  "appending a n m (\<lambda>r es. case r of Inl e \<Rightarrow> Q (Inl e) es
     | Inr y \<Rightarrow> appending a (n + length es) (k y) (\<lambda>r' es'. Q r' (es @ es'))) \<Longrightarrow>
   appending a n (act_bind m k) Q"
  unfolding appending_def
proof (intro allI impI)
  fix l x r l' x'
  assume m: "\<forall>l x. free_from a l n \<longrightarrow> (\<forall>r l' x'. m (l, x) = (r, l', x') \<longrightarrow> (\<exists>es. appended a n l es l' \<and>
      (case r of Inl e \<Rightarrow> Q (Inl e) es | Inr y \<Rightarrow> \<forall>l x. free_from a l (n + length es) \<longrightarrow> (\<forall>r l' x'. k y (l, x) = (r, l', x') \<longrightarrow>
        (\<exists>es'. appended a (n + length es) l es' l' \<and> Q r (es @ es'))))))"
    and f: "free_from a l n" and b: "act_bind m k (l, x) = (r, l', x')"
  obtain r1 l1 x1 where m1: "m (l, x) = (r1, l1, x1)" by (metis prod_cases3)
  then obtain es where es: "appended a n l es l1" "case r1 of Inl e \<Rightarrow> Q (Inl e) es
      | Inr y \<Rightarrow> \<forall>l x. free_from a l (n + length es) \<longrightarrow> (\<forall>r l' x'. k y (l, x) = (r, l', x') \<longrightarrow>
        (\<exists>es'. appended a (n + length es) l es' l' \<and> Q r (es @ es')))" using m f by blast
  show "\<exists>es. appended a n l es l' \<and> Q r es"
  proof (cases r1)
    case (Inl e)
    then show ?thesis using b m1 es by (auto simp: act_bind_def)
  next
    case (Inr y)
    then have "k y (l1, x1) = (r, l', x')" using b m1 by (simp add: act_bind_def)
    then obtain es' where "appended a (n + length es) l1 es' l'" "Q r (es @ es')"
      using es(2) appended_free [OF f es(1)] unfolding Inr sum.case by meson
    then show ?thesis using appended_append [OF es(1)] by blast
  qed
qed

lemma appending_emit:
  assumes "\<And>e. Q (Inl e) []" "\<And>eid now. Q (Inr (n + 1)) [run_event a t p n eid now]"
  shows "appending a n (emit c a t p n) Q"
  unfolding appending_def
proof (intro allI impI)
  fix l x r l' x'
  assume f: "free_from a l n" and e: "emit c a t p n (l, x) = (r, l', x')"
  obtain eid x1 where u: "ho_uuid (co_host c) x = (eid, x1)" by fastforce
  let ?ev = "run_event a t p n eid (ho_now (co_host c) x1)"
  obtain q l1 where q: "lo_append (co_ledger c) ?ev l = (q, l1)" by fastforce
  show "\<exists>es. appended a n l es l' \<and> Q r es"
  proof (cases q)
    case (Inl err)
    then have "r = Inl err" "log l' = log l" using e u q append_fails
      by (auto simp: emit_def act_bind_def randomUUID_def)
    then show ?thesis using assms(1) appended_Nil by blast
  next
    case (Inr v)
    have "log l1 = (log l)(ra_workflowRunId a := log l (ra_workflowRunId a) @ [?ev])"
      using append_ok [OF q [unfolded Inr]] f by (simp add: free_from_def run_event_def)
    moreover have "r = Inr (n + 1)" "l' = l1" using e u q Inr by (auto simp: emit_def act_bind_def randomUUID_def)
    ultimately have "appended a n l [?ev] l'" by (simp add: appended_def run_event_def)
    then show ?thesis using assms(2) \<open>r = Inr (n + 1)\<close> by blast
  qed
qed

end


section \<open>One pass of the loop\<close>

definition core_agrees :: "replayed \<Rightarrow> run_locals \<Rightarrow> bool" where
  "core_agrees s L \<longleftrightarrow> rs_wp s = Some (rl_wp L) \<and> rs_attemptId s = Some (rl_attemptId L) \<and>
     rs_pendingAction s = rl_pendingAction L \<and> rs_pendingGate s = rl_pendingGate L \<and>
     rs_pendingAuthorityType s = rl_pendingAuthorityType L"

definition stops :: "run_locals \<Rightarrow> bool \<Rightarrow> bool" where
  "stops L brk \<longleftrightarrow> brk \<or> rl_state L = RS_CLOSED \<or> rl_state L = RS_BLOCKED"

text \<open>What the event of a verdict says of the local variables after it.\<close>

definition verdict_event :: "nat \<Rightarrow> run_locals \<Rightarrow> run_event \<Rightarrow> run_locals \<Rightarrow> bool \<Rightarrow> bool" where
  "verdict_event m L ev L' brk \<longleftrightarrow> pe_eventType ev \<in> set (next_events ''RUN_COMPLETED'') \<and>
     rl_revision L' = rl_revision L + 1 \<and> kept_count L [ev] L' \<and>
     rl_repairAttempts L' = rl_repairAttempts L + repairs [ev] \<and> (repairs [ev] \<noteq> 0 \<longrightarrow> rl_repairAttempts L < m) \<and>
     (if stops L' brk then ended L' \<and> next_events (pe_eventType ev) = [] \<and>
        (\<forall>s. core_agrees s L \<longrightarrow> agrees (replay_event ev s) L')
      else rl_state L' \<in> {RS_STARTING, RS_REPAIRING} \<and> next_events (pe_eventType ev) = [first_event (rl_state L')])"

text \<open>The tables by event type, so that proofs need not compare texts.\<close>

lemma next_events_table:
  "next_events ''RUN_STARTED'' = [''RUN_DISPATCHED'']"
  "next_events ''RUN_REPAIR_STARTED'' = [''RUN_DISPATCHED'']"
  "next_events ''RUN_DISPATCHED'' = [''RUN_COMPLETED'']"
  "next_events ''EVALUATION_FAILED_REPAIRABLE'' = [''RUN_REPAIR_STARTED'']"
  "next_events ''EVALUATION_NEEDS_EVIDENCE'' = [''RUN_REPAIR_STARTED'']"
  "next_events ''EVALUATION_AMBIGUOUS_SIDE_EFFECT'' = []"
  "next_events ''EVALUATION_OWNER_DECISION_REQUIRED'' = []"
  "next_events ''EVALUATION_PASSED'' = [''RUN_STARTED'']"
  "next_events ''RUN_CLOSED'' = []"
  "next_events ''RUN_BLOCKED'' = []"
  by (simp_all add: next_events_def)

lemma verdict_types:
  "''EVALUATION_FAILED_REPAIRABLE'' \<in> set (next_events ''RUN_COMPLETED'')"
  "''EVALUATION_NEEDS_EVIDENCE'' \<in> set (next_events ''RUN_COMPLETED'')"
  "''EVALUATION_AMBIGUOUS_SIDE_EFFECT'' \<in> set (next_events ''RUN_COMPLETED'')"
  "''EVALUATION_OWNER_DECISION_REQUIRED'' \<in> set (next_events ''RUN_COMPLETED'')"
  "''EVALUATION_PASSED'' \<in> set (next_events ''RUN_COMPLETED'')"
  "''RUN_CLOSED'' \<in> set (next_events ''RUN_COMPLETED'')"
  "''RUN_BLOCKED'' \<in> set (next_events ''RUN_COMPLETED'')"
  by (simp_all add: next_events_def)

lemma repairs_table:
  "pe_eventType ev = ''RUN_STARTED'' \<Longrightarrow> repairs [ev] = 0"
  "pe_eventType ev = ''RUN_REPAIR_STARTED'' \<Longrightarrow> repairs [ev] = 0"
  "pe_eventType ev = ''RUN_DISPATCHED'' \<Longrightarrow> repairs [ev] = 0"
  "pe_eventType ev = ''RUN_COMPLETED'' \<Longrightarrow> repairs [ev] = 0"
  "pe_eventType ev = ''EVALUATION_FAILED_REPAIRABLE'' \<Longrightarrow> repairs [ev] = 1"
  "pe_eventType ev = ''EVALUATION_NEEDS_EVIDENCE'' \<Longrightarrow> repairs [ev] = 1"
  "pe_eventType ev = ''EVALUATION_AMBIGUOUS_SIDE_EFFECT'' \<Longrightarrow> repairs [ev] = 0"
  "pe_eventType ev = ''EVALUATION_OWNER_DECISION_REQUIRED'' \<Longrightarrow> repairs [ev] = 0"
  "pe_eventType ev = ''EVALUATION_PASSED'' \<Longrightarrow> repairs [ev] = 0"
  "pe_eventType ev = ''RUN_CLOSED'' \<Longrightarrow> repairs [ev] = 0"
  "pe_eventType ev = ''RUN_BLOCKED'' \<Longrightarrow> repairs [ev] = 0"
  by (simp_all add: repairs_def)

lemma replay_table:
  "pe_eventType ev = ''RUN_STARTED'' \<Longrightarrow> replay_event ev s = s\<lparr>rs_wp := pl_workPackage (pe_payload ev), rs_attemptId := pl_attemptId (pe_payload ev),
     rs_pendingAction := pl_pendingAction (pe_payload ev), rs_pendingGate := pl_pendingGate (pe_payload ev),
     rs_pendingAuthorityType := pl_pendingAuthorityType (pe_payload ev), rs_state := RS_RUNNING\<rparr>"
  "pe_eventType ev = ''RUN_REPAIR_STARTED'' \<Longrightarrow> replay_event ev s = s\<lparr>rs_wp := pl_workPackage (pe_payload ev), rs_attemptId := pl_attemptId (pe_payload ev),
     rs_pendingAction := pl_pendingAction (pe_payload ev), rs_pendingGate := pl_pendingGate (pe_payload ev),
     rs_pendingAuthorityType := pl_pendingAuthorityType (pe_payload ev), rs_state := RS_RUNNING\<rparr>"
  "pe_eventType ev = ''RUN_DISPATCHED'' \<Longrightarrow> replay_event ev s = s\<lparr>rs_state := RS_RUNNING\<rparr>"
  "pe_eventType ev = ''RUN_COMPLETED'' \<Longrightarrow> replay_event ev s = s\<lparr>rs_state := RS_EVALUATING\<rparr>"
  "pe_eventType ev = ''EVALUATION_FAILED_REPAIRABLE'' \<Longrightarrow> replay_event ev s = s\<lparr>rs_repairAttempts := repairs_after s (pe_payload ev), rs_state := RS_REPAIRING\<rparr>"
  "pe_eventType ev = ''EVALUATION_NEEDS_EVIDENCE'' \<Longrightarrow> replay_event ev s = s"
  "pe_eventType ev = ''EVALUATION_AMBIGUOUS_SIDE_EFFECT'' \<Longrightarrow> replay_event ev s = s\<lparr>rs_state := RS_RECONCILING\<rparr>"
  "pe_eventType ev = ''EVALUATION_OWNER_DECISION_REQUIRED'' \<Longrightarrow> replay_event ev s = s\<lparr>rs_state := RS_WAITING_FOR_OWNER,
     rs_pendingAction := pl_pendingAction (pe_payload ev), rs_pendingGate := pl_pendingGate (pe_payload ev),
     rs_pendingAuthorityType := pl_pendingAuthorityType (pe_payload ev)\<rparr>"
  "pe_eventType ev = ''EVALUATION_PASSED'' \<Longrightarrow> replay_event ev s = s"
  "pe_eventType ev = ''RUN_CLOSED'' \<Longrightarrow> replay_event ev s = s\<lparr>rs_state := RS_CLOSED\<rparr>"
  "pe_eventType ev = ''RUN_BLOCKED'' \<Longrightarrow> replay_event ev s = s\<lparr>rs_state := RS_BLOCKED\<rparr>"
  by (simp_all add: replay_event_def Let_def)

lemmas event_tables = next_events_table verdict_types repairs_table replay_table

lemmas event_simps = run_event_def no_payload_def verdict_event_def stops_def ended_def agrees_def core_agrees_def
  kept_count_def repairs_after_def first_event_def event_tables

definition plain_event :: "string \<Rightarrow> run_event \<Rightarrow> bool" where
  "plain_event t ev \<longleftrightarrow> pe_eventType ev = t \<and> repairs [ev] = 0 \<and>
     (\<forall>s L. core_agrees (replay_event ev s) L = core_agrees s L \<and>
        rs_repairAttempts (replay_event ev s) = rs_repairAttempts s)"

lemma plain_run_event:
  "t = ''RUN_DISPATCHED'' \<or> t = ''RUN_COMPLETED'' \<Longrightarrow> plain_event t (run_event a t p n eid now)"
  by (auto simp: plain_event_def run_event_def event_tables core_agrees_def)

context coordinated
begin

lemma appending_mono:
  "appending a n m Q \<Longrightarrow> (\<And>r es. Q r es \<Longrightarrow> Q' r es) \<Longrightarrow> appending a n m Q'"
  unfolding appending_def by blast

lemma appending_block:
  "rl_revision L = n \<Longrightarrow> (\<And>e. Q (Inl e) []) \<Longrightarrow> (\<And>ev. verdict_event m L ev (L\<lparr>rl_state := RS_BLOCKED, rl_revision := n + 1\<rparr>) False \<Longrightarrow>
     Q (Inr (L\<lparr>rl_state := RS_BLOCKED, rl_revision := n + 1\<rparr>, False)) [ev]) \<Longrightarrow> appending a n (block_run c a reason L) Q"
  unfolding block_run_def emit_and_def
  by (intro appending_bind, simp, rule appending_emit) (auto intro!: appending_return simp: event_simps)

lemma appending_next_attempt:
  "(\<And>t w. Q (Inr (L\<lparr>rl_state := RS_REPAIRING, rl_attemptId := t, rl_repairAttempts := rl_repairAttempts L + 1,
       rl_wp := (rl_wp L)\<lparr>wp_workPackageId := w, wp_objective := objective\<rparr>\<rparr>)) []) \<Longrightarrow> appending a n (next_attempt c L objective) Q"
  unfolding next_attempt_def by (intro appending_bind appending_uuid) (simp add: appending_bind appending_uuid appending_return)

lemma apply_verdict_writes:
  "appending a (rl_revision L) (apply_verdict c a L v) (\<lambda>r es. case r of
     Inl e \<Rightarrow> es = [] \<or> (\<exists>ev. es = [ev] \<and> pe_eventType ev = ''EVALUATION_PASSED'')
   | Inr (L', brk) \<Rightarrow> \<exists>ev. es = [ev] \<and> verdict_event (co_maxRepairAttempts c) L ev L' brk)"
proof (cases "rv_decision v")
  case RD_PASS
  then show ?thesis unfolding apply_verdict_def emit_and_def Let_def
    by (simp, intro appending_bind appending_emit)
       (auto simp: event_simps intro!: appending_return appending_bind appending_uuid appending_throw)
next
  case RD_FAIL_REPAIRABLE
  then show ?thesis unfolding apply_verdict_def emit_and_def Let_def
    by (auto simp: event_simps with_constraints_def split: option.split
        intro!: appending_block appending_return appending_bind appending_emit appending_next_attempt)
next
  case RD_NEEDS_EVIDENCE
  then show ?thesis unfolding apply_verdict_def emit_and_def Let_def
    by (auto simp: event_simps intro!: appending_block appending_return appending_bind appending_emit appending_next_attempt)
qed (auto simp: apply_verdict_def emit_and_def Let_def event_simps
    intro!: appending_block appending_return appending_bind appending_emit)

lemma begin_step_writes:
  assumes "rl_state L = RS_STARTING \<or> rl_state L = RS_REPAIRING"
  shows "appending a (rl_revision L) (begin_step c a L) (\<lambda>r es. case r of
     Inl e \<Rightarrow> es = []
   | Inr L1 \<Rightarrow> L1 = L\<lparr>rl_state := RS_RUNNING, rl_revision := rl_revision L + 1\<rparr> \<and>
       (\<exists>ev. es = [ev] \<and> pe_eventType ev = first_event (rl_state L) \<and> repairs [ev] = 0 \<and>
          (\<forall>s. core_agrees (replay_event ev s) L \<and> rs_repairAttempts (replay_event ev s) = rs_repairAttempts s)))"
  using assms unfolding begin_step_def
  by (auto simp: event_simps intro!: appending_bind appending_emit appending_return)

lemma dispatch_step_writes:
  "appending a (rl_revision L) (dispatch_step c a L) (\<lambda>r es. case r of
     Inl e \<Rightarrow> es = [] \<or> (\<exists>ev. es = [ev] \<and> plain_event ''RUN_DISPATCHED'' ev)
   | Inr (rid, st, L1) \<Rightarrow> L1 = L\<lparr>rl_revision := rl_revision L + 1\<rparr> \<and>
       (\<exists>ev. es = [ev] \<and> plain_event ''RUN_DISPATCHED'' ev))"
  unfolding dispatch_step_def
  by (auto simp: plain_run_event split: sum.split intro!: appending_bind appending_agent appending_emit appending_return)

lemma evaluate_step_writes:
  "appending a (rl_revision L) (evaluate_step c a L rid st) (\<lambda>r es. case r of
     Inl e \<Rightarrow> es = [] \<or> (\<exists>ev. plain_event ''RUN_COMPLETED'' ev \<and>
       (es = [ev] \<or> (\<exists>ev'. es = [ev, ev'] \<and> pe_eventType ev' = ''EVALUATION_PASSED'')))
   | Inr (L', brk) \<Rightarrow> \<exists>ev ev'. es = [ev, ev'] \<and> plain_event ''RUN_COMPLETED'' ev \<and>
       verdict_event (co_maxRepairAttempts c) (L\<lparr>rl_state := RS_EVALUATING, rl_revision := rl_revision L + 1\<rparr>) ev' L' brk)"
    (is "appending a _ _ ?Q")
proof -
  have inner: "appending a (rl_revision L + 1) (apply_verdict c a (L\<lparr>rl_state := RS_EVALUATING, rl_revision := rl_revision L + 1\<rparr>) v)
      (\<lambda>r es. ?Q r (ev # es))" if "plain_event ''RUN_COMPLETED'' ev" for v ev
  proof -
    define L1 where "L1 = L\<lparr>rl_state := RS_EVALUATING, rl_revision := rl_revision L + 1\<rparr>"
    have n: "rl_revision L + 1 = rl_revision L1" by (simp add: L1_def)
    show ?thesis unfolding L1_def [symmetric] unfolding n
      by (rule appending_mono, rule apply_verdict_writes) (use that in \<open>auto split: sum.splits\<close>)
  qed
  have outer: "appending a (rl_revision L)
      (act_bind (emit c a ''RUN_COMPLETED'' (no_payload\<lparr>pl_attemptId := Some (rl_attemptId L), pl_result := Some res\<rparr>) (rl_revision L))
        (\<lambda>rn. apply_verdict c a (L\<lparr>rl_state := RS_EVALUATING, rl_revision := rn\<rparr>) v)) ?Q" for res v
  proof (intro appending_bind appending_emit, goal_cases)
    case (2 eid now)
    show ?case
      using inner [of "run_event a ''RUN_COMPLETED'' (no_payload\<lparr>pl_attemptId := Some (rl_attemptId L), pl_result := Some res\<rparr>)
        (rl_revision L) eid now" v] plain_run_event unfolding sum.case append_Cons append_Nil by simp
  qed simp
  show ?thesis unfolding appending_def
  proof (intro allI impI)
    fix l x r l' x'
    assume f: "free_from a l (rl_revision L)" and e: "evaluate_step c a L rid st (l, x) = (r, l', x')"
    obtain res v x2 where j: "judge c a L rid st x = ((res, v), x2)" by (metis prod.exhaust)
    show "\<exists>es. appended a (rl_revision L) l es l' \<and> ?Q r es"
      using outer [of "case res of None \<Rightarrow> Inl (join '';'' (rv_findings v)) | Some y \<Rightarrow> Inr y" v] f e
      unfolding appending_def evaluate_step_def j prod.case by blast
  qed
qed

end

text \<open>One pass, whatever the agent, the reviewer and the ledger answered.\<close>

definition pass_wrote :: "nat \<Rightarrow> run_locals \<Rightarrow> exn + run_locals \<times> bool \<Rightarrow> run_event list \<Rightarrow> bool" where
  "pass_wrote m L r es \<longleftrightarrow> run_path (rl_state L) es \<and>
     (case r of
        Inl e \<Rightarrow> repairs es = 0
      | Inr (L', brk) \<Rightarrow> rl_repairAttempts L' = rl_repairAttempts L + repairs es \<and> (repairs es \<noteq> 0 \<longrightarrow> rl_repairAttempts L < m) \<and>
          repairs es \<le> 1 \<and> (if stops L' brk then finished L es L' else continues L es L'))"

lemma first_event_next: "next_events (first_event s) = [''RUN_DISPATCHED'']"
  by (simp add: first_event_def next_events_table)

lemma pass_wrote_full:
  assumes "pe_eventType s = first_event (rl_state L)" "repairs [s] = 0"
    and s: "\<And>z. core_agrees (replay_event s z) L \<and> rs_repairAttempts (replay_event s z) = rs_repairAttempts z"
    and d: "plain_event ''RUN_DISPATCHED'' d" and k: "plain_event ''RUN_COMPLETED'' k"
    and v: "verdict_event m (L\<lparr>rl_state := RS_EVALUATING, rl_revision := rl_revision L + 3\<rparr>) v L' brk"
  shows "pass_wrote m L (Inr (L', brk)) [s, d, k, v]"
proof -
  have path: "run_path (rl_state L) [s, d, k, v]"
    using assms by (simp add: run_path_def plain_event_def verdict_event_def first_event_next next_events_table)
  have rep: "repairs [s, d, k, v] = repairs [v]"
    using repairs_append [of "[s]" "[d, k, v]"] repairs_append [of "[d]" "[k, v]"] repairs_append [of "[k]" "[v]"] assms
    by (simp add: plain_event_def)
  let ?z = "\<lambda>z. replay_event k (replay_event d (replay_event s z))"
  have core: "core_agrees (?z z) (L\<lparr>rl_state := RS_EVALUATING, rl_revision := rl_revision L + 3\<rparr>)" for z
    using s [of z] d k by (simp add: plain_event_def) (simp add: core_agrees_def)
  have count: "rs_repairAttempts (?z z) = rs_repairAttempts z" for z
    using s [of z] d k by (simp add: plain_event_def)
  have "kept_count L [s, d, k, v] L'"
    using v by (auto simp: verdict_event_def kept_count_def count)
  then show ?thesis using path rep v core
    by (auto simp: pass_wrote_def verdict_event_def finished_def continues_def repairs_def split: if_splits)
qed

lemma pass_wrote_error:
  assumes "pe_eventType s = first_event (rl_state L)" "repairs [s] = 0"
  shows "pass_wrote m L (Inl e) []" "pass_wrote m L (Inl e) [s]"
    "plain_event ''RUN_DISPATCHED'' d \<Longrightarrow> pass_wrote m L (Inl e) [s, d]"
    "plain_event ''RUN_DISPATCHED'' d \<Longrightarrow> plain_event ''RUN_COMPLETED'' k \<Longrightarrow> pass_wrote m L (Inl e) [s, d, k]"
    "plain_event ''RUN_DISPATCHED'' d \<Longrightarrow> plain_event ''RUN_COMPLETED'' k \<Longrightarrow> pe_eventType v = ''EVALUATION_PASSED'' \<Longrightarrow>
     pass_wrote m L (Inl e) [s, d, k, v]"
  using assms repairs_append [of "[s]" "[d]"] repairs_append [of "[s]" "[d, k]"] repairs_append [of "[d]" "[k]"]
    repairs_append [of "[s, d, k]" "[v]"]
  by (auto simp: pass_wrote_def run_path_def plain_event_def first_event_next next_events_table verdict_types repairs_table repairs_def)

context coordinated
begin

lemma run_body_writes:
  assumes start: "rl_state L \<in> {RS_STARTING, RS_REPAIRING}" and f: "free_from a l (rl_revision L)"
    and b: "run_body c a L (l, x) = Some (r, (l', x'))"
  shows "\<exists>es. appended a (rl_revision L) l es l' \<and> pass_wrote (co_maxRepairAttempts c) L r es"
proof -
  obtain r1 l1 x1 where s1: "begin_step c a L (l, x) = (r1, (l1, x1))" by (metis prod_cases3)
  obtain es1 where e1: "appended a (rl_revision L) l es1 l1" "case r1 of Inl e \<Rightarrow> es1 = []
     | Inr L1 \<Rightarrow> L1 = L\<lparr>rl_state := RS_RUNNING, rl_revision := rl_revision L + 1\<rparr> \<and>
       (\<exists>ev. es1 = [ev] \<and> pe_eventType ev = first_event (rl_state L) \<and> repairs [ev] = 0 \<and>
          (\<forall>s. core_agrees (replay_event ev s) L \<and> rs_repairAttempts (replay_event ev s) = rs_repairAttempts s))"
    using begin_step_writes [of L a] start f s1 unfolding appending_def by blast
  show ?thesis
  proof (cases r1)
    case (Inl e)
    then show ?thesis using b s1 e1 by (auto simp: run_body_def pass_wrote_def run_path_def repairs_def)
  next
    case (Inr L1)
    then obtain ev1 where L1: "L1 = L\<lparr>rl_state := RS_RUNNING, rl_revision := rl_revision L + 1\<rparr>" "es1 = [ev1]"
      and ev1: "pe_eventType ev1 = first_event (rl_state L)" "repairs [ev1] = 0"
      "\<And>s. core_agrees (replay_event ev1 s) L \<and> rs_repairAttempts (replay_event ev1 s) = rs_repairAttempts s"
      using e1(2) by auto
    have n1: "rl_revision L1 = rl_revision L + length es1" using L1 by simp
    obtain r2 l2 x2 where s2: "dispatch_step c a L1 (l1, x1) = (r2, (l2, x2))" by (metis prod_cases3)
    obtain es2 where e2: "appended a (rl_revision L1) l1 es2 l2" "case r2 of
         Inl e \<Rightarrow> es2 = [] \<or> (\<exists>ev. es2 = [ev] \<and> plain_event ''RUN_DISPATCHED'' ev)
       | Inr (rid, st, L2) \<Rightarrow> L2 = L1\<lparr>rl_revision := rl_revision L1 + 1\<rparr> \<and> (\<exists>ev. es2 = [ev] \<and> plain_event ''RUN_DISPATCHED'' ev)"
      using dispatch_step_writes [of a L1] appended_free [OF f e1(1)] s2 unfolding appending_def n1 by blast
    have a2: "appended a (rl_revision L) l (es1 @ es2) l2" using appended_append [OF e1(1)] e2(1) n1 by simp
    show ?thesis
    proof (cases r2)
      case (Inl e)
      then show ?thesis using b s1 s2 a2 e2(2) L1 Inr pass_wrote_error [OF ev1(1,2)] by (auto simp: run_body_def)
    next
      case (Inr y)
      then obtain rid st L2 ev2 where y: "r2 = Inr (rid, st, L2)" "L2 = L1\<lparr>rl_revision := rl_revision L1 + 1\<rparr>" "es2 = [ev2]"
        "plain_event ''RUN_DISPATCHED'' ev2" using e2(2) by (cases y) auto
      obtain q where q: "wait_status c rid (ho_now (co_host c) x2) st x2 = Some q"
        using b s1 s2 \<open>r1 = Inr L1\<close> L1 y by (auto simp: run_body_def split: option.splits)
      obtain z x3 where z: "q = (z, x3)" by force
      show ?thesis
      proof (cases z)
        case (Inl e)
        then show ?thesis using b s1 s2 a2 L1 y q z \<open>r1 = Inr L1\<close> pass_wrote_error(3) [OF ev1(1,2)] by (auto simp: run_body_def)
      next
        case (Inr st')
        then have s3: "evaluate_step c a L2 rid st' (l2, x3) = (r, (l', x'))"
          using b s1 s2 L1 y q z \<open>r1 = Inr L1\<close> by (simp add: run_body_def)
        have L2: "L2 = L\<lparr>rl_state := RS_RUNNING, rl_revision := rl_revision L + 2\<rparr>" using y L1 by simp
        have n2: "rl_revision L2 = rl_revision L + length (es1 @ es2)" using L1 y by simp
        obtain es3 where e3: "appended a (rl_revision L2) l2 es3 l'" and es3: "case r of
             Inl e \<Rightarrow> es3 = [] \<or> (\<exists>ev. plain_event ''RUN_COMPLETED'' ev \<and>
               (es3 = [ev] \<or> (\<exists>ev'. es3 = [ev, ev'] \<and> pe_eventType ev' = ''EVALUATION_PASSED'')))
           | Inr (L', brk) \<Rightarrow> \<exists>ev ev'. es3 = [ev, ev'] \<and> plain_event ''RUN_COMPLETED'' ev \<and>
               verdict_event (co_maxRepairAttempts c) (L2\<lparr>rl_state := RS_EVALUATING, rl_revision := rl_revision L2 + 1\<rparr>) ev' L' brk"
          using evaluate_step_writes [of a L2 rid st'] appended_free [OF f a2] s3 unfolding appending_def n2 by blast
        have a3: "appended a (rl_revision L) l (ev1 # ev2 # es3) l'"
          using appended_append [OF a2] e3 n2 L1 y by simp
        have "pass_wrote (co_maxRepairAttempts c) L r (ev1 # ev2 # es3)"
        proof (cases r)
          case (Inl e)
          then show ?thesis using es3 pass_wrote_error [OF ev1(1,2)] y(4) by auto
        next
          case (Inr p)
          then show ?thesis using es3 pass_wrote_full [OF ev1 y(4)] L2 by (cases p) (auto simp: numeral_3_eq_3)
        qed
        then show ?thesis using a3 by blast
      qed
    qed
  qed
qed

section \<open>The whole loop\<close>

definition run_wrote :: "nat \<Rightarrow> run_locals \<Rightarrow> exn + run_locals \<Rightarrow> run_event list \<Rightarrow> bool" where
  "run_wrote m L r es \<longleftrightarrow> run_path (rl_state L) es \<and> within_repairs m L es \<and>
     (case r of Inl e \<Rightarrow> True | Inr L' \<Rightarrow> finished L es L')"

lemma pass_stops: "pass_wrote m L (Inr (L', brk)) es \<Longrightarrow> stops L' brk \<Longrightarrow> run_wrote m L (Inr L') es"
  by (auto simp: pass_wrote_def run_wrote_def within_repairs_def)

lemma pass_fails: "pass_wrote m L (Inl e) es \<Longrightarrow> run_wrote m L (Inl e) es"
  by (auto simp: pass_wrote_def run_wrote_def within_repairs_def)

lemma pass_then_run:
  "pass_wrote m L (Inr (L1, brk)) es \<Longrightarrow> \<not> stops L1 brk \<Longrightarrow> run_wrote m L1 r es' \<Longrightarrow> run_wrote m L r (es @ es')"
  by (auto simp: pass_wrote_def run_wrote_def within_repairs_def continues_def max_def
      intro!: run_path_append continues_then_finished [unfolded continues_def] split: sum.splits if_splits)

lemma run_loop_writes:
  assumes "run_loop c a L w = Some q" "rl_state L \<in> {RS_STARTING, RS_REPAIRING}" "free_from a (fst w) (rl_revision L)"
  shows "\<exists>es. appended a (rl_revision L) (fst w) es (fst (snd q)) \<and> run_wrote (co_maxRepairAttempts c) L (fst q) es"
proof -
  let ?goal = "\<lambda>a L w q. \<exists>es. appended a (rl_revision L) (fst w) es (fst (snd q)) \<and> run_wrote (co_maxRepairAttempts c) L (fst q) es"
  let ?P = "\<lambda>c' a L w q. c' = c \<longrightarrow> (rl_state L \<in> {RS_CLOSED, RS_BLOCKED} \<longrightarrow> q = (Inr L, w)) \<and>
    (rl_state L \<in> {RS_STARTING, RS_REPAIRING} \<longrightarrow> free_from a (fst w) (rl_revision L) \<longrightarrow> ?goal a L w q)"
  have "?P c a L w q"
  proof (rule run_loop.raw_induct [where P = ?P, OF _ assms(1)], intro impI conjI)
    fix f c' a L w q
    assume IH: "\<And>c' a L w q. f c' a L w = Some q \<Longrightarrow> ?P c' a L w q"
      and e: "(if rl_state L = RS_CLOSED \<or> rl_state L = RS_BLOCKED then Some (Inr L, w)
        else Option.bind (run_body c' a L w) (\<lambda>(r, w'). case r of Inl e \<Rightarrow> Some (Inl e, w')
          | Inr (L', brk) \<Rightarrow> if brk then Some (Inr L', w') else f c' a L' w')) = Some q"
      and c: "c' = c" and st: "rl_state L \<in> {RS_STARTING, RS_REPAIRING}" and fr: "free_from a (fst w) (rl_revision L)"
    obtain l x where w: "w = (l, x)" by force
    obtain r l1 x1 where b: "run_body c a L (l, x) = Some (r, (l1, x1))"
      using e c st w by (auto simp: bind_eq_Some_conv)
    obtain es where es: "appended a (rl_revision L) l es l1" "pass_wrote (co_maxRepairAttempts c) L r es"
      using run_body_writes [OF st _ b] fr w by auto
    show "\<exists>es. appended a (rl_revision L) (fst w) es (fst (snd q)) \<and> run_wrote (co_maxRepairAttempts c) L (fst q) es"
    proof (cases r)
      case (Inl err)
      then show ?thesis using e b c st w es pass_fails [OF es(2) [unfolded Inl]] by fastforce
    next
      case (Inr p)
      obtain L1 brk where p: "p = (L1, brk)" by force
      note pw = es(2) [unfolded Inr p]
      show ?thesis
      proof (cases brk)
        case True
        then show ?thesis using e b c st w es(1) pass_stops [OF pw] Inr p by (fastforce simp: stops_def)
      next
        case nobrk: False
        then have q: "f c a L1 (l1, x1) = Some q" using e b c st w Inr p by auto
        show ?thesis
        proof (cases "stops L1 brk")
          case True
          then have "q = (Inr L1, (l1, x1))" using IH [OF q] nobrk by (auto simp: stops_def)
          then show ?thesis using es(1) pass_stops [OF pw True] w by auto
        next
          case False
          have cont: "continues L es L1" using es(2) False Inr p by (simp add: pass_wrote_def)
          then have "free_from a l1 (rl_revision L1)" using appended_free [OF _ es(1)] fr w by (simp add: continues_def)
          then obtain es' where "appended a (rl_revision L1) l1 es' (fst (snd q))" "run_wrote (co_maxRepairAttempts c) L1 (fst q) es'"
            using IH [OF q] cont by (auto simp: continues_def)
          moreover have "rl_revision L1 = rl_revision L + length es" using cont by (simp add: continues_def)
          ultimately have "appended a (rl_revision L) l (es @ es') (fst (snd q))"
            "run_wrote (co_maxRepairAttempts c) L (fst q) (es @ es')"
            using appended_append [OF es(1)] pass_then_run [OF pw False] by simp_all
          then show ?thesis unfolding w fst_conv by blast
        qed
      qed
    qed
  qed auto
  then show ?thesis using assms(2,3) by blast
qed

end

end
