(* ===== verification/Run_Termination.thy ===== *)
theory Run_Termination
  imports Run_Trace
begin

text \<open>
  When the loops of the run coordinator end: polling ends because the clock advances, repairs because they
  are counted, and continuations because the reviewer's plan is finite.
\<close>

text \<open>A host whose timer waits at least a millisecond and whose clock is not set back.\<close>

definition clock_advances :: "('l, 'x) coordinator \<Rightarrow> bool" where
  "clock_advances c \<longleftrightarrow> (\<forall>d x. ho_now (co_host c) (ho_sleep (co_host c) d x) \<ge> ho_now (co_host c) x + 1) \<and>
     (\<forall>i x. ho_now (co_host c) (snd (br_getStatus (co_bridge c) i x)) \<ge> ho_now (co_host c) x)"

text \<open>
  A bound on the PASS verdicts still to come: no call raises it, and each PASS lowers it. It is a function of the
  outer world, such as the length of the reviewer's remaining plan.
\<close>

definition plan_bound :: "('l, 'x) coordinator \<Rightarrow> ('x \<Rightarrow> nat) \<Rightarrow> bool" where
  "plan_bound c B \<longleftrightarrow>
     (\<forall>wp ctx x. B (snd (br_dispatch (co_bridge c) wp ctx x)) \<le> B x) \<and>
     (\<forall>i x. B (snd (br_getStatus (co_bridge c) i x)) \<le> B x) \<and>
     (\<forall>i x. B (snd (br_getResult (co_bridge c) i x)) \<le> B x) \<and>
     (\<forall>i x. B (snd (br_cancel (co_bridge c) i x)) \<le> B x) \<and>
     (\<forall>d x. B (ho_sleep (co_host c) d x) \<le> B x) \<and>
     (\<forall>x. B (snd (ho_uuid (co_host c) x)) \<le> B x) \<and>
     (\<forall>r q x. B (snd (co_reviewer c r q x)) \<le> B x) \<and>
     (\<forall>r q x v x'. co_reviewer c r q x = (Inr v, x') \<longrightarrow> rv_decision v = RD_PASS \<longrightarrow> B x' < B x)"

lemma plan_boundD:
  assumes "plan_bound c B"
  shows "B (snd (br_dispatch (co_bridge c) wp ctx x)) \<le> B x" "B (snd (br_getStatus (co_bridge c) i x)) \<le> B x"
    "B (snd (br_getResult (co_bridge c) i x)) \<le> B x" "B (snd (br_cancel (co_bridge c) i x)) \<le> B x"
    "B (ho_sleep (co_host c) d x) \<le> B x" "B (snd (ho_uuid (co_host c) x)) \<le> B x" "B (snd (co_reviewer c r q x)) \<le> B x"
    "co_reviewer c r q x = (Inr v, x') \<Longrightarrow> rv_decision v = RD_PASS \<Longrightarrow> B x' < B x"
  using assms unfolding plan_bound_def by blast+

abbreviation below :: "('x \<Rightarrow> nat) \<Rightarrow> nat \<Rightarrow> 'l \<times> 'x \<Rightarrow> bool" where
  "below B k w \<equiv> B (snd w) \<le> k"

lemma uuid_below: "plan_bound c B \<Longrightarrow> ho_uuid (co_host c) x = (u, x') \<Longrightarrow> B x' \<le> B x"
  by (metis plan_boundD(6) snd_conv)

lemma keeps_uuid [keeps]: "plan_bound c B \<Longrightarrow> act_keeps (below B k) (randomUUID c)"
  by (auto simp: act_keeps_def randomUUID_def split: prod.split dest: uuid_below intro: order_trans)

lemma keeps_emit [keeps]: "plan_bound c B \<Longrightarrow> act_keeps (below B k) (emit c a t p n)"
  unfolding emit_def
  by (rule keeps_bind, erule keeps_uuid) (auto simp: act_keeps_def split: prod.split sum.split)

lemma keeps_agent: "(\<And>x. B (snd (m x)) \<le> B x) \<Longrightarrow> act_keeps (below B k) (on_agent m)"
  unfolding act_keeps_def on_agent_def by (auto split: prod.split) (metis dual_order.trans snd_conv)

lemma keeps_begin: "plan_bound c B \<Longrightarrow> act_keeps (below B k) (begin_step c a L)"
  unfolding begin_step_def by (auto intro!: keeps)

lemma keeps_dispatch: "plan_bound c B \<Longrightarrow> act_keeps (below B k) (dispatch_step c a L)"
  unfolding dispatch_step_def by (intro keeps keeps_agent plan_boundD)

lemma keeps_verdict: "plan_bound c B \<Longrightarrow> act_keeps (below B k) (apply_verdict c a L v)"
  unfolding apply_verdict_def block_run_def emit_and_def next_attempt_def Let_def
  by (auto intro!: keeps split: review_decision.split prod.split)

lemma wait_status_returns:
  assumes "clock_advances c" "plan_bound c B"
  shows "\<exists>r x'. wait_status c rid start st x = Some (r, x') \<and> B x' \<le> B x"
proof (induction "nat (co_timeoutMs c - (ho_now (co_host c) x - start))" arbitrary: st x rule: less_induct)
  case less
  show ?case
  proof (cases "classifyStatus st = NON_TERMINAL \<and> ho_now (co_host c) x - start < co_timeoutMs c")
    case True
    obtain r x' where g: "br_getStatus (co_bridge c) rid (ho_sleep (co_host c) (co_intervalMs c) x) = (r, x')" by force
    have "ho_now (co_host c) x' \<ge> ho_now (co_host c) x + 1"
      using assms(1) g unfolding clock_advances_def by (metis dual_order.trans snd_conv)
    moreover have "B x' \<le> B x" using plan_boundD(2,5) [OF assms(2)] g by (metis dual_order.trans snd_conv)
    ultimately have "\<exists>r x2. wait_status c rid start st' x' = Some (r, x2) \<and> B x2 \<le> B x" for st'
      using less(1) [of x' st'] True by fastforce
    then show ?thesis using True g \<open>B x' \<le> B x\<close> by (subst wait_status.simps) (auto split: sum.split)
  qed (subst wait_status.simps, auto)
qed

lemma judge_below: "plan_bound c B \<Longrightarrow> judge c a L rid st x = ((res, v), x') \<Longrightarrow>
    B x' \<le> B x \<and> (rv_decision v = RD_PASS \<longrightarrow> B x' < B x)"
proof -
  assume b: "plan_bound c B" and j: "judge c a L rid st x = ((res, v), x')"
  obtain g x1 where g: "br_getResult (co_bridge c) rid x = (g, x1)" by force
  have x1: "B x1 \<le> B x" using plan_boundD(3) [OF b, of rid x] g by simp
  have rv: "B (snd (co_reviewer c r q x1)) \<le> B x" for r q using plan_boundD(7) [OF b, of r q x1] x1 by simp
  have pass: "co_reviewer c r q x1 = (Inr u, x2) \<Longrightarrow> rv_decision u = RD_PASS \<Longrightarrow> B x2 < B x" for r q u x2
    using plan_boundD(8) [OF b, of r q x1 u x2] x1 by simp
  show ?thesis
  proof (cases "classifyStatus st")
    case TERMINAL
    then show ?thesis
    proof (cases g)
      case (Inr r)
      obtain z x2 where z: "co_reviewer c r (review_request_of a L) x1 = (z, x2)" by force
      show ?thesis using j TERMINAL g Inr z x1 rv [of r "review_request_of a L"] pass [of r "review_request_of a L" _ x2] z
        by (cases z) (auto simp: judge_def system_verdict_def split: if_splits)
    qed (use j g x1 in \<open>auto simp: judge_def system_verdict_def\<close>)
  qed (use j plan_boundD(4) [OF b, of rid x] in \<open>auto simp: judge_def system_verdict_def\<close>)
qed


section \<open>One pass and the loop\<close>

lemma apply_verdict_next:
  assumes "apply_verdict c a L v w = (Inr (L', brk), w')" "\<not> stops L' brk"
  shows "(rl_state L' = RS_STARTING \<and> rv_decision v = RD_PASS \<and> rl_repairAttempts L' = rl_repairAttempts L) \<or>
    (rl_state L' = RS_REPAIRING \<and> rl_repairAttempts L' = rl_repairAttempts L + 1 \<and> rl_repairAttempts L < co_maxRepairAttempts c)"
  using assms
  by (cases "rv_decision v")
     (auto simp: apply_verdict_def block_run_def emit_and_def next_attempt_def Let_def act_bind_returns stops_def
        act_return_def act_throw_def split: if_splits)

lemma run_body_next:
  assumes "clock_advances c" "plan_bound c B" "rl_state L \<in> {RS_STARTING, RS_REPAIRING}"
  shows "\<exists>r l' x'. run_body c a L (l, x) = Some (r, (l', x')) \<and>
    (\<forall>L' brk. r = Inr (L', brk) \<longrightarrow> \<not> stops L' brk \<longrightarrow> rl_state L' \<in> {RS_STARTING, RS_REPAIRING} \<and>
      (B x' < B x \<and> rl_repairAttempts L' = rl_repairAttempts L \<or>
       B x' \<le> B x \<and> rl_repairAttempts L' = rl_repairAttempts L + 1 \<and> rl_repairAttempts L < co_maxRepairAttempts c))"
proof -
  obtain r1 l1 x1 where s1: "begin_step c a L (l, x) = (r1, (l1, x1))" by (metis prod_cases3)
  have b1: "B x1 \<le> B x" using keeps_begin [OF assms(2), of "B x" a L] s1 unfolding act_keeps_def by (metis order_refl snd_conv)
  show ?thesis
  proof (cases r1)
    case (Inr L1)
    have L1: "rl_state L1 = RS_RUNNING" "rl_repairAttempts L1 = rl_repairAttempts L"
      using s1 assms(3) Inr by (auto simp: begin_step_def act_bind_returns act_return_def)
    obtain r2 l2 x2 where s2: "dispatch_step c a L1 (l1, x1) = (r2, (l2, x2))" by (metis prod_cases3)
    have b2: "B x2 \<le> B x" using keeps_dispatch [OF assms(2), of "B x" a L1] s2 b1 unfolding act_keeps_def by (metis snd_conv)
    show ?thesis
    proof (cases r2)
      case ok: (Inr y)
      obtain rid st L2 where y: "y = (rid, st, L2)" by (metis prod_cases3)
      have L2: "rl_repairAttempts L2 = rl_repairAttempts L"
        using s2 ok y L1 by (auto simp: dispatch_step_def act_bind_returns act_return_def)
      obtain z x3 where w: "wait_status c rid (ho_now (co_host c) x2) st x2 = Some (z, x3)" "B x3 \<le> B x2"
        using wait_status_returns [OF assms(1,2)] by blast
      show ?thesis
      proof (cases z)
        case fin: (Inr st')
        obtain res v x4 where j: "judge c a L2 rid st' x3 = ((res, v), x4)" by (metis prod.exhaust)
        obtain r l' x' where e: "evaluate_step c a L2 rid st' (l2, x3) = (r, (l', x'))" by (metis prod_cases3)
        have b4: "B x4 \<le> B x" "rv_decision v = RD_PASS \<Longrightarrow> B x4 < B x"
          using judge_below [OF assms(2) j] w(2) b2 by auto
        let ?m = "act_bind (emit c a ''RUN_COMPLETED'' (no_payload\<lparr>pl_attemptId := Some (rl_attemptId L2),
            pl_result := Some (case res of None \<Rightarrow> Inl (join '';'' (rv_findings v)) | Some r \<Rightarrow> Inr r)\<rparr>) (rl_revision L2))
          (\<lambda>rn. apply_verdict c a (L2\<lparr>rl_state := RS_EVALUATING, rl_revision := rn\<rparr>) v)"
        have m: "?m (l2, x4) = (r, (l', x'))" using e j by (simp add: evaluate_step_def)
        have "act_keeps (below B (B x4)) ?m" by (intro keeps keeps_emit keeps_verdict assms(2))
        then have b': "B x' \<le> B x4" using m unfolding act_keeps_def by (metis order_refl snd_conv)
        have "run_body c a L (l, x) = Some (r, (l', x'))"
          using s1 s2 Inr L1 ok y w fin e by (simp add: run_body_def)
        moreover have "rl_state L' \<in> {RS_STARTING, RS_REPAIRING} \<and>
            (B x' < B x \<and> rl_repairAttempts L' = rl_repairAttempts L \<or>
             B x' \<le> B x \<and> rl_repairAttempts L' = rl_repairAttempts L + 1 \<and> rl_repairAttempts L < co_maxRepairAttempts c)"
          if "r = Inr (L', brk)" "\<not> stops L' brk" for L' brk
        proof -
          note r = that
          obtain rn w5 where "apply_verdict c a (L2\<lparr>rl_state := RS_EVALUATING, rl_revision := rn\<rparr>) v w5 = (Inr (L', brk), (l', x'))"
            using m [unfolded r(1) act_bind_returns] by blast
          from apply_verdict_next [OF this r(2)] show ?thesis using b' b4 L2 by auto
        qed
        ultimately show ?thesis by blast
      qed (use s1 s2 Inr L1 ok y w in \<open>auto simp: run_body_def\<close>)
    qed (use s1 s2 Inr L1 in \<open>auto simp: run_body_def\<close>)
  qed (use s1 in \<open>auto simp: run_body_def\<close>)
qed

lemma run_loop_returns:
  assumes "clock_advances c" "plan_bound c B"
  shows "rl_state L \<in> {RS_STARTING, RS_REPAIRING} \<Longrightarrow> \<exists>q. run_loop c a L (l, x) = Some q"
proof (induction "(B x, co_maxRepairAttempts c - rl_repairAttempts L)" arbitrary: L l x
    rule: wf_induct_rule [OF wf_lex_prod [OF wf_less_than wf_less_than]])
  case 1
  obtain r l' x' where b: "run_body c a L (l, x) = Some (r, (l', x'))"
    and n: "\<And>L' brk. r = Inr (L', brk) \<Longrightarrow> \<not> stops L' brk \<Longrightarrow> rl_state L' \<in> {RS_STARTING, RS_REPAIRING} \<and>
      (B x' < B x \<and> rl_repairAttempts L' = rl_repairAttempts L \<or>
       B x' \<le> B x \<and> rl_repairAttempts L' = rl_repairAttempts L + 1 \<and> rl_repairAttempts L < co_maxRepairAttempts c)"
    using run_body_next [OF assms 1(2), of a l x] by blast
  show ?case
  proof (cases "\<exists>L' brk. r = Inr (L', brk) \<and> \<not> stops L' brk")
    case True
    then obtain L' brk where r: "r = Inr (L', brk)" "\<not> stops L' brk" by blast
    have "\<exists>q. run_loop c a L' (l', x') = Some q" using n [OF r] by (intro 1(1)) auto
    then show ?thesis using b r 1(2) by (subst run_loop.simps) (auto simp: stops_def)
  next
    case False
    then show ?thesis using b 1(2)
      by (subst run_loop.simps) (auto simp: stops_def run_loop.simps [of c a _ "(l', x')"] split: sum.split)
  qed
qed

end
