(* ===== verification/Run_Resumption.thy ===== *)
theory Run_Resumption
  imports Run_Termination
begin

text \<open>
  Runs over the durable ledger: that they return, what they leave in the ledger, that a replay of the ledger
  gives the state of the run, and what the two ways of resuming a parked run require.
\<close>

section \<open>The two replays\<close>

text \<open>The replay of \<open>resumeFromReconciliation\<close> differs in the pending fields only.\<close>

definition forget_pending :: "replayed \<Rightarrow> replayed" where
  "forget_pending s = s\<lparr>rs_pendingAction := None, rs_pendingGate := None, rs_pendingAuthorityType := None\<rparr>"

lemma replay_event_forgets: "forget_pending (replay_event e s) = replay_event_reconciling e (forget_pending s)"
  by (simp add: replay_event_def replay_event_reconciling_def forget_pending_def repairs_after_def Let_def split: option.split)

lemma replay_forgets: "forget_pending (replay u es) = replay_reconciling u es"
proof -
  have "forget_pending (fold replay_event es s) = fold replay_event_reconciling es (forget_pending s)" for s
    by (induction es arbitrary: s) (simp_all add: replay_event_forgets)
  moreover have "forget_pending (replay_start u) = replay_start u" by (simp add: forget_pending_def replay_start_def)
  ultimately show ?thesis by (simp add: replay_def replay_reconciling_def)
qed

lemma replay_reconciling_state: "rs_state (replay_reconciling u es) = rs_state (replay u es)"
  unfolding replay_forgets [symmetric] by (simp add: forget_pending_def)

lemma replay_append: "replay u (es @ es') = fold replay_event es' (replay u es)"
  by (simp add: replay_def)

lemma replay_event_state: "rs_state s = rs_state t \<Longrightarrow> rs_state (replay_event e s) = rs_state (replay_event e t)"
  unfolding replay_event_def Let_def by simp

lemma replay_state: "rs_state (replay u es) = rs_state (replay u' es)"
proof -
  have "rs_state s = rs_state t \<Longrightarrow> rs_state (fold replay_event es s) = rs_state (fold replay_event es t)" for s t
  proof (induction es arbitrary: s t)
    case (Cons e es)
    from Cons.IH [OF replay_event_state [OF Cons.prems, of e]] show ?case by simp
  qed simp
  then show ?thesis by (simp add: replay_def replay_start_def)
qed

section \<open>Runs over a ledger\<close>

context coordinated
begin

lemma execute_writes:
  assumes "execute_run c wp a None (l, x) = Some (r, (l', x'))" "log l (ra_workflowRunId a) = []"
  shows "\<exists>es. log l' = (log l)(ra_workflowRunId a := es) \<and> map pe_aggregateRevision es = [1..<1 + length es] \<and>
    (\<forall>e \<in> set es. pe_projectId e = ra_projectId a \<and> pe_correlationId e = ra_correlationId a) \<and>
    run_path RS_STARTING es \<and> repairs es \<le> co_maxRepairAttempts c \<and>
    (case r of Inl e \<Rightarrow> True | Inr L \<Rightarrow> \<exists>attempt. finished (initial_locals wp attempt) es L)"
proof -
  obtain u x1 where u: "ho_uuid (co_host c) x = (u, x1)" by force
  have "run_loop c (a\<lparr>ra_causationId := None\<rparr>) (initial_locals wp u) (l, x1) = Some (r, (l', x'))"
    using assms(1) u by (simp add: execute_run_def randomUUID_def)
  from run_loop_writes [OF this] assms(2)
  obtain es where "appended (a\<lparr>ra_causationId := None\<rparr>) 1 l es l'" "run_wrote (co_maxRepairAttempts c) (initial_locals wp u) r es"
    by (auto simp: free_from_def initial_locals_def)
  then show ?thesis
    using assms(2) by (auto simp: appended_def run_wrote_def within_repairs_def initial_locals_def split: sum.splits)
qed

text \<open>Refused resumptions leave the log as it was; \<open>y\<close> is the world after the one identifier that was drawn.\<close>

lemma authority_refused:
  assumes "log l i \<noteq> []" "ho_uuid (co_host c) x = (u, y)"
    and "check_authority (co_canonicalTaskId c) i ae (replay u (log l i)) = Inl err"
  shows "resumeWithAuthority c i (SealedOwnerAuthorityEvent ae) (l, x) = Some (Inl err, (l, y))"
  using assms by (cases "log l i")
    (auto simp: resumeWithAuthority_def lift_act_def on_store_def get_events randomUUID_def act_throw_def Let_def)

lemma reconciliation_refused:
  assumes "log l i \<noteq> []" "ho_uuid (co_host c) x = (u, y)"
    and "check_reconciling i (replay_reconciling u (log l i)) = Inl err"
  shows "resumeFromReconciliation c i (SealedReconciliationOutcome oc) (l, x) = Some (Inl err, (l, y))"
  using assms by (cases "log l i")
    (auto simp: resumeFromReconciliation_def lift_act_def on_store_def get_events randomUUID_def act_throw_def Let_def)

end

section \<open>What a matching authority is\<close>

definition authority_matches :: "string \<Rightarrow> authority_event \<Rightarrow> replayed \<Rightarrow> bool" where
  "authority_matches taskId ae s \<longleftrightarrow> ae_taskId ae = taskId \<and> rs_state s = RS_WAITING_FOR_OWNER \<and>
     truthy (ae_boundToAction ae) \<and> ae_boundToAction ae = rs_pendingAction s \<and>
     ae_boundToGate ae \<noteq> None \<and> map_option gate_name (ae_boundToGate ae) = rs_pendingGate s \<and>
     Some (token_name (ae_authorityType ae)) = rs_pendingAuthorityType s"

lemma gate_name_nonempty [simp]: "gate_name g \<noteq> []"
  by (cases g) simp_all

lemma check_authority_iff:
  "check_authority taskId i ae s = Inr wp \<longleftrightarrow> rs_wp s = Some wp \<and> authority_matches taskId ae s"
  by (cases "ae_boundToGate ae")
     (auto simp: check_authority_def authority_matches_def Let_def mismatch_def split: option.splits if_splits)

lemma check_authority_depends:
  "rs_state s \<noteq> RS_WAITING_FOR_OWNER \<Longrightarrow> \<exists>err. check_authority taskId i ae s = Inl err"
  by (cases "check_authority taskId i ae s") (auto simp: check_authority_iff authority_matches_def)

lemma check_reconciling_iff:
  "check_reconciling i s = Inr wp \<longleftrightarrow> rs_wp s = Some wp \<and> rs_state s = RS_RECONCILING"
  by (auto simp: check_reconciling_def split: option.splits if_splits)


section \<open>What a resumption writes\<close>

context coordinated
begin

definition contiguous :: "'l \<Rightarrow> string \<Rightarrow> bool" where
  "contiguous l i \<longleftrightarrow> map pe_aggregateRevision (log l i) = [1..<1 + length (log l i)]"

definition grows :: "'l \<Rightarrow> string \<Rightarrow> 'l \<Rightarrow> bool" where
  "grows l i l' \<longleftrightarrow> (\<exists>es. log l' = (log l)(i := log l i @ es)) \<and> contiguous l' i"

lemma contiguous_free: "contiguous l (ra_workflowRunId a) \<Longrightarrow> free_from a l (length (log l (ra_workflowRunId a)) + 1)"
proof -
  assume c: "contiguous l (ra_workflowRunId a)"
  have "pe_aggregateRevision e < length (log l (ra_workflowRunId a)) + 1" if "e \<in> set (log l (ra_workflowRunId a))" for e
  proof -
    have "pe_aggregateRevision e \<in> set (map pe_aggregateRevision (log l (ra_workflowRunId a)))" using that by simp
    then show ?thesis unfolding c [unfolded contiguous_def] by auto
  qed
  then show ?thesis by (simp add: free_from_def)
qed

lemma appended_grows:
  assumes "contiguous l (ra_workflowRunId a)" "appended a (length (log l (ra_workflowRunId a)) + 1) l es l'"
  shows "grows l (ra_workflowRunId a) l'"
proof -
  let ?n = "length (log l (ra_workflowRunId a))"
  have "[1..<1 + ?n + length es] = [1..<1 + ?n] @ [1 + ?n..<1 + ?n + length es]"
    using upt_add_eq_append [of 1 "1 + ?n" "length es"] by simp
  moreover have "map pe_aggregateRevision (log l (ra_workflowRunId a)) = [1..<1 + ?n]"
    "log l' = (log l)(ra_workflowRunId a := log l (ra_workflowRunId a) @ es)"
    "map pe_aggregateRevision es = [1 + ?n..<1 + ?n + length es]"
    using assms by (simp_all add: contiguous_def appended_def)
  ultimately show ?thesis unfolding grows_def contiguous_def by (metis add.assoc fun_upd_same length_append map_append)
qed

lemma grows_refl: "contiguous l i \<Longrightarrow> log l' = log l \<Longrightarrow> grows l i l'"
  by (auto simp: grows_def contiguous_def intro!: exI [of _ "[]"])

lemma emit_appends:
  "free_from a l n \<Longrightarrow> emit c a t p n (l, x) = (r, (l', x')) \<Longrightarrow>
   (case r of Inl e \<Rightarrow> log l' = log l
    | Inr n' \<Rightarrow> n' = n + 1 \<and> (\<exists>eid now. appended a n l [run_event a t p n eid now] l'))"
  using appending_emit [of "\<lambda>r es. case r of Inl e \<Rightarrow> es = [] | Inr n' \<Rightarrow> n' = n + 1 \<and> (\<exists>eid now. es = [run_event a t p n eid now])" n a t p]
  unfolding appending_def by (fastforce simp: appended_Nil split: sum.splits)

lemma randomUUID_split: "randomUUID c (l, x) = (r, (l', x')) \<Longrightarrow> l' = l \<and> r = Inr (fst (ho_uuid (co_host c) x)) \<and> x' = snd (ho_uuid (co_host c) x)"
  by (auto simp: randomUUID_def split: prod.splits)

lemma fresh_package_split: "fresh_package c wp (l, x) = (r, (l', x')) \<Longrightarrow> l' = l \<and> (\<exists>u. r = Inr (wp\<lparr>wp_workPackageId := u\<rparr>))"
  by (auto simp: fresh_package_def act_bind_def act_return_def randomUUID_def split: prod.splits)

text \<open>After the event that records the resumption, the run goes on under a fresh package and attempt.\<close>

lemma restart_writes:
  assumes fr: "free_from a l rn" and st: "\<And>wp u. rl_state (L wp u) \<in> {RS_STARTING, RS_REPAIRING} \<and> rl_revision (L wp u) = rn"
    and run: "lift_act (fresh_package c wp) (\<lambda>wp. lift_act (randomUUID c) (\<lambda>u. execute_run c wp a (Some (L wp u)))) (l, x) =
      Some (r, (l', x'))"
  shows "\<exists>es. appended a rn l es l'"
proof -
  obtain wp' y u where "execute_run c wp' a (Some (L wp' u)) (l, y) = Some (r, (l', x'))"
    using run by (auto simp: lift_act_def split: prod.splits sum.splits dest!: fresh_package_split randomUUID_split)
  then have "run_loop c (a\<lparr>ra_causationId := None\<rparr>) (L wp' u) (l, y) = Some (r, (l', x'))" by (simp add: execute_run_def)
  from run_loop_writes [OF this] st [of wp' u] fr show ?thesis
    by (auto simp: free_from_def appended_def)
qed

lemma recorded_grows:
  assumes "contiguous l i" "ra_workflowRunId a = i" "n = length (log l i) + 1"
    and run: "lift_act (emit c a t p n) K (l, y) = Some (r, (l', x'))"
    and K: "\<And>rn l1 x1. free_from a l1 rn \<Longrightarrow> K rn (l1, x1) = Some (r, (l', x')) \<Longrightarrow> \<exists>fs. appended a rn l1 fs l'"
  shows "grows l i l'"
proof -
  have ct: "contiguous l (ra_workflowRunId a)" "n = length (log l (ra_workflowRunId a)) + 1" using assms by simp_all
  obtain q l1 x1 where q: "emit c a t p n (l, y) = (q, (l1, x1))" by (metis prod_cases3)
  have fr: "free_from a l n" using contiguous_free [OF ct(1)] ct(2) by simp
  note em = emit_appends [OF fr q]
  show ?thesis
  proof (cases q)
    case (Inl err)
    then show ?thesis using run q em grows_refl [OF assms(1)] by (simp add: lift_act_def)
  next
    case (Inr rn)
    then obtain eid now where em1: "rn = n + 1" "appended a n l [run_event a t p n eid now] l1" using em by auto
    have "free_from a l1 rn" using appended_free [OF fr em1(2)] em1(1) by simp
    then obtain fs where "appended a rn l1 fs l'" using run q Inr K [of l1 rn x1] by (auto simp: lift_act_def)
    then have "appended a n l ([run_event a t p n eid now] @ fs) l'" using appended_append [OF em1(2)] em1(1) by simp
    then show ?thesis using appended_grows [OF ct(1)] ct(2) assms(2) by simp
  qed
qed

text \<open>A resumption either throws and leaves the log, or passes the checks and goes on from the replay.\<close>

lemma resumeWithAuthority_cases:
  assumes "resumeWithAuthority c i ev (l, x) = Some (r, (l', x'))"
  obtains (refused) err where "r = Inl err" "l' = l"
  | (accepted) ae pid u y wp where "ev = SealedOwnerAuthorityEvent ae"
      "check_authority (co_canonicalTaskId c) i ae (replay u (log l i)) = Inr wp"
      "restart_with_authority c \<lparr>ra_workflowRunId = i, ra_correlationId = ae_correlationId ae, ra_projectId = pid,
         ra_causationId = Some (ae_eventId ae)\<rparr> ae (replay u (log l i)) (length (log l i) + 1) wp (l, y) = Some (r, (l', x'))"
proof (cases "\<exists>err. r = Inl err \<and> l' = l")
  case False
  obtain ae where ev: "ev = SealedOwnerAuthorityEvent ae"
    using assms False by (cases ev) (auto simp: resumeWithAuthority_def lift_act_def act_throw_def)
  obtain e es where es: "log l i = e # es" using assms False ev
    by (cases "log l i") (auto simp: resumeWithAuthority_def lift_act_def act_throw_def on_store_def get_events)
  obtain u y where u: "ho_uuid (co_host c) x = (u, y)" by force
  obtain wp where ck: "check_authority (co_canonicalTaskId c) i ae (replay u (log l i)) = Inr wp"
    using authority_refused [OF _ u] es assms False ev
    by (cases "check_authority (co_canonicalTaskId c) i ae (replay u (log l i))") auto
  have "restart_with_authority c \<lparr>ra_workflowRunId = i, ra_correlationId = ae_correlationId ae, ra_projectId = pe_projectId e,
         ra_causationId = Some (ae_eventId ae)\<rparr> ae (replay u (log l i)) (length (log l i) + 1) wp (l, y) = Some (r, (l', x'))"
    using assms ev es u ck by (simp add: resumeWithAuthority_def lift_act_def on_store_def get_events randomUUID_def Let_def)
  then show thesis using accepted ev ck by blast
qed (use refused in blast)

lemma resumeFromReconciliation_cases:
  assumes "resumeFromReconciliation c i v (l, x) = Some (r, (l', x'))"
  obtains (refused) err where "r = Inl err" "l' = l"
  | (accepted) oc pid u y wp where "v = SealedReconciliationOutcome oc"
      "check_reconciling i (replay_reconciling u (log l i)) = Inr wp"
      "restart_after_outcome c \<lparr>ra_workflowRunId = i, ra_correlationId = oc_correlationId oc, ra_projectId = pid,
         ra_causationId = Some (oc_causationId oc)\<rparr> oc (replay_reconciling u (log l i)) (length (log l i) + 1) wp (l, y) = Some (r, (l', x'))"
proof (cases "\<exists>err. r = Inl err \<and> l' = l")
  case False
  obtain oc where v: "v = SealedReconciliationOutcome oc"
    using assms False by (cases v) (auto simp: resumeFromReconciliation_def lift_act_def act_throw_def)
  obtain e es where es: "log l i = e # es" using assms False v
    by (cases "log l i") (auto simp: resumeFromReconciliation_def lift_act_def act_throw_def on_store_def get_events)
  obtain u y where u: "ho_uuid (co_host c) x = (u, y)" by force
  obtain wp where ck: "check_reconciling i (replay_reconciling u (log l i)) = Inr wp"
    using reconciliation_refused [OF _ u] es assms False v
    by (cases "check_reconciling i (replay_reconciling u (log l i))") auto
  have "restart_after_outcome c \<lparr>ra_workflowRunId = i, ra_correlationId = oc_correlationId oc, ra_projectId = pe_projectId e,
         ra_causationId = Some (oc_causationId oc)\<rparr> oc (replay_reconciling u (log l i)) (length (log l i) + 1) wp (l, y) = Some (r, (l', x'))"
    using assms v es u ck by (simp add: resumeFromReconciliation_def lift_act_def on_store_def get_events randomUUID_def Let_def)
  then show thesis using accepted v ck by blast
qed (use refused in blast)

lemma resumeWithAuthority_grows:
  assumes "contiguous l i" "resumeWithAuthority c i ev (l, x) = Some (r, (l', x'))"
  shows "grows l i l'"
  using assms(2)
proof (cases rule: resumeWithAuthority_cases)
  case (accepted ae pid u y wp)
  note run = accepted(3) [unfolded restart_with_authority_def]
  show ?thesis
  proof (rule recorded_grows [OF assms(1) _ refl run], goal_cases)
    case (2 rn l1 x1)
    show ?case by (rule restart_writes [OF 2(1) _ 2(2)]) simp
  qed simp
qed (use assms(1) grows_refl in blast)

lemma resumeFromReconciliation_grows:
  assumes "contiguous l i" "resumeFromReconciliation c i v (l, x) = Some (r, (l', x'))"
  shows "grows l i l'"
  using assms(2)
proof (cases rule: resumeFromReconciliation_cases)
  case (accepted oc pid u y wp)
  note run = accepted(3) [unfolded restart_after_outcome_def]
  let ?a = "\<lparr>ra_workflowRunId = i, ra_correlationId = oc_correlationId oc, ra_projectId = pid, ra_causationId = Some (oc_causationId oc)\<rparr>"
  show ?thesis
  proof (rule recorded_grows [OF assms(1) _ refl run], goal_cases)
    case (2 rn l1 x1)
    show ?case
    proof (cases "oc_safeToRetry oc")
      case True
      let ?L = "\<lambda>wp attempt. \<lparr>rl_state = RS_REPAIRING, rl_wp = wp, rl_attemptId = attempt, rl_revision = rn, rl_pendingAction = None,
        rl_pendingGate = None, rl_pendingAuthorityType = None, rl_repairAttempts = rs_repairAttempts (replay_reconciling u (log l i))\<rparr>"
      obtain r2 where r2: "lift_act (fresh_package c wp) (\<lambda>wp. lift_act (randomUUID c) (\<lambda>u. execute_run c wp ?a (Some (?L wp u)))) (l1, x1) =
          Some (r2, (l', x'))"
        using 2(2) True by (fastforce simp: lift_act_def split: prod.splits sum.splits)
      show ?thesis by (rule restart_writes [OF 2(1) _ r2]) simp
    next
      case False
      obtain q l2 x2 where q: "emit c ?a ''RUN_BLOCKED'' (no_payload\<lparr>pl_attemptId := rs_attemptId (replay_reconciling u (log l i)),
         pl_reason := Some (''RECONCILIATION_UNSAFE: '' @ oc_reason oc)\<rparr>) rn (l1, x1) = (q, (l2, x2))" by (metis prod_cases3)
      then have "l2 = l'" using 2(2) False by (auto simp: lift_act_def act_return_def split: sum.splits)
      then show ?thesis
      proof (cases q)
        case (Inl e)
        then have "appended ?a rn l1 [] l'" using emit_appends [OF 2(1) q] \<open>l2 = l'\<close> by (simp add: appended_Nil)
        then show ?thesis by blast
      qed (use emit_appends [OF 2(1) q] \<open>l2 = l'\<close> in auto)
    qed
  qed simp
qed (use assms(1) grows_refl in blast)

end


context coordinated
begin

text \<open>A run that is neither waiting for its owner nor for reconciliation cannot be resumed.\<close>

lemma resume_refused_in_state:
  assumes "rs_state (replay u (log l i)) \<noteq> RS_WAITING_FOR_OWNER" "rs_state (replay u (log l i)) \<noteq> RS_RECONCILING"
  shows "\<exists>err z. resumeWithAuthority c i ev (l, x) = Some (Inl err, (l, z))"
    "\<exists>err z. resumeFromReconciliation c i v (l, x) = Some (Inl err, (l, z))"
proof -
  obtain u' y where u: "ho_uuid (co_host c) x = (u', y)" by force
  have st: "rs_state (replay u' (log l i)) = rs_state (replay u (log l i))" by (rule replay_state)
  show "\<exists>err z. resumeWithAuthority c i ev (l, x) = Some (Inl err, (l, z))"
  proof (cases "\<exists>ae. ev = SealedOwnerAuthorityEvent ae \<and> log l i \<noteq> []")
    case True
    then obtain ae where ae: "ev = SealedOwnerAuthorityEvent ae" "log l i \<noteq> []" by blast
    obtain err where "check_authority (co_canonicalTaskId c) i ae (replay u' (log l i)) = Inl err"
      using check_authority_depends assms(1) st by metis
    then show ?thesis using authority_refused [OF ae(2) u] ae(1) by blast
  next
    case False
    then show ?thesis
      by (cases ev) (auto simp: resumeWithAuthority_def lift_act_def act_throw_def on_store_def get_events)
  qed
  show "\<exists>err z. resumeFromReconciliation c i v (l, x) = Some (Inl err, (l, z))"
  proof (cases "\<exists>oc. v = SealedReconciliationOutcome oc \<and> log l i \<noteq> []")
    case True
    then obtain oc where oc: "v = SealedReconciliationOutcome oc" "log l i \<noteq> []" by blast
    obtain err where "check_reconciling i (replay_reconciling u' (log l i)) = Inl err"
      using check_reconciling_iff [of i "replay_reconciling u' (log l i)"] assms(2) st replay_reconciling_state
      by (cases "check_reconciling i (replay_reconciling u' (log l i))") auto
    then show ?thesis using reconciliation_refused [OF oc(2) u] oc(1) by blast
  next
    case False
    then show ?thesis
      by (cases v) (auto simp: resumeFromReconciliation_def lift_act_def act_throw_def on_store_def get_events)
  qed
qed

lemma unsafe_outcome_writes:
  assumes "contiguous l i" "\<not> oc_safeToRetry oc"
    and "resumeFromReconciliation c i (SealedReconciliationOutcome oc) (l, x) = Some (Inr q, (l', x'))"
  shows "q = None \<and> (\<exists>e1 e2. log l' i = log l i @ [e1, e2] \<and> pe_eventType e1 = ''RECONCILIATION_OUTCOME'' \<and> pe_eventType e2 = ''RUN_BLOCKED'')"
  using assms(3)
proof (cases rule: resumeFromReconciliation_cases)
  case (accepted oc' pid u y wp)
  let ?a = "\<lparr>ra_workflowRunId = i, ra_correlationId = oc_correlationId oc, ra_projectId = pid, ra_causationId = Some (oc_causationId oc)\<rparr>"
  have oc: "oc' = oc" using accepted(1) by simp
  note run = accepted(3) [unfolded oc restart_after_outcome_def]
  have fr: "free_from ?a l (length (log l i) + 1)" using contiguous_free [of l ?a] assms(1) by simp
  obtain p1 l1 x1 where e1: "emit c ?a ''RECONCILIATION_OUTCOME'' (no_payload\<lparr>pl_attemptId := rs_attemptId (replay_reconciling u (log l i)),
      pl_safeToRetry := Some (oc_safeToRetry oc), pl_verifiedBy := Some (oc_verifiedBy oc), pl_reason := Some (oc_reason oc)\<rparr>)
      (length (log l i) + 1) (l, y) = (p1, (l1, x1))" by (metis prod_cases3)
  obtain rn where rn: "p1 = Inr rn" using run e1 by (cases p1) (auto simp: lift_act_def)
  obtain ev1 where ev1: "rn = length (log l i) + 2" "appended ?a (length (log l i) + 1) l [ev1] l1" "pe_eventType ev1 = ''RECONCILIATION_OUTCOME''"
    using emit_appends [OF fr e1] rn by (fastforce simp: run_event_def)
  have fr1: "free_from ?a l1 rn" using appended_free [OF fr ev1(2)] ev1(1) by simp
  obtain p2 l2 x2 where e2: "emit c ?a ''RUN_BLOCKED'' (no_payload\<lparr>pl_attemptId := rs_attemptId (replay_reconciling u (log l i)),
      pl_reason := Some (''RECONCILIATION_UNSAFE: '' @ oc_reason oc)\<rparr>) rn (l1, x1) = (p2, (l2, x2))" by (metis prod_cases3)
  have p2: "\<exists>m. p2 = Inr m" "l2 = l'" "q = None" using run e1 rn e2 assms(2) by (cases p2; auto simp: lift_act_def act_return_def)+
  obtain ev2 where ev2: "appended ?a rn l1 [ev2] l2" "pe_eventType ev2 = ''RUN_BLOCKED''"
    using emit_appends [OF fr1 e2] p2 by (fastforce simp: run_event_def)
  then have "log l' i = log l i @ [ev1, ev2]" using ev1(2) p2(2) by (simp add: appended_def)
  then show ?thesis using ev1(3) ev2(2) p2(3) by blast
qed auto

end

section \<open>Runs of the durable coordinator\<close>

interpretation durable: coordinated "c\<lparr>co_ledger := prisma_ledger_ops\<rparr>" prisma_log for c
  by (simp add: coordinated_def prlog.run_ledger_axioms)

interpretation in_memory: coordinated "c\<lparr>co_ledger := memory_log_ops\<rparr>" memory_log for c
  by (simp add: coordinated_def memlog.run_ledger_axioms)

text \<open>The coordinator of the composition root, over the durable ledger.\<close>

definition durable_run :: "(run_payload ledger_db, 'x) coordinator \<Rightarrow> (run_payload ledger_db, 'x) coordinator" where
  "durable_run c = c\<lparr>co_ledger := prisma_ledger_ops\<rparr>"

lemma durable_run_sel [simp]: "co_host (durable_run c) = co_host c" "co_maxRepairAttempts (durable_run c) = co_maxRepairAttempts c"
  "co_canonicalTaskId (durable_run c) = co_canonicalTaskId c" "co_bridge (durable_run c) = co_bridge c"
  "co_reviewer (durable_run c) = co_reviewer c" "co_ledger (durable_run c) = prisma_ledger_ops"
  by (simp_all add: durable_run_def)

text \<open>Calls of the coordinator that return, in any order and with any ids; a new run takes an unused one.\<close>

inductive run_calls :: "(run_payload ledger_db, 'x) coordinator \<Rightarrow> run_payload ledger_db \<times> 'x \<Rightarrow> run_payload ledger_db \<times> 'x \<Rightarrow> bool"
  for c where
  rc_none: "run_calls c w w"
| rc_execute: "run_calls c w (l, x) \<Longrightarrow> prisma_log l (ra_workflowRunId a) = [] \<Longrightarrow>
    execute_run (durable_run c) wp a None (l, x) = Some (r, w') \<Longrightarrow> run_calls c w w'"
| rc_authority: "run_calls c w w1 \<Longrightarrow> resumeWithAuthority (durable_run c) i ev w1 = Some (r1, w') \<Longrightarrow> run_calls c w w'"
| rc_reconciliation: "run_calls c w w1 \<Longrightarrow> resumeFromReconciliation (durable_run c) i v w1 = Some (r2, w') \<Longrightarrow> run_calls c w w'"

lemma grows_contiguous:
  assumes "durable.grows l i l'" "\<And>j. durable.contiguous l j"
  shows "durable.contiguous l' j"
proof (cases "j = i")
  case False
  then have "prisma_log l' j = prisma_log l j" using assms(1) by (auto simp: durable.grows_def)
  then show ?thesis using assms(2) [of j] by (simp only: durable.contiguous_def)
qed (use assms(1) in \<open>simp add: durable.grows_def\<close>)

lemma run_calls_contiguous:
  "run_calls c w w' \<Longrightarrow> (\<And>i. durable.contiguous (fst w) i) \<Longrightarrow> durable.contiguous (fst w') i"
proof (induction arbitrary: i rule: run_calls.induct)
  case (rc_execute w l x a wp r w')
  obtain l' x' where w': "w' = (l', x')" by force
  note e = rc_execute(3) [unfolded w' durable_run_def]
  obtain es where es: "prisma_log l' = (prisma_log l)(ra_workflowRunId a := es)" "map pe_aggregateRevision es = [1..<1 + length es]"
    using durable.execute_writes [OF e rc_execute(2)] by blast
  have "durable.contiguous l j" for j using rc_execute.IH [OF rc_execute.prems, of j] by simp
  then show ?case unfolding w' fst_conv durable.contiguous_def es(1) using es(2) by (simp del: upt_Suc)
next
  case (rc_authority w w1 i' ev r1 w')
  obtain l x l' x' where w: "w1 = (l, x)" "w' = (l', x')" by (metis prod.exhaust)
  have ct: "durable.contiguous l j" for j using rc_authority.IH [OF rc_authority.prems, of j] w by simp
  show ?case using grows_contiguous [OF durable.resumeWithAuthority_grows [OF ct] ct] rc_authority(2)
    unfolding w durable_run_def by simp
next
  case (rc_reconciliation w w1 i' v r2 w')
  obtain l x l' x' where w: "w1 = (l, x)" "w' = (l', x')" by (metis prod.exhaust)
  have ct: "durable.contiguous l j" for j using rc_reconciliation.IH [OF rc_reconciliation.prems, of j] w by simp
  show ?case using grows_contiguous [OF durable.resumeFromReconciliation_grows [OF ct] ct] rc_reconciliation(2)
    unfolding w durable_run_def by simp
qed simp

section \<open>A sample host, agent and project\<close>

definition sample_host :: "nat host" where
  "sample_host = \<lparr>ho_now = int, ho_sleep = (\<lambda>d x. x + 1), ho_uuid = (\<lambda>x. (replicate x CHR ''u'', x + 1))\<rparr>"

definition sample_run_result :: "agent_run_result" where
  "sample_run_result = \<lparr>res_schemaVersion = ''1.0.0'', res_runId = ''r'', res_status = AR_COMPLETED, res_summary = ''s'',
     res_actionsTaken = [], res_artifacts = [], res_findings = [], res_evidence = [], res_unresolvedItems = [],
     res_requestedInputs = [], res_sideEffects = [], res_usage = \<lparr>us_inputUnits = 0, us_outputUnits = 0, us_estimatedCost = 0,
       us_currency = ''EUR'', us_costStatus = COST_UNKNOWN\<rparr>\<rparr>"

definition sample_bridge :: "exn + agent_run_status \<Rightarrow> nat agent_bridge" where
  "sample_bridge st = \<lparr>br_dispatch = (\<lambda>_ _ x. (map_sum id (\<lambda>_. \<lparr>rh_runId = ''r'', rh_status = AR_RUNNING\<rparr>) st, x)),
     br_getStatus = (\<lambda>_ x. (st, x)), br_getResult = (\<lambda>_ x. (Inr sample_run_result, x)), br_cancel = (\<lambda>_ x. (Inr (), x))\<rparr>"

definition sample_coordinator :: "exn + agent_run_status \<Rightarrow> (nat \<Rightarrow> review_verdict) \<Rightarrow> (run_payload ledger_db, nat) coordinator" where
  "sample_coordinator st v = \<lparr>co_bridge = sample_bridge st, co_ledger = prisma_ledger_ops, co_reviewer = (\<lambda>_ _ x. (Inr (v x), x)),
     co_canonicalTaskId = ''t'', co_timeoutMs = 3, co_intervalMs = 1, co_maxRepairAttempts = 2, co_host = sample_host\<rparr>"

definition sample_args :: run_args where
  "sample_args = \<lparr>ra_workflowRunId = ''w'', ra_correlationId = ''c'', ra_projectId = ''p'', ra_causationId = None\<rparr>"

definition sample_project_db :: "run_payload ledger_db" where
  "sample_project_db = \<lparr>ld_projects = [createProject ''p'' ''s'' ''n'' 0], ld_events = [], ld_outbox = [], ld_now = 0\<rparr>"

definition owner_verdict :: review_verdict where
  "owner_verdict = (system_verdict RD_OWNER_DECISION_REQUIRED ''f'')\<lparr>rv_pendingAction := Some ''GIT_COMMIT'',
     rv_pendingGate := Some ''COMMIT'', rv_pendingAuthorityType := Some ''OWNER_COMMIT_APPROVED''\<rparr>"

definition sample_first_run :: "exn + agent_run_status \<Rightarrow> (nat \<Rightarrow> review_verdict) \<Rightarrow> ((exn + run_locals) \<times> (run_payload ledger_db \<times> nat)) option" where
  "sample_first_run st v = execute_run (durable_run (sample_coordinator st v)) sample_package sample_args None (sample_project_db, 0)"

text \<open>The ledger after a call.\<close>

definition ledger_after :: "('a \<times> (run_payload ledger_db \<times> nat)) option \<Rightarrow> run_payload ledger_db" where
  "ledger_after q = (case q of Some (_, (l, _)) \<Rightarrow> l | None \<Rightarrow> empty_ledger)"

definition waiting_db :: "run_payload ledger_db" where
  "waiting_db = ledger_after (sample_first_run (Inr AR_COMPLETED) (\<lambda>_. owner_verdict))"

definition ambiguous_db :: "run_payload ledger_db" where
  "ambiguous_db = ledger_after (sample_first_run (Inr AR_UNKNOWN) (\<lambda>_. owner_verdict))"

definition sample_authority :: "string \<Rightarrow> authority_event" where
  "sample_authority action = \<lparr>ae_eventId = ''e'', ae_ownerRef = ''o'', ae_taskId = ''t'', ae_authorityType = OWNER_COMMIT_APPROVED,
     ae_boundToGate = Some G_COMMIT, ae_boundToAction = Some action, ae_issuedAt = 1, ae_correlationId = ''c''\<rparr>"

definition sample_outcome :: "bool \<Rightarrow> outcome" where
  "sample_outcome safe = \<lparr>oc_safeToRetry = safe, oc_correlationId = ''c'', oc_causationId = ''q'', oc_verifiedBy = ''v'', oc_reason = ''z''\<rparr>"

lemma returns_split: "\<not> isl (fst (the q)) \<Longrightarrow> q \<noteq> None \<Longrightarrow> \<exists>y w. q = Some (Inr y, w)"
  by (cases q) (auto simp: isl_def split: sum.splits, metis isl_def sum.collapse(2) prod.collapse)

lemma sample_run_closes: "\<exists>L w. sample_first_run (Inr AR_COMPLETED) (\<lambda>_. system_verdict RD_COMPLETE ''ok'') = Some (Inr L, w)"
  by (rule returns_split) code_simp+

section \<open>Properties\<close>

text \<open>
  C12: a run returns. When the host's timer advances the clock and the reviewer's plan is finite (\<open>plan_bound\<close>), \<open>execute\<close>
  from a fresh or a reconstructed start ends: polling by the timeout, repairs by their bound.
\<close>

theorem run_returns:
  assumes "clock_advances c" "plan_bound c B"
    and "case reconstructed of None \<Rightarrow> True | Some L \<Rightarrow> rl_state L \<in> {RS_STARTING, RS_REPAIRING}"
  shows "\<exists>r w'. execute_run c wp a reconstructed w = Some (r, w')"
proof -
  obtain l x where w: "w = (l, x)" by force
  have "\<exists>q. run_loop c a' L (l, x') = Some q" if "rl_state L \<in> {RS_STARTING, RS_REPAIRING}" for a' L x'
    using run_loop_returns [OF assms(1,2) that] .
  then show ?thesis using assms(3)
    by (cases reconstructed) (auto simp: w execute_run_def randomUUID_def initial_locals_def split: prod.split)
qed

lemma run_returns_witness:
  "\<exists>r w'. sample_first_run (Inr AR_RUNNING) (\<lambda>_. owner_verdict) = Some (r, w')"
  unfolding sample_first_run_def
proof (rule run_returns [where B = "\<lambda>_. 0"])
  show "clock_advances (durable_run (sample_coordinator (Inr AR_RUNNING) (\<lambda>_. owner_verdict)))"
    by (simp add: clock_advances_def sample_coordinator_def sample_host_def sample_bridge_def)
  show "plan_bound (durable_run (sample_coordinator (Inr AR_RUNNING) (\<lambda>_. owner_verdict))) (\<lambda>_. 0)"
    by (simp add: plan_bound_def sample_coordinator_def owner_verdict_def system_verdict_def)
qed simp

text \<open>
  C13: the history of a run. Over the durable ledger, a first \<open>execute\<close> adds events to its run only, with revisions
  1, 2, ... and the project and correlation of the call; their types follow \<open>next_events\<close> from RUN_STARTED, however the
  call ends. So an ambiguous outcome, a request to the owner, a closure or a block is the last event: the run is not dispatched
  again after it. At most \<open>maxRepairAttempts\<close> verdicts lead to a repair.
\<close>

theorem run_history:
  assumes "prisma_log l (ra_workflowRunId a) = []"
    and "execute_run (durable_run c) wp a None (l, x) = Some (r, (l', x'))"
  shows "\<exists>es. prisma_log l' = (prisma_log l)(ra_workflowRunId a := es) \<and> map pe_aggregateRevision es = [1..<1 + length es] \<and>
    (\<forall>e \<in> set es. pe_projectId e = ra_projectId a \<and> pe_correlationId e = ra_correlationId a) \<and>
    run_path RS_STARTING es \<and> repairs es \<le> co_maxRepairAttempts c"
  using durable.execute_writes [OF assms(2) [unfolded durable_run_def] assms(1)] by auto

lemma run_history_witness:
  "\<exists>r l' x'. sample_first_run (Inr AR_COMPLETED) (\<lambda>_. system_verdict RD_COMPLETE ''ok'') = Some (r, (l', x')) \<and>
     run_path RS_STARTING (prisma_log l' ''w'')"
proof -
  obtain L l' x' where r: "sample_first_run (Inr AR_COMPLETED) (\<lambda>_. system_verdict RD_COMPLETE ''ok'') = Some (Inr L, (l', x'))"
    using sample_run_closes by auto
  have "prisma_log sample_project_db (ra_workflowRunId sample_args) = []" by code_simp
  from run_history [OF this r [unfolded sample_first_run_def]] r show ?thesis by (auto simp: sample_args_def)
qed

text \<open>
  C14: the ledger determines the run. When \<open>execute\<close> ends normally, the run waits for the owner, for reconciliation, is
  closed or blocked, and replaying its events gives its state, work package, attempt and what it waits for. The repair
  count of the replay is the run's count if no verdict asked for evidence, and otherwise may be smaller.
\<close>

theorem replay_gives_the_run:
  assumes "prisma_log l (ra_workflowRunId a) = []"
    and "execute_run (durable_run c) wp a None (l, x) = Some (Inr L, (l', x'))"
  shows "ended L \<and> agrees (replay u (prisma_log l' (ra_workflowRunId a))) L \<and>
    rs_repairAttempts (replay u (prisma_log l' (ra_workflowRunId a))) \<le> rl_repairAttempts L \<and>
    ((\<forall>e \<in> set (prisma_log l' (ra_workflowRunId a)). pe_eventType e \<noteq> ''EVALUATION_NEEDS_EVIDENCE'') \<longrightarrow>
      rs_repairAttempts (replay u (prisma_log l' (ra_workflowRunId a))) = rl_repairAttempts L)"
proof -
  obtain es attempt where "prisma_log l' = (prisma_log l)(ra_workflowRunId a := es)" "finished (initial_locals wp attempt) es L"
    using durable.execute_writes [OF assms(2) [unfolded durable_run_def] assms(1)] by auto
  then show ?thesis
    by (auto simp: finished_def kept_count_def replay_def replay_start_def initial_locals_def)
qed

lemma replay_gives_the_run_witness:
  "\<exists>L l' x'. sample_first_run (Inr AR_COMPLETED) (\<lambda>_. system_verdict RD_COMPLETE ''ok'') = Some (Inr L, (l', x')) \<and>
     ended L \<and> agrees (replay ''u'' (prisma_log l' ''w'')) L"
proof -
  obtain L l' x' where r: "sample_first_run (Inr AR_COMPLETED) (\<lambda>_. system_verdict RD_COMPLETE ''ok'') = Some (Inr L, (l', x'))"
    using sample_run_closes by auto
  have "prisma_log sample_project_db (ra_workflowRunId sample_args) = []" by code_simp
  from replay_gives_the_run [OF this r [unfolded sample_first_run_def], of "''u''"] r show ?thesis by (simp add: sample_args_def)
qed

text \<open>
  Over any sequence of runs and resumptions that return, the events of every run keep the revisions 1, 2, ... without
  gap or repetition, which the unique index of the ledger requires.
\<close>

theorem run_revisions_contiguous:
  assumes "run_calls c (l, x) (l', x')" "\<And>i. prisma_log l i = []"
  shows "map pe_aggregateRevision (prisma_log l' i) = [1..<1 + length (prisma_log l' i)]"
  using run_calls_contiguous [OF assms(1), of i] assms(2) by (simp add: durable.contiguous_def)

lemma run_revisions_contiguous_witness:
  "\<exists>r l' x'. sample_first_run (Inr AR_COMPLETED) (\<lambda>_. system_verdict RD_COMPLETE ''ok'') = Some (r, (l', x')) \<and>
     map pe_aggregateRevision (prisma_log l' ''w'') = [1..<1 + length (prisma_log l' ''w'')]"
proof -
  let ?c = "sample_coordinator (Inr AR_COMPLETED) (\<lambda>_. system_verdict RD_COMPLETE ''ok'')"
  obtain L l' x' where r: "sample_first_run (Inr AR_COMPLETED) (\<lambda>_. system_verdict RD_COMPLETE ''ok'') = Some (Inr L, (l', x'))"
    using sample_run_closes by auto
  have e: "prisma_log sample_project_db i = []" for i by (simp add: sample_project_db_def prisma_log_def memory_log_def)
  have "run_calls ?c (sample_project_db, 0) (l', x')"
    by (rule rc_execute [OF rc_none e r [unfolded sample_first_run_def]])
  from run_revisions_contiguous [OF this e, of "''w''"] r show ?thesis by blast
qed

text \<open>
  C15: only the authority that the run waits for resumes it. Unless the sealed event is for the canonical task and bound to exactly
  the pending action, gate and authority type of a run that waits for its owner, resuming throws: the ledger is
  untouched and neither the agent nor the reviewer is called.
\<close>

theorem authority_must_match:
  assumes "\<not> (\<exists>wp. rs_wp (replay (fst (ho_uuid (co_host c) x)) (prisma_log l i)) = Some wp) \<or>
      \<not> authority_matches (co_canonicalTaskId c) ae (replay (fst (ho_uuid (co_host c) x)) (prisma_log l i))"
  shows "\<exists>err x'. resumeWithAuthority (durable_run c) i (SealedOwnerAuthorityEvent ae) (l, x) = Some (Inl err, (l, x')) \<and>
    x' \<in> {x, snd (ho_uuid (co_host c) x)}"
proof (cases "prisma_log l i")
  case Nil
  then show ?thesis
    by (auto simp: resumeWithAuthority_def lift_act_def on_store_def act_throw_def prlog.get_events)
next
  case (Cons e es)
  obtain u y where u: "ho_uuid (co_host c) x = (u, y)" by force
  obtain err where "check_authority (co_canonicalTaskId c) i ae (replay u (prisma_log l i)) = Inl err"
    using assms u by (cases "check_authority (co_canonicalTaskId c) i ae (replay u (prisma_log l i))") (auto simp: check_authority_iff)
  then show ?thesis
    using durable.authority_refused [of l i c x u y ae err] Cons u by (simp add: durable_run_def)
qed

lemma authority_must_match_witness:
  "\<exists>err x'. resumeWithAuthority (durable_run (sample_coordinator (Inr AR_COMPLETED) (\<lambda>_. owner_verdict))) ''w''
     (SealedOwnerAuthorityEvent (sample_authority ''GIT_PUSH'')) (waiting_db, 9) = Some (Inl err, (waiting_db, x'))"
proof -
  let ?c = "sample_coordinator (Inr AR_COMPLETED) (\<lambda>_. owner_verdict)"
  have "\<not> authority_matches (co_canonicalTaskId ?c) (sample_authority ''GIT_PUSH'')
      (replay (fst (ho_uuid (co_host ?c) 9)) (prisma_log waiting_db ''w''))" by code_simp
  from authority_must_match [OF disjI2 [OF this]] show ?thesis by blast
qed

text \<open>
  An unsafe outcome ends a run for good. When reconciliation with an unsafe outcome returns normally, no run was started, the
  replay of the ledger is BLOCKED, and from then on every resumption of that run throws and changes nothing in the ledger.
\<close>

theorem unsafe_outcome_blocks:
  assumes "resumeFromReconciliation (durable_run c) i (SealedReconciliationOutcome oc) (l, x) = Some (Inr q, (l', x'))"
    and "\<not> oc_safeToRetry oc" "map pe_aggregateRevision (prisma_log l i) = [1..<1 + length (prisma_log l i)]"
  shows "q = None \<and> rs_state (replay u (prisma_log l' i)) = RS_BLOCKED \<and>
    (\<exists>err z. resumeWithAuthority (durable_run c) i ev (l', y) = Some (Inl err, (l', z))) \<and>
    (\<exists>err z. resumeFromReconciliation (durable_run c) i v (l', y) = Some (Inl err, (l', z)))"
proof -
  obtain e1 e2 where q: "q = None" and l': "prisma_log l' i = prisma_log l i @ [e1, e2]" and e2: "pe_eventType e2 = ''RUN_BLOCKED''"
    using durable.unsafe_outcome_writes [OF assms(3) [folded durable.contiguous_def] assms(2) assms(1) [unfolded durable_run_def]] by blast
  have st: "rs_state (replay u (prisma_log l' i)) = RS_BLOCKED" for u
    unfolding l' by (simp add: replay_append replay_table(11) [OF e2])
  then show ?thesis
    using q durable.resume_refused_in_state [of u l' i c] by (simp add: durable_run_def)
qed

lemma unsafe_outcome_blocks_witness:
  "\<exists>l' x'. resumeFromReconciliation (durable_run (sample_coordinator (Inr AR_UNKNOWN) (\<lambda>_. owner_verdict))) ''w''
     (SealedReconciliationOutcome (sample_outcome False)) (ambiguous_db, 9) = Some (Inr None, (l', x')) \<and>
     rs_state (replay ''u'' (prisma_log l' ''w'')) = RS_BLOCKED"
proof -
  let ?q = "resumeFromReconciliation (durable_run (sample_coordinator (Inr AR_UNKNOWN) (\<lambda>_. owner_verdict))) ''w''
     (SealedReconciliationOutcome (sample_outcome False)) (ambiguous_db, 9)"
  have "\<not> isl (fst (the ?q))" "?q \<noteq> None" by code_simp+
  then obtain q l' x' where q: "?q = Some (Inr q, (l', x'))" using returns_split by (metis prod.collapse)
  have "\<not> oc_safeToRetry (sample_outcome False)"
    "map pe_aggregateRevision (prisma_log ambiguous_db ''w'') = [1..<1 + length (prisma_log ambiguous_db ''w'')]" by code_simp+
  from unsafe_outcome_blocks [OF q this] q show ?thesis by blast
qed

section \<open>What resuming does not keep\<close>

text \<open>
  A request for evidence counts as a repair attempt, but the replay ignores its event: resuming the run gives the attempts back.
\<close>

lemma evidence_requests_are_forgotten:
  "case sample_first_run (Inr AR_COMPLETED) (\<lambda>x. if x < 6 then system_verdict RD_NEEDS_EVIDENCE ''f'' else owner_verdict) of
     Some (Inr L, (l, _)) \<Rightarrow> rl_repairAttempts L = 1 \<and> rs_repairAttempts (replay ''u'' (prisma_log l ''w'')) = 0
   | _ \<Rightarrow> False"
  by code_simp

text \<open>A dispatch that throws leaves RUN_STARTED as the last event: the run counts as RUNNING and can never be resumed.\<close>

lemma failed_dispatch_strands_the_run:
  "case sample_first_run (Inl (ExternalError ''down'')) (\<lambda>_. owner_verdict) of
     Some (Inl _, (l, _)) \<Rightarrow> rs_state (replay ''u'' (prisma_log l ''w'')) = RS_RUNNING
   | _ \<Rightarrow> False"
  by code_simp

text \<open>An authority event is not used up: it resumes the run each time the same decision is asked for.\<close>

definition resumed_twice :: "run_payload ledger_db" where
  "resumed_twice = (let c = durable_run (sample_coordinator (Inr AR_COMPLETED) (\<lambda>_. owner_verdict));
      ev = SealedOwnerAuthorityEvent (sample_authority ''GIT_COMMIT'') in
    ledger_after (resumeWithAuthority c ''w'' ev (ledger_after (resumeWithAuthority c ''w'' ev (waiting_db, 20)), 40)))"

lemma one_authority_resumes_twice:
  "length (filter (\<lambda>e. pe_eventType e = ''RUN_RESUMED'' \<and> pe_causationId e = Some ''e'') (prisma_log resumed_twice ''w'')) = 2"
  by code_simp

end
