(* ===== verification/Run_Services.thy ===== *)
theory Run_Services
  imports Run_Resumption
begin

text \<open>
  What stands around the run coordinator: the recovery trigger (\<^verbatim>\<open>packages/recovery/src/index.ts\<close>), the structured
  reviewer (\<^verbatim>\<open>packages/orchestrator/src/concrete-structured-reviewer.ts\<close>), the blueprint runner and the multi-agent
  router (\<^verbatim>\<open>packages/workflow/src\<close>).
\<close>

section \<open>Recovery\<close>

record verification_context =
  vc_projectId :: string
  vc_workflowRunId :: string
  vc_correlationId :: string
  vc_causationId :: string

type_synonym 'x verification_agent = "action_request \<Rightarrow> verification_context \<Rightarrow> ('x, exn, bool \<times> string) act"

definition reconcile_state :: "string \<Rightarrow> 'x verification_agent \<Rightarrow> action_request \<Rightarrow> verification_context \<Rightarrow> ('x, exn, outcome_arg) act" where
  "reconcile_state identity verifier failedAction ctx =
     act_bind (verifier failedAction ctx) (\<lambda>(safe, reason).
     act_return (issueOutcome identity safe (vc_correlationId ctx) (vc_causationId ctx) reason))"

definition handleAmbiguousState :: "('l, 'x) coordinator \<Rightarrow> string \<Rightarrow> 'x verification_agent \<Rightarrow> action_request \<Rightarrow> verification_context \<Rightarrow>
    'l \<times> 'x \<Rightarrow> ((exn + run_locals option) \<times> ('l \<times> 'x)) option" where
  "handleAmbiguousState c identity verifier failedAction ctx =
     lift_act (on_agent (reconcile_state identity verifier failedAction ctx))
       (resumeFromReconciliation c (vc_workflowRunId ctx))"

section \<open>The structured reviewer\<close>

definition reviewer_verdict :: "review_decision \<Rightarrow> string \<Rightarrow> review_verdict" where
  "reviewer_verdict d finding = (system_verdict d finding)\<lparr>rv_lineage := [''ConcreteStructuredReviewer'']\<rparr>"

fun status_name :: "agent_run_status \<Rightarrow> string" where
  "status_name AR_CREATED = ''CREATED''"
| "status_name AR_QUEUED = ''QUEUED''"
| "status_name AR_STARTING = ''STARTING''"
| "status_name AR_RUNNING = ''RUNNING''"
| "status_name AR_WAITING_FOR_TOOL = ''WAITING_FOR_TOOL''"
| "status_name AR_WAITING_FOR_INPUT = ''WAITING_FOR_INPUT''"
| "status_name AR_COMPLETED = ''COMPLETED''"
| "status_name AR_FAILED = ''FAILED''"
| "status_name AR_CANCELLING = ''CANCELLING''"
| "status_name AR_CANCELLED = ''CANCELLED''"
| "status_name AR_INTERRUPTED = ''INTERRUPTED''"
| "status_name AR_UNKNOWN = ''UNKNOWN''"

text \<open>The dash of the message is one character of the source, written here as its three bytes.\<close>

definition dash :: string where "dash = [CHR 0xE2, CHR 0x80, CHR 0x94]"

definition or_text :: "string \<Rightarrow> string \<Rightarrow> string" where
  "or_text s d = (if s = [] then d else s)"

text \<open>The optional adapter is an external reviewer; \<open>request\<close> may be absent.\<close>

definition reviewExecution :: "(review_request \<Rightarrow> agent_run_result \<Rightarrow> ('x, exn, review_verdict) act) option \<Rightarrow> agent_run_result \<Rightarrow>
    review_request option \<Rightarrow> ('x, exn, review_verdict) act" where
  "reviewExecution adapter result request =
     (if res_status result = AR_FAILED then
        act_return (reviewer_verdict RD_FAIL_REPAIRABLE (or_text (res_summary result) ''Failed''))
      else if res_status result = AR_CANCELLED \<or> res_status result = AR_INTERRUPTED then
        act_return (reviewer_verdict RD_AMBIGUOUS_SIDE_EFFECT
          (''Run '' @ lower (status_name (res_status result)) @ '' '' @ dash @ '' side-effect state unknown''))
      else if res_requestedInputs result \<noteq> [] then
        act_return ((reviewer_verdict RD_OWNER_DECISION_REQUIRED
            (''Agent requested '' @ show_int (int (length (res_requestedInputs result))) @ '' input(s)''))
          \<lparr>rv_pendingAction := Some ''provide_input'', rv_pendingGate := Some ''OWNER_PRECOMMIT'',
           rv_pendingAuthorityType := Some ''OWNER_IMPLEMENTATION_APPROVED''\<rparr>)
      else (case (adapter, request) of
              (Some ad, Some rq) \<Rightarrow> ad rq result
            | _ \<Rightarrow> act_return (reviewer_verdict RD_COMPLETE (or_text (res_summary result) ''Completed''))))"

section \<open>The blueprint runner\<close>

definition blueprint_event :: "string \<Rightarrow> string \<Rightarrow> string \<Rightarrow> string \<Rightarrow> run_payload \<Rightarrow> nat \<Rightarrow> string \<Rightarrow> int \<Rightarrow> run_event" where
  "blueprint_event projectId blueprintId runId type payload n eid now =
     \<lparr>pe_id = eid, pe_projectId = projectId, pe_eventType = type, pe_aggregateType = AGG_PROJECT,
      pe_aggregateId = blueprintId, pe_aggregateRevision = n, pe_actorType = ORCHESTRATOR, pe_actorId = ''system'',
      pe_correlationId = runId, pe_causationId = None, pe_schemaVersion = 1, pe_payload = payload, pe_occurredAt = now\<rparr>"

definition append_blueprint :: "('l, 'x) coordinator \<Rightarrow> ('l, run_payload) ledger_ops \<Rightarrow> string \<Rightarrow> string \<Rightarrow> string \<Rightarrow> string \<Rightarrow>
    run_payload \<Rightarrow> nat \<Rightarrow> ('l \<times> 'x, exn, unit) act" where
  "append_blueprint c lo projectId blueprintId runId type payload n =
     act_bind (randomUUID c) (\<lambda>eid (l, x).
       case lo_append lo (blueprint_event projectId blueprintId runId type payload n eid (ho_now (co_host c) x)) l of
         (r, l') \<Rightarrow> (r, (l', x)))"

text \<open>The loop over the work packages; the flag says whether all of them were closed.\<close>

fun run_packages :: "('l, 'x) coordinator \<Rightarrow> ('l, run_payload) ledger_ops \<Rightarrow> string \<Rightarrow> string \<Rightarrow> string \<Rightarrow> work_package list \<Rightarrow>
    'l \<times> 'x \<Rightarrow> ((exn + bool) \<times> ('l \<times> 'x)) option" where
  "run_packages c lo projectId blueprintId runId [] w = Some (Inr True, w)"
| "run_packages c lo projectId blueprintId runId (wp # wps) w =
     lift_act (randomUUID c) (\<lambda>taskRunId w1.
       case execute_run c wp \<lparr>ra_workflowRunId = taskRunId, ra_correlationId = runId, ra_projectId = projectId,
              ra_causationId = None\<rparr> None w1 of
         None \<Rightarrow> None
       | Some (Inl e, w2) \<Rightarrow> Some (Inl e, w2)
       | Some (Inr _, w2) \<Rightarrow>
           lift_act (on_store (lo_getEvents lo taskRunId)) (\<lambda>events w3.
             if \<not> list_ex (\<lambda>e. pe_eventType e = ''RUN_CLOSED'') events then
               lift_act (append_blueprint c lo projectId blueprintId runId ''BLUEPRINT_BLOCKED''
                   (no_payload\<lparr>pl_reason := Some (''Task '' @ wp_workPackageId wp @ '' failed or blocked'')\<rparr>) 2)
                 (\<lambda>_. Some \<circ> act_return False) w3
             else run_packages c lo projectId blueprintId runId wps w3) w2) w"

definition executeBlueprint :: "('l, 'x) coordinator \<Rightarrow> ('l, run_payload) ledger_ops \<Rightarrow> string \<Rightarrow> string \<Rightarrow> work_package list \<Rightarrow>
    'l \<times> 'x \<Rightarrow> ((exn + unit) \<times> ('l \<times> 'x)) option" where
  "executeBlueprint c lo projectId blueprintId wps =
     lift_act (randomUUID c) (\<lambda>runId.
     lift_act (append_blueprint c lo projectId blueprintId runId ''BLUEPRINT_STARTED''
         (no_payload\<lparr>pl_blueprintId := Some blueprintId, pl_workPackageCount := Some (length wps)\<rparr>) 1) (\<lambda>_ w.
       case run_packages c lo projectId blueprintId runId wps w of
         None \<Rightarrow> None
       | Some (Inl e, w') \<Rightarrow> Some (Inl e, w')
       | Some (Inr False, w') \<Rightarrow> Some (Inr (), w')
       | Some (Inr True, w') \<Rightarrow>
           lift_act (append_blueprint c lo projectId blueprintId runId ''BLUEPRINT_COMPLETED''
               (no_payload\<lparr>pl_blueprintId := Some blueprintId, pl_status := Some ''COMPLETE''\<rparr>) 2)
             (\<lambda>_. Some \<circ> act_return ()) w'))"

section \<open>The multi-agent router\<close>

text \<open>The bridges are named by \<open>'b\<close>; the router keeps which of them started each run.\<close>

type_synonym ('b, 'x) router_world = "(string, 'b) jsmap \<times> 'x"

definition router_dispatch :: "('b \<Rightarrow> 'x agent_bridge) \<Rightarrow> (work_package \<Rightarrow> 'b) \<Rightarrow> work_package \<Rightarrow> runtime_context \<Rightarrow>
    (('b, 'x) router_world, exn, run_handle) act" where
  "router_dispatch bridges selectBridge wp ctx =
     act_bind (on_agent (br_dispatch (bridges (selectBridge wp)) wp ctx)) (\<lambda>handle (runs, x).
       (Inr handle, (jm_set (rh_runId handle) (selectBridge wp) runs, x)))"

definition router_ask :: "('b \<Rightarrow> 'x agent_bridge) \<Rightarrow> ('x agent_bridge \<Rightarrow> string \<Rightarrow> ('x, exn, 'a) act) \<Rightarrow> string \<Rightarrow>
    (('b, 'x) router_world, exn, 'a) act" where
  "router_ask bridges call runId = (\<lambda>(runs, x).
     case jm_get runs runId of
       None \<Rightarrow> (Inl (GenericError (''Unknown run '' @ runId)), (runs, x))
     | Some b \<Rightarrow> on_agent (call (bridges b) runId) (runs, x))"

definition router_cancel :: "('b \<Rightarrow> 'x agent_bridge) \<Rightarrow> string \<Rightarrow> (('b, 'x) router_world, exn, unit) act" where
  "router_cancel bridges runId = (\<lambda>(runs, x).
     case jm_get runs runId of
       None \<Rightarrow> (Inr (), (runs, x))
     | Some b \<Rightarrow> on_agent (br_cancel (bridges b) runId) (runs, x))"

definition router_bridge :: "('b \<Rightarrow> 'x agent_bridge) \<Rightarrow> (work_package \<Rightarrow> 'b) \<Rightarrow> ('b, 'x) router_world agent_bridge" where
  "router_bridge bridges selectBridge = \<lparr>br_dispatch = router_dispatch bridges selectBridge,
     br_getStatus = router_ask bridges br_getStatus, br_getResult = router_ask bridges br_getResult,
     br_cancel = router_cancel bridges\<rparr>"


section \<open>What a run keeps of the ledger\<close>

text \<open>A property of the ledger that every append keeps is kept by a run.\<close>

abbreviation of_ledger :: "('l \<Rightarrow> bool) \<Rightarrow> 'l \<times> 'x \<Rightarrow> bool" where
  "of_ledger p w \<equiv> p (fst w)"

definition append_keeps :: "('l, run_payload) ledger_ops \<Rightarrow> ('l \<Rightarrow> bool) \<Rightarrow> bool" where
  "append_keeps lo p \<longleftrightarrow> (\<forall>ev l. p l \<longrightarrow> p (snd (lo_append lo ev l)))"

lemma ledger_keeps_basic [keeps]:
  "act_keeps (of_ledger p) (randomUUID c)" "act_keeps (of_ledger p) (on_agent m)"
  by (auto simp: act_keeps_def randomUUID_def on_agent_def split: prod.split)

lemma ledger_keeps_emit [keeps]: "append_keeps (co_ledger c) p \<Longrightarrow> act_keeps (of_ledger p) (emit c a t q n)"
  unfolding emit_def
  by (rule keeps_bind, rule ledger_keeps_basic)
     (auto simp: act_keeps_def append_keeps_def split: prod.split sum.split; metis snd_conv)

lemma ledger_keeps_steps:
  assumes "append_keeps (co_ledger c) p"
  shows "act_keeps (of_ledger p) (begin_step c a L)" "act_keeps (of_ledger p) (dispatch_step c a L)"
    "act_keeps (of_ledger p) (apply_verdict c a L v)"
  using assms unfolding begin_step_def dispatch_step_def apply_verdict_def block_run_def emit_and_def next_attempt_def Let_def
  by (auto intro!: keeps split: review_decision.split prod.split)

lemma ledger_keeps_evaluate:
  assumes "append_keeps (co_ledger c) p"
  shows "act_keeps (of_ledger p) (evaluate_step c a L rid st)"
  unfolding act_keeps_def
proof (intro allI impI)
  fix w :: "'a \<times> 'b"
  assume p: "of_ledger p w"
  obtain l x where w: "w = (l, x)" by force
  obtain res v x2 where j: "judge c a L rid st x = ((res, v), x2)" by (metis prod.exhaust)
  let ?m = "act_bind (emit c a ''RUN_COMPLETED'' (no_payload\<lparr>pl_attemptId := Some (rl_attemptId L),
       pl_result := Some (case res of None \<Rightarrow> Inl (join '';'' (rv_findings v)) | Some r \<Rightarrow> Inr r)\<rparr>) (rl_revision L))
     (\<lambda>rn. apply_verdict c a (L\<lparr>rl_state := RS_EVALUATING, rl_revision := rn\<rparr>) v)"
  have "act_keeps (of_ledger p) ?m" by (intro keeps ledger_keeps_emit ledger_keeps_steps assms)
  then have "p (fst (snd (?m (l, x2))))" using p w unfolding act_keeps_def by (metis fst_conv)
  then show "of_ledger p (snd (evaluate_step c a L rid st w))" by (simp add: w evaluate_step_def j)
qed

lemma act_keepsD: "act_keeps P m \<Longrightarrow> P w \<Longrightarrow> m w = (r, w') \<Longrightarrow> P w'"
  unfolding act_keeps_def by (metis snd_conv)

lemma run_body_keeps:
  assumes k: "append_keeps (co_ledger c) p" and b: "run_body c a L w = Some (r, w')" and p: "of_ledger p w"
  shows "of_ledger p w'"
proof -
  obtain r1 w1 where b1: "begin_step c a L w = (r1, w1)" by (metis surj_pair)
  note p1 = act_keepsD [OF ledger_keeps_steps(1) [OF k] p b1]
  show ?thesis
  proof (cases "\<exists>L1. r1 = Inr L1 \<and> rl_state L1 = RS_RUNNING")
    case False
    then show ?thesis using b b1 p1 by (cases r1) (auto simp: run_body_def)
  next
    case True
    then obtain L1 where L1: "r1 = Inr L1" "rl_state L1 = RS_RUNNING" by blast
    obtain r2 w2 where b2: "dispatch_step c a L1 w1 = (r2, w2)" by (metis surj_pair)
    note p2 = act_keepsD [OF ledger_keeps_steps(2) [OF k] p1 b2]
    show ?thesis
    proof (cases r2)
      case (Inr y)
      obtain rid st L2 l x where y: "y = (rid, st, L2)" "w2 = (l, x)" by (metis prod.exhaust)
      obtain z x' where z: "wait_status c rid (ho_now (co_host c) x) st x = Some (z, x')"
        using b b1 L1 b2 Inr y by (auto simp: run_body_def split: option.splits)
      show ?thesis
      proof (cases z)
        case fin: (Inr st')
        have "evaluate_step c a L2 rid st' (l, x') = (r, w')" using b b1 L1 b2 Inr y z fin by (simp add: run_body_def)
        from act_keepsD [OF ledger_keeps_evaluate [OF k] _ this] show ?thesis using p2 y by simp
      qed (use b b1 L1 b2 Inr y z p2 in \<open>auto simp: run_body_def\<close>)
    qed (use b b1 L1 b2 p2 in \<open>auto simp: run_body_def\<close>)
  qed
qed

lemma run_loop_keeps:
  assumes k: "append_keeps (co_ledger c) p" and run: "run_loop c a L w = Some q" and p: "of_ledger p w"
  shows "of_ledger p (snd q)"
proof -
  let ?P = "\<lambda>c' (a :: run_args) (L :: run_locals) w (q :: (exn + run_locals) \<times> _). c' = c \<longrightarrow> of_ledger p w \<longrightarrow> of_ledger p (snd q)"
  have "?P c a L w q"
  proof (rule run_loop.raw_induct [where P = ?P, OF _ run], intro impI)
    fix f c' a L w q
    assume IH: "\<And>c' a L w q. f c' a L w = Some q \<Longrightarrow> ?P c' a L w q" and c: "c' = c" and p: "of_ledger p w"
      and e: "(if rl_state L = RS_CLOSED \<or> rl_state L = RS_BLOCKED then Some (Inr L, w)
        else Option.bind (run_body c' a L w) (\<lambda>(r, w'). case r of Inl e \<Rightarrow> Some (Inl e, w')
          | Inr (L', brk) \<Rightarrow> if brk then Some (Inr L', w') else f c' a L' w')) = Some q"
    show "of_ledger p (snd q)"
    proof (cases "rl_state L = RS_CLOSED \<or> rl_state L = RS_BLOCKED")
      case False
      then obtain r w' where b: "run_body c a L w = Some (r, w')" using e c by (auto simp: bind_eq_Some_conv)
      note p' = run_body_keeps [OF k b p]
      show ?thesis
      proof (cases "\<exists>L'. r = Inr (L', False)")
        case True
        then obtain L' where "f c a L' w' = Some q" using e False c b by auto
        then show ?thesis using IH p' by blast
      next
        case stop: False
        then show ?thesis using e False c b p' by (cases r) auto
      qed
    qed (use e p in auto)
  qed
  then show ?thesis using p by simp
qed

lemma execute_run_keeps:
  "append_keeps (co_ledger c) p \<Longrightarrow> execute_run c wp a None (l, x) = Some (r, w') \<Longrightarrow> p l \<Longrightarrow> of_ledger p w'"
  by (auto simp: execute_run_def randomUUID_def split: prod.splits dest: run_loop_keeps)


section \<open>Blueprints\<close>

lemma prisma_append_keeps: "append_keeps prisma_ledger_ops (\<lambda>l. E \<subseteq> set (ld_events l))"
  unfolding append_keeps_def
proof (intro allI impI)
  fix ev and l :: "run_payload ledger_db"
  assume "E \<subseteq> set (ld_events l)"
  then show "E \<subseteq> set (ld_events (snd (lo_append prisma_ledger_ops ev l)))"
    by (cases rule: insert_event_cases [of ev l]) (auto simp: prisma_ledger_ops_def pl_append_def)
qed

lemma append_blueprint_event:
  assumes "append_blueprint c prisma_ledger_ops pid bid rid t pl n (l, x) = (Inr u, (l', x'))"
  shows "\<exists>ev. ld_events l' = ld_events l @ [ev] \<and> pe_aggregateId ev = bid \<and> pe_eventType ev = t \<and>
    pe_correlationId ev = rid \<and> pe_payload ev = pl"
proof -
  obtain eid x1 where u: "ho_uuid (co_host c) x = (eid, x1)" by (metis surj_pair)
  let ?ev = "blueprint_event pid bid rid t pl n eid (ho_now (co_host c) x1)"
  have "insert_event ?ev l = (Inr (), l')"
    using assms u by (auto simp: append_blueprint_def act_bind_def randomUUID_def prisma_ledger_ops_def pl_append_def split: prod.splits)
  then have "ld_events l' = ld_events l @ [?ev]" by (cases rule: insert_event_cases [of ?ev l]) auto
  then show ?thesis by (auto simp: blueprint_event_def)
qed

text \<open>
  Run \<open>i\<close> is the run of package \<open>wp\<close> under the blueprint run \<open>rid\<close> when its first event says so; it is closed when it has a RUN_CLOSED
  event. \<open>begun\<close> holds the aggregates that have a first event.
\<close>

definition task_run :: "run_payload ledger_db \<Rightarrow> string \<Rightarrow> work_package \<Rightarrow> string \<Rightarrow> bool" where
  "task_run l rid wp i \<longleftrightarrow> (\<exists>e \<in> set (ld_events l). pe_aggregateId e = i \<and> pe_aggregateRevision e = 1 \<and>
     pe_eventType e = ''RUN_STARTED'' \<and> pe_correlationId e = rid \<and> pl_workPackage (pe_payload e) = Some wp)"

definition closed_run :: "run_payload ledger_db \<Rightarrow> string \<Rightarrow> bool" where
  "closed_run l i \<longleftrightarrow> (\<exists>e \<in> set (ld_events l). pe_aggregateId e = i \<and> pe_eventType e = ''RUN_CLOSED'')"

definition begun :: "run_payload ledger_db \<Rightarrow> string set" where
  "begun l = pe_aggregateId ` {e \<in> set (ld_events l). pe_aggregateRevision e = 1}"

lemma task_run_begun: "task_run l rid wp i \<Longrightarrow> i \<in> begun l" by (auto simp: task_run_def begun_def)

lemma more_events:
  assumes "set (ld_events l) \<subseteq> set (ld_events l')"
  shows "begun l \<subseteq> begun l'" "task_run l rid wp i \<Longrightarrow> task_run l' rid wp i" "closed_run l i \<Longrightarrow> closed_run l' i"
  using assms by (auto simp: begun_def task_run_def closed_run_def)

text \<open>A loop that begins in STARTING goes on as one in RUNNING once its first event is written.\<close>

lemma run_loop_started:
  assumes "rl_state L = RS_STARTING" "begin_step c a L w = (Inr L1, w1)"
  shows "run_loop c a L w = run_loop c a L1 w1"
proof -
  have L1: "rl_state L1 = RS_RUNNING" using assms by (auto simp: begin_step_def act_bind_def act_return_def split: prod.splits sum.splits)
  then have "begin_step c a L1 w1 = (Inr L1, w1)" by (simp add: begin_step_def act_return_def)
  then have "run_body c a L w = run_body c a L1 w1" using assms(2) by (simp add: run_body_def)
  then show ?thesis using assms(1) L1 by (simp add: run_loop.simps [of c a L w] run_loop.simps [of c a L1 w1])
qed

lemma begin_starts:
  assumes "co_ledger c = prisma_ledger_ops" "begin_step c a (initial_locals wp att) (l, x) = (Inr L1, (l1, x1))"
  shows "task_run l1 (ra_correlationId a) wp (ra_workflowRunId a) \<and> ra_workflowRunId a \<notin> begun l"
proof -
  obtain pl eid now where ins: "insert_event (run_event a ''RUN_STARTED'' pl 1 eid now) l = (Inr (), l1)" "pl_workPackage pl = Some wp"
    using assms by (auto simp: begin_step_def initial_locals_def emit_def act_bind_def randomUUID_def prisma_ledger_ops_def
        pl_append_def act_return_def split: prod.splits sum.splits)
  let ?ev = "run_event a ''RUN_STARTED'' pl 1 eid now"
  show ?thesis using ins
    by (cases rule: insert_event_cases [of ?ev l]) (auto simp: task_run_def begun_def run_event_def image_iff)
qed

lemma execute_run_starts:
  assumes c: "co_ledger c = prisma_ledger_ops" and run: "execute_run c wp a None (l, x) = Some (Inr L, (l', x'))"
  shows "task_run l' (ra_correlationId a) wp (ra_workflowRunId a) \<and> ra_workflowRunId a \<notin> begun l"
proof -
  let ?a = "a\<lparr>ra_causationId := None\<rparr>"
  obtain att x0 where loop: "run_loop c ?a (initial_locals wp att) (l, x0) = Some (Inr L, (l', x'))"
    using run by (auto simp: execute_run_def randomUUID_def split: prod.splits)
  have st: "rl_state (initial_locals wp att) = RS_STARTING" by (simp add: initial_locals_def)
  obtain r1 l1 x1 where b: "begin_step c ?a (initial_locals wp att) (l, x0) = (r1, (l1, x1))" by (metis prod.exhaust)
  show ?thesis
  proof (cases r1)
    case (Inl e)
    then show ?thesis using loop b st by (simp add: run_loop.simps run_body_def)
  next
    case (Inr L1)
    have "run_loop c ?a L1 (l1, x1) = Some (Inr L, (l', x'))" using run_loop_started [OF st b [unfolded Inr]] loop by simp
    then have "set (ld_events l1) \<subseteq> set (ld_events l')"
      using run_loop_keeps [of c "\<lambda>k. set (ld_events l1) \<subseteq> set (ld_events k)"] c prisma_append_keeps [of "set (ld_events l1)"] by fastforce
    then show ?thesis using begin_starts [OF c b [unfolded Inr]] more_events(2) by auto
  qed
qed

text \<open>One turn of the loop over the packages: the task has run, and is closed or blocks the blueprint.\<close>

lemma run_packages_turn:
  assumes c: "co_ledger c = prisma_ledger_ops"
    and run: "run_packages c prisma_ledger_ops pid bid rid (wp # wps) (l, x) = Some (Inr b, (l', x'))"
  obtains t l2 x2 where "set (ld_events l) \<subseteq> set (ld_events l2)" "task_run l2 rid wp t" "t \<notin> begun l"
    "if closed_run l2 t then run_packages c prisma_ledger_ops pid bid rid wps (l2, x2) = Some (Inr b, (l', x'))
     else \<not> b \<and> (\<exists>u. append_blueprint c prisma_ledger_ops pid bid rid ''BLUEPRINT_BLOCKED''
       (no_payload\<lparr>pl_reason := Some (''Task '' @ wp_workPackageId wp @ '' failed or blocked'')\<rparr>) 2 (l2, x2) = (Inr u, (l', x')))"
proof -
  obtain t x1 where t: "ho_uuid (co_host c) x = (t, x1)" by (metis surj_pair)
  let ?a = "\<lparr>ra_workflowRunId = t, ra_correlationId = rid, ra_projectId = pid, ra_causationId = None\<rparr>"
  obtain L l2 x2 where ex: "execute_run c wp ?a None (l, x1) = Some (Inr L, (l2, x2))"
    using run t by (auto simp: lift_act_def randomUUID_def split: option.splits sum.splits)
  have closed: "list_ex (\<lambda>e. pe_eventType e = ''RUN_CLOSED'') (prisma_log l2 t) \<longleftrightarrow> closed_run l2 t"
    by (auto simp: closed_run_def prisma_log_def memory_log_def list_ex_iff)
  show thesis
  proof (rule that)
    show "set (ld_events l) \<subseteq> set (ld_events l2)"
      using execute_run_keeps [OF _ ex, of "\<lambda>k. set (ld_events l) \<subseteq> set (ld_events k)"] prisma_append_keeps c by simp
    show "task_run l2 rid wp t" "t \<notin> begun l" using execute_run_starts [OF c ex] by simp_all
    show "if closed_run l2 t then run_packages c prisma_ledger_ops pid bid rid wps (l2, x2) = Some (Inr b, (l', x'))
     else \<not> b \<and> (\<exists>u. append_blueprint c prisma_ledger_ops pid bid rid ''BLUEPRINT_BLOCKED''
       (no_payload\<lparr>pl_reason := Some (''Task '' @ wp_workPackageId wp @ '' failed or blocked'')\<rparr>) 2 (l2, x2) = (Inr u, (l', x')))"
      using run t ex
      by (auto simp: lift_act_def randomUUID_def on_store_def prlog.get_events closed act_return_def
          split: if_splits sum.splits prod.splits)
  qed
qed

definition closed_task :: "run_payload ledger_db \<Rightarrow> string \<Rightarrow> work_package \<Rightarrow> string \<Rightarrow> bool" where
  "closed_task l rid wp i \<longleftrightarrow> task_run l rid wp i \<and> closed_run l i"

lemma closed_tasks_begun: "list_all2 (closed_task l rid) wps ids \<Longrightarrow> set ids \<subseteq> begun l"
  by (induction rule: list_all2_induct) (auto simp: closed_task_def dest: task_run_begun)

lemma run_packages_closed:
  assumes c: "co_ledger c = prisma_ledger_ops"
  shows "run_packages c prisma_ledger_ops pid bid rid wps (l, x) = Some (Inr True, (l', x')) \<Longrightarrow>
    set (ld_events l) \<subseteq> set (ld_events l') \<and>
    (\<exists>ids. distinct ids \<and> set ids \<inter> begun l = {} \<and> list_all2 (closed_task l' rid) wps ids)"
proof (induction wps arbitrary: l x)
  case (Cons wp wps)
  obtain t l2 x2 where t: "set (ld_events l) \<subseteq> set (ld_events l2)" "task_run l2 rid wp t" "t \<notin> begun l" "closed_run l2 t"
      "run_packages c prisma_ledger_ops pid bid rid wps (l2, x2) = Some (Inr True, (l', x'))"
    using run_packages_turn [OF c Cons.prems] by (metis (full_types))
  obtain ids where ids: "set (ld_events l2) \<subseteq> set (ld_events l')" "distinct ids" "set ids \<inter> begun l2 = {}"
      "list_all2 (closed_task l' rid) wps ids"
    using Cons.IH [OF t(5)] by blast
  have "closed_task l' rid wp t" using more_events(2,3) [OF ids(1)] t(2,4) by (simp add: closed_task_def)
  moreover have "t \<notin> set ids" using ids(3) task_run_begun [OF t(2)] by blast
  ultimately show ?case using ids t(1,3) more_events(1) [OF t(1)]
    by (intro conjI exI [of _ "t # ids"]) auto
qed simp

text \<open>The blueprint is blocked by the first package whose run is not closed, and its last event names that package.\<close>

definition blocked_by :: "run_payload ledger_db \<Rightarrow> string \<Rightarrow> work_package \<Rightarrow> bool" where
  "blocked_by l bid wp \<longleftrightarrow> ld_events l \<noteq> [] \<and> pe_aggregateId (last (ld_events l)) = bid \<and>
     pe_eventType (last (ld_events l)) = ''BLUEPRINT_BLOCKED'' \<and>
     pl_reason (pe_payload (last (ld_events l))) = Some (''Task '' @ wp_workPackageId wp @ '' failed or blocked'')"

lemma run_packages_blocked:
  assumes c: "co_ledger c = prisma_ledger_ops"
  shows "run_packages c prisma_ledger_ops pid bid rid wps (l, x) = Some (Inr False, (l', x')) \<Longrightarrow>
    set (ld_events l) \<subseteq> set (ld_events l') \<and> pe_correlationId (last (ld_events l')) = rid \<and>
    (\<exists>ws wp rest ids i. wps = ws @ wp # rest \<and> distinct (i # ids) \<and> set (i # ids) \<inter> begun l = {} \<and>
       list_all2 (closed_task l' rid) ws ids \<and> task_run l' rid wp i \<and> \<not> closed_run l' i \<and> blocked_by l' bid wp)"
proof (induction wps arbitrary: l x)
  case (Cons wp wps)
  obtain t l2 x2 where t: "set (ld_events l) \<subseteq> set (ld_events l2)" "task_run l2 rid wp t" "t \<notin> begun l"
      and next_turn: "if closed_run l2 t then run_packages c prisma_ledger_ops pid bid rid wps (l2, x2) = Some (Inr False, (l', x'))
       else \<not> False \<and> (\<exists>u. append_blueprint c prisma_ledger_ops pid bid rid ''BLUEPRINT_BLOCKED''
         (no_payload\<lparr>pl_reason := Some (''Task '' @ wp_workPackageId wp @ '' failed or blocked'')\<rparr>) 2 (l2, x2) = (Inr u, (l', x')))"
    by (rule run_packages_turn [OF c Cons.prems])
  show ?case
  proof (cases "closed_run l2 t")
    case True
    then have rest: "run_packages c prisma_ledger_ops pid bid rid wps (l2, x2) = Some (Inr False, (l', x'))" using next_turn by simp
    obtain ws wp' rest ids i where r: "set (ld_events l2) \<subseteq> set (ld_events l')" "pe_correlationId (last (ld_events l')) = rid"
        "wps = ws @ wp' # rest" "distinct (i # ids)" "set (i # ids) \<inter> begun l2 = {}"
        "list_all2 (closed_task l' rid) ws ids" "task_run l' rid wp' i" "\<not> closed_run l' i" "blocked_by l' bid wp'"
      using Cons.IH [OF rest] by blast
    have "closed_task l' rid wp t" using more_events(2,3) [OF r(1)] t(2) True by (simp add: closed_task_def)
    moreover have "t \<notin> set (i # ids)" using r(5) task_run_begun [OF t(2)] by blast
    ultimately show ?thesis using r t(1,3) more_events(1) [OF t(1)]
      by (intro conjI exI [of _ "wp # ws"] exI [of _ wp'] exI [of _ rest] exI [of _ "t # ids"] exI [of _ i]) auto
  next
    case False
    obtain ev where ev: "ld_events l' = ld_events l2 @ [ev]" "pe_aggregateId ev = bid" "pe_eventType ev = ''BLUEPRINT_BLOCKED''"
        "pe_correlationId ev = rid" "pl_reason (pe_payload ev) = Some (''Task '' @ wp_workPackageId wp @ '' failed or blocked'')"
      using next_turn False append_blueprint_event by fastforce
    have "task_run l' rid wp t" using t(2) ev(1) by (auto simp: task_run_def)
    moreover have "\<not> closed_run l' t" using False ev by (auto simp: closed_run_def)
    ultimately show ?thesis using t(1,3) ev
      by (intro conjI exI [of _ "[]"] exI [of _ wp] exI [of _ wps] exI [of _ "[]"] exI [of _ t]) (auto simp: blocked_by_def)
  qed
qed simp

text \<open>
  C16: a blueprint is completed only by closed tasks. When \<open>executeBlueprint\<close> over the durable ledger returns, the last event is the
  blueprint's. Either it is BLUEPRINT_COMPLETED, and then every work package has a run of its own: the runs are distinct, begun by
  this call, started with exactly that package under the blueprint's correlation id, and closed. Or it is BLUEPRINT_BLOCKED, naming
  the first package whose run is not closed, and all packages before that one have such closed runs.
\<close>

theorem blueprint_completes_closed_tasks:
  assumes "executeBlueprint (durable_run c) prisma_ledger_ops pid bid wps (l, x) = Some (Inr (), (l', x'))"
  shows "\<exists>rid ids. pe_correlationId (last (ld_events l')) = rid \<and> distinct ids \<and> set ids \<inter> begun l = {} \<and>
    (ld_events l' \<noteq> [] \<and> pe_aggregateId (last (ld_events l')) = bid \<and>
       pe_eventType (last (ld_events l')) = ''BLUEPRINT_COMPLETED'' \<and> list_all2 (closed_task l' rid) wps ids \<or>
     (\<exists>ws wp rest i js. wps = ws @ wp # rest \<and> ids = i # js \<and> list_all2 (closed_task l' rid) ws js \<and>
       task_run l' rid wp i \<and> \<not> closed_run l' i \<and> blocked_by l' bid wp))"
proof -
  obtain rid x1 where u: "ho_uuid (co_host c) x = (rid, x1)" by (metis surj_pair)
  let ?d = "durable_run c"
  have d: "co_ledger ?d = prisma_ledger_ops" by simp
  obtain l1 x2 b l2 x3 u0 pl where st: "append_blueprint ?d prisma_ledger_ops pid bid rid ''BLUEPRINT_STARTED'' pl 1 (l, x1) = (Inr u0, (l1, x2))"
    and run: "run_packages ?d prisma_ledger_ops pid bid rid wps (l1, x2) = Some (Inr b, (l2, x3))"
    and fin: "if b then \<exists>u. append_blueprint ?d prisma_ledger_ops pid bid rid ''BLUEPRINT_COMPLETED''
        (no_payload\<lparr>pl_blueprintId := Some bid, pl_status := Some ''COMPLETE''\<rparr>) 2 (l2, x3) = (Inr u, (l', x')) else (l2, x3) = (l', x')"
    using assms u
    by (auto simp: executeBlueprint_def lift_act_def randomUUID_def act_return_def
        split: prod.splits sum.splits option.splits bool.splits)
  have "set (ld_events l) \<subseteq> set (ld_events l1)" using append_blueprint_event [OF st] by auto
  note old = more_events(1) [OF this]
  show ?thesis
  proof (cases b)
    case True
    obtain ev where ev: "ld_events l' = ld_events l2 @ [ev]" "pe_aggregateId ev = bid" "pe_eventType ev = ''BLUEPRINT_COMPLETED''"
        "pe_correlationId ev = rid"
      using fin True append_blueprint_event by (metis (no_types, lifting))
    obtain ids where ids: "distinct ids" "set ids \<inter> begun l1 = {}" "list_all2 (closed_task l2 rid) wps ids"
      using run_packages_closed [OF d, of pid bid rid wps l1 x2 l2 x3] run True by auto
    have "list_all2 (closed_task l' rid) wps ids"
      using ids(3) by (rule list_all2_mono) (use more_events(2,3) [of l2 l'] ev(1) in \<open>auto simp: closed_task_def\<close>)
    then show ?thesis using ev ids(1,2) old by (intro exI [of _ rid] exI [of _ ids]) auto
  next
    case False
    then have l2: "l2 = l'" "x3 = x'" using fin by simp_all
    obtain ws wp rest ids i where r: "pe_correlationId (last (ld_events l')) = rid" "wps = ws @ wp # rest" "distinct (i # ids)"
        "set (i # ids) \<inter> begun l1 = {}" "list_all2 (closed_task l' rid) ws ids" "task_run l' rid wp i" "\<not> closed_run l' i" "blocked_by l' bid wp"
      using run_packages_blocked [OF d, of pid bid rid wps l1 x2 l' x'] run False l2 by auto
    have "set (i # ids) \<inter> begun l = {}" using r(4) old by blast
    moreover have "\<exists>ws wp rest i' js. wps = ws @ wp # rest \<and> i # ids = i' # js \<and> list_all2 (closed_task l' rid) ws js \<and>
       task_run l' rid wp i' \<and> \<not> closed_run l' i' \<and> blocked_by l' bid wp" using r by blast
    ultimately show ?thesis using r(1,3) by (intro exI [of _ rid] exI [of _ "i # ids"]) simp
  qed
qed

definition sample_blueprint :: "((exn + unit) \<times> (run_payload ledger_db \<times> nat)) option" where
  "sample_blueprint = executeBlueprint (durable_run (sample_coordinator (Inr AR_COMPLETED) (\<lambda>_. system_verdict RD_COMPLETE ''ok'')))
     prisma_ledger_ops ''p'' ''b'' [sample_package] (sample_project_db, 0)"

lemma sample_blueprint_completes:
  "case sample_blueprint of Some (Inr u, (l', x')) \<Rightarrow> pe_eventType (last (ld_events l')) = ''BLUEPRINT_COMPLETED'' | _ \<Rightarrow> False"
  by code_simp

lemma blueprint_completes_closed_tasks_witness:
  "\<exists>l' x' rid i. sample_blueprint = Some (Inr (), (l', x')) \<and> closed_task l' rid sample_package i"
proof -
  obtain l' x' where r: "sample_blueprint = Some (Inr (), (l', x'))"
    and fin: "pe_eventType (last (ld_events l')) = ''BLUEPRINT_COMPLETED''"
    using sample_blueprint_completes by (auto split: option.splits prod.splits sum.splits)
  from blueprint_completes_closed_tasks [OF r [unfolded sample_blueprint_def]] fin
  obtain rid ids where "list_all2 (closed_task l' rid) [sample_package] ids" by (auto simp: blocked_by_def)
  then have "closed_task l' rid sample_package (hd ids)" by (auto simp: list_all2_Cons1)
  then show ?thesis using r by blast
qed

section \<open>The reviewer\<close>

lemma builtin_never_passes: "reviewExecution None r q x = (Inr v, x') \<Longrightarrow> rv_decision v \<noteq> RD_PASS \<and> x' = x"
  by (auto simp: reviewExecution_def act_return_def reviewer_verdict_def system_verdict_def split: if_splits option.splits)

lemma builtin_keeps_world: "snd (reviewExecution None r q x) = x"
  by (simp add: reviewExecution_def act_return_def split: option.split)

text \<open>
  With the structured reviewer and no adapter behind it, every run returns, provided the host's timer advances the clock:
  this reviewer never answers PASS, so neither its plan nor its repairs go on for ever.
\<close>

theorem builtin_reviewer_run_returns:
  assumes "clock_advances c" "co_reviewer c = (\<lambda>r q. reviewExecution None r (Some q))"
  shows "\<exists>r w'. execute_run c wp a None w = Some (r, w')"
proof -
  have "plan_bound c (\<lambda>_. 0)" unfolding plan_bound_def assms(2) by (auto dest: builtin_never_passes)
  then show ?thesis using run_loop_returns [OF assms(1)]
    by (cases w) (auto simp: execute_run_def randomUUID_def initial_locals_def split: prod.split)
qed

lemma builtin_reviewer_run_returns_witness:
  "\<exists>r w'. execute_run (sample_coordinator (Inr AR_RUNNING) (\<lambda>_. owner_verdict)\<lparr>co_reviewer := \<lambda>r q. reviewExecution None r (Some q)\<rparr>)
     sample_package sample_args None (sample_project_db, 0) = Some (r, w')"
  by (rule builtin_reviewer_run_returns) (simp_all add: clock_advances_def sample_coordinator_def sample_host_def sample_bridge_def)

text \<open>A result whose status is none of the three final failures is complete for the reviewer, an UNKNOWN one too.\<close>

lemma unknown_result_is_complete:
  "res_status r = AR_UNKNOWN \<Longrightarrow> res_requestedInputs r = [] \<Longrightarrow>
   \<exists>v. reviewExecution None r q x = (Inr v, x) \<and> rv_decision v = RD_COMPLETE"
  by (simp add: reviewExecution_def act_return_def reviewer_verdict_def system_verdict_def split: option.split)

section \<open>The router\<close>

text \<open>
  After a dispatch that returned a handle, the router asks the bridge that took the work package for that run, and no other run has
  changed its bridge; a run it never dispatched is unknown.
\<close>

lemma router_routes:
  assumes "router_dispatch bridges sel wp ctx (m, x) = (Inr h, (m', x'))"
  shows "router_ask bridges call (rh_runId h) (m', y) = on_agent (call (bridges (sel wp)) (rh_runId h)) (m', y)"
    "router_cancel bridges (rh_runId h) (m', y) = on_agent (br_cancel (bridges (sel wp)) (rh_runId h)) (m', y)"
    "i \<noteq> rh_runId h \<Longrightarrow> jm_get m' i = jm_get m i"
proof -
  have m': "m' = jm_set (rh_runId h) (sel wp) m"
    using assms by (auto simp: router_dispatch_def act_bind_def on_agent_def split: prod.splits sum.splits)
  show "router_ask bridges call (rh_runId h) (m', y) = on_agent (call (bridges (sel wp)) (rh_runId h)) (m', y)"
    "router_cancel bridges (rh_runId h) (m', y) = on_agent (br_cancel (bridges (sel wp)) (rh_runId h)) (m', y)"
    by (simp_all add: m' jm.put_same router_ask_def router_cancel_def)
  show "i \<noteq> rh_runId h \<Longrightarrow> jm_get m' i = jm_get m i" unfolding m' by (rule jm.put_other)
qed

end
