(* ===== verification/Json_Text.thy ===== *)
theory Json_Text
  imports Prelude_CO
begin

text \<open>
  The texts that the program hashes: \<open>JSON.stringify\<close> of the values it builds, and the date text of
  \<open>Date.prototype.toISOString\<close>. Both are injective: two values with the same text are equal. Numbers
  are integers, which is all the hashed payloads contain besides free metadata.
\<close>

section \<open>The text of a JSON value\<close>

definition hex_digit :: "nat \<Rightarrow> char" where
  "hex_digit k = (if k < 10 then char_of (48 + k) else char_of (87 + k))"

definition quote_char :: char where "quote_char = CHR 0x22"
definition backslash :: char where "backslash = CHR 0x5C"

text \<open>One character of a quoted text, escaped as the language prescribes.\<close>

definition json_char :: "char \<Rightarrow> string" where
  "json_char c =
     (let n = (of_char c :: nat) in
      if n = 34 \<or> n = 92 then [backslash, c]
      else if n = 8 then [backslash, CHR ''b''] else if n = 9 then [backslash, CHR ''t'']
      else if n = 10 then [backslash, CHR ''n''] else if n = 12 then [backslash, CHR ''f'']
      else if n = 13 then [backslash, CHR ''r'']
      else if n < 32 then backslash # ''u00'' @ [hex_digit (n div 16), hex_digit (n mod 16)]
      else [c])"

definition quoted :: "string \<Rightarrow> string" where
  "quoted s = quote_char # concat (map json_char s) @ [quote_char]"

fun json_text :: "json \<Rightarrow> string" where
  "json_text JNull = ''null''"
| "json_text (JBool b) = (if b then ''true'' else ''false'')"
| "json_text (JNum i) = show_int i"
| "json_text (JStr s) = quoted s"
| "json_text (JArr vs) = ''['' @ join '','' (map json_text vs) @ '']''"
| "json_text (JObj kvs) = ''{'' @ join '','' (map (\<lambda>(k, v). quoted k @ '':'' @ json_text v) kvs) @ ''}''"

text \<open>\<open>x ?? null\<close> of a text.\<close>

definition str_or_null :: "string option \<Rightarrow> json" where
  "str_or_null s = (case s of None \<Rightarrow> JNull | Some t \<Rightarrow> JStr t)"

lemma str_or_null_inject [simp]: "str_or_null a = str_or_null b \<longleftrightarrow> a = b"
  by (cases a; cases b) (simp_all add: str_or_null_def)

section \<open>Dates\<close>

text \<open>
  A date is its time value in milliseconds. The year of a day is the last one that starts no later
  than it; the guess by the mean year length is at most one off.
\<close>

definition day_from_year :: "int \<Rightarrow> int" where
  "day_from_year y = 365 * (y - 1970) + (y - 1969) div 4 - (y - 1901) div 100 + (y - 1601) div 400"

definition year_of_day :: "int \<Rightarrow> int" where
  "year_of_day day =
     (let e = 1970 + (400 * day) div 146097 in
      if day_from_year (e + 1) \<le> day then e + 1 else if day_from_year e \<le> day then e else e - 1)"

definition leap_year :: "int \<Rightarrow> bool" where
  "leap_year y \<longleftrightarrow> y mod 4 = 0 \<and> (y mod 100 \<noteq> 0 \<or> y mod 400 = 0)"

definition month_starts :: "bool \<Rightarrow> int list" where
  "month_starts leap = [0, 31] @ map (\<lambda>d. if leap then d + 1 else d) [59, 90, 120, 151, 181, 212, 243, 273, 304, 334]"

text \<open>The number of months of the year that have started by a day of it.\<close>

definition month_of :: "bool \<Rightarrow> int \<Rightarrow> nat" where
  "month_of leap doy = length (takeWhile (\<lambda>s. s \<le> doy) (month_starts leap))"

definition pad :: "nat \<Rightarrow> nat \<Rightarrow> string" where
  "pad k n = (let s = digits_of n in replicate (k - length s) (CHR ''0'') @ s)"

definition iso_year :: "int \<Rightarrow> string" where
  "iso_year y = (if 0 \<le> y \<and> y \<le> 9999 then pad 4 (nat y)
     else if y < 0 then CHR ''-'' # pad 6 (nat (- y)) else CHR ''+'' # pad 6 (nat y))"

definition iso_clock :: "int \<Rightarrow> string" where
  "iso_clock t = ''T'' @ pad 2 (nat (t div 3600000)) @ '':'' @ pad 2 (nat (t div 60000 mod 60)) @ '':'' @
     pad 2 (nat (t div 1000 mod 60)) @ ''.'' @ pad 3 (nat (t mod 1000)) @ ''Z''"

definition toISOString :: "int \<Rightarrow> string" where
  "toISOString t =
     (let day = t div 86400000; y = year_of_day day; doy = day - day_from_year y;
          m = month_of (leap_year y) doy; d = doy - month_starts (leap_year y) ! (m - 1) + 1
      in iso_year y @ ''-'' @ pad 2 m @ ''-'' @ pad 2 (nat d) @ iso_clock (t mod 86400000))"

section \<open>Digits\<close>

definition digit_value :: "char \<Rightarrow> nat" where "digit_value c = of_char c - 48"
definition is_digit :: "char \<Rightarrow> bool" where "is_digit c \<longleftrightarrow> 48 \<le> (of_char c :: nat) \<and> (of_char c :: nat) < 58"

definition number_of :: "string \<Rightarrow> nat" where
  "number_of s = foldl (\<lambda>n c. 10 * n + digit_value c) 0 s"

lemma digit_char: "k < 10 \<Longrightarrow> is_digit (char_of (48 + k)) \<and> digit_value (char_of (48 + k)) = k"
  by (simp add: is_digit_def digit_value_def of_char_of)

lemma digits_of_digits: "c \<in> set (digits_of n) \<Longrightarrow> is_digit c"
proof (induction n rule: digits_of.induct)
  case (1 n)
  then show ?case
    by (subst (asm) (2) digits_of.simps) (auto simp: digit_char [of "n mod 10"] digit_char split: if_splits)
qed

lemma digits_of_nonempty [simp]: "digits_of n \<noteq> []"
  by (subst digits_of.simps) simp

lemma number_of_digits [simp]: "number_of (digits_of n) = n"
proof (induction n rule: digits_of.induct)
  case (1 n)
  show ?case
  proof (cases "n < 10")
    case True
    then show ?thesis by (subst digits_of.simps) (simp add: number_of_def digit_char)
  next
    case False
    then have "number_of (digits_of (n div 10)) = n div 10" by (rule 1)
    with False show ?thesis
      by (subst digits_of.simps) (simp add: number_of_def digit_char)
  qed
qed

lemma digits_of_length: "n < 10 ^ k \<Longrightarrow> 0 < k \<Longrightarrow> length (digits_of n) \<le> k"
proof (induction n arbitrary: k rule: digits_of.induct)
  case (1 n)
  show ?case
  proof (cases "n < 10")
    case True
    with "1.prems" show ?thesis by (subst digits_of.simps) simp
  next
    case False
    then obtain j where k: "k = Suc (Suc j)" using "1.prems" by (cases k; cases "k - 1") auto
    with "1.prems" have "n div 10 < 10 ^ Suc j" by (simp add: div_less_iff_less_mult mult.commute)
    from "1.IH" [OF False this] show ?thesis by (subst digits_of.simps) (simp add: k False)
  qed
qed

lemma number_of_pad [simp]: "number_of (pad k n) = n"
proof -
  have "number_of (replicate j (CHR ''0'') @ s) = number_of s" for j s
    by (induction j) (simp_all add: number_of_def digit_value_def)
  then show ?thesis by (simp add: pad_def Let_def)
qed

lemma length_pad: "n < 10 ^ k \<Longrightarrow> 0 < k \<Longrightarrow> length (pad k n) = k"
  using digits_of_length [of n k] by (simp add: pad_def Let_def)

lemma pad_digits: "c \<in> set (pad k n) \<Longrightarrow> is_digit c"
  by (auto simp: pad_def Let_def dest: digits_of_digits) (simp add: is_digit_def)

lemma pad_inject: "pad k m = pad k n \<longleftrightarrow> m = n"
  by (metis number_of_pad)

lemma digit_run:
  assumes "\<forall>c \<in> set s. is_digit c" and "x = [] \<or> \<not> is_digit (hd x)"
  shows "takeWhile is_digit (s @ x) = s \<and> dropWhile is_digit (s @ x) = x"
proof -
  have "takeWhile is_digit x = [] \<and> dropWhile is_digit x = x" using assms(2) by (cases x) auto
  with assms(1) show ?thesis by (simp add: takeWhile_append2 dropWhile_append2)
qed

lemma digits_inject:
  assumes "digits_of m @ x = digits_of n @ y"
    and "x = [] \<or> \<not> is_digit (hd x)" and "y = [] \<or> \<not> is_digit (hd y)"
  shows "m = n \<and> x = y"
  using digit_run [of "digits_of m" x] digit_run [of "digits_of n" y] assms digits_of_digits
  by (metis number_of_digits)

lemma pad_digits_inject:
  assumes "pad k m @ x = pad k n @ y"
    and "x = [] \<or> \<not> is_digit (hd x)" and "y = [] \<or> \<not> is_digit (hd y)"
  shows "m = n \<and> x = y"
  using digit_run [of "pad k m" x] digit_run [of "pad k n" y] assms pad_digits
  by (metis number_of_pad)

section \<open>The text of a value determines it\<close>

lemma hex_digit_inject:
  assumes "j < 16" "k < 16" "hex_digit j = hex_digit k" shows "j = k"
proof -
  have val: "of_char (hex_digit i) = (if i < 10 then 48 + i else 87 + i)" if "i < 16" for i
    using that by (simp add: hex_digit_def of_char_of)
  have "(of_char (hex_digit j) :: nat) = of_char (hex_digit k)" using assms(3) by simp
  with assms(1,2) show ?thesis by (simp add: val split: if_splits)
qed

text \<open>Reading one escaped character back.\<close>

definition hex_value :: "char \<Rightarrow> nat" where
  "hex_value c = (let n = of_char c in if n < 58 then n - 48 else n - 87)"

fun read_char :: "string \<Rightarrow> (char \<times> string) option" where
  "read_char [] = None"
| "read_char (c # s) =
     (if c \<noteq> backslash then Some (c, s)
      else case s of [] \<Rightarrow> None
        | e # r \<Rightarrow>
            if e = CHR ''b'' then Some (char_of (8 :: nat), r) else if e = CHR ''t'' then Some (char_of (9 :: nat), r)
            else if e = CHR ''n'' then Some (char_of (10 :: nat), r) else if e = CHR ''f'' then Some (char_of (12 :: nat), r)
            else if e = CHR ''r'' then Some (char_of (13 :: nat), r)
            else if e = CHR ''u'' then Some (char_of (16 * hex_value (r ! 2) + hex_value (r ! 3)), drop 4 r)
            else Some (e, r))"

lemma hex_value_digit: "k < 16 \<Longrightarrow> hex_value (hex_digit k) = k"
  by (simp add: hex_value_def hex_digit_def of_char_of)

lemma char_of_quotes: "char_of (34 :: nat) = CHR 0x22" "char_of (92 :: nat) = CHR 0x5C"
proof -
  have "of_char (CHR 0x22) = (34 :: nat)" "of_char (CHR 0x5C) = (92 :: nat)" by simp_all
  then show "char_of (34 :: nat) = CHR 0x22" "char_of (92 :: nat) = CHR 0x5C" by (metis char_of_char)+
qed

lemma read_json_char: "read_char (json_char c @ s) = Some (c, s)"
proof -
  define n :: nat where "n = of_char c"
  then have c: "c = char_of n" and n: "n < 256" by (simp_all add: nat_of_char_less_256)
  have hex: "n < 32 \<Longrightarrow> 16 * hex_value (hex_digit (n div 16)) + hex_value (hex_digit (n mod 16)) = n"
    by (simp add: hex_value_digit)
  have bs: "n \<noteq> 92 \<Longrightarrow> c \<noteq> backslash" by (auto simp: n_def backslash_def)
  consider "n = 34" | "n = 92" | "n \<in> {8, 9, 10, 12, 13}" | "n < 32" "n \<notin> {8, 9, 10, 12, 13}"
    | "32 \<le> n" "n \<noteq> 34" "n \<noteq> 92" by force
  then show ?thesis
  proof cases
    case 3
    then show ?thesis
      unfolding json_char_def n_def [symmetric] by (elim insertE emptyE) (simp_all add: Let_def c)
  next
    case 4
    then show ?thesis
      unfolding json_char_def n_def [symmetric] by (simp add: Let_def hex c [symmetric])
  next
    case 5
    then show ?thesis
      unfolding json_char_def n_def [symmetric] by (simp add: Let_def bs)
  next
    case 1
    then show ?thesis unfolding json_char_def n_def [symmetric] by (simp add: Let_def c char_of_quotes backslash_def)
  next
    case 2
    then show ?thesis unfolding json_char_def n_def [symmetric] by (simp add: Let_def c char_of_quotes backslash_def)
  qed
qed

lemma json_char_inject: "json_char c @ s = json_char d @ t \<Longrightarrow> c = d \<and> s = t"
  by (metis read_json_char option.inject prod.inject)

lemma json_char_first: "json_char c \<noteq> [] \<and> hd (json_char c) \<noteq> quote_char"
  by (auto simp: json_char_def Let_def quote_char_def backslash_def)

lemma quoted_inject:
  assumes "quoted s @ x = quoted t @ y" shows "s = t \<and> x = y"
proof -
  have "concat (map json_char s) @ quote_char # x = concat (map json_char t) @ quote_char # y \<Longrightarrow> s = t \<and> x = y"
  proof (induction s arbitrary: t)
    case Nil
    then show ?case using json_char_first by (cases t) (auto, metis hd_append2 list.sel(1))
  next
    case (Cons c s)
    show ?case
    proof (cases t)
      case Nil
      then show ?thesis using Cons.prems json_char_first [of c] by (auto, metis hd_append2 list.sel(1))
    next
      case (Cons d t')
      then show ?thesis using Cons.prems Cons.IH [of t'] json_char_inject [of c _ d] by auto
    qed
  qed
  then show ?thesis using assms by (simp add: quoted_def)
qed

text \<open>A value inside a larger text ends before a comma or a closing bracket.\<close>

definition value_ends :: "string \<Rightarrow> bool" where
  "value_ends x \<longleftrightarrow> x = [] \<or> hd x \<in> {CHR '','', CHR '']'', CHR ''}''}"

fun first_chars :: "json \<Rightarrow> char set" where
  "first_chars JNull = {CHR ''n''}"
| "first_chars (JBool b) = {if b then CHR ''t'' else CHR ''f''}"
| "first_chars (JNum i) = {c. c = CHR ''-'' \<or> is_digit c}"
| "first_chars (JStr s) = {quote_char}"
| "first_chars (JArr vs) = {CHR ''[''}"
| "first_chars (JObj kvs) = {CHR ''{''}"

lemma json_text_first: "\<exists>c r. json_text v = c # r \<and> c \<in> first_chars v"
proof (cases v)
  case (JNum i)
  obtain c r where "digits_of (nat i) = c # r" by (cases "digits_of (nat i)") auto
  moreover from this have "is_digit c" using digits_of_digits [of c "nat i"] by simp
  ultimately show ?thesis by (auto simp: JNum show_int_def)
qed (auto simp: quoted_def)

lemma join_Cons: "join sep (s # ss) = s @ concat (map (\<lambda>t. sep @ t) ss)"
  by (induction ss arbitrary: s) auto

text \<open>Lists of items between commas, for any item text that is injective in front of a stop.\<close>

definition reads_back :: "('a \<Rightarrow> string) \<Rightarrow> 'a \<Rightarrow> bool" where
  "reads_back f v \<longleftrightarrow>
     (\<forall>w x y. f v @ x = f w @ y \<longrightarrow> value_ends x \<longrightarrow> value_ends y \<longrightarrow> v = w \<and> x = y) \<and>
     f v \<noteq> [] \<and> hd (f v) \<notin> {CHR '']'', CHR ''}'', CHR '',''}"

lemma items_tail_inject:
  assumes "\<forall>v \<in> set vs. reads_back f v" and "\<forall>w. f w \<noteq> []"
    and "concat (map (\<lambda>t. '','' @ f t) vs) @ b # x = concat (map (\<lambda>t. '','' @ f t) ws) @ b # y"
    and "b \<in> {CHR '']'', CHR ''}''}"
  shows "vs = ws \<and> x = y"
  using assms(1,3)
proof (induction vs arbitrary: ws)
  case Nil
  then show ?case using assms(4) by (cases ws) auto
next
  case (Cons v vs)
  have stop: "value_ends (concat (map (\<lambda>t. '','' @ f t) us) @ b # z)" for us z
    using assms(4) by (cases us) (auto simp: value_ends_def)
  from Cons.prems(2) assms(4) obtain w ws' where ws: "ws = w # ws'" by (cases ws) auto
  from Cons.prems(2)
  have "f v @ concat (map (\<lambda>t. '','' @ f t) vs) @ b # x = f w @ concat (map (\<lambda>t. '','' @ f t) ws') @ b # y"
    by (simp add: ws)
  with Cons.prems(1) stop
  have "v = w" "concat (map (\<lambda>t. '','' @ f t) vs) @ b # x = concat (map (\<lambda>t. '','' @ f t) ws') @ b # y"
    unfolding reads_back_def by (metis list.set_intros(1))+
  with Cons.IH [of ws'] Cons.prems(1) show ?case by (simp add: ws)
qed

lemma items_inject:
  assumes reads: "\<forall>v \<in> set vs. reads_back f v" and first: "\<forall>w. f w \<noteq> [] \<and> hd (f w) \<notin> {CHR '']'', CHR ''}''}"
    and eq: "join '','' (map f vs) @ b # x = join '','' (map f ws) @ b # y" and b: "b \<in> {CHR '']'', CHR ''}''}"
  shows "vs = ws \<and> x = y"
proof (cases vs)
  case Nil
  have "ws = []"
  proof (cases ws)
    case (Cons w ws')
    with Nil eq have "hd (f w) = b" using first by (simp add: join_Cons) (metis append_is_Nil_conv hd_append2 list.sel(1))
    with first b show ?thesis by auto
  qed simp
  with Nil eq show ?thesis by simp
next
  case (Cons v vs')
  show ?thesis
  proof (cases ws)
    case Nil
    with Cons eq have "hd (f v) = b" using first by (simp add: join_Cons) (metis append_is_Nil_conv hd_append2 list.sel(1))
    with first b show ?thesis by auto
  next
    case (Cons w ws')
    have "concat (map (\<lambda>t. '','' @ f t) vs) @ b # x = concat (map (\<lambda>t. '','' @ f t) ws) @ b # y"
      using eq \<open>vs = v # vs'\<close> Cons by (simp add: join_Cons map_map comp_def)
    then show ?thesis using items_tail_inject [of vs f b x ws y] reads first b by simp
  qed
qed

lemma json_text_stops_not: "hd (json_text v) \<notin> {CHR '']'', CHR ''}'', CHR '',''}" "json_text v \<noteq> []"
proof -
  obtain c r where "json_text v = c # r" "c \<in> first_chars v" using json_text_first by blast
  then show "hd (json_text v) \<notin> {CHR '']'', CHR ''}'', CHR '',''}" "json_text v \<noteq> []"
    by (cases v; auto simp: is_digit_def quote_char_def)+
qed

text \<open>The first characters tell the kinds of value apart.\<close>

lemma first_chars_kind:
  assumes "json_text v @ x = json_text w @ y" shows "first_chars v \<inter> first_chars w \<noteq> {}"
proof -
  obtain c r d q where "json_text v = c # r" "c \<in> first_chars v" "json_text w = d # q" "d \<in> first_chars w"
    using json_text_first by metis
  with assms show ?thesis by auto
qed

lemma show_int_inject:
  assumes eq: "show_int i @ x = show_int j @ y" and "value_ends x" "value_ends y"
  shows "i = j \<and> x = y"
proof -
  have ends: "z = [] \<or> \<not> is_digit (hd z)" if "value_ends z" for z
    using that by (auto simp: value_ends_def is_digit_def)
  have no_minus: "digits_of n @ z \<noteq> CHR ''-'' # z'" for n z z'
  proof
    assume "digits_of n @ z = CHR ''-'' # z'"
    then have "hd (digits_of n) = CHR ''-''" by (metis digits_of_nonempty hd_append2 list.sel(1))
    then show False using digits_of_digits [of "hd (digits_of n)" n] hd_in_set [OF digits_of_nonempty, of n]
      by (simp add: is_digit_def)
  qed
  have "(i < 0) = (j < 0) \<and> nat \<bar>i\<bar> = nat \<bar>j\<bar> \<and> x = y"
    using eq digits_inject [of "nat \<bar>i\<bar>" x "nat \<bar>j\<bar>" y] ends [OF assms(2)] ends [OF assms(3)]
      no_minus [of "nat i" x] no_minus [of "nat j" y]
    by (auto simp: show_int_def split: if_splits dest: sym)
  then show ?thesis by linarith
qed

lemma member_reads_back:
  assumes "reads_back json_text v"
  shows "reads_back (\<lambda>(k, v). quoted k @ '':'' @ json_text v) (k, v)"
proof -
  have "(k, v) = kw \<and> x = y"
    if eq: "quoted k @ '':'' @ json_text v @ x = (\<lambda>(k, v). quoted k @ '':'' @ json_text v) kw @ y"
      and "value_ends x" "value_ends y" for kw x y
  proof -
    obtain k' w where kw: "kw = (k', w)" by (cases kw)
    from eq have "quoted k @ '':'' @ json_text v @ x = quoted k' @ '':'' @ json_text w @ y" by (simp add: kw)
    from quoted_inject [OF this] have "k = k'" "json_text v @ x = json_text w @ y" by auto
    with assms that(2,3) show ?thesis unfolding kw reads_back_def by blast
  qed
  then show ?thesis by (simp add: reads_back_def quoted_def quote_char_def)
qed

text \<open>In front of a comma, a closing bracket or the end, the text of a value determines it.\<close>

theorem json_text_reads_back: "reads_back json_text v"
proof -
  have "v = w \<and> x = y" if "json_text v @ x = json_text w @ y" "value_ends x" "value_ends y" for w x y
    using that
  proof (induction v arbitrary: w x y)
    case JNull
    then show ?case using first_chars_kind [OF JNull(1)] by (cases w) (auto simp: is_digit_def quote_char_def split: if_splits)
  next
    case (JBool b)
    then show ?case using first_chars_kind [OF JBool(1)] by (cases w) (auto simp: is_digit_def quote_char_def split: if_splits)
  next
    case (JNum i)
    then obtain j where w: "w = JNum j"
      using first_chars_kind [OF JNum(1)] by (cases w) (auto simp: is_digit_def quote_char_def split: if_splits)
    with JNum show ?case using show_int_inject [of i x j y] by simp
  next
    case (JStr s)
    then obtain t where w: "w = JStr t"
      using first_chars_kind [OF JStr(1)] by (cases w) (auto simp: is_digit_def quote_char_def split: if_splits)
    with JStr show ?case using quoted_inject [of s x t y] by simp
  next
    case (JArr vs)
    then obtain ws where w: "w = JArr ws"
      using first_chars_kind [OF JArr(2)] by (cases w) (auto simp: is_digit_def quote_char_def split: if_splits)
    have "\<forall>v \<in> set vs. reads_back json_text v"
      using JArr.IH json_text_stops_not by (simp add: reads_back_def)
    then show ?case
      using items_inject [of vs json_text "CHR '']''" x ws y] JArr(2) json_text_stops_not by (simp add: w)
  next
    case (JObj kvs)
    then obtain kws where w: "w = JObj kws"
      using first_chars_kind [OF JObj(2)] by (cases w) (auto simp: is_digit_def quote_char_def split: if_splits)
    have "reads_back json_text v" if "(k, v) \<in> set kvs" for k v
      using JObj.IH [OF that] json_text_stops_not by (simp add: reads_back_def)
    then have "\<forall>kv \<in> set kvs. reads_back (\<lambda>(k, v). quoted k @ '':'' @ json_text v) kv"
      using member_reads_back by (metis surj_pair)
    then show ?case
      using items_inject [of kvs "\<lambda>(k, v). quoted k @ '':'' @ json_text v" "CHR ''}''" x kws y] JObj(2)
      by (simp add: w split_beta quoted_def quote_char_def)
  qed
  then show ?thesis using json_text_stops_not by (simp add: reads_back_def)
qed

lemma json_text_inject: "json_text v = json_text w \<longleftrightarrow> v = w"
proof
  assume "json_text v = json_text w"
  then have "json_text v @ [] = json_text w @ []" by simp
  then show "v = w" using json_text_reads_back [of v] unfolding reads_back_def value_ends_def by blast
qed simp

section \<open>The text of a date determines it\<close>

lemma day_from_year_bounds:
  "146097 * (y - 1970) - 506 \<le> 400 * day_from_year y \<and> 400 * day_from_year y \<le> 146097 * (y - 1970) + 589"
proof -
  have "4 * ((y - 1969) div 4) \<le> y - 1969 \<and> y - 1972 \<le> 4 * ((y - 1969) div 4)" by linarith
  moreover have "100 * ((y - 1901) div 100) \<le> y - 1901 \<and> y - 2000 \<le> 100 * ((y - 1901) div 100)" by linarith
  moreover have "400 * ((y - 1601) div 400) \<le> y - 1601 \<and> y - 2000 \<le> 400 * ((y - 1601) div 400)" by linarith
  ultimately show ?thesis unfolding day_from_year_def by (simp add: algebra_simps; linarith)
qed

text \<open>The year found is the one the language prescribes: the day lies in it.\<close>

lemma year_of_day_bounds: "day_from_year (year_of_day d) \<le> d \<and> d < day_from_year (year_of_day d + 1)"
proof -
  define q where "q = (400 * d) div 146097"
  have q: "146097 * q \<le> 400 * d \<and> 400 * d < 146097 * q + 146097" unfolding q_def by linarith
  define e where "e = 1970 + q"
  have year: "year_of_day d =
      (if day_from_year (e + 1) \<le> d then e + 1 else if day_from_year e \<le> d then e else e - 1)"
    by (simp add: year_of_day_def Let_def e_def q_def)
  have "d < day_from_year (e + 2)" using day_from_year_bounds [of "e + 2"] q by (simp add: e_def)
  moreover have "day_from_year (e - 1) \<le> d" using day_from_year_bounds [of "e - 1"] q by (simp add: e_def)
  ultimately show ?thesis by (simp add: year add.commute)
qed

lemma iso_year_cases:
  obtains (plain) "iso_year y = pad 4 (nat y)" "0 \<le> y"
  | (minus) "iso_year y = CHR ''-'' # pad 6 (nat (- y))" "y < 0"
  | (plus) "iso_year y = CHR ''+'' # pad 6 (nat y)" "9999 < y"
proof (cases "0 \<le> y \<and> y \<le> 9999")
  case True
  then show thesis by (intro plain) (simp_all add: iso_year_def)
next
  case False
  then show thesis by (cases "y < 0") (use minus plus in \<open>auto simp: iso_year_def\<close>)
qed

lemma pad_first: "pad k n @ u = c # v \<Longrightarrow> is_digit c" "c # v = pad k n @ u \<Longrightarrow> is_digit c"
proof -
  have "pad k n \<noteq> []" by (simp add: pad_def Let_def)
  then obtain d r where "pad k n = d # r" by (cases "pad k n") auto
  with pad_digits [of d k n]
  show "pad k n @ u = c # v \<Longrightarrow> is_digit c" "c # v = pad k n @ u \<Longrightarrow> is_digit c" by simp_all
qed

lemma iso_year_inject:
  assumes eq: "iso_year y @ CHR ''-'' # x = iso_year z @ CHR ''-'' # x'" shows "y = z \<and> x = x'"
proof -
  have minus: "\<not> is_digit (CHR ''-'')" and plus: "\<not> is_digit (CHR ''+'')" by (simp_all add: is_digit_def)
  have pads: "pad k m @ CHR ''-'' # x = pad k n @ CHR ''-'' # x' \<Longrightarrow> m = n \<and> x = x'" for k m n
    using pad_digits_inject [of k m "CHR ''-'' # x" n "CHR ''-'' # x'"] minus by simp
  show ?thesis
  proof (cases y rule: iso_year_cases)
    case y: plain
    with eq minus plus show ?thesis
      by (cases z rule: iso_year_cases) (auto dest: pad_first pads)
  next
    case y: minus
    with eq minus plus show ?thesis
      by (cases z rule: iso_year_cases) (auto dest: pad_first pads)
  next
    case y: plus
    with eq minus plus show ?thesis
      by (cases z rule: iso_year_cases) (auto dest: pad_first pads)
  qed
qed

lemma iso_clock_inject:
  assumes "0 \<le> s" "s < 86400000" "0 \<le> t" "t < 86400000" "iso_clock s = iso_clock t"
  shows "s = t"
proof -
  have two: "length (pad 2 (nat k)) = 2" if "k < 100" for k :: int using that by (intro length_pad) auto
  have three: "length (pad 3 (nat k)) = 3" if "k < 1000" for k :: int using that by (intro length_pad) auto
  have "pad 2 (nat (s div 3600000)) = pad 2 (nat (t div 3600000)) \<and>
    pad 2 (nat (s div 60000 mod 60)) = pad 2 (nat (t div 60000 mod 60)) \<and>
    pad 2 (nat (s div 1000 mod 60)) = pad 2 (nat (t div 1000 mod 60)) \<and>
    pad 3 (nat (s mod 1000)) = pad 3 (nat (t mod 1000))"
    using assms by (simp add: iso_clock_def two three)
  then have "s div 3600000 = t div 3600000" "s div 60000 mod 60 = t div 60000 mod 60"
    "s div 1000 mod 60 = t div 1000 mod 60" "s mod 1000 = t mod 1000"
    using assms by (simp_all add: pad_inject eq_nat_nat_iff pos_imp_zdiv_nonneg_iff)
  moreover have "u = 1000 * (60 * (60 * (u div 3600000) + u div 60000 mod 60) + u div 1000 mod 60) + u mod 1000" for u :: int
  proof -
    have "u div 60000 = u div 1000 div 60" "u div 3600000 = u div 60000 div 60" by (simp_all add: zdiv_zmult2_eq [symmetric])
    then show ?thesis by simp
  qed
  ultimately show ?thesis by metis
qed

lemma month_start_le: "0 \<le> doy \<Longrightarrow> month_starts leap ! (month_of leap doy - 1) \<le> doy"
proof -
  assume "0 \<le> doy"
  let ?t = "takeWhile (\<lambda>s. s \<le> doy) (month_starts leap)"
  have "?t \<noteq> []" using \<open>0 \<le> doy\<close> by (simp add: month_starts_def)
  then have "?t ! (length ?t - 1) \<in> set ?t" by (intro nth_mem) (cases ?t; simp)
  then have "?t ! (length ?t - 1) \<le> doy" by (rule set_takeWhileD [THEN conjunct2])
  moreover have "?t ! (length ?t - 1) = month_starts leap ! (length ?t - 1)"
    using \<open>?t \<noteq> []\<close> by (intro takeWhile_nth) (cases ?t; simp)
  ultimately show ?thesis by (simp add: month_of_def)
qed

theorem toISOString_inject: "toISOString s = toISOString t \<longleftrightarrow> s = t"
proof
  assume eq: "toISOString s = toISOString t"
  define day where "day u = u div 86400000" for u :: int
  define yr where "yr u = year_of_day (day u)" for u
  define doy where "doy u = day u - day_from_year (yr u)" for u
  define mo where "mo u = month_of (leap_year (yr u)) (doy u)" for u
  define d where "d u = doy u - month_starts (leap_year (yr u)) ! (mo u - 1) + 1" for u
  have form: "toISOString u = iso_year (yr u) @ ''-'' @ pad 2 (mo u) @ ''-'' @ pad 2 (nat (d u)) @ iso_clock (u mod 86400000)" for u
    by (simp add: toISOString_def Let_def day_def yr_def doy_def mo_def d_def)
  have pos: "1 \<le> d u" for u
  proof -
    have "0 \<le> doy u" using year_of_day_bounds [of "day u"] by (simp add: doy_def yr_def)
    from month_start_le [OF this] show ?thesis by (simp add: d_def mo_def)
  qed
  have ends: "\<not> is_digit (hd (iso_clock u))" "\<not> is_digit (CHR ''-'')" for u by (simp_all add: iso_clock_def is_digit_def)
  from eq have y: "yr s = yr t"
    and "pad 2 (mo s) @ ''-'' @ pad 2 (nat (d s)) @ iso_clock (s mod 86400000) =
         pad 2 (mo t) @ ''-'' @ pad 2 (nat (d t)) @ iso_clock (t mod 86400000)"
    using iso_year_inject [of "yr s" _ "yr t"] unfolding form by simp_all
  then have m: "mo s = mo t"
    and "pad 2 (nat (d s)) @ iso_clock (s mod 86400000) = pad 2 (nat (d t)) @ iso_clock (t mod 86400000)"
    using pad_digits_inject [of 2 "mo s" _ "mo t"] ends(2) by fastforce+
  then have "nat (d s) = nat (d t)" "iso_clock (s mod 86400000) = iso_clock (t mod 86400000)"
    using pad_digits_inject [of 2 "nat (d s)" _ "nat (d t)"] ends(1) by blast+
  then have "d s = d t" "s mod 86400000 = t mod 86400000"
    using pos [of s] pos [of t] iso_clock_inject [of "s mod 86400000" "t mod 86400000"] by simp_all
  moreover from this y m have "day s = day t" by (simp add: d_def doy_def)
  ultimately show "s = t" unfolding day_def by presburger
qed simp

section \<open>Hashes of texts\<close>

text \<open>Two payloads do not collide under the hash.\<close>

definition no_collision :: "(string \<Rightarrow> string) \<Rightarrow> json \<Rightarrow> json \<Rightarrow> bool" where
  "no_collision sha a b \<longleftrightarrow> (sha (json_text a) = sha (json_text b) \<longrightarrow> json_text a = json_text b)"

lemma no_collision_eq: "no_collision sha a b \<Longrightarrow> sha (json_text a) = sha (json_text b) \<Longrightarrow> a = b"
  by (simp add: no_collision_def json_text_inject)

lemma no_collision_iff: "no_collision sha a b \<Longrightarrow> sha (json_text a) = sha (json_text b) \<longleftrightarrow> a = b"
  by (auto simp: no_collision_def json_text_inject)

text \<open>A hexadecimal digest is never blank.\<close>

definition nonblank :: "(string \<Rightarrow> string) \<Rightarrow> bool" where
  "nonblank sha \<longleftrightarrow> (\<forall>s. trim (sha s) \<noteq> [])"

lemma trim_Nil [simp]: "trim [] = []"
  by (simp add: trim_def)

lemma nonblank_nonempty: "nonblank sha \<Longrightarrow> sha s \<noteq> []"
  unfolding nonblank_def by (metis trim_Nil)

text \<open>A stand-in hash for examples: no two texts collide and none is blank.\<close>

definition sample_sha :: "string \<Rightarrow> string" where "sample_sha s = s @ ''#''"

lemma sample_sha_good: "nonblank sample_sha" "no_collision sample_sha x y"
proof -
  have "\<not> is_space (CHR ''#'')" by (simp add: is_space_def)
  then have "trim (s @ ''#'') \<noteq> []" for s
    by (cases "dropWhile is_space s") (auto simp: trim_def dropWhile_append dropWhile_eq_Nil_conv)
  then show "nonblank sample_sha" by (simp add: nonblank_def sample_sha_def)
  show "no_collision sample_sha x y" by (simp add: no_collision_def sample_sha_def)
qed

end
