(* ===== verification/Evidence_Records.thy ===== *)
theory Evidence_Records
  imports Domain_Model Json_Text "HOL-Library.List_Lexorder" "HOL-Library.Char_ord" "HOL-Library.Multiset"
begin

text \<open>
  Artifacts, evidence and verifications with their integrity digests
  (\<^verbatim>\<open>packages/evidence/src/records.ts\<close>). SHA-256 is the parameter \<open>sha\<close>; what the digests promise
  is stated of the texts at hand: that \<open>sha\<close> does not map two different ones of them to one digest.
\<close>

section \<open>The records\<close>

datatype evidence_currentness = EC_CURRENT | EC_STALE | EC_INVALIDATED
datatype verification_status = VS_PASS | VS_FAIL | VS_INCONCLUSIVE
datatype verification_type = VT_TEST | VT_STATIC_CHECK | VT_BEHAVIORAL_CHECK | VT_MANUAL_RULE

text \<open>
  The kinds of artifacts and the sources of evidence are unions of texts that nothing checks when the program runs: the
  columns are text and the callers cast, so any text can stand there.
\<close>

type_synonym artifact_kind = string
type_synonym evidence_source = string

definition ARTIFACT_KINDS :: "artifact_kind list" where
  "ARTIFACT_KINDS = [''PATCH'', ''FILE'', ''TEST_REPORT'', ''COMMAND_OUTPUT'', ''LOG'', ''OTHER'']"

definition EVIDENCE_SOURCES :: "evidence_source list" where
  "EVIDENCE_SOURCES = [''AGENT_RESULT'', ''TOOL_RESULT'', ''VERIFICATION'']"

fun currentness_name :: "evidence_currentness \<Rightarrow> string" where
  "currentness_name EC_CURRENT = ''CURRENT''"
| "currentness_name EC_STALE = ''STALE''"
| "currentness_name EC_INVALIDATED = ''INVALIDATED''"

fun verification_status_name :: "verification_status \<Rightarrow> string" where
  "verification_status_name VS_PASS = ''PASS''"
| "verification_status_name VS_FAIL = ''FAIL''"
| "verification_status_name VS_INCONCLUSIVE = ''INCONCLUSIVE''"

fun verification_type_name :: "verification_type \<Rightarrow> string" where
  "verification_type_name VT_TEST = ''TEST''"
| "verification_type_name VT_STATIC_CHECK = ''STATIC_CHECK''"
| "verification_type_name VT_BEHAVIORAL_CHECK = ''BEHAVIORAL_CHECK''"
| "verification_type_name VT_MANUAL_RULE = ''MANUAL_RULE''"

record artifact_record =
  af_id :: string
  af_projectId :: string
  af_runId :: string
  af_workItemId :: string
  af_attemptId :: "string option"
  af_kind :: artifact_kind
  af_uri :: string
  af_hash :: "string option"
  af_producedBy :: string
  af_digest :: "string option"
  af_createdAt :: int

record evidence_record =
  ev_id :: string
  ev_projectId :: string
  ev_runId :: string
  ev_workItemId :: string
  ev_attemptId :: "string option"
  ev_approvalId :: "string option"
  ev_agentId :: "string option"
  ev_artifactId :: "string option"
  ev_claim :: string
  ev_sourceType :: evidence_source
  ev_sourceRef :: string
  ev_scmCommitSha :: "string option"
  ev_deploymentUri :: "string option"
  ev_currentness :: evidence_currentness
  ev_digest :: "string option"
  ev_observedAt :: int
  ev_createdAt :: int

record verification_record =
  vf_id :: string
  vf_projectId :: string
  vf_runId :: string
  vf_workItemId :: string
  vf_attemptId :: "string option"
  vf_verificationType :: verification_type
  vf_status :: verification_status
  vf_evidenceIds :: "string list"
  vf_verifierRef :: string
  vf_completionDecisionId :: "string option"
  vf_digest :: "string option"
  vf_verifiedAt :: int
  vf_createdAt :: int

section \<open>Digests\<close>

definition artifact_payload :: "artifact_record \<Rightarrow> json" where
  "artifact_payload r = JObj
     [(''id'', JStr (af_id r)), (''projectId'', JStr (af_projectId r)), (''runId'', JStr (af_runId r)),
      (''workItemId'', JStr (af_workItemId r)), (''attemptId'', str_or_null (af_attemptId r)),
      (''kind'', JStr (af_kind r)), (''uri'', JStr (af_uri r)),
      (''hash'', str_or_null (af_hash r)), (''producedBy'', JStr (af_producedBy r)),
      (''createdAt'', JStr (toISOString (af_createdAt r)))]"

definition computeArtifactDigest :: "(string \<Rightarrow> string) \<Rightarrow> artifact_record \<Rightarrow> string" where
  "computeArtifactDigest sha r = sha (json_text (artifact_payload r))"

definition verifyArtifactIntegrity :: "(string \<Rightarrow> string) \<Rightarrow> artifact_record \<Rightarrow> bool" where
  "verifyArtifactIntegrity sha r \<longleftrightarrow> truthy (af_digest r) \<and> af_digest r = Some (computeArtifactDigest sha r)"

definition evidence_payload :: "evidence_record \<Rightarrow> json" where
  "evidence_payload r = JObj
     [(''id'', JStr (ev_id r)), (''projectId'', JStr (ev_projectId r)), (''runId'', JStr (ev_runId r)),
      (''workItemId'', JStr (ev_workItemId r)), (''attemptId'', str_or_null (ev_attemptId r)),
      (''approvalId'', str_or_null (ev_approvalId r)), (''agentId'', str_or_null (ev_agentId r)),
      (''artifactId'', str_or_null (ev_artifactId r)), (''claim'', JStr (ev_claim r)),
      (''sourceType'', JStr (ev_sourceType r)), (''sourceRef'', JStr (ev_sourceRef r)),
      (''scmCommitSha'', str_or_null (ev_scmCommitSha r)), (''deploymentUri'', str_or_null (ev_deploymentUri r)),
      (''currentness'', JStr (currentness_name (ev_currentness r))),
      (''observedAt'', JStr (toISOString (ev_observedAt r)))]"

definition computeEvidenceDigest :: "(string \<Rightarrow> string) \<Rightarrow> evidence_record \<Rightarrow> string" where
  "computeEvidenceDigest sha r = sha (json_text (evidence_payload r))"

definition verifyEvidenceIntegrity :: "(string \<Rightarrow> string) \<Rightarrow> evidence_record \<Rightarrow> bool" where
  "verifyEvidenceIntegrity sha r \<longleftrightarrow> truthy (ev_digest r) \<and> ev_digest r = Some (computeEvidenceDigest sha r)"

text \<open>The evidence ids are hashed in the order of JavaScript's default sort, by characters.\<close>

definition verification_payload :: "verification_record \<Rightarrow> json" where
  "verification_payload r = JObj
     [(''id'', JStr (vf_id r)), (''projectId'', JStr (vf_projectId r)), (''runId'', JStr (vf_runId r)),
      (''workItemId'', JStr (vf_workItemId r)), (''attemptId'', str_or_null (vf_attemptId r)),
      (''verificationType'', JStr (verification_type_name (vf_verificationType r))),
      (''status'', JStr (verification_status_name (vf_status r))),
      (''evidenceIds'', JArr (map JStr (sort (vf_evidenceIds r)))), (''verifierRef'', JStr (vf_verifierRef r)),
      (''completionDecisionId'', str_or_null (vf_completionDecisionId r)),
      (''verifiedAt'', JStr (toISOString (vf_verifiedAt r)))]"

definition computeVerificationDigest :: "(string \<Rightarrow> string) \<Rightarrow> verification_record \<Rightarrow> string" where
  "computeVerificationDigest sha r = sha (json_text (verification_payload r))"

definition verifyVerificationIntegrity :: "(string \<Rightarrow> string) \<Rightarrow> verification_record \<Rightarrow> bool" where
  "verifyVerificationIntegrity sha r \<longleftrightarrow>
     truthy (vf_digest r) \<and> vf_digest r = Some (computeVerificationDigest sha r)"

section \<open>When a verification can complete a work item\<close>

definition evidence_by_id :: "evidence_record list \<Rightarrow> (string, evidence_record) jsmap" where
  "evidence_by_id evs = fold (\<lambda>r m. jm_set (ev_id r) r m) evs []"

fun check_evidence_scope :: "string \<Rightarrow> string \<Rightarrow> (string, evidence_record) jsmap \<Rightarrow> string list \<Rightarrow> exn + unit" where
  "check_evidence_scope projectId workItemId m [] = Inr ()"
| "check_evidence_scope projectId workItemId m (i # ids) =
     (case jm_get m i of
        None \<Rightarrow> Inl (VerificationEvidenceError (''Evidence '' @ i @ '' is missing.''))
      | Some r \<Rightarrow>
          if ev_projectId r \<noteq> projectId \<or> ev_workItemId r \<noteq> workItemId
          then Inl (VerificationEvidenceError (''Evidence '' @ i @ '' is outside the WorkItem scope.''))
          else if ev_currentness r \<noteq> EC_CURRENT
          then Inl (VerificationEvidenceError
            (''Evidence '' @ i @ '' is '' @ currentness_name (ev_currentness r) @ '', not CURRENT.''))
          else check_evidence_scope projectId workItemId m ids)"

definition blank_digest :: "string option \<Rightarrow> bool" where
  "blank_digest d \<longleftrightarrow> \<not> truthy d \<or> trim (or_empty d) = []"

fun check_evidence_digests :: "(string \<Rightarrow> string) \<Rightarrow> (string, evidence_record) jsmap \<Rightarrow> string list \<Rightarrow> exn + unit" where
  "check_evidence_digests sha m [] = Inr ()"
| "check_evidence_digests sha m (i # ids) =
     (let failed = EvidenceTamperedError (''Evidence '' @ i @ '' integrity verification failed: missing or invalid digest.'')
      in case jm_get m i of
        None \<Rightarrow> Inl failed
      | Some r \<Rightarrow> if blank_digest (ev_digest r) \<or> \<not> verifyEvidenceIntegrity sha r then Inl failed
                  else check_evidence_digests sha m ids)"

definition assertVerificationCanCompleteWorkItem ::
    "(string \<Rightarrow> string) \<Rightarrow> string \<Rightarrow> string \<Rightarrow> verification_record \<Rightarrow> evidence_record list \<Rightarrow> exn + unit" where
  "assertVerificationCanCompleteWorkItem sha projectId workItemId v evs =
     (if vf_projectId v \<noteq> projectId \<or> vf_workItemId v \<noteq> workItemId
      then Inl (VerificationEvidenceError ''Verification scope does not match the target WorkItem.'')
      else if vf_status v \<noteq> VS_PASS
      then Inl (VerificationEvidenceError
        (''Verification must be PASS; received '' @ verification_status_name (vf_status v) @ ''.''))
      else if vf_evidenceIds v = []
      then Inl (VerificationEvidenceError ''PASS verification must reference at least one EvidenceRecord.'')
      else
        let m = evidence_by_id evs in
        case check_evidence_scope projectId workItemId m (vf_evidenceIds v) of
          Inl e \<Rightarrow> Inl e
        | Inr _ \<Rightarrow>
            if blank_digest (vf_digest v) \<or> \<not> verifyVerificationIntegrity sha v
            then Inl (EvidenceTamperedError
              (''Verification '' @ vf_id v @ '' integrity verification failed: missing or invalid digest.''))
            else check_evidence_digests sha m (vf_evidenceIds v))"

section \<open>The checks, as conditions\<close>

lemma names_inject [simp]:
  "currentness_name c = currentness_name d \<longleftrightarrow> c = d"
  "verification_status_name s = verification_status_name t \<longleftrightarrow> s = t"
  "verification_type_name g = verification_type_name h \<longleftrightarrow> g = h"
  by ((cases c; cases d; simp), (cases s; cases t; simp), (cases g; cases h; simp))

lemma evidence_by_id_get: "jm_get (evidence_by_id evs) i = find_row (\<lambda>r. ev_id r = i) (rev evs)"
proof -
  have "jm_get (fold (\<lambda>r m. jm_set (ev_id r) r m) evs m) i =
      (case find_row (\<lambda>r. ev_id r = i) (rev evs) of None \<Rightarrow> jm_get m i | Some r \<Rightarrow> Some r)" for m
    by (induction evs arbitrary: m) (auto simp: find_row_append split: option.splits)
  from this [of "[]"] show ?thesis by (simp add: evidence_by_id_def split: option.splits)
qed

text \<open>What the check asks of the record an evidence id denotes: the last one listed with that id.\<close>

definition supports :: "(string \<Rightarrow> string) \<Rightarrow> string \<Rightarrow> string \<Rightarrow> evidence_record list \<Rightarrow> string \<Rightarrow> bool" where
  "supports sha p w evs i \<longleftrightarrow>
     (case find_row (\<lambda>r. ev_id r = i) (rev evs) of
        None \<Rightarrow> False
      | Some r \<Rightarrow> ev_projectId r = p \<and> ev_workItemId r = w \<and> ev_currentness r = EC_CURRENT \<and>
          \<not> blank_digest (ev_digest r) \<and> verifyEvidenceIntegrity sha r)"

lemma supports_in: "supports sha p w evs i \<Longrightarrow> \<exists>r \<in> set evs. ev_id r = i \<and> ev_projectId r = p \<and>
    ev_workItemId r = w \<and> ev_currentness r = EC_CURRENT \<and> verifyEvidenceIntegrity sha r"
  by (force simp: supports_def split: option.splits dest: find_row_Some)

lemma checks_iff:
  "(check_evidence_scope p w (evidence_by_id evs) ids = Inr () \<and>
    check_evidence_digests sha (evidence_by_id evs) ids = Inr ()) \<longleftrightarrow> (\<forall>i \<in> set ids. supports sha p w evs i)"
  by (induction ids) (auto simp: supports_def evidence_by_id_get Let_def split: option.splits)

lemma can_complete_iff:
  "assertVerificationCanCompleteWorkItem sha p w v evs = Inr () \<longleftrightarrow>
     vf_projectId v = p \<and> vf_workItemId v = w \<and> vf_status v = VS_PASS \<and> vf_evidenceIds v \<noteq> [] \<and>
     \<not> blank_digest (vf_digest v) \<and> verifyVerificationIntegrity sha v \<and>
     (\<forall>i \<in> set (vf_evidenceIds v). supports sha p w evs i)"
  using checks_iff [of p w evs "vf_evidenceIds v" sha]
  by (auto simp: assertVerificationCanCompleteWorkItem_def Let_def split: sum.splits)

section \<open>Tampering\<close>

lemma sorted_same_mset: "sort xs = sort ys \<longleftrightarrow> mset xs = mset (ys :: string list)"
  by (metis mset_sort properties_for_sort sorted_sort)

lemma map_JStr_inject: "map JStr xs = map JStr ys \<longleftrightarrow> xs = ys"
  by (simp add: inj_map_eq_map inj_def)

lemma artifact_payload_inject:
  "artifact_payload r = artifact_payload r' \<Longrightarrow> af_digest r = af_digest r' \<Longrightarrow> r = r'"
  by (simp add: artifact_payload_def toISOString_inject)

lemma evidence_payload_covers:
  "ev_digest r = ev_digest r' \<Longrightarrow> evidence_payload r = evidence_payload r' \<longleftrightarrow> r = r'\<lparr>ev_createdAt := ev_createdAt r\<rparr>"
  by (cases r; cases r') (auto simp: evidence_payload_def toISOString_inject)

lemma verification_payload_covers:
  "vf_digest v = vf_digest v' \<Longrightarrow> verification_payload v = verification_payload v' \<longleftrightarrow>
     v = v'\<lparr>vf_createdAt := vf_createdAt v, vf_evidenceIds := vf_evidenceIds v\<rparr> \<and>
     mset (vf_evidenceIds v) = mset (vf_evidenceIds v')"
  by (cases v; cases v')
    (auto simp: verification_payload_def toISOString_inject map_JStr_inject sorted_same_mset)

lemma verify_iff:
  "verifyArtifactIntegrity sha a \<Longrightarrow> af_digest a' = af_digest a \<Longrightarrow>
     verifyArtifactIntegrity sha a' \<longleftrightarrow> sha (json_text (artifact_payload a)) = sha (json_text (artifact_payload a'))"
  "verifyEvidenceIntegrity sha r \<Longrightarrow> ev_digest r' = ev_digest r \<Longrightarrow>
     verifyEvidenceIntegrity sha r' \<longleftrightarrow> sha (json_text (evidence_payload r)) = sha (json_text (evidence_payload r'))"
  "verifyVerificationIntegrity sha v \<Longrightarrow> vf_digest v' = vf_digest v \<Longrightarrow>
     verifyVerificationIntegrity sha v' \<longleftrightarrow> sha (json_text (verification_payload v)) = sha (json_text (verification_payload v'))"
  by (auto simp: verifyArtifactIntegrity_def verifyEvidenceIntegrity_def verifyVerificationIntegrity_def
    computeArtifactDigest_def computeEvidenceDigest_def computeVerificationDigest_def)

text \<open>
  C18: Tampering is detected. Take an artifact, an evidence record and a verification that pass their
  integrity check, and any records carrying the same stored digests. Unless the hash collides on
  the two texts, the altered record passes exactly when nothing but its creation date differs (for
  an artifact: nothing at all; for a verification the evidence ids may be reordered).
\<close>
theorem tampering_is_detected:
  assumes "verifyArtifactIntegrity sha a" "verifyEvidenceIntegrity sha r" "verifyVerificationIntegrity sha v"
    and "af_digest a' = af_digest a" "ev_digest r' = ev_digest r" "vf_digest v' = vf_digest v"
    and "no_collision sha (artifact_payload a) (artifact_payload a')"
    and "no_collision sha (evidence_payload r) (evidence_payload r')"
    and "no_collision sha (verification_payload v) (verification_payload v')"
  shows "(verifyArtifactIntegrity sha a' \<longleftrightarrow> a = a') \<and>
    (verifyEvidenceIntegrity sha r' \<longleftrightarrow> r = r'\<lparr>ev_createdAt := ev_createdAt r\<rparr>) \<and>
    (verifyVerificationIntegrity sha v' \<longleftrightarrow>
       v = v'\<lparr>vf_createdAt := vf_createdAt v, vf_evidenceIds := vf_evidenceIds v\<rparr> \<and>
       mset (vf_evidenceIds v) = mset (vf_evidenceIds v'))"
proof -
  have "artifact_payload a = artifact_payload a' \<longleftrightarrow> a = a'"
    using artifact_payload_inject [of a a'] assms(4) by auto
  with assms show ?thesis
    by (simp add: verify_iff(1) [OF assms(1)] verify_iff(2) [OF assms(2)] verify_iff(3) [OF assms(3)] no_collision_iff
      evidence_payload_covers verification_payload_covers)
qed

definition sample_artifact :: artifact_record where
  "sample_artifact = \<lparr>af_id = ''a1'', af_projectId = ''p1'', af_runId = ''r1'', af_workItemId = ''w1'',
     af_attemptId = None, af_kind = ''FILE'', af_uri = ''file://repo/patch.diff'', af_hash = None,
     af_producedBy = ''agent:1'', af_digest = None, af_createdAt = 1788559200000\<rparr>"

definition sample_evidence :: evidence_record where
  "sample_evidence = \<lparr>ev_id = ''e1'', ev_projectId = ''p1'', ev_runId = ''r1'', ev_workItemId = ''w1'',
     ev_attemptId = None, ev_approvalId = None, ev_agentId = None, ev_artifactId = None, ev_claim = ''Passes'',
     ev_sourceType = ''TOOL_RESULT'', ev_sourceRef = ''tool:1'', ev_scmCommitSha = None, ev_deploymentUri = None,
     ev_currentness = EC_CURRENT, ev_digest = None, ev_observedAt = 1788559200000, ev_createdAt = 1788559200000\<rparr>"

definition sample_verification :: verification_record where
  "sample_verification = \<lparr>vf_id = ''v1'', vf_projectId = ''p1'', vf_runId = ''r1'', vf_workItemId = ''w1'',
     vf_attemptId = None, vf_verificationType = VT_TEST, vf_status = VS_PASS, vf_evidenceIds = [''e1''],
     vf_verifierRef = ''verifier:1'', vf_completionDecisionId = None, vf_digest = None,
     vf_verifiedAt = 1788559200000, vf_createdAt = 1788559200000\<rparr>"

text \<open>The records with the digest they are stored with.\<close>

definition sealed_artifact :: "(string \<Rightarrow> string) \<Rightarrow> artifact_record \<Rightarrow> artifact_record" where
  "sealed_artifact sha a = a\<lparr>af_digest := Some (case af_digest a of None \<Rightarrow> computeArtifactDigest sha a | Some d \<Rightarrow> d)\<rparr>"

definition sealed_evidence :: "(string \<Rightarrow> string) \<Rightarrow> evidence_record \<Rightarrow> evidence_record" where
  "sealed_evidence sha r = r\<lparr>ev_digest := Some (case ev_digest r of None \<Rightarrow> computeEvidenceDigest sha r | Some d \<Rightarrow> d)\<rparr>"

definition sealed_verification :: "(string \<Rightarrow> string) \<Rightarrow> verification_record \<Rightarrow> verification_record" where
  "sealed_verification sha v =
     v\<lparr>vf_digest := Some (case vf_digest v of None \<Rightarrow> computeVerificationDigest sha v | Some d \<Rightarrow> d)\<rparr>"

lemma payload_ignores_digest [simp]:
  "artifact_payload (a\<lparr>af_digest := x\<rparr>) = artifact_payload a"
  "evidence_payload (r\<lparr>ev_digest := x\<rparr>) = evidence_payload r"
  "verification_payload (v\<lparr>vf_digest := x\<rparr>) = verification_payload v"
  by (simp_all add: artifact_payload_def evidence_payload_def verification_payload_def)

lemma sealed_verifies:
  "nonblank sha \<Longrightarrow> af_digest a = None \<Longrightarrow> verifyArtifactIntegrity sha (sealed_artifact sha a)"
  "nonblank sha \<Longrightarrow> ev_digest r = None \<Longrightarrow> verifyEvidenceIntegrity sha (sealed_evidence sha r)"
  "nonblank sha \<Longrightarrow> vf_digest v = None \<Longrightarrow> verifyVerificationIntegrity sha (sealed_verification sha v)"
  by (simp_all add: sealed_artifact_def sealed_evidence_def sealed_verification_def verifyArtifactIntegrity_def
    verifyEvidenceIntegrity_def verifyVerificationIntegrity_def nonblank_nonempty
    computeArtifactDigest_def computeEvidenceDigest_def computeVerificationDigest_def)

theorem tampering_is_detected_witness:
  "\<not> verifyArtifactIntegrity sample_sha ((sealed_artifact sample_sha sample_artifact)\<lparr>af_uri := ''x''\<rparr>) \<and>
   \<not> verifyEvidenceIntegrity sample_sha ((sealed_evidence sample_sha sample_evidence)\<lparr>ev_claim := ''x''\<rparr>) \<and>
   \<not> verifyVerificationIntegrity sample_sha ((sealed_verification sample_sha sample_verification)\<lparr>vf_status := VS_FAIL\<rparr>)"
proof -
  have none: "af_digest sample_artifact = None" "ev_digest sample_evidence = None" "vf_digest sample_verification = None"
    by (simp_all add: sample_artifact_def sample_evidence_def sample_verification_def)
  note seal = sealed_artifact_def sealed_evidence_def sealed_verification_def
    sample_artifact_def sample_evidence_def sample_verification_def
  show ?thesis
    using tampering_is_detected [OF sealed_verifies(1) [OF sample_sha_good(1) none(1)]
        sealed_verifies(2) [OF sample_sha_good(1) none(2)] sealed_verifies(3) [OF sample_sha_good(1) none(3)],
        of "(sealed_artifact sample_sha sample_artifact)\<lparr>af_uri := ''x''\<rparr>"
           "(sealed_evidence sample_sha sample_evidence)\<lparr>ev_claim := ''x''\<rparr>"
           "(sealed_verification sample_sha sample_verification)\<lparr>vf_status := VS_FAIL\<rparr>"] sample_sha_good(2)
    by (simp add: seal)
qed

end
