(* ===== verification/Evidence_Store.thy ===== *)
theory Evidence_Store
  imports Evidence_Records Workflow_Engine
begin

text \<open>
  The evidence store (\<^verbatim>\<open>packages/persistence/src/evidence/prisma-evidence-store.ts\<close>) and the
  verification service that resolves work items with it (\<^verbatim>\<open>packages/evidence/src/service.ts\<close>).
  The service is modelled over an interface of the store; the interface's laws are discharged for
  the Prisma store. The database is its tables, with the primary keys of \<^verbatim>\<open>schema.prisma\<close> and the
  foreign keys of migration 0011; the referenced tables of other components are lists of their ids.
\<close>

section \<open>The tables\<close>

record evidence_db =
  et_projects :: "string list"
  et_workItems :: "string list"
  et_attempts :: "string list"
  et_approvals :: "string list"
  et_decisions :: "string list"
  et_artifacts :: "artifact_record list"
  et_evidence :: "evidence_record list"
  et_verifications :: "verification_record list"

text \<open>The first reference, of those that are not null, to a row that does not exist.\<close>

fun missing_reference :: "(string option \<times> string list) list \<Rightarrow> string option" where
  "missing_reference [] = None"
| "missing_reference ((r, ids) # rest) =
     (case r of Some i \<Rightarrow> if i \<in> set ids then missing_reference rest else Some i | None \<Rightarrow> missing_reference rest)"

definition artifact_references :: "evidence_db \<Rightarrow> artifact_record \<Rightarrow> (string option \<times> string list) list" where
  "artifact_references db r =
     [(Some (af_projectId r), et_projects db), (Some (af_workItemId r), et_workItems db),
      (af_attemptId r, et_attempts db)]"

definition evidence_references :: "evidence_db \<Rightarrow> evidence_record \<Rightarrow> (string option \<times> string list) list" where
  "evidence_references db r =
     [(Some (ev_projectId r), et_projects db), (Some (ev_workItemId r), et_workItems db),
      (ev_attemptId r, et_attempts db), (ev_artifactId r, map af_id (et_artifacts db)),
      (ev_approvalId r, et_approvals db)]"

definition verification_references :: "evidence_db \<Rightarrow> verification_record \<Rightarrow> (string option \<times> string list) list" where
  "verification_references db r =
     [(Some (vf_projectId r), et_projects db), (Some (vf_workItemId r), et_workItems db),
      (vf_attemptId r, et_attempts db), (vf_completionDecisionId r, et_decisions db)]"

section \<open>The store\<close>

text \<open>\<open>record.digest ?? compute(record)\<close>: a digest that is given is kept as it is.\<close>

definition es_saveArtifact :: "(string \<Rightarrow> string) \<Rightarrow> artifact_record \<Rightarrow> (evidence_db, exn, artifact_record) act" where
  "es_saveArtifact sha r db =
     (let digest = (case af_digest r of None \<Rightarrow> computeArtifactDigest sha r | Some d \<Rightarrow> d);
          row = r\<lparr>af_digest := Some digest\<rparr>
      in if find_row (\<lambda>a. af_id a = af_id r) (et_artifacts db) \<noteq> None
         then (Inl (DuplicateRecordError ''ArtifactRecord'' (af_id r)), db)
         else (case missing_reference (artifact_references db r) of
             Some i \<Rightarrow> (Inl (ForeignKeyViolation i), db)
           | None \<Rightarrow> (Inr row, db\<lparr>et_artifacts := et_artifacts db @ [row]\<rparr>)))"

definition es_saveEvidence :: "(string \<Rightarrow> string) \<Rightarrow> evidence_record \<Rightarrow> (evidence_db, exn, evidence_record) act" where
  "es_saveEvidence sha r db =
     (let digest = (case ev_digest r of None \<Rightarrow> computeEvidenceDigest sha r | Some d \<Rightarrow> d);
          row = r\<lparr>ev_digest := Some digest\<rparr>
      in if find_row (\<lambda>e. ev_id e = ev_id r) (et_evidence db) \<noteq> None
         then (Inl (DuplicateRecordError ''EvidenceRecord'' (ev_id r)), db)
         else (case missing_reference (evidence_references db r) of
             Some i \<Rightarrow> (Inl (ForeignKeyViolation i), db)
           | None \<Rightarrow> (Inr row, db\<lparr>et_evidence := et_evidence db @ [row]\<rparr>)))"

definition es_saveVerification :: "(string \<Rightarrow> string) \<Rightarrow> verification_record \<Rightarrow> (evidence_db, exn, verification_record) act" where
  "es_saveVerification sha r db =
     (let digest = (case vf_digest r of None \<Rightarrow> computeVerificationDigest sha r | Some d \<Rightarrow> d);
          row = r\<lparr>vf_digest := Some digest\<rparr>
      in if find_row (\<lambda>v. vf_id v = vf_id r) (et_verifications db) \<noteq> None
         then (Inl (DuplicateRecordError ''VerificationRecord'' (vf_id r)), db)
         else (case missing_reference (verification_references db r) of
             Some i \<Rightarrow> (Inl (ForeignKeyViolation i), db)
           | None \<Rightarrow> (Inr row, db\<lparr>et_verifications := et_verifications db @ [row]\<rparr>)))"

text \<open>The reads are project-scoped and fail on the first row whose digest is missing or wrong.\<close>

definition tampered :: "string \<Rightarrow> string \<Rightarrow> exn" where
  "tampered what i = EvidenceTamperedError
     (''Persisted '' @ what @ '' '' @ i @ '' failed integrity verification: missing or invalid digest.'')"

fun verified_rows :: "string \<Rightarrow> ('r \<Rightarrow> string) \<Rightarrow> ('r \<Rightarrow> bool) \<Rightarrow> 'r list \<Rightarrow> exn + 'r list" where
  "verified_rows what key ok [] = Inr []"
| "verified_rows what key ok (r # rs) =
     (if \<not> ok r then Inl (tampered what (key r))
      else case verified_rows what key ok rs of Inl e \<Rightarrow> Inl e | Inr out \<Rightarrow> Inr (r # out))"

definition verified_row :: "string \<Rightarrow> ('r \<Rightarrow> string) \<Rightarrow> ('r \<Rightarrow> bool) \<Rightarrow> 'r option \<Rightarrow> exn + 'r option" where
  "verified_row what key ok row =
     (case row of None \<Rightarrow> Inr None | Some r \<Rightarrow> if ok r then Inr (Some r) else Inl (tampered what (key r)))"

definition es_listEvidenceForWorkItem :: "(string \<Rightarrow> string) \<Rightarrow> string \<Rightarrow> string \<Rightarrow> (evidence_db, exn, evidence_record list) act" where
  "es_listEvidenceForWorkItem sha p w db =
     (verified_rows ''evidence'' ev_id (verifyEvidenceIntegrity sha)
        (sort_key ev_createdAt (filter (\<lambda>r. ev_projectId r = p \<and> ev_workItemId r = w) (et_evidence db))), db)"

definition es_getEvidence :: "(string \<Rightarrow> string) \<Rightarrow> string \<Rightarrow> string \<Rightarrow> (evidence_db, exn, evidence_record option) act" where
  "es_getEvidence sha p i db =
     (verified_row ''evidence'' ev_id (verifyEvidenceIntegrity sha)
        (find_row (\<lambda>r. ev_id r = i \<and> ev_projectId r = p) (et_evidence db)), db)"

definition es_getArtifact :: "(string \<Rightarrow> string) \<Rightarrow> string \<Rightarrow> string \<Rightarrow> (evidence_db, exn, artifact_record option) act" where
  "es_getArtifact sha p i db =
     (verified_row ''artifact'' af_id (verifyArtifactIntegrity sha)
        (find_row (\<lambda>r. af_id r = i \<and> af_projectId r = p) (et_artifacts db)), db)"

definition es_getVerification :: "(string \<Rightarrow> string) \<Rightarrow> string \<Rightarrow> string \<Rightarrow> (evidence_db, exn, verification_record option) act" where
  "es_getVerification sha p i db =
     (verified_row ''verification'' vf_id (verifyVerificationIntegrity sha)
        (find_row (\<lambda>r. vf_id r = i \<and> vf_projectId r = p) (et_verifications db)), db)"

definition es_listArtifactsForWorkItem :: "(string \<Rightarrow> string) \<Rightarrow> string \<Rightarrow> string \<Rightarrow> (evidence_db, exn, artifact_record list) act" where
  "es_listArtifactsForWorkItem sha p w db =
     (verified_rows ''artifact'' af_id (verifyArtifactIntegrity sha)
        (sort_key af_createdAt (filter (\<lambda>r. af_projectId r = p \<and> af_workItemId r = w) (et_artifacts db))), db)"

definition es_listVerificationsForWorkItem :: "(string \<Rightarrow> string) \<Rightarrow> string \<Rightarrow> string \<Rightarrow> (evidence_db, exn, verification_record list) act" where
  "es_listVerificationsForWorkItem sha p w db =
     (verified_rows ''verification'' vf_id (verifyVerificationIntegrity sha)
        (sort_key vf_createdAt (filter (\<lambda>r. vf_projectId r = p \<and> vf_workItemId r = w) (et_verifications db))), db)"

definition es_listEvidenceForRun :: "(string \<Rightarrow> string) \<Rightarrow> string \<Rightarrow> string \<Rightarrow> (evidence_db, exn, evidence_record list) act" where
  "es_listEvidenceForRun sha p run db =
     (verified_rows ''evidence'' ev_id (verifyEvidenceIntegrity sha)
        (sort_key ev_createdAt (filter (\<lambda>r. ev_projectId r = p \<and> ev_runId r = run) (et_evidence db))), db)"

section \<open>The service\<close>

record 'e evidence_ops =
  eo_saveArtifact :: "artifact_record \<Rightarrow> ('e, exn, artifact_record) act"
  eo_saveEvidence :: "evidence_record \<Rightarrow> ('e, exn, evidence_record) act"
  eo_saveVerification :: "verification_record \<Rightarrow> ('e, exn, verification_record) act"
  eo_listEvidenceForWorkItem :: "string \<Rightarrow> string \<Rightarrow> ('e, exn, evidence_record list) act"

definition prisma_evidence_ops :: "(string \<Rightarrow> string) \<Rightarrow> evidence_db evidence_ops" where
  "prisma_evidence_ops sha =
     \<lparr>eo_saveArtifact = es_saveArtifact sha, eo_saveEvidence = es_saveEvidence sha,
      eo_saveVerification = es_saveVerification sha, eo_listEvidenceForWorkItem = es_listEvidenceForWorkItem sha\<rparr>"

text \<open>The record given to the register calls has no id and no creation date yet; both come from the host.\<close>

definition registerArtifact :: "'e evidence_ops \<Rightarrow> artifact_record \<Rightarrow> string \<Rightarrow> int \<Rightarrow> ('e, exn, artifact_record) act" where
  "registerArtifact eo r uuid now = eo_saveArtifact eo (r\<lparr>af_id := uuid, af_createdAt := now\<rparr>)"

definition registerEvidence :: "'e evidence_ops \<Rightarrow> evidence_record \<Rightarrow> string \<Rightarrow> int \<Rightarrow> ('e, exn, evidence_record) act" where
  "registerEvidence eo r uuid now = eo_saveEvidence eo (r\<lparr>ev_id := uuid, ev_createdAt := now\<rparr>)"

record resolve_input =
  ri_workItem :: work_item
  ri_runId :: string
  ri_attemptId :: "string option"
  ri_verificationType :: verification_type
  ri_status :: verification_status
  ri_evidenceIds :: "string list"
  ri_verifierRef :: string
  ri_completionDecisionId :: "string option"

definition verification_of :: "resolve_input \<Rightarrow> string \<Rightarrow> int \<Rightarrow> verification_record" where
  "verification_of i uuid now =
     \<lparr>vf_id = uuid, vf_projectId = wi_projectId (ri_workItem i), vf_runId = ri_runId i,
      vf_workItemId = wi_id (ri_workItem i), vf_attemptId = ri_attemptId i,
      vf_verificationType = ri_verificationType i, vf_status = ri_status i, vf_evidenceIds = ri_evidenceIds i,
      vf_verifierRef = ri_verifierRef i, vf_completionDecisionId = ri_completionDecisionId i, vf_digest = None,
      vf_verifiedAt = now, vf_createdAt = now\<rparr>"

definition recordVerificationAndResolve :: "(string \<Rightarrow> string) \<Rightarrow> 'e evidence_ops \<Rightarrow> 's store_ops \<Rightarrow> resolve_input \<Rightarrow>
    string \<Rightarrow> int \<Rightarrow> ('e \<times> 's, exn, verification_record \<times> work_item) act" where
  "recordVerificationAndResolve sha eo st i uuid now =
     (let w = ri_workItem i; move = (\<lambda>to v. act_bind (on_agent (so_transitionWorkItem st (wi_id w) (wi_revision w) to))
            (\<lambda>w'. act_return (v, w')))
      in if wi_lifecycleState w \<noteq> WI_VERIFICATION_REQUIRED
         then act_throw (GenericError (''WorkItem '' @ wi_id w @ '' is not VERIFICATION_REQUIRED.''))
         else act_bind (on_store (eo_saveVerification eo (verification_of i uuid now))) (\<lambda>v.
           if vf_status v = VS_PASS then
             act_bind (on_store (eo_listEvidenceForWorkItem eo (wi_projectId w) (wi_id w))) (\<lambda>evs.
               case assertVerificationCanCompleteWorkItem sha (wi_projectId w) (wi_id w) v evs of
                 Inl e \<Rightarrow> act_throw e
               | Inr _ \<Rightarrow> move WI_COMPLETED v)
           else move (if vf_status v = VS_FAIL then WI_REPAIR_REQUIRED else WI_RECOVERY_REQUIRED) v))"

section \<open>The contract of the store\<close>

locale evidence_store =
  fixes sha :: "string \<Rightarrow> string"
    and eo :: "'e evidence_ops"
    and evidence :: "'e \<Rightarrow> evidence_record list"
    and verifications :: "'e \<Rightarrow> verification_record list"
  assumes save_law: "eo_saveVerification eo v e = (Inr v', e') \<Longrightarrow>
      v' = sealed_verification sha v \<and> verifications e' = verifications e @ [v'] \<and> evidence e' = evidence e"
    and save_fails: "eo_saveVerification eo v e = (Inl x, e') \<Longrightarrow> verifications e' = verifications e"
    and list_keeps: "snd (eo_listEvidenceForWorkItem eo p w e) = e"
    and list_law: "fst (eo_listEvidenceForWorkItem eo p w e) = Inr evs \<Longrightarrow> r \<in> set evs \<Longrightarrow>
      r \<in> set (evidence e) \<and> ev_projectId r = p \<and> ev_workItemId r = w \<and> verifyEvidenceIntegrity sha r"
begin

text \<open>The state of a work item that a verification of a given status leads to.\<close>

definition valid_support :: "'e \<Rightarrow> string \<Rightarrow> string \<Rightarrow> string \<Rightarrow> bool" where
  "valid_support e p w i \<longleftrightarrow> (\<exists>r \<in> set (evidence e). ev_id r = i \<and> ev_projectId r = p \<and> ev_workItemId r = w \<and>
     ev_currentness r = EC_CURRENT \<and> verifyEvidenceIntegrity sha r)"

lemma supported_by_listed:
  assumes "fst (eo_listEvidenceForWorkItem eo p w e) = Inr evs" "supports sha p w evs i"
  shows "valid_support e p w i"
  using supports_in [OF assms(2)] list_law [OF assms(1)] unfolding valid_support_def by blast

text \<open>A call that returns has stored the verification, moved the item, and, for PASS, found every record valid.\<close>

lemma resolve_returns:
  assumes "recordVerificationAndResolve sha eo st i uuid now (e, s) = (Inr (v, w'), (e', s'))"
  shows "wi_lifecycleState (ri_workItem i) = WI_VERIFICATION_REQUIRED \<and>
    v = sealed_verification sha (verification_of i uuid now) \<and> verifications e' = verifications e @ [v] \<and>
    so_transitionWorkItem st (wi_id (ri_workItem i)) (wi_revision (ri_workItem i))
      (case ri_status i of VS_PASS \<Rightarrow> WI_COMPLETED | VS_FAIL \<Rightarrow> WI_REPAIR_REQUIRED | VS_INCONCLUSIVE \<Rightarrow> WI_RECOVERY_REQUIRED) s =
      (Inr w', s') \<and>
    (ri_status i = VS_PASS \<longrightarrow> ri_evidenceIds i \<noteq> [] \<and>
      (\<forall>k \<in> set (ri_evidenceIds i). valid_support e (wi_projectId (ri_workItem i)) (wi_id (ri_workItem i)) k))"
proof -
  let ?w = "ri_workItem i"
  have state: "wi_lifecycleState ?w = WI_VERIFICATION_REQUIRED"
    using assms by (auto simp: recordVerificationAndResolve_def Let_def act_throw_def split: if_splits)
  obtain v1 e1 where saved: "eo_saveVerification eo (verification_of i uuid now) e = (Inr v1, e1)"
    using assms state
    by (cases "eo_saveVerification eo (verification_of i uuid now) e"; cases "fst (eo_saveVerification eo (verification_of i uuid now) e)")
      (auto simp: recordVerificationAndResolve_def Let_def act_bind_def on_store_def)
  obtain l e2 where listed: "eo_listEvidenceForWorkItem eo (wi_projectId ?w) (wi_id ?w) e1 = (l, e2)" by fastforce
  then have same: "e2 = e1" using list_keeps by (metis snd_conv)
  have status: "vf_status v1 = ri_status i" using save_law [OF saved] by (simp add: sealed_verification_def verification_of_def)
  have run: "v1 = v" "e' = e1"
      "so_transitionWorkItem st (wi_id ?w) (wi_revision ?w)
        (case ri_status i of VS_PASS \<Rightarrow> WI_COMPLETED | VS_FAIL \<Rightarrow> WI_REPAIR_REQUIRED | VS_INCONCLUSIVE \<Rightarrow> WI_RECOVERY_REQUIRED) s =
        (Inr w', s')"
    and checked: "ri_status i = VS_PASS \<Longrightarrow> \<exists>evs. l = Inr evs \<and>
        assertVerificationCanCompleteWorkItem sha (wi_projectId ?w) (wi_id ?w) v evs = Inr ()"
    using assms state status same
    by (cases "ri_status i"; auto simp: recordVerificationAndResolve_def Let_def act_bind_def on_store_def on_agent_def
      act_return_def act_throw_def saved listed split: sum.splits prod.splits)+
  have v: "v = sealed_verification sha (verification_of i uuid now)" "verifications e1 = verifications e @ [v]"
    "evidence e1 = evidence e" using save_law [OF saved] run by simp_all
  have "vf_evidenceIds v = ri_evidenceIds i" by (simp add: v sealed_verification_def verification_of_def)
  then show ?thesis
    using state run v checked listed supported_by_listed [of "wi_projectId ?w" "wi_id ?w" e1]
    by (auto simp: can_complete_iff valid_support_def)
qed

end

lemma set_verified_rows: "verified_rows what key ok rows = Inr out \<Longrightarrow> out = rows \<and> (\<forall>r \<in> set rows. ok r)"
  by (induction rows arbitrary: out) (auto split: if_splits sum.splits)

lemma verified_rows_fail: "r \<in> set rows \<Longrightarrow> \<not> ok r \<Longrightarrow> \<exists>i. verified_rows what key ok rows = Inl (tampered what i)"
  by (induction rows) (auto split: sum.splits)

lemma save_seals:
  "es_saveArtifact sha r db = (Inr a, db') \<Longrightarrow> a = sealed_artifact sha r \<and> db' = db\<lparr>et_artifacts := et_artifacts db @ [a]\<rparr>"
  "es_saveEvidence sha q db = (Inr e, db') \<Longrightarrow> e = sealed_evidence sha q \<and> db' = db\<lparr>et_evidence := et_evidence db @ [e]\<rparr> \<and>
     ev_id q \<notin> ev_id ` set (et_evidence db)"
  "es_saveVerification sha u db = (Inr v, db') \<Longrightarrow>
     v = sealed_verification sha u \<and> db' = db\<lparr>et_verifications := et_verifications db @ [v]\<rparr>"
  by (auto simp: es_saveArtifact_def es_saveEvidence_def es_saveVerification_def Let_def sealed_artifact_def
    sealed_evidence_def sealed_verification_def find_row_None split: if_splits option.splits)

lemma save_fails_keeps: "es_saveVerification sha u db = (Inl x, db') \<Longrightarrow> db' = db"
  by (auto simp: es_saveVerification_def Let_def split: if_splits option.splits)

interpretation prisma_evidence: evidence_store sha "prisma_evidence_ops sha" et_evidence et_verifications
  for sha :: "string \<Rightarrow> string"
proof unfold_locales
  fix p w e evs r
  assume "fst (eo_listEvidenceForWorkItem (prisma_evidence_ops sha) p w e) = Inr evs" and r: "r \<in> set evs"
  then have "verified_rows ''evidence'' ev_id (verifyEvidenceIntegrity sha)
      (sort_key ev_createdAt (filter (\<lambda>r. ev_projectId r = p \<and> ev_workItemId r = w) (et_evidence e))) = Inr evs"
    by (simp add: prisma_evidence_ops_def es_listEvidenceForWorkItem_def)
  from set_verified_rows [OF this] r
  show "r \<in> set (et_evidence e) \<and> ev_projectId r = p \<and> ev_workItemId r = w \<and> verifyEvidenceIntegrity sha r" by auto
qed (auto simp: prisma_evidence_ops_def es_listEvidenceForWorkItem_def dest: save_seals save_fails_keeps)

section \<open>Properties\<close>

text \<open>
  C19: A work item is completed only on valid evidence. When the service, over the Prisma store and the
  work store, returns, it has appended the verification to the stored ones and moved the item
  from VERIFICATION_REQUIRED one revision on: to COMPLETED for PASS, REPAIR_REQUIRED for FAIL and
  RECOVERY_REQUIRED otherwise; and if the item is now COMPLETED, the verification names at least one
  evidence record and every one it names is stored for this work item, CURRENT and untampered.
\<close>
theorem completed_only_on_valid_evidence:
  assumes "recordVerificationAndResolve sha (prisma_evidence_ops sha) work_store_ops i uuid now (e, s) = (Inr (v, w'), (e', s'))"
  shows "wi_lifecycleState (ri_workItem i) = WI_VERIFICATION_REQUIRED \<and>
    et_verifications e' = et_verifications e @ [v] \<and> vf_status v = ri_status i \<and>
    wi_id w' = wi_id (ri_workItem i) \<and> wi_revision w' = wi_revision (ri_workItem i) + 1 \<and>
    wi_lifecycleState w' = (case ri_status i of VS_PASS \<Rightarrow> WI_COMPLETED | VS_FAIL \<Rightarrow> WI_REPAIR_REQUIRED
      | VS_INCONCLUSIVE \<Rightarrow> WI_RECOVERY_REQUIRED) \<and>
    (wi_lifecycleState w' = WI_COMPLETED \<longrightarrow> ri_evidenceIds i \<noteq> [] \<and>
      (\<forall>k \<in> set (ri_evidenceIds i). \<exists>r \<in> set (et_evidence e). ev_id r = k \<and>
         ev_projectId r = wi_projectId (ri_workItem i) \<and> ev_workItemId r = wi_id (ri_workItem i) \<and>
         ev_currentness r = EC_CURRENT \<and> verifyEvidenceIntegrity sha r))"
proof -
  note outcome = prisma_evidence.resolve_returns [OF assms]
  from outcome have moved: "ws_transitionWorkItem (wi_id (ri_workItem i)) (wi_revision (ri_workItem i))
      (case ri_status i of VS_PASS \<Rightarrow> WI_COMPLETED | VS_FAIL \<Rightarrow> WI_REPAIR_REQUIRED | VS_INCONCLUSIVE \<Rightarrow> WI_RECOVERY_REQUIRED) s =
      (Inr w', s')" by (simp add: work_store_ops_def)
  then have "wi_id w' = wi_id (ri_workItem i) \<and> wi_revision w' = wi_revision (ri_workItem i) + 1 \<and>
    wi_lifecycleState w' = (case ri_status i of VS_PASS \<Rightarrow> WI_COMPLETED | VS_FAIL \<Rightarrow> WI_REPAIR_REQUIRED
      | VS_INCONCLUSIVE \<Rightarrow> WI_RECOVERY_REQUIRED)"
    by (auto simp: transitionWorkItem_eq moved_item_sel dest: item_of_id split: option.splits if_splits)
  with outcome show ?thesis
    by (cases "ri_status i") (auto simp: prisma_evidence.valid_support_def sealed_verification_def verification_of_def)
qed

text \<open>
  Evidence is read back as it was stored. Under a hash whose digests are never blank, a record saved
  without a digest comes back unchanged from a lookup by its project and id and in the list of its
  work item, if that list can be read; a second save under the same id is refused.
\<close>
theorem saved_evidence_is_read_back:
  assumes "nonblank sha" "ev_digest r = None" "es_saveEvidence sha r db = (Inr r', db')"
  shows "es_getEvidence sha (ev_projectId r) (ev_id r) db' = (Inr (Some r'), db') \<and>
    (\<forall>evs. es_listEvidenceForWorkItem sha (ev_projectId r) (ev_workItemId r) db' = (Inr evs, db') \<longrightarrow> r' \<in> set evs) \<and>
    es_saveEvidence sha r db' = (Inl (DuplicateRecordError ''EvidenceRecord'' (ev_id r)), db')"
proof -
  have saved: "r' = sealed_evidence sha r" "db' = db\<lparr>et_evidence := et_evidence db @ [r']\<rparr>"
    "ev_id r \<notin> ev_id ` set (et_evidence db)" using save_seals(2) [OF assms(3)] by simp_all
  have ids: "ev_id r' = ev_id r" "ev_projectId r' = ev_projectId r" "ev_workItemId r' = ev_workItemId r"
    by (simp_all add: saved(1) sealed_evidence_def)
  have ok: "verifyEvidenceIntegrity sha r'" unfolding saved(1) by (rule sealed_verifies(2) [OF assms(1,2)])
  have none: "find_row (\<lambda>q. ev_id q = ev_id r \<and> P q) (et_evidence db) = None" for P
    unfolding find_row_None using saved(3) by (metis imageI)
  have "es_getEvidence sha (ev_projectId r) (ev_id r) db' = (Inr (Some r'), db')"
    using none ok ids by (simp add: es_getEvidence_def saved(2) find_row_append verified_row_def)
  moreover have "r' \<in> set evs" if "es_listEvidenceForWorkItem sha (ev_projectId r) (ev_workItemId r) db' = (Inr evs, db')" for evs
    using that set_verified_rows ids
    by (fastforce simp: es_listEvidenceForWorkItem_def saved(2))
  moreover have "es_saveEvidence sha r db' = (Inl (DuplicateRecordError ''EvidenceRecord'' (ev_id r)), db')"
    using none [of "\<lambda>_. True"] ids by (simp add: es_saveEvidence_def saved(2) find_row_append)
  ultimately show ?thesis by blast
qed

section \<open>Examples\<close>

definition sample_evidence_db :: evidence_db where
  "sample_evidence_db = \<lparr>et_projects = [''p1''], et_workItems = [''w1''], et_attempts = [], et_approvals = [],
     et_decisions = [], et_artifacts = [], et_evidence = [], et_verifications = []\<rparr>"

definition sample_work_item :: work_item where
  "sample_work_item = \<lparr>wi_id = ''w1'', wi_projectId = ''p1'', wi_parentId = None, wi_type = TASK, wi_objective = ''o'',
     wi_lifecycleState = WI_VERIFICATION_REQUIRED, wi_revision = 4, wi_evidenceRequirements = [],
     wi_currentAttemptId = None, wi_createdAt = 0, wi_updatedAt = 0\<rparr>"

definition sample_work_db :: work_db where
  "sample_work_db = \<lparr>db_items = [sample_work_item], db_attempts = [], db_now = 7\<rparr>"

definition sample_resolve :: "verification_status \<Rightarrow> resolve_input" where
  "sample_resolve st = \<lparr>ri_workItem = sample_work_item, ri_runId = ''r1'', ri_attemptId = None,
     ri_verificationType = VT_TEST, ri_status = st, ri_evidenceIds = [''e1''], ri_verifierRef = ''verifier:1'',
     ri_completionDecisionId = None\<rparr>"

lemma sample_save: "es_saveEvidence sample_sha sample_evidence sample_evidence_db =
    (Inr (sealed_evidence sample_sha sample_evidence),
     sample_evidence_db\<lparr>et_evidence := [sealed_evidence sample_sha sample_evidence]\<rparr>)"
  by (simp add: es_saveEvidence_def Let_def sample_evidence_db_def sample_evidence_def sealed_evidence_def
    evidence_references_def)

theorem saved_evidence_is_read_back_witness:
  "es_getEvidence sample_sha ''p1'' ''e1''
     (sample_evidence_db\<lparr>et_evidence := [sealed_evidence sample_sha sample_evidence]\<rparr>) =
   (Inr (Some (sealed_evidence sample_sha sample_evidence)),
    sample_evidence_db\<lparr>et_evidence := [sealed_evidence sample_sha sample_evidence]\<rparr>)"
proof -
  have "ev_digest sample_evidence = None" "ev_projectId sample_evidence = ''p1''" "ev_id sample_evidence = ''e1''"
    by (simp_all add: sample_evidence_def)
  with saved_evidence_is_read_back [OF sample_sha_good(1) _ sample_save] show ?thesis by simp
qed

text \<open>
  The store of a work item whose only evidence record is the sealed example, with a verification
  against it: PASS completes the item.
\<close>

lemma sample_supported:
  "supports sample_sha ''p1'' ''w1'' [sealed_evidence sample_sha sample_evidence] ''e1''"
proof -
  have "ev_digest sample_evidence = None" by (simp add: sample_evidence_def)
  from sealed_verifies(2) [OF sample_sha_good(1) this]
  have "verifyEvidenceIntegrity sample_sha (sealed_evidence sample_sha sample_evidence)" .
  moreover from this have "\<not> blank_digest (ev_digest (sealed_evidence sample_sha sample_evidence))"
    using sample_sha_good(1) by (auto simp: verifyEvidenceIntegrity_def blank_digest_def nonblank_def computeEvidenceDigest_def)
  ultimately show ?thesis by (simp add: supports_def) (simp add: sealed_evidence_def sample_evidence_def)
qed

definition sample_supported_db :: evidence_db where
  "sample_supported_db = sample_evidence_db\<lparr>et_evidence := [sealed_evidence sample_sha sample_evidence]\<rparr>"

abbreviation sample_resolved :: "evidence_db \<Rightarrow> verification_status \<Rightarrow>
    (exn + verification_record \<times> work_item) \<times> (evidence_db \<times> work_db)" where
  "sample_resolved e st \<equiv> recordVerificationAndResolve sample_sha (prisma_evidence_ops sample_sha) work_store_ops
     (sample_resolve st) ''v1'' 9 (e, sample_work_db)"

lemma sample_verification_saved:
  assumes "et_projects e = [''p1'']" "et_workItems e = [''w1'']" "et_verifications e = []"
  shows "es_saveVerification sample_sha (verification_of (sample_resolve st) ''v1'' 9) e =
    (Inr (sealed_verification sample_sha (verification_of (sample_resolve st) ''v1'' 9)),
     e\<lparr>et_verifications := [sealed_verification sample_sha (verification_of (sample_resolve st) ''v1'' 9)]\<rparr>)"
  using assms
  by (simp add: es_saveVerification_def Let_def verification_of_def sample_resolve_def sample_work_item_def
    sealed_verification_def verification_references_def)

lemma sample_listed:
  "es_listEvidenceForWorkItem sample_sha ''p1'' ''w1'' (sample_supported_db\<lparr>et_verifications := vs\<rparr>) =
    (Inr [sealed_evidence sample_sha sample_evidence], sample_supported_db\<lparr>et_verifications := vs\<rparr>)"
proof -
  have "verifyEvidenceIntegrity sample_sha (sealed_evidence sample_sha sample_evidence)"
    by (rule sealed_verifies(2) [OF sample_sha_good(1)]) (simp add: sample_evidence_def)
  moreover have "ev_projectId (sealed_evidence sample_sha sample_evidence) = ''p1''"
    "ev_workItemId (sealed_evidence sample_sha sample_evidence) = ''w1''"
    by (simp_all add: sealed_evidence_def sample_evidence_def)
  ultimately show ?thesis by (simp add: es_listEvidenceForWorkItem_def sample_supported_db_def)
qed

lemma sample_can_complete:
  "assertVerificationCanCompleteWorkItem sample_sha ''p1'' ''w1''
     (sealed_verification sample_sha (verification_of (sample_resolve VS_PASS) ''v1'' 9))
     [sealed_evidence sample_sha sample_evidence] = Inr ()"
proof -
  let ?v = "verification_of (sample_resolve VS_PASS) ''v1'' 9"
  have "verifyVerificationIntegrity sample_sha (sealed_verification sample_sha ?v)"
    by (rule sealed_verifies(3) [OF sample_sha_good(1)]) (simp add: verification_of_def)
  moreover from this have "\<not> blank_digest (vf_digest (sealed_verification sample_sha ?v))"
    using sample_sha_good(1) by (auto simp: verifyVerificationIntegrity_def blank_digest_def nonblank_def computeVerificationDigest_def)
  ultimately show ?thesis
    using sample_supported
    by (simp add: can_complete_iff) (simp add: sealed_verification_def verification_of_def sample_resolve_def sample_work_item_def)
qed

lemma sample_completes:
  "\<exists>v w' e' s'. sample_resolved sample_supported_db VS_PASS = (Inr (v, w'), (e', s')) \<and> wi_lifecycleState w' = WI_COMPLETED"
proof -
  let ?v = "sealed_verification sample_sha (verification_of (sample_resolve VS_PASS) ''v1'' 9)"
  have "es_saveVerification sample_sha (verification_of (sample_resolve VS_PASS) ''v1'' 9) sample_supported_db =
    (Inr ?v, sample_supported_db\<lparr>et_verifications := [?v]\<rparr>)"
    by (rule sample_verification_saved) (simp_all add: sample_supported_db_def sample_evidence_db_def)
  moreover have "vf_status ?v = VS_PASS" by (simp add: sealed_verification_def verification_of_def sample_resolve_def)
  moreover have "ri_workItem (sample_resolve VS_PASS) = sample_work_item" "wi_id sample_work_item = ''w1''"
    "wi_projectId sample_work_item = ''p1''" "wi_lifecycleState sample_work_item = WI_VERIFICATION_REQUIRED"
    "wi_revision sample_work_item = 4" by (simp_all add: sample_resolve_def sample_work_item_def)
  moreover have "ws_transitionWorkItem ''w1'' 4 WI_COMPLETED sample_work_db =
      (Inr (moved_item sample_work_db WI_COMPLETED sample_work_item),
       with_item sample_work_db ''w1'' (\<lambda>w. wi_revision w = 4) (moved_item sample_work_db WI_COMPLETED))"
    by (simp add: transitionWorkItem_eq item_of_def sample_work_db_def) (simp add: sample_work_item_def)
  ultimately show ?thesis
    using sample_listed sample_can_complete
    by (simp add: moved_item_sel recordVerificationAndResolve_def act_bind_def on_store_def on_agent_def act_return_def
      prisma_evidence_ops_def work_store_ops_def)
qed

theorem completed_only_on_valid_evidence_witness:
  "\<exists>v w' e' s'. sample_resolved sample_supported_db VS_PASS = (Inr (v, w'), (e', s')) \<and>
     et_verifications e' = [v] \<and> wi_revision w' = 5 \<and> wi_lifecycleState w' = WI_COMPLETED"
proof -
  obtain v w' e' s' where run: "sample_resolved sample_supported_db VS_PASS = (Inr (v, w'), (e', s'))"
    "wi_lifecycleState w' = WI_COMPLETED" using sample_completes by blast
  from completed_only_on_valid_evidence [OF run(1)] run
  have "et_verifications e' = [v]" "wi_revision w' = 5"
    by (simp_all add: sample_supported_db_def sample_evidence_db_def sample_resolve_def sample_work_item_def)
  with run show ?thesis by blast
qed

text \<open>
  The service stores a PASS verification before it looks at the evidence: when the evidence is missing the
  call throws, the work item stays, but the PASS verification remains in the store.
\<close>

lemma pass_is_stored_before_the_check:
  "fst (sample_resolved sample_evidence_db VS_PASS) = Inl (VerificationEvidenceError ''Evidence e1 is missing.'') \<and>
   map vf_status (et_verifications (fst (snd (sample_resolved sample_evidence_db VS_PASS)))) = [VS_PASS] \<and>
   snd (snd (sample_resolved sample_evidence_db VS_PASS)) = sample_work_db"
proof -
  let ?v = "sealed_verification sample_sha (verification_of (sample_resolve VS_PASS) ''v1'' 9)"
  have "es_saveVerification sample_sha (verification_of (sample_resolve VS_PASS) ''v1'' 9) sample_evidence_db =
    (Inr ?v, sample_evidence_db\<lparr>et_verifications := [?v]\<rparr>)"
    by (rule sample_verification_saved) (simp_all add: sample_evidence_db_def)
  moreover have "vf_status ?v = VS_PASS" "vf_projectId ?v = ''p1''" "vf_workItemId ?v = ''w1''" "vf_evidenceIds ?v = [''e1'']"
    by (simp_all add: sealed_verification_def verification_of_def sample_resolve_def sample_work_item_def)
  moreover have "ri_workItem (sample_resolve VS_PASS) = sample_work_item" "wi_id sample_work_item = ''w1''"
    "wi_projectId sample_work_item = ''p1''" "wi_lifecycleState sample_work_item = WI_VERIFICATION_REQUIRED"
    by (simp_all add: sample_resolve_def sample_work_item_def)
  moreover have "es_listEvidenceForWorkItem sample_sha ''p1'' ''w1'' (sample_evidence_db\<lparr>et_verifications := [?v]\<rparr>) =
      (Inr [], sample_evidence_db\<lparr>et_verifications := [?v]\<rparr>)"
    by (simp add: es_listEvidenceForWorkItem_def sample_evidence_db_def)
  ultimately show ?thesis
    by (simp add: recordVerificationAndResolve_def act_bind_def on_store_def act_throw_def prisma_evidence_ops_def
      assertVerificationCanCompleteWorkItem_def evidence_by_id_def)
qed

text \<open>
  A record saved with a digest of the caller's that is wrong is accepted, and from then on every read of
  its work item's evidence throws.
\<close>

lemma wrong_digest_blocks_reads:
  assumes "es_saveEvidence sha r db = (Inr r', db')" "ev_digest r = Some d" "d \<noteq> computeEvidenceDigest sha r"
  shows "\<exists>i. fst (es_listEvidenceForWorkItem sha (ev_projectId r) (ev_workItemId r) db') = Inl (tampered ''evidence'' i)"
proof -
  have saved: "r' = r" "db' = db\<lparr>et_evidence := et_evidence db @ [r']\<rparr>"
    using save_seals(2) [OF assms(1)] assms(2) by (simp_all add: sealed_evidence_def)
  have "\<not> verifyEvidenceIntegrity sha r" using assms(2,3) by (simp add: verifyEvidenceIntegrity_def)
  then show ?thesis
    using verified_rows_fail [of r _ "verifyEvidenceIntegrity sha" "''evidence''" ev_id]
    by (simp add: es_listEvidenceForWorkItem_def saved)
qed

end
