(* ===== verification/Completion.thy ===== *)
theory Completion
  imports Evidence_Records
begin

text \<open>
  Reconciliation of a work item with its evidence (\<^verbatim>\<open>packages/reconciliation/src\<close>) and the completion
  decision (\<^verbatim>\<open>packages/completion/src\<close>). Both engines compute on records they are given; the
  completion engine also draws fresh ids, numbered here in the order it draws them, and hands its
  decision to a store that is a parameter.
\<close>

section \<open>Reconciliation\<close>

datatype reconciliation_state = RC_PASS | RC_BLOCKED | RC_FAILED | RC_UNKNOWN

record reconciliation_snapshot =
  rcs_state :: reconciliation_state
  rcs_projectId :: string
  rcs_evaluatedProjectRevision :: nat
  rcs_evaluatedWorkItemId :: string
  rcs_evaluatedWorkItemRevision :: nat
  rcs_evidenceIds :: "string list"
  rcs_verificationIds :: "string list"
  rcs_conflictCodes :: "string list"
  rcs_evaluatedAt :: int
  rcs_ref :: string

definition snapshot :: "project \<Rightarrow> work_item \<Rightarrow> reconciliation_state \<Rightarrow> string list \<Rightarrow> string list \<Rightarrow> string list \<Rightarrow>
    string \<Rightarrow> int \<Rightarrow> reconciliation_snapshot" where
  "snapshot p w st conflicts evidenceIds verificationIds uuid now =
     \<lparr>rcs_state = st, rcs_projectId = pj_id p, rcs_evaluatedProjectRevision = pj_revision p,
      rcs_evaluatedWorkItemId = wi_id w, rcs_evaluatedWorkItemRevision = wi_revision w,
      rcs_evidenceIds = evidenceIds, rcs_verificationIds = verificationIds, rcs_conflictCodes = conflicts,
      rcs_evaluatedAt = now, rcs_ref = ''reconciliation://'' @ pj_id p @ ''/'' @ wi_id w @ ''/'' @ uuid\<rparr>"

text \<open>The conflicts a PASS verification raises, one per evidence id at fault.\<close>

definition verification_conflicts :: "evidence_record list \<Rightarrow> verification_record \<Rightarrow> string list" where
  "verification_conflicts scoped v =
     (if vf_evidenceIds v = [] then [''PASS_VERIFICATION_WITHOUT_EVIDENCE'']
      else concat (map (\<lambda>i. case jm_get (evidence_by_id scoped) i of
          None \<Rightarrow> [''VERIFICATION_REFERENCES_MISSING_EVIDENCE'']
        | Some r \<Rightarrow> if ev_currentness r \<noteq> EC_CURRENT then [''VERIFICATION_REFERENCES_NONCURRENT_EVIDENCE''] else [])
        (vf_evidenceIds v)))"

definition fatal_conflict :: "string \<Rightarrow> bool" where
  "fatal_conflict code \<longleftrightarrow> str_includes code ''MISMATCH'' \<or> str_includes code ''MISSING''"

text \<open>The choice of the state, with the conflict it adds.\<close>

definition reconciliation_verdict :: "verification_record list \<Rightarrow> verification_record list \<Rightarrow> verification_record list \<Rightarrow>
    evidence_record list \<Rightarrow> string list \<Rightarrow> work_item \<Rightarrow> reconciliation_state \<times> string list" where
  "reconciliation_verdict failed inconclusive passed current conflicts w =
     (if 0 < length failed \<or> list_ex fatal_conflict conflicts then (RC_FAILED, [])
      else if 0 < length inconclusive then (RC_UNKNOWN, [])
      else if wi_lifecycleState w \<noteq> WI_COMPLETED then (RC_BLOCKED, [''WORK_ITEM_NOT_COMPLETED''])
      else if length passed = 0 \<or> length current = 0 then (RC_BLOCKED, [''COMPLETION_SUPPORT_INSUFFICIENT''])
      else if 0 < length conflicts then (RC_FAILED, [])
      else (RC_PASS, []))"

definition reconcile :: "project \<Rightarrow> work_item \<Rightarrow> evidence_record list \<Rightarrow> verification_record list \<Rightarrow> string \<Rightarrow> int \<Rightarrow>
    reconciliation_snapshot" where
  "reconcile p w evs vfs uuid now =
     (if wi_projectId w \<noteq> pj_id p
      then snapshot p w RC_FAILED [''WORK_ITEM_PROJECT_SCOPE_MISMATCH''] [] [] uuid now
      else
        let scopedEvs = filter (\<lambda>r. ev_projectId r = pj_id p \<and> ev_workItemId r = wi_id w) evs;
            scopedVfs = filter (\<lambda>v. vf_projectId v = pj_id p \<and> vf_workItemId v = wi_id w) vfs;
            current = filter (\<lambda>r. ev_currentness r = EC_CURRENT) scopedEvs;
            stale = filter (\<lambda>r. ev_currentness r \<noteq> EC_CURRENT) scopedEvs;
            passed = filter (\<lambda>v. vf_status v = VS_PASS) scopedVfs;
            failed = filter (\<lambda>v. vf_status v = VS_FAIL) scopedVfs;
            inconclusive = filter (\<lambda>v. vf_status v = VS_INCONCLUSIVE) scopedVfs;
            conflicts =
              (if length scopedEvs \<noteq> length evs then [''CROSS_SCOPE_EVIDENCE_PRESENT''] else []) @
              (if length scopedVfs \<noteq> length vfs then [''CROSS_SCOPE_VERIFICATION_PRESENT''] else []) @
              (if 0 < length stale then [''STALE_OR_INVALIDATED_EVIDENCE_PRESENT''] else []) @
              concat (map (verification_conflicts scopedEvs) passed) @
              (if 0 < length failed then [''FAILED_VERIFICATION_PRESENT''] else []) @
              (if 0 < length inconclusive then [''INCONCLUSIVE_VERIFICATION_PRESENT''] else []);
            (st, more) = reconciliation_verdict failed inconclusive passed current conflicts w
        in snapshot p w st (jset_of (conflicts @ more)) (map ev_id current) (map vf_id passed) uuid now)"

section \<open>Completion obligations\<close>

datatype cmo_status = CMO_REQUIRED | CMO_N_A | CMO_UNRESOLVED | CMO_DONE

record cmo_resolution =
  cm_cmoId :: string
  cm_status :: cmo_status
  cm_provenance :: string

definition cmo_resolved :: "string \<Rightarrow> bool \<Rightarrow> cmo_status \<Rightarrow> string \<Rightarrow> cmo_resolution" where
  "cmo_resolved i missing st provenance =
     (if missing then \<lparr>cm_cmoId = i, cm_status = CMO_UNRESOLVED, cm_provenance = ''Missing context''\<rparr>
      else \<lparr>cm_cmoId = i, cm_status = st, cm_provenance = provenance\<rparr>)"

definition KNOWN_CMO_RULES :: "(project \<Rightarrow> work_item \<Rightarrow> cmo_resolution) list" where
  "KNOWN_CMO_RULES =
     [\<lambda>p w. cmo_resolved ''CMO-01'' (pj_name p = [] \<or> wi_objective w = []) CMO_REQUIRED ''Project has executable outcome'',
      \<lambda>p w. cmo_resolved ''CMO-02'' (pj_name p = [] \<or> wi_objective w = []) CMO_REQUIRED ''Project requires test assurance'',
      \<lambda>p w. cmo_resolved ''CMO-03'' (pj_name p = []) CMO_N_A
        ''Affirmative exclusion: independent assurance not in V1 scope'',
      \<lambda>p w. cmo_resolved ''CMO-05'' (pj_name p = []) CMO_REQUIRED ''Project requires versioned state'',
      \<lambda>p w. cmo_resolved ''CMO-06'' (pj_name p = []) CMO_N_A
        ''Affirmative exclusion: remote publication not in V1 scope'',
      \<lambda>p w. cmo_resolved ''CMO-14'' (pj_name p = []) CMO_REQUIRED ''Project requires recovery capability'']"

definition resolveCmosForProject :: "project \<Rightarrow> work_item \<Rightarrow> string list \<Rightarrow> cmo_resolution list" where
  "resolveCmosForProject p w evidenceGiven =
     map (\<lambda>rule. let base = rule p w in
        if cm_status base = CMO_REQUIRED \<and> cm_cmoId base \<in> set evidenceGiven
        then base\<lparr>cm_status := CMO_DONE, cm_provenance := cm_provenance base @ '' -> Satisfied by evidence''\<rparr>
        else base) KNOWN_CMO_RULES"

section \<open>The completion decision\<close>

datatype completion_state = CS_COMPLETE | CS_INCOMPLETE | CS_BLOCKED | CS_EVIDENCE_INSUFFICIENT | CS_RECONCILIATION_FAILED
datatype residual_type = UNRESOLVED_FINDING | UNHANDLED_SIDE_EFFECT | FAILED_VERIFICATION | MISSING_EVIDENCE

record residual_item =
  rd_id :: string
  rd_description :: string
  rd_type :: residual_type

record completion_decision =
  cd_id :: string
  cd_projectId :: string
  cd_completionObjectRef :: string
  cd_state :: completion_state
  cd_evaluatedProjectRevision :: nat
  cd_evaluatedWorkItemId :: string
  cd_evaluatedWorkItemRevision :: nat
  cd_verificationIds :: "string list"
  cd_evidenceIds :: "string list"
  cd_reconciliationRef :: string
  cd_rationaleCodes :: "string list"
  cd_residualScope :: "residual_item list"
  cd_decidedAt :: int

record completion_input =
  ci_project :: project
  ci_workItem :: work_item
  ci_completionObjectRef :: string
  ci_verifications :: "verification_record list"
  ci_evidence :: "evidence_record list"
  ci_reconciliation :: reconciliation_snapshot

text \<open>\<open>residualScope.push(\{ id: randomUUID(), ... \})\<close>; \<open>fresh n\<close> is the \<open>n\<close>-th id drawn.\<close>

definition push_residual :: "(nat \<Rightarrow> string) \<Rightarrow> string \<Rightarrow> residual_type \<Rightarrow> residual_item list \<Rightarrow> residual_item list" where
  "push_residual fresh d t rs = rs @ [\<lparr>rd_id = fresh (length rs), rd_description = d, rd_type = t\<rparr>]"

definition cmo_residual :: "(nat \<Rightarrow> string) \<Rightarrow> string list \<Rightarrow> cmo_resolution \<Rightarrow> residual_item list \<Rightarrow> residual_item list" where
  "cmo_residual fresh claims c rs =
     (if cm_status c = CMO_UNRESOLVED
      then push_residual fresh (''CMO unresolved: '' @ cm_cmoId c @ '' - '' @ cm_provenance c) MISSING_EVIDENCE rs
      else if cm_status c = CMO_REQUIRED \<and> cm_cmoId c \<notin> set claims
      then push_residual fresh (''CMO required but missing evidence: '' @ cm_cmoId c @ '' - '' @ cm_provenance c) MISSING_EVIDENCE rs
      else rs)"

definition decision_of :: "completion_input \<Rightarrow> (nat \<Rightarrow> string) \<Rightarrow> int \<Rightarrow> completion_state \<Rightarrow> string list \<Rightarrow> string list \<Rightarrow>
    string list \<Rightarrow> residual_item list \<Rightarrow> completion_decision" where
  "decision_of i fresh now st rationale verificationIds evidenceIds rs =
     \<lparr>cd_id = fresh (length rs), cd_projectId = pj_id (ci_project i),
      cd_completionObjectRef = ci_completionObjectRef i, cd_state = st,
      cd_evaluatedProjectRevision = pj_revision (ci_project i), cd_evaluatedWorkItemId = wi_id (ci_workItem i),
      cd_evaluatedWorkItemRevision = wi_revision (ci_workItem i), cd_verificationIds = verificationIds,
      cd_evidenceIds = evidenceIds, cd_reconciliationRef = rcs_ref (ci_reconciliation i),
      cd_rationaleCodes = rationale, cd_residualScope = rs, cd_decidedAt = now\<rparr>"

definition reconciliation_stale :: "completion_input \<Rightarrow> bool" where
  "reconciliation_stale i \<longleftrightarrow>
     (let r = ci_reconciliation i; p = ci_project i; w = ci_workItem i in
      rcs_projectId r \<noteq> pj_id p \<or> rcs_evaluatedProjectRevision r \<noteq> pj_revision p \<or>
      rcs_evaluatedWorkItemId r \<noteq> wi_id w \<or> rcs_evaluatedWorkItemRevision r \<noteq> wi_revision w)"

text \<open>The body of \<open>evaluate\<close> up to the call that saves the decision.\<close>

definition decide_completion :: "completion_input \<Rightarrow> (nat \<Rightarrow> string) \<Rightarrow> int \<Rightarrow> exn + completion_decision" where
  "decide_completion i fresh now =
     (let p = ci_project i; w = ci_workItem i; r = ci_reconciliation i;
          claims = map ev_claim (filter (\<lambda>e. ev_currentness e = EC_CURRENT) (ci_evidence i));
          residual = fold (cmo_residual fresh claims) (resolveCmosForProject p w []) [];
          persist = (\<lambda>st rationale vids eids rs. Inr (decision_of i fresh now st rationale vids eids rs))
      in if wi_projectId w \<noteq> pj_id p
         then Inl (GenericError ''Completion evaluation scope mismatch: WorkItem does not belong to Project.'')
         else if reconciliation_stale i
         then persist CS_RECONCILIATION_FAILED [''RECONCILIATION_STALE_OR_SCOPE_MISMATCH''] [] [] residual
         else if rcs_state r = RC_BLOCKED
         then persist CS_BLOCKED [''RECONCILIATION_BLOCKED''] [] []
           (fold (\<lambda>code. push_residual fresh (''Reconciliation block: '' @ code) UNRESOLVED_FINDING) (rcs_conflictCodes r) residual)
         else if rcs_state r \<noteq> RC_PASS
         then persist CS_RECONCILIATION_FAILED [''RECONCILIATION_NOT_PASS''] [] [] residual
         else if wi_lifecycleState w \<noteq> WI_COMPLETED
         then persist CS_INCOMPLETE [''WORK_ITEM_NOT_COMPLETED''] [] [] residual
         else
           let inScope = (\<lambda>v. vf_projectId v = pj_id p \<and> vf_workItemId v = wi_id w);
               passing = filter (\<lambda>v. inScope v \<and> vf_status v = VS_PASS) (ci_verifications i);
               failing = filter (\<lambda>v. inScope v \<and> vf_status v = VS_FAIL) (ci_verifications i);
               residual2 = fold (\<lambda>v. push_residual fresh
                 (''Failed verification: '' @ verification_type_name (vf_verificationType v)) FAILED_VERIFICATION) failing residual;
               current = filter (\<lambda>e. ev_projectId e = pj_id p \<and> ev_workItemId e = wi_id w \<and>
                 ev_currentness e = EC_CURRENT) (ci_evidence i);
               supported = jset_of (map ev_id current);
               valid = filter (\<lambda>v. 0 < length (vf_evidenceIds v) \<and>
                 list_all (\<lambda>k. k \<in> set supported) (vf_evidenceIds v)) passing
           in if length valid = 0
              then persist CS_EVIDENCE_INSUFFICIENT [''CURRENT_PASS_VERIFICATION_MISSING''] [] (map ev_id current)
                (push_residual fresh ''Missing current pass verification'' MISSING_EVIDENCE residual2)
              else if 0 < length residual2
              then persist CS_INCOMPLETE [''RESIDUAL_SCOPE_REMAINS''] (map vf_id valid) (map ev_id current) residual2
              else persist CS_COMPLETE
                [''WORK_ITEM_COMPLETED'', ''CURRENT_EVIDENCE_PRESENT'', ''PASS_VERIFICATION_PRESENT'', ''RECONCILIATION_PASS'']
                (map vf_id valid) (map ev_id current) residual2)"

definition completion_evaluate :: "(completion_decision \<Rightarrow> ('c, exn, completion_decision) act) \<Rightarrow> completion_input \<Rightarrow>
    (nat \<Rightarrow> string) \<Rightarrow> int \<Rightarrow> ('c, exn, completion_decision) act" where
  "completion_evaluate saveDecision i fresh now =
     (case decide_completion i fresh now of Inl e \<Rightarrow> act_throw e | Inr d \<Rightarrow> saveDecision d)"

section \<open>When reconciliation passes\<close>

lemma length_filter_all: "length (filter P xs) = length xs \<longleftrightarrow> (\<forall>x \<in> set xs. P x)"
  by (metis filter_True length_filter_less nat_neq_iff)

definition in_scope :: "project \<Rightarrow> work_item \<Rightarrow> string \<Rightarrow> string \<Rightarrow> bool" where
  "in_scope p w pid wid \<longleftrightarrow> pid = pj_id p \<and> wid = wi_id w"

text \<open>A verification whose evidence ids all denote current records of the list.\<close>

definition backed :: "evidence_record list \<Rightarrow> verification_record \<Rightarrow> bool" where
  "backed evs v \<longleftrightarrow> vf_evidenceIds v \<noteq> [] \<and> (\<forall>k \<in> set (vf_evidenceIds v). k \<in> ev_id ` set evs)"

lemma no_verification_conflicts:
  assumes "\<forall>e \<in> set evs. ev_currentness e = EC_CURRENT"
  shows "verification_conflicts evs v = [] \<longleftrightarrow> backed evs v"
proof -
  have "(case jm_get (evidence_by_id evs) k of None \<Rightarrow> [''VERIFICATION_REFERENCES_MISSING_EVIDENCE'']
      | Some r \<Rightarrow> if ev_currentness r \<noteq> EC_CURRENT then [''VERIFICATION_REFERENCES_NONCURRENT_EVIDENCE''] else []) = [] \<longleftrightarrow>
      k \<in> ev_id ` set evs" for k
  proof (cases "jm_get (evidence_by_id evs) k")
    case None
    then have "k \<notin> ev_id ` set evs" by (auto simp: evidence_by_id_get find_row_None)
    with None show ?thesis by simp
  next
    case (Some r)
    then have "r \<in> set evs" "ev_id r = k"
      using find_row_Some [of "\<lambda>r. ev_id r = k" "rev evs" r] by (simp_all add: evidence_by_id_get)
    with Some assms show ?thesis by auto
  qed
  then show ?thesis by (simp add: verification_conflicts_def backed_def)
qed

lemma verdict_pass:
  "fst (reconciliation_verdict failed inconclusive passed current conflicts w) = RC_PASS \<longleftrightarrow>
     failed = [] \<and> inconclusive = [] \<and> passed \<noteq> [] \<and> current \<noteq> [] \<and> conflicts = [] \<and> wi_lifecycleState w = WI_COMPLETED"
  by (auto simp: reconciliation_verdict_def)

lemma snapshot_state [simp]: "rcs_state (snapshot p w st c e v u n) = st"
  by (simp add: snapshot_def)

lemma reconcile_pass_iff:
  "rcs_state (reconcile p w evs vfs uuid now) = RC_PASS \<longleftrightarrow>
     wi_projectId w = pj_id p \<and> wi_lifecycleState w = WI_COMPLETED \<and> evs \<noteq> [] \<and> vfs \<noteq> [] \<and>
     (\<forall>e \<in> set evs. in_scope p w (ev_projectId e) (ev_workItemId e) \<and> ev_currentness e = EC_CURRENT) \<and>
     (\<forall>v \<in> set vfs. in_scope p w (vf_projectId v) (vf_workItemId v) \<and> vf_status v = VS_PASS \<and> backed evs v)"
proof (cases "wi_projectId w = pj_id p")
  case True
  let ?se = "filter (\<lambda>r. ev_projectId r = pj_id p \<and> ev_workItemId r = wi_id w) evs"
  let ?sv = "filter (\<lambda>v. vf_projectId v = pj_id p \<and> vf_workItemId v = wi_id w) vfs"
  let ?st = "\<lambda>s. filter (\<lambda>v. vf_status v = s) ?sv"
  have pass: "rcs_state (reconcile p w evs vfs uuid now) = RC_PASS \<longleftrightarrow>
      ?st VS_FAIL = [] \<and> ?st VS_INCONCLUSIVE = [] \<and> ?st VS_PASS \<noteq> [] \<and>
      filter (\<lambda>r. ev_currentness r = EC_CURRENT) ?se \<noteq> [] \<and>
      (length ?se = length evs \<and> length ?sv = length vfs \<and> filter (\<lambda>r. ev_currentness r \<noteq> EC_CURRENT) ?se = [] \<and>
       (\<forall>v \<in> set (?st VS_PASS). verification_conflicts ?se v = [])) \<and> wi_lifecycleState w = WI_COMPLETED"
    using True unfolding reconcile_def Let_def split_beta if_False not_not snapshot_state by (simp add: verdict_pass del: filter_filter)
  show ?thesis
  proof (cases "length ?se = length evs \<and> length ?sv = length vfs")
    case in_all: True
    then have same: "?se = evs" "?sv = vfs" by (simp_all add: length_filter_all)
    have status: "s = VS_PASS \<longleftrightarrow> s \<noteq> VS_FAIL \<and> s \<noteq> VS_INCONCLUSIVE" for s by (cases s) auto
    from in_all have "\<forall>e \<in> set evs. in_scope p w (ev_projectId e) (ev_workItemId e)"
      "\<forall>v \<in> set vfs. in_scope p w (vf_projectId v) (vf_workItemId v)" by (simp_all add: length_filter_all in_scope_def)
    then show ?thesis
      unfolding pass same using True no_verification_conflicts [of evs] status
      by (auto simp: filter_empty_conv) (metis list.set_intros(1) neq_Nil_conv)+
  next
    case False
    then show ?thesis unfolding pass by (auto simp: length_filter_all in_scope_def)
  qed
qed (simp add: reconcile_def)

section \<open>When a decision is COMPLETE\<close>

definition required_cmos :: "string list" where
  "required_cmos = [''CMO-01'', ''CMO-02'', ''CMO-05'', ''CMO-14'']"

lemma residual_ids:
  "push_residual fresh d t rs \<noteq> []" "fold (\<lambda>x. push_residual fresh (f x) t) xs rs = [] \<longleftrightarrow> xs = [] \<and> rs = []"
proof -
  show ne: "push_residual fresh d t rs \<noteq> []" for d rs by (simp add: push_residual_def)
  show "fold (\<lambda>x. push_residual fresh (f x) t) xs rs = [] \<longleftrightarrow> xs = [] \<and> rs = []"
  proof (induction xs arbitrary: rs)
    case (Cons x xs)
    show ?case using Cons [of "push_residual fresh (f x) t rs"] ne by simp
  qed simp
qed

lemma cmo_residual_empty:
  "cmo_residual fresh claims c rs = [] \<longleftrightarrow>
     rs = [] \<and> cm_status c \<noteq> CMO_UNRESOLVED \<and> (cm_status c = CMO_REQUIRED \<longrightarrow> cm_cmoId c \<in> set claims)"
  by (auto simp: cmo_residual_def residual_ids)

lemma fold_cmo_residual_empty:
  "fold (cmo_residual fresh claims) cs rs = [] \<longleftrightarrow>
     rs = [] \<and> (\<forall>c \<in> set cs. cm_status c \<noteq> CMO_UNRESOLVED \<and> (cm_status c = CMO_REQUIRED \<longrightarrow> cm_cmoId c \<in> set claims))"
  by (induction cs arbitrary: rs) (auto simp: cmo_residual_empty)

lemma no_cmo_residual:
  "fold (cmo_residual fresh claims) (resolveCmosForProject p w []) [] = [] \<longleftrightarrow>
     pj_name p \<noteq> [] \<and> wi_objective w \<noteq> [] \<and> set required_cmos \<subseteq> set claims"
  by (auto simp: cmo_residual_empty resolveCmosForProject_def KNOWN_CMO_RULES_def cmo_resolved_def
    required_cmos_def Let_def)

text \<open>The claims that count for the obligations: those of every current record given, whatever its scope.\<close>

definition cmos_covered :: "project \<Rightarrow> work_item \<Rightarrow> evidence_record list \<Rightarrow> bool" where
  "cmos_covered p w evs \<longleftrightarrow> pj_name p \<noteq> [] \<and> wi_objective w \<noteq> [] \<and>
     (\<forall>c \<in> set required_cmos. \<exists>e \<in> set evs. ev_currentness e = EC_CURRENT \<and> ev_claim e = c)"

lemma cmos_covered_iff:
  "fold (cmo_residual fresh (map ev_claim (filter (\<lambda>e. ev_currentness e = EC_CURRENT) evs)))
     (resolveCmosForProject p w []) [] = [] \<longleftrightarrow> cmos_covered p w evs"
  unfolding no_cmo_residual cmos_covered_def by fastforce

definition current_in_scope :: "project \<Rightarrow> work_item \<Rightarrow> evidence_record list \<Rightarrow> evidence_record list" where
  "current_in_scope p w evs =
     filter (\<lambda>e. ev_projectId e = pj_id p \<and> ev_workItemId e = wi_id w \<and> ev_currentness e = EC_CURRENT) evs"

definition completion_conditions :: "completion_input \<Rightarrow> bool" where
  "completion_conditions i \<longleftrightarrow>
     (let p = ci_project i; w = ci_workItem i in
      \<not> reconciliation_stale i \<and> rcs_state (ci_reconciliation i) = RC_PASS \<and> wi_lifecycleState w = WI_COMPLETED \<and>
      cmos_covered p w (ci_evidence i) \<and>
      (\<forall>v \<in> set (ci_verifications i). in_scope p w (vf_projectId v) (vf_workItemId v) \<longrightarrow> vf_status v \<noteq> VS_FAIL) \<and>
      (\<exists>v \<in> set (ci_verifications i). in_scope p w (vf_projectId v) (vf_workItemId v) \<and> vf_status v = VS_PASS \<and>
         backed (current_in_scope p w (ci_evidence i)) v))"

lemma decision_residual: "cd_residualScope (decision_of i fresh now st r v e rs) = rs"
  by (simp add: decision_of_def)

lemma decision_state [simp]: "cd_state (decision_of i fresh now st r v e rs) = st"
  by (simp add: decision_of_def)

definition decided :: "completion_input \<Rightarrow> exn + completion_decision \<Rightarrow> bool" where
  "decided i r \<longleftrightarrow> (case r of
     Inl e \<Rightarrow> wi_projectId (ci_workItem i) \<noteq> pj_id (ci_project i)
   | Inr d \<Rightarrow> wi_projectId (ci_workItem i) = pj_id (ci_project i) \<and>
       (cd_state d = CS_COMPLETE \<longleftrightarrow> completion_conditions i) \<and> (cd_state d = CS_COMPLETE \<longrightarrow> cd_residualScope d = []))"

lemma decide_completion_decided: "decided i (decide_completion i fresh now)"
proof (cases "wi_projectId (ci_workItem i) = pj_id (ci_project i) \<and> \<not> reconciliation_stale i \<and>
    rcs_state (ci_reconciliation i) = RC_PASS \<and> wi_lifecycleState (ci_workItem i) = WI_COMPLETED")
  case True
  let ?p = "ci_project i" and ?w = "ci_workItem i"
  let ?mine = "\<lambda>v. vf_projectId v = pj_id ?p \<and> vf_workItemId v = wi_id ?w"
  define residual where "residual = fold (cmo_residual fresh
    (map ev_claim (filter (\<lambda>e. ev_currentness e = EC_CURRENT) (ci_evidence i)))) (resolveCmosForProject ?p ?w []) []"
  define failing where "failing = filter (\<lambda>v. ?mine v \<and> vf_status v = VS_FAIL) (ci_verifications i)"
  define residual2 where "residual2 = fold (\<lambda>v. push_residual fresh
    (''Failed verification: '' @ verification_type_name (vf_verificationType v)) FAILED_VERIFICATION) failing residual"
  define current where "current = current_in_scope ?p ?w (ci_evidence i)"
  define valid where "valid = filter (\<lambda>v. 0 < length (vf_evidenceIds v) \<and> list_all (\<lambda>k. k \<in> set (jset_of (map ev_id current))) (vf_evidenceIds v))
    (filter (\<lambda>v. ?mine v \<and> vf_status v = VS_PASS) (ci_verifications i))"
  have run: "decide_completion i fresh now = Inr (if length valid = 0
      then decision_of i fresh now CS_EVIDENCE_INSUFFICIENT [''CURRENT_PASS_VERIFICATION_MISSING''] [] (map ev_id current)
        (push_residual fresh ''Missing current pass verification'' MISSING_EVIDENCE residual2)
      else if 0 < length residual2
      then decision_of i fresh now CS_INCOMPLETE [''RESIDUAL_SCOPE_REMAINS''] (map vf_id valid) (map ev_id current) residual2
      else decision_of i fresh now CS_COMPLETE
        [''WORK_ITEM_COMPLETED'', ''CURRENT_EVIDENCE_PRESENT'', ''PASS_VERIFICATION_PRESENT'', ''RECONCILIATION_PASS'']
        (map vf_id valid) (map ev_id current) residual2)"
    using True unfolding decide_completion_def Let_def residual2_def residual_def failing_def valid_def current_def current_in_scope_def
    by simp
  have "residual = [] \<longleftrightarrow> cmos_covered ?p ?w (ci_evidence i)" unfolding residual_def by (rule cmos_covered_iff)
  moreover have "residual2 = [] \<longleftrightarrow> failing = [] \<and> residual = []" by (simp add: residual2_def residual_ids)
  moreover have "failing = [] \<longleftrightarrow> (\<forall>v \<in> set (ci_verifications i). in_scope ?p ?w (vf_projectId v) (vf_workItemId v) \<longrightarrow> vf_status v \<noteq> VS_FAIL)"
    by (auto simp: failing_def filter_empty_conv in_scope_def)
  moreover have "valid \<noteq> [] \<longleftrightarrow> (\<exists>v \<in> set (ci_verifications i). in_scope ?p ?w (vf_projectId v) (vf_workItemId v) \<and>
      vf_status v = VS_PASS \<and> backed current v)"
    by (auto simp: valid_def filter_empty_conv in_scope_def backed_def list_all_iff)
  ultimately show ?thesis
    using True unfolding run decided_def completion_conditions_def Let_def current_def
    by (cases "valid = []"; cases "residual2 = []") (auto simp: decision_residual)
next
  case False
  then consider "wi_projectId (ci_workItem i) \<noteq> pj_id (ci_project i)"
    | "wi_projectId (ci_workItem i) = pj_id (ci_project i)" "reconciliation_stale i"
    | "wi_projectId (ci_workItem i) = pj_id (ci_project i)" "\<not> reconciliation_stale i" "rcs_state (ci_reconciliation i) = RC_BLOCKED"
    | "wi_projectId (ci_workItem i) = pj_id (ci_project i)" "\<not> reconciliation_stale i" "rcs_state (ci_reconciliation i) \<noteq> RC_BLOCKED"
        "rcs_state (ci_reconciliation i) \<noteq> RC_PASS"
    | "wi_projectId (ci_workItem i) = pj_id (ci_project i)" "\<not> reconciliation_stale i"
        "rcs_state (ci_reconciliation i) = RC_PASS" "wi_lifecycleState (ci_workItem i) \<noteq> WI_COMPLETED"
    by blast
  then show ?thesis
    by cases (simp_all add: decided_def completion_conditions_def decide_completion_def Let_def)
qed

lemma complete_iff_of_decision:
  "decide_completion i fresh now = Inr d \<Longrightarrow> (cd_state d = CS_COMPLETE \<longleftrightarrow> completion_conditions i)"
  using decide_completion_decided [of i fresh now] by (simp add: decided_def)

text \<open>
  C20: When a decision is COMPLETE. The engine throws exactly when the work item is not of the project.
  Otherwise it decides COMPLETE if and only if the reconciliation is PASS for these very revisions,
  the work item is COMPLETED, no verification of it failed, some PASS verification of it is backed by
  current evidence of it, the project has a name and the item an objective, and every required
  completion obligation is claimed by a current evidence record; a COMPLETE decision has no residual scope.
\<close>
theorem complete_iff:
  "case decide_completion i fresh now of
     Inl e \<Rightarrow> wi_projectId (ci_workItem i) \<noteq> pj_id (ci_project i)
   | Inr d \<Rightarrow> wi_projectId (ci_workItem i) = pj_id (ci_project i) \<and>
       (cd_state d = CS_COMPLETE \<longleftrightarrow> completion_conditions i) \<and> (cd_state d = CS_COMPLETE \<longrightarrow> cd_residualScope d = [])"
  using decide_completion_decided [of i fresh now] unfolding decided_def .

lemma reconcile_sel:
  "rcs_projectId (reconcile p w evs vfs uuid t) = pj_id p" "rcs_evaluatedProjectRevision (reconcile p w evs vfs uuid t) = pj_revision p"
  "rcs_evaluatedWorkItemId (reconcile p w evs vfs uuid t) = wi_id w"
  "rcs_evaluatedWorkItemRevision (reconcile p w evs vfs uuid t) = wi_revision w"
  unfolding reconcile_def Let_def split_beta by (simp_all add: snapshot_def)

lemma reconcile_fresh:
  assumes "ci_reconciliation i = reconcile (ci_project i) (ci_workItem i) evs vfs uuid t"
  shows "\<not> reconciliation_stale i"
  unfolding reconciliation_stale_def Let_def assms by (simp add: reconcile_sel)

text \<open>
  Reconciliation and completion agree. When the engine is given the reconciliation that was computed
  from the very project, item, evidence and verifications it evaluates, it decides COMPLETE if and only if that
  reconciliation passed and the completion obligations are covered. A PASS in turn means that the item is
  COMPLETED, that there is evidence and a verification, that all evidence is of this item and current, and
  that every verification is a PASS backed by that evidence.
\<close>
theorem complete_after_reconciliation:
  assumes "ci_reconciliation i = reconcile (ci_project i) (ci_workItem i) (ci_evidence i) (ci_verifications i) uuid t"
    and "decide_completion i fresh now = Inr d"
  shows "(cd_state d = CS_COMPLETE \<longleftrightarrow> rcs_state (ci_reconciliation i) = RC_PASS \<and>
      cmos_covered (ci_project i) (ci_workItem i) (ci_evidence i)) \<and>
    (rcs_state (ci_reconciliation i) = RC_PASS \<longleftrightarrow>
      wi_lifecycleState (ci_workItem i) = WI_COMPLETED \<and> ci_evidence i \<noteq> [] \<and> ci_verifications i \<noteq> [] \<and>
      (\<forall>e \<in> set (ci_evidence i). in_scope (ci_project i) (ci_workItem i) (ev_projectId e) (ev_workItemId e) \<and>
         ev_currentness e = EC_CURRENT) \<and>
      (\<forall>v \<in> set (ci_verifications i). in_scope (ci_project i) (ci_workItem i) (vf_projectId v) (vf_workItemId v) \<and>
         vf_status v = VS_PASS \<and> backed (ci_evidence i) v))"
proof -
  have own: "wi_projectId (ci_workItem i) = pj_id (ci_project i)"
    using assms(2) by (auto simp: decide_completion_def Let_def split: if_splits)
  note state = reconcile_pass_iff [of "ci_project i" "ci_workItem i" "ci_evidence i" "ci_verifications i" uuid t, folded assms(1)]
  have conditions: "cd_state d = CS_COMPLETE \<longleftrightarrow> completion_conditions i"
    using complete_iff_of_decision [OF assms(2)] .
  have "completion_conditions i" if "rcs_state (ci_reconciliation i) = RC_PASS"
    "cmos_covered (ci_project i) (ci_workItem i) (ci_evidence i)"
  proof -
    from that(1) have s: "wi_lifecycleState (ci_workItem i) = WI_COMPLETED" "ci_verifications i \<noteq> []"
      "\<forall>e \<in> set (ci_evidence i). in_scope (ci_project i) (ci_workItem i) (ev_projectId e) (ev_workItemId e) \<and> ev_currentness e = EC_CURRENT"
      "\<forall>v \<in> set (ci_verifications i). in_scope (ci_project i) (ci_workItem i) (vf_projectId v) (vf_workItemId v) \<and>
         vf_status v = VS_PASS \<and> backed (ci_evidence i) v" unfolding state by blast+
    then have "current_in_scope (ci_project i) (ci_workItem i) (ci_evidence i) = ci_evidence i"
      by (simp add: current_in_scope_def in_scope_def)
    moreover obtain v where "v \<in> set (ci_verifications i)" using s(2) by (cases "ci_verifications i") auto
    ultimately show ?thesis
      using s that reconcile_fresh [OF assms(1)] by (auto simp: completion_conditions_def Let_def)
  qed
  then show ?thesis unfolding conditions using state own by (auto simp: completion_conditions_def Let_def)
qed

section \<open>Examples\<close>

definition sample_project :: project where
  "sample_project = \<lparr>pj_id = ''p1'', pj_slug = ''s'', pj_name = ''n'', pj_lifecycleState = PJ_ACTIVE, pj_revision = 7,
     pj_createdAt = 0, pj_updatedAt = 0\<rparr>"

definition sample_completed_item :: work_item where
  "sample_completed_item = \<lparr>wi_id = ''w1'', wi_projectId = ''p1'', wi_parentId = None, wi_type = TASK, wi_objective = ''o'',
     wi_lifecycleState = WI_COMPLETED, wi_revision = 5, wi_evidenceRequirements = [],
     wi_currentAttemptId = None, wi_createdAt = 0, wi_updatedAt = 0\<rparr>"

definition sample_claims :: "string \<Rightarrow> evidence_record list" where
  "sample_claims pid = map (\<lambda>c. sample_evidence\<lparr>ev_id := c, ev_projectId := pid, ev_claim := c\<rparr>) required_cmos"

definition sample_completion :: "evidence_record list \<Rightarrow> completion_input" where
  "sample_completion evs = \<lparr>ci_project = sample_project, ci_workItem = sample_completed_item,
     ci_completionObjectRef = ''outcome-1'', ci_verifications = [sample_verification\<lparr>vf_evidenceIds := [''CMO-01'']\<rparr>],
     ci_evidence = evs,
     ci_reconciliation = reconcile sample_project sample_completed_item evs
       [sample_verification\<lparr>vf_evidenceIds := [''CMO-01'']\<rparr>] ''u'' 0\<rparr>"

definition sample_ids :: "nat \<Rightarrow> string" where "sample_ids n = ''id-'' @ digits_of n"

lemma sample_reconciled: "rcs_state (ci_reconciliation (sample_completion (sample_claims ''p1''))) = RC_PASS"
  unfolding sample_completion_def completion_input.simps reconcile_pass_iff
  by (simp add: sample_project_def sample_completed_item_def sample_claims_def required_cmos_def sample_evidence_def
    sample_verification_def in_scope_def backed_def)

lemma sample_decided:
  obtains d where "decide_completion (sample_completion (sample_claims ''p1'')) sample_ids 0 = Inr d"
proof -
  have "wi_projectId (ci_workItem (sample_completion (sample_claims ''p1''))) = pj_id (ci_project (sample_completion (sample_claims ''p1'')))"
    by (simp add: sample_completion_def sample_project_def sample_completed_item_def)
  then show thesis
    using that decide_completion_decided [of "sample_completion (sample_claims ''p1'')" sample_ids 0]
    by (cases "decide_completion (sample_completion (sample_claims ''p1'')) sample_ids 0") (auto simp: decided_def)
qed

lemma sample_covered: "cmos_covered sample_project sample_completed_item (sample_claims pid)"
  by (simp add: cmos_covered_def sample_project_def sample_completed_item_def sample_claims_def required_cmos_def sample_evidence_def)

lemma sample_input_sel:
  "ci_project (sample_completion evs) = sample_project" "ci_workItem (sample_completion evs) = sample_completed_item"
  "ci_evidence (sample_completion evs) = evs"
  "ci_verifications (sample_completion evs) = [sample_verification\<lparr>vf_evidenceIds := [''CMO-01'']\<rparr>]"
  "ci_reconciliation (sample_completion evs) = reconcile sample_project sample_completed_item evs
       [sample_verification\<lparr>vf_evidenceIds := [''CMO-01'']\<rparr>] ''u'' 0"
  by (simp_all add: sample_completion_def)

theorem complete_after_reconciliation_witness:
  "\<exists>d. decide_completion (sample_completion (sample_claims ''p1'')) sample_ids 0 = Inr d \<and> cd_state d = CS_COMPLETE"
proof -
  obtain d where d: "decide_completion (sample_completion (sample_claims ''p1'')) sample_ids 0 = Inr d" by (rule sample_decided)
  have "ci_reconciliation (sample_completion (sample_claims ''p1'')) =
      reconcile (ci_project (sample_completion (sample_claims ''p1''))) (ci_workItem (sample_completion (sample_claims ''p1'')))
        (ci_evidence (sample_completion (sample_claims ''p1''))) (ci_verifications (sample_completion (sample_claims ''p1''))) ''u'' 0"
    by (simp add: sample_input_sel)
  from complete_after_reconciliation [OF this d] sample_reconciled sample_covered
  have "cd_state d = CS_COMPLETE" by (simp add: sample_input_sel)
  with d show ?thesis by blast
qed

text \<open>
  One record of the work item's own and the three other obligations claimed by records of another
  project, evaluated with a reconciliation of the own record alone.
\<close>

definition foreign_claims :: completion_input where
  "foreign_claims = (sample_completion (hd (sample_claims ''p1'') # tl (sample_claims ''p2'')))
     \<lparr>ci_reconciliation := reconcile sample_project sample_completed_item [hd (sample_claims ''p1'')]
       [sample_verification\<lparr>vf_evidenceIds := [''CMO-01'']\<rparr>] ''u'' 0\<rparr>"

lemma foreign_claims_conditions: "completion_conditions foreign_claims"
proof -
  have "rcs_state (reconcile sample_project sample_completed_item [hd (sample_claims ''p1'')]
      [sample_verification\<lparr>vf_evidenceIds := [''CMO-01'']\<rparr>] ''u'' 0) = RC_PASS"
    unfolding reconcile_pass_iff
    by (simp add: sample_project_def sample_completed_item_def sample_claims_def required_cmos_def sample_evidence_def
      sample_verification_def in_scope_def backed_def)
  then show ?thesis
    by (simp add: completion_conditions_def Let_def foreign_claims_def sample_input_sel reconciliation_stale_def reconcile_sel)
      (simp add: cmos_covered_def sample_project_def sample_completed_item_def sample_claims_def required_cmos_def
        sample_evidence_def in_scope_def sample_verification_def backed_def current_in_scope_def)
qed

theorem complete_iff_witness:
  "\<exists>d. decide_completion foreign_claims sample_ids 0 = Inr d \<and> cd_state d = CS_COMPLETE \<and> cd_residualScope d = []"
proof -
  have own: "wi_projectId (ci_workItem foreign_claims) = pj_id (ci_project foreign_claims)"
    by (simp add: foreign_claims_def sample_input_sel) (simp add: sample_project_def sample_completed_item_def)
  show ?thesis
    using complete_iff [of foreign_claims sample_ids 0] own foreign_claims_conditions
    by (cases "decide_completion foreign_claims sample_ids 0") auto
qed

text \<open>Three of the four obligations are covered by evidence of a project that is not the one decided on.\<close>

lemma foreign_claims_complete:
  "list_all (\<lambda>e. ev_projectId e \<noteq> pj_id (ci_project foreign_claims)) (tl (ci_evidence foreign_claims)) \<and>
   length (tl (ci_evidence foreign_claims)) = 3 \<and> completion_conditions foreign_claims"
  using foreign_claims_conditions
  by (simp add: foreign_claims_def sample_completion_def sample_claims_def required_cmos_def sample_project_def)

end
