(* ===== verification/Hash_Chains.thy ===== *)
theory Hash_Chains
  imports Json_Text Domain_Model
begin

text \<open>
  The hash-chained journals of the observability package (\<^verbatim>\<open>packages/observability/src/logs.ts\<close> and
  \<^verbatim>\<open>incidents.ts\<close>): execution logs and incident events, their in-memory services and the verifiers
  of their integrity. SHA-256 and the redactor are parameters; the clock and the generated ids are
  arguments. The metadata of a log is a JSON object; its numbers are integers.
\<close>

section \<open>Execution logs\<close>

datatype log_stream = LS_STDOUT | LS_STDERR | LS_SYSTEM

fun stream_name :: "log_stream \<Rightarrow> string" where
  "stream_name LS_STDOUT = ''STDOUT''"
| "stream_name LS_STDERR = ''STDERR''"
| "stream_name LS_SYSTEM = ''SYSTEM''"

record log_record =
  lg_id :: string
  lg_projectId :: string
  lg_runId :: string
  lg_attemptId :: "string option"
  lg_workItemId :: "string option"
  lg_stream :: log_stream
  lg_message :: string
  lg_sequence :: int
  lg_timestamp :: int
  lg_metadata :: "(string \<times> json) list option"
  lg_previousHash :: "string option"
  lg_hash :: string

record log_context =
  lc_attemptId :: "string option"
  lc_workItemId :: "string option"
  lc_stream :: "log_stream option"
  lc_metadata :: "(string \<times> json) list option"

text \<open>The key of a chain, and the hashed text: absent metadata leaves no member.\<close>

definition chain_key :: "string \<Rightarrow> string \<Rightarrow> string" where
  "chain_key a b = a @ '':'' @ b"

definition log_payload :: "log_record \<Rightarrow> json" where
  "log_payload l = JObj
     ([(''id'', JStr (lg_id l)), (''projectId'', JStr (lg_projectId l)), (''runId'', JStr (lg_runId l)),
       (''attemptId'', str_or_null (lg_attemptId l)), (''workItemId'', str_or_null (lg_workItemId l)),
       (''stream'', JStr (stream_name (lg_stream l))), (''message'', JStr (lg_message l)),
       (''sequence'', JNum (lg_sequence l)), (''timestamp'', JStr (toISOString (lg_timestamp l)))] @
      (case lg_metadata l of None \<Rightarrow> [] | Some m \<Rightarrow> [(''metadata'', JObj m)]) @
      [(''previousHash'', str_or_null (lg_previousHash l))])"

section \<open>Verifying chains\<close>

text \<open>Records grouped by key in the order the keys first occur, each group in the order of its records.\<close>

definition chains_of :: "('r \<Rightarrow> string) \<Rightarrow> 'r list \<Rightarrow> (string, 'r list) jsmap" where
  "chains_of key rs =
     fold (\<lambda>r m. jm_set (key r) ((case jm_get m (key r) of None \<Rightarrow> [] | Some c \<Rightarrow> c) @ [r]) m) rs []"

text \<open>One chain, sorted: sequences increase, each record names its predecessor's hash and carries its own.\<close>

fun check_chain :: "(string \<Rightarrow> string) \<Rightarrow> ('r \<Rightarrow> int) \<Rightarrow> ('r \<Rightarrow> string option) \<Rightarrow> ('r \<Rightarrow> string) \<Rightarrow> ('r \<Rightarrow> json) \<Rightarrow>
    string option \<Rightarrow> int \<Rightarrow> 'r list \<Rightarrow> bool" where
  "check_chain sha seq prev hash payload expectedPrev seqCheck [] = True"
| "check_chain sha seq prev hash payload expectedPrev seqCheck (r # rs) =
     (if seqCheck \<noteq> - 1 \<and> seq r \<le> seqCheck then False
      else if prev r \<noteq> expectedPrev then False
      else let expectedHash = sha (json_text (payload r)) in
        if hash r \<noteq> expectedHash then False
        else check_chain sha seq prev hash payload (Some expectedHash) (seq r) rs)"

definition verifyLogs :: "(string \<Rightarrow> string) \<Rightarrow> log_record list \<Rightarrow> bool" where
  "verifyLogs sha logs =
     list_all (\<lambda>(k, chain). check_chain sha lg_sequence lg_previousHash lg_hash log_payload None (- 1)
       (sort_key lg_sequence chain)) (chains_of (\<lambda>l. chain_key (lg_projectId l) (lg_runId l)) logs)"

section \<open>The in-memory logger\<close>

record memory_logger =
  ml_logs :: "log_record list"
  ml_seq :: int
  ml_lastHashes :: "(string, string) jsmap"

definition new_memory_logger :: memory_logger where
  "new_memory_logger = \<lparr>ml_logs = [], ml_seq = 0, ml_lastHashes = []\<rparr>"

text \<open>\<open>sanitizeValue\<close>: a member whose key looks like a credential's is blanked, texts are redacted.\<close>

fun sanitizeValue :: "(string \<Rightarrow> bool) \<Rightarrow> (string \<Rightarrow> string) \<Rightarrow> json \<Rightarrow> json" where
  "sanitizeValue sensitive redact (JStr s) = JStr (redact s)"
| "sanitizeValue sensitive redact (JArr vs) = JArr (map (sanitizeValue sensitive redact) vs)"
| "sanitizeValue sensitive redact (JObj kvs) =
     JObj (map (\<lambda>(k, v). (k, if sensitive k then JStr ''[REDACTED]'' else sanitizeValue sensitive redact v)) kvs)"
| "sanitizeValue sensitive redact v = v"

text \<open>The record of one log call: \<open>fid\<close> is what the id factory gave, if there is one.\<close>

definition clean_metadata :: "(string \<Rightarrow> bool) \<Rightarrow> (string \<Rightarrow> string) \<Rightarrow> log_context \<Rightarrow> (string \<times> json) list option" where
  "clean_metadata sensitive redact ctx =
     (case lc_metadata ctx of None \<Rightarrow> None
      | Some m \<Rightarrow> (case sanitizeValue sensitive redact (JObj m) of JObj m' \<Rightarrow> Some m' | _ \<Rightarrow> None))"

definition generated_id :: "string \<Rightarrow> string option \<Rightarrow> int \<Rightarrow> int \<Rightarrow> string" where
  "generated_id prefix fid now n =
     (case fid of Some i \<Rightarrow> i | None \<Rightarrow> prefix @ show_int now @ ''-'' @ show_int n)"

definition seal_log :: "(string \<Rightarrow> string) \<Rightarrow> log_record \<Rightarrow> log_record" where
  "seal_log sha l = l\<lparr>lg_hash := sha (json_text (log_payload l))\<rparr>"

definition make_log :: "(string \<Rightarrow> string) \<Rightarrow> (string \<Rightarrow> bool) \<Rightarrow> (string \<Rightarrow> string) \<Rightarrow> string \<Rightarrow> string \<Rightarrow> string \<Rightarrow> log_context \<Rightarrow>
    string option \<Rightarrow> int \<Rightarrow> int \<Rightarrow> string option \<Rightarrow> log_record" where
  "make_log sha sensitive redact projectId runId message ctx fid now n previous =
     seal_log sha \<lparr>lg_id = generated_id ''log-'' fid now n, lg_projectId = projectId, lg_runId = runId,
       lg_attemptId = lc_attemptId ctx, lg_workItemId = lc_workItemId ctx,
       lg_stream = (case lc_stream ctx of None \<Rightarrow> LS_SYSTEM | Some s \<Rightarrow> s), lg_message = redact message,
       lg_sequence = n, lg_timestamp = now, lg_metadata = clean_metadata sensitive redact ctx,
       lg_previousHash = previous, lg_hash = []\<rparr>"

definition ml_log :: "(string \<Rightarrow> string) \<Rightarrow> (string \<Rightarrow> bool) \<Rightarrow> (string \<Rightarrow> string) \<Rightarrow> string \<Rightarrow> string \<Rightarrow> string \<Rightarrow> log_context \<Rightarrow>
    string option \<Rightarrow> int \<Rightarrow> memory_logger \<Rightarrow> memory_logger" where
  "ml_log sha sensitive redact projectId runId message ctx fid now s =
     (let n = ml_seq s + 1; key = chain_key projectId runId;
          l = make_log sha sensitive redact projectId runId message ctx fid now n (jm_get (ml_lastHashes s) key)
      in \<lparr>ml_logs = ml_logs s @ [l], ml_seq = n, ml_lastHashes = jm_set key (lg_hash l) (ml_lastHashes s)\<rparr>)"

text \<open>\<open>!filter?.runId\<close> is true of an absent and of an empty text.\<close>

definition filter_matches :: "string option \<Rightarrow> string option \<Rightarrow> bool" where
  "filter_matches f v \<longleftrightarrow> \<not> truthy f \<or> v = f"

definition ml_getLogs :: "string \<Rightarrow> string option \<Rightarrow> string option \<Rightarrow> string option \<Rightarrow> memory_logger \<Rightarrow> log_record list" where
  "ml_getLogs projectId run attempt item s =
     sort_key lg_sequence (filter (\<lambda>l. lg_projectId l = projectId \<and> filter_matches run (Some (lg_runId l)) \<and>
       filter_matches attempt (lg_attemptId l) \<and> filter_matches item (lg_workItemId l)) (ml_logs s))"

section \<open>Incidents\<close>

datatype incident_severity = SV_LOW | SV_MEDIUM | SV_HIGH | SV_CRITICAL
datatype incident_state = IS_OPEN | IS_RESOLVED | IS_MITIGATED

fun severity_name :: "incident_severity \<Rightarrow> string" where
  "severity_name SV_LOW = ''LOW''"
| "severity_name SV_MEDIUM = ''MEDIUM''"
| "severity_name SV_HIGH = ''HIGH''"
| "severity_name SV_CRITICAL = ''CRITICAL''"

fun incident_state_name :: "incident_state \<Rightarrow> string" where
  "incident_state_name IS_OPEN = ''OPEN''"
| "incident_state_name IS_RESOLVED = ''RESOLVED''"
| "incident_state_name IS_MITIGATED = ''MITIGATED''"

record incident_event =
  ie_id :: string
  ie_incidentId :: string
  ie_projectId :: string
  ie_runId :: string
  ie_attemptId :: "string option"
  ie_workItemId :: "string option"
  ie_state :: incident_state
  ie_severity :: incident_severity
  ie_description :: string
  ie_timestamp :: int
  ie_resolutionClaim :: "string option"
  ie_recoveryEvidenceId :: "string option"
  ie_previousHash :: "string option"
  ie_hash :: string
  ie_sequence :: int

definition incident_payload :: "incident_event \<Rightarrow> json" where
  "incident_payload e = JObj
     [(''id'', JStr (ie_id e)), (''incidentId'', JStr (ie_incidentId e)), (''projectId'', JStr (ie_projectId e)),
      (''runId'', JStr (ie_runId e)), (''attemptId'', str_or_null (ie_attemptId e)),
      (''workItemId'', str_or_null (ie_workItemId e)), (''state'', JStr (incident_state_name (ie_state e))),
      (''severity'', JStr (severity_name (ie_severity e))), (''description'', JStr (ie_description e)),
      (''timestamp'', JStr (toISOString (ie_timestamp e))), (''resolutionClaim'', str_or_null (ie_resolutionClaim e)),
      (''recoveryEvidenceId'', str_or_null (ie_recoveryEvidenceId e)),
      (''previousHash'', str_or_null (ie_previousHash e)), (''sequence'', JNum (ie_sequence e))]"

definition verifyIncident :: "(string \<Rightarrow> string) \<Rightarrow> incident_event list \<Rightarrow> bool" where
  "verifyIncident sha events =
     list_all (\<lambda>(k, chain). check_chain sha ie_sequence ie_previousHash ie_hash incident_payload None (- 1)
       (sort_key ie_sequence chain)) (chains_of (\<lambda>e. chain_key (ie_projectId e) (ie_incidentId e)) events)"

record memory_incidents =
  mi_events :: "incident_event list"
  mi_lastHash :: "(string, string) jsmap"
  mi_seq :: int

definition new_memory_incidents :: memory_incidents where
  "new_memory_incidents = \<lparr>mi_events = [], mi_lastHash = [], mi_seq = 0\<rparr>"

text \<open>An event before the service completes it: what the callers of \<open>appendEvent\<close> pass.\<close>

record event_draft =
  dr_incidentId :: string
  dr_projectId :: string
  dr_runId :: string
  dr_attemptId :: "string option"
  dr_workItemId :: "string option"
  dr_state :: incident_state
  dr_severity :: incident_severity
  dr_description :: string
  dr_resolutionClaim :: "string option"
  dr_recoveryEvidenceId :: "string option"

definition seal_event :: "(string \<Rightarrow> string) \<Rightarrow> incident_event \<Rightarrow> incident_event" where
  "seal_event sha e = e\<lparr>ie_hash := sha (json_text (incident_payload e))\<rparr>"

text \<open>An empty claim is falsy and becomes \<open>null\<close>.\<close>

definition make_event :: "(string \<Rightarrow> string) \<Rightarrow> (string \<Rightarrow> string) \<Rightarrow> event_draft \<Rightarrow> string option \<Rightarrow> int \<Rightarrow> int \<Rightarrow> string option \<Rightarrow>
    incident_event" where
  "make_event sha redact d fid now n previous =
     seal_event sha \<lparr>ie_id = generated_id ''inc-evt-'' fid now n, ie_incidentId = dr_incidentId d,
       ie_projectId = dr_projectId d, ie_runId = dr_runId d, ie_attemptId = dr_attemptId d,
       ie_workItemId = dr_workItemId d, ie_state = dr_state d, ie_severity = dr_severity d,
       ie_description = redact (dr_description d), ie_timestamp = now,
       ie_resolutionClaim = (if truthy (dr_resolutionClaim d) then map_option redact (dr_resolutionClaim d) else None),
       ie_recoveryEvidenceId = dr_recoveryEvidenceId d, ie_previousHash = previous, ie_hash = [], ie_sequence = n\<rparr>"

definition mi_appendEvent :: "(string \<Rightarrow> string) \<Rightarrow> (string \<Rightarrow> string) \<Rightarrow> event_draft \<Rightarrow> string option \<Rightarrow> int \<Rightarrow>
    (memory_incidents, exn, incident_event) act" where
  "mi_appendEvent sha redact d fid now s =
     (let n = mi_seq s + 1; key = chain_key (dr_projectId d) (dr_incidentId d);
          e = make_event sha redact d fid now n (jm_get (mi_lastHash s) key)
      in (Inr e, \<lparr>mi_events = mi_events s @ [e], mi_lastHash = jm_set key (ie_hash e) (mi_lastHash s), mi_seq = n\<rparr>))"

text \<open>Opening; \<open>incidentId\<close> is what the incident id factory, or the clock and the random source, gave.\<close>

definition mi_openIncident :: "(string \<Rightarrow> string) \<Rightarrow> (string \<Rightarrow> string) \<Rightarrow> string \<Rightarrow> string \<Rightarrow> string \<Rightarrow> string \<Rightarrow> incident_severity \<Rightarrow>
    string option \<Rightarrow> string option \<Rightarrow> string option \<Rightarrow> int \<Rightarrow> (memory_incidents, exn, incident_event) act" where
  "mi_openIncident sha redact incidentId projectId runId description severity attempt item fid now =
     mi_appendEvent sha redact \<lparr>dr_incidentId = incidentId, dr_projectId = projectId, dr_runId = runId,
       dr_attemptId = attempt, dr_workItemId = item, dr_state = IS_OPEN, dr_severity = severity,
       dr_description = description, dr_resolutionClaim = None, dr_recoveryEvidenceId = None\<rparr> fid now"

text \<open>The checks of a transition on the events of the incident in the order of their sequence.\<close>

definition cannot_transition :: "incident_state \<Rightarrow> incident_state \<Rightarrow> exn" where
  "cannot_transition f t = GenericError (''Cannot transition from '' @ incident_state_name f @ '' to '' @ incident_state_name t)"

definition transition_draft :: "incident_event list \<Rightarrow> string \<Rightarrow> string \<Rightarrow> incident_state \<Rightarrow> string \<Rightarrow> string option \<Rightarrow>
    exn + event_draft" where
  "transition_draft events projectId incidentId to claim recovery =
     (let evts = sort_key ie_sequence (filter (\<lambda>e. ie_projectId e = projectId \<and> ie_incidentId e = incidentId) events)
      in if evts = [] then Inl (GenericError ''Incident not found'')
         else let l = last evts in
           if ie_state l = IS_RESOLVED then Inl (cannot_transition IS_RESOLVED to)
           else if ie_state l = IS_MITIGATED \<and> to \<noteq> IS_RESOLVED then Inl (cannot_transition IS_MITIGATED to)
           else if ie_state l = IS_OPEN \<and> to \<noteq> IS_MITIGATED \<and> to \<noteq> IS_RESOLVED then Inl (cannot_transition IS_OPEN to)
           else Inr \<lparr>dr_incidentId = incidentId, dr_projectId = projectId, dr_runId = ie_runId l,
                  dr_attemptId = ie_attemptId l, dr_workItemId = ie_workItemId l, dr_state = to,
                  dr_severity = ie_severity l, dr_description = ie_description l,
                  dr_resolutionClaim = Some claim, dr_recoveryEvidenceId = recovery\<rparr>)"

definition mi_transitionIncident :: "(string \<Rightarrow> string) \<Rightarrow> (string \<Rightarrow> string) \<Rightarrow> string \<Rightarrow> string \<Rightarrow> incident_state \<Rightarrow> string \<Rightarrow>
    string option \<Rightarrow> string option \<Rightarrow> int \<Rightarrow> (memory_incidents, exn, incident_event) act" where
  "mi_transitionIncident sha redact projectId incidentId to claim recovery fid now s =
     (case transition_draft (mi_events s) projectId incidentId to claim recovery of
        Inl e \<Rightarrow> (Inl e, s) | Inr d \<Rightarrow> mi_appendEvent sha redact d fid now s)"

definition mi_mitigateIncident :: "(string \<Rightarrow> string) \<Rightarrow> (string \<Rightarrow> string) \<Rightarrow> string \<Rightarrow> string \<Rightarrow> string \<Rightarrow>
    string option \<Rightarrow> string option \<Rightarrow> int \<Rightarrow> (memory_incidents, exn, incident_event) act" where
  "mi_mitigateIncident sha redact projectId incidentId claim recovery =
     mi_transitionIncident sha redact projectId incidentId IS_MITIGATED claim recovery"

definition mi_resolveIncident :: "(string \<Rightarrow> string) \<Rightarrow> (string \<Rightarrow> string) \<Rightarrow> string \<Rightarrow> string \<Rightarrow> string \<Rightarrow>
    string option \<Rightarrow> string option \<Rightarrow> int \<Rightarrow> (memory_incidents, exn, incident_event) act" where
  "mi_resolveIncident sha redact projectId incidentId claim recovery =
     mi_transitionIncident sha redact projectId incidentId IS_RESOLVED claim recovery"

definition mi_listIncidentEvents :: "string \<Rightarrow> memory_incidents \<Rightarrow> incident_event list" where
  "mi_listIncidentEvents projectId s = sort_key ie_sequence (filter (\<lambda>e. ie_projectId e = projectId) (mi_events s))"

section \<open>Chains\<close>

lemma chains_of_get:
  "jm_get (chains_of key rs) k = (let c = filter (\<lambda>r. key r = k) rs in if c = [] then None else Some c)"
proof (induction rs arbitrary: k rule: rev_induct)
  case (snoc r rs)
  have "chains_of key (rs @ [r]) = jm_set (key r)
      ((case jm_get (chains_of key rs) (key r) of None \<Rightarrow> [] | Some c \<Rightarrow> c) @ [r]) (chains_of key rs)"
    by (simp add: chains_of_def)
  then show ?case using snoc by (cases "k = key r") (simp_all add: Let_def)
qed (simp add: chains_of_def)

lemma chains_of_keys: "distinct (map fst (chains_of key rs))"
proof (induction rs rule: rev_induct)
  case (snoc r rs)
  then show ?case by (simp add: chains_of_def distinct_keys_jm_set)
qed (simp add: chains_of_def)

lemma chains_of_all:
  "list_all (\<lambda>(k, c). P c) (chains_of key rs) \<longleftrightarrow> (\<forall>k \<in> key ` set rs. P (filter (\<lambda>r. key r = k) rs))"
proof -
  have mem: "(k, c) \<in> set (chains_of key rs) \<longleftrightarrow> c = filter (\<lambda>r. key r = k) rs \<and> c \<noteq> []" for k c
    using chains_of_get [of key rs k] jm_get_in_distinct [OF chains_of_keys, of k c key rs]
      jm_get_Some_in [of "chains_of key rs" k c]
    by (auto simp: Let_def split: if_splits)
  have "list_all (\<lambda>(k, c). P c) (chains_of key rs) \<longleftrightarrow> (\<forall>k c. (k, c) \<in> set (chains_of key rs) \<longrightarrow> P c)"
    by (auto simp: list_all_iff)
  also have "\<dots> \<longleftrightarrow> (\<forall>k. filter (\<lambda>r. key r = k) rs \<noteq> [] \<longrightarrow> P (filter (\<lambda>r. key r = k) rs))" by (auto simp: mem)
  also have "\<dots> \<longleftrightarrow> (\<forall>k \<in> key ` set rs. P (filter (\<lambda>r. key r = k) rs))" by (force simp: filter_empty_conv)
  finally show ?thesis .
qed

locale hash_chain =
  fixes sha :: "string \<Rightarrow> string"
    and key :: "'r \<Rightarrow> string"
    and seq :: "'r \<Rightarrow> int"
    and prev :: "'r \<Rightarrow> string option"
    and hash :: "'r \<Rightarrow> string"
    and payload :: "'r \<Rightarrow> json"
  assumes payload_commits: "payload r = payload r' \<Longrightarrow> hash r = hash r' \<Longrightarrow> r = r'"
begin

definition verified :: "'r list \<Rightarrow> bool" where
  "verified c \<longleftrightarrow> check_chain sha seq prev hash payload None (- 1) c"

lemma check_snoc:
  "check_chain sha seq prev hash payload p s (c @ [r]) \<longleftrightarrow>
     check_chain sha seq prev hash payload p s c \<and> hash r = sha (json_text (payload r)) \<and>
     (let q = (if c = [] then s else seq (last c)) in q = - 1 \<or> q < seq r) \<and>
     prev r = (if c = [] then p else Some (hash (last c)))"
  by (induction c arbitrary: p s) (auto simp: Let_def)

lemma verified_Nil: "verified []"
  by (simp add: verified_def)

lemma verified_snoc:
  "verified (c @ [r]) \<longleftrightarrow> verified c \<and> hash r = sha (json_text (payload r)) \<and>
     (c \<noteq> [] \<longrightarrow> seq (last c) = - 1 \<or> seq (last c) < seq r) \<and>
     prev r = (if c = [] then None else Some (hash (last c)))"
  by (auto simp: verified_def check_snoc Let_def)

text \<open>The hash of the last record commits to the whole chain.\<close>

lemma last_hash_commits:
  assumes "verified c" "verified d" "c \<noteq> []" "d \<noteq> []" "hash (last c) = hash (last d)"
    and "\<forall>r \<in> set c. \<forall>q \<in> set d. no_collision sha (payload r) (payload q)"
  shows "c = d"
  using assms
proof (induction c arbitrary: d rule: rev_induct)
  case (snoc r c)
  obtain d' q where d: "d = d' @ [q]" using snoc.prems(4) by (cases d rule: rev_cases) auto
  have hashes: "hash r = hash q" using snoc.prems(5) by (simp add: d)
  moreover have "payload r = payload q"
    using snoc.prems d hashes by (intro no_collision_eq [of sha]) (auto simp: verified_snoc)
  ultimately have same: "r = q" by (rule payload_commits [rotated])
  from snoc.prems have v: "verified c" "verified d'"
    "prev r = (if c = [] then None else Some (hash (last c)))" "prev q = (if d' = [] then None else Some (hash (last d')))"
    by (simp_all add: d verified_snoc)
  have "c = d'"
  proof (cases "c = []")
    case True
    with v same show ?thesis by (auto split: if_splits)
  next
    case False
    with v same have "d' \<noteq> []" "hash (last c) = hash (last d')" by (auto split: if_splits)
    with snoc.IH [of d'] snoc.prems(6) v False show ?thesis by (simp add: d)
  qed
  with same show ?case by (simp add: d)
qed simp

text \<open>A writer that chains each record to the last hash of its key.\<close>

definition journal :: "'r list \<Rightarrow> (string, string) jsmap \<Rightarrow> bool" where
  "journal rs last_hash \<longleftrightarrow> (\<forall>k. verified (filter (\<lambda>r. key r = k) rs) \<and>
     jm_get last_hash k = (let c = filter (\<lambda>r. key r = k) rs in if c = [] then None else Some (hash (last c))))"

lemma journal_Nil: "journal [] []"
  by (simp add: journal_def verified_Nil)

lemma journal_snoc:
  assumes "journal rs m" "prev r = jm_get m (key r)" "hash r = sha (json_text (payload r))"
    and "\<forall>x \<in> set rs. key x = key r \<longrightarrow> seq x < seq r"
  shows "journal (rs @ [r]) (jm_set (key r) (hash r) m)"
proof -
  have "verified (filter (\<lambda>x. key x = key r) rs @ [r])"
  proof -
    have "filter (\<lambda>x. key x = key r) rs \<noteq> [] \<Longrightarrow> seq (last (filter (\<lambda>x. key x = key r) rs)) < seq r"
      using assms(4) last_in_set [of "filter (\<lambda>x. key x = key r) rs"] by auto
    then show ?thesis using assms(1-3) by (auto simp: verified_snoc journal_def Let_def)
  qed
  then show ?thesis using assms(1) by (auto simp: journal_def Let_def verified_Nil)
qed

lemma journal_chains: "journal rs m \<Longrightarrow> verified (filter (\<lambda>r. key r = k) rs)"
  by (simp add: journal_def)

end

section \<open>The two journals are hash chains\<close>

lemma journal_names_inject [simp]:
  "stream_name a = stream_name b \<longleftrightarrow> a = b" "severity_name c = severity_name d \<longleftrightarrow> c = d"
  "incident_state_name e = incident_state_name f \<longleftrightarrow> e = f"
  by ((cases a; cases b; simp), (cases c; cases d; simp), (cases e; cases f; simp))

abbreviation log_key :: "log_record \<Rightarrow> string" where
  "log_key l \<equiv> chain_key (lg_projectId l) (lg_runId l)"

abbreviation incident_key :: "incident_event \<Rightarrow> string" where
  "incident_key e \<equiv> chain_key (ie_projectId e) (ie_incidentId e)"

interpretation logs_chain: hash_chain sha log_key lg_sequence lg_previousHash lg_hash log_payload
  for sha :: "string \<Rightarrow> string"
proof unfold_locales
  fix l l' :: log_record
  assume "log_payload l = log_payload l'" "lg_hash l = lg_hash l'"
  then show "l = l'"
    by (cases "lg_metadata l"; cases "lg_metadata l'") (simp_all add: log_payload_def toISOString_inject)
qed

interpretation incidents_chain: hash_chain sha incident_key ie_sequence ie_previousHash ie_hash incident_payload
  for sha :: "string \<Rightarrow> string"
  by unfold_locales (simp add: incident_payload_def toISOString_inject)

lemma verifyLogs_iff: "verifyLogs sha logs \<longleftrightarrow>
    (\<forall>k \<in> log_key ` set logs. logs_chain.verified sha (sort_key lg_sequence (filter (\<lambda>l. log_key l = k) logs)))"
  unfolding verifyLogs_def logs_chain.verified_def by (rule chains_of_all)

lemma verifyIncident_iff: "verifyIncident sha es \<longleftrightarrow>
    (\<forall>k \<in> incident_key ` set es. incidents_chain.verified sha (sort_key ie_sequence (filter (\<lambda>e. incident_key e = k) es)))"
  unfolding verifyIncident_def incidents_chain.verified_def by (rule chains_of_all)

lemma verifyLogs_one_run:
  assumes "verifyLogs sha logs" "logs \<noteq> []" "\<forall>l \<in> set logs. lg_projectId l = p \<and> lg_runId l = r" "sorted (map lg_sequence logs)"
  shows "logs_chain.verified sha logs"
proof -
  have "filter (\<lambda>l. log_key l = chain_key p r) logs = logs" using assms(3) by (simp add: filter_id_conv)
  moreover have "chain_key p r \<in> log_key ` set logs" using assms(2,3) by (cases logs) auto
  ultimately show ?thesis
    using assms(1,4) by (auto simp: verifyLogs_iff sort_key_id_if_sorted)
qed

text \<open>
  C21: The last hash commits to a run's whole history. Two logs of the same run, in order of sequence, that both
  pass the verifier and end in a record with the same hash are the same log, record by record, unless the
  hash collides on two of their payloads: no earlier record can be altered, dropped, added or reordered.
\<close>
theorem history_committed:
  assumes "verifyLogs sha xs" "verifyLogs sha ys" "xs \<noteq> []" "ys \<noteq> []"
    and "\<forall>l \<in> set xs \<union> set ys. lg_projectId l = p \<and> lg_runId l = r"
    and "sorted (map lg_sequence xs)" "sorted (map lg_sequence ys)"
    and "lg_hash (last xs) = lg_hash (last ys)"
    and "\<forall>x \<in> set xs. \<forall>y \<in> set ys. no_collision sha (log_payload x) (log_payload y)"
  shows "xs = ys"
proof (rule logs_chain.last_hash_commits)
  show "logs_chain.verified sha xs" "logs_chain.verified sha ys"
    using verifyLogs_one_run assms by blast+
qed (use assms in auto)

section \<open>What the in-memory services write\<close>

inductive ml_reach :: "(string \<Rightarrow> string) \<Rightarrow> (string \<Rightarrow> bool) \<Rightarrow> (string \<Rightarrow> string) \<Rightarrow> memory_logger \<Rightarrow> bool"
  for sha :: "string \<Rightarrow> string" and sensitive :: "string \<Rightarrow> bool" and redact :: "string \<Rightarrow> string" where
  ml_start: "ml_reach sha sensitive redact new_memory_logger"
| ml_step: "ml_reach sha sensitive redact s \<Longrightarrow> ml_reach sha sensitive redact (ml_log sha sensitive redact p r m ctx fid now s)"

lemma seal_log_sel [simp]:
  "lg_projectId (seal_log sha l) = lg_projectId l" "lg_runId (seal_log sha l) = lg_runId l"
  "lg_sequence (seal_log sha l) = lg_sequence l" "lg_previousHash (seal_log sha l) = lg_previousHash l"
  "log_payload (seal_log sha l) = log_payload l" "lg_hash (seal_log sha l) = sha (json_text (log_payload l))"
  by (simp_all add: seal_log_def log_payload_def)

lemma make_log_sel [simp]:
  "lg_projectId (make_log sha sens red p r m ctx fid now n prev) = p"
  "lg_runId (make_log sha sens red p r m ctx fid now n prev) = r"
  "lg_sequence (make_log sha sens red p r m ctx fid now n prev) = n"
  "lg_previousHash (make_log sha sens red p r m ctx fid now n prev) = prev"
  "lg_hash (make_log sha sens red p r m ctx fid now n prev) =
     sha (json_text (log_payload (make_log sha sens red p r m ctx fid now n prev)))"
  by (simp_all add: make_log_def)

lemma ml_reach_inv:
  "ml_reach sha sens red s \<Longrightarrow> logs_chain.journal sha (ml_logs s) (ml_lastHashes s) \<and>
     sorted_wrt (<) (map lg_sequence (ml_logs s)) \<and> (\<forall>l \<in> set (ml_logs s). lg_sequence l \<le> ml_seq s)"
proof (induction rule: ml_reach.induct)
  case (ml_step s p r m ctx fid now)
  let ?l = "make_log sha sens red p r m ctx fid now (ml_seq s + 1) (jm_get (ml_lastHashes s) (chain_key p r))"
  have "logs_chain.journal sha (ml_logs s @ [?l]) (jm_set (log_key ?l) (lg_hash ?l) (ml_lastHashes s))"
    using ml_step.IH by (intro logs_chain.journal_snoc) auto
  then show ?case using ml_step.IH by (auto simp: ml_log_def Let_def sorted_wrt_append)
qed (simp add: new_memory_logger_def logs_chain.journal_Nil)

lemma chain_key_inject:
  assumes "CHR '':'' \<notin> set a" "CHR '':'' \<notin> set c" "chain_key a b = chain_key c d" shows "a = c \<and> b = d"
proof -
  have cut: "takeWhile (\<lambda>x. x \<noteq> CHR '':'') (chain_key u v) = u" if "CHR '':'' \<notin> set u" for u v
    using that by (induction u) (auto simp: chain_key_def)
  from cut [of a b] cut [of c d] assms have "a = c" by simp
  with assms(3) show ?thesis by (simp add: chain_key_def)
qed

lemma sorted_wrt_less_filter: "sorted_wrt (<) (map f xs) \<Longrightarrow> sorted (map f (filter P xs :: 'a list))" for f :: "'a \<Rightarrow> int"
  by (metis sorted_map strict_sorted_imp_sorted sorted_filter)

lemma ml_sorted: "ml_reach sha sens red s \<Longrightarrow> sort_key lg_sequence (filter P (ml_logs s)) = filter P (ml_logs s)"
  using ml_reach_inv sorted_wrt_less_filter by (intro sort_key_id_if_sorted) blast

lemma ml_chains: "ml_reach sha sens red s \<Longrightarrow> logs_chain.verified sha (filter (\<lambda>l. log_key l = k) (ml_logs s))"
  using ml_reach_inv logs_chain.journal_chains by blast

lemma journal_verifies: "ml_reach sha sens red s \<Longrightarrow> verifyLogs sha (ml_logs s)"
  unfolding verifyLogs_iff using ml_chains by (simp add: ml_sorted)

text \<open>
  What the logger writes verifies. After any sequence of log calls, whatever the redactor and the generated
  ids, the verifier accepts the whole journal, and, when no project id contains a colon, what \<open>getLogs\<close> returns
  for any project, with or without a run filter.
\<close>
theorem logged_chains_verify:
  assumes "ml_reach sha sensitive redact s" "\<forall>l \<in> set (ml_logs s). CHR '':'' \<notin> set (lg_projectId l)"
  shows "verifyLogs sha (ml_logs s) \<and> verifyLogs sha (ml_getLogs p run None None s)"
proof -
  note whole = ml_chains [OF assms(1)] and srt = ml_sorted [OF assms(1)]
  have "verifyLogs sha (ml_logs s)" by (rule journal_verifies [OF assms(1)])
  moreover have "verifyLogs sha (ml_getLogs p run None None s)"
  proof -
    let ?P = "\<lambda>l. lg_projectId l = p \<and> filter_matches run (Some (lg_runId l))"
    have got: "ml_getLogs p run None None s = filter ?P (ml_logs s)"
      by (simp add: ml_getLogs_def filter_matches_def srt)
    have "filter (\<lambda>l. log_key l = log_key x) (filter ?P (ml_logs s)) = filter (\<lambda>l. log_key l = log_key x) (ml_logs s)"
      if x: "x \<in> set (filter ?P (ml_logs s))" for x
    proof -
      have "log_key l = log_key x \<Longrightarrow> ?P l" if "l \<in> set (ml_logs s)" for l
        using chain_key_inject [of "lg_projectId l" "lg_projectId x"] assms(2) that x by (auto simp: filter_matches_def)
      then show ?thesis unfolding filter_filter by (intro filter_cong) auto
    qed
    then have "logs_chain.verified sha (sort_key lg_sequence (filter (\<lambda>l. log_key l = log_key x) (filter ?P (ml_logs s))))"
      if "x \<in> set (filter ?P (ml_logs s))" for x
      using whole srt that by (simp only:)
    then have "\<forall>k \<in> log_key ` set (filter ?P (ml_logs s)). logs_chain.verified sha
        (sort_key lg_sequence (filter (\<lambda>l. log_key l = k) (filter ?P (ml_logs s))))" by blast
    then show ?thesis unfolding verifyLogs_iff got .
  qed
  ultimately show ?thesis by blast
qed

section \<open>The life of an incident\<close>

definition legal_life :: "incident_state list \<Rightarrow> bool" where
  "legal_life ss \<longleftrightarrow> ss \<in> {[], [IS_OPEN], [IS_OPEN, IS_MITIGATED], [IS_OPEN, IS_RESOLVED], [IS_OPEN, IS_MITIGATED, IS_RESOLVED]}"

definition events_of :: "string \<Rightarrow> string \<Rightarrow> incident_event list \<Rightarrow> incident_event list" where
  "events_of p i es = filter (\<lambda>e. ie_projectId e = p \<and> ie_incidentId e = i) es"

text \<open>Services reached by opening incidents under ids that are new to their project, mitigating and resolving.\<close>

inductive mi_reach :: "(string \<Rightarrow> string) \<Rightarrow> (string \<Rightarrow> string) \<Rightarrow> memory_incidents \<Rightarrow> bool"
  for sha :: "string \<Rightarrow> string" and redact :: "string \<Rightarrow> string" where
  mi_start: "mi_reach sha redact new_memory_incidents"
| mi_opened: "mi_reach sha redact s \<Longrightarrow> events_of p i (mi_events s) = [] \<Longrightarrow>
    mi_openIncident sha redact i p r d sev att item fid now s = (res, s') \<Longrightarrow> mi_reach sha redact s'"
| mi_mitigated: "mi_reach sha redact s \<Longrightarrow> mi_mitigateIncident sha redact p i claim rec fid now s = (res, s') \<Longrightarrow> mi_reach sha redact s'"
| mi_resolved: "mi_reach sha redact s \<Longrightarrow> mi_resolveIncident sha redact p i claim rec fid now s = (res, s') \<Longrightarrow> mi_reach sha redact s'"

definition incidents_inv :: "(string \<Rightarrow> string) \<Rightarrow> memory_incidents \<Rightarrow> bool" where
  "incidents_inv sha s \<longleftrightarrow> incidents_chain.journal sha (mi_events s) (mi_lastHash s) \<and>
     sorted_wrt (<) (map ie_sequence (mi_events s)) \<and> (\<forall>e \<in> set (mi_events s). ie_sequence e \<le> mi_seq s) \<and>
     (\<forall>p i. legal_life (map ie_state (events_of p i (mi_events s))))"

lemma make_event_sel [simp]:
  "ie_projectId (make_event sha red d fid now n prev) = dr_projectId d"
  "ie_incidentId (make_event sha red d fid now n prev) = dr_incidentId d"
  "ie_state (make_event sha red d fid now n prev) = dr_state d"
  "ie_sequence (make_event sha red d fid now n prev) = n"
  "ie_previousHash (make_event sha red d fid now n prev) = prev"
  "ie_hash (make_event sha red d fid now n prev) = sha (json_text (incident_payload (make_event sha red d fid now n prev)))"
  by (simp_all add: make_event_def seal_event_def incident_payload_def)

lemma append_inv:
  assumes inv: "incidents_inv sha s" and app: "mi_appendEvent sha red d fid now s = (res, s')"
    and legal: "legal_life (map ie_state (events_of (dr_projectId d) (dr_incidentId d) (mi_events s)) @ [dr_state d])"
  shows "incidents_inv sha s'"
proof -
  let ?e = "make_event sha red d fid now (mi_seq s + 1) (jm_get (mi_lastHash s) (chain_key (dr_projectId d) (dr_incidentId d)))"
  have s': "mi_events s' = mi_events s @ [?e]" "mi_lastHash s' = jm_set (incident_key ?e) (ie_hash ?e) (mi_lastHash s)"
    "mi_seq s' = mi_seq s + 1" using app by (auto simp: mi_appendEvent_def Let_def)
  have "incidents_chain.journal sha (mi_events s') (mi_lastHash s')"
    unfolding s' using inv by (intro incidents_chain.journal_snoc) (auto simp: incidents_inv_def)
  moreover have "legal_life (map ie_state (events_of p i (mi_events s')))" for p i
    using inv legal by (auto simp: incidents_inv_def s' events_of_def)
  ultimately show ?thesis using inv by (auto simp: incidents_inv_def s' sorted_wrt_append)
qed

lemma transition_draft_Inr:
  assumes "incidents_inv sha s" "transition_draft (mi_events s) p i to claim rec = Inr d" "to \<in> {IS_MITIGATED, IS_RESOLVED}"
  shows "dr_projectId d = p \<and> dr_incidentId d = i \<and> dr_state d = to \<and>
    legal_life (map ie_state (events_of p i (mi_events s)) @ [to])"
proof -
  have "sort_key ie_sequence (events_of p i (mi_events s)) = events_of p i (mi_events s)"
    unfolding events_of_def using assms(1) sorted_wrt_less_filter
    by (intro sort_key_id_if_sorted) (auto simp: incidents_inv_def)
  then have d: "events_of p i (mi_events s) \<noteq> []" "ie_state (last (events_of p i (mi_events s))) \<noteq> IS_RESOLVED"
    "ie_state (last (events_of p i (mi_events s))) = IS_MITIGATED \<Longrightarrow> to = IS_RESOLVED"
    "dr_projectId d = p \<and> dr_incidentId d = i \<and> dr_state d = to"
    using assms(2) by (auto simp: transition_draft_def Let_def events_of_def split: if_splits)
  have "legal_life (map ie_state (events_of p i (mi_events s)))" using assms(1) by (simp add: incidents_inv_def)
  moreover have "last (map ie_state (events_of p i (mi_events s))) = ie_state (last (events_of p i (mi_events s)))"
    using d(1) by (simp add: last_map)
  ultimately have "legal_life (map ie_state (events_of p i (mi_events s)) @ [to])"
    using d assms(3) by (auto simp: legal_life_def)
  with d(4) show ?thesis by blast
qed

lemma transition_inv:
  assumes "incidents_inv sha s" "mi_transitionIncident sha red p i to claim rec fid now s = (res, s')" "to \<in> {IS_MITIGATED, IS_RESOLVED}"
  shows "incidents_inv sha s'"
proof (cases "transition_draft (mi_events s) p i to claim rec")
  case (Inr d)
  then have "mi_appendEvent sha red d fid now s = (res, s')" using assms(2) by (simp add: mi_transitionIncident_def)
  then show ?thesis using append_inv [OF assms(1)] transition_draft_Inr [OF assms(1) Inr assms(3)] by auto
qed (use assms in \<open>simp add: mi_transitionIncident_def\<close>)

lemma incidents_inv_reach: "mi_reach sha red s \<Longrightarrow> incidents_inv sha s"
proof (induction rule: mi_reach.induct)
  case mi_start
  then show ?case
    by (simp add: incidents_inv_def new_memory_incidents_def incidents_chain.journal_Nil events_of_def legal_life_def)
next
  case (mi_opened s p i r d sev att item fid now res s')
  show ?case
    by (rule append_inv [OF mi_opened.IH mi_opened.hyps(3) [unfolded mi_openIncident_def]])
      (simp add: mi_opened.hyps(2) legal_life_def)
next
  case (mi_mitigated s p i claim rec fid now res s')
  then show ?case using transition_inv by (auto simp: mi_mitigateIncident_def)
next
  case (mi_resolved s p i claim rec fid now res s')
  then show ?case using transition_inv by (auto simp: mi_resolveIncident_def)
qed

text \<open>
  Every incident lives OPEN, then perhaps MITIGATED, then perhaps RESOLVED. In any service reached by
  opening incidents under new ids, mitigating and resolving, the events of an incident have exactly such states in the
  order of their sequence, the verifier accepts the whole journal, and a resolved incident refuses every
  further transition and stays as it is.
\<close>
theorem incident_lifecycle:
  assumes "mi_reach sha redact s"
  shows "legal_life (map ie_state (events_of p i (mi_listIncidentEvents p s))) \<and> verifyIncident sha (mi_events s) \<and>
    (IS_RESOLVED \<in> ie_state ` set (events_of p i (mi_events s)) \<longrightarrow>
      mi_transitionIncident sha redact p i to claim rec fid now s = (Inl (cannot_transition IS_RESOLVED to), s))"
proof -
  note inv = incidents_inv_reach [OF assms]
  have srt: "sort_key ie_sequence (filter P (mi_events s)) = filter P (mi_events s)" for P
    using inv sorted_wrt_less_filter by (intro sort_key_id_if_sorted) (auto simp: incidents_inv_def)
  have listed: "events_of p i (mi_listIncidentEvents p s) = events_of p i (mi_events s)"
    by (auto simp: mi_listIncidentEvents_def events_of_def srt intro: filter_cong)
  have legal: "legal_life (map ie_state (events_of p i (mi_events s)))" using inv by (simp add: incidents_inv_def)
  have "verifyIncident sha (mi_events s)"
    unfolding verifyIncident_iff using inv srt incidents_chain.journal_chains by (auto simp: incidents_inv_def)
  moreover have "mi_transitionIncident sha redact p i to claim rec fid now s = (Inl (cannot_transition IS_RESOLVED to), s)"
    if "IS_RESOLVED \<in> ie_state ` set (events_of p i (mi_events s))"
  proof -
    have in_states: "IS_RESOLVED \<in> set (map ie_state (events_of p i (mi_events s)))" using that by simp
    then have "last (map ie_state (events_of p i (mi_events s))) = IS_RESOLVED" using legal by (auto simp: legal_life_def)
    moreover have ne: "events_of p i (mi_events s) \<noteq> []" using that by auto
    ultimately have "ie_state (last (events_of p i (mi_events s))) = IS_RESOLVED" by (simp add: last_map)
    with ne show ?thesis
      by (simp add: mi_transitionIncident_def transition_draft_def Let_def srt events_of_def)
  qed
  ultimately show ?thesis using legal listed by auto
qed

section \<open>Examples\<close>

definition no_context :: log_context where
  "no_context = \<lparr>lc_attemptId = None, lc_workItemId = None, lc_stream = None, lc_metadata = None\<rparr>"

definition sample_logger :: memory_logger where
  "sample_logger = ml_log sample_sha (\<lambda>_. False) id ''p1'' ''r1'' ''second'' no_context None 5
     (ml_log sample_sha (\<lambda>_. False) id ''p1'' ''r1'' ''first'' no_context None 5 new_memory_logger)"

lemma sample_logger_reach: "ml_reach sample_sha (\<lambda>_. False) id sample_logger"
  unfolding sample_logger_def by (intro ml_step ml_start)

lemma sample_logger_logs:
  "map lg_projectId (ml_logs sample_logger) = [''p1'', ''p1'']" "map lg_runId (ml_logs sample_logger) = [''r1'', ''r1'']"
  "map lg_sequence (ml_logs sample_logger) = [1, 2]"
  by (simp_all add: sample_logger_def ml_log_def new_memory_logger_def Let_def)

lemma sample_logger_all:
  "\<forall>l \<in> set (ml_logs sample_logger). lg_projectId l = ''p1'' \<and> lg_runId l = ''r1''"
  by (simp add: sample_logger_def ml_log_def new_memory_logger_def Let_def)

theorem logged_chains_verify_witness:
  "verifyLogs sample_sha (ml_logs sample_logger) \<and> verifyLogs sample_sha (ml_getLogs ''p1'' (Some ''r1'') None None sample_logger)"
proof -
  have "\<forall>l \<in> set (ml_logs sample_logger). CHR '':'' \<notin> set (lg_projectId l)" using sample_logger_all by simp
  from logged_chains_verify [OF sample_logger_reach this] show ?thesis by blast
qed

text \<open>Altering the first record of the sample log makes the verifier fail.\<close>

definition altered_logs :: "log_record list" where
  "altered_logs = (hd (ml_logs sample_logger))\<lparr>lg_message := ''other''\<rparr> # tl (ml_logs sample_logger)"

lemma altered_logs_facts:
  "altered_logs \<noteq> []" "map lg_sequence altered_logs = [1, 2]" "lg_hash (last altered_logs) = lg_hash (last (ml_logs sample_logger))"
  "\<forall>l \<in> set altered_logs. lg_projectId l = ''p1'' \<and> lg_runId l = ''r1''"
  "altered_logs \<noteq> ml_logs sample_logger"
  by (simp_all add: altered_logs_def sample_logger_def ml_log_def new_memory_logger_def Let_def)
    (simp add: make_log_def seal_log_def)

theorem history_committed_witness: "\<not> verifyLogs sample_sha altered_logs"
proof
  assume bad: "verifyLogs sample_sha altered_logs"
  have good: "verifyLogs sample_sha (ml_logs sample_logger)"
    by (rule journal_verifies [OF sample_logger_reach])
  have "ml_logs sample_logger \<noteq> []" using sample_logger_logs(3) by auto
  from history_committed [OF good bad this altered_logs_facts(1)] altered_logs_facts sample_logger_all
    sample_logger_logs(3) sample_sha_good(2)
  have "ml_logs sample_logger = altered_logs" by auto
  with altered_logs_facts(5) show False by simp
qed

definition sample_incidents :: memory_incidents where
  "sample_incidents = snd (mi_resolveIncident sample_sha id ''p1'' ''i1'' ''fixed'' None None 9
     (snd (mi_openIncident sample_sha id ''i1'' ''p1'' ''r1'' ''down'' SV_HIGH None None None 5 new_memory_incidents)))"

lemma sample_incidents_reach: "mi_reach sample_sha id sample_incidents"
proof -
  have "mi_reach sample_sha id (snd (mi_openIncident sample_sha id ''i1'' ''p1'' ''r1'' ''down'' SV_HIGH None None None 5 new_memory_incidents))"
    by (rule mi_opened [OF mi_start]) (auto simp: new_memory_incidents_def events_of_def mi_openIncident_def mi_appendEvent_def Let_def)
  then show ?thesis unfolding sample_incidents_def by (rule mi_resolved) (rule prod.collapse [symmetric])
qed

theorem incident_lifecycle_witness:
  "fst (mi_transitionIncident sample_sha id ''p1'' ''i1'' IS_MITIGATED ''again'' None None 11 sample_incidents) =
     Inl (cannot_transition IS_RESOLVED IS_MITIGATED) \<and> verifyIncident sample_sha (mi_events sample_incidents)"
proof -
  have "map ie_state (events_of ''p1'' ''i1'' (mi_events sample_incidents)) = [IS_OPEN, IS_RESOLVED]"
    by (simp add: sample_incidents_def mi_resolveIncident_def mi_transitionIncident_def transition_draft_def
      mi_openIncident_def mi_appendEvent_def new_memory_incidents_def events_of_def Let_def)
  then have "IS_RESOLVED \<in> set (map ie_state (events_of ''p1'' ''i1'' (mi_events sample_incidents)))" by simp
  with incident_lifecycle [OF sample_incidents_reach, of "''p1''" "''i1''" IS_MITIGATED "''again''" None None 11]
  show ?thesis by auto
qed

text \<open>The end of a log can be cut off unnoticed: every prefix of a verified log of one run verifies.\<close>

lemma truncated_log_verifies:
  assumes "logs_chain.verified sha (xs @ ys)" shows "logs_chain.verified sha xs"
  using assms
proof (induction ys rule: rev_induct)
  case (snoc y ys)
  then show ?case using logs_chain.verified_snoc [of sha "xs @ ys" y] by simp
qed simp

end
