(* ===== verification/Durable_Journals.thy ===== *)
theory Durable_Journals
  imports Hash_Chains
begin

text \<open>
  The journals that are written to the database (\<^verbatim>\<open>packages/persistence/src/observability\<close>): the mutex
  that serialises their drains, the queue each of them keeps, the flush that persists it in batches with
  retries, and the Prisma logger and incident service. A flush gives up control wherever the code awaits: for the mutex, for the
  answer of the database, between retries. Records may be logged, other flushes begin and the tables change at all these points;
  the theorems are about every interleaving.
\<close>

section \<open>The mutex\<close>

text \<open>
  Callers are tickets. \<open>mx_granted\<close> lists the callers whose \<open>acquire\<close> has resolved, in that order;
  \<open>mx_released\<close> those whose release function has run (the flag \<open>released\<close> in its closure).
\<close>

record mutex =
  mx_locked :: bool
  mx_queue :: "nat list"
  mx_granted :: "nat list"
  mx_released :: "nat list"

definition new_mutex :: mutex where
  "new_mutex = \<lparr>mx_locked = False, mx_queue = [], mx_granted = [], mx_released = []\<rparr>"

definition mx_acquire :: "nat \<Rightarrow> mutex \<Rightarrow> mutex" where
  "mx_acquire t m =
     (if \<not> mx_locked m then m\<lparr>mx_locked := True, mx_granted := mx_granted m @ [t]\<rparr>
      else m\<lparr>mx_queue := mx_queue m @ [t]\<rparr>)"

definition mx_release :: "nat \<Rightarrow> mutex \<Rightarrow> mutex" where
  "mx_release t m =
     (if t \<in> set (mx_released m) then m
      else let m' = m\<lparr>mx_released := mx_released m @ [t]\<rparr> in
        case mx_queue m of
          next # rest \<Rightarrow> m'\<lparr>mx_queue := rest, mx_granted := mx_granted m @ [next]\<rparr>
        | [] \<Rightarrow> m'\<lparr>mx_locked := False\<rparr>)"

section \<open>Queues and their flush\<close>

record 'r drain_queue =
  dq_queue :: "'r list"
  dq_scheduled :: bool
  dq_lastError :: "exn option"

record queue_options =
  qo_batchSize :: "int option"
  qo_maxRetries :: "int option"
  qo_retryDelayMs :: "int option"
  qo_autoFlush :: "bool option"

definition empty_queue :: "'r drain_queue" where
  "empty_queue = \<lparr>dq_queue = [], dq_scheduled = False, dq_lastError = None\<rparr>"

definition scheduleFlush :: "'r drain_queue \<Rightarrow> 'r drain_queue" where
  "scheduleFlush q =
     (if dq_scheduled q \<or> dq_queue q = [] \<or> dq_lastError q \<noteq> None then q else q\<lparr>dq_scheduled := True\<rparr>)"

definition enqueue :: "queue_options \<Rightarrow> 'r \<Rightarrow> 'r drain_queue \<Rightarrow> 'r drain_queue" where
  "enqueue opts r q =
     (let q' = q\<lparr>dq_queue := dq_queue q @ [r]\<rparr> in if qo_autoFlush opts \<noteq> Some False then scheduleFlush q' else q')"

text \<open>\<open>slice(0, n)\<close>: a negative bound counts from the end.\<close>

definition slice0 :: "int \<Rightarrow> 'a list \<Rightarrow> 'a list" where
  "slice0 n xs = take (nat (if n < 0 then int (length xs) + n else n)) xs"

section \<open>The tables\<close>

text \<open>
  What the database looks at in a row: its primary key and, since migration 0011, its references to the project, the work item and
  the attempt. \<open>createMany\<close> with \<open>skipDuplicates\<close> leaves out a row whose id is already there; a row that goes in must have its parents, or
  none of them goes in.
\<close>

record 'r row_keys =
  rk_id :: "'r \<Rightarrow> string"
  rk_project :: "'r \<Rightarrow> string"
  rk_item :: "'r \<Rightarrow> string option"
  rk_attempt :: "'r \<Rightarrow> string option"

record 'r journal_table =
  tb_rows :: "'r list"
  tb_projects :: "string list"
  tb_items :: "string list"
  tb_attempts :: "string list"

definition insert_new :: "('r \<Rightarrow> string) \<Rightarrow> 'r list \<Rightarrow> 'r list \<Rightarrow> 'r list" where
  "insert_new key batch rows = fold (\<lambda>r rs. if key r \<in> key ` set rs then rs else rs @ [r]) batch rows"

definition missing :: "string option \<Rightarrow> string list \<Rightarrow> bool" where
  "missing parent ids = (case parent of None \<Rightarrow> False | Some i \<Rightarrow> i \<notin> set ids)"

definition orphan :: "'r row_keys \<Rightarrow> 'r journal_table \<Rightarrow> 'r \<Rightarrow> bool" where
  "orphan k t r \<longleftrightarrow> rk_project k r \<notin> set (tb_projects t) \<or> missing (rk_item k r) (tb_items t) \<or> missing (rk_attempt k r) (tb_attempts t)"

definition table_createMany :: "'r row_keys \<Rightarrow> 'r list \<Rightarrow> ('r journal_table, exn, unit) act" where
  "table_createMany k batch t =
     (let rows = insert_new (rk_id k) batch (tb_rows t) in
      case List.find (orphan k t) (drop (length (tb_rows t)) rows) of
        Some r \<Rightarrow> (Inl (ForeignKeyViolation (rk_id k r)), t)
      | None \<Rightarrow> (Inr (), t\<lparr>tb_rows := rows\<rparr>))"

section \<open>Flushes that overlap with logging and with each other\<close>

text \<open>
  Where a flush stands: it has called \<open>acquire\<close>; it awaits \<open>createMany\<close> of a batch, for the \<open>n\<close>-th time after the first; it has been
  answered; it waits before the next try; it is in a loop that neither awaits nor ends (a negative number of retries); it has
  returned or thrown. The ticket of a flush at the mutex is its place in \<open>jn_flushes\<close>. \<open>jn_task\<close> is the flush of the task that
  \<open>scheduleFlush\<close> has posted, once the task has begun; \<open>dq_scheduled\<close> is the flag \<open>scheduledFlushActive\<close>.
\<close>

datatype 'r flush_pc =
    FL_WAITS
  | FL_INSERTS "'r list" nat
  | FL_ANSWERED "'r list" nat "exn + unit"
  | FL_DELAYS "'r list" nat
  | FL_SPINS
  | FL_RETURNED "exn + unit"

record 'r journal =
  jn_drain :: "'r drain_queue"
  jn_mutex :: mutex
  jn_flushes :: "'r flush_pc list"
  jn_task :: "nat option"
  jn_table :: "'r journal_table"

definition batch_size :: "queue_options \<Rightarrow> int" where
  "batch_size opts = (case qo_batchSize opts of None \<Rightarrow> 100 | Some n \<Rightarrow> n)"

definition max_retries :: "queue_options \<Rightarrow> int" where
  "max_retries opts = (case qo_maxRetries opts of None \<Rightarrow> 0 | Some n \<Rightarrow> n)"

definition retry_delay :: "queue_options \<Rightarrow> int" where
  "retry_delay opts = (case qo_retryDelayMs opts of None \<Rightarrow> 10 | Some n \<Rightarrow> n)"

definition call_flush :: "'r journal \<Rightarrow> 'r journal" where
  "call_flush w = w\<lparr>jn_flushes := jn_flushes w @ [FL_WAITS], jn_mutex := mx_acquire (length (jn_flushes w)) (jn_mutex w)\<rparr>"

text \<open>The head of the drain loop, up to the next await or the return.\<close>

definition loop_top :: "queue_options \<Rightarrow> nat \<Rightarrow> 'r journal \<Rightarrow> 'r flush_pc \<times> 'r journal" where
  "loop_top opts t w =
     (if dq_queue (jn_drain w) = [] then (FL_RETURNED (Inr ()), w\<lparr>jn_mutex := mx_release t (jn_mutex w)\<rparr>)
      else if max_retries opts < 0 then (FL_SPINS, w)
      else (FL_INSERTS (slice0 (batch_size opts) (dq_queue (jn_drain w))) 0, w))"

text \<open>The batch leaves the queue, as it is by then, only after the insert has returned.\<close>

definition batch_stored :: "'r list \<Rightarrow> 'r journal \<Rightarrow> 'r journal" where
  "batch_stored batch w = w\<lparr>jn_drain := (jn_drain w)\<lparr>dq_queue := drop (length batch) (dq_queue (jn_drain w)), dq_lastError := None\<rparr>\<rparr>"

definition flush_fails :: "nat \<Rightarrow> exn \<Rightarrow> 'r journal \<Rightarrow> 'r journal" where
  "flush_fails t e w = w\<lparr>jn_drain := (jn_drain w)\<lparr>dq_lastError := Some e\<rparr>, jn_mutex := mx_release t (jn_mutex w)\<rparr>"

text \<open>The next stretch of the program in flush \<open>t\<close>; none while it waits for the mutex or the database.\<close>

fun resume_flush :: "queue_options \<Rightarrow> nat \<Rightarrow> 'r flush_pc \<Rightarrow> 'r journal \<Rightarrow> ('r flush_pc \<times> 'r journal) option" where
  "resume_flush opts t FL_WAITS w = (if t \<in> set (mx_granted (jn_mutex w)) then Some (loop_top opts t w) else None)"
| "resume_flush opts t (FL_INSERTS batch n) w = None"
| "resume_flush opts t (FL_ANSWERED batch n (Inr u)) w = Some (loop_top opts t (batch_stored batch w))"
| "resume_flush opts t (FL_ANSWERED batch n (Inl e)) w =
     Some (if int n + 1 \<le> max_retries opts
       then (if 0 < retry_delay opts then FL_DELAYS batch (n + 1) else FL_INSERTS batch (n + 1), w)
       else (FL_RETURNED (Inl e), flush_fails t e w))"
| "resume_flush opts t (FL_DELAYS batch n) w = Some (FL_INSERTS batch n, w)"
| "resume_flush opts t FL_SPINS w = None"
| "resume_flush opts t (FL_RETURNED r) w = None"

text \<open>The end of the posted task: errors stay in \<open>lastError\<close>; what was queued meanwhile is scheduled again.\<close>

definition task_ends :: "exn + unit \<Rightarrow> 'r journal \<Rightarrow> 'r journal" where
  "task_ends r w =
     (let d = (jn_drain w)\<lparr>dq_scheduled := False\<rparr> in
      w\<lparr>jn_task := None, jn_drain := (if r = Inr () \<and> dq_queue d \<noteq> [] \<and> \<not> mx_locked (jn_mutex w) then scheduleFlush d else d)\<rparr>)"

text \<open>
  What happens to a journal, labelled: a record is logged, a flush is called (by a caller or by the posted task), flush \<open>t\<close> makes a
  step, another program adds rows and changes the parents' tables, or something else. The database may fail a statement, also after
  it has stored the rows.
\<close>

datatype 'r journal_event = EV_LOG 'r | EV_CALL | EV_FLUSH nat | EV_ADDED "'r list" | EV_OTHER

definition with_flush :: "nat \<Rightarrow> 'r flush_pc \<Rightarrow> 'r journal \<Rightarrow> 'r journal" where
  "with_flush t pc w = w\<lparr>jn_flushes := (jn_flushes w)[t := pc]\<rparr>"

inductive journal_step :: "queue_options \<Rightarrow> 'r row_keys \<Rightarrow> 'r journal \<Rightarrow> 'r journal_event \<Rightarrow> 'r journal \<Rightarrow> bool" for opts k where
  js_log: "journal_step opts k w (EV_LOG r) (w\<lparr>jn_drain := enqueue opts r (jn_drain w)\<rparr>)"
| js_call: "journal_step opts k w EV_CALL (call_flush w)"
| js_task: "dq_scheduled (jn_drain w) \<Longrightarrow> jn_task w = None \<Longrightarrow>
    journal_step opts k w EV_CALL ((call_flush w)\<lparr>jn_task := Some (length (jn_flushes w))\<rparr>)"
| js_task_ends: "jn_task w = Some t \<Longrightarrow> t < length (jn_flushes w) \<Longrightarrow> jn_flushes w ! t = FL_RETURNED r \<Longrightarrow>
    journal_step opts k w EV_OTHER (task_ends r w)"
| js_resume: "t < length (jn_flushes w) \<Longrightarrow> resume_flush opts t (jn_flushes w ! t) w = Some (pc, w') \<Longrightarrow>
    journal_step opts k w (EV_FLUSH t) (with_flush t pc w')"
| js_insert: "t < length (jn_flushes w) \<Longrightarrow> jn_flushes w ! t = FL_INSERTS batch n \<Longrightarrow> table_createMany k batch (jn_table w) = (r, tb) \<Longrightarrow>
    journal_step opts k w (EV_FLUSH t) (with_flush t (FL_ANSWERED batch n r) (w\<lparr>jn_table := tb\<rparr>))"
| js_insert_fails: "t < length (jn_flushes w) \<Longrightarrow> jn_flushes w ! t = FL_INSERTS batch n \<Longrightarrow>
    tb = jn_table w \<or> tb = snd (table_createMany k batch (jn_table w)) \<Longrightarrow>
    journal_step opts k w (EV_FLUSH t) (with_flush t (FL_ANSWERED batch n (Inl e)) (w\<lparr>jn_table := tb\<rparr>))"
| js_clear: "journal_step opts k w EV_OTHER (w\<lparr>jn_drain := (jn_drain w)\<lparr>dq_lastError := None\<rparr>\<rparr>)"
| js_schedule: "journal_step opts k w EV_OTHER (w\<lparr>jn_drain := scheduleFlush (jn_drain w)\<rparr>)"
| js_table: "tb_rows tb = tb_rows (jn_table w) @ rows \<Longrightarrow> journal_step opts k w (EV_ADDED rows) (w\<lparr>jn_table := tb\<rparr>)"

inductive journal_run :: "queue_options \<Rightarrow> 'r row_keys \<Rightarrow> 'r journal \<Rightarrow> 'r journal_event list \<Rightarrow> 'r journal \<Rightarrow> bool" for opts k where
  jr_here: "journal_run opts k w [] w"
| jr_next: "journal_run opts k w evs w' \<Longrightarrow> journal_step opts k w' ev w'' \<Longrightarrow> journal_run opts k w (evs @ [ev]) w''"

definition new_journal :: "'r journal_table \<Rightarrow> 'r journal" where
  "new_journal tb = \<lparr>jn_drain = empty_queue, jn_mutex = new_mutex, jn_flushes = [], jn_task = None, jn_table = tb\<rparr>"

definition logged_in :: "'r journal_event list \<Rightarrow> 'r list" where
  "logged_in evs = concat (map (\<lambda>ev. case ev of EV_LOG r \<Rightarrow> [r] | _ \<Rightarrow> []) evs)"

definition added_in :: "'r journal_event list \<Rightarrow> 'r list" where
  "added_in evs = concat (map (\<lambda>ev. case ev of EV_ADDED rs \<Rightarrow> rs | _ \<Rightarrow> []) evs)"

text \<open>A schedule in which callers call and the database answers without errors, as a function.\<close>

fun turn :: "queue_options \<Rightarrow> 'r row_keys \<Rightarrow> 'r journal_event \<Rightarrow> 'r journal \<Rightarrow> 'r journal option" where
  "turn opts k (EV_LOG r) w = Some (w\<lparr>jn_drain := enqueue opts r (jn_drain w)\<rparr>)"
| "turn opts k EV_CALL w = Some (call_flush w)"
| "turn opts k (EV_FLUSH t) w =
     (if length (jn_flushes w) \<le> t then None
      else case jn_flushes w ! t of
        FL_INSERTS batch n \<Rightarrow> (case table_createMany k batch (jn_table w) of
          (r, tb) \<Rightarrow> Some (with_flush t (FL_ANSWERED batch n r) (w\<lparr>jn_table := tb\<rparr>)))
      | pc \<Rightarrow> (case resume_flush opts t pc w of None \<Rightarrow> None | Some (pc', w') \<Rightarrow> Some (with_flush t pc' w')))"
| "turn opts k (EV_ADDED rows) w = Some (w\<lparr>jn_table := (jn_table w)\<lparr>tb_rows := tb_rows (jn_table w) @ rows\<rparr>\<rparr>)"
| "turn opts k EV_OTHER w = None"

definition turns :: "queue_options \<Rightarrow> 'r row_keys \<Rightarrow> 'r journal_event list \<Rightarrow> 'r journal \<Rightarrow> 'r journal option" where
  "turns opts k evs w = fold (\<lambda>ev s. case s of None \<Rightarrow> None | Some w \<Rightarrow> turn opts k ev w) evs (Some w)"

section \<open>The Prisma logger\<close>

record durable_logger =
  du_drain :: "log_record drain_queue"
  du_seqs :: "(string, int) jsmap"
  du_lastHashes :: "(string, string) jsmap"

definition new_durable_logger :: durable_logger where
  "new_durable_logger = \<lparr>du_drain = empty_queue, du_seqs = [], du_lastHashes = []\<rparr>"

text \<open>\<open>initialize\<close> reads the latest row of the run; without one the last hash becomes the empty text.\<close>

definition latest_log :: "string \<Rightarrow> string \<Rightarrow> log_record list \<Rightarrow> log_record option" where
  "latest_log projectId runId rows =
     (case rev (sort_key lg_sequence (filter (\<lambda>l. lg_projectId l = projectId \<and> lg_runId l = runId) rows)) of
        [] \<Rightarrow> None | l # _ \<Rightarrow> Some l)"

definition du_initialize :: "string \<Rightarrow> string \<Rightarrow> log_record list \<Rightarrow> durable_logger \<Rightarrow> durable_logger" where
  "du_initialize projectId runId rows s =
     (let key = chain_key projectId runId; latest = latest_log projectId runId rows in
      s\<lparr>du_seqs := jm_set key (case latest of None \<Rightarrow> 0 | Some l \<Rightarrow> lg_sequence l) (du_seqs s),
        du_lastHashes := jm_set key (case latest of None \<Rightarrow> [] | Some l \<Rightarrow> lg_hash l) (du_lastHashes s)\<rparr>)"

definition du_log :: "(string \<Rightarrow> string) \<Rightarrow> (string \<Rightarrow> bool) \<Rightarrow> (string \<Rightarrow> string) \<Rightarrow> queue_options \<Rightarrow> string \<Rightarrow> string \<Rightarrow> string \<Rightarrow>
    log_context \<Rightarrow> string option \<Rightarrow> int \<Rightarrow> durable_logger \<Rightarrow> durable_logger" where
  "du_log sha sensitive redact opts projectId runId message ctx fid now s =
     (let key = chain_key projectId runId; n = (case jm_get (du_seqs s) key of None \<Rightarrow> 0 | Some k \<Rightarrow> k) + 1;
          l = make_log sha sensitive redact projectId runId message ctx fid now n (jm_get (du_lastHashes s) key)
      in \<lparr>du_drain = enqueue opts l (du_drain s), du_seqs = jm_set key n (du_seqs s),
          du_lastHashes = jm_set key (lg_hash l) (du_lastHashes s)\<rparr>)"

definition log_keys :: "log_record row_keys" where
  "log_keys = \<lparr>rk_id = lg_id, rk_project = lg_projectId, rk_item = lg_workItemId, rk_attempt = lg_attemptId\<rparr>"

text \<open>Rows are returned by sequence; what the database made of the metadata is the function \<open>db_json\<close>.\<close>

definition getLogsAsync :: "((string \<times> json) list \<Rightarrow> (string \<times> json) list) \<Rightarrow> string \<Rightarrow> string option \<Rightarrow> string option \<Rightarrow>
    string option \<Rightarrow> log_record journal_table \<Rightarrow> log_record list" where
  "getLogsAsync db_json projectId run attempt item t =
     map (\<lambda>l. l\<lparr>lg_metadata := map_option db_json (lg_metadata l)\<rparr>)
       (sort_key lg_sequence (filter (\<lambda>l. lg_projectId l = projectId \<and> filter_matches run (Some (lg_runId l)) \<and>
         filter_matches attempt (lg_attemptId l) \<and> filter_matches item (lg_workItemId l)) (tb_rows t)))"

section \<open>The Prisma incident service\<close>

record durable_incidents =
  dn_drain :: "incident_event drain_queue"
  dn_seqs :: "(string, int) jsmap"
  dn_lastHashes :: "(string, string) jsmap"
  dn_events :: "incident_event list"

definition new_durable_incidents :: durable_incidents where
  "new_durable_incidents = \<lparr>dn_drain = empty_queue, dn_seqs = [], dn_lastHashes = [], dn_events = []\<rparr>"

definition dn_initialize :: "string \<Rightarrow> incident_event list \<Rightarrow> durable_incidents \<Rightarrow> durable_incidents" where
  "dn_initialize projectId rows s =
     fold (\<lambda>e s. s\<lparr>dn_seqs := jm_set (incident_key e) (ie_sequence e) (dn_seqs s),
         dn_lastHashes := jm_set (incident_key e) (ie_hash e) (dn_lastHashes s), dn_events := dn_events s @ [e]\<rparr>)
       (sort_key ie_sequence (filter (\<lambda>e. ie_projectId e = projectId) rows)) s"

definition dn_appendEvent :: "(string \<Rightarrow> string) \<Rightarrow> (string \<Rightarrow> string) \<Rightarrow> queue_options \<Rightarrow> event_draft \<Rightarrow> string option \<Rightarrow> int \<Rightarrow>
    (durable_incidents, exn, incident_event) act" where
  "dn_appendEvent sha redact opts d fid now s =
     (let key = chain_key (dr_projectId d) (dr_incidentId d);
          n = (case jm_get (dn_seqs s) key of None \<Rightarrow> 0 | Some k \<Rightarrow> k) + 1;
          e = make_event sha redact d fid now n (jm_get (dn_lastHashes s) key)
      in (Inr e, \<lparr>dn_drain = enqueue opts e (dn_drain s), dn_seqs = jm_set key n (dn_seqs s),
            dn_lastHashes = jm_set key (ie_hash e) (dn_lastHashes s), dn_events = dn_events s @ [e]\<rparr>))"

definition dn_openIncident :: "(string \<Rightarrow> string) \<Rightarrow> (string \<Rightarrow> string) \<Rightarrow> queue_options \<Rightarrow> string \<Rightarrow> string \<Rightarrow> string \<Rightarrow> string \<Rightarrow>
    incident_severity \<Rightarrow> string option \<Rightarrow> string option \<Rightarrow> string option \<Rightarrow> int \<Rightarrow> (durable_incidents, exn, incident_event) act" where
  "dn_openIncident sha redact opts incidentId projectId runId description severity attempt item fid now =
     dn_appendEvent sha redact opts \<lparr>dr_incidentId = incidentId, dr_projectId = projectId, dr_runId = runId,
       dr_attemptId = attempt, dr_workItemId = item, dr_state = IS_OPEN, dr_severity = severity,
       dr_description = description, dr_resolutionClaim = None, dr_recoveryEvidenceId = None\<rparr> fid now"

definition dn_transitionIncident :: "(string \<Rightarrow> string) \<Rightarrow> (string \<Rightarrow> string) \<Rightarrow> queue_options \<Rightarrow> string \<Rightarrow> string \<Rightarrow>
    incident_state \<Rightarrow> string \<Rightarrow> string option \<Rightarrow> string option \<Rightarrow> int \<Rightarrow> (durable_incidents, exn, incident_event) act" where
  "dn_transitionIncident sha redact opts projectId incidentId to claim recovery fid now s =
     (case transition_draft (dn_events s) projectId incidentId to claim recovery of
        Inl e \<Rightarrow> (Inl e, s) | Inr d \<Rightarrow> dn_appendEvent sha redact opts d fid now s)"

definition dn_mitigateIncident :: "(string \<Rightarrow> string) \<Rightarrow> (string \<Rightarrow> string) \<Rightarrow> queue_options \<Rightarrow> string \<Rightarrow> string \<Rightarrow> string \<Rightarrow>
    string option \<Rightarrow> string option \<Rightarrow> int \<Rightarrow> (durable_incidents, exn, incident_event) act" where
  "dn_mitigateIncident sha redact opts projectId incidentId claim recovery =
     dn_transitionIncident sha redact opts projectId incidentId IS_MITIGATED claim recovery"

definition dn_resolveIncident :: "(string \<Rightarrow> string) \<Rightarrow> (string \<Rightarrow> string) \<Rightarrow> queue_options \<Rightarrow> string \<Rightarrow> string \<Rightarrow> string \<Rightarrow>
    string option \<Rightarrow> string option \<Rightarrow> int \<Rightarrow> (durable_incidents, exn, incident_event) act" where
  "dn_resolveIncident sha redact opts projectId incidentId claim recovery =
     dn_transitionIncident sha redact opts projectId incidentId IS_RESOLVED claim recovery"

text \<open>Its flush and its posted task are those of the logger, over its own table.\<close>

definition incident_keys :: "incident_event row_keys" where
  "incident_keys = \<lparr>rk_id = ie_id, rk_project = ie_projectId, rk_item = ie_workItemId, rk_attempt = ie_attemptId\<rparr>"

definition listIncidentEventsAsync :: "string \<Rightarrow> incident_event journal_table \<Rightarrow> incident_event list" where
  "listIncidentEventsAsync projectId t = sort_key ie_sequence (filter (\<lambda>e. ie_projectId e = projectId) (tb_rows t))"

definition sync_read_unsupported :: "string \<Rightarrow> exn" where
  "sync_read_unsupported m = GenericError m"

definition du_getLogs :: "exn + log_record list" where
  "du_getLogs = Inl (sync_read_unsupported ''Sync getLogs not supported on Prisma logger. Use getLogsAsync.'')"

definition dn_listIncidentEvents :: "exn + incident_event list" where
  "dn_listIncidentEvents = Inl (sync_read_unsupported ''Sync listIncidentEvents not supported. Use listIncidentEventsAsync'')"

section \<open>Exclusion and order of the mutex\<close>

text \<open>\<open>mx_reach ts m\<close>: the callers \<open>ts\<close> have asked in that order; only a granted caller has a release function.\<close>

inductive mx_reach :: "nat list \<Rightarrow> mutex \<Rightarrow> bool" where
  mx_start: "mx_reach [] new_mutex"
| mx_ask: "mx_reach ts m \<Longrightarrow> t \<notin> set ts \<Longrightarrow> mx_reach (ts @ [t]) (mx_acquire t m)"
| mx_let_go: "mx_reach ts m \<Longrightarrow> t \<in> set (mx_granted m) \<Longrightarrow> mx_reach ts (mx_release t m)"

definition holders :: "mutex \<Rightarrow> nat list" where
  "holders m = filter (\<lambda>t. t \<notin> set (mx_released m)) (mx_granted m)"

definition mx_inv :: "nat list \<Rightarrow> mutex \<Rightarrow> bool" where
  "mx_inv ts m \<longleftrightarrow> distinct ts \<and> mx_granted m @ mx_queue m = ts \<and> set (mx_released m) \<subseteq> set (mx_granted m) \<and>
     length (holders m) = (if mx_locked m then 1 else 0) \<and> (\<not> mx_locked m \<longrightarrow> mx_queue m = [])"

lemma mx_inv_acquire:
  assumes "mx_inv ts m" "t \<notin> set ts"
  shows "mx_inv (ts @ [t]) (mx_acquire t m)"
proof -
  have "t \<notin> set (mx_released m)" using assms by (auto simp: mx_inv_def)
  then show ?thesis using assms by (auto simp: mx_inv_def mx_acquire_def holders_def)
qed

lemma holders_remove:
  assumes "distinct (mx_granted m)" "t \<in> set (holders m)" "length (holders m) = 1"
  shows "filter (\<lambda>u. u \<noteq> t \<and> u \<notin> set (mx_released m)) (mx_granted m) = []"
proof -
  obtain u where "holders m = [u]" using assms(3) by (auto simp: length_Suc_conv)
  then have "holders m = [t]" using assms(2) by simp
  moreover have "filter (\<lambda>u. u \<noteq> t \<and> u \<notin> set (mx_released m)) (mx_granted m) = filter (\<lambda>u. u \<noteq> t) (holders m)"
    by (simp add: holders_def conj_commute)
  ultimately show ?thesis by simp
qed

lemma mx_inv_release:
  assumes inv: "mx_inv ts m" and t: "t \<in> set (mx_granted m)"
  shows "mx_inv ts (mx_release t m)"
proof (cases "t \<in> set (mx_released m)")
  case True
  then show ?thesis using inv by (simp add: mx_release_def)
next
  case False
  have d: "distinct (mx_granted m)" "distinct (mx_granted m @ mx_queue m)" using inv by (auto simp: mx_inv_def)
  have h: "t \<in> set (holders m)" using False t by (simp add: holders_def)
  then have one: "length (holders m) = 1" and locked: "mx_locked m"
    using inv by (auto simp: mx_inv_def split: if_splits)
  note gone = holders_remove[OF d(1) h one]
  show ?thesis
  proof (cases "mx_queue m")
    case Nil
    then show ?thesis using inv t False gone
      by (auto simp: mx_inv_def mx_release_def holders_def conj_commute)
  next
    case (Cons n rest)
    then have "n \<notin> set (mx_granted m)" using d(2) by auto
    then have "n \<noteq> t" "n \<notin> set (mx_released m)" using inv t by (auto simp: mx_inv_def)
    then show ?thesis using inv t False Cons gone locked
      by (auto simp: mx_inv_def mx_release_def holders_def)
  qed
qed

lemma mx_reach_inv: "mx_reach ts m \<Longrightarrow> mx_inv ts m"
proof (induction rule: mx_reach.induct)
  case mx_start
  then show ?case by (simp add: mx_inv_def new_mutex_def holders_def)
qed (auto intro: mx_inv_acquire mx_inv_release)

section \<open>What a flush delivers\<close>

lemma insert_new_append: "insert_new key (xs @ ys) rows = insert_new key ys (insert_new key xs rows)"
  by (simp add: insert_new_def)

lemma insert_new_Nil [simp]: "insert_new key [] rows = rows"
  by (simp add: insert_new_def)

lemma slice0_split: "slice0 n xs @ drop (length (slice0 n xs)) xs = xs"
  by (simp add: slice0_def min_def)

lemma slice0_nonempty: "0 < n \<Longrightarrow> xs \<noteq> [] \<Longrightarrow> slice0 n xs \<noteq> []"
  by (simp add: slice0_def)

definition row_ids :: "'r row_keys \<Rightarrow> 'r journal \<Rightarrow> string set" where
  "row_ids k w = rk_id k ` set (tb_rows (jn_table w))"

lemma insert_new_rows: "\<exists>new. insert_new key batch rows = rows @ new \<and> key ` set batch \<subseteq> key ` set (rows @ new) \<and> set new \<subseteq> set batch"
proof (induction batch arbitrary: rows)
  case (Cons r batch)
  let ?rows = "if key r \<in> key ` set rows then rows else rows @ [r]"
  obtain new where "insert_new key batch ?rows = ?rows @ new" "key ` set batch \<subseteq> key ` set (?rows @ new)" "set new \<subseteq> set batch"
    using Cons.IH [of ?rows] by blast
  then show ?case by (intro exI [of _ "drop (length rows) ?rows @ new"]) (auto simp: insert_new_def dest: subsetD [OF _ imageI])
qed simp

lemma createMany_rows:
  assumes "table_createMany k batch tb = (r, tb')"
  shows "\<exists>new. tb_rows tb' = tb_rows tb @ new" "r = Inr u \<Longrightarrow> rk_id k ` set batch \<subseteq> rk_id k ` set (tb_rows tb')"
    "set (tb_rows tb') \<subseteq> set (tb_rows tb) \<union> set batch"
  using assms insert_new_rows [of "rk_id k" batch "tb_rows tb"]
  by (auto simp: table_createMany_def Let_def split: option.splits)

text \<open>
  What holds of a flush at any time. One in the loop holds the mutex, its batch is not empty and stands at the head of the queue, and
  once the insert has succeeded the ids of the batch are in the table.
\<close>

definition batch_ok :: "queue_options \<Rightarrow> 'r journal \<Rightarrow> nat \<Rightarrow> 'r list \<Rightarrow> nat \<Rightarrow> bool" where
  "batch_ok opts w t b n \<longleftrightarrow> t \<in> set (holders (jn_mutex w)) \<and> b \<noteq> [] \<and> (\<exists>rest. dq_queue (jn_drain w) = b @ rest) \<and> int n \<le> max_retries opts"

definition flush_ok :: "queue_options \<Rightarrow> 'r row_keys \<Rightarrow> 'r journal \<Rightarrow> nat \<Rightarrow> 'r flush_pc \<Rightarrow> bool" where
  "flush_ok opts k w t pc = (case pc of
     FL_WAITS \<Rightarrow> t \<notin> set (mx_released (jn_mutex w))
   | FL_INSERTS b n \<Rightarrow> batch_ok opts w t b n
   | FL_ANSWERED b n r \<Rightarrow> batch_ok opts w t b n \<and> (r = Inr () \<longrightarrow> rk_id k ` set b \<subseteq> row_ids k w)
   | FL_DELAYS b n \<Rightarrow> batch_ok opts w t b n
   | FL_SPINS \<Rightarrow> False
   | FL_RETURNED r \<Rightarrow> t \<in> set (mx_released (jn_mutex w)))"

definition sent_ok :: "'r row_keys \<Rightarrow> 'r list \<Rightarrow> 'r journal \<Rightarrow> bool" where
  "sent_ok k logged w \<longleftrightarrow> (\<exists>sent. logged = sent @ dq_queue (jn_drain w) \<and> rk_id k ` set sent \<subseteq> row_ids k w)"

definition journal_inv :: "queue_options \<Rightarrow> 'r row_keys \<Rightarrow> 'r list \<Rightarrow> 'r journal \<Rightarrow> bool" where
  "journal_inv opts k logged w \<longleftrightarrow> mx_inv [0..<length (jn_flushes w)] (jn_mutex w) \<and>
     (\<forall>t < length (jn_flushes w). flush_ok opts k w t (jn_flushes w ! t)) \<and> sent_ok k logged w"

lemma one_holder: "mx_inv ts m \<Longrightarrow> t \<in> set (holders m) \<Longrightarrow> u \<in> set (holders m) \<Longrightarrow> u = t"
proof -
  assume "mx_inv ts m" "t \<in> set (holders m)" "u \<in> set (holders m)"
  moreover from this have "length (holders m) = 1" by (cases "mx_locked m") (auto simp: mx_inv_def)
  ultimately show ?thesis by (auto simp: length_Suc_conv)
qed

text \<open>Only the holder is in the loop; the others wait or have returned.\<close>

lemma others_idle:
  assumes "journal_inv opts k logged w" "t \<in> set (holders (jn_mutex w))" "u < length (jn_flushes w)" "u \<noteq> t"
  shows "jn_flushes w ! u = FL_WAITS \<or> (\<exists>r. jn_flushes w ! u = FL_RETURNED r)"
proof -
  have "flush_ok opts k w u (jn_flushes w ! u)" "mx_inv [0..<length (jn_flushes w)] (jn_mutex w)"
    using assms(1,3) by (simp_all add: journal_inv_def)
  then show ?thesis using one_holder [OF _ assms(2), of _ u] assms(4)
    by (cases "jn_flushes w ! u") (auto simp: flush_ok_def batch_ok_def)
qed

text \<open>A step of the holder: the others only look at who has released the mutex.\<close>

lemma holder_step:
  assumes inv: "journal_inv opts k logged w" and t: "t \<in> set (holders (jn_mutex w))" "t < length (jn_flushes w)"
    and mx: "mx_inv [0..<length (jn_flushes w)] (jn_mutex w')" "set (mx_released (jn_mutex w)) \<subseteq> set (mx_released (jn_mutex w'))"
      "set (mx_released (jn_mutex w')) \<subseteq> insert t (set (mx_released (jn_mutex w)))"
    and fl: "jn_flushes w' = jn_flushes w" and ok: "flush_ok opts k w' t pc" and sent: "sent_ok k logged w'"
  shows "journal_inv opts k logged (with_flush t pc w')"
proof -
  have same: "flush_ok opts k (with_flush t pc w') = flush_ok opts k w'" "sent_ok k logged (with_flush t pc w') = sent_ok k logged w'"
    by (simp_all add: fun_eq_iff flush_ok_def batch_ok_def sent_ok_def row_ids_def with_flush_def split: flush_pc.split)
  have "flush_ok opts k w' u (jn_flushes w ! u)" if u: "u < length (jn_flushes w)" "u \<noteq> t" for u
  proof -
    have "flush_ok opts k w u (jn_flushes w ! u)" using inv u(1) by (simp add: journal_inv_def)
    then show ?thesis using others_idle [OF inv t(1) u] mx(2,3) u(2) by (auto simp: flush_ok_def)
  qed
  then show ?thesis unfolding journal_inv_def same using mx(1) ok sent t(2) fl
    by (auto simp: with_flush_def nth_list_update)
qed


text \<open>Releasing the mutex and going on in the loop.\<close>

lemma release_sets:
  assumes "mx_inv ts m" "t \<in> set (holders m)"
  shows "mx_inv ts (mx_release t m)" "set (mx_released (mx_release t m)) = insert t (set (mx_released m))"
proof -
  have t: "t \<in> set (mx_granted m)" "t \<notin> set (mx_released m)" using assms(2) by (auto simp: holders_def)
  show "mx_inv ts (mx_release t m)" by (rule mx_inv_release [OF assms(1) t(1)])
  show "set (mx_released (mx_release t m)) = insert t (set (mx_released m))"
    using t(2) by (auto simp: mx_release_def Let_def split: list.split)
qed

lemma loop_top_step:
  assumes inv: "journal_inv opts k logged w" and t: "t \<in> set (holders (jn_mutex w))" "t < length (jn_flushes w)"
    and w1: "jn_mutex w1 = jn_mutex w" "jn_flushes w1 = jn_flushes w" "sent_ok k logged w1"
    and opts: "0 < batch_size opts" "0 \<le> max_retries opts" and top: "loop_top opts t w1 = (pc, w')"
  shows "journal_inv opts k logged (with_flush t pc w')"
proof -
  have mx: "mx_inv [0..<length (jn_flushes w)] (jn_mutex w)" using inv by (simp add: journal_inv_def)
  note rel = release_sets [OF mx t(1)]
  show ?thesis
  proof (cases "dq_queue (jn_drain w1) = []")
    case True
    then have r: "pc = FL_RETURNED (Inr ())" "w' = w1\<lparr>jn_mutex := mx_release t (jn_mutex w)\<rparr>" using top w1(1) by (auto simp: loop_top_def)
    show ?thesis
      by (rule holder_step [OF inv t]) (use rel w1 in \<open>auto simp: r flush_ok_def sent_ok_def row_ids_def\<close>)
  next
    case False
    let ?b = "slice0 (batch_size opts) (dq_queue (jn_drain w1))"
    have r: "pc = FL_INSERTS ?b 0" "w' = w1" using top False opts(2) by (auto simp: loop_top_def)
    have "\<exists>rest. dq_queue (jn_drain w1) = ?b @ rest" using slice0_split [of "batch_size opts" "dq_queue (jn_drain w1)"] by metis
    moreover have "?b \<noteq> []" using slice0_nonempty [OF opts(1) False] .
    ultimately have "flush_ok opts k w1 t pc" using t(1) w1(1) opts(2) by (simp add: r flush_ok_def batch_ok_def)
    then show ?thesis unfolding r(2) by (intro holder_step [OF inv t]) (use mx w1 in auto)
  qed
qed

lemma stored_sent:
  assumes "sent_ok k logged w" "dq_queue (jn_drain w) = b @ rest" "rk_id k ` set b \<subseteq> row_ids k w"
  shows "sent_ok k logged (batch_stored b w)"
proof -
  obtain sent where "logged = sent @ dq_queue (jn_drain w)" "rk_id k ` set sent \<subseteq> row_ids k w" using assms(1) by (auto simp: sent_ok_def)
  then show ?thesis using assms(2,3)
    by (auto simp: sent_ok_def batch_stored_def row_ids_def intro!: exI [of _ "sent @ b"])
qed

lemma resume_keeps:
  assumes inv: "journal_inv opts k logged w" and t: "t < length (jn_flushes w)"
    and opts: "0 < batch_size opts" "0 \<le> max_retries opts"
    and step: "resume_flush opts t (jn_flushes w ! t) w = Some (pc, w')"
  shows "journal_inv opts k logged (with_flush t pc w')"
proof -
  have mx: "mx_inv [0..<length (jn_flushes w)] (jn_mutex w)" and sent: "sent_ok k logged w" using inv by (simp_all add: journal_inv_def)
  have ok: "flush_ok opts k w t (jn_flushes w ! t)" using inv t by (simp add: journal_inv_def)
  show ?thesis
  proof (cases "jn_flushes w ! t")
    case FL_WAITS
    then have "t \<in> set (holders (jn_mutex w))" using ok step by (auto simp: flush_ok_def holders_def split: if_splits)
    from loop_top_step [OF inv this t refl refl sent opts] show ?thesis using step FL_WAITS by (auto split: if_splits)
  next
    case (FL_ANSWERED b n r)
    then have b: "batch_ok opts w t b n" using ok by (simp add: flush_ok_def)
    then have h: "t \<in> set (holders (jn_mutex w))" by (simp add: batch_ok_def)
    show ?thesis
    proof (cases r)
      case (Inr u)
      obtain rest where rest: "dq_queue (jn_drain w) = b @ rest" using b by (auto simp: batch_ok_def)
      have "rk_id k ` set b \<subseteq> row_ids k w" using ok FL_ANSWERED Inr by (simp add: flush_ok_def)
      note st = stored_sent [OF sent rest this]
      have "loop_top opts t (batch_stored b w) = (pc, w')" using step FL_ANSWERED Inr by simp
      from loop_top_step [OF inv h t _ _ st opts this] show ?thesis by (simp add: batch_stored_def)
    next
      case (Inl e)
      show ?thesis
      proof (cases "int n + 1 \<le> max_retries opts")
        case True
        then have "w' = w" "flush_ok opts k w t pc" using step FL_ANSWERED Inl b by (auto simp: flush_ok_def batch_ok_def)
        then show ?thesis using holder_step [OF inv h t, of w pc] mx sent by auto
      next
        case False
        then have r: "pc = FL_RETURNED (Inl e)" "w' = flush_fails t e w" using step FL_ANSWERED Inl by auto
        have "sent_ok k logged (flush_fails t e w)" using sent by (simp add: sent_ok_def flush_fails_def row_ids_def)
        then show ?thesis using release_sets [OF mx h]
          by (intro holder_step [OF inv h t]) (auto simp: r flush_fails_def flush_ok_def)
      qed
    qed
  next
    case (FL_DELAYS b n)
    then have b: "batch_ok opts w t b n" using ok by (simp add: flush_ok_def)
    then have h: "t \<in> set (holders (jn_mutex w))" by (simp add: batch_ok_def)
    have "w' = w" "flush_ok opts k w t pc" using step FL_DELAYS b by (auto simp: flush_ok_def)
    then show ?thesis using holder_step [OF inv h t, of w pc] mx sent by auto
  qed (use step in auto)
qed

lemma sent_kept:
  assumes "sent_ok k logged w" "dq_queue (jn_drain w') = dq_queue (jn_drain w) @ rs" "tb_rows (jn_table w') = tb_rows (jn_table w) @ new"
  shows "sent_ok k (logged @ rs) w'"
proof -
  obtain sent where s: "logged = sent @ dq_queue (jn_drain w)" "rk_id k ` set sent \<subseteq> row_ids k w" using assms(1) by (auto simp: sent_ok_def)
  moreover have "row_ids k w \<subseteq> row_ids k w'" using assms(3) by (auto simp: row_ids_def)
  ultimately show ?thesis unfolding sent_ok_def using assms(2) by (intro exI [of _ sent]) auto
qed

text \<open>An answer of the database; rows are only added.\<close>

lemma answer_keeps:
  assumes inv: "journal_inv opts k logged w" and t: "t < length (jn_flushes w)" "jn_flushes w ! t = FL_INSERTS b n"
    and rows: "tb_rows tb = tb_rows (jn_table w) @ new" and r: "r = Inr () \<longrightarrow> rk_id k ` set b \<subseteq> rk_id k ` set (tb_rows tb)"
  shows "journal_inv opts k logged (with_flush t (FL_ANSWERED b n r) (w\<lparr>jn_table := tb\<rparr>))"
proof -
  have mx: "mx_inv [0..<length (jn_flushes w)] (jn_mutex w)" and sent: "sent_ok k logged w" using inv by (simp_all add: journal_inv_def)
  have ok: "batch_ok opts w t b n" using inv t by (fastforce simp: journal_inv_def flush_ok_def)
  then have h: "t \<in> set (holders (jn_mutex w))" by (simp add: batch_ok_def)
  have "sent_ok k logged (w\<lparr>jn_table := tb\<rparr>)" using sent_kept [OF sent, of "w\<lparr>jn_table := tb\<rparr>" "[]" new] rows by simp
  moreover have "flush_ok opts k (w\<lparr>jn_table := tb\<rparr>) t (FL_ANSWERED b n r)"
    using ok r by (simp add: flush_ok_def batch_ok_def row_ids_def)
  ultimately show ?thesis using mx by (intro holder_step [OF inv h t(1)]) auto
qed

text \<open>What does not touch the flushes: the queue may grow, and the table, and the flags change.\<close>

lemma outside_keeps:
  assumes inv: "journal_inv opts k logged w" and w': "jn_mutex w' = jn_mutex w" "jn_flushes w' = jn_flushes w"
    "dq_queue (jn_drain w') = dq_queue (jn_drain w) @ rs" "tb_rows (jn_table w') = tb_rows (jn_table w) @ new"
  shows "journal_inv opts k (logged @ rs) w'"
proof -
  have "flush_ok opts k w' t pc" if "flush_ok opts k w t pc" for t pc
    using that w' by (auto simp: flush_ok_def batch_ok_def row_ids_def split: flush_pc.splits)
  moreover have "sent_ok k (logged @ rs) w'" using inv sent_kept [OF _ w'(3,4)] by (simp add: journal_inv_def)
  ultimately show ?thesis using inv w' by (simp add: journal_inv_def)
qed

lemma call_keeps: "journal_inv opts k logged w \<Longrightarrow> journal_inv opts k logged (call_flush w)"
proof -
  assume inv: "journal_inv opts k logged w"
  let ?t = "length (jn_flushes w)" and ?m = "mx_acquire (length (jn_flushes w)) (jn_mutex w)"
  have mx: "mx_inv [0..<?t] (jn_mutex w)" using inv by (simp add: journal_inv_def)
  have m: "mx_inv [0..<Suc ?t] ?m" using mx_inv_acquire [OF mx, of ?t] by simp
  have rel: "mx_released ?m = mx_released (jn_mutex w)" "set (mx_granted (jn_mutex w)) \<subseteq> set (mx_granted ?m)"
    by (auto simp: mx_acquire_def)
  then have h: "set (holders (jn_mutex w)) \<subseteq> set (holders ?m)" by (auto simp: holders_def)
  have "set (mx_granted (jn_mutex w)) \<subseteq> set (mx_granted (jn_mutex w) @ mx_queue (jn_mutex w))" by simp
  then have new: "?t \<notin> set (mx_released (jn_mutex w))" using mx unfolding mx_inv_def by fastforce
  have "flush_ok opts k (call_flush w) u pc" if "flush_ok opts k w u pc" for u pc
    using that h rel(1) by (auto simp: flush_ok_def batch_ok_def row_ids_def call_flush_def split: flush_pc.splits)
  moreover have "flush_ok opts k (call_flush w) ?t FL_WAITS" using new rel(1) by (simp add: flush_ok_def call_flush_def)
  ultimately show ?thesis using inv m
    by (auto simp: journal_inv_def call_flush_def sent_ok_def row_ids_def nth_append less_Suc_eq)
qed

lemma queue_kept [simp]: "dq_queue (scheduleFlush d) = dq_queue d" "dq_queue (enqueue opts r d) = dq_queue d @ [r]"
  by (simp_all add: scheduleFlush_def enqueue_def Let_def)

lemma journal_step_keeps:
  "journal_step opts k w ev w' \<Longrightarrow> journal_inv opts k logged w \<Longrightarrow> 0 < batch_size opts \<Longrightarrow> 0 \<le> max_retries opts \<Longrightarrow>
   journal_inv opts k (logged @ logged_in [ev]) w'"
proof (induction rule: journal_step.induct)
  case (js_log w r)
  then show ?case using outside_keeps [of opts k logged w _ "[r]" "[]"] by (simp add: logged_in_def)
next
  case (js_call w)
  then show ?case using call_keeps by (simp add: logged_in_def)
next
  case (js_task w)
  have "journal_inv opts k logged (call_flush w)" using js_task(3) call_keeps by blast
  then show ?case using outside_keeps [of opts k logged "call_flush w" _ "[]" "[]"] by (simp add: logged_in_def)
next
  case (js_task_ends w t r)
  then show ?case using outside_keeps [of opts k logged w "task_ends r w" "[]" "[]"] by (simp add: logged_in_def task_ends_def Let_def)
next
  case (js_resume t w pc w')
  then show ?case using resume_keeps by (simp add: logged_in_def)
next
  case (js_insert t w b n r tb)
  obtain new where "tb_rows tb = tb_rows (jn_table w) @ new" using createMany_rows(1) [OF js_insert(3)] by blast
  moreover have "r = Inr () \<longrightarrow> rk_id k ` set b \<subseteq> rk_id k ` set (tb_rows tb)" using createMany_rows(2) [OF js_insert(3)] by simp
  ultimately show ?case using answer_keeps [OF js_insert(4,1,2)] by (simp add: logged_in_def)
next
  case (js_insert_fails t w b n tb e)
  obtain r tb' where c: "table_createMany k b (jn_table w) = (r, tb')" by force
  obtain new where "tb_rows tb = tb_rows (jn_table w) @ new" using createMany_rows(1) [OF c] js_insert_fails(3) c by auto
  then show ?case using answer_keeps [OF js_insert_fails(4,1,2)] by (simp add: logged_in_def)
next
  case (js_clear w)
  then show ?case using outside_keeps [of opts k logged w _ "[]" "[]"] by (simp add: logged_in_def)
next
  case (js_schedule w)
  then show ?case using outside_keeps [of opts k logged w _ "[]" "[]"] by (simp add: logged_in_def)
next
  case (js_table tb w rows)
  then show ?case using outside_keeps [of opts k logged w _ "[]" rows] by (simp add: logged_in_def)
qed

lemma logged_in_append: "logged_in (evs @ fs) = logged_in evs @ logged_in fs" by (simp add: logged_in_def)

lemma new_journal_inv: "journal_inv opts k [] (new_journal tb)"
  by (simp add: journal_inv_def new_journal_def sent_ok_def empty_queue_def mx_inv_def new_mutex_def holders_def)

lemma journal_run_inv:
  "journal_run opts k w evs w' \<Longrightarrow> w = new_journal tb \<Longrightarrow> 0 < batch_size opts \<Longrightarrow> 0 \<le> max_retries opts \<Longrightarrow>
   journal_inv opts k (logged_in evs) w'"
proof (induction rule: journal_run.induct)
  case (jr_here w)
  then show ?case using new_journal_inv by (simp add: logged_in_def)
next
  case (jr_next w evs w' ev w'')
  then show ?case using journal_step_keeps by (simp add: logged_in_append)
qed

section \<open>Properties\<close>

text \<open>
  However acquires and releases interleave, the mutex grants its callers in the order they asked, at
  most one of them holds it at a time, one holds it exactly when it is locked, and nobody waits on an
  unlocked mutex.
\<close>

theorem mutex_is_fair_and_exclusive:
  assumes "mx_reach asked m"
  shows "mx_granted m @ mx_queue m = asked \<and> length (holders m) = (if mx_locked m then 1 else 0) \<and>
    (mx_queue m \<noteq> [] \<longrightarrow> mx_locked m)"
  using mx_reach_inv[OF assms] by (auto simp: mx_inv_def)

lemma sample_mutex_reach: "mx_reach [7, 9] (mx_release 7 (mx_acquire 9 (mx_acquire 7 new_mutex)))"
  using mx_let_go[OF mx_ask[OF mx_ask[OF mx_start], of 7 9], of 7]
  by (simp add: mx_acquire_def new_mutex_def)

theorem mutex_is_fair_and_exclusive_witness:
  "let m = mx_release 7 (mx_acquire 9 (mx_acquire 7 new_mutex)) in mx_granted m @ mx_queue m = [7, 9] \<and> holders m = [9]"
  using mutex_is_fair_and_exclusive[OF sample_mutex_reach]
  by (simp add: Let_def holders_def mx_release_def mx_acquire_def new_mutex_def)

lemma resume_flushes: "resume_flush opts t pc0 w = Some (pc, w') \<Longrightarrow> jn_flushes w' = jn_flushes w"
  by (cases "(opts, t, pc0, w)" rule: resume_flush.cases)
     (auto simp: loop_top_def batch_stored_def flush_fails_def split: if_splits)

lemma step_returns:
  assumes "journal_step opts k w (EV_FLUSH t) w'" "journal_inv opts k logged w" and ret: "jn_flushes w' ! t = FL_RETURNED r"
  shows "case r of Inr _ \<Rightarrow> dq_queue (jn_drain w') = []
    | Inl e \<Rightarrow> dq_queue (jn_drain w') \<noteq> [] \<and> dq_lastError (jn_drain w') = Some e"
  using assms(1)
proof cases
  case (js_resume pc v)
  then have pc: "pc = FL_RETURNED r" using ret resume_flushes by (fastforce simp: with_flush_def)
  have ok: "flush_ok opts k w t (jn_flushes w ! t)" using assms(2) js_resume(2) by (simp add: journal_inv_def)
  show ?thesis
  proof (cases "jn_flushes w ! t")
    case (FL_ANSWERED b n s)
    then have "dq_queue (jn_drain w) \<noteq> []" using ok by (auto simp: flush_ok_def batch_ok_def)
    then show ?thesis using js_resume(1,3) pc FL_ANSWERED
      by (cases s) (auto simp: with_flush_def loop_top_def flush_fails_def split: if_splits)
  qed (use js_resume(1,3) pc in \<open>auto simp: with_flush_def loop_top_def split: if_splits\<close>)
qed (use ret in \<open>auto simp: with_flush_def\<close>)

text \<open>The work left: what the queue may still cost, and what each flush may.\<close>

definition pc_cost :: "nat \<Rightarrow> 'r flush_pc \<Rightarrow> nat" where
  "pc_cost m pc = (case pc of FL_WAITS \<Rightarrow> 3 * m + 4 | FL_INSERTS b n \<Rightarrow> 3 * (m - n) + 3 | FL_ANSWERED b n r \<Rightarrow> 3 * (m - n) + 2
     | FL_DELAYS b n \<Rightarrow> 3 * (m - n) + 4 | FL_SPINS \<Rightarrow> 0 | FL_RETURNED r \<Rightarrow> 0)"

definition work_left :: "queue_options \<Rightarrow> 'r journal \<Rightarrow> nat" where
  "work_left opts w = (let m = nat (max_retries opts) in
     (3 * m + 3) * length (dq_queue (jn_drain w)) + sum_list (map (pc_cost m) (jn_flushes w)))"

lemma sum_updated: "t < length xs \<Longrightarrow> sum_list (map f (xs[t := y])) + f (xs ! t) = sum_list (map f xs) + (f y :: nat)"
  by (induction xs arbitrary: t) (auto split: nat.split simp: nth_Cons)

lemma work_updated:
  assumes "t < length (jn_flushes w)" "jn_flushes w' = jn_flushes w"
    and "(3 * m + 3) * length (dq_queue (jn_drain w')) + pc_cost m pc < (3 * m + 3) * length (dq_queue (jn_drain w)) + pc_cost m (jn_flushes w ! t)"
    and "m = nat (max_retries opts)"
  shows "work_left opts (with_flush t pc w') < work_left opts w"
  using sum_updated [of t "jn_flushes w" "pc_cost m" pc] assms by (simp add: work_left_def with_flush_def Let_def)

lemma flush_step_works:
  assumes "journal_step opts k w (EV_FLUSH t) w'" "journal_inv opts k logged w"
  shows "work_left opts w' < work_left opts w"
  using assms(1)
proof cases
  case (js_resume pc v)
  let ?m = "nat (max_retries opts)"
  have ok: "flush_ok opts k w t (jn_flushes w ! t)" using assms(2) js_resume(2) by (simp add: journal_inv_def)
  have top: "(3 * ?m + 3) * length (dq_queue (jn_drain v)) + pc_cost ?m pc \<le> (3 * ?m + 3) * length (dq_queue (jn_drain u)) + (3 * ?m + 3)"
    if "loop_top opts t u = (pc, v)" for u
    using that by (auto simp: loop_top_def pc_cost_def split: if_splits)
  show ?thesis unfolding js_resume(1)
  proof (rule work_updated [OF js_resume(2) resume_flushes [OF js_resume(3)] _ refl])
    show "(3 * ?m + 3) * length (dq_queue (jn_drain v)) + pc_cost ?m pc
      < (3 * ?m + 3) * length (dq_queue (jn_drain w)) + pc_cost ?m (jn_flushes w ! t)"
    proof (cases "jn_flushes w ! t")
      case FL_WAITS
      then show ?thesis using js_resume(3) top [of w] by (auto simp: pc_cost_def split: if_splits)
    next
      case (FL_ANSWERED b n r)
      then have b: "batch_ok opts w t b n" using ok by (simp add: flush_ok_def)
      show ?thesis
      proof (cases r)
        case (Inr u)
        obtain rest where q: "dq_queue (jn_drain w) = b @ rest" "b \<noteq> []" using b by (auto simp: batch_ok_def)
        then have "Suc (length rest) \<le> length (dq_queue (jn_drain w))" by (cases b) simp_all
        then have "(3 * ?m + 3) * Suc (length rest) \<le> (3 * ?m + 3) * length (dq_queue (jn_drain w))" by (rule mult_le_mono2)
        moreover have "loop_top opts t (batch_stored b w) = (pc, v)" using js_resume(3) FL_ANSWERED Inr by simp
        note top [OF this]
        ultimately show ?thesis using q(1) by (simp add: batch_stored_def FL_ANSWERED pc_cost_def)
      next
        case (Inl e)
        show ?thesis
        proof (cases "int n + 1 \<le> max_retries opts")
          case True
          then have "n < ?m" by linarith
          then show ?thesis using js_resume(3) FL_ANSWERED Inl True by (auto simp: pc_cost_def split: if_splits)
        next
          case False
          then show ?thesis using js_resume(3) FL_ANSWERED Inl by (auto simp: pc_cost_def flush_fails_def)
        qed
      qed
    qed (use js_resume(3) in \<open>auto simp: pc_cost_def\<close>)
  qed
next
  case (js_insert b n r tb)
  show ?thesis unfolding js_insert(1) by (rule work_updated [OF js_insert(2) _ _ refl]) (simp_all add: js_insert(3) pc_cost_def)
next
  case (js_insert_fails b n tb e)
  show ?thesis unfolding js_insert_fails(1) by (rule work_updated [OF js_insert_fails(2) _ _ refl]) (simp_all add: js_insert_fails(3) pc_cost_def)
qed

definition is_flush :: "'r journal_event \<Rightarrow> bool" where
  "is_flush ev = (case ev of EV_FLUSH t \<Rightarrow> True | _ \<Rightarrow> False)"

text \<open>What a record, and a call, may cost: bounds on the steps of all flushes together.\<close>

definition step_bound :: "queue_options \<Rightarrow> 'r journal_event list \<Rightarrow> nat" where
  "step_bound opts evs = (let m = nat (max_retries opts) in
     (3 * m + 3) * length (logged_in evs) + (3 * m + 4) * length (filter (\<lambda>ev. ev = EV_CALL) evs))"

lemma other_step_works:
  assumes "journal_step opts k w ev w'" "\<not> is_flush ev"
  shows "work_left opts w' \<le> work_left opts w + step_bound opts [ev]"
  using assms
  by (cases rule: journal_step.cases)
     (auto simp: work_left_def step_bound_def logged_in_def is_flush_def call_flush_def pc_cost_def task_ends_def Let_def add_mult_distrib2)

lemma step_bound_snoc: "step_bound opts (evs @ [ev]) = step_bound opts evs + step_bound opts [ev]"
  by (simp add: step_bound_def logged_in_append Let_def add_mult_distrib2)

lemma run_works:
  "journal_run opts k w evs w' \<Longrightarrow> w = new_journal tb \<Longrightarrow> 0 < batch_size opts \<Longrightarrow> 0 \<le> max_retries opts \<Longrightarrow>
   length (filter is_flush evs) + work_left opts w' \<le> step_bound opts evs"
proof (induction rule: journal_run.induct)
  case (jr_here w)
  then show ?case by (simp add: work_left_def new_journal_def empty_queue_def Let_def)
next
  case (jr_next w evs w' ev w'')
  have inv: "journal_inv opts k (logged_in evs) w'" using journal_run_inv [OF jr_next(1)] jr_next(4-6) by blast
  have IH: "length (filter is_flush evs) + work_left opts w' \<le> step_bound opts evs" using jr_next by blast
  show ?case
  proof (cases "is_flush ev")
    case True
    then obtain t where "ev = EV_FLUSH t" by (auto simp: is_flush_def split: journal_event.splits)
    then show ?thesis using flush_step_works [OF _ inv] jr_next(2) IH True by (fastforce simp: step_bound_snoc)
  next
    case False
    then show ?thesis using other_step_works [OF jr_next(2) False] IH by (simp add: step_bound_snoc)
  qed
qed

text \<open>A flush that has not returned never waits for nothing: the holder of the mutex can go on, or the database can answer it.\<close>

lemma flush_goes_on:
  assumes inv: "journal_inv opts k logged w" and u: "u < length (jn_flushes w)" "\<forall>r. jn_flushes w ! u \<noteq> FL_RETURNED r"
  shows "\<exists>t w'. journal_step opts k w (EV_FLUSH t) w'"
proof -
  let ?m = "jn_mutex w"
  have mx: "mx_inv [0..<length (jn_flushes w)] ?m" using inv by (simp add: journal_inv_def)
  have ok: "flush_ok opts k w t (jn_flushes w ! t)" if "t < length (jn_flushes w)" for t using inv that by (simp add: journal_inv_def)
  have granted: "set (mx_granted ?m) \<subseteq> {0..<length (jn_flushes w)}"
  proof -
    have "set (mx_granted ?m) \<subseteq> set (mx_granted ?m @ mx_queue ?m)" by simp
    then show ?thesis using mx unfolding mx_inv_def by simp
  qed
  have "u \<notin> set (mx_released ?m)" using ok [OF u(1)] u(2) by (cases "jn_flushes w ! u") (auto simp: flush_ok_def batch_ok_def holders_def)
  then have "holders ?m \<noteq> []"
  proof (cases "mx_locked ?m")
    case False
    then have "mx_granted ?m = [0..<length (jn_flushes w)]" using mx unfolding mx_inv_def by fastforce
    then show ?thesis using \<open>u \<notin> set (mx_released ?m)\<close> u(1) by (auto simp: holders_def filter_empty_conv)
  qed (use mx in \<open>auto simp: mx_inv_def\<close>)
  then obtain t where h: "t \<in> set (holders ?m)" by (cases "holders ?m") auto
  then have t: "t < length (jn_flushes w)" "t \<in> set (mx_granted ?m)" "t \<notin> set (mx_released ?m)"
    using granted by (auto simp: holders_def)
  show ?thesis
  proof (cases "jn_flushes w ! t")
    case FL_WAITS
    obtain pc v where "loop_top opts t w = (pc, v)" by force
    then have "resume_flush opts t (jn_flushes w ! t) w = Some (pc, v)" using t(2) FL_WAITS by simp
    then show ?thesis using js_resume [OF t(1)] by blast
  next
    case (FL_INSERTS b n)
    then show ?thesis using js_insert [OF t(1) FL_INSERTS] by (metis surj_pair)
  next
    case (FL_ANSWERED b n r)
    have "resume_flush opts t (jn_flushes w ! t) w \<noteq> None" unfolding FL_ANSWERED by (cases r) auto
    then obtain pc v where "resume_flush opts t (jn_flushes w ! t) w = Some (pc, v)" by fastforce
    then show ?thesis using js_resume [OF t(1)] by blast
  next
    case (FL_DELAYS b n)
    then have "resume_flush opts t (jn_flushes w ! t) w = Some (FL_INSERTS b n, w)" by simp
    then show ?thesis using js_resume [OF t(1)] by blast
  qed (use ok [OF t(1)] t(3) in \<open>simp_all add: flush_ok_def\<close>)
qed

text \<open>The table holds the rows as they were logged.\<close>

lemma rows_kept:
  assumes "journal_step opts k w ev w'" "journal_inv opts k logged w"
  shows "set (tb_rows (jn_table w')) \<subseteq> set (tb_rows (jn_table w)) \<union> set (added_in [ev]) \<union> set logged"
proof -
  have batch: "set b \<subseteq> set logged" if "t < length (jn_flushes w)" "jn_flushes w ! t = FL_INSERTS b n" for t b n
  proof -
    have "batch_ok opts w t b n" "sent_ok k logged w" using assms(2) that by (fastforce simp: journal_inv_def flush_ok_def)+
    then show ?thesis by (auto simp: batch_ok_def sent_ok_def)
  qed
  show ?thesis using assms(1)
  proof cases
    case (js_resume t pc v)
    then have "jn_table v = jn_table w"
      by (cases "(opts, t, jn_flushes w ! t, w)" rule: resume_flush.cases)
         (auto simp: loop_top_def batch_stored_def flush_fails_def split: if_splits)
    then show ?thesis using js_resume by (auto simp: with_flush_def)
  next
    case (js_insert t b n r tb)
    then show ?thesis using createMany_rows(3) [OF js_insert(5)] batch [OF js_insert(3,4)] by (auto simp: with_flush_def)
  next
    case (js_insert_fails t b n tb e)
    obtain r tb' where c: "table_createMany k b (jn_table w) = (r, tb')" by force
    then show ?thesis using createMany_rows(3) [OF c] batch [OF js_insert_fails(3,4)] js_insert_fails by (auto simp: with_flush_def)
  qed (auto simp: added_in_def call_flush_def task_ends_def Let_def)
qed

lemma run_rows:
  "journal_run opts k w evs w' \<Longrightarrow> w = new_journal tb \<Longrightarrow> 0 < batch_size opts \<Longrightarrow> 0 \<le> max_retries opts \<Longrightarrow>
   set (tb_rows (jn_table w')) \<subseteq> set (tb_rows tb) \<union> set (added_in evs) \<union> set (logged_in evs)"
proof (induction rule: journal_run.induct)
  case (jr_here w)
  then show ?case by (auto simp: new_journal_def)
next
  case (jr_next w evs w' ev w'')
  have inv: "journal_inv opts k (logged_in evs) w'" using journal_run_inv [OF jr_next(1)] jr_next(4-6) by blast
  have "set (tb_rows (jn_table w')) \<subseteq> set (tb_rows tb) \<union> set (added_in evs) \<union> set (logged_in evs)" using jr_next by blast
  moreover have "added_in (evs @ [ev]) = added_in evs @ added_in [ev]" by (simp add: added_in_def)
  ultimately show ?case using rows_kept [OF jr_next(2) inv] by (auto simp: logged_in_append)
qed

lemma last_flush_returns:
  assumes "journal_run opts k w evs w'" "w = new_journal tb" "0 < batch_size opts" "0 \<le> max_retries opts"
    and "evs = fs @ [EV_FLUSH t]" "jn_flushes w' ! t = FL_RETURNED r"
  shows "case r of Inr _ \<Rightarrow> dq_queue (jn_drain w') = []
    | Inl e \<Rightarrow> dq_queue (jn_drain w') \<noteq> [] \<and> dq_lastError (jn_drain w') = Some e"
  using assms(1)
proof cases
  case (jr_next evs' v ev)
  then show ?thesis using step_returns [OF _ journal_run_inv [OF jr_next(2) assms(2,3,4)] assms(6)] assms(5) by simp
qed (use assms(5) in simp)

lemma turn_step: "turn opts k ev w = Some w' \<Longrightarrow> journal_step opts k w ev w'"
proof (induction opts k ev w rule: turn.induct)
  case (3 opts k t w)
  then have t: "t < length (jn_flushes w)" by (auto split: if_splits)
  show ?case
  proof (cases "jn_flushes w ! t")
    case (FL_INSERTS b n)
    then show ?thesis using 3 t js_insert [OF t FL_INSERTS] by (auto split: prod.splits)
  qed (use 3 t js_resume [OF t] in \<open>auto split: option.splits prod.splits if_splits\<close>)
qed (auto intro: js_log js_call js_table)

lemma turns_run: "turns opts k evs w = Some w' \<Longrightarrow> journal_run opts k w evs w'"
proof (induction evs arbitrary: w' rule: rev_induct)
  case (snoc ev evs)
  then obtain v where "turns opts k evs w = Some v" "turn opts k ev v = Some w'"
    by (cases "turns opts k evs w") (auto simp: turns_def)
  then show ?case using snoc.IH jr_next turn_step by blast
qed (simp add: turns_def jr_here)

text \<open>
  C22: Whatever is logged, flushed, failed and written by others in whatever interleaving, with a positive batch size and a number of
  retries that is not negative: the queue always holds an end of what has been logged, the ids of the records before it are in
  the table, and the table holds nothing but its first rows, what others added and logged records as they are; when a flush
  returns, the queue is empty at that point, and when it throws, the records not stored are still queued and the error is the last error; all
  flushes together make at most \<open>step_bound\<close> steps; and as long as one has not returned, some flush can go on or be answered.
\<close>

theorem flush_delivers_what_was_logged:
  assumes run: "journal_run opts k (new_journal tb) evs w" and opts: "0 < batch_size opts" "0 \<le> max_retries opts"
  shows "(\<exists>sent. logged_in evs = sent @ dq_queue (jn_drain w) \<and> rk_id k ` set sent \<subseteq> rk_id k ` set (tb_rows (jn_table w))) \<and>
    set (tb_rows (jn_table w)) \<subseteq> set (tb_rows tb) \<union> set (added_in evs) \<union> set (logged_in evs) \<and>
    (\<forall>fs t r. evs = fs @ [EV_FLUSH t] \<longrightarrow> jn_flushes w ! t = FL_RETURNED r \<longrightarrow>
       (case r of Inr _ \<Rightarrow> dq_queue (jn_drain w) = []
        | Inl e \<Rightarrow> dq_queue (jn_drain w) \<noteq> [] \<and> dq_lastError (jn_drain w) = Some e)) \<and>
    length (filter is_flush evs) \<le> step_bound opts evs \<and>
    (\<forall>u < length (jn_flushes w). (\<exists>r. jn_flushes w ! u = FL_RETURNED r) \<or> (\<exists>t w'. journal_step opts k w (EV_FLUSH t) w'))"
proof (intro conjI)
  have inv: "journal_inv opts k (logged_in evs) w" by (rule journal_run_inv [OF run refl opts])
  then show "\<exists>sent. logged_in evs = sent @ dq_queue (jn_drain w) \<and> rk_id k ` set sent \<subseteq> rk_id k ` set (tb_rows (jn_table w))"
    by (simp add: journal_inv_def sent_ok_def row_ids_def)
  show "\<forall>u < length (jn_flushes w). (\<exists>r. jn_flushes w ! u = FL_RETURNED r) \<or> (\<exists>t w'. journal_step opts k w (EV_FLUSH t) w')"
    using flush_goes_on [OF inv] by blast
  show "length (filter is_flush evs) \<le> step_bound opts evs" using run_works [OF run refl opts] by linarith
qed (use run_rows [OF run refl opts] last_flush_returns [OF run refl opts] in blast)+

definition sample_row :: "string \<Rightarrow> log_record" where
  "sample_row i = \<lparr>lg_id = i, lg_projectId = ''p'', lg_runId = ''r'', lg_attemptId = None, lg_workItemId = None,
     lg_stream = LS_SYSTEM, lg_message = [], lg_sequence = 1, lg_timestamp = 0, lg_metadata = None,
     lg_previousHash = None, lg_hash = []\<rparr>"

definition sample_options :: queue_options where
  "sample_options = \<lparr>qo_batchSize = Some 1, qo_maxRetries = None, qo_retryDelayMs = None, qo_autoFlush = None\<rparr>"

definition sample_table :: "log_record journal_table" where
  "sample_table = \<lparr>tb_rows = [], tb_projects = [''p''], tb_items = [], tb_attempts = []\<rparr>"

text \<open>The second record is logged while the insert of the first is under way.\<close>

definition sample_turns :: "log_record journal_event list" where
  "sample_turns = [EV_LOG (sample_row ''a''), EV_CALL, EV_FLUSH 0, EV_LOG (sample_row ''b''), EV_FLUSH 0, EV_FLUSH 0, EV_FLUSH 0, EV_FLUSH 0]"

lemma sample_turns_run:
  "case turns sample_options log_keys sample_turns (new_journal sample_table) of None \<Rightarrow> False
   | Some w \<Rightarrow> jn_flushes w = [FL_RETURNED (Inr ())]"
  by code_simp

theorem flush_delivers_what_was_logged_witness:
  "case turns sample_options log_keys sample_turns (new_journal sample_table) of None \<Rightarrow> False
   | Some w \<Rightarrow> dq_queue (jn_drain w) = [] \<and> {''a'', ''b''} \<subseteq> lg_id ` set (tb_rows (jn_table w))"
proof (cases "turns sample_options log_keys sample_turns (new_journal sample_table)")
  case (Some w)
  have run: "journal_run sample_options log_keys (new_journal sample_table) sample_turns w" by (rule turns_run [OF Some])
  have opts: "0 < batch_size sample_options" "0 \<le> max_retries sample_options"
    by (simp_all add: sample_options_def batch_size_def max_retries_def)
  have "jn_flushes w ! 0 = FL_RETURNED (Inr ())" using sample_turns_run Some by simp
  moreover have "sample_turns = butlast sample_turns @ [EV_FLUSH 0]" by (simp add: sample_turns_def)
  ultimately have q: "dq_queue (jn_drain w) = []" using flush_delivers_what_was_logged [OF run opts] by fastforce
  moreover have "logged_in sample_turns = [sample_row ''a'', sample_row ''b'']" by (simp add: sample_turns_def logged_in_def)
  ultimately have "lg_id ` set [sample_row ''a'', sample_row ''b''] \<subseteq> lg_id ` set (tb_rows (jn_table w))"
    using flush_delivers_what_was_logged [OF run opts] by (simp add: log_keys_def)
  then show ?thesis using Some q by (simp add: sample_row_def)
qed (use sample_turns_run in simp)

section \<open>Where the journals go wrong\<close>

text \<open>With a batch size of zero a flush of a queue that is not empty inserts nothing, is answered, and is where it was.\<close>

lemma zero_batch_spins:
  assumes "qo_batchSize opts = Some 0" "0 \<le> max_retries opts" "dq_queue (jn_drain w) \<noteq> []" "dq_lastError (jn_drain w) = None"
    and t: "t < length (jn_flushes w)" "jn_flushes w ! t = FL_INSERTS [] 0"
  shows "\<exists>w'. journal_step opts k w (EV_FLUSH t) w' \<and> journal_step opts k w' (EV_FLUSH t) w"
proof -
  let ?w = "with_flush t (FL_ANSWERED [] 0 (Inr ())) (w\<lparr>jn_table := jn_table w\<rparr>)"
  have "table_createMany k [] (jn_table w) = (Inr (), jn_table w)" by (simp add: table_createMany_def)
  then have "journal_step opts k w (EV_FLUSH t) ?w" by (rule js_insert [OF t])
  moreover have "batch_stored [] ?w = ?w" using assms(4) by (simp add: batch_stored_def with_flush_def)
  then have "resume_flush opts t (jn_flushes ?w ! t) ?w = Some (FL_INSERTS [] 0, ?w)"
    using assms(1-3) t(1) by (simp add: with_flush_def loop_top_def slice0_def batch_size_def)
  then have "journal_step opts k ?w (EV_FLUSH t) (with_flush t (FL_INSERTS [] 0) ?w)"
    using t(1) by (intro js_resume) (simp_all add: with_flush_def)
  moreover have "with_flush t (FL_INSERTS [] 0) ?w = w" using t by (simp add: with_flush_def list_update_same_conv)
  ultimately show ?thesis by metis
qed

text \<open>
  Default ids hold the clock and the sequence within the run: two runs that log in the same millisecond make
  the same id, and the second record is dropped without an error.
\<close>

lemma same_millisecond_logs_collide:
  assumes "runId \<noteq> runId'"
  shows "\<exists>a b. lg_runId a = runId \<and> lg_runId b = runId' \<and>
    dq_queue (du_drain (du_log sha sens red opts p runId' m c None now
      (du_log sha sens red opts p runId m c None now new_durable_logger))) = [a, b] \<and>
    insert_new lg_id [a, b] [] = [a]"
  using assms
  by (auto simp: du_log_def new_durable_logger_def enqueue_def scheduleFlush_def empty_queue_def Let_def
      insert_new_def chain_key_def make_log_def generated_id_def seal_log_def)

text \<open>
  \<open>initialize\<close> on a run without rows sets the last hash to the empty text, not to \<open>null\<close>: the journal the logger
  then writes for that run never passes the verifier.
\<close>

lemma initialized_fresh_run_never_verifies:
  "\<exists>l. dq_queue (du_drain (du_log sha sens red opts p r m ctx fid now (du_initialize p r [] new_durable_logger))) = [l] \<and>
     \<not> verifyLogs sha' [l]"
  by (auto simp: du_log_def du_initialize_def latest_log_def new_durable_logger_def enqueue_def scheduleFlush_def
      empty_queue_def Let_def verifyLogs_def chains_of_def make_log_def seal_log_def)

text \<open>
  The hash covers the metadata in the order the caller gave it. When the database gives the members of a
  \<open>jsonb\<close> column back in another order, a record that verified in memory no longer verifies.
\<close>

lemma reordered_metadata_breaks_the_hash:
  assumes "lg_metadata l = Some m" and "db_json m \<noteq> m" and "lg_projectId l = p" and "lg_previousHash l = None"
    and "lg_hash l = sha (json_text (log_payload l))"
    and "no_collision sha (log_payload (l\<lparr>lg_metadata := Some (db_json m)\<rparr>)) (log_payload l)"
  shows "verifyLogs sha [l] \<and>
    \<not> verifyLogs sha (getLogsAsync db_json p None None None \<lparr>tb_rows = [l], tb_projects = [p], tb_items = [], tb_attempts = []\<rparr>)"
proof -
  let ?l = "l\<lparr>lg_metadata := Some (db_json m)\<rparr>"
  have "log_payload ?l \<noteq> log_payload l" using assms(1,2) by (simp add: log_payload_def)
  then have "lg_hash l \<noteq> sha (json_text (log_payload ?l))" using assms(5,6) by (metis no_collision_eq)
  then show ?thesis using assms(1-5)
    by (simp add: getLogsAsync_def filter_matches_def verifyLogs_def chains_of_def Let_def)
qed

end
