(* ===== verification/Git_Adapter.thy ===== *)
theory Git_Adapter
  imports Tool_Gateway Json_Text
begin

text \<open>
  The structured Git adapter (\<^verbatim>\<open>packages/tools/src/git/structured-git-adapter.ts\<close>). The \<open>git\<close> executable and
  the operating system are parameters (\<open>git_host\<close>): what a call answers and does to the outside world is up to
  them. The two families of files that the adapter itself writes under \<^verbatim>\<open>.git\<close>, the staging intents and the
  action journals, are state of the model; an absent text member of such a file reads as the empty text.
\<close>

section \<open>Files, calls and the host\<close>

record staging_file =
  sf_stagedTreeSha :: string
  sf_sourceSha :: string
  sf_approvedPaths :: "string list"
  sf_workPackageRef :: string

record commit_claim =
  cc_actionId :: string
  cc_commitSha :: string
  cc_expectedStagedTreeSha :: string
  cc_authorDate :: string
  cc_bundleArtifactPath :: string
  cc_bundleDigest :: string
  cc_bundleRef :: string
  cc_sourceSha :: string
  cc_approvedPaths :: "string list"
  cc_workPackageRef :: string

datatype action_entry = is_COMMIT_OBJECT_CLAIMED: COMMIT_OBJECT_CLAIMED commit_claim
  | is_IMPORT_VERIFIED: IMPORT_VERIFIED string | is_REF_CAS_VERIFIED: REF_CAS_VERIFIED string
  | LINEAGE_STALE_DRIFT string | is_COMMIT_OUTPUT_RECORDED: COMMIT_OUTPUT_RECORDED string

record git_call =
  gc_args :: "string list"
  gc_cwd :: string
  gc_env :: "(string \<times> string) list"

record git_output =
  go_stdout :: string
  go_stderr :: string
  go_code :: int

text \<open>
  A spawn fails only when no process could be started; a process that ends with an error code is an output.
  \<open>gh_writable\<close> is the write of a file under \<^verbatim>\<open>.git\<close>, whose contents the model keeps itself.
\<close>

record 'w git_host =
  gh_spawn :: "git_call \<Rightarrow> ('w, string, git_output) act"
  gh_access :: "string \<Rightarrow> 'w \<Rightarrow> bool"
  gh_mkdtemp :: "string \<Rightarrow> ('w, string, string) act"
  gh_mkdir :: "string \<Rightarrow> ('w, string, unit) act"
  gh_writeFile :: "string \<Rightarrow> string \<Rightarrow> ('w, string, unit) act"
  gh_readFile :: "string \<Rightarrow> ('w, string, string) act"
  gh_writable :: "string \<Rightarrow> ('w, string, unit) act"
  gh_now :: "'w \<Rightarrow> int"
  gh_env :: "string \<Rightarrow> string option"
  gh_processCwd :: string
  gh_tmpdir :: string

record 'w git_repo =
  gr_staging :: "(string, staging_file) jsmap"
  gr_actions :: "(string, action_entry list) jsmap"
  gr_outside :: 'w

type_synonym ('w, 'a) git_act = "('w git_repo, string, 'a) act"

definition on_outside :: "('w, string, 'a) act \<Rightarrow> ('w, 'a) git_act" where
  "on_outside m = (\<lambda>r. case m (gr_outside r) of (res, w') \<Rightarrow> (res, r\<lparr>gr_outside := w'\<rparr>))"

definition spawnGitCmd :: "'w git_host \<Rightarrow> string list \<Rightarrow> string \<Rightarrow> (string \<times> string) list \<Rightarrow> ('w, git_output) git_act" where
  "spawnGitCmd h args cwd env = on_outside (gh_spawn h \<lparr>gc_args = args, gc_cwd = cwd, gc_env = env\<rparr>)"

definition spawnGit :: "'w git_host \<Rightarrow> string \<Rightarrow> string list \<Rightarrow> ('w, git_output) git_act" where
  "spawnGit h repoCwd args = on_outside (gh_spawn h \<lparr>gc_args = args, gc_cwd = repoCwd, gc_env = []\<rparr>)"

definition git_clock :: "'w git_host \<Rightarrow> ('w, int) git_act" where
  "git_clock h = (\<lambda>r. (Inr (gh_now h (gr_outside r)), r))"

definition git_access :: "'w git_host \<Rightarrow> string \<Rightarrow> ('w, bool) git_act" where
  "git_access h file = (\<lambda>r. (Inr (gh_access h file (gr_outside r)), r))"

text \<open>The first occurrence, as \<open>String.replace\<close> with a text does.\<close>

fun replace_once :: "string \<Rightarrow> string \<Rightarrow> string \<Rightarrow> string" where
  "replace_once pat by [] = (if pat = [] then by else [])"
| "replace_once pat by (c # s) =
     (if starts_with (c # s) pat then by @ drop (length pat) (c # s) else c # replace_once pat by s)"

definition git_path :: "string \<Rightarrow> string \<Rightarrow> string \<Rightarrow> string" where
  "git_path repoCwd file actionId = repoCwd @ ''/.git/'' @ file @ actionId"

section \<open>Results\<close>

definition zod_text :: string where
  "zod_text = ''ZodError''"

definition git_checked :: "tool_result \<Rightarrow> ('w, tool_result) git_act" where
  "git_checked x = (if valid_result x then act_return x else act_throw zod_text)"

definition git_result :: "string \<Rightarrow> string \<Rightarrow> int \<Rightarrow> string \<Rightarrow> tool_status \<Rightarrow> string \<Rightarrow> string list \<Rightarrow> bool \<Rightarrow> tool_result" where
  "git_result prefix requestId now op st summary effects reconcile =
     \<lparr>tx_schemaVersion = ''1.0.0'', tx_executionId = prefix @ show_int now, tx_requestId = requestId, tx_toolId = ''git'',
      tx_operationId = op, tx_status = st, tx_summary = summary, tx_observedEffect = None, tx_artifacts = [],
      tx_evidenceCandidates = [], tx_sideEffects = effects, tx_reconciliationRequired = reconcile\<rparr>"

definition git_fail :: "'w git_host \<Rightarrow> string \<Rightarrow> string \<Rightarrow> ('w, tool_result) git_act" where
  "git_fail h requestId reason =
     act_bind (git_clock h) (\<lambda>now. git_checked (git_result ''git-fail-'' requestId now ''unknown'' TS_FAILED reason [] False))"

definition git_answer :: "'w git_host \<Rightarrow> string \<Rightarrow> string \<Rightarrow> tool_status \<Rightarrow> string \<Rightarrow> string list \<Rightarrow> bool \<Rightarrow> ('w, tool_result) git_act" where
  "git_answer h requestId op st summary effects reconcile =
     act_bind (git_clock h) (\<lambda>now. git_checked (git_result ''git-'' requestId now op st summary effects reconcile))"

section \<open>Staging\<close>

definition write_staging :: "'w git_host \<Rightarrow> string \<Rightarrow> string \<Rightarrow> staging_file \<Rightarrow> ('w, unit) git_act" where
  "write_staging h repoCwd actionId f =
     act_bind (on_outside (gh_writable h (git_path repoCwd ''co-staging-'' actionId @ ''.json'')))
       (\<lambda>_ r. (Inr (), r\<lparr>gr_staging := jm_set actionId f (gr_staging r)\<rparr>))"

definition stage_source :: "'w git_host \<Rightarrow> string \<Rightarrow> string \<Rightarrow> string \<Rightarrow> ('w, string) git_act" where
  "stage_source h repoCwd actionId known =
     (let tempIndex = git_path repoCwd ''co-index-'' actionId in
      act_bind (git_access h tempIndex) (\<lambda>present. if present then act_return known
      else act_bind (spawnGitCmd h [''rev-parse'', ''HEAD''] repoCwd []) (\<lambda>headSha.
        let sourceSha = trim (go_stdout headSha) in
        act_bind (spawnGitCmd h [''read-tree'', sourceSha] repoCwd [(''GIT_INDEX_FILE'', tempIndex)])
          (\<lambda>_. act_return sourceSha))))"

definition stage_add :: "'w git_host \<Rightarrow> string \<Rightarrow> string \<Rightarrow> string list \<Rightarrow> string list \<Rightarrow> ('w, string list) git_act" where
  "stage_add h repoCwd actionId paths approved =
     (if paths \<noteq> [] then
        act_bind (spawnGitCmd h (''add'' # ''--'' # paths) repoCwd [(''GIT_INDEX_FILE'', git_path repoCwd ''co-index-'' actionId)])
          (\<lambda>_. act_return (jset_of (approved @ paths)))
      else act_return approved)"

definition read_staging :: "string \<Rightarrow> ('w, staging_file option) git_act" where
  "read_staging actionId = (\<lambda>r. (Inr (jm_get (gr_staging r) actionId), r))"

definition stage_body :: "'w git_host \<Rightarrow> string \<Rightarrow> string \<Rightarrow> string \<Rightarrow> string list \<Rightarrow> ('w, tool_result) git_act" where
  "stage_body h repoCwd requestId workPackageRef paths =
     act_bind (read_staging requestId) (\<lambda>known.
      let source0 = (case known of None \<Rightarrow> [] | Some f \<Rightarrow> sf_sourceSha f);
          approved0 = (case known of None \<Rightarrow> [] | Some f \<Rightarrow> sf_approvedPaths f) in
      act_bind (stage_source h repoCwd requestId source0) (\<lambda>sourceSha.
      act_bind (stage_add h repoCwd requestId paths approved0) (\<lambda>approvedPaths.
      act_bind (spawnGitCmd h [''write-tree''] repoCwd [(''GIT_INDEX_FILE'', git_path repoCwd ''co-index-'' requestId)]) (\<lambda>treeSha.
      act_bind (write_staging h repoCwd requestId \<lparr>sf_stagedTreeSha = trim (go_stdout treeSha), sf_sourceSha = sourceSha,
          sf_approvedPaths = approvedPaths, sf_workPackageRef = workPackageRef\<rparr>) (\<lambda>_.
      git_answer h requestId ''git.stage_paths'' TS_SUCCEEDED
        (''Staged paths virtually for isolated tree generation: '' @ join '' '' paths)
        [''Executed git stage_paths virtually''] False)))))"

definition executeStagePaths :: "'w git_host \<Rightarrow> string \<Rightarrow> string \<Rightarrow> string \<Rightarrow> string list \<Rightarrow> ('w, tool_result) git_act" where
  "executeStagePaths h repoCwd requestId workPackageRef paths =
     act_try (stage_body h repoCwd requestId workPackageRef paths) act_return
       (\<lambda>m. git_fail h requestId (''Stage failed: '' @ m))"

section \<open>The action journal\<close>

text \<open>
  The journal of an action is the list the adapter wrote; without a file it is empty. The code answers \<open>[]\<close> also when an existing
  file cannot be read or parsed (the \<open>catch\<close> of \<open>readActionState\<close>), which makes it begin the action anew: the model's reads succeed.
\<close>

definition readActionState :: "string \<Rightarrow> 'w git_repo \<Rightarrow> action_entry list" where
  "readActionState actionId r = (case jm_get (gr_actions r) actionId of None \<Rightarrow> [] | Some es \<Rightarrow> es)"

definition read_actions :: "string \<Rightarrow> ('w, action_entry list) git_act" where
  "read_actions actionId = (\<lambda>r. (Inr (readActionState actionId r), r))"

definition appendActionState :: "'w git_host \<Rightarrow> string \<Rightarrow> string \<Rightarrow> action_entry \<Rightarrow> ('w, unit) git_act" where
  "appendActionState h repoCwd actionId e =
     act_bind (read_actions actionId) (\<lambda>existing.
     act_bind (on_outside (gh_writable h (git_path repoCwd ''co-action-'' actionId @ ''.json'')))
       (\<lambda>_ r. (Inr (), r\<lparr>gr_actions := jm_set actionId (existing @ [e]) (gr_actions r)\<rparr>)))"

fun find_claim :: "action_entry list \<Rightarrow> commit_claim option" where
  "find_claim [] = None"
| "find_claim (COMMIT_OBJECT_CLAIMED c # es) = Some c"
| "find_claim (e # es) = find_claim es"

section \<open>Commits\<close>

text \<open>The staging intent that a commit names, or why it cannot be used.\<close>

definition stage_intent :: "staging_file option \<Rightarrow> string \<Rightarrow> string + staging_file" where
  "stage_intent known workPackageRef =
     (let bad = (\<lambda>m. Inl (''Failed to resolve durable stage intent: '' @ m)) in
      case known of
        None \<Rightarrow> bad ''ENOENT: no such file or directory''
      | Some f \<Rightarrow>
          if sf_stagedTreeSha f = [] \<or> sf_sourceSha f = [] then
            bad ''Invalid staging state format: missing stagedTreeSha or sourceSha''
          else if sf_workPackageRef f = [] \<or> sf_workPackageRef f \<noteq> workPackageRef then
            bad (''Stage intent belongs to a different work package: '' @ sf_workPackageRef f)
          else Inr f)"

definition without_millis :: "string \<Rightarrow> string" where
  "without_millis s = take (length s - 5) s @ ''Z''"

definition or_default :: "string option \<Rightarrow> string \<Rightarrow> string" where
  "or_default v d = (if truthy v then or_empty v else d)"

definition generative_env :: "'w git_host \<Rightarrow> string \<Rightarrow> string \<Rightarrow> string \<Rightarrow> (string \<times> string) list" where
  "generative_env h isolatedRepo repoCwd stamp =
     (let name = or_default (gh_env h ''CO_AUTHOR_NAME'') ''Co-Agent'';
          email = or_default (gh_env h ''CO_AUTHOR_EMAIL'') ''agent@co'' in
      [(''GIT_DIR'', isolatedRepo), (''GIT_WORK_TREE'', repoCwd), (''GIT_AUTHOR_NAME'', name), (''GIT_AUTHOR_EMAIL'', email),
       (''GIT_AUTHOR_DATE'', stamp), (''GIT_COMMITTER_NAME'', name), (''GIT_COMMITTER_EMAIL'', email), (''GIT_COMMITTER_DATE'', stamp)])"

text \<open>Making the commit object in an isolated repository and claiming it.\<close>

definition isolate :: "'w git_host \<Rightarrow> string \<Rightarrow> ('w, string) git_act" where
  "isolate h repoCwd =
     act_bind (on_outside (gh_mkdtemp h (gh_tmpdir h @ ''/git-isolation-''))) (\<lambda>isolatedRepo.
     act_bind (spawnGitCmd h [''init'', ''--bare'', isolatedRepo] (gh_processCwd h) []) (\<lambda>_.
     act_bind (on_outside (gh_mkdir h (isolatedRepo @ ''/objects/info''))) (\<lambda>_.
     act_bind (on_outside (gh_writeFile h (isolatedRepo @ ''/objects/info/alternates'') (repoCwd @ ''/.git/objects''))) (\<lambda>_.
     act_return isolatedRepo))))"

definition make_bundle :: "(string \<Rightarrow> string) \<Rightarrow> 'w git_host \<Rightarrow> string \<Rightarrow> string \<Rightarrow> string \<Rightarrow> string \<Rightarrow> staging_file \<Rightarrow>
    ('w, commit_claim) git_act" where
  "make_bundle sha h repoCwd actionId workPackageRef message f =
     act_bind (isolate h repoCwd) (\<lambda>isolatedRepo.
     act_bind (git_clock h) (\<lambda>now.
     let stamp = or_default (gh_env h ''CO_AUTHOR_DATE'') (without_millis (toISOString now));
         env = generative_env h isolatedRepo repoCwd stamp;
         tempRef = ''refs/co-actions/'' @ actionId @ ''/candidate'';
         bundle = isolatedRepo @ ''/generation.bundle'' in
     act_bind (spawnGitCmd h [''commit-tree'', sf_stagedTreeSha f, ''-p'', sf_sourceSha f, ''-m'', message] isolatedRepo env) (\<lambda>out.
     let commitSha = trim (go_stdout out) in
     act_bind (spawnGitCmd h [''update-ref'', tempRef, commitSha] isolatedRepo env) (\<lambda>_.
     act_bind (spawnGitCmd h [''bundle'', ''create'', bundle, tempRef, ''^'' @ sf_sourceSha f] isolatedRepo env) (\<lambda>_.
     act_bind (spawnGitCmd h [''bundle'', ''verify'', bundle] isolatedRepo env) (\<lambda>_.
     act_bind (on_outside (gh_readFile h bundle)) (\<lambda>bytes.
     act_return \<lparr>cc_actionId = actionId, cc_commitSha = commitSha, cc_expectedStagedTreeSha = sf_stagedTreeSha f,
       cc_authorDate = stamp, cc_bundleArtifactPath = bundle, cc_bundleDigest = sha bytes, cc_bundleRef = tempRef,
       cc_sourceSha = sf_sourceSha f, cc_approvedPaths = sf_approvedPaths f, cc_workPackageRef = workPackageRef\<rparr>)))))))"

definition generate_commit :: "(string \<Rightarrow> string) \<Rightarrow> 'w git_host \<Rightarrow> string \<Rightarrow> string \<Rightarrow> string \<Rightarrow> string \<Rightarrow> staging_file \<Rightarrow>
    ('w, commit_claim) git_act" where
  "generate_commit sha h repoCwd actionId workPackageRef message f =
     act_bind (make_bundle sha h repoCwd actionId workPackageRef message f) (\<lambda>c.
     act_bind (appendActionState h repoCwd actionId (COMMIT_OBJECT_CLAIMED c)) (\<lambda>_. act_return c))"

definition new_claim :: "(string \<Rightarrow> string) \<Rightarrow> 'w git_host \<Rightarrow> string \<Rightarrow> string \<Rightarrow> string \<Rightarrow> string \<Rightarrow> string \<Rightarrow>
    ('w, commit_claim) git_act" where
  "new_claim sha h repoCwd actionId workPackageRef message stageActionId =
     (if stageActionId = [] then act_throw ''Missing explicit stageActionId for commit staging resolution''
      else act_bind (read_staging stageActionId) (\<lambda>known. case stage_intent known workPackageRef of
        Inl m \<Rightarrow> act_throw m
      | Inr f \<Rightarrow>
          act_bind (spawnGitCmd h [''rev-parse'', ''HEAD''] repoCwd []) (\<lambda>head.
          if trim (go_stdout head) \<noteq> sf_sourceSha f
          then act_throw ''Branch moved concurrently. Current HEAD no longer matches the stage-time base.''
          else generate_commit sha h repoCwd actionId workPackageRef message f)))"

definition import_commit :: "(string \<Rightarrow> string) \<Rightarrow> 'w git_host \<Rightarrow> string \<Rightarrow> commit_claim \<Rightarrow> ('w, unit) git_act" where
  "import_commit sha h repoCwd c =
     act_bind (on_outside (gh_readFile h (cc_bundleArtifactPath c))) (\<lambda>bytes.
     if sha bytes \<noteq> cc_bundleDigest c then act_throw ''Bundle checksum validation failed! Possible tampering.''
     else act_bind (spawnGitCmd h [''fetch'', ''--no-write-fetch-head'', cc_bundleArtifactPath c, cc_bundleRef c] repoCwd []) (\<lambda>_.
     act_bind (spawnGitCmd h [''log'', ''-1'', ''--format=%T'', cc_commitSha c] repoCwd []) (\<lambda>tree.
     if trim (go_stdout tree) \<noteq> cc_expectedStagedTreeSha c then act_throw ''Tree deterministic violation''
     else act_bind (spawnGitCmd h [''log'', ''-1'', ''--format=%ad'', ''--date=iso-strict'', cc_commitSha c] repoCwd []) (\<lambda>date.
     if replace_once ''+00:00'' ''Z'' (trim (go_stdout date)) \<noteq> replace_once ''+00:00'' ''Z'' (cc_authorDate c)
     then act_throw (''Timestamp deterministic violation: '' @ trim (go_stdout date) @ '' !== '' @ cc_authorDate c)
     else appendActionState h repoCwd (cc_actionId c) (IMPORT_VERIFIED (cc_actionId c))))))"

definition move_main :: "'w git_host \<Rightarrow> string \<Rightarrow> commit_claim \<Rightarrow> ('w, unit) git_act" where
  "move_main h repoCwd c =
     act_try (act_bind (spawnGitCmd h [''update-ref'', ''refs/heads/main'', cc_commitSha c, cc_sourceSha c] repoCwd [])
         (\<lambda>_. appendActionState h repoCwd (cc_actionId c) (REF_CAS_VERIFIED (cc_actionId c)))) act_return
       (\<lambda>_. act_bind (appendActionState h repoCwd (cc_actionId c) (LINEAGE_STALE_DRIFT (cc_actionId c)))
         (\<lambda>_. act_throw ''Branch moved concurrently. CAS failed.''))"

text \<open>The phases after the claim; each is skipped when the journal, as it was read at the start, has its entry.\<close>

definition commit_rest :: "(string \<Rightarrow> string) \<Rightarrow> 'w git_host \<Rightarrow> string \<Rightarrow> string \<Rightarrow> action_entry list \<Rightarrow>
    ('w, commit_claim) git_act \<Rightarrow> string \<Rightarrow> ('w, tool_result) git_act" where
  "commit_rest sha h repoCwd requestId existing binding message =
     (if \<exists>e \<in> set existing. is_COMMIT_OUTPUT_RECORDED e then
        act_bind (git_clock h) (\<lambda>now. act_return (git_result ''git-'' requestId now ''git.commit'' TS_SUCCEEDED
           ''Commit already executed and recorded.'' [] False))
      else act_bind binding (\<lambda>c.
        act_bind (if \<exists>e \<in> set existing. is_IMPORT_VERIFIED e then act_return () else import_commit sha h repoCwd c) (\<lambda>_.
        act_bind (if \<exists>e \<in> set existing. is_REF_CAS_VERIFIED e then act_return () else move_main h repoCwd c) (\<lambda>_.
        act_bind (appendActionState h repoCwd (cc_actionId c) (COMMIT_OUTPUT_RECORDED (cc_actionId c))) (\<lambda>_.
        git_answer h requestId ''git.commit'' TS_SUCCEEDED (''git commit --no-verify -m '' @ message)
          [''Git commit created '' @ cc_commitSha c] False)))))"

definition commit_body :: "(string \<Rightarrow> string) \<Rightarrow> 'w git_host \<Rightarrow> string \<Rightarrow> string \<Rightarrow> string \<Rightarrow> string \<Rightarrow> string \<Rightarrow>
    ('w, tool_result) git_act" where
  "commit_body sha h repoCwd requestId workPackageRef message stageActionId =
     act_bind (read_actions requestId) (\<lambda>existing.
      case find_claim existing of
        Some c \<Rightarrow>
          if cc_workPackageRef c = [] \<or> cc_workPackageRef c \<noteq> workPackageRef
          then act_throw (''Commit claim belongs to a different work package: '' @ cc_workPackageRef c)
          else commit_rest sha h repoCwd requestId existing (act_return c) message
      | None \<Rightarrow> commit_rest sha h repoCwd requestId existing
          (new_claim sha h repoCwd requestId workPackageRef message stageActionId) message)"

definition executeCommit :: "(string \<Rightarrow> string) \<Rightarrow> 'w git_host \<Rightarrow> string \<Rightarrow> string \<Rightarrow> string \<Rightarrow> string \<Rightarrow> string \<Rightarrow>
    ('w, tool_result) git_act" where
  "executeCommit sha h repoCwd requestId workPackageRef message stageActionId =
     act_try (commit_body sha h repoCwd requestId workPackageRef message stageActionId) act_return
       (\<lambda>m. git_fail h requestId (''Commit failed: '' @ m))"

section \<open>Pushing\<close>

text \<open>\<open>ls-remote\<close> prints the object, a tab and the name of the ref.\<close>

definition remote_sha :: "git_output \<Rightarrow> string" where
  "remote_sha out = trim (takeWhile (\<lambda>c. c \<noteq> CHR 0x09) (go_stdout out))"

definition ls_main :: "'w git_host \<Rightarrow> string \<Rightarrow> ('w, git_output) git_act" where
  "ls_main h repoCwd = spawnGitCmd h [''ls-remote'', ''origin'', ''refs/heads/main''] repoCwd []"

definition fast_forward :: "'w git_host \<Rightarrow> string \<Rightarrow> string \<Rightarrow> string \<Rightarrow> ('w, unit) git_act" where
  "fast_forward h repoCwd candidateSha expectedRemoteSha =
     act_bind (spawnGitCmd h [''merge-base'', candidateSha, expectedRemoteSha] repoCwd [])
       (\<lambda>out. if trim (go_stdout out) \<noteq> expectedRemoteSha then act_throw ''Not fast-forward'' else act_return ())"

definition push_candidate :: "'w git_host \<Rightarrow> string \<Rightarrow> string \<Rightarrow> string \<Rightarrow> ('w, tool_result) git_act" where
  "push_candidate h repoCwd requestId candidateSha =
     act_try (spawnGitCmd h [''push'', ''origin'', candidateSha @ '':refs/heads/main''] repoCwd [])
       (\<lambda>_. act_bind (ls_main h repoCwd) (\<lambda>post.
          if remote_sha post \<noteq> candidateSha
          then git_fail h requestId ''Remote destination did not adopt the exact candidate SHA. Entering reconciliation.''
          else git_answer h requestId ''git.push_main'' TS_SUCCEEDED (''git push origin '' @ candidateSha @ '':refs/heads/main'')
            [''Git pushed exact candidate '' @ candidateSha @ '' to origin main''] False))
       (\<lambda>m. git_answer h requestId ''git.push_main'' TS_FAILED (''Push rejected. Entering reconciliation. '' @ m) [] True)"

definition push_body :: "'w git_host \<Rightarrow> string \<Rightarrow> string \<Rightarrow> string \<Rightarrow> string \<Rightarrow> string \<Rightarrow> ('w, tool_result) git_act" where
  "push_body h repoCwd requestId workPackageRef expectedRemoteSha commitActionId =
     (if commitActionId = [] then
        git_fail h requestId ''push_main requires an explicit commitActionId to bind to the verified candidate''
      else act_bind (read_actions commitActionId) (\<lambda>existing. case find_claim existing of
        None \<Rightarrow> git_fail h requestId ''No durable claim found for push_main. Refusing to push a mutable HEAD.''
      | Some claim \<Rightarrow>
          if cc_commitSha claim = [] then
            git_fail h requestId ''No durable claim found for push_main. Refusing to push a mutable HEAD.''
          else if cc_workPackageRef claim = [] \<or> cc_workPackageRef claim \<noteq> workPackageRef then
            git_fail h requestId (''Commit claim belongs to a different work package: '' @ cc_workPackageRef claim)
          else act_bind (ls_main h repoCwd) (\<lambda>remote.
            if remote_sha remote \<noteq> expectedRemoteSha then
              git_fail h requestId (''Remote destination ('' @ remote_sha remote @
                '') differs from grant-bound expectedRemoteSha ('' @ expectedRemoteSha @ ''). Refusing to push.'')
            else act_try (fast_forward h repoCwd (cc_commitSha claim) expectedRemoteSha)
              (\<lambda>_. push_candidate h repoCwd requestId (cc_commitSha claim))
              (\<lambda>_. git_fail h requestId (''Proposed push is non-fast-forward. Refusing to rewrite history '' @
                ''without explicit GRANT_HISTORY_REWRITE.'')))))"

definition executePushMain :: "'w git_host \<Rightarrow> string \<Rightarrow> string \<Rightarrow> string \<Rightarrow> string \<Rightarrow> string \<Rightarrow> ('w, tool_result) git_act" where
  "executePushMain h repoCwd requestId workPackageRef expectedRemoteSha commitActionId =
     act_try (push_body h repoCwd requestId workPackageRef expectedRemoteSha commitActionId) act_return
       (\<lambda>m. git_fail h requestId (''Push failed: '' @ m))"

section \<open>The adapter\<close>

definition ALLOWED_OPERATIONS :: "string list" where
  "ALLOWED_OPERATIONS = [''status'', ''diff'', ''show'', ''rev-parse'', ''stage_paths'', ''commit'', ''push_main'']"

definition read_args :: "string \<Rightarrow> string list" where
  "read_args op =
     (if op = ''status'' then [''status'', ''--short''] else if op = ''diff'' then [''diff'']
      else if op = ''show'' then [''show''] else [''rev-parse'', ''HEAD''])"

definition newline :: string where
  "newline = [CHR 0x0A]"

definition run_read :: "'w git_host \<Rightarrow> string \<Rightarrow> tool_request \<Rightarrow> string list \<Rightarrow> ('w, tool_result) git_act" where
  "run_read h repoCwd q args =
     act_try (act_bind (spawnGit h repoCwd args) (\<lambda>out.
         git_answer h (tq_requestId q) (tq_operationId q) (if go_code out \<noteq> 0 then TS_FAILED else TS_SUCCEEDED)
           (''git '' @ join '' '' args @ newline @ ''Exit code: '' @ show_int (go_code out) @ newline @ ''STDOUT:'' @ newline @
            go_stdout out @ newline @ ''STDERR:'' @ newline @ go_stderr out) [] False)) act_return
       (\<lambda>m. git_fail h (tq_requestId q) (''Execution threw: '' @ m))"

text \<open>A parameter that the code casts to a text and tests for truth.\<close>

definition text_param :: "tool_request \<Rightarrow> string \<Rightarrow> string" where
  "text_param q k =
     (case param q k of None \<Rightarrow> [] | Some v \<Rightarrow> if v = JBool False \<or> v = JNum 0 then [] else js_string v)"

definition executeAuthorized :: "(string \<Rightarrow> string) \<Rightarrow> 'w git_host \<Rightarrow> string \<Rightarrow> authorized_request \<Rightarrow> ('w, tool_result) git_act" where
  "executeAuthorized sha h repoCwd a =
     (case parse_authorized a of
        Inl _ \<Rightarrow> act_throw zod_text
      | Inr a' \<Rightarrow>
          let q = az_request a'; rid = tq_requestId q; ref = tq_workPackageRef q;
              op = replace_first ''git.'' (tq_operationId q) in
          if op \<notin> set ALLOWED_OPERATIONS then git_fail h rid (''Git operation '' @ [CHR 0x27] @ op @ [CHR 0x27] @ '' not allowed.'')
          else if op = ''stage_paths'' then
            (case json_arr (param q ''paths'') of
               None \<Rightarrow> git_fail h rid ''stage_paths requires paths array''
             | Some [] \<Rightarrow> git_fail h rid ''paths array cannot be empty''
             | Some vs \<Rightarrow>
                 if \<exists>v \<in> set vs. v \<in> {JStr ''.'', JStr ''-A'', JStr ''--all''}
                 then git_fail h rid ''Broad stage paths are not allowed''
                 else executeStagePaths h repoCwd rid ref (map js_string vs))
          else if op = ''commit'' then
            (case json_str (param q ''message'') of
               None \<Rightarrow> git_fail h rid ''commit requires message''
             | Some m \<Rightarrow> executeCommit sha h repoCwd rid ref m (text_param q ''stageActionId''))
          else if op = ''push_main'' then
            executePushMain h repoCwd rid ref (text_param q ''expectedRemoteSha'') (text_param q ''commitActionId'')
          else run_read h repoCwd q (read_args op))"

section \<open>Quiet actions: the journals stay as they are\<close>

definition journals :: "'w git_repo \<Rightarrow> string \<Rightarrow> action_entry list" where
  "journals r = (\<lambda>i. readActionState i r)"

definition quiet :: "('w, 'a) git_act \<Rightarrow> bool" where
  "quiet m \<longleftrightarrow> (\<forall>r. journals (snd (m r)) = journals r)"

named_theorems quiets \<open>actions that write no journal\<close>

lemma quiet_return [quiets]: "quiet (act_return x)" by (simp add: quiet_def act_return_def)
lemma quiet_throw [quiets]: "quiet (act_throw e)" by (simp add: quiet_def act_throw_def)

lemma quiet_bind [quiets]: "quiet m \<Longrightarrow> (\<And>x. quiet (k x)) \<Longrightarrow> quiet (act_bind m k)"
  unfolding quiet_def act_bind_def by (simp split: prod.split sum.split) (metis snd_conv)

lemma quiet_try [quiets]: "quiet m \<Longrightarrow> (\<And>x. quiet (k x)) \<Longrightarrow> (\<And>e. quiet (f e)) \<Longrightarrow> quiet (act_try m k f)"
  unfolding quiet_def act_try_def by (simp split: prod.split sum.split) (metis snd_conv)

lemma quiet_if [quiets]: "(b \<Longrightarrow> quiet m) \<Longrightarrow> (\<not> b \<Longrightarrow> quiet n) \<Longrightarrow> quiet (if b then m else n)"
  by simp

lemma quiet_outside [quiets]: "quiet (on_outside m)"
  by (auto simp: quiet_def on_outside_def journals_def readActionState_def split: prod.split)

lemma quiet_clock [quiets]: "quiet (git_clock h)" by (simp add: quiet_def git_clock_def)
lemma quiet_access [quiets]: "quiet (git_access h p)" by (simp add: quiet_def git_access_def)
lemma quiet_checked [quiets]: "quiet (git_checked x)" by (auto simp: git_checked_def intro: quiets)
lemma quiet_spawn [quiets]: "quiet (spawnGitCmd h args cwd env)" by (simp add: spawnGitCmd_def quiets)
lemma quiet_fail [quiets]: "quiet (git_fail h i m)" unfolding git_fail_def by (intro quiets)
lemma quiet_answer [quiets]: "quiet (git_answer h i op st m es b)" unfolding git_answer_def by (intro quiets)

lemma quiet_staging [quiets]: "quiet (write_staging h cwd i f)"
  unfolding write_staging_def by (intro quiets) (simp add: quiet_def journals_def readActionState_def)

lemma quiet_bundle [quiets]: "quiet (make_bundle sha h cwd i ref msg f)"
  unfolding make_bundle_def isolate_def Let_def by (intro quiets)

lemma quiet_read_staging [quiets]: "quiet (read_staging i)" by (simp add: quiet_def read_staging_def)
lemma quiet_read_actions [quiets]: "quiet (read_actions i)" by (simp add: quiet_def read_actions_def)

lemma quiet_stage [quiets]: "quiet (executeStagePaths h cwd i ref paths)"
  unfolding executeStagePaths_def stage_body_def stage_source_def stage_add_def Let_def by (intro quiets)

lemma quiet_push [quiets]: "quiet (executePushMain h cwd i ref expected commit)"
proof -
  have "quiet (case c of None \<Rightarrow> m | Some x \<Rightarrow> k x)" if "quiet m" "\<And>x. quiet (k x)" for m :: "('a, 'b) git_act" and k and c :: "commit_claim option"
    using that by (cases c) auto
  note quiet_option = this
  show ?thesis
    unfolding executePushMain_def push_body_def push_candidate_def fast_forward_def ls_main_def
    by (intro quiets quiet_option)
qed

section \<open>The protocol of a commit\<close>

text \<open>
  The abstract life of a commit action: claimed, imported, moved, recorded. A journal follows the protocol when
  each of its entries is a step of it; a failed move is noted and may be tried again.
\<close>

datatype commit_phase = P_NONE | P_CLAIMED | P_IMPORTED | P_MOVED | P_RECORDED

fun next_phase :: "string \<Rightarrow> string \<Rightarrow> commit_phase \<Rightarrow> action_entry \<Rightarrow> commit_phase option" where
  "next_phase i w P_NONE (COMMIT_OBJECT_CLAIMED c) = (if cc_actionId c = i \<and> cc_workPackageRef c = w \<and> w \<noteq> [] then Some P_CLAIMED else None)"
| "next_phase i w P_CLAIMED (IMPORT_VERIFIED j) = (if j = i then Some P_IMPORTED else None)"
| "next_phase i w P_IMPORTED (LINEAGE_STALE_DRIFT j) = (if j = i then Some P_IMPORTED else None)"
| "next_phase i w P_IMPORTED (REF_CAS_VERIFIED j) = (if j = i then Some P_MOVED else None)"
| "next_phase i w P_MOVED (COMMIT_OUTPUT_RECORDED j) = (if j = i then Some P_RECORDED else None)"
| "next_phase i w p e = None"

fun phase_from :: "string \<Rightarrow> string \<Rightarrow> commit_phase \<Rightarrow> action_entry list \<Rightarrow> commit_phase option" where
  "phase_from i w p [] = Some p"
| "phase_from i w p (e # es) = (case next_phase i w p e of None \<Rightarrow> None | Some q \<Rightarrow> phase_from i w q es)"

definition phase_of :: "string \<Rightarrow> string \<Rightarrow> action_entry list \<Rightarrow> commit_phase option" where
  "phase_of i w es = phase_from i w P_NONE es"

fun phase_rank :: "commit_phase \<Rightarrow> nat" where
  "phase_rank P_NONE = 0" | "phase_rank P_CLAIMED = 1" | "phase_rank P_IMPORTED = 2"
| "phase_rank P_MOVED = 3" | "phase_rank P_RECORDED = 4"

lemma phase_from_append: "phase_from i w p (xs @ ys) = (case phase_from i w p xs of None \<Rightarrow> None | Some q \<Rightarrow> phase_from i w q ys)"
  by (induction xs arbitrary: p) (auto split: option.splits)

lemma phase_of_snoc: "phase_of i w (es @ [e]) = (case phase_of i w es of None \<Rightarrow> None | Some p \<Rightarrow> next_phase i w p e)"
  by (auto simp: phase_of_def phase_from_append split: option.splits)

text \<open>The phase of a journal is what the code reads off it.\<close>

lemma phase_facts:
  assumes "phase_of i w es = Some p"
  shows "(find_claim es \<noteq> None \<longleftrightarrow> 1 \<le> phase_rank p) \<and>
    (\<forall>c. find_claim es = Some c \<longrightarrow> cc_actionId c = i \<and> cc_workPackageRef c = w \<and> w \<noteq> []) \<and>
    ((\<exists>e \<in> set es. is_IMPORT_VERIFIED e) \<longleftrightarrow> 2 \<le> phase_rank p) \<and>
    ((\<exists>e \<in> set es. is_REF_CAS_VERIFIED e) \<longleftrightarrow> 3 \<le> phase_rank p) \<and>
    ((\<exists>e \<in> set es. is_COMMIT_OUTPUT_RECORDED e) \<longleftrightarrow> p = P_RECORDED)"
  using assms
proof (induction es arbitrary: p rule: rev_induct)
  case Nil
  then show ?case by (auto simp: phase_of_def)
next
  case (snoc e es)
  then obtain q where q: "phase_of i w es = Some q" and e: "next_phase i w q e = Some p"
    by (auto simp: phase_of_snoc split: option.splits)
  have claim: "find_claim (es @ [e]) = (case find_claim es of None \<Rightarrow> find_claim [e] | Some c \<Rightarrow> Some c)" for e
    by (induction es rule: find_claim.induct) auto
  from e snoc.IH[OF q] show ?case
    by (cases q; cases e) (auto simp: claim split: if_splits option.splits)
qed

text \<open>What an action appended to the journals.\<close>

definition wrote :: "string \<Rightarrow> action_entry list \<Rightarrow> 'w git_repo \<Rightarrow> 'w git_repo \<Rightarrow> bool" where
  "wrote i es r r' \<longleftrightarrow> journals r' = (journals r)(i := journals r i @ es)"

lemma wrote_Nil: "journals r' = journals r \<Longrightarrow> wrote i [] r r'"
  by (simp add: wrote_def)

lemma wrote_trans: "wrote i es r r' \<Longrightarrow> wrote i fs r' r'' \<Longrightarrow> wrote i (es @ fs) r r''"
  by (simp add: wrote_def)

lemma quietD: "quiet m \<Longrightarrow> m r = (res, r') \<Longrightarrow> journals r' = journals r"
  by (metis quiet_def snd_conv)

lemma append_wrote:
  assumes "appendActionState h cwd i e r = (res, r')"
  shows "wrote i (case res of Inl _ \<Rightarrow> [] | Inr _ \<Rightarrow> [e]) r r'"
  using assms
  by (auto simp: appendActionState_def act_bind_def read_actions_def on_outside_def wrote_def journals_def readActionState_def
      fun_eq_iff split: prod.splits sum.splits option.splits)

text \<open>
  \<open>protocol m i w p ps\<close>: run on a journal of action \<open>i\<close> in phase \<open>p\<close>, the action leaves a journal that follows the
  protocol, in a phase of \<open>ps\<close> if it returned, and leaves the other journals alone.
\<close>

definition others_kept :: "string \<Rightarrow> 'w git_repo \<Rightarrow> 'w git_repo \<Rightarrow> bool" where
  "others_kept i r r' \<longleftrightarrow> (\<forall>j. j \<noteq> i \<longrightarrow> journals r' j = journals r j)"

definition protocol :: "('w, 'a) git_act \<Rightarrow> string \<Rightarrow> string \<Rightarrow> commit_phase \<Rightarrow> ('a \<Rightarrow> commit_phase \<Rightarrow> bool) \<Rightarrow> bool" where
  "protocol m i w p ok \<longleftrightarrow> (\<forall>r res r'. m r = (res, r') \<longrightarrow> phase_of i w (journals r i) = Some p \<longrightarrow>
     others_kept i r r' \<and> (\<exists>q. phase_of i w (journals r' i) = Some q \<and> (\<forall>x. res = Inr x \<longrightarrow> ok x q)))"

lemma protocolD:
  assumes "protocol m i w p ok" "m r = (res, r')" "phase_of i w (journals r i) = Some p"
  obtains q where "others_kept i r r'" "phase_of i w (journals r' i) = Some q" "\<forall>x. res = Inr x \<longrightarrow> ok x q"
  using assms unfolding protocol_def by (meson that)

lemma protocol_bind:
  assumes "protocol m i w p mid" "\<And>x q. mid x q \<Longrightarrow> protocol (k x) i w q ok"
  shows "protocol (act_bind m k) i w p ok"
  unfolding protocol_def
proof (intro allI impI)
  fix r res r'
  assume run: "act_bind m k r = (res, r')" and ph: "phase_of i w (journals r i) = Some p"
  obtain a u where m: "m r = (a, u)" by force
  from assms(1) m ph obtain q where q: "others_kept i r u" "phase_of i w (journals u i) = Some q" "\<forall>x. a = Inr x \<longrightarrow> mid x q"
    by (rule protocolD)
  show "others_kept i r r' \<and> (\<exists>q. phase_of i w (journals r' i) = Some q \<and> (\<forall>x. res = Inr x \<longrightarrow> ok x q))"
  proof (cases a)
    case (Inl e)
    then show ?thesis using run m q by (auto simp: act_bind_def)
  next
    case (Inr x)
    then have "k x u = (res, r')" using run m by (simp add: act_bind_def)
    from protocolD[OF assms(2)[OF q(3)[rule_format, OF Inr]] this q(2)] q(1) show ?thesis unfolding others_kept_def by metis
  qed
qed

lemma protocol_quiet: "quiet m \<Longrightarrow> (\<And>x. ok x p) \<Longrightarrow> protocol m i w p ok"
  unfolding protocol_def others_kept_def by (metis quietD)

lemma protocol_append:
  "next_phase i w p e = Some q \<Longrightarrow> protocol (appendActionState h cwd i e) i w p (\<lambda>_ q'. q' = q)"
  unfolding protocol_def others_kept_def
  by (auto dest!: append_wrote simp: wrote_def phase_of_snoc split: sum.splits)

lemma protocol_weaken: "protocol m i w p ok \<Longrightarrow> (\<And>x q. ok x q \<Longrightarrow> ok' x q) \<Longrightarrow> protocol m i w p ok'"
  unfolding protocol_def by (meson)

lemma protocol_return: "ok x p \<Longrightarrow> protocol (act_return x) i w p ok"
  by (simp add: protocol_def others_kept_def act_return_def)

lemma protocol_throw: "protocol (act_throw e) i w p ok"
  by (simp add: protocol_def others_kept_def act_throw_def)

lemma protocol_try:
  assumes "protocol m i w p mid" "\<And>x q. mid x q \<Longrightarrow> protocol (k x) i w q ok"
    "\<And>e r r' q. m r = (Inl e, r') \<Longrightarrow> phase_of i w (journals r i) = Some p \<Longrightarrow> phase_of i w (journals r' i) = Some q \<Longrightarrow>
       protocol (f e) i w q ok"
  shows "protocol (act_try m k f) i w p ok"
  unfolding protocol_def
proof (intro allI impI)
  fix r res r'
  assume run: "act_try m k f r = (res, r')" and ph: "phase_of i w (journals r i) = Some p"
  obtain a u where m: "m r = (a, u)" by force
  from assms(1) m ph obtain q where q: "others_kept i r u" "phase_of i w (journals u i) = Some q" "\<forall>x. a = Inr x \<longrightarrow> mid x q"
    by (rule protocolD)
  have "\<exists>n. n u = (res, r') \<and> protocol n i w q ok"
  proof (cases a)
    case (Inl e)
    then show ?thesis using run m assms(3)[of r e u q] ph q(2) by (auto simp: act_try_def)
  next
    case (Inr x)
    then show ?thesis using run m assms(2)[of x q] q(3) by (auto simp: act_try_def)
  qed
  then obtain n where n: "n u = (res, r')" "protocol n i w q ok" by blast
  from protocolD[OF n(2,1) q(2)] q(1)
  show "others_kept i r r' \<and> (\<exists>q. phase_of i w (journals r' i) = Some q \<and> (\<forall>x. res = Inr x \<longrightarrow> ok x q))"
    unfolding others_kept_def by metis
qed

lemma protocol_after_quiet: "quiet m \<Longrightarrow> (\<And>x. protocol (k x) i w p ok) \<Longrightarrow> protocol (act_bind m k) i w p ok"
  by (rule protocol_bind[where mid = "\<lambda>_ q. q = p"]) (auto intro: protocol_quiet)

lemma protocol_seq:
  "protocol m i w p (\<lambda>_ q. q = p') \<Longrightarrow> (\<And>x. protocol (k x) i w p' ok) \<Longrightarrow> protocol (act_bind m k) i w p ok"
  by (rule protocol_bind[where mid = "\<lambda>_ q. q = p'"]) auto

lemma protocol_if: "(b \<Longrightarrow> protocol m i w p ok) \<Longrightarrow> (\<not> b \<Longrightarrow> protocol n i w p ok) \<Longrightarrow> protocol (if b then m else n) i w p ok"
  by simp

lemma import_protocol:
  assumes "cc_actionId c = i"
  shows "protocol (import_commit sha h cwd c) i w P_CLAIMED (\<lambda>_ q. q = P_IMPORTED)"
  unfolding import_commit_def assms
  by (intro protocol_after_quiet protocol_if protocol_throw protocol_append quiets) simp

text \<open>A failed move is noted only where it was tried: after the import.\<close>

lemma move_protocol:
  assumes "cc_actionId c = i"
  shows "protocol (move_main h cwd c) i w P_IMPORTED (\<lambda>_ q. q = P_MOVED)"
proof -
  let ?append = "\<lambda>e. appendActionState h cwd i e"
  have spawned: "protocol (act_bind (spawnGitCmd h args cwd []) (\<lambda>_. ?append (REF_CAS_VERIFIED i))) i w P_IMPORTED (\<lambda>_ q. q = P_MOVED)" for args
    by (rule protocol_bind[where mid = "\<lambda>_ q. q = P_IMPORTED"]) (auto intro!: protocol_quiet quiets protocol_append)
  have stays: "phase_of i w (journals r' i) = Some P_IMPORTED"
    if "act_bind (spawnGitCmd h args cwd []) (\<lambda>_. ?append (REF_CAS_VERIFIED i)) r = (Inl e, r')"
      "phase_of i w (journals r i) = Some P_IMPORTED" for args e r r'
    using that by (auto simp: act_bind_throws wrote_def dest!: append_wrote quietD[OF quiet_spawn])
  have note_drift: "protocol (act_bind (?append (LINEAGE_STALE_DRIFT i)) (\<lambda>_. act_throw m)) i w P_IMPORTED (\<lambda>_ q. q = P_MOVED)" for m
    by (rule protocol_bind[OF protocol_append]) (auto intro: protocol_throw)
  show ?thesis unfolding move_main_def assms
    by (rule protocol_try[OF spawned]) (auto intro: protocol_return simp: note_drift dest!: stays)
qed

lemma protocol_intent:
  assumes "\<And>f. ref \<noteq> [] \<Longrightarrow> protocol (g f) i w p ok"
  shows "protocol (case stage_intent known ref of Inl m \<Rightarrow> act_throw m | Inr f \<Rightarrow> g f) i w p ok"
proof (cases "stage_intent known ref")
  case (Inr f)
  then have "ref \<noteq> []" by (auto simp: stage_intent_def Let_def split: option.splits if_splits)
  then show ?thesis using assms Inr by simp
qed (simp add: protocol_throw)

lemma claim_protocol:
  "protocol (new_claim sha h cwd i ref msg st) i ref P_NONE (\<lambda>c q. q = P_CLAIMED \<and> cc_actionId c = i)"
proof -
  have bundled: "protocol (make_bundle sha h cwd i ref msg f) i ref P_NONE (\<lambda>c q. q = P_NONE \<and> cc_actionId c = i \<and> cc_workPackageRef c = ref)" for f
    unfolding make_bundle_def isolate_def Let_def by (intro protocol_after_quiet protocol_return quiets) simp
  have made: "protocol (generate_commit sha h cwd i ref msg f) i ref P_NONE (\<lambda>c q. q = P_CLAIMED \<and> cc_actionId c = i)" if "ref \<noteq> []" for f
    unfolding generate_commit_def using that
    by (auto intro!: protocol_bind[OF bundled] protocol_bind[OF protocol_append] protocol_return)
  show ?thesis
    unfolding new_claim_def
    by (intro protocol_after_quiet protocol_if protocol_intent protocol_throw quiets made)
qed

lemma rest_protocol:
  assumes start: "phase_of i w es = Some p"
    and claimed: "protocol binding i w p (\<lambda>c q. q = (if p = P_NONE then P_CLAIMED else p) \<and> cc_actionId c = i)"
  shows "protocol (commit_rest sha h cwd i es binding msg) i w p (\<lambda>_ q. q = P_RECORDED)"
proof -
  have recorded: "(\<exists>e \<in> set es. is_COMMIT_OUTPUT_RECORDED e) \<longleftrightarrow> p = P_RECORDED"
    and moved: "(\<exists>e \<in> set es. is_REF_CAS_VERIFIED e) \<longleftrightarrow> 3 \<le> phase_rank p"
    and imported: "(\<exists>e \<in> set es. is_IMPORT_VERIFIED e) \<longleftrightarrow> 2 \<le> phase_rank p"
    using phase_facts[OF start] by blast+
  let ?import = "\<lambda>c. if 2 \<le> phase_rank p then act_return () else import_commit sha h cwd c"
  let ?move = "\<lambda>c. if 3 \<le> phase_rank p then act_return () else move_main h cwd c"
  have import: "protocol (?import c) i w (if p = P_NONE then P_CLAIMED else p) (\<lambda>_ q. q = (if 3 \<le> phase_rank p then P_MOVED else P_IMPORTED))"
    if "cc_actionId c = i" "p \<noteq> P_RECORDED" for c
    using that by (cases p) (auto intro: protocol_return import_protocol)
  have move: "protocol (?move c) i w (if 3 \<le> phase_rank p then P_MOVED else P_IMPORTED) (\<lambda>_ q. q = P_MOVED)" if "cc_actionId c = i" for c
    using that by (auto intro: protocol_return move_protocol)
  have finish: "protocol (act_bind (appendActionState h cwd i (COMMIT_OUTPUT_RECORDED i)) (\<lambda>_. git_answer h i op st m es b)) i w P_MOVED
      (\<lambda>_ q. q = P_RECORDED)" for op st m es b
    by (rule protocol_bind[OF protocol_append]) (auto intro: protocol_quiet quiets)
  show ?thesis
  proof (cases "p = P_RECORDED")
    case True
    then show ?thesis using recorded unfolding commit_rest_def by (auto intro!: protocol_quiet quiets)
  next
    case False
    have "protocol (act_bind binding (\<lambda>c. act_bind (?import c) (\<lambda>_. act_bind (?move c) (\<lambda>_.
        act_bind (appendActionState h cwd (cc_actionId c) (COMMIT_OUTPUT_RECORDED (cc_actionId c))) (\<lambda>_.
        git_answer h i ''git.commit'' TS_SUCCEEDED (''git commit --no-verify -m '' @ msg)
          [''Git commit created '' @ cc_commitSha c] False))))) i w p (\<lambda>_ q. q = P_RECORDED)"
    proof (rule protocol_bind[OF claimed])
      fix c :: commit_claim and q assume "q = (if p = P_NONE then P_CLAIMED else p) \<and> cc_actionId c = i"
      then have q: "q = (if p = P_NONE then P_CLAIMED else p)" and c: "cc_actionId c = i" by auto
      show "protocol (act_bind (?import c) (\<lambda>_. act_bind (?move c) (\<lambda>_.
        act_bind (appendActionState h cwd (cc_actionId c) (COMMIT_OUTPUT_RECORDED (cc_actionId c))) (\<lambda>_.
        git_answer h i ''git.commit'' TS_SUCCEEDED (''git commit --no-verify -m '' @ msg)
          [''Git commit created '' @ cc_commitSha c] False)))) i w q (\<lambda>_ q. q = P_RECORDED)"
        unfolding q c by (intro protocol_seq[OF import[OF c False]] protocol_seq[OF move[OF c]] finish)
    qed
    then show ?thesis using False unfolding commit_rest_def recorded moved imported by simp
  qed
qed

text \<open>A failed call leaves a failed result; only a success is reported as one.\<close>

lemma fail_status: "git_fail h i m r = (Inr x, r') \<Longrightarrow> tx_status x = TS_FAILED \<and> r' = r"
  by (auto simp: git_fail_def act_bind_def git_clock_def git_checked_def act_return_def act_throw_def git_result_def split: if_splits)

lemma protocol_read:
  assumes "\<And>es. phase_of i w es = Some p \<Longrightarrow> protocol (k es) i w p ok"
  shows "protocol (act_bind (read_actions i) k) i w p ok"
  unfolding protocol_def
proof (intro allI impI)
  fix r res r'
  assume run: "act_bind (read_actions i) k r = (res, r')" and ph: "phase_of i w (journals r i) = Some p"
  have "k (journals r i) r = (res, r')" using run by (simp add: act_bind_def read_actions_def journals_def)
  from protocolD[OF assms[OF ph] this ph]
  show "others_kept i r r' \<and> (\<exists>q. phase_of i w (journals r' i) = Some q \<and> (\<forall>x. res = Inr x \<longrightarrow> ok x q))" by metis
qed

lemma commit_protocol: "protocol (commit_body sha h cwd i ref msg st) i ref p (\<lambda>_ q. q = P_RECORDED)"
  unfolding commit_body_def
proof (rule protocol_read)
  fix es assume ph: "phase_of i ref es = Some p"
  note facts = phase_facts[OF ph]
  show "protocol (case find_claim es of
        Some c \<Rightarrow> if cc_workPackageRef c = [] \<or> cc_workPackageRef c \<noteq> ref
          then act_throw (''Commit claim belongs to a different work package: '' @ cc_workPackageRef c)
          else commit_rest sha h cwd i es (act_return c) msg
      | None \<Rightarrow> commit_rest sha h cwd i es (new_claim sha h cwd i ref msg st) msg) i ref p (\<lambda>_ q. q = P_RECORDED)"
  proof (cases "find_claim es")
    case None
    with facts have "p = P_NONE" by (cases p) auto
    then have "protocol (commit_rest sha h cwd i es (new_claim sha h cwd i ref msg st) msg) i ref p (\<lambda>_ q. q = P_RECORDED)"
      using claim_protocol by (intro rest_protocol[OF ph]) simp
    then show ?thesis using None by simp
  next
    case (Some c)
    with facts have c: "p \<noteq> P_NONE" "cc_actionId c = i" by (cases p; auto)+
    then have "protocol (commit_rest sha h cwd i es (act_return c) msg) i ref p (\<lambda>_ q. q = P_RECORDED)"
      by (intro rest_protocol[OF ph] protocol_return) auto
    then show ?thesis using Some by (auto intro: protocol_throw)
  qed
qed

text \<open>Every journal of a reachable repository follows the protocol, whatever happens outside between the calls.\<close>

inductive git_reach :: "(string \<Rightarrow> string) \<Rightarrow> 'w git_host \<Rightarrow> string \<Rightarrow> 'w git_repo \<Rightarrow> bool" for sha h repoCwd where
  git_start: "git_reach sha h repoCwd \<lparr>gr_staging = [], gr_actions = [], gr_outside = w\<rparr>"
| git_call: "git_reach sha h repoCwd r \<Longrightarrow> git_reach sha h repoCwd (snd (executeAuthorized sha h repoCwd a r))"
| git_outside: "git_reach sha h repoCwd r \<Longrightarrow> git_reach sha h repoCwd (r\<lparr>gr_outside := w\<rparr>)"

definition journals_ok :: "'w git_repo \<Rightarrow> bool" where
  "journals_ok r \<longleftrightarrow> (\<forall>i. \<exists>w. phase_of i w (journals r i) \<noteq> None)"

lemma quiet_ok: "quiet m \<Longrightarrow> journals_ok r \<Longrightarrow> journals_ok (snd (m r))"
  by (simp add: quiet_def journals_ok_def)

text \<open>A journal of another work package makes the commit throw before anything is done.\<close>

lemma phase_none: "phase_of i w es = Some P_NONE \<longleftrightarrow> es = []"
proof (cases es rule: rev_cases)
  case (snoc fs e)
  have "next_phase i w p e \<noteq> Some P_NONE" for p by (cases p; cases e) auto
  then show ?thesis using snoc by (auto simp: phase_of_snoc split: option.splits)
qed (simp add: phase_of_def)

lemma foreign_claim_throws:
  assumes "phase_of i w (journals r i) \<noteq> None" "phase_of i ref (journals r i) = None"
  obtains m where "commit_body sha h cwd i ref msg st r = (Inl m, r)"
proof -
  obtain p where p: "phase_of i w (journals r i) = Some p" using assms(1) by auto
  have "journals r i \<noteq> []" using assms(2) by (metis phase_none option.distinct(1))
  then have "p \<noteq> P_NONE" using p by (metis phase_none)
  with phase_facts[OF p] obtain c where c: "find_claim (journals r i) = Some c" "cc_workPackageRef c = w"
    by (cases p) auto
  have w: "w \<noteq> ref" using assms by auto
  show thesis
    by (rule that) (use c w in \<open>simp add: commit_body_def act_bind_def read_actions_def act_throw_def journals_def\<close>)
qed

lemma commit_ok:
  assumes "journals_ok r"
  shows "journals_ok (snd (executeCommit sha h cwd i ref msg st r))"
proof -
  obtain res u where b: "commit_body sha h cwd i ref msg st r = (res, u)" by force
  have "journals_ok u"
  proof (cases "phase_of i ref (journals r i)")
    case None
    from assms obtain w where "phase_of i w (journals r i) \<noteq> None" unfolding journals_ok_def by blast
    from foreign_claim_throws[OF this None] b assms show ?thesis by (metis prod.inject)
  next
    case (Some p)
    obtain q where "others_kept i r u" "phase_of i ref (journals u i) = Some q"
      using protocolD[OF commit_protocol b Some] by blast
    then show ?thesis using assms by (auto simp: journals_ok_def others_kept_def) (metis option.distinct(1))
  qed
  then show ?thesis
    by (cases res) (auto simp: executeCommit_def act_try_def b act_return_def quiet_ok[OF quiet_fail])
qed

lemma authorized_ok:
  assumes "journals_ok r"
  shows "journals_ok (snd (executeAuthorized sha h cwd a r))"
proof -
  have "quiet (run_read h cwd q args)" for q args
    unfolding run_read_def spawnGit_def by (intro quiets)
  then show ?thesis using assms
    by (auto simp: executeAuthorized_def Let_def commit_ok act_throw_def
        intro!: quiet_ok[OF quiet_fail] quiet_ok[OF quiet_stage] quiet_ok[OF quiet_push] quiet_ok
        split: sum.split option.split list.split)
qed

lemma git_reach_ok: "git_reach sha h cwd r \<Longrightarrow> journals_ok r"
proof (induction rule: git_reach.induct)
  case (git_start w)
  then show ?case by (simp add: journals_ok_def journals_def readActionState_def phase_of_def)
next
  case (git_outside r w)
  then show ?case by (simp add: journals_ok_def journals_def readActionState_def)
qed (rule authorized_ok)

section \<open>Which processes the adapter starts\<close>

text \<open>The host that also lists the calls it was asked to make.\<close>

definition logging :: "'w git_host \<Rightarrow> ('w \<times> git_call list) git_host" where
  "logging h =
     (let lift = (\<lambda>m (w, cs). case m w of (res, w') \<Rightarrow> (res, (w', cs))) in
      \<lparr>gh_spawn = (\<lambda>c (w, cs). case gh_spawn h c w of (res, w') \<Rightarrow> (res, (w', cs @ [c]))),
       gh_access = (\<lambda>p (w, cs). gh_access h p w), gh_mkdtemp = (\<lambda>p. case_prod (\<lambda>w cs. case gh_mkdtemp h p w of (res, w') \<Rightarrow> (res, (w', cs)))),
       gh_mkdir = (\<lambda>p. lift (gh_mkdir h p)), gh_writeFile = (\<lambda>p t. lift (gh_writeFile h p t)),
       gh_readFile = (\<lambda>p (w, cs). case gh_readFile h p w of (res, w') \<Rightarrow> (res, (w', cs))),
       gh_writable = (\<lambda>p. lift (gh_writable h p)), gh_now = (\<lambda>(w, cs). gh_now h w), gh_env = gh_env h,
       gh_processCwd = gh_processCwd h, gh_tmpdir = gh_tmpdir h\<rparr>)"

text \<open>
  A text that git takes neither for an option nor for a forced refspec. Git's plumbing prints object names in hexadecimal, an
  unborn branch as \<^verbatim>\<open>HEAD\<close>, and nothing when it fails: all are plain.
\<close>

definition plain_name :: "string \<Rightarrow> bool" where
  "plain_name s \<longleftrightarrow> (case s of [] \<Rightarrow> True | c # _ \<Rightarrow> c \<noteq> CHR ''+'' \<and> c \<noteq> CHR ''-'')"

definition candidate_ref :: "string \<Rightarrow> string" where
  "candidate_ref i = ''refs/co-actions/'' @ i @ ''/candidate''"

text \<open>
  The closed list of calls, with every argument that is not a datum of the request pinned: in the repository the four reads, the
  queries of a push and of an import, the fetch of a bundle's candidate without a destination, the compare-and-swap of the local
  main, and the push of one commit out of \<open>pushable\<close> to main; with an index of the action's own \<open>read-tree\<close> of one name, \<open>add\<close> with
  the paths behind \<open>--\<close>, and \<open>write-tree\<close>; in an isolated bare repository the commit and its bundle.
\<close>

definition repository_call :: "string set \<Rightarrow> string list \<Rightarrow> bool" where
  "repository_call pushable args \<longleftrightarrow>
     args \<in> {[''status'', ''--short''], [''diff''], [''show''], [''rev-parse'', ''HEAD''], [''ls-remote'', ''origin'', ''refs/heads/main'']} \<or>
     (\<exists>c base. plain_name c \<and> args = [''merge-base'', c, base]) \<or>
     (\<exists>c. plain_name c \<and> args = [''log'', ''-1'', ''--format=%T'', c]) \<or>
     (\<exists>c. plain_name c \<and> args = [''log'', ''-1'', ''--format=%ad'', ''--date=iso-strict'', c]) \<or>
     (\<exists>file i. args = [''fetch'', ''--no-write-fetch-head'', file, candidate_ref i]) \<or>
     (\<exists>new old. plain_name new \<and> plain_name old \<and> args = [''update-ref'', ''refs/heads/main'', new, old]) \<or>
     (\<exists>c \<in> pushable. c \<noteq> [] \<and> plain_name c \<and> args = [''push'', ''origin'', c @ '':refs/heads/main''])"

definition index_call :: "string list \<Rightarrow> bool" where
  "index_call args \<longleftrightarrow> (\<exists>t. plain_name t \<and> args = [''read-tree'', t]) \<or> (\<exists>paths. args = ''add'' # ''--'' # paths) \<or> args = [''write-tree'']"

definition isolated_call :: "string \<Rightarrow> string list \<Rightarrow> bool" where
  "isolated_call i args \<longleftrightarrow>
     (\<exists>t p m. plain_name t \<and> plain_name p \<and> args = [''commit-tree'', t, ''-p'', p, ''-m'', m]) \<or>
     (\<exists>c. plain_name c \<and> args = [''update-ref'', candidate_ref i, c]) \<or>
     (\<exists>file p. args = [''bundle'', ''create'', file, candidate_ref i, ''^'' @ p]) \<or>
     (\<exists>file. args = [''bundle'', ''verify'', file])"

definition tame_call :: "string \<Rightarrow> string \<Rightarrow> string set \<Rightarrow> git_call \<Rightarrow> bool" where
  "tame_call repoCwd i pushable c \<longleftrightarrow>
     gc_cwd c = repoCwd \<and> gc_env c = [] \<and> repository_call pushable (gc_args c) \<or>
     gc_cwd c = repoCwd \<and> gc_env c = [(''GIT_INDEX_FILE'', git_path repoCwd ''co-index-'' i)] \<and> index_call (gc_args c) \<or>
     map_of (gc_env c) ''GIT_DIR'' = Some (gc_cwd c) \<and> isolated_call i (gc_args c) \<or>
     (\<exists>dir. gc_args c = [''init'', ''--bare'', dir])"

text \<open>What git prints for the names the adapter goes on to use, and what the adapter's files hold of them.\<close>

definition prints_names :: "'w git_host \<Rightarrow> bool" where
  "prints_names h \<longleftrightarrow> (\<forall>c w out w'. gh_spawn h c w = (Inr out, w') \<longrightarrow>
     hd (gc_args c) \<in> {''rev-parse'', ''write-tree'', ''commit-tree''} \<longrightarrow> plain_name (trim (go_stdout out)))"

definition claim_ok :: "commit_claim \<Rightarrow> bool" where
  "claim_ok c \<longleftrightarrow> plain_name (cc_commitSha c) \<and> plain_name (cc_sourceSha c) \<and> (\<exists>i. cc_bundleRef c = candidate_ref i)"

definition names_ok :: "'w git_repo \<Rightarrow> bool" where
  "names_ok r \<longleftrightarrow>
     (\<forall>f \<in> snd ` set (gr_staging r). plain_name (sf_stagedTreeSha f) \<and> plain_name (sf_sourceSha f)) \<and>
     (\<forall>es \<in> snd ` set (gr_actions r). \<forall>c. COMMIT_OBJECT_CLAIMED c \<in> set es \<longrightarrow> claim_ok c)"

text \<open>The commit that a push names: the one claimed by the action its parameter \<open>commitActionId\<close> points to.\<close>

definition claimed_in :: "string \<Rightarrow> 'w git_repo \<Rightarrow> string set" where
  "claimed_in j r = {cc_commitSha c |c. find_claim (readActionState j r) = Some c}"

subsection \<open>What an action keeps and gives\<close>

definition gives :: "('w \<Rightarrow> bool) \<Rightarrow> ('w, 'e, 'a) act \<Rightarrow> ('a \<Rightarrow> bool) \<Rightarrow> bool" where
  "gives P m Q \<longleftrightarrow> (\<forall>w. P w \<longrightarrow> P (snd (m w)) \<and> (\<forall>y. fst (m w) = Inr y \<longrightarrow> Q y))"

named_theorems gives_rules \<open>actions that keep an invariant and what they answer\<close>

lemma gives_return [gives_rules]: "Q y \<Longrightarrow> gives P (act_return y) Q" by (simp add: gives_def act_return_def)
lemma gives_throw [gives_rules]: "gives P (act_throw e) Q" by (simp add: gives_def act_throw_def)

lemma gives_bind [gives_rules]: "gives P m R \<Longrightarrow> (\<And>y. R y \<Longrightarrow> gives P (k y) Q) \<Longrightarrow> gives P (act_bind m k) Q"
  unfolding gives_def act_bind_def by (simp split: prod.split sum.split) (metis fst_conv snd_conv)

lemma gives_try [gives_rules]:
  "gives P m R \<Longrightarrow> (\<And>y. R y \<Longrightarrow> gives P (k y) Q) \<Longrightarrow> (\<And>e. gives P (f e) Q) \<Longrightarrow> gives P (act_try m k f) Q"
  unfolding gives_def act_try_def by (simp split: prod.split sum.split) (metis fst_conv snd_conv)

lemma gives_if [gives_rules]: "(b \<Longrightarrow> gives P m Q) \<Longrightarrow> (\<not> b \<Longrightarrow> gives P n Q) \<Longrightarrow> gives P (if b then m else n) Q"
  by simp

lemma gives_option [gives_rules]:
  "(c = None \<Longrightarrow> gives P m Q) \<Longrightarrow> (\<And>y. c = Some y \<Longrightarrow> gives P (k y) Q) \<Longrightarrow> gives P (case c of None \<Rightarrow> m | Some y \<Rightarrow> k y) Q"
  by (cases c) auto

lemma gives_sum [gives_rules]:
  "(\<And>e. c = Inl e \<Longrightarrow> gives P (m e) Q) \<Longrightarrow> (\<And>y. c = Inr y \<Longrightarrow> gives P (k y) Q) \<Longrightarrow> gives P (case c of Inl e \<Rightarrow> m e | Inr y \<Rightarrow> k y) Q"
  by (cases c) auto

lemma gives_keeps: "act_keeps P m \<Longrightarrow> gives P m (\<lambda>_. True)" by (simp add: gives_def act_keeps_def)
lemma gives_weaken: "gives P m R \<Longrightarrow> (\<And>y. R y \<Longrightarrow> Q y) \<Longrightarrow> gives P m Q" by (auto simp: gives_def)

subsection \<open>The invariant\<close>

text \<open>
  Tame calls so far, plain names in the files, and, while \<open>b\<close> holds, only \<open>pushable\<close> commits claimed by action \<open>j\<close>.
\<close>

definition fine :: "string \<Rightarrow> string \<Rightarrow> string set \<Rightarrow> string option \<Rightarrow> ('w \<times> git_call list) git_repo \<Rightarrow> bool" where
  "fine cwd i pushable j r \<longleftrightarrow> list_all (tame_call cwd i pushable) (snd (gr_outside r)) \<and> names_ok r \<and>
     (case j of None \<Rightarrow> True | Some a \<Rightarrow> claimed_in a r \<subseteq> pushable)"

lemma fine_outside: "fine cwd i K j r \<Longrightarrow> list_all (tame_call cwd i K) cs \<Longrightarrow> fine cwd i K j (r\<lparr>gr_outside := (w, cs)\<rparr>)"
  by (cases j) (simp_all add: fine_def names_ok_def claimed_in_def readActionState_def)

lemma gives_spawn:
  assumes "prints_names h" "tame_call cwd i K \<lparr>gc_args = args, gc_cwd = dir, gc_env = env\<rparr>"
  shows "gives (fine cwd i K j) (spawnGitCmd (logging h) args dir env)
    (\<lambda>out. hd args \<in> {''rev-parse'', ''write-tree'', ''commit-tree''} \<longrightarrow> plain_name (trim (go_stdout out)))"
  unfolding gives_def
proof (intro allI impI)
  fix r :: "('a \<times> git_call list) git_repo"
  assume fine: "fine cwd i K j r"
  let ?c = "\<lparr>gc_args = args, gc_cwd = dir, gc_env = env\<rparr>"
  obtain w cs res w' where out: "gr_outside r = (w, cs)" "gh_spawn h ?c w = (res, w')" by (metis surj_pair)
  then have run: "spawnGitCmd (logging h) args dir env r = (res, r\<lparr>gr_outside := (w', cs @ [?c])\<rparr>)"
    by (simp add: spawnGitCmd_def on_outside_def logging_def Let_def)
  have "fine cwd i K j (r\<lparr>gr_outside := (w', cs @ [?c])\<rparr>)"
    using fine out(1) assms(2) by (intro fine_outside) (auto simp: fine_def)
  then show "fine cwd i K j (snd (spawnGitCmd (logging h) args dir env r)) \<and>
      (\<forall>y. fst (spawnGitCmd (logging h) args dir env r) = Inr y \<longrightarrow>
        hd args \<in> {''rev-parse'', ''write-tree'', ''commit-tree''} \<longrightarrow> plain_name (trim (go_stdout y)))"
    using run out(2) assms(1) unfolding prints_names_def by fastforce
qed

lemma fine_files [gives_rules]:
  "gives (fine cwd i K j) (on_outside (gh_mkdtemp (logging h) p)) (\<lambda>_. True)"
  "gives (fine cwd i K j) (on_outside (gh_mkdir (logging h) p)) (\<lambda>_. True)"
  "gives (fine cwd i K j) (on_outside (gh_writeFile (logging h) p t)) (\<lambda>_. True)"
  "gives (fine cwd i K j) (on_outside (gh_readFile (logging h) p)) (\<lambda>_. True)"
  "gives (fine cwd i K j) (on_outside (gh_writable (logging h) p)) (\<lambda>_. True)"
  by (auto simp: gives_def on_outside_def logging_def Let_def split: prod.splits intro!: fine_outside; simp add: fine_def)+

lemma fine_reads [gives_rules]:
  "gives (fine cwd i K j) (git_clock h) (\<lambda>_. True)" "gives (fine cwd i K j) (git_access h p) (\<lambda>_. True)"
  "gives (fine cwd i K j) (git_checked y) (\<lambda>_. True)"
  by (auto simp: gives_def git_clock_def git_access_def git_checked_def act_return_def act_throw_def)

lemma fine_read_staging [gives_rules]: "gives (fine cwd i K j) (read_staging k)
    (\<lambda>known. \<forall>f. known = Some f \<longrightarrow> plain_name (sf_stagedTreeSha f) \<and> plain_name (sf_sourceSha f))"
  by (fastforce simp: gives_def read_staging_def fine_def names_ok_def dest: jm_get_Some_in)

lemma find_claim_in: "find_claim es = Some c \<Longrightarrow> COMMIT_OBJECT_CLAIMED c \<in> set es"
  by (induction es rule: find_claim.induct) auto

lemma read_claim_ok: "names_ok r \<Longrightarrow> find_claim (readActionState k r) = Some c \<Longrightarrow> claim_ok c"
  by (fastforce simp: names_ok_def readActionState_def split: option.splits dest: jm_get_Some_in find_claim_in)

lemma fine_read_actions [gives_rules]: "gives (fine cwd i K j) (read_actions k) (\<lambda>es. \<forall>c. find_claim es = Some c \<longrightarrow> claim_ok c)"
  by (auto simp: gives_def read_actions_def fine_def read_claim_ok)

lemma fine_read_claim: "gives (fine cwd i K (Some k)) (read_actions k)
    (\<lambda>es. \<forall>c. find_claim es = Some c \<longrightarrow> claim_ok c \<and> cc_commitSha c \<in> K)"
  by (auto simp: gives_def read_actions_def fine_def read_claim_ok claimed_in_def)

lemma fine_answers [gives_rules]: "gives (fine cwd i K j) (git_fail h k m) (\<lambda>_. True)"
  "gives (fine cwd i K j) (git_answer h k op st m es b) (\<lambda>_. True)"
  unfolding git_fail_def git_answer_def by (rule gives_rules)+

lemma jm_set_value: "(a, b) \<in> set (jm_set k v m) \<Longrightarrow> b = v \<or> (\<exists>a. (a, b) \<in> set m)"
  by (induction m rule: jm_set.induct) (auto split: if_splits)

lemma snd_jm_set: "snd ` set (jm_set k v m) \<subseteq> insert v (snd ` set m)"
  by (induction m rule: jm_set.induct) auto

lemma fine_write_staging:
  assumes "plain_name (sf_stagedTreeSha f)" "plain_name (sf_sourceSha f)"
  shows "gives (fine cwd i K j) (write_staging (logging h) dir k f) (\<lambda>_. True)"
proof -
  have "gives (fine cwd i K j) (\<lambda>r. (Inr (), r\<lparr>gr_staging := jm_set k f (gr_staging r)\<rparr>)) (\<lambda>_. True)"
    unfolding gives_def
  proof (intro allI impI conjI)
    fix r :: "('b \<times> git_call list) git_repo"
    assume "fine cwd i K j r"
    then show "fine cwd i K j (snd (Inr (), r\<lparr>gr_staging := jm_set k f (gr_staging r)\<rparr>))"
      using assms by (force simp: fine_def names_ok_def claimed_in_def readActionState_def cong: option.case_cong dest!: jm_set_value)
  qed simp
  note upd = this
  show ?thesis unfolding write_staging_def by (rule gives_bind [OF fine_files(5)], rule upd)
qed

lemma fine_append:
  assumes "\<And>c. e = COMMIT_OBJECT_CLAIMED c \<Longrightarrow> claim_ok c"
  shows "gives (fine cwd i K None) (appendActionState (logging h) dir k e) (\<lambda>_. True)"
proof -
  have "fine cwd i K None (r\<lparr>gr_actions := jm_set k (es @ [e]) (gr_actions r)\<rparr>)"
    if "fine cwd i K None r" "\<forall>c. COMMIT_OBJECT_CLAIMED c \<in> set es \<longrightarrow> claim_ok c" for r :: "('a \<times> git_call list) git_repo" and es
    using that assms snd_jm_set [of k "es @ [e]" "gr_actions r"] by (fastforce simp: fine_def names_ok_def)
  then have app: "gives (fine cwd i K None) (\<lambda>r :: ('a \<times> git_call list) git_repo. (Inr (), r\<lparr>gr_actions := jm_set k (es @ [e]) (gr_actions r)\<rparr>)) (\<lambda>_. True)"
    if "\<forall>c. COMMIT_OBJECT_CLAIMED c \<in> set es \<longrightarrow> claim_ok c" for es
    using that by (simp add: gives_def)
  have "gives (fine cwd i K None) (read_actions k) (\<lambda>es. \<forall>c. COMMIT_OBJECT_CLAIMED c \<in> set es \<longrightarrow> claim_ok c)"
    unfolding gives_def read_actions_def fine_def names_ok_def readActionState_def
    by (auto split: option.split) (metis (no_types, lifting) image_eqI jm_get_Some_in snd_conv)
  then show ?thesis unfolding appendActionState_def by (rule gives_bind) (rule gives_bind [OF fine_files(5)], erule app)
qed

subsection \<open>The operations\<close>

lemmas call_defs = tame_call_def repository_call_def index_call_def isolated_call_def

lemma fine_stage: "prints_names h \<Longrightarrow> gives (fine cwd i K j) (executeStagePaths (logging h) cwd i ref paths) (\<lambda>_. True)"
proof -
  assume h: "prints_names h"
  note spawn = gives_spawn [OF h]
  have src: "gives (fine cwd i K j) (stage_source (logging h) cwd i known) plain_name" if "plain_name known" for known
    unfolding stage_source_def Let_def
    by (rule gives_rules spawn that | simp add: call_defs that)+
  have add: "gives (fine cwd i K j) (stage_add (logging h) cwd i paths approved) (\<lambda>_. True)" for approved
    unfolding stage_add_def by (rule gives_rules spawn | simp add: call_defs)+
  show ?thesis unfolding executeStagePaths_def stage_body_def Let_def
    by (rule gives_rules src add spawn fine_write_staging | simp add: call_defs plain_name_def split: option.split)+
qed

lemma fine_new_claim:
  assumes h: "prints_names h"
  shows "gives (fine cwd i K None) (new_claim sha (logging h) cwd i ref msg st) claim_ok"
proof -
  note spawn = gives_spawn [OF h]
  have iso: "gives (fine cwd i K None) (isolate (logging h) cwd) (\<lambda>_. True)"
    unfolding isolate_def by (rule gives_rules spawn | simp add: call_defs)+
  have gd: "map_of (generative_env (logging h) d cwd stamp) ''GIT_DIR'' = Some d" for d stamp
    by (simp add: generative_env_def Let_def)
  have packed: "gives (fine cwd i K None) (make_bundle sha (logging h) cwd i ref msg f) claim_ok"
    if "plain_name (sf_stagedTreeSha f)" "plain_name (sf_sourceSha f)" for f
    unfolding make_bundle_def Let_def
    by (rule gives_rules iso spawn | simp add: call_defs gd that claim_ok_def candidate_ref_def)+
  have gen: "gives (fine cwd i K None) (generate_commit sha (logging h) cwd i ref msg f) claim_ok"
    if "plain_name (sf_stagedTreeSha f)" "plain_name (sf_sourceSha f)" for f
    unfolding generate_commit_def by (rule gives_rules packed that fine_append | simp)+
  have intent: "plain_name (sf_stagedTreeSha f) \<and> plain_name (sf_sourceSha f)"
    if "stage_intent known ref = Inr f" "\<forall>f. known = Some f \<longrightarrow> plain_name (sf_stagedTreeSha f) \<and> plain_name (sf_sourceSha f)" for known f
    using that by (auto simp: stage_intent_def Let_def split: option.splits if_splits)
  show ?thesis unfolding new_claim_def
    by (rule gives_rules gen spawn | simp add: call_defs intent)+
qed

lemma fine_rest:
  assumes h: "prints_names h" and binding: "gives (fine cwd i K None) binding claim_ok"
  shows "gives (fine cwd i K None) (commit_rest sha (logging h) cwd i es binding msg) (\<lambda>_. True)"
proof -
  note spawn = gives_spawn [OF h]
  have move: "gives (fine cwd i K None) (move_main (logging h) cwd c) (\<lambda>_. True)" if "claim_ok c" for c
    unfolding move_main_def
    by (rule gives_rules spawn fine_append | use that in \<open>auto simp: call_defs claim_ok_def; fail\<close>)+
  have load: "gives (fine cwd i K None) (import_commit sha (logging h) cwd c) (\<lambda>_. True)" if ok: "claim_ok c" for c
  proof -
    obtain n where c: "plain_name (cc_commitSha c)" "cc_bundleRef c = candidate_ref n" using ok by (auto simp: claim_ok_def)
    have "tame_call cwd i K \<lparr>gc_args = [''fetch'', ''--no-write-fetch-head'', f, cc_bundleRef c], gc_cwd = cwd, gc_env = []\<rparr>" for f
      unfolding c(2) call_defs by (rule disjI1, simp, blast)
    note fetch = spawn [OF this]
    show ?thesis unfolding import_commit_def
      apply (rule gives_bind, rule fine_files)
      apply (rule gives_if, rule gives_throw)
      apply (rule gives_bind, rule fetch)
      apply (rule gives_bind, rule spawn, simp add: call_defs c)
      apply (rule gives_if, rule gives_throw)
      apply (rule gives_bind, rule spawn, simp add: call_defs c)
      apply (rule gives_if, rule gives_throw)
      apply (rule fine_append)
      apply simp
      done
  qed
  have step: "gives (fine cwd i K None) (if b then act_return () else m) (\<lambda>_. True)"
    if "gives (fine cwd i K None) m (\<lambda>_. True)" for b and m :: "('a \<times> git_call list, unit) git_act"
    using that by (simp add: gives_return)
  show ?thesis unfolding commit_rest_def
    apply (rule gives_if)
     apply (rule gives_bind, rule fine_reads(1), rule gives_return, rule TrueI)
    apply (rule gives_bind, rule binding)
    apply (rule gives_bind, rule step, erule load)
    apply (rule gives_bind, rule step, erule move)
    apply (rule gives_bind, rule fine_append, simp)
    apply (rule fine_answers)
    done
qed

lemma fine_commit:
  assumes h: "prints_names h"
  shows "gives (fine cwd i K None) (executeCommit sha (logging h) cwd i ref msg st) (\<lambda>_. True)"
  unfolding executeCommit_def commit_body_def
  by (rule gives_rules fine_rest [OF h] fine_new_claim [OF h] | simp)+

lemma fine_push:
  assumes h: "prints_names h"
  shows "gives (fine cwd i K (Some j)) (executePushMain (logging h) cwd i ref expected j) (\<lambda>_. True)"
proof -
  note spawn = gives_spawn [OF h]
  have ls: "gives (fine cwd i K (Some j)) (ls_main (logging h) cwd) (\<lambda>_. True)"
    unfolding ls_main_def by (rule gives_weaken, rule spawn) (simp_all add: call_defs)
  have ff: "gives (fine cwd i K (Some j)) (fast_forward (logging h) cwd c e) (\<lambda>_. True)" if "plain_name c" for c e
    unfolding fast_forward_def by (rule gives_rules spawn | simp add: call_defs that)+
  have push: "gives (fine cwd i K (Some j)) (push_candidate (logging h) cwd i c) (\<lambda>_. True)" if "plain_name c" "c \<in> K" "c \<noteq> []" for c
    unfolding push_candidate_def by (rule gives_rules spawn ls | simp add: call_defs that)+
  show ?thesis unfolding executePushMain_def push_body_def
    by (rule gives_try gives_bind [OF fine_read_claim] gives_rules ls ff push | simp add: claim_ok_def)+
qed

lemma fine_run_read:
  assumes h: "prints_names h"
  shows "gives (fine cwd i K j) (run_read (logging h) cwd q (read_args op)) (\<lambda>_. True)"
  unfolding run_read_def spawnGit_def
  by (rule gives_rules gives_spawn [OF h, unfolded spawnGitCmd_def] | simp add: call_defs read_args_def)+

section \<open>Success\<close>

definition succeeded :: "('w, tool_result) git_act \<Rightarrow> 'w git_repo \<Rightarrow> 'w git_repo \<Rightarrow> bool" where
  "succeeded m r r' \<longleftrightarrow> (\<exists>x. m r = (Inr x, r') \<and> tx_status x = TS_SUCCEEDED)"

lemma succeeded_bind: "succeeded (act_bind m k) r r' \<longleftrightarrow> (\<exists>x u. m r = (Inr x, u) \<and> succeeded (k x) u r')"
  by (auto simp: succeeded_def act_bind_returns)

lemma succeeded_try: "succeeded (act_try m k f) r r' \<longleftrightarrow>
    (\<exists>x u. m r = (Inr x, u) \<and> succeeded (k x) u r') \<or> (\<exists>e u. m r = (Inl e, u) \<and> succeeded (f e) u r')"
  by (auto simp: succeeded_def act_try_result)

lemma succeeded_fail: "\<not> succeeded (git_fail h i m) r r'"
  using fail_status by (fastforce simp: succeeded_def)

lemma succeeded_guard: "succeeded (act_try m act_return (\<lambda>e. git_fail h i (g e))) r r' \<longleftrightarrow> succeeded m r r'"
  by (simp add: succeeded_try succeeded_fail) (auto simp: succeeded_def act_return_def)

lemma succeeded_answer: "op \<noteq> [] \<Longrightarrow> succeeded (git_answer h i op st m es b) r r' \<longleftrightarrow> st = TS_SUCCEEDED \<and> i \<noteq> [] \<and> r' = r"
  by (auto simp: succeeded_def git_answer_def act_bind_def git_clock_def git_checked_def act_return_def act_throw_def
      git_result_def valid_result_def)

lemmas succeeds = succeeded_bind succeeded_try succeeded_fail succeeded_answer

lemma fast_forward_iff: "fast_forward h cwd c e r = (Inr u, r') \<longleftrightarrow>
    (\<exists>base. spawnGitCmd h [''merge-base'', c, e] cwd [] r = (Inr base, r') \<and> trim (go_stdout base) = e)"
  by (auto simp: fast_forward_def act_bind_returns act_return_def act_throw_def split: if_splits)

lemma push_candidate_succeeds: "succeeded (push_candidate h cwd i c) r r' \<longleftrightarrow>
    i \<noteq> [] \<and> (\<exists>pushed after r3. spawnGitCmd h [''push'', ''origin'', c @ '':refs/heads/main''] cwd [] r = (Inr pushed, r3) \<and>
      ls_main h cwd r3 = (Inr after, r') \<and> remote_sha after = c)"
proof -
  have "succeeded (if remote_sha post \<noteq> c then git_fail h i m else git_answer h i op TS_SUCCEEDED m' es b) s r' \<longleftrightarrow>
      i \<noteq> [] \<and> r' = s \<and> remote_sha post = c" if "op \<noteq> []" for post m op m' es b s
    using that by (simp add: succeeds)
  then show ?thesis unfolding push_candidate_def by (auto simp: succeeded_bind succeeded_try succeeded_answer)
qed

section \<open>Properties\<close>

text \<open>
  C24: whatever request the adapter is given and whatever its host answers, the only processes it starts are those of the closed
  list: the reads and queries as they stand, an index of the action's own for \<open>read-tree\<close> of one name and \<open>add\<close> of paths behind \<open>--\<close>, a
  commit in an isolated repository, the compare-and-swap of the local main, and the push of the one commit that the named
  commit action has claimed, unforced and without options, to main. The object names in the adapter's own files stay plain, so this
  holds for the next call too; git is assumed to print plain names.
\<close>

theorem adapter_starts_only_tame_processes:
  assumes "prints_names h" and "names_ok r" and "gr_outside r = (w, [])"
    and "executeAuthorized sha (logging h) repoCwd a r = (res, r')"
  shows "list_all (tame_call repoCwd (tq_requestId (az_request a)) (claimed_in (text_param (az_request a) ''commitActionId'') r))
      (snd (gr_outside r')) \<and> names_ok r'"
proof -
  let ?i = "tq_requestId (az_request a)" and ?j = "text_param (az_request a) ''commitActionId''"
  let ?K = "claimed_in ?j r"
  have start: "fine repoCwd ?i ?K (Some ?j) r" "fine repoCwd ?i ?K None r" using assms(2,3) by (simp_all add: fine_def)
  note ops = fine_stage [OF assms(1)] fine_run_read [OF assms(1)] fine_answers(1)
  have "gives (fine repoCwd ?i ?K (Some ?j)) (executeAuthorized sha (logging h) repoCwd a) (\<lambda>_. True) \<or>
      gives (fine repoCwd ?i ?K None) (executeAuthorized sha (logging h) repoCwd a) (\<lambda>_. True)"
    (is "?with \<or> ?without")
  proof (cases "replace_first ''git.'' (tq_operationId (az_request a)) = ''commit''")
    case True
    have ?without unfolding executeAuthorized_def Let_def
      by (auto simp: True parse_authorized_def ALLOWED_OPERATIONS_def split: option.split
          intro!: gives_throw fine_answers(1) fine_commit [OF assms(1)])
    then show ?thesis ..
  next
    case False
    have ?with unfolding executeAuthorized_def Let_def
      by (auto simp: False parse_authorized_def split: option.split list.split intro!: gives_throw ops fine_push [OF assms(1)])
    then show ?thesis ..
  qed
  then show ?thesis using start assms(4) by (auto simp: gives_def fine_def)
qed

text \<open>
  C23: the journals of a repository that only the adapter wrote follow the protocol claimed, imported, moved, recorded,
  for one work package each; a commit that reports success leaves its journal recorded, and from then on the same
  commit, with whatever message and staging action, reports success again and changes nothing, on disk or outside.
\<close>

theorem commit_happens_once:
  assumes "git_reach sha h repoCwd r"
    and "executeCommit sha h repoCwd requestId workPackageRef message stageActionId r = (Inr x, r')"
    and "tx_status x = TS_SUCCEEDED"
  shows "(\<forall>i. \<exists>w p. phase_of i w (readActionState i r) = Some p) \<and>
    phase_of requestId workPackageRef (readActionState requestId r') = Some P_RECORDED \<and>
    (\<exists>y. executeCommit sha h repoCwd requestId workPackageRef message' stageActionId' r' = (Inr y, r') \<and>
       tx_status y = TS_SUCCEEDED \<and> tx_sideEffects y = [])"
proof -
  let ?i = requestId and ?w = workPackageRef
  note ok = git_reach_ok[OF assms(1)]
  have ran: "commit_body sha h repoCwd ?i ?w message stageActionId r = (Inr x, r')"
    using assms(2,3) fail_status by (fastforce simp: executeCommit_def act_try_result act_return_def)
  have "phase_of ?i ?w (journals r ?i) \<noteq> None"
  proof
    assume none: "phase_of ?i ?w (journals r ?i) = None"
    from ok obtain w where "phase_of ?i w (journals r ?i) \<noteq> None" unfolding journals_ok_def by blast
    from foreign_claim_throws[OF this none] ran show False by (metis Inl_Inr_False prod.inject)
  qed
  then obtain p where "phase_of ?i ?w (journals r ?i) = Some p" by blast
  from protocolD[OF commit_protocol ran this]
  have recorded: "phase_of ?i ?w (journals r' ?i) = Some P_RECORDED" by blast
  with phase_facts[OF this] obtain c where "find_claim (journals r' ?i) = Some c" "cc_workPackageRef c = ?w" "?w \<noteq> []"
    "\<exists>e \<in> set (journals r' ?i). is_COMMIT_OUTPUT_RECORDED e" by auto
  then have "\<exists>y. executeCommit sha h repoCwd ?i ?w message' stageActionId' r' = (Inr y, r') \<and>
       tx_status y = TS_SUCCEEDED \<and> tx_sideEffects y = []"
    by (simp add: executeCommit_def act_try_def commit_body_def act_bind_def read_actions_def journals_def commit_rest_def
        git_clock_def act_return_def git_result_def)
  with recorded ok show ?thesis unfolding journals_ok_def journals_def by blast
qed

text \<open>
  A push reports success exactly when the named commit action holds a claim of this work package, the remote
  main was the expected object, the candidate descends from it, the push could be started and the remote main is then
  the claimed commit, each asked of git in this order.
\<close>

theorem push_succeeds_iff:
  "(\<exists>x. executePushMain h repoCwd requestId workPackageRef expectedRemoteSha commitActionId r = (Inr x, r') \<and>
      tx_status x = TS_SUCCEEDED) \<longleftrightarrow>
   requestId \<noteq> [] \<and> commitActionId \<noteq> [] \<and> workPackageRef \<noteq> [] \<and>
   (\<exists>c. find_claim (readActionState commitActionId r) = Some c \<and> cc_commitSha c \<noteq> [] \<and>
      cc_workPackageRef c = workPackageRef \<and>
      (\<exists>before base pushed after r1 r2 r3.
         ls_main h repoCwd r = (Inr before, r1) \<and> remote_sha before = expectedRemoteSha \<and>
         spawnGitCmd h [''merge-base'', cc_commitSha c, expectedRemoteSha] repoCwd [] r1 = (Inr base, r2) \<and>
         trim (go_stdout base) = expectedRemoteSha \<and>
         spawnGitCmd h [''push'', ''origin'', cc_commitSha c @ '':refs/heads/main''] repoCwd [] r2 = (Inr pushed, r3) \<and>
         ls_main h repoCwd r3 = (Inr after, r') \<and> remote_sha after = cc_commitSha c))"
proof -
  let ?c = "find_claim (readActionState commitActionId r)"
  have "(\<exists>x. executePushMain h repoCwd requestId workPackageRef expectedRemoteSha commitActionId r = (Inr x, r') \<and>
      tx_status x = TS_SUCCEEDED) \<longleftrightarrow> succeeded (push_body h repoCwd requestId workPackageRef expectedRemoteSha commitActionId) r r'"
    using succeeded_guard unfolding executePushMain_def succeeded_def by blast
  also have "\<dots> \<longleftrightarrow> commitActionId \<noteq> [] \<and> (\<exists>c. ?c = Some c \<and> cc_commitSha c \<noteq> [] \<and> workPackageRef \<noteq> [] \<and>
      cc_workPackageRef c = workPackageRef \<and> (\<exists>before base r1 r2. ls_main h repoCwd r = (Inr before, r1) \<and>
        remote_sha before = expectedRemoteSha \<and>
        spawnGitCmd h [''merge-base'', cc_commitSha c, expectedRemoteSha] repoCwd [] r1 = (Inr base, r2) \<and>
        trim (go_stdout base) = expectedRemoteSha \<and> succeeded (push_candidate h repoCwd requestId (cc_commitSha c)) r2 r'))"
    by (cases ?c) (auto simp: push_body_def read_actions_def succeeds fast_forward_iff split: if_splits)
  also have "\<dots> \<longleftrightarrow> requestId \<noteq> [] \<and> commitActionId \<noteq> [] \<and> workPackageRef \<noteq> [] \<and>
   (\<exists>c. ?c = Some c \<and> cc_commitSha c \<noteq> [] \<and>
      cc_workPackageRef c = workPackageRef \<and>
      (\<exists>before base pushed after r1 r2 r3.
         ls_main h repoCwd r = (Inr before, r1) \<and> remote_sha before = expectedRemoteSha \<and>
         spawnGitCmd h [''merge-base'', cc_commitSha c, expectedRemoteSha] repoCwd [] r1 = (Inr base, r2) \<and>
         trim (go_stdout base) = expectedRemoteSha \<and>
         spawnGitCmd h [''push'', ''origin'', cc_commitSha c @ '':refs/heads/main''] repoCwd [] r2 = (Inr pushed, r3) \<and>
         ls_main h repoCwd r3 = (Inr after, r') \<and> remote_sha after = cc_commitSha c))"
    unfolding push_candidate_succeeds by blast
  finally show ?thesis .
qed

section \<open>A repository\<close>

definition sample_git_answer :: "string list \<Rightarrow> string" where
  "sample_git_answer args =
     (if args = [''rev-parse'', ''HEAD''] then ''base'' else if args = [''write-tree''] then ''tree''
      else if hd args = ''commit-tree'' then ''new''
      else if ''--format=%T'' \<in> set args then ''tree'' else if hd args = ''log'' then ''noon'' else [])"

definition sample_git_host :: "string \<Rightarrow> unit git_host" where
  "sample_git_host refused =
     \<lparr>gh_spawn = (\<lambda>c w. (Inr \<lparr>go_stdout = sample_git_answer (gc_args c), go_stderr = [],
          go_code = (if hd (gc_args c) = refused \<and> gc_cwd c = ''/r'' then 1 else 0)\<rparr>, w)),
      gh_access = (\<lambda>p w. False), gh_mkdtemp = (\<lambda>p w. (Inr (p @ ''x''), w)), gh_mkdir = (\<lambda>p w. (Inr (), w)),
      gh_writeFile = (\<lambda>p t w. (Inr (), w)), gh_readFile = (\<lambda>p w. (Inr ''bundle'', w)), gh_writable = (\<lambda>p w. (Inr (), w)),
      gh_now = (\<lambda>w. 0), gh_env = (\<lambda>k. if k = ''CO_AUTHOR_DATE'' then Some ''noon'' else None),
      gh_processCwd = ''/'', gh_tmpdir = ''/tmp''\<rparr>"

definition sample_stage_request :: authorized_request where
  "sample_stage_request = \<lparr>az_request = \<lparr>tq_schemaVersion = ''1.0.0'', tq_requestId = ''s'', tq_projectId = ''p'',
       tq_actorRef = ''a'', tq_workItemRef = ''t'', tq_workPackageRef = ''wp'', tq_toolId = ''git'',
       tq_operationId = ''git.stage_paths'', tq_targetResource = ''r'', tq_environment = ''local'',
       tq_parameters = [(''paths'', JArr [JStr ''f''])], tq_authorityContextRef = ''x'', tq_idempotencyKey = ''k'',
       tq_correlationId = ''c''\<rparr>,
     az_policy = \<lparr>te_requestId = ''s'', te_decision = TP_ALLOW, te_reasonCode = ''ok'', te_policyRefs = [], te_authorityRefs = []\<rparr>\<rparr>"

definition sample_staged :: "string \<Rightarrow> unit git_repo" where
  "sample_staged refused = snd (executeAuthorized sample_sha (sample_git_host refused) ''/r'' sample_stage_request
     \<lparr>gr_staging = [], gr_actions = [], gr_outside = ()\<rparr>)"

definition sample_commit :: "string \<Rightarrow> (string + tool_result) \<times> unit git_repo" where
  "sample_commit refused = executeCommit sample_sha (sample_git_host refused) ''/r'' ''c'' ''wp'' ''msg'' ''s'' (sample_staged refused)"

lemma sample_staged_reach: "git_reach sample_sha (sample_git_host refused) ''/r'' (sample_staged refused)"
  unfolding sample_staged_def by (intro git_call git_start)

definition reports_success :: "(string + tool_result) \<times> 'r \<Rightarrow> bool" where
  "reports_success out = (case fst out of Inr x \<Rightarrow> tx_status x = TS_SUCCEEDED | Inl _ \<Rightarrow> False)"

lemma reports_success_iff: "reports_success out \<longleftrightarrow> (\<exists>x. out = (Inr x, snd out) \<and> tx_status x = TS_SUCCEEDED)"
  by (cases out) (auto simp: reports_success_def split: sum.splits)

lemma sample_commit_succeeds: "reports_success (sample_commit [])"
  by code_simp

theorem commit_happens_once_witness:
  "phase_of ''c'' ''wp'' (readActionState ''c'' (snd (sample_commit []))) = Some P_RECORDED \<and>
    (\<exists>y. executeCommit sample_sha (sample_git_host []) ''/r'' ''c'' ''wp'' ''other'' [] (snd (sample_commit [])) = (Inr y, snd (sample_commit [])) \<and>
       tx_status y = TS_SUCCEEDED \<and> tx_sideEffects y = [])"
proof -
  obtain x where "sample_commit [] = (Inr x, snd (sample_commit []))" "tx_status x = TS_SUCCEEDED"
    using sample_commit_succeeds unfolding reports_success_iff by blast
  from commit_happens_once[OF sample_staged_reach this(1)[unfolded sample_commit_def] this(2)]
  show ?thesis unfolding sample_commit_def by blast
qed

text \<open>The host of the sample prints names that are plain.\<close>

lemma sample_prints_names: "prints_names (sample_git_host refused)"
  by (auto simp: prints_names_def sample_git_host_def sample_git_answer_def plain_name_def trim_def split: if_splits)

definition sample_start :: "(unit \<times> git_call list) git_repo" where
  "sample_start = \<lparr>gr_staging = [], gr_actions = [], gr_outside = ((), [])\<rparr>"

theorem adapter_starts_only_tame_processes_witness:
  "let r' = snd (executeAuthorized sample_sha (logging (sample_git_host [])) ''/r'' sample_stage_request sample_start) in
     map gc_args (snd (gr_outside r')) = [[''rev-parse'', ''HEAD''], [''read-tree'', ''base''], [''add'', ''--'', ''f''], [''write-tree'']] \<and>
     list_all (tame_call ''/r'' ''s'' (claimed_in [] sample_start)) (snd (gr_outside r'))"
proof -
  let ?run = "executeAuthorized sample_sha (logging (sample_git_host [])) ''/r'' sample_stage_request sample_start"
  have start: "names_ok sample_start" "gr_outside sample_start = ((), [])" by (simp_all add: names_ok_def sample_start_def)
  have q: "tq_requestId (az_request sample_stage_request) = ''s''" "text_param (az_request sample_stage_request) ''commitActionId'' = []"
    by code_simp+
  have "map gc_args (snd (gr_outside (snd ?run))) =
      [[''rev-parse'', ''HEAD''], [''read-tree'', ''base''], [''add'', ''--'', ''f''], [''write-tree'']]" by code_simp
  then show ?thesis
    using adapter_starts_only_tame_processes [OF sample_prints_names start surjective_pairing [of ?run]] by (simp add: q Let_def)
qed

section \<open>Where the adapter goes wrong\<close>

text \<open>
  \<open>spawnGitCmd\<close> rejects only when the process cannot be started. A compare-and-swap that git refuses with exit code 1
  is therefore journalled as verified and the commit reported as a success: the guard against a branch that moved
  concurrently never fires.
\<close>

lemma refused_swap_is_a_success:
  "reports_success (sample_commit ''update-ref'') \<and>
   REF_CAS_VERIFIED ''c'' \<in> set (readActionState ''c'' (snd (sample_commit ''update-ref'')))"
  by code_simp

text \<open>A failing push is likewise no rejection: its result asks for no reconciliation, although its text says so.\<close>

lemma refused_push_asks_no_reconciliation:
  assumes "spawnGitCmd h [''push'', ''origin'', c @ '':refs/heads/main''] cwd [] r = (Inr out, u)" "go_code out \<noteq> 0"
    and "ls_main h cwd u = (Inr after, v)" "remote_sha after \<noteq> c" "i \<noteq> []"
  shows "\<exists>x. push_candidate h cwd i c r = (Inr x, v) \<and> tx_status x = TS_FAILED \<and> \<not> tx_reconciliationRequired x"
  using assms
  by (simp add: push_candidate_def act_try_def act_bind_def git_fail_def git_clock_def git_checked_def valid_result_def
      git_result_def act_return_def)

text \<open>
  Nothing of the adapter looks at the exit code of \<open>git add\<close>: staging a path that does not exist reports success and
  records the tree of HEAD as the approved one.
\<close>

lemma refused_add_is_a_success:
  "reports_success (executeAuthorized sample_sha (sample_git_host ''add'') ''/r'' sample_stage_request
     \<lparr>gr_staging = [], gr_actions = [], gr_outside = ()\<rparr>)"
  by code_simp

end
