(* ===== verification/Json_Reader.thy ===== *)
theory Json_Reader
  imports Json_Text
begin

text \<open>
  \<open>JSON.parse\<close>, which the program uses on what models and files give it: a scanner from characters to tokens
  and a stack machine over the tokens, both total. The value of a number literal (a double) and the text of an
  escape beyond Latin-1 are the two fields of a reader. A value printed by \<open>JSON.stringify\<close> is read back.
\<close>

section \<open>Tokens\<close>

record json_reader =
  jr_number :: "string \<Rightarrow> json"
  jr_wide :: "nat \<Rightarrow> string"

datatype token = T_LBRACE | T_RBRACE | T_LBRACK | T_RBRACK | T_COLON | T_COMMA | T_STR string | T_VAL json

definition hex_of :: "char \<Rightarrow> nat option" where
  "hex_of c = (let n = (of_char c :: nat) in
     if 48 \<le> n \<and> n \<le> 57 then Some (n - 48) else if 97 \<le> n \<and> n \<le> 102 then Some (n - 87)
     else if 65 \<le> n \<and> n \<le> 70 then Some (n - 55) else None)"

definition code_unit :: "json_reader \<Rightarrow> nat \<Rightarrow> string" where
  "code_unit rd n = (if n < 256 then [char_of n] else jr_wide rd n)"

definition hex4 :: "json_reader \<Rightarrow> char \<Rightarrow> char \<Rightarrow> char \<Rightarrow> char \<Rightarrow> string option" where
  "hex4 rd a b c d =
     (case (hex_of a, hex_of b, hex_of c, hex_of d) of
        (Some i, Some j, Some k, Some l) \<Rightarrow> Some (code_unit rd (4096 * i + 256 * j + 16 * k + l))
      | _ \<Rightarrow> None)"

definition escaped :: "char \<Rightarrow> char option" where
  "escaped e =
     (if e = quote_char \<or> e = backslash \<or> e = CHR ''/'' then Some e
      else if e = CHR ''b'' then Some (char_of (8 :: nat)) else if e = CHR ''f'' then Some (char_of (12 :: nat))
      else if e = CHR ''n'' then Some (char_of (10 :: nat)) else if e = CHR ''r'' then Some (char_of (13 :: nat))
      else if e = CHR ''t'' then Some (char_of (9 :: nat)) else None)"

definition prepend :: "string \<Rightarrow> (string \<times> string) option \<Rightarrow> (string \<times> string) option" where
  "prepend s p = map_option (\<lambda>(t, r). (s @ t, r)) p"

text \<open>The rest of a quoted text after its opening quote, and what follows it.\<close>

fun scan_string :: "json_reader \<Rightarrow> string \<Rightarrow> (string \<times> string) option" where
  "scan_string rd [] = None"
| "scan_string rd (c # s) =
     (if c = quote_char then Some ([], s)
      else if c = backslash then
        (case s of
           [] \<Rightarrow> None
         | e # r \<Rightarrow>
             if e = CHR ''u'' then
               (case r of
                  h1 # h2 # h3 # h4 # r' \<Rightarrow>
                    (case hex4 rd h1 h2 h3 h4 of None \<Rightarrow> None | Some u \<Rightarrow> prepend u (scan_string rd r'))
                | _ \<Rightarrow> None)
             else (case escaped e of None \<Rightarrow> None | Some d \<Rightarrow> prepend [d] (scan_string rd r)))
      else if (of_char c :: nat) < 32 then None
      else prepend [c] (scan_string rd s))"

text \<open>A number literal: the digits of an integer without a leading zero, a fraction, an exponent.\<close>

definition scan_int :: "string \<Rightarrow> (string \<times> string) option" where
  "scan_int s = (let ds = takeWhile is_digit s in
     if ds = [] then None
     else if hd ds = CHR ''0'' then Some (''0'', tl s)
     else Some (ds, drop (length ds) s))"

definition scan_fraction :: "string \<Rightarrow> (string \<times> string) option" where
  "scan_fraction s = (case s of
       [] \<Rightarrow> Some ([], [])
     | c # r \<Rightarrow> if c \<noteq> CHR ''.'' then Some ([], s)
         else let ds = takeWhile is_digit r in if ds = [] then None else Some (c # ds, drop (length ds) r))"

definition scan_exponent :: "string \<Rightarrow> (string \<times> string) option" where
  "scan_exponent s = (case s of
       [] \<Rightarrow> Some ([], [])
     | c # r \<Rightarrow> if c \<noteq> CHR ''e'' \<and> c \<noteq> CHR ''E'' then Some ([], s)
         else let sign = (case r of d # _ \<Rightarrow> if d = CHR ''+'' \<or> d = CHR ''-'' then [d] else [] | [] \<Rightarrow> []);
                  r' = drop (length sign) r; ds = takeWhile is_digit r' in
              if ds = [] then None else Some (c # sign @ ds, drop (length ds) r'))"

definition scan_number :: "string \<Rightarrow> (string \<times> string) option" where
  "scan_number s =
     (let sign = (if starts_with s ''-'' then ''-'' else []) in
      case scan_int (drop (length sign) s) of None \<Rightarrow> None
      | Some (i, r) \<Rightarrow> (case scan_fraction r of None \<Rightarrow> None
      | Some (f, r') \<Rightarrow> (case scan_exponent r' of None \<Rightarrow> None
      | Some (e, r'') \<Rightarrow> Some (sign @ i @ f @ e, r''))))"

definition json_space :: "char \<Rightarrow> bool" where
  "json_space c \<longleftrightarrow> (of_char c :: nat) \<in> {9, 10, 13, 32}"

definition punctuation :: "char \<Rightarrow> token option" where
  "punctuation c =
     (if c = CHR ''{'' then Some T_LBRACE else if c = CHR ''}'' then Some T_RBRACE
      else if c = CHR ''['' then Some T_LBRACK else if c = CHR '']'' then Some T_RBRACK
      else if c = CHR '':'' then Some T_COLON else if c = CHR '','' then Some T_COMMA else None)"

text \<open>One token from the front of a non-empty text.\<close>

definition word_token :: "string \<Rightarrow> (token \<times> string) option" where
  "word_token s =
     (if starts_with s ''null'' then Some (T_VAL JNull, drop 4 s)
      else if starts_with s ''true'' then Some (T_VAL (JBool True), drop 4 s)
      else if starts_with s ''false'' then Some (T_VAL (JBool False), drop 5 s)
      else None)"

definition next_token :: "json_reader \<Rightarrow> string \<Rightarrow> (token \<times> string) option" where
  "next_token rd s =
     (case punctuation (hd s) of
        Some t \<Rightarrow> Some (t, tl s)
      | None \<Rightarrow>
          if hd s = quote_char then map_option (\<lambda>(t, r). (T_STR t, r)) (scan_string rd (tl s))
          else case word_token s of
            Some tr \<Rightarrow> Some tr
          | None \<Rightarrow> map_option (\<lambda>(l, r). (T_VAL (jr_number rd l), r)) (scan_number s))"

lemma scan_string_shorter: "scan_string rd s = Some (t, r) \<Longrightarrow> length r < length s"
proof (induction s arbitrary: t r rule: length_induct)
  case (1 s)
  have IH: "length s' < length s \<Longrightarrow> scan_string rd s' = Some (t', r') \<Longrightarrow> length r' < length s'" for s' t' r'
    using "1.IH" by blast
  from "1.prems" show ?case
    by (cases s) (auto simp: prepend_def split: if_splits list.splits option.splits dest!: IH[rotated])
qed

lemma scan_int_shorter: "scan_int s = Some (t, r) \<Longrightarrow> length r < length s"
  by (cases s) (auto simp: scan_int_def Let_def split: if_splits)

lemma scan_fraction_no_longer: "scan_fraction s = Some (t, r) \<Longrightarrow> length r \<le> length s"
  by (auto simp: scan_fraction_def Let_def split: if_splits list.splits)

lemma scan_exponent_no_longer: "scan_exponent s = Some (t, r) \<Longrightarrow> length r \<le> length s"
  by (auto simp: scan_exponent_def Let_def split: if_splits list.splits)

lemma scan_number_shorter: "scan_number s = Some (t, r) \<Longrightarrow> length r < length s"
  by (auto simp: scan_number_def Let_def split: option.splits prod.splits if_splits
      dest!: scan_int_shorter scan_fraction_no_longer scan_exponent_no_longer)

lemma next_token_shorter: "s \<noteq> [] \<Longrightarrow> next_token rd s = Some (t, r) \<Longrightarrow> length r < length s"
  by (cases s) (auto simp: next_token_def word_token_def split: option.splits if_splits
      dest: scan_string_shorter scan_number_shorter)

function (sequential) tokens :: "json_reader \<Rightarrow> string \<Rightarrow> token list option" where
  "tokens rd [] = Some []"
| "tokens rd (c # s) =
     (if json_space c then tokens rd s
      else case next_token rd (c # s) of
        None \<Rightarrow> None
      | Some (t, r) \<Rightarrow> map_option ((#) t) (tokens rd r))"
  by pat_completeness auto
termination
  by (relation "measure (\<lambda>(rd, s). length s)") (auto dest: next_token_shorter[rotated])

section \<open>Values\<close>

text \<open>
  What the machine expects: a value, a value or the end of an array, a key, a colon, or what follows a value.
  The frames are the open arrays and objects. A repeated key keeps its place and takes the last value.
\<close>

datatype frame = F_ARR "json list" | F_OBJ "(string, json) jsmap" string

datatype json_mode = M_VALUE | M_FIRST | M_KEY "(string, json) jsmap" bool | M_COLON "(string, json) jsmap" string | M_AFTER json

definition value_step :: "frame list \<Rightarrow> token \<Rightarrow> (json_mode \<times> frame list) option" where
  "value_step st t = (case t of
       T_STR s \<Rightarrow> Some (M_AFTER (JStr s), st) | T_VAL v \<Rightarrow> Some (M_AFTER v, st)
     | T_LBRACK \<Rightarrow> Some (M_FIRST, st) | T_LBRACE \<Rightarrow> Some (M_KEY [] True, st) | _ \<Rightarrow> None)"

definition after_step :: "json \<Rightarrow> frame list \<Rightarrow> token \<Rightarrow> (json_mode \<times> frame list) option" where
  "after_step v st t = (case st of
       [] \<Rightarrow> None
     | F_ARR vs # st' \<Rightarrow> if t = T_COMMA then Some (M_VALUE, F_ARR (vs @ [v]) # st')
         else if t = T_RBRACK then Some (M_AFTER (JArr (vs @ [v])), st') else None
     | F_OBJ kvs k # st' \<Rightarrow> if t = T_COMMA then Some (M_KEY (jm_set k v kvs) False, st')
         else if t = T_RBRACE then Some (M_AFTER (JObj (jm_set k v kvs)), st') else None)"

definition json_step :: "json_mode \<Rightarrow> frame list \<Rightarrow> token \<Rightarrow> (json_mode \<times> frame list) option" where
  "json_step m st t = (case m of
       M_VALUE \<Rightarrow> value_step st t
     | M_FIRST \<Rightarrow> if t = T_RBRACK then Some (M_AFTER (JArr []), st) else value_step (F_ARR [] # st) t
     | M_KEY kvs first \<Rightarrow> (case t of T_STR k \<Rightarrow> Some (M_COLON kvs k, st)
         | T_RBRACE \<Rightarrow> if first then Some (M_AFTER (JObj kvs), st) else None | _ \<Rightarrow> None)
     | M_COLON kvs k \<Rightarrow> if t = T_COLON then Some (M_VALUE, F_OBJ kvs k # st) else None
     | M_AFTER v \<Rightarrow> after_step v st t)"

fun read_tokens :: "json_mode \<Rightarrow> frame list \<Rightarrow> token list \<Rightarrow> json option" where
  "read_tokens m st [] = (case m of M_AFTER v \<Rightarrow> if st = [] then Some v else None | _ \<Rightarrow> None)"
| "read_tokens m st (t # ts) = (case json_step m st t of None \<Rightarrow> None | Some (m', st') \<Rightarrow> read_tokens m' st' ts)"

definition json_parse :: "json_reader \<Rightarrow> string \<Rightarrow> json option" where
  "json_parse rd s = (case tokens rd s of None \<Rightarrow> None | Some ts \<Rightarrow> read_tokens M_VALUE [] ts)"

section \<open>What is printed is read back\<close>

fun toks :: "json \<Rightarrow> token list" where
  "toks (JStr s) = [T_STR s]"
| "toks (JArr []) = [T_LBRACK, T_RBRACK]"
| "toks (JArr (v # vs)) = T_LBRACK # toks v @ concat (map (\<lambda>u. T_COMMA # toks u) vs) @ [T_RBRACK]"
| "toks (JObj []) = [T_LBRACE, T_RBRACE]"
| "toks (JObj (kv # kvs)) = T_LBRACE # T_STR (fst kv) # T_COLON # toks (snd kv) @
     concat (map (\<lambda>kv. T_COMMA # T_STR (fst kv) # T_COLON # toks (snd kv)) kvs) @ [T_RBRACE]"
| "toks v = [T_VAL v]"

text \<open>Values whose objects have no repeated key.\<close>

fun clean_json :: "json \<Rightarrow> bool" where
  "clean_json (JArr vs) = list_all clean_json vs"
| "clean_json (JObj kvs) = (distinct (map fst kvs) \<and> list_all (\<lambda>kv. clean_json (snd kv)) kvs)"
| "clean_json v = True"

lemma toks_first: "\<exists>t r. toks v = t # r \<and> t \<notin> {T_RBRACK, T_RBRACE}"
  by (cases v rule: toks.cases) auto

lemma first_value: "read_tokens M_FIRST st (toks v @ ts) = read_tokens M_VALUE (F_ARR [] # st) (toks v @ ts)"
  using toks_first[of v] by (auto simp: json_step_def)

definition reads_as :: "json \<Rightarrow> bool" where
  "reads_as v \<longleftrightarrow> (\<forall>st ts. read_tokens M_VALUE st (toks v @ ts) = read_tokens (M_AFTER v) st ts)"

lemma array_rest:
  "\<forall>u \<in> set us. reads_as u \<Longrightarrow>
   read_tokens (M_AFTER v) (F_ARR ws # st) (concat (map (\<lambda>u. T_COMMA # toks u) us) @ T_RBRACK # ts) =
   read_tokens (M_AFTER (JArr (ws @ v # us))) st ts"
  by (induction us arbitrary: v ws) (simp_all add: json_step_def after_step_def reads_as_def)

lemma jm_set_new: "k \<notin> fst ` set m \<Longrightarrow> jm_set k v m = m @ [(k, v)]"
  by (induction m) auto

lemma object_rest:
  "\<forall>kv \<in> set kvs. reads_as (snd kv) \<Longrightarrow> distinct (map fst (ws @ (k, v) # kvs)) \<Longrightarrow>
   read_tokens (M_AFTER v) (F_OBJ ws k # st)
     (concat (map (\<lambda>kv. T_COMMA # T_STR (fst kv) # T_COLON # toks (snd kv)) kvs) @ T_RBRACE # ts) =
   read_tokens (M_AFTER (JObj (ws @ (k, v) # kvs))) st ts"
proof (induction kvs arbitrary: k v ws)
  case Nil
  then show ?case by (simp add: json_step_def after_step_def jm_set_new)
next
  case (Cons kv kvs)
  obtain j u where kv: "kv = (j, u)" by force
  have "k \<notin> fst ` set ws" using Cons.prems(2) by auto
  with Cons.IH[of "ws @ [(k, v)]" j u] Cons.prems show ?case
    by (simp add: json_step_def after_step_def jm_set_new reads_as_def kv)
qed

lemma machine_reads: "clean_json v \<Longrightarrow> reads_as v"
proof (induction v rule: toks.induct)
  case (3 v vs)
  then have "reads_as v" "\<forall>u \<in> set vs. reads_as u" by (auto simp: list_all_iff)
  then show ?case
    using array_rest[of vs v "[]"] by (simp add: reads_as_def json_step_def value_step_def first_value)
next
  case (5 kv kvs)
  then have "reads_as (snd kv)" "\<forall>kv \<in> set kvs. reads_as (snd kv)" by (auto simp: list_all_iff)
  then show ?case
    using object_rest[of kvs "[]" "fst kv" "snd kv"] "5.prems"
    by (simp add: reads_as_def json_step_def value_step_def)
qed (simp_all add: reads_as_def json_step_def value_step_def)

section \<open>Scanning what was printed\<close>

lemma scan_json_char: "scan_string rd (json_char c @ s) = prepend [c] (scan_string rd s)"
proof -
  define n :: nat where "n = of_char c"
  then have c: "c = char_of n" and n: "n < 256" by (simp_all add: nat_of_char_less_256)
  have hex: "k < 16 \<Longrightarrow> hex_of (hex_digit k) = Some k" for k
    by (simp add: hex_of_def hex_digit_def of_char_of)
  have zero: "hex_of (CHR ''0'') = Some 0" by (simp add: hex_of_def)
  consider "n = 34 \<or> n = 92" | "n \<in> {8, 9, 10, 12, 13}" | "n < 32" "n \<notin> {8, 9, 10, 12, 13}"
    | "32 \<le> n" "n \<noteq> 34" "n \<noteq> 92" by force
  then show ?thesis
  proof cases
    case 1
    then have "c = quote_char \<or> c = backslash" by (auto simp: c char_of_quotes quote_char_def backslash_def)
    then show ?thesis by (auto simp: json_char_def quote_char_def backslash_def escaped_def)
  next
    case 2
    then show ?thesis
      unfolding json_char_def n_def [symmetric]
      by (elim insertE emptyE) (simp_all add: Let_def escaped_def quote_char_def backslash_def c)
  next
    case 3
    then show ?thesis
      unfolding json_char_def n_def [symmetric]
      by (simp add: Let_def hex4_def hex zero code_unit_def quote_char_def backslash_def c)
  next
    case 4
    then have "c \<noteq> quote_char" "c \<noteq> backslash" by (auto simp: n_def quote_char_def backslash_def)
    with 4 show ?thesis unfolding json_char_def n_def [symmetric] by (simp add: Let_def n_def [symmetric])
  qed
qed

lemma scan_quoted: "scan_string rd (concat (map json_char s) @ quote_char # x) = Some (s, x)"
  by (induction s) (simp_all add: scan_json_char prepend_def)

lemma digits_no_leading_zero: "hd (digits_of n) = CHR ''0'' \<Longrightarrow> n = 0"
proof (induction n rule: digits_of.induct)
  case (1 n)
  show ?case
  proof (cases "n < 10")
    case True
    have "of_char (char_of (48 + n) :: char) = 48 + n" using True by (simp add: of_char_of)
    moreover have "char_of (48 + n) = CHR ''0''" using 1(2) True by (subst (asm) digits_of.simps) simp
    ultimately show ?thesis by simp
  next
    case False
    then have "hd (digits_of (n div 10)) = CHR ''0''" using 1(2) by (subst (asm) digits_of.simps) simp
    then show ?thesis using 1(1) False by simp
  qed
qed

lemma char_of_zero: "char_of (48 :: nat) = CHR ''0''"
proof -
  have "of_char (CHR ''0'') = (48 :: nat)" by simp
  then show ?thesis by (metis char_of_char)
qed

lemma scan_digits:
  assumes "value_ends x"
  shows "scan_int (digits_of n @ x) = Some (digits_of n, x)"
proof -
  have "x = [] \<or> \<not> is_digit (hd x)" using assms by (auto simp: value_ends_def is_digit_def)
  then have run: "takeWhile is_digit (digits_of n @ x) = digits_of n" using digit_run digits_of_digits by blast
  show ?thesis
  proof (cases "hd (digits_of n) = CHR ''0''")
    case True
    then have "n = 0" by (rule digits_no_leading_zero)
    then have "digits_of n = ''0''" by (subst digits_of.simps) (simp add: char_of_zero)
    then show ?thesis using run by (simp add: scan_int_def)
  next
    case False
    then show ?thesis using run by (simp add: scan_int_def)
  qed
qed

lemma scan_ends: "value_ends x \<Longrightarrow> scan_fraction x = Some ([], x) \<and> scan_exponent x = Some ([], x)"
  by (auto simp: value_ends_def scan_fraction_def scan_exponent_def split: list.splits)

lemma scan_show_int:
  assumes "value_ends x"
  shows "scan_number (show_int i @ x) = Some (show_int i, x)"
proof -
  obtain c r where cr: "digits_of (nat i) = c # r" by (cases "digits_of (nat i)") auto
  then have "is_digit c" using digits_of_digits by (metis list.set_intros(1))
  then have "c \<noteq> CHR ''-''" by (auto simp: is_digit_def)
  moreover have "scan_int (c # r @ x) = Some (c # r, x)" using scan_digits[OF assms, of "nat i"] cr by simp
  ultimately show ?thesis using scan_digits[OF assms, of "nat (- i)"] scan_ends[OF assms]
    by (cases "i < 0") (simp_all add: show_int_def scan_number_def Let_def cr)
qed

text \<open>Single tokens.\<close>

lemma tokens_punctuation: "punctuation c = Some t \<Longrightarrow> tokens rd (c # x) = map_option ((#) t) (tokens rd x)"
  by (auto simp: next_token_def json_space_def punctuation_def split: if_splits)

lemmas tokens_brackets = tokens_punctuation[of "CHR ''[''" T_LBRACK] tokens_punctuation[of "CHR '']''" T_RBRACK]
  tokens_punctuation[of "CHR ''{''" T_LBRACE] tokens_punctuation[of "CHR ''}''" T_RBRACE]
  tokens_punctuation[of "CHR '',''" T_COMMA] tokens_punctuation[of "CHR '':''" T_COLON]

lemma tokens_quoted: "tokens rd (quoted s @ x) = map_option ((#) (T_STR s)) (tokens rd x)"
  by (simp add: quoted_def next_token_def scan_quoted quote_char_def[symmetric] json_space_def[of quote_char]
      punctuation_def[of quote_char]) (simp add: quote_char_def)

lemma tokens_words:
  "tokens rd (CHR ''n'' # CHR ''u'' # CHR ''l'' # CHR ''l'' # x) = map_option ((#) (T_VAL JNull)) (tokens rd x)"
  "tokens rd (CHR ''t'' # CHR ''r'' # CHR ''u'' # CHR ''e'' # x) = map_option ((#) (T_VAL (JBool True))) (tokens rd x)"
  "tokens rd (CHR ''f'' # CHR ''a'' # CHR ''l'' # CHR ''s'' # CHR ''e'' # x) = map_option ((#) (T_VAL (JBool False))) (tokens rd x)"
  by (simp_all add: next_token_def word_token_def json_space_def punctuation_def quote_char_def)

definition integer_reader :: "json_reader \<Rightarrow> bool" where
  "integer_reader rd \<longleftrightarrow> (\<forall>i. jr_number rd (show_int i) = JNum i)"

lemma tokens_number:
  assumes "integer_reader rd" "value_ends x"
  shows "tokens rd (show_int i @ x) = map_option ((#) (T_VAL (JNum i))) (tokens rd x)"
proof -
  obtain c r where cr: "show_int i = c # r" "c = CHR ''-'' \<or> is_digit c"
    using json_text_first[of "JNum i"] by auto
  then have "\<not> json_space c" "punctuation c = None" "c \<noteq> quote_char" "c \<notin> {CHR ''n'', CHR ''t'', CHR ''f''}"
    by (auto simp: json_space_def punctuation_def quote_char_def is_digit_def)
  moreover have "scan_number (c # r @ x) = Some (show_int i, x)" using scan_show_int[OF assms(2), of i] cr(1) by simp
  moreover have "jr_number rd (c # r) = JNum i" using assms(1) cr(1) by (metis integer_reader_def)
  ultimately show ?thesis using cr(1) by (simp add: next_token_def word_token_def)
qed

text \<open>The text of a value in front of a comma, a closing bracket or the end yields its tokens.\<close>

definition scans_as :: "json_reader \<Rightarrow> json \<Rightarrow> bool" where
  "scans_as rd v \<longleftrightarrow> (\<forall>x. value_ends x \<longrightarrow> tokens rd (json_text v @ x) = map_option ((@) (toks v)) (tokens rd x))"

lemma map_option_append: "map_option ((@) xs) (map_option ((@) ys) z) = map_option ((@) (xs @ ys)) z"
  by (cases z) auto

lemma items_scan:
  assumes "\<forall>u \<in> set us. \<forall>x. value_ends x \<longrightarrow> tokens rd (f u @ x) = map_option ((@) (g u)) (tokens rd x)"
    and "b \<in> {CHR '']'', CHR ''}''}"
  shows "tokens rd (concat (map (\<lambda>u. '','' @ f u) us) @ b # x) =
    map_option ((@) (concat (map (\<lambda>u. T_COMMA # g u) us))) (tokens rd (b # x))"
  using assms(1)
proof (induction us)
  case Nil
  then show ?case by (cases "tokens rd (b # x)") (auto simp del: tokens.simps)
next
  case (Cons u us)
  let ?y = "concat (map (\<lambda>u. '','' @ f u) us) @ b # x"
  have "value_ends ?y" using assms(2) by (cases us) (auto simp: value_ends_def)
  then have "tokens rd (f u @ ?y) = map_option ((@) (g u)) (tokens rd ?y)" using Cons.prems by auto
  with Cons show ?case
    by (simp add: tokens_brackets punctuation_def map_option_append option.map_comp comp_def del: tokens.simps)
qed

lemma text_scans: "integer_reader rd \<Longrightarrow> scans_as rd v"
proof (induction v rule: toks.induct)
  case (3 v vs)
  have "tokens rd (json_text (JArr (v # vs)) @ x) = map_option ((@) (toks (JArr (v # vs)))) (tokens rd x)" for x
  proof -
    let ?y = "concat (map (\<lambda>u. '','' @ json_text u) vs) @ CHR '']'' # x"
    have "value_ends ?y" by (cases vs) (auto simp: value_ends_def)
    then have first: "tokens rd (json_text v @ ?y) = map_option ((@) (toks v)) (tokens rd ?y)"
      using 3 by (simp add: scans_as_def)
    have rest: "tokens rd ?y = map_option ((@) (concat (map (\<lambda>u. T_COMMA # toks u) vs))) (tokens rd (CHR '']'' # x))"
      using 3 by (intro items_scan) (auto simp: scans_as_def)
    show ?thesis
      using first rest
      by (simp add: join_Cons tokens_brackets punctuation_def map_option_append option.map_comp comp_def map_map del: tokens.simps; cases "tokens rd x"; simp)
  qed
  then show ?case by (simp add: scans_as_def)
next
  case (5 kv kvs)
  let ?f = "\<lambda>(k, v). quoted k @ '':'' @ json_text v"
  have member: "\<forall>x. value_ends x \<longrightarrow> tokens rd (?f e @ x) = map_option ((@) (T_STR (fst e) # T_COLON # toks (snd e))) (tokens rd x)"
    if "scans_as rd (snd e)" for e
    using that
    by (cases e) (auto simp: scans_as_def tokens_quoted tokens_brackets punctuation_def option.map_comp
        intro!: arg_cong[where f = "\<lambda>g. map_option g _"] simp del: tokens.simps)
  have "tokens rd (json_text (JObj (kv # kvs)) @ x) = map_option ((@) (toks (JObj (kv # kvs)))) (tokens rd x)" for x
  proof -
    let ?y = "concat (map (\<lambda>u. '','' @ ?f u) kvs) @ CHR ''}'' # x"
    have "value_ends ?y" by (cases kvs) (auto simp: value_ends_def)
    then have first: "tokens rd (?f kv @ ?y) = map_option ((@) (T_STR (fst kv) # T_COLON # toks (snd kv))) (tokens rd ?y)"
      using 5 member[of kv] by simp
    have rest: "tokens rd ?y = map_option ((@) (concat (map (\<lambda>u. T_COMMA # T_STR (fst u) # T_COLON # toks (snd u)) kvs))) (tokens rd (CHR ''}'' # x))"
      using 5 member by (intro items_scan) auto
    show ?thesis
      using first rest
      by (simp add: join_Cons tokens_brackets punctuation_def map_option_append option.map_comp comp_def map_map del: tokens.simps; cases "tokens rd x"; simp)
  qed
  then show ?case by (simp add: scans_as_def)
qed (auto simp: scans_as_def tokens_quoted tokens_brackets punctuation_def tokens_words tokens_number
    option.map_comp intro!: arg_cong[where f = "\<lambda>g. map_option g _"] simp del: tokens.simps)

text \<open>\<open>JSON.parse(JSON.stringify(v))\<close> is \<open>v\<close>.\<close>

theorem json_parse_text: "integer_reader rd \<Longrightarrow> clean_json v \<Longrightarrow> json_parse rd (json_text v) = Some v"
  using text_scans[of rd v] machine_reads[of v]
  by (auto simp: json_parse_def scans_as_def reads_as_def value_ends_def dest!: spec[of _ "[]"])

end
