(* ===== verification/Provider_Output.thy ===== *)
theory Provider_Output
  imports Json_Reader
begin

text \<open>
  The parser of model answers (\<^verbatim>\<open>packages/agents/src/codex/provider-output-parser.ts\<close>): the first fenced block of
  the text, read as JSON and checked against a strict schema. Only what passes the schema becomes a tool proposal.
\<close>

section \<open>The output contract\<close>

record tool_proposal =
  pp_toolId :: string
  pp_operationId :: string
  pp_targetResource :: string
  pp_environment :: string
  pp_parameters :: "(string \<times> json) list"

record structured_output =
  po_summary :: string
  po_artifacts :: "(string \<times> string) list"
  po_toolProposals :: "tool_proposal list"

definition PROPOSAL_OPERATIONS :: "(string \<times> string list) list" where
  "PROPOSAL_OPERATIONS =
     [(''git'', [''git.add'', ''git.commit'', ''git.push'']), (''shell'', [''shell.exec'']),
      (''sandbox-filesystem'', [''filesystem.read'', ''filesystem.write''])]"

definition PROPOSAL_ENVIRONMENTS :: "string list" where
  "PROPOSAL_ENVIRONMENTS = [''LOCAL'', ''TEST'', ''STAGING'', ''PRODUCTION'']"

text \<open>
  The table is an object literal, so looking up one of these names finds a member of \<open>Object.prototype\<close> that has
  no \<open>includes\<close>: the refinement throws.
\<close>

definition OBJECT_PROTOTYPE :: "string list" where
  "OBJECT_PROTOTYPE =
     [''constructor'', ''hasOwnProperty'', ''isPrototypeOf'', ''propertyIsEnumerable'', ''toLocaleString'', ''toString'',
      ''valueOf'', ''__defineGetter__'', ''__defineSetter__'', ''__lookupGetter__'', ''__lookupSetter__'', ''__proto__'']"

section \<open>The schema\<close>

text \<open>A parse returns a value, fails, or throws.\<close>

datatype 'a checked = Z_OK 'a | Z_FAIL | Z_THROWS

text \<open>All elements are checked; a throw ends the whole parse.\<close>

fun check_all :: "('a \<Rightarrow> 'b checked) \<Rightarrow> 'a list \<Rightarrow> 'b list checked" where
  "check_all f [] = Z_OK []"
| "check_all f (x # xs) =
     (case (f x, check_all f xs) of
        (Z_THROWS, _) \<Rightarrow> Z_THROWS | (_, Z_THROWS) \<Rightarrow> Z_THROWS
      | (Z_OK y, Z_OK ys) \<Rightarrow> Z_OK (y # ys) | _ \<Rightarrow> Z_FAIL)"

definition strict_keys :: "string list \<Rightarrow> (string \<times> json) list \<Rightarrow> bool" where
  "strict_keys allowed kvs \<longleftrightarrow> list_all (\<lambda>(k, v). k \<in> set allowed) kvs"

definition check_artifact :: "json \<Rightarrow> (string \<times> string) checked" where
  "check_artifact v =
     (case v of
        JObj kvs \<Rightarrow>
          (case (map_of kvs ''type'', map_of kvs ''ref'') of
             (Some (JStr t), Some (JStr r)) \<Rightarrow>
               if strict_keys [''type'', ''ref''] kvs \<and> t \<noteq> [] \<and> r \<noteq> [] then Z_OK (t, r) else Z_FAIL
           | _ \<Rightarrow> Z_FAIL)
      | _ \<Rightarrow> Z_FAIL)"

definition read_parameters :: "json option \<Rightarrow> (string \<times> json) list option" where
  "read_parameters v = (case v of None \<Rightarrow> Some [] | Some (JObj kvs) \<Rightarrow> Some kvs | _ \<Rightarrow> None)"

text \<open>The shape of a proposal; the refinement runs on every value of that shape.\<close>

definition proposal_shape :: "json \<Rightarrow> tool_proposal option" where
  "proposal_shape v =
     (case v of
        JObj kvs \<Rightarrow>
          (case (map_of kvs ''toolId'', map_of kvs ''operationId'', map_of kvs ''targetResource'', map_of kvs ''environment'',
                 read_parameters (map_of kvs ''parameters'')) of
             (Some (JStr t), Some (JStr oper), Some (JStr target), Some (JStr en), Some ps) \<Rightarrow>
               if strict_keys [''toolId'', ''operationId'', ''targetResource'', ''environment'', ''parameters''] kvs \<and>
                  en \<in> set PROPOSAL_ENVIRONMENTS
               then Some \<lparr>pp_toolId = t, pp_operationId = oper, pp_targetResource = target, pp_environment = en, pp_parameters = ps\<rparr>
               else None
           | _ \<Rightarrow> None)
      | _ \<Rightarrow> None)"

definition check_proposal :: "json \<Rightarrow> tool_proposal checked" where
  "check_proposal v =
     (case proposal_shape v of
        None \<Rightarrow> Z_FAIL
      | Some p \<Rightarrow>
          if pp_toolId p \<in> set OBJECT_PROTOTYPE then Z_THROWS
          else case map_of PROPOSAL_OPERATIONS (pp_toolId p) of
            None \<Rightarrow> Z_FAIL
          | Some ops \<Rightarrow>
              if pp_operationId p \<in> set ops \<and> pp_toolId p \<noteq> [] \<and> pp_operationId p \<noteq> [] \<and> pp_targetResource p \<noteq> []
              then Z_OK p else Z_FAIL)"

definition check_array :: "(json \<Rightarrow> 'b checked) \<Rightarrow> json option \<Rightarrow> 'b list checked" where
  "check_array f v = (case v of None \<Rightarrow> Z_OK [] | Some (JArr vs) \<Rightarrow> check_all f vs | _ \<Rightarrow> Z_FAIL)"

definition check_output :: "json \<Rightarrow> structured_output checked" where
  "check_output v =
     (case v of
        JObj kvs \<Rightarrow>
          (case (check_array check_artifact (map_of kvs ''artifacts''), check_array check_proposal (map_of kvs ''toolProposals'')) of
             (_, Z_THROWS) \<Rightarrow> Z_THROWS
           | (Z_OK as, Z_OK ps) \<Rightarrow>
               (case map_of kvs ''summary'' of
                  Some (JStr s) \<Rightarrow>
                    if strict_keys [''summary'', ''artifacts'', ''toolProposals''] kvs
                    then Z_OK \<lparr>po_summary = s, po_artifacts = as, po_toolProposals = ps\<rparr> else Z_FAIL
                | _ \<Rightarrow> Z_FAIL)
           | _ \<Rightarrow> Z_FAIL)
      | _ \<Rightarrow> Z_FAIL)"

section \<open>The fenced block\<close>

definition fence :: string where
  "fence = replicate 3 (CHR 0x60)"

text \<open>What stands before the next fence.\<close>

fun until_fence :: "string \<Rightarrow> string option" where
  "until_fence [] = None"
| "until_fence (c # s) = (if starts_with (c # s) fence then Some [] else map_option ((#) c) (until_fence s))"

text \<open>
  The match of \<^verbatim>\<open>/```(?:json)?\s*\n([\s\S]*?)```/\<close> at the front of a text: the blanks are taken greedily up to their
  last line break, the block lazily.
\<close>

definition block_at :: "string \<Rightarrow> string option" where
  "block_at s =
     (if \<not> starts_with s fence then None
      else let r = drop 3 s; r = (if starts_with r ''json'' then drop 4 r else r);
               blanks = takeWhile is_space r; after = dropWhile (\<lambda>c. c \<noteq> CHR 0x0A) (rev blanks) in
        if after = [] then None else until_fence (drop (length after) r))"

fun first_block :: "string \<Rightarrow> string option" where
  "first_block [] = None"
| "first_block (c # s) = (case block_at (c # s) of Some b \<Rightarrow> Some b | None \<Rightarrow> first_block s)"

definition extractJsonBlock :: "string \<Rightarrow> string option" where
  "extractJsonBlock content =
     (case first_block content of None \<Rightarrow> None | Some b \<Rightarrow> if b = [] then None else Some (trim b))"

section \<open>The parser\<close>

text \<open>\<open>None\<close> when the parser throws.\<close>

definition fallback_output :: "string \<Rightarrow> structured_output" where
  "fallback_output rawContent = \<lparr>po_summary = take 1000 rawContent, po_artifacts = [], po_toolProposals = []\<rparr>"

definition parseProviderOutput :: "json_reader \<Rightarrow> string \<Rightarrow> structured_output option" where
  "parseProviderOutput rd rawContent =
     (case extractJsonBlock rawContent of
        None \<Rightarrow> Some (fallback_output rawContent)
      | Some b \<Rightarrow>
          if b = [] then Some (fallback_output rawContent)
          else case json_parse rd b of
            None \<Rightarrow> Some (fallback_output rawContent)
          | Some v \<Rightarrow>
              (case check_output v of Z_OK out \<Rightarrow> Some out | Z_FAIL \<Rightarrow> Some (fallback_output rawContent) | Z_THROWS \<Rightarrow> None))"

section \<open>What the schema lets through\<close>

definition valid_proposal :: "tool_proposal \<Rightarrow> bool" where
  "valid_proposal p \<longleftrightarrow> pp_environment p \<in> set PROPOSAL_ENVIRONMENTS \<and> pp_targetResource p \<noteq> [] \<and>
     (\<exists>ops. (pp_toolId p, ops) \<in> set PROPOSAL_OPERATIONS \<and> pp_operationId p \<in> set ops)"

definition valid_output :: "structured_output \<Rightarrow> bool" where
  "valid_output out \<longleftrightarrow> list_all valid_proposal (po_toolProposals out) \<and>
     list_all (\<lambda>(t, r). t \<noteq> [] \<and> r \<noteq> []) (po_artifacts out)"

lemma check_all_valid: "check_all f xs = Z_OK ys \<Longrightarrow> (\<And>x y. f x = Z_OK y \<Longrightarrow> P y) \<Longrightarrow> list_all P ys"
  by (induction xs arbitrary: ys) (auto split: checked.splits)

lemma check_array_valid: "check_array f v = Z_OK ys \<Longrightarrow> (\<And>x y. f x = Z_OK y \<Longrightarrow> P y) \<Longrightarrow> list_all P ys"
  by (auto simp: check_array_def split: option.splits json.splits intro: check_all_valid)

lemma proposal_shape_environment: "proposal_shape v = Some p \<Longrightarrow> pp_environment p \<in> set PROPOSAL_ENVIRONMENTS"
  by (auto simp: proposal_shape_def split: json.splits option.splits if_splits)

lemma check_proposal_valid: "check_proposal v = Z_OK p \<Longrightarrow> valid_proposal p"
  by (auto simp: check_proposal_def valid_proposal_def dest!: map_of_SomeD proposal_shape_environment
      split: option.splits if_splits)

lemma check_artifact_valid: "check_artifact v = Z_OK a \<Longrightarrow> case a of (t, r) \<Rightarrow> t \<noteq> [] \<and> r \<noteq> []"
  by (auto simp: check_artifact_def split: json.splits option.splits if_splits)

lemma checked_proposals: "check_array check_proposal v = Z_OK ps \<Longrightarrow> list_all valid_proposal ps"
  by (erule check_array_valid) (rule check_proposal_valid)

lemma checked_artifacts: "check_array check_artifact v = Z_OK as \<Longrightarrow> list_all (\<lambda>(t, r). t \<noteq> [] \<and> r \<noteq> []) as"
  by (erule check_array_valid) (rule check_artifact_valid)

lemma check_output_valid: "check_output v = Z_OK out \<Longrightarrow> valid_output out"
  unfolding valid_output_def check_output_def
  by (auto split: json.splits option.splits if_splits prod.splits checked.splits
      dest: checked_proposals checked_artifacts)

lemma parsed_output_valid: "parseProviderOutput rd rawContent = Some out \<Longrightarrow> valid_output out"
  by (auto simp: parseProviderOutput_def split: option.splits if_splits checked.splits
      dest: check_output_valid) (simp_all add: valid_output_def fallback_output_def)

section \<open>Properties\<close>

text \<open>
  C25: model text is not executable. Whatever the model wrote, every tool proposal the parser returns names a tool and
  an operation of the table, a target and a known environment, and there are proposals only when the first fenced block
  of the text is JSON that passes the strict schema; a text without a closed fence yields none.
\<close>

theorem proposals_are_schema_valid:
  assumes "parseProviderOutput rd rawContent = Some out"
  shows "valid_output out \<and>
    (po_toolProposals out \<noteq> [] \<longrightarrow>
       (\<exists>b v. extractJsonBlock rawContent = Some b \<and> json_parse rd b = Some v \<and> check_output v = Z_OK out)) \<and>
    (\<not> str_includes rawContent fence \<longrightarrow> po_toolProposals out = [])"
proof -
  have safe: "valid_output (fallback_output rawContent)" "po_toolProposals (fallback_output rawContent) = []"
    by (simp_all add: valid_output_def fallback_output_def)
  have "first_block s = None" if "\<not> str_includes s fence" for s
    using that by (induction s) (auto simp: block_at_def)
  then have none: "\<not> str_includes rawContent fence \<Longrightarrow> extractJsonBlock rawContent = None"
    by (simp add: extractJsonBlock_def)
  show ?thesis
    using assms none safe check_output_valid
    by (auto simp: parseProviderOutput_def split: option.splits if_splits checked.splits)
qed

text \<open>An answer with one proposal, and how the parser reads it.\<close>

definition sample_reader :: json_reader where
  "sample_reader = \<lparr>jr_number = (\<lambda>s. JNum (int (number_of s))), jr_wide = (\<lambda>n. ''?'')\<rparr>"

definition sample_proposal :: tool_proposal where
  "sample_proposal = \<lparr>pp_toolId = ''git'', pp_operationId = ''git.commit'', pp_targetResource = ''main'',
     pp_environment = ''LOCAL'', pp_parameters = []\<rparr>"

definition proposal_json :: "tool_proposal \<Rightarrow> json" where
  "proposal_json p = JObj [(''toolId'', JStr (pp_toolId p)), (''operationId'', JStr (pp_operationId p)),
     (''targetResource'', JStr (pp_targetResource p)), (''environment'', JStr (pp_environment p)),
     (''parameters'', JObj (pp_parameters p))]"

definition output_json :: "structured_output \<Rightarrow> json" where
  "output_json out = JObj [(''summary'', JStr (po_summary out)),
     (''artifacts'', JArr (map (\<lambda>(t, r). JObj [(''type'', JStr t), (''ref'', JStr r)]) (po_artifacts out))),
     (''toolProposals'', JArr (map proposal_json (po_toolProposals out)))]"

text \<open>An answer that carries the output in a fenced block, after some prose.\<close>

definition fenced :: "string \<Rightarrow> json \<Rightarrow> string" where
  "fenced prose v = prose @ fence @ ''json'' @ [CHR 0x0A] @ json_text v @ [CHR 0x0A] @ fence"

definition sample_answer :: string where
  "sample_answer = fenced ''Done.'' (output_json \<lparr>po_summary = ''s'', po_artifacts = [], po_toolProposals = [sample_proposal]\<rparr>)"

lemma sample_answer_parsed:
  "parseProviderOutput sample_reader sample_answer =
     Some \<lparr>po_summary = ''s'', po_artifacts = [], po_toolProposals = [sample_proposal]\<rparr>"
  by code_simp

theorem proposals_are_schema_valid_witness: "list_all valid_proposal [sample_proposal]"
  using proposals_are_schema_valid[OF sample_answer_parsed] by (simp add: valid_output_def)

section \<open>A well-formed answer is understood\<close>

lemma starts_with_append: "starts_with (p @ s) p"
  by (simp add: starts_with_iff)

lemma until_fence_run:
  assumes "CHR 0x60 \<notin> set s"
  shows "until_fence (s @ fence) = Some s"
  using assms
proof (induction s)
  case Nil
  have "until_fence fence = Some []" by code_simp
  then show ?case by simp
next
  case (Cons c s)
  then have "c \<noteq> CHR 0x60" by auto
  then have "\<not> starts_with (c # s @ fence) fence" by (simp add: fence_def numeral_eq_Suc)
  with Cons show ?case by simp
qed

lemma first_block_skips: "CHR 0x60 \<notin> set p \<Longrightarrow> s \<noteq> [] \<Longrightarrow> first_block (p @ s) = first_block s"
  by (induction p) (auto simp: block_at_def fence_def numeral_eq_Suc)

lemma block_at_fenced:
  assumes "t \<noteq> []" "\<not> is_space (hd t)" "CHR 0x60 \<notin> set t"
  shows "block_at (fence @ ''json'' @ [CHR 0x0A] @ t @ [CHR 0x0A] @ fence) = Some (t @ [CHR 0x0A])"
proof -
  let ?r = "[CHR 0x0A] @ t @ [CHR 0x0A] @ fence"
  have skip: "drop 3 (fence @ ''json'' @ ?r) = ''json'' @ ?r" by (simp add: fence_def)
  have nl: "is_space (CHR 0x0A)" by (simp add: is_space_def)
  obtain c u where t: "t = c # u" "\<not> is_space c" using assms(1,2) by (cases t) auto
  have "takeWhile is_space ?r = [CHR 0x0A]" using nl t by simp
  moreover have "until_fence (drop 1 ?r) = Some (t @ [CHR 0x0A])"
    using until_fence_run[of "t @ [CHR 0x0A]"] assms(3) by simp
  moreover have "starts_with (''json'' @ ?r) ''json''" by (rule starts_with_append)
  moreover have "drop 4 (''json'' @ ?r) = ?r" by simp
  ultimately show ?thesis
    unfolding block_at_def skip using starts_with_append[of fence "''json'' @ ?r"] by (simp add: Let_def)
qed

lemma first_block_at: "block_at s = Some b \<Longrightarrow> first_block s = Some b"
  by (cases s) (auto simp: block_at_def fence_def numeral_eq_Suc)

lemma proposal_json_valid: "valid_proposal p \<Longrightarrow> check_proposal (proposal_json p) = Z_OK p"
proof -
  assume v: "valid_proposal p"
  then obtain ops where t: "(pp_toolId p, ops) \<in> set PROPOSAL_OPERATIONS" "pp_operationId p \<in> set ops" "pp_targetResource p \<noteq> []"
    by (auto simp: valid_proposal_def)
  then have m: "map_of PROPOSAL_OPERATIONS (pp_toolId p) = Some ops" "pp_toolId p \<notin> set OBJECT_PROTOTYPE" "pp_toolId p \<noteq> []"
      "pp_operationId p \<noteq> []"
    by (auto simp: PROPOSAL_OPERATIONS_def OBJECT_PROTOTYPE_def)
  have "proposal_shape (proposal_json p) = Some p"
    using v by (simp add: proposal_json_def proposal_shape_def read_parameters_def strict_keys_def valid_proposal_def)
  then show ?thesis using m t by (simp add: check_proposal_def)
qed

lemma check_all_map: "(\<And>x. x \<in> set xs \<Longrightarrow> f (g x) = Z_OK x) \<Longrightarrow> check_all f (map g xs) = Z_OK xs"
  by (induction xs) auto

lemma output_json_valid:
  assumes "valid_output out" shows "check_output (output_json out) = Z_OK out"
proof -
  have "check_all check_artifact (map (\<lambda>(t, r). JObj [(''type'', JStr t), (''ref'', JStr r)]) (po_artifacts out)) = Z_OK (po_artifacts out)"
    using assms by (intro check_all_map) (auto simp: check_artifact_def strict_keys_def valid_output_def list_all_iff)
  moreover have "check_all check_proposal (map proposal_json (po_toolProposals out)) = Z_OK (po_toolProposals out)"
    using assms by (intro check_all_map proposal_json_valid) (auto simp: valid_output_def list_all_iff)
  ultimately show ?thesis by (simp add: check_output_def output_json_def check_array_def strict_keys_def)
qed

text \<open>Failing closed is not failing always: a valid output in a fenced block behind free prose is read back as it is.\<close>

lemma fenced_output_is_recovered:
  assumes "integer_reader rd" "valid_output out" "clean_json (output_json out)"
    and "CHR 0x60 \<notin> set prose" "CHR 0x60 \<notin> set (json_text (output_json out))"
  shows "parseProviderOutput rd (fenced prose (output_json out)) = Some out"
proof -
  let ?t = "json_text (output_json out)"
  obtain u where u: "?t = CHR ''{'' # u @ [CHR ''}'']" by (auto simp: output_json_def)
  have sp: "\<not> is_space (CHR ''{'')" "\<not> is_space (CHR ''}'')" "is_space (CHR 0x0A)" by (simp_all add: is_space_def)
  have "first_block (fenced prose (output_json out)) = Some (?t @ [CHR 0x0A])"
    using first_block_skips[OF assms(4), of "fence @ ''json'' @ [CHR 0x0A] @ ?t @ [CHR 0x0A] @ fence"]
      first_block_at[OF block_at_fenced[of ?t]] assms(5) sp(1) by (simp add: fenced_def u)
  moreover have "trim (?t @ [CHR 0x0A]) = ?t" using sp by (simp add: trim_def u)
  ultimately have "extractJsonBlock (fenced prose (output_json out)) = Some ?t" by (simp add: extractJsonBlock_def)
  then show ?thesis
    using json_parse_text[OF assms(1,3)] output_json_valid[OF assms(2)] u by (simp add: parseProviderOutput_def)
qed

text \<open>
  The documented contract is a safe fallback on every failure; a tool named like a member of \<open>Object.prototype\<close> makes
  the parser throw instead.
\<close>

lemma prototype_tool_throws:
  "parseProviderOutput sample_reader
     (fenced [] (output_json \<lparr>po_summary = [], po_artifacts = [], po_toolProposals = [sample_proposal\<lparr>pp_toolId := ''constructor''\<rparr>]\<rparr>)) = None"
  by code_simp

text \<open>No operation of the Git adapter but \<open>git.commit\<close> can be proposed: staging and pushing carry other names there.\<close>

lemma proposable_git_operations:
  "valid_proposal p \<Longrightarrow> pp_toolId p = ''git'' \<Longrightarrow> pp_operationId p \<notin> {''git.stage_paths'', ''git.push_main'', ''git.status''}"
  by (auto simp: valid_proposal_def PROPOSAL_OPERATIONS_def)

end
