(* ===== verification/Provider_Agents.thy ===== *)
theory Provider_Agents
  imports Provider_Output Workflow_Engine Tool_Gateway
begin

text \<open>
  The agent adapters for three model vendors (\<^verbatim>\<open>packages/agents/src/codex/codex-adapter.ts\<close>, \<^verbatim>\<open>anthropic\<close>,
  \<^verbatim>\<open>google\<close>): one program over a vendor. \<open>execute\<close> starts \<open>performExecution\<close> and returns; that execution is a
  machine whose steps end at the \<open>await\<close>s of the code, and cancellation and the time budget act between its steps. The
  vendor's client and the tool gateway are parameters.
\<close>

section \<open>Vendors, their answers and errors\<close>

datatype vendor = V_CODEX | V_ANTHROPIC | V_GEMINI

text \<open>
  What the client gives back, in the shapes the adapters look at: the chat completion (\<open>mr_choice\<close> and its token
  counts), the vendor's own text and its own token counts. An absent id or model of the first two vendors prints as
  \<open>undefined\<close>.
\<close>

record model_response =
  mr_id :: "string option"
  mr_model :: "string option"
  mr_choice :: "string option"
  mr_text :: "string option"
  mr_promptTokens :: "nat option"
  mr_completionTokens :: "nat option"
  mr_inputTokens :: "nat option"
  mr_outputTokens :: "nat option"

record model_error =
  me_status :: "int option"
  me_name :: string

record model_call =
  mc_model :: string
  mc_role :: string
  mc_content :: string
  mc_idempotencyKey :: "string option"
  mc_signal :: bool

definition first_some :: "'a option \<Rightarrow> 'a option \<Rightarrow> 'a option" where
  "first_some a b = (case a of None \<Rightarrow> b | Some x \<Rightarrow> Some x)"

text \<open>The default of an empty text.\<close>

definition text_or :: "string \<Rightarrow> string \<Rightarrow> string" where
  "text_or s d = (if s = [] then d else s)"

definition response_content :: "vendor \<Rightarrow> model_response \<Rightarrow> string" where
  "response_content v r = or_empty (if v = V_CODEX then mr_choice r else first_some (mr_text r) (mr_choice r))"

definition or_zero :: "nat option \<Rightarrow> nat" where
  "or_zero n = (case n of None \<Rightarrow> 0 | Some k \<Rightarrow> k)"

definition input_units :: "vendor \<Rightarrow> model_response \<Rightarrow> nat" where
  "input_units v r = or_zero (if v = V_CODEX then mr_promptTokens r else first_some (mr_inputTokens r) (mr_promptTokens r))"

definition output_units :: "vendor \<Rightarrow> model_response \<Rightarrow> nat" where
  "output_units v r = or_zero (if v = V_CODEX then mr_completionTokens r else first_some (mr_outputTokens r) (mr_completionTokens r))"

fun vendor_name :: "vendor \<Rightarrow> string" where
  "vendor_name V_CODEX = ''CodexAdapter''" | "vendor_name V_ANTHROPIC = ''AnthropicAdapter''"
| "vendor_name V_GEMINI = ''GeminiAdapter''"

fun default_agent :: "vendor \<Rightarrow> string" where
  "default_agent V_CODEX = ''codex-adapter''" | "default_agent V_ANTHROPIC = ''claude-adapter''"
| "default_agent V_GEMINI = ''gemini-adapter''"

fun key_name :: "vendor \<Rightarrow> string" where
  "key_name V_CODEX = ''OPENAI_API_KEY''" | "key_name V_ANTHROPIC = ''ANTHROPIC_API_KEY''"
| "key_name V_GEMINI = ''GEMINI_API_KEY''"

fun call_of :: "vendor \<Rightarrow> string \<Rightarrow> string \<Rightarrow> model_call" where
  "call_of V_CODEX objective key = \<lparr>mc_model = ''gpt-4o'', mc_role = ''system'', mc_content = objective,
     mc_idempotencyKey = Some key, mc_signal = True\<rparr>"
| "call_of V_ANTHROPIC objective key = \<lparr>mc_model = ''claude-3-5-sonnet-latest'', mc_role = ''user'', mc_content = objective,
     mc_idempotencyKey = None, mc_signal = True\<rparr>"
| "call_of V_GEMINI objective key = \<lparr>mc_model = ''gemini-1.5-pro'', mc_role = ''user'', mc_content = objective,
     mc_idempotencyKey = None, mc_signal = False\<rparr>"

section \<open>Runs\<close>

record vendor_run =
  vr_status :: agent_run_status
  vr_artifacts :: "artifact_ref list"
  vr_evidence :: "evidence_ref list"
  vr_usage :: agent_usage
  vr_aborted :: bool

record 'x vendor_world =
  vw_runs :: "(string, vendor_run) jsmap"
  vw_outside :: 'x

record 'x vendor_host =
  vh_create :: "model_call \<Rightarrow> ('x, model_error, model_response) act"
  vh_ping :: "('x, model_error, unit) act"
  vh_gateway :: "tool_request \<Rightarrow> ('x, model_error, tool_result) act"
  vh_uuid :: "'x \<Rightarrow> string \<times> 'x"
  vh_env :: "string \<Rightarrow> string option"

definition no_usage :: agent_usage where
  "no_usage = \<lparr>us_inputUnits = 0, us_outputUnits = 0, us_estimatedCost = 0, us_currency = ''USD'', us_costStatus = COST_UNKNOWN\<rparr>"

definition new_run :: vendor_run where
  "new_run = \<lparr>vr_status = AR_RUNNING, vr_artifacts = [], vr_evidence = [], vr_usage = no_usage, vr_aborted = False\<rparr>"

definition update_run :: "string \<Rightarrow> (vendor_run \<Rightarrow> vendor_run) \<Rightarrow> 'x vendor_world \<Rightarrow> 'x vendor_world" where
  "update_run i f w = (case jm_get (vw_runs w) i of None \<Rightarrow> w | Some r \<Rightarrow> w\<lparr>vw_runs := jm_set i (f r) (vw_runs w)\<rparr>)"

definition aborted :: "string \<Rightarrow> 'x vendor_world \<Rightarrow> bool" where
  "aborted i w = (case jm_get (vw_runs w) i of None \<Rightarrow> False | Some r \<Rightarrow> vr_aborted r)"

definition fresh_uuid :: "'x vendor_host \<Rightarrow> 'x vendor_world \<Rightarrow> string \<times> 'x vendor_world" where
  "fresh_uuid h w = (case vh_uuid h (vw_outside w) of (u, x) \<Rightarrow> (u, w\<lparr>vw_outside := x\<rparr>))"

definition evId :: "(string \<Rightarrow> string) \<Rightarrow> string \<Rightarrow> string \<Rightarrow> string \<Rightarrow> string \<Rightarrow> string" where
  "evId sha base type sourceRef claim =
     (let hash = take 32 (sha (base @ '':'' @ type @ '':'' @ sourceRef @ '':'' @ claim @ '':0'')) in
      take 8 hash @ ''-'' @ take 4 (drop 8 hash) @ ''-4'' @ take 3 (drop 13 hash) @ ''-8'' @ take 3 (drop 17 hash) @
      ''-'' @ take 12 (drop 20 hash))"

definition run_evidence :: "(string \<Rightarrow> string) \<Rightarrow> string \<Rightarrow> string \<Rightarrow> string \<Rightarrow> string \<Rightarrow> evidence_ref" where
  "run_evidence sha runId type sourceRef claim =
     \<lparr>er_evidenceId = evId sha runId type sourceRef claim, er_type = type, er_claimSupported = claim, er_sourceRef = sourceRef\<rparr>"

section \<open>One execution\<close>

record exec_task =
  vk_vendor :: vendor
  vk_agentId :: string
  vk_runId :: string
  vk_wp :: work_package
  vk_correlationId :: string
  vk_attemptId :: string

text \<open>
  Where an execution stands: about to ask the model (the index of the attempt and the retry evidence so far), waiting
  before the next attempt, working through the proposals of an answer, or over.
\<close>

record tools_phase =
  tl_attempt :: nat
  tl_retry :: "evidence_ref list"
  tl_response :: model_response
  tl_content :: string
  tl_artifacts :: "(string \<times> string) list"
  tl_pending :: "tool_proposal list"
  tl_status :: agent_run_status
  tl_denials :: "evidence_ref list"

datatype exec_pc = PC_CALL nat "evidence_ref list" | PC_WAIT nat "evidence_ref list" | PC_TOOLS tools_phase | PC_DONE

definition MAX_RETRIES :: nat where
  "MAX_RETRIES = 3"

definition fail_run :: "exec_task \<Rightarrow> agent_run_status \<Rightarrow> evidence_ref list \<Rightarrow> 'x vendor_world \<Rightarrow> exec_pc \<times> 'x vendor_world" where
  "fail_run k st evidence w =
     (PC_DONE, update_run (vk_runId k) (\<lambda>r. r\<lparr>vr_status := st, vr_evidence := evidence\<rparr>) w)"

definition retry_note :: "(string \<Rightarrow> string) \<Rightarrow> exec_task \<Rightarrow> string \<Rightarrow> nat \<Rightarrow> evidence_ref" where
  "retry_note sha k what n =
     run_evidence sha (vk_runId k) ''retry'' (vendor_name (vk_vendor k)) (what @ '' on attempt '' @ show_int (int n + 1))"

definition on_error :: "(string \<Rightarrow> string) \<Rightarrow> exec_task \<Rightarrow> nat \<Rightarrow> evidence_ref list \<Rightarrow> model_error \<Rightarrow> 'x vendor_world \<Rightarrow>
    exec_pc \<times> 'x vendor_world" where
  "on_error sha k n retry err w =
     (case me_status err of
        Some s \<Rightarrow>
          if s = 429 then
            (let retry' = retry @ [retry_note sha k ''Rate limited (429)'' n] in
             if n < MAX_RETRIES - 1 then (PC_WAIT (n + 1) retry', w) else fail_run k AR_INTERRUPTED retry' w)
          else if s \<ge> 500 then
            (let retry' = retry @ [retry_note sha k (''Server error ('' @ show_int s @ '')'') n] in
             if n < MAX_RETRIES - 1 then (PC_WAIT (n + 1) retry', w) else fail_run k AR_FAILED retry' w)
          else if me_name err = ''AbortError'' \<or> aborted (vk_runId k) w then (PC_DONE, w)
          else (PC_DONE, update_run (vk_runId k) (\<lambda>r. r\<lparr>vr_status := AR_FAILED\<rparr>) w)
      | None \<Rightarrow>
          if me_name err = ''AbortError'' \<or> aborted (vk_runId k) w then (PC_DONE, w)
          else (PC_DONE, update_run (vk_runId k) (\<lambda>r. r\<lparr>vr_status := AR_FAILED\<rparr>) w))"

text \<open>The types of artifacts are cast, not checked; the empty text, which the parser rejects, would become PATCH.\<close>

definition ARTIFACT_NAMES :: "(string \<times> artifact_type) list" where
  "ARTIFACT_NAMES = [(''PATCH'', ART_PATCH), (''FILE'', ART_FILE), (''COMMIT'', ART_COMMIT), (''BRANCH'', ART_BRANCH),
     (''PR'', ART_PR), (''TEST_REPORT'', ART_TEST_REPORT), (''BUILD'', ART_BUILD), (''DEPLOYMENT'', ART_DEPLOYMENT),
     (''DOCUMENT'', ART_DOCUMENT), (''SCREENSHOT'', ART_SCREENSHOT), (''LOG_BUNDLE'', ART_LOG_BUNDLE)]"

definition cast_type :: "string \<Rightarrow> artifact_type" where
  "cast_type t = (if t = [] then ART_PATCH else case map_of ARTIFACT_NAMES t of Some a \<Rightarrow> a | None \<Rightarrow> ART_UNCHECKED t)"

fun number_artifacts :: "'x vendor_host \<Rightarrow> (string \<times> string) list \<Rightarrow> 'x vendor_world \<Rightarrow> artifact_ref list \<times> 'x vendor_world" where
  "number_artifacts h [] w = ([], w)"
| "number_artifacts h ((t, ref) # as) w =
     (case fresh_uuid h w of (u, w1) \<Rightarrow>
      case number_artifacts h as w1 of (rest, w2) \<Rightarrow>
        (\<lparr>ar_artifactId = u, ar_type = cast_type t, ar_ref = ref\<rparr> # rest, w2))"

text \<open>An id the answer lacks: the first two adapters print it, the third draws a fresh one each time it needs it.\<close>

definition response_id :: "'x vendor_host \<Rightarrow> vendor \<Rightarrow> model_response \<Rightarrow> 'x vendor_world \<Rightarrow> string \<times> 'x vendor_world" where
  "response_id h v r w = (case mr_id r of Some i \<Rightarrow> (i, w) | None \<Rightarrow> if v = V_GEMINI then fresh_uuid h w else (''undefined'', w))"

definition response_model :: "vendor \<Rightarrow> model_response \<Rightarrow> string" where
  "response_model v r = (case mr_model r of Some m \<Rightarrow> m | None \<Rightarrow> if v = V_GEMINI then ''gemini'' else ''undefined'')"

definition complete_run :: "(string \<Rightarrow> string) \<Rightarrow> 'x vendor_host \<Rightarrow> exec_task \<Rightarrow> tools_phase \<Rightarrow> 'x vendor_world \<Rightarrow>
    exec_pc \<times> 'x vendor_world" where
  "complete_run sha h k ph w =
     (let v = vk_vendor k; r = tl_response ph in
      case number_artifacts h (tl_artifacts ph) w of (arts, w1) \<Rightarrow>
      case fresh_uuid h w1 of (u, w2) \<Rightarrow>
      case response_id h v r w2 of (hashed, w3) \<Rightarrow>
      case response_id h v r w3 of (shown, w4) \<Rightarrow>
        (PC_DONE, update_run (vk_runId k) (\<lambda>run. run\<lparr>vr_status := tl_status ph,
           vr_artifacts := arts @ [\<lparr>ar_artifactId = u, ar_type = ART_PATCH, ar_ref = take 50 (tl_content ph)\<rparr>],
           vr_evidence := \<lparr>er_evidenceId = evId sha (vk_runId k) ''model'' hashed (response_model v r), er_type = ''model'',
               er_claimSupported = response_model v r, er_sourceRef = shown\<rparr> # tl_denials ph @ tl_retry ph,
           vr_usage := \<lparr>us_inputUnits = input_units v r, us_outputUnits = output_units v r, us_estimatedCost = 0,
               us_currency = ''USD'', us_costStatus = COST_UNKNOWN\<rparr>\<rparr>) w4))"

text \<open>
  The request that carries a proposal to the gateway, in the name of the adapter and under the authority of the work
  package. Its schema may still refuse it; that error has no HTTP status.
\<close>

definition proposal_request :: "exec_task \<Rightarrow> tool_proposal \<Rightarrow> string \<Rightarrow> string \<Rightarrow> tool_request" where
  "proposal_request k p requestId idempotencyKey =
     \<lparr>tq_schemaVersion = ''1.0.0'', tq_requestId = requestId, tq_projectId = wp_projectId (vk_wp k),
      tq_actorRef = vk_agentId k, tq_workItemRef = wp_workItemId (vk_wp k), tq_workPackageRef = wp_workPackageId (vk_wp k),
      tq_toolId = pp_toolId p, tq_operationId = pp_operationId p, tq_targetResource = pp_targetResource p,
      tq_environment = pp_environment p, tq_parameters = pp_parameters p,
      tq_authorityContextRef = wp_authorityContextRef (vk_wp k), tq_idempotencyKey = idempotencyKey,
      tq_correlationId = vk_correlationId k\<rparr>"

definition zod_error :: model_error where
  "zod_error = \<lparr>me_status = None, me_name = ''ZodError''\<rparr>"

definition judge_result :: "(string \<Rightarrow> string) \<Rightarrow> exec_task \<Rightarrow> string \<Rightarrow> tool_result \<Rightarrow> tools_phase \<Rightarrow> tools_phase" where
  "judge_result sha k requestId x ph =
     (if tx_status x = TS_DENIED then
        ph\<lparr>tl_status := AR_FAILED,
           tl_denials := tl_denials ph @ [run_evidence sha (vk_runId k) ''tool_denial'' requestId (tx_summary x)]\<rparr>
      else if tx_status x \<in> {TS_FAILED, TS_TIMED_OUT, TS_UNKNOWN} then ph\<lparr>tl_status := AR_FAILED\<rparr>
      else if tx_status x = TS_CANCELLED \<and> tl_status ph = AR_COMPLETED then ph\<lparr>tl_status := AR_CANCELLED\<rparr>
      else ph)"

definition submit_proposal :: "(string \<Rightarrow> string) \<Rightarrow> 'x vendor_host \<Rightarrow> exec_task \<Rightarrow> tools_phase \<Rightarrow> tool_proposal \<Rightarrow>
    tool_proposal list \<Rightarrow> 'x vendor_world \<Rightarrow> exec_pc \<times> 'x vendor_world" where
  "submit_proposal sha h k ph p rest w =
     (case fresh_uuid h w of (requestId, w1) \<Rightarrow>
      case fresh_uuid h w1 of (idempotencyKey, w2) \<Rightarrow>
      let q = proposal_request k p requestId idempotencyKey in
      if \<not> valid_request q then on_error sha k (tl_attempt ph) (tl_retry ph) zod_error w2
      else case vh_gateway h q (vw_outside w2) of
        (Inl err, x) \<Rightarrow> on_error sha k (tl_attempt ph) (tl_retry ph) err (w2\<lparr>vw_outside := x\<rparr>)
      | (Inr res, x) \<Rightarrow>
          let ph' = (judge_result sha k requestId res ph)\<lparr>tl_pending := rest\<rparr>; w3 = w2\<lparr>vw_outside := x\<rparr> in
          if rest = [] then complete_run sha h k ph' w3 else (PC_TOOLS ph', w3))"

text \<open>An answer whose text looks like JSON but is in no block.\<close>

definition bare_json :: "string \<Rightarrow> structured_output \<Rightarrow> bool" where
  "bare_json content out \<longleftrightarrow> (let t = trim content in
     t \<noteq> [] \<and> (hd t = CHR ''{'' \<or> hd t = CHR ''['') \<and> po_toolProposals out = [] \<and> po_artifacts out = [] \<and>
     \<not> str_includes content fence)"

definition malformed :: "(string \<Rightarrow> string) \<Rightarrow> exec_task \<Rightarrow> string \<Rightarrow> evidence_ref" where
  "malformed sha k claim = run_evidence sha (vk_runId k) ''malformed_output'' (vendor_name (vk_vendor k)) claim"

definition take_answer :: "(string \<Rightarrow> string) \<Rightarrow> json_reader \<Rightarrow> 'x vendor_host \<Rightarrow> exec_task \<Rightarrow> nat \<Rightarrow> evidence_ref list \<Rightarrow>
    model_response \<Rightarrow> 'x vendor_world \<Rightarrow> exec_pc \<times> 'x vendor_world" where
  "take_answer sha rd h k n retry resp w =
     (let content = response_content (vk_vendor k) resp in
      case parseProviderOutput rd content of
        None \<Rightarrow> fail_run k AR_FAILED [malformed sha k ''Parse error: allowedOps.includes is not a function''] w
      | Some out \<Rightarrow>
          if bare_json content out then
            fail_run k AR_FAILED [malformed sha k ''Model returned malformed JSON without valid code block''] w
          else let ph = \<lparr>tl_attempt = n, tl_retry = retry, tl_response = resp, tl_content = content,
                  tl_artifacts = po_artifacts out, tl_pending = po_toolProposals out, tl_status = AR_COMPLETED, tl_denials = []\<rparr> in
            if po_toolProposals out = [] then complete_run sha h k ph w else (PC_TOOLS ph, w))"

definition exec_step :: "(string \<Rightarrow> string) \<Rightarrow> json_reader \<Rightarrow> 'x vendor_host \<Rightarrow> exec_task \<Rightarrow> exec_pc \<Rightarrow> 'x vendor_world \<Rightarrow>
    exec_pc \<times> 'x vendor_world" where
  "exec_step sha rd h k pc w =
     (case pc of
        PC_DONE \<Rightarrow> (PC_DONE, w)
      | PC_WAIT n retry \<Rightarrow> (PC_CALL n retry, w)
      | PC_CALL n retry \<Rightarrow>
          if \<not> n < MAX_RETRIES \<or> aborted (vk_runId k) w then (PC_DONE, w)
          else (case vh_create h (call_of (vk_vendor k) (wp_objective (vk_wp k)) (vk_attemptId k @ ''-'' @ vk_runId k)) (vw_outside w) of
              (Inl err, x) \<Rightarrow> on_error sha k n retry err (w\<lparr>vw_outside := x\<rparr>)
            | (Inr resp, x) \<Rightarrow> take_answer sha rd h k n retry resp (w\<lparr>vw_outside := x\<rparr>))
      | PC_TOOLS ph \<Rightarrow>
          (case tl_pending ph of
             [] \<Rightarrow> complete_run sha h k ph w
           | p # rest \<Rightarrow> submit_proposal sha h k ph p rest w))"

section \<open>The adapter's interface\<close>

text \<open>\<open>execute\<close>: the handle, and the execution it has started, if any.\<close>

definition vendor_execute :: "(string \<Rightarrow> string) \<Rightarrow> 'x vendor_host \<Rightarrow> vendor \<Rightarrow> string \<Rightarrow> work_package \<Rightarrow> runtime_context \<Rightarrow>
    'x vendor_world \<Rightarrow> (run_handle \<times> exec_task option) \<times> 'x vendor_world" where
  "vendor_execute sha h v agentId wp ctx w =
     (case fresh_uuid h w of (runId, w1) \<Rightarrow>
      let w2 = w1\<lparr>vw_runs := jm_set runId new_run (vw_runs w1)\<rparr>;
          apiKey = (if ''OPENAI_API_KEY'' \<in> set (rc_secretRefs ctx) then vh_env h (key_name v) else None) in
      if \<not> truthy apiKey then
        ((\<lparr>rh_runId = runId, rh_status = AR_FAILED\<rparr>, None),
         update_run runId (\<lambda>r. r\<lparr>vr_status := AR_FAILED,
           vr_evidence := [run_evidence sha runId ''error'' (vendor_name v) ''Missing API Key'']\<rparr>) w2)
      else ((\<lparr>rh_runId = runId, rh_status = AR_RUNNING\<rparr>,
             Some \<lparr>vk_vendor = v, vk_agentId = agentId, vk_runId = runId, vk_wp = wp,
               vk_correlationId = rc_correlationId ctx, vk_attemptId = rc_attemptId ctx\<rparr>), w2))"

text \<open>The timer of the time budget; nothing clears it.\<close>

definition budget_over :: "(string \<Rightarrow> string) \<Rightarrow> vendor \<Rightarrow> string \<Rightarrow> 'x vendor_world \<Rightarrow> 'x vendor_world" where
  "budget_over sha v runId w =
     update_run runId (\<lambda>r. r\<lparr>vr_status := AR_FAILED,
       vr_evidence := vr_evidence r @ [run_evidence sha runId ''error'' (vendor_name v) ''Timeout''], vr_aborted := True\<rparr>) w"

definition vendor_resume :: "vendor \<Rightarrow> string \<Rightarrow> runtime_context \<Rightarrow> ('x vendor_world, exn, run_handle) act" where
  "vendor_resume v runId ctx =
     act_throw (GenericError (''UNSUPPORTED: '' @ vendor_name v @ '' does not support genuine session resumption.''))"

definition vendor_cancel :: "string \<Rightarrow> 'x vendor_world \<Rightarrow> agent_run_status \<times> 'x vendor_world" where
  "vendor_cancel runId w = (AR_CANCELLED, update_run runId (\<lambda>r. r\<lparr>vr_aborted := True, vr_status := AR_CANCELLED\<rparr>) w)"

definition vendor_getStatus :: "string \<Rightarrow> 'x vendor_world \<Rightarrow> agent_run_status" where
  "vendor_getStatus i w = (case jm_get (vw_runs w) i of None \<Rightarrow> AR_UNKNOWN | Some r \<Rightarrow> vr_status r)"

definition vendor_getArtifacts :: "string \<Rightarrow> 'x vendor_world \<Rightarrow> artifact_ref list" where
  "vendor_getArtifacts i w = (case jm_get (vw_runs w) i of None \<Rightarrow> [] | Some r \<Rightarrow> vr_artifacts r)"

definition vendor_getEvidence :: "string \<Rightarrow> 'x vendor_world \<Rightarrow> evidence_ref list" where
  "vendor_getEvidence i w = (case jm_get (vw_runs w) i of None \<Rightarrow> [] | Some r \<Rightarrow> vr_evidence r)"

definition vendor_getUsage :: "string \<Rightarrow> 'x vendor_world \<Rightarrow> agent_usage" where
  "vendor_getUsage i w = (case jm_get (vw_runs w) i of None \<Rightarrow> no_usage | Some r \<Rightarrow> vr_usage r)"

datatype adapter_health = H_AVAILABLE | H_DEGRADED | H_UNAVAILABLE

definition vendor_health :: "'x vendor_host \<Rightarrow> vendor \<Rightarrow> 'x vendor_world \<Rightarrow> adapter_health \<times> 'x vendor_world" where
  "vendor_health h v w =
     (if \<not> truthy (vh_env h (key_name v)) then (H_UNAVAILABLE, w)
      else case vh_ping h (vw_outside w) of
        (Inr _, x) \<Rightarrow> (H_AVAILABLE, w\<lparr>vw_outside := x\<rparr>)
      | (Inl err, x) \<Rightarrow>
          (case me_status err of
             Some s \<Rightarrow> if s = 401 \<or> s = 403 then H_UNAVAILABLE else if s = 429 \<or> s \<ge> 500 then H_DEGRADED else H_UNAVAILABLE
           | None \<Rightarrow> H_UNAVAILABLE, w\<lparr>vw_outside := x\<rparr>))"

text \<open>The interface the engine calls; a started execution runs on its own.\<close>

definition vendor_adapter :: "(string \<Rightarrow> string) \<Rightarrow> 'x vendor_host \<Rightarrow> vendor \<Rightarrow> string \<Rightarrow> 'x vendor_world agent_adapter" where
  "vendor_adapter sha h v agentId =
     \<lparr>ad_execute = (\<lambda>wp ctx w. case vendor_execute sha h v agentId wp ctx w of ((run, _), w') \<Rightarrow> (Inr run, w')),
      ad_resume = vendor_resume v,
      ad_getStatus = (\<lambda>i w. (Inr (vendor_getStatus i w), w)), ad_getArtifacts = (\<lambda>i w. (Inr (vendor_getArtifacts i w), w)),
      ad_getEvidence = (\<lambda>i w. (Inr (vendor_getEvidence i w), w)), ad_getUsage = (\<lambda>i w. (Inr (vendor_getUsage i w), w))\<rparr>"

section \<open>The three adapters\<close>

definition codex_adapter :: "(string \<Rightarrow> string) \<Rightarrow> 'x vendor_host \<Rightarrow> 'x vendor_world agent_adapter" where
  "codex_adapter sha h = vendor_adapter sha h V_CODEX (default_agent V_CODEX)"

definition anthropic_adapter :: "(string \<Rightarrow> string) \<Rightarrow> 'x vendor_host \<Rightarrow> 'x vendor_world agent_adapter" where
  "anthropic_adapter sha h = vendor_adapter sha h V_ANTHROPIC (default_agent V_ANTHROPIC)"

definition anthropic_execute :: "(string \<Rightarrow> string) \<Rightarrow> 'x vendor_host \<Rightarrow> string \<Rightarrow> work_package \<Rightarrow> runtime_context \<Rightarrow>
    'x vendor_world \<Rightarrow> (run_handle \<times> exec_task option) \<times> 'x vendor_world" where
  "anthropic_execute sha h = vendor_execute sha h V_ANTHROPIC"

definition anthropic_step :: "(string \<Rightarrow> string) \<Rightarrow> json_reader \<Rightarrow> 'x vendor_host \<Rightarrow> exec_task \<Rightarrow> exec_pc \<Rightarrow> 'x vendor_world \<Rightarrow>
    exec_pc \<times> 'x vendor_world" where
  "anthropic_step sha rd h k = exec_step sha rd h (k\<lparr>vk_vendor := V_ANTHROPIC\<rparr>)"

definition anthropic_health :: "'x vendor_host \<Rightarrow> 'x vendor_world \<Rightarrow> adapter_health \<times> 'x vendor_world" where
  "anthropic_health h = vendor_health h V_ANTHROPIC"

definition gemini_adapter :: "(string \<Rightarrow> string) \<Rightarrow> 'x vendor_host \<Rightarrow> 'x vendor_world agent_adapter" where
  "gemini_adapter sha h = vendor_adapter sha h V_GEMINI (default_agent V_GEMINI)"

definition gemini_execute :: "(string \<Rightarrow> string) \<Rightarrow> 'x vendor_host \<Rightarrow> string \<Rightarrow> work_package \<Rightarrow> runtime_context \<Rightarrow>
    'x vendor_world \<Rightarrow> (run_handle \<times> exec_task option) \<times> 'x vendor_world" where
  "gemini_execute sha h = vendor_execute sha h V_GEMINI"

definition gemini_step :: "(string \<Rightarrow> string) \<Rightarrow> json_reader \<Rightarrow> 'x vendor_host \<Rightarrow> exec_task \<Rightarrow> exec_pc \<Rightarrow> 'x vendor_world \<Rightarrow>
    exec_pc \<times> 'x vendor_world" where
  "gemini_step sha rd h k = exec_step sha rd h (k\<lparr>vk_vendor := V_GEMINI\<rparr>)"

definition gemini_health :: "'x vendor_host \<Rightarrow> 'x vendor_world \<Rightarrow> adapter_health \<times> 'x vendor_world" where
  "gemini_health h = vendor_health h V_GEMINI"

section \<open>Interleavings\<close>

text \<open>An execution among the other things that happen: a cancellation, the time budget, changes outside.\<close>

inductive agent_steps :: "(string \<Rightarrow> string) \<Rightarrow> json_reader \<Rightarrow> 'x vendor_host \<Rightarrow> exec_task \<Rightarrow> exec_pc \<times> 'x vendor_world \<Rightarrow>
    exec_pc \<times> 'x vendor_world \<Rightarrow> bool" for sha rd h k where
  as_start: "agent_steps sha rd h k s s"
| as_step: "agent_steps sha rd h k s (pc, w) \<Longrightarrow> agent_steps sha rd h k s (exec_step sha rd h k pc w)"
| as_cancel: "agent_steps sha rd h k s (pc, w) \<Longrightarrow> agent_steps sha rd h k s (pc, snd (vendor_cancel (vk_runId k) w))"
| as_budget: "agent_steps sha rd h k s (pc, w) \<Longrightarrow> agent_steps sha rd h k s (pc, budget_over sha (vk_vendor k) (vk_runId k) w)"

text \<open>A host that keeps a record of what it was asked: the model calls, and the tool calls with what they gave.\<close>

datatype agent_event = L_CALL model_call | L_TOOL tool_request "tool_status option"

definition recording :: "'x vendor_host \<Rightarrow> ('x \<times> agent_event list) vendor_host" where
  "recording h =
     \<lparr>vh_create = (\<lambda>c (x, es). case vh_create h c x of (r, x') \<Rightarrow> (r, (x', es @ [L_CALL c]))),
      vh_ping = (\<lambda>(x, es). case vh_ping h x of (r, x') \<Rightarrow> (r, (x', es))),
      vh_gateway = (\<lambda>q (x, es). case vh_gateway h q x of (r, x') \<Rightarrow>
          (r, (x', es @ [L_TOOL q (case r of Inl _ \<Rightarrow> None | Inr t \<Rightarrow> Some (tx_status t))]))),
      vh_uuid = (\<lambda>(x, es). case vh_uuid h x of (u, x') \<Rightarrow> (u, (x', es))), vh_env = vh_env h\<rparr>"

definition vendor_events :: "('x \<times> agent_event list) vendor_world \<Rightarrow> agent_event list" where
  "vendor_events w = snd (vw_outside w)"

text \<open>A tool call in the name of the adapter, under the authority of its work package, for a proposable operation.\<close>

definition in_the_name_of :: "exec_task \<Rightarrow> tool_request \<Rightarrow> bool" where
  "in_the_name_of k q \<longleftrightarrow> valid_request q \<and> tq_actorRef q = vk_agentId k \<and> tq_projectId q = wp_projectId (vk_wp k) \<and>
     tq_workItemRef q = wp_workItemId (vk_wp k) \<and> tq_workPackageRef q = wp_workPackageId (vk_wp k) \<and>
     tq_authorityContextRef q = wp_authorityContextRef (vk_wp k) \<and>
     (\<exists>ops. (tq_toolId q, ops) \<in> set PROPOSAL_OPERATIONS \<and> tq_operationId q \<in> set ops)"

definition model_calls :: "agent_event list \<Rightarrow> nat" where
  "model_calls es = length (filter (\<lambda>e. case e of L_CALL _ \<Rightarrow> True | L_TOOL _ _ \<Rightarrow> False) es)"

definition calls_left :: "exec_pc \<Rightarrow> nat" where
  "calls_left pc = (case pc of PC_CALL n _ \<Rightarrow> MAX_RETRIES - n | PC_WAIT n _ \<Rightarrow> MAX_RETRIES - n
     | PC_TOOLS ph \<Rightarrow> MAX_RETRIES - (tl_attempt ph + 1) | PC_DONE \<Rightarrow> 0)"

text \<open>The statuses of the tool calls since the last answer of the model.\<close>

definition last_statuses :: "agent_event list \<Rightarrow> tool_status option list" where
  "last_statuses es = concat (map (\<lambda>e. case e of L_TOOL _ st \<Rightarrow> [st] | L_CALL _ \<Rightarrow> [])
     (takeWhile (\<lambda>e. case e of L_CALL _ \<Rightarrow> False | L_TOOL _ _ \<Rightarrow> True) (rev es)))"

definition all_succeeded :: "agent_event list \<Rightarrow> bool" where
  "all_succeeded es \<longleftrightarrow> list_all (\<lambda>st. st = Some TS_SUCCEEDED) (last_statuses es)"

definition exec_inv :: "exec_task \<Rightarrow> exec_pc \<Rightarrow> ('x \<times> agent_event list) vendor_world \<Rightarrow> bool" where
  "exec_inv k pc w \<longleftrightarrow>
     model_calls (vendor_events w) + calls_left pc \<le> MAX_RETRIES \<and>
     (\<forall>q st. L_TOOL q st \<in> set (vendor_events w) \<longrightarrow> in_the_name_of k q) \<and>
     (case pc of PC_TOOLS ph \<Rightarrow> list_all valid_proposal (tl_pending ph) \<and>
         (tl_status ph = AR_COMPLETED \<longrightarrow> all_succeeded (vendor_events w)) | _ \<Rightarrow> True) \<and>
     (vendor_getStatus (vk_runId k) w = AR_COMPLETED \<longrightarrow> pc = PC_DONE \<and> all_succeeded (vendor_events w))"

section \<open>What every interleaving keeps\<close>

definition same_view :: "('x \<times> agent_event list) vendor_world \<Rightarrow> ('x \<times> agent_event list) vendor_world \<Rightarrow> bool" where
  "same_view w w' \<longleftrightarrow> vendor_events w' = vendor_events w \<and> vw_runs w' = vw_runs w"

lemma same_view_trans: "same_view u v \<Longrightarrow> same_view v w \<Longrightarrow> same_view u w"
  by (simp add: same_view_def)

lemma fresh_view: "fresh_uuid (recording h) w = (u, w') \<Longrightarrow> same_view w w'"
  by (auto simp: fresh_uuid_def recording_def same_view_def vendor_events_def split: prod.splits)

lemma number_view: "number_artifacts (recording h) as w = (rs, w') \<Longrightarrow> same_view w w'"
proof (induction as arbitrary: rs w w')
  case (Cons a as)
  obtain t ref where a: "a = (t, ref)" by force
  obtain u w1 where f: "fresh_uuid (recording h) w = (u, w1)" by force
  obtain rs' w2 where n: "number_artifacts (recording h) as w1 = (rs', w2)" by force
  have "w' = w2" using Cons.prems by (simp add: a f n)
  then show ?case using same_view_trans[OF fresh_view[OF f] Cons.IH[OF n]] by simp
qed (simp add: same_view_def)

lemma id_view: "response_id (recording h) v r w = (i, w') \<Longrightarrow> same_view w w'"
  by (auto simp: response_id_def same_view_def split: option.splits if_splits dest!: fresh_view)

lemma update_events [simp]: "vendor_events (update_run i f w) = vendor_events w"
  by (simp add: update_run_def vendor_events_def split: option.split)

lemma update_status: "vendor_getStatus i (update_run i f w) =
    (case jm_get (vw_runs w) i of None \<Rightarrow> AR_UNKNOWN | Some r \<Rightarrow> vr_status (f r))"
  by (simp add: update_run_def vendor_getStatus_def split: option.split)

lemma status_view: "same_view w w' \<Longrightarrow> vendor_getStatus i w' = vendor_getStatus i w"
  by (simp add: same_view_def vendor_getStatus_def)

lemma complete_view:
  "complete_run sha (recording h) k ph w = (pc, w') \<Longrightarrow>
     pc = PC_DONE \<and> vendor_events w' = vendor_events w \<and> vendor_getStatus (vk_runId k) w' \<in> {AR_UNKNOWN, tl_status ph}"
  by (auto simp: complete_run_def Let_def update_status split: prod.splits option.split
      dest!: number_view fresh_view id_view) (simp_all add: same_view_def)

lemma error_view:
  assumes "on_error sha k n retry err w = (pc, w')" "vendor_getStatus (vk_runId k) w \<noteq> AR_COMPLETED"
  shows "vendor_events w' = vendor_events w \<and> vendor_getStatus (vk_runId k) w' \<noteq> AR_COMPLETED \<and>
    calls_left pc \<le> MAX_RETRIES - (n + 1) \<and> (\<forall>ph. pc \<noteq> PC_TOOLS ph)"
  using assms
  by (auto simp: on_error_def fail_run_def Let_def update_status calls_left_def split: option.splits if_splits)

text \<open>The pieces of the record after one more event.\<close>

lemma calls_snoc: "model_calls (es @ [L_CALL c]) = model_calls es + 1" "model_calls (es @ [L_TOOL q st]) = model_calls es"
  by (simp_all add: model_calls_def)

lemma succeeded_snoc: "all_succeeded (es @ [L_CALL c])" "all_succeeded (es @ [L_TOOL q st]) \<longleftrightarrow> st = Some TS_SUCCEEDED \<and> all_succeeded es"
  by (auto simp: all_succeeded_def last_statuses_def)

lemma inv_done:
  assumes "exec_inv k pc w" "vendor_events w' = vendor_events w" "vendor_getStatus (vk_runId k) w' \<noteq> AR_COMPLETED"
  shows "exec_inv k PC_DONE w'"
  using assms by (simp add: exec_inv_def calls_left_def)

lemma error_inv:
  assumes "on_error sha k n retry err w = (pc', w')" "vendor_getStatus (vk_runId k) w \<noteq> AR_COMPLETED"
    and "model_calls (vendor_events w) + (MAX_RETRIES - (n + 1)) \<le> MAX_RETRIES"
    and "\<forall>q st. L_TOOL q st \<in> set (vendor_events w) \<longrightarrow> in_the_name_of k q"
  shows "exec_inv k pc' w'"
  using error_view[OF assms(1,2)] assms(3,4) by (auto simp: exec_inv_def split: exec_pc.split)

lemma complete_inv:
  assumes "complete_run sha (recording h) k ph w = (pc', w')" "model_calls (vendor_events w) \<le> MAX_RETRIES"
    and "\<forall>q st. L_TOOL q st \<in> set (vendor_events w) \<longrightarrow> in_the_name_of k q"
    and "tl_status ph = AR_COMPLETED \<longrightarrow> all_succeeded (vendor_events w)"
  shows "exec_inv k pc' w'"
  using complete_view[OF assms(1)] assms(2-4) by (auto simp: exec_inv_def calls_left_def)

lemma answer_inv:
  assumes "take_answer sha rd (recording h) k n retry resp w = (pc', w')"
    and "model_calls (vendor_events w) + (MAX_RETRIES - (n + 1)) \<le> MAX_RETRIES"
    and "\<forall>q st. L_TOOL q st \<in> set (vendor_events w) \<longrightarrow> in_the_name_of k q"
    and "vendor_getStatus (vk_runId k) w \<noteq> AR_COMPLETED" and "all_succeeded (vendor_events w)"
  shows "exec_inv k pc' w'"
proof -
  have failed: "exec_inv k PC_DONE (update_run (vk_runId k) (\<lambda>r. r\<lparr>vr_status := AR_FAILED, vr_evidence := e\<rparr>) w)" for e
    using assms(2,3) by (auto simp: exec_inv_def calls_left_def update_status split: option.split)
  show ?thesis
  proof (cases "parseProviderOutput rd (response_content (vk_vendor k) resp)")
    case None
    then show ?thesis using assms(1) failed by (auto simp: take_answer_def fail_run_def Let_def)
  next
    case (Some out)
    have valid: "list_all valid_proposal (po_toolProposals out)"
      using parsed_output_valid[OF Some] by (simp add: valid_output_def)
    let ?ph = "\<lparr>tl_attempt = n, tl_retry = retry, tl_response = resp, tl_content = response_content (vk_vendor k) resp,
        tl_artifacts = po_artifacts out, tl_pending = po_toolProposals out, tl_status = AR_COMPLETED, tl_denials = []\<rparr>"
    let ?bare = "bare_json (response_content (vk_vendor k) resp) out" and ?c = "complete_run sha (recording h) k ?ph w"
    have "\<not> ?bare \<Longrightarrow> (if po_toolProposals out = [] then ?c else (PC_TOOLS ?ph, w)) = (pc', w')"
      using assms(1) Some by (simp add: take_answer_def Let_def)
    then consider ?bare | "?c = (pc', w')" | "(pc', w') = (PC_TOOLS ?ph, w)"
      by (cases ?bare; cases "po_toolProposals out = []") auto
    then show ?thesis
    proof cases
      case 1
      then show ?thesis using assms(1) Some failed by (auto simp: take_answer_def fail_run_def Let_def)
    next
      case 2
      then show ?thesis by (rule complete_inv) (use assms(2,3,5) in auto)
    next
      case 3
      then show ?thesis using valid assms(2-5) by (auto simp: exec_inv_def calls_left_def)
    qed
  qed
qed

lemma request_named:
  assumes "valid_proposal p" "valid_request (proposal_request k p i j)"
  shows "in_the_name_of k (proposal_request k p i j)"
  using assms by (auto simp: in_the_name_of_def valid_proposal_def proposal_request_def)

lemma judge_status: "tl_status (judge_result sha k i x ph) = AR_COMPLETED \<longleftrightarrow> tl_status ph = AR_COMPLETED \<and> tx_status x = TS_SUCCEEDED"
  by (cases "tx_status x") (auto simp: judge_result_def)

lemma judge_attempt [simp]: "tl_attempt (judge_result sha k i x ph) = tl_attempt ph"
  by (simp add: judge_result_def)

lemma submit_inv:
  assumes step: "submit_proposal sha (recording h) k ph p rest w = (pc', w')"
    and inv: "exec_inv k (PC_TOOLS ph) w" and pending: "tl_pending ph = p # rest"
  shows "exec_inv k pc' w'"
proof -
  obtain i w1 where i: "fresh_uuid (recording h) w = (i, w1)" by force
  obtain j w2 where j: "fresh_uuid (recording h) w1 = (j, w2)" by force
  have view: "same_view w w2" using same_view_trans[OF fresh_view[OF i] fresh_view[OF j]] .
  let ?q = "proposal_request k p i j"
  have valid: "valid_proposal p" "list_all valid_proposal rest" using inv pending by (auto simp: exec_inv_def)
  have st: "vendor_getStatus (vk_runId k) w2 \<noteq> AR_COMPLETED" using inv status_view[OF view] by (auto simp: exec_inv_def)
  have ev: "vendor_events w2 = vendor_events w" using view by (simp add: same_view_def)
  have n: "model_calls (vendor_events w) + (MAX_RETRIES - (tl_attempt ph + 1)) \<le> MAX_RETRIES"
    and named: "\<forall>q st. L_TOOL q st \<in> set (vendor_events w) \<longrightarrow> in_the_name_of k q"
    using inv by (auto simp: exec_inv_def calls_left_def)
  show ?thesis
  proof (cases "valid_request ?q")
    case False
    then have "on_error sha k (tl_attempt ph) (tl_retry ph) zod_error w2 = (pc', w')"
      using step i j by (simp add: submit_proposal_def)
    then show ?thesis by (rule error_inv) (use st ev n named in auto)
  next
    case True
    obtain x es where out: "vw_outside w2 = (x, es)" by force
    obtain r x' where g: "vh_gateway h ?q x = (r, x')" by force
    let ?e = "L_TOOL ?q (case r of Inl _ \<Rightarrow> None | Inr t \<Rightarrow> Some (tx_status t))"
    let ?w3 = "w2\<lparr>vw_outside := (x', es @ [?e])\<rparr>"
    have call: "vh_gateway (recording h) ?q (vw_outside w2) = (r, (x', es @ [?e]))" using g out by (simp add: recording_def)
    have es: "es = vendor_events w" using ev out by (simp add: vendor_events_def)
    have ev3: "vendor_events ?w3 = vendor_events w @ [?e]" by (simp add: vendor_events_def es[unfolded vendor_events_def])
    have st3: "vendor_getStatus (vk_runId k) ?w3 \<noteq> AR_COMPLETED" using st by (simp add: vendor_getStatus_def)
    have n3: "model_calls (vendor_events ?w3) = model_calls (vendor_events w)" by (simp add: ev3 calls_snoc)
    have named3: "\<forall>q st. L_TOOL q st \<in> set (vendor_events ?w3) \<longrightarrow> in_the_name_of k q"
      using named request_named[OF valid(1) True] by (auto simp: ev3)
    show ?thesis
    proof (cases r)
      case (Inl err)
      then have "on_error sha k (tl_attempt ph) (tl_retry ph) err ?w3 = (pc', w')"
        using step i j True call by (simp add: submit_proposal_def Let_def)
      then show ?thesis by (rule error_inv) (use st3 n n3 named3 in auto)
    next
      case (Inr t)
      let ?ph = "(judge_result sha k i t ph)\<lparr>tl_pending := rest\<rparr>"
      have succ: "tl_status ?ph = AR_COMPLETED \<longrightarrow> all_succeeded (vendor_events ?w3)"
        unfolding ev3 using inv Inr by (auto simp: succeeded_snoc judge_status exec_inv_def)
      have "(if rest = [] then complete_run sha (recording h) k ?ph ?w3 else (PC_TOOLS ?ph, ?w3)) = (pc', w')"
        using step i j True call Inr by (cases "rest = []") (simp_all add: submit_proposal_def Let_def)
      then consider "complete_run sha (recording h) k ?ph ?w3 = (pc', w')" | "(pc', w') = (PC_TOOLS ?ph, ?w3)"
        by (cases "rest = []") simp_all
      then show ?thesis
      proof cases
        case 1
        then show ?thesis by (rule complete_inv) (use n n3 named3 succ in auto)
      next
        case 2
        then show ?thesis using valid(2) st3 n n3 named3 succ by (auto simp: exec_inv_def calls_left_def)
      qed
    qed
  qed
qed

lemma step_inv:
  assumes "exec_inv k pc w" "exec_step sha rd (recording h) k pc w = (pc', w')"
  shows "exec_inv k pc' w'"
proof (cases pc)
  case PC_DONE
  then show ?thesis using assms by (simp add: exec_step_def)
next
  case (PC_WAIT n retry)
  then show ?thesis using assms by (auto simp: exec_step_def exec_inv_def calls_left_def)
next
  case (PC_TOOLS ph)
  show ?thesis
  proof (cases "tl_pending ph")
    case Nil
    then have "complete_run sha (recording h) k ph w = (pc', w')" using assms(2) PC_TOOLS by (simp add: exec_step_def)
    then show ?thesis by (rule complete_inv) (use assms(1) PC_TOOLS in \<open>auto simp: exec_inv_def\<close>)
  next
    case (Cons p rest)
    then show ?thesis using assms PC_TOOLS by (auto simp: exec_step_def intro: submit_inv)
  qed
next
  case (PC_CALL n retry)
  show ?thesis
  proof (cases "\<not> n < MAX_RETRIES \<or> aborted (vk_runId k) w")
    case True
    then show ?thesis using assms PC_CALL by (auto simp: exec_step_def intro: inv_done simp: exec_inv_def calls_left_def)
  next
    case False
    let ?c = "call_of (vk_vendor k) (wp_objective (vk_wp k)) (vk_attemptId k @ ''-'' @ vk_runId k)"
    obtain x es where out: "vw_outside w = (x, es)" by force
    obtain r x' where g: "vh_create h ?c x = (r, x')" by force
    let ?w = "w\<lparr>vw_outside := (x', es @ [L_CALL ?c])\<rparr>"
    have call: "vh_create (recording h) ?c (vw_outside w) = (r, (x', es @ [L_CALL ?c]))" using g out by (simp add: recording_def)
    have ev: "vendor_events ?w = vendor_events w @ [L_CALL ?c]" using out by (simp add: vendor_events_def)
    have n: "model_calls (vendor_events ?w) + (MAX_RETRIES - (n + 1)) \<le> MAX_RETRIES"
      using assms(1) PC_CALL False unfolding ev by (auto simp: exec_inv_def calls_left_def calls_snoc)
    have named: "\<forall>q st. L_TOOL q st \<in> set (vendor_events ?w) \<longrightarrow> in_the_name_of k q"
      using assms(1) unfolding ev by (auto simp: exec_inv_def)
    have st: "vendor_getStatus (vk_runId k) ?w \<noteq> AR_COMPLETED"
      using assms(1) PC_CALL by (auto simp: exec_inv_def vendor_getStatus_def)
    have succ: "all_succeeded (vendor_events ?w)" unfolding ev by (rule succeeded_snoc)
    show ?thesis
    proof (cases r)
      case (Inl err)
      then have "on_error sha k n retry err ?w = (pc', w')"
        using assms(2) PC_CALL False call by (simp add: exec_step_def)
      then show ?thesis by (rule error_inv[OF _ st n named])
    next
      case (Inr resp)
      then have "take_answer sha rd (recording h) k n retry resp ?w = (pc', w')"
        using assms(2) PC_CALL False call by (simp add: exec_step_def)
      then show ?thesis by (rule answer_inv[OF _ n named st succ])
    qed
  qed
qed

lemma cancel_inv:
  "exec_inv k pc w \<Longrightarrow> exec_inv k pc (snd (vendor_cancel (vk_runId k) w))"
  by (auto simp: exec_inv_def vendor_cancel_def update_status split: option.split exec_pc.split)

lemma budget_inv:
  "exec_inv k pc w \<Longrightarrow> exec_inv k pc (budget_over sha v (vk_runId k) w)"
  by (auto simp: exec_inv_def budget_over_def update_status split: option.split exec_pc.split)

lemma steps_inv:
  assumes "agent_steps sha rd (recording h) k s t" "exec_inv k (fst s) (snd s)"
  shows "exec_inv k (fst t) (snd t)"
  using assms
proof (induction rule: agent_steps.induct)
  case (as_step s pc w)
  then show ?case using step_inv[of k pc w sha rd h] by (metis fst_conv prod.collapse snd_conv)
qed (simp_all add: cancel_inv budget_inv)

section \<open>An execution ends\<close>

fun exec_rank :: "exec_pc \<Rightarrow> nat \<times> nat" where
  "exec_rank PC_DONE = (0, 0)"
| "exec_rank (PC_CALL n retry) = (3 * (MAX_RETRIES - n) + 1, 0)"
| "exec_rank (PC_WAIT n retry) = (3 * (MAX_RETRIES - n) + 2, 0)"
| "exec_rank (PC_TOOLS ph) = (3 * (MAX_RETRIES - tl_attempt ph) + (if tl_attempt ph < MAX_RETRIES then 0 else 1), length (tl_pending ph))"

lemma error_rank: "n < MAX_RETRIES \<Longrightarrow> fst (exec_rank (fst (on_error sha k n retry err w))) < 3 * (MAX_RETRIES - n)"
  "\<not> n < MAX_RETRIES \<Longrightarrow> fst (on_error sha k n retry err w) = PC_DONE"
  by (auto simp: on_error_def fail_run_def Let_def MAX_RETRIES_def split: option.split)

lemma complete_done: "fst (complete_run sha h k ph w) = PC_DONE"
  by (simp add: complete_run_def Let_def split: prod.split)

lemma lex_first: "fst a < fst b \<Longrightarrow> (a, b) \<in> less_than <*lex*> less_than"
  by (cases a; cases b) simp

lemma error_rank_tools:
  "(exec_rank (fst (on_error sha k (tl_attempt ph) retry e v)), exec_rank (PC_TOOLS ph)) \<in> less_than <*lex*> less_than"
  using error_rank[of "tl_attempt ph" sha k retry e v]
  by (cases "tl_attempt ph < MAX_RETRIES") (auto intro!: lex_first)

lemma error_rank_tools_at:
  "r = exec_rank (PC_TOOLS ph) \<Longrightarrow>
    (exec_rank (fst (on_error sha k (tl_attempt ph) retry e v)), r) \<in> less_than <*lex*> less_than"
  using error_rank_tools[of sha k ph retry e v] by simp

lemma step_rank:
  assumes "pc \<noteq> PC_DONE"
  shows "(exec_rank (fst (exec_step sha rd h k pc w)), exec_rank pc) \<in> less_than <*lex*> less_than"
proof (cases pc)
  case (PC_CALL n retry)
  have "fst (exec_rank (fst (take_answer sha rd h k n retry resp v))) < 3 * (MAX_RETRIES - n) + 1" if "n < MAX_RETRIES" for resp v
    using that by (auto simp: take_answer_def Let_def fail_run_def complete_done split: option.split)
  then show ?thesis
    by (auto simp: PC_CALL exec_step_def intro!: lex_first error_rank(1)[THEN less_SucI] split: prod.split sum.split)
next
  case (PC_WAIT n retry)
  then show ?thesis by (simp add: exec_step_def)
next
  case (PC_TOOLS ph)
  show ?thesis
  proof (cases "tl_pending ph")
    case Nil
    then show ?thesis by (auto simp: PC_TOOLS exec_step_def complete_done intro: lex_first)
  next
    case (Cons p rest)
    define r where "r = exec_rank (PC_TOOLS ph)"
    have positive: "(exec_rank PC_DONE, r) \<in> less_than <*lex*> less_than" unfolding r_def by (rule lex_first) auto
    have next_tool: "(exec_rank (PC_TOOLS ((judge_result sha k i t ph)\<lparr>tl_pending := rest\<rparr>)), r) \<in> less_than <*lex*> less_than" for i t
      using Cons by (simp add: r_def)
    have "(exec_rank (fst (submit_proposal sha h k ph p rest w)), r) \<in> less_than <*lex*> less_than"
      using next_tool positive unfolding submit_proposal_def Let_def
      by (auto simp: complete_done r_def[symmetric] simp del: exec_rank.simps intro!: error_rank_tools_at[OF r_def]
          split: prod.split sum.split)
    then show ?thesis using Cons by (simp add: PC_TOOLS exec_step_def r_def)
  qed
qed (use assms in simp)

section \<open>Properties\<close>

text \<open>
  C27: an execution ends: from wherever it stands, whatever the model and the tools answer, finitely many of its steps
  lead to its end.
\<close>

theorem execution_ends: "\<exists>n. fst (((\<lambda>(pc, w). exec_step sha rd h k pc w) ^^ n) (pc, w)) = PC_DONE"
proof (induction "exec_rank pc" arbitrary: pc w rule: wf_induct_rule[OF wf_lex_prod[OF wf_less_than wf_less_than]])
  case (1 pc w)
  show ?case
  proof (cases "pc = PC_DONE")
    case True
    then show ?thesis by (intro exI[of _ 0]) simp
  next
    case False
    obtain pc' w' where s: "exec_step sha rd h k pc w = (pc', w')" by force
    have "(exec_rank pc', exec_rank pc) \<in> less_than <*lex*> less_than" using step_rank[OF False, of sha rd h k w] s by simp
    from 1[OF this] obtain n where "fst (((\<lambda>(pc, w). exec_step sha rd h k pc w) ^^ n) (pc', w')) = PC_DONE" by blast
    then show ?thesis using s by (intro exI[of _ "Suc n"]) (simp add: funpow_Suc_right del: funpow.simps)
  qed
qed

text \<open>
  C26: on every interleaving of an execution with cancellations and its time budget, the model is asked at most three
  times; every tool call goes through the gateway as a schema-valid request for a proposable operation, in the name of the
  adapter and under the authority of its work package; and the run is COMPLETED only when the execution is over and
  every tool call since the last answer SUCCEEDED.
\<close>

theorem execution_stays_within_bounds:
  assumes "agent_steps sha rd (recording h) k (PC_CALL 0 [], w) (pc', w')" and "vendor_events w = []"
    and "vendor_getStatus (vk_runId k) w \<noteq> AR_COMPLETED"
  shows "model_calls (vendor_events w') \<le> 3 \<and>
    (\<forall>q st. L_TOOL q st \<in> set (vendor_events w') \<longrightarrow> in_the_name_of k q) \<and>
    (vendor_getStatus (vk_runId k) w' = AR_COMPLETED \<longrightarrow> pc' = PC_DONE \<and> all_succeeded (vendor_events w'))"
proof -
  have "exec_inv k (PC_CALL 0 []) w"
    using assms(2,3) by (simp add: exec_inv_def calls_left_def model_calls_def)
  then have "exec_inv k pc' w'" using steps_inv[OF assms(1)] by simp
  then show ?thesis by (auto simp: exec_inv_def MAX_RETRIES_def)
qed

text \<open>A model that answers once with one proposal, a gateway that executes it, and ids that are all the same.\<close>

definition sample_vendor_host :: "unit vendor_host" where
  "sample_vendor_host =
     \<lparr>vh_create = (\<lambda>c x. (Inr \<lparr>mr_id = Some ''m'', mr_model = Some ''g'', mr_choice = Some sample_answer, mr_text = None,
         mr_promptTokens = Some 1, mr_completionTokens = None, mr_inputTokens = None, mr_outputTokens = None\<rparr>, x)),
      vh_ping = (\<lambda>x. (Inr (), x)), vh_gateway = (\<lambda>q x. (Inr (plain_result q ''e'' TS_SUCCEEDED ''ok''), x)),
      vh_uuid = (\<lambda>x. (''u'', x)), vh_env = (\<lambda>k. Some ''key'')\<rparr>"

definition sample_task :: exec_task where
  "sample_task = \<lparr>vk_vendor = V_CODEX, vk_agentId = ''codex-adapter'', vk_runId = ''u'', vk_wp = sample_package,
     vk_correlationId = ''c'', vk_attemptId = ''a''\<rparr>"

definition sample_vendor_world :: "(unit \<times> agent_event list) vendor_world" where
  "sample_vendor_world = \<lparr>vw_runs = [(''u'', new_run)], vw_outside = ((), [])\<rparr>"

definition sample_exec :: "nat \<Rightarrow> exec_pc \<times> (unit \<times> agent_event list) vendor_world" where
  "sample_exec n = ((\<lambda>(pc, w). exec_step sample_sha sample_reader (recording sample_vendor_host) sample_task pc w) ^^ n)
     (PC_CALL 0 [], sample_vendor_world)"

lemma sample_exec_steps: "agent_steps sample_sha sample_reader (recording sample_vendor_host) sample_task
    (PC_CALL 0 [], sample_vendor_world) (sample_exec n)"
proof (induction n)
  case 0
  then show ?case by (simp add: sample_exec_def as_start)
next
  case (Suc n)
  then show ?case using as_step[of _ _ _ _ _ "fst (sample_exec n)" "snd (sample_exec n)"]
    by (simp add: sample_exec_def split_beta)
qed

lemma sample_exec_completes: "vendor_getStatus ''u'' (snd (sample_exec 2)) = AR_COMPLETED"
  by code_simp

theorem execution_stays_within_bounds_witness: "all_succeeded (vendor_events (snd (sample_exec 2)))"
proof -
  have "agent_steps sample_sha sample_reader (recording sample_vendor_host) sample_task
    (PC_CALL 0 [], sample_vendor_world) (fst (sample_exec 2), snd (sample_exec 2))"
    using sample_exec_steps[of 2] by simp
  from execution_stays_within_bounds[OF this] sample_exec_completes show ?thesis
    by (simp add: sample_vendor_world_def sample_task_def vendor_events_def vendor_getStatus_def new_run_def)
qed

section \<open>Where the adapters go wrong\<close>

text \<open>
  A cancelled run can still complete: while the last tool call is under way the run is marked CANCELLED, and when the
  call returns the execution overwrites that with COMPLETED.
\<close>

lemma cancelled_run_completes:
  "(let (pc, w) = sample_exec 1; w' = snd (vendor_cancel ''u'' w) in
    vendor_getStatus ''u'' w' = AR_CANCELLED \<and>
    vendor_getStatus ''u'' (snd (exec_step sample_sha sample_reader (recording sample_vendor_host) sample_task pc w')) = AR_COMPLETED)"
  by code_simp

text \<open>The timer of the budget is never cleared, so a run that completed in time is FAILED once the budget is over.\<close>

lemma completed_run_times_out:
  "vendor_getStatus i w \<noteq> AR_UNKNOWN \<Longrightarrow> vendor_getStatus i (budget_over sha v i w) = AR_FAILED"
  by (auto simp: vendor_getStatus_def budget_over_def update_run_def split: option.splits)

text \<open>
  The Anthropic and Gemini adapters look for the name of OpenAI's key among the secrets: with a reference to their
  own key alone they fail at once, whatever the environment holds.
\<close>

lemma own_key_is_not_enough:
  "''OPENAI_API_KEY'' \<notin> set (rc_secretRefs ctx) \<Longrightarrow>
   \<exists>i w'. vendor_execute sha h v agentId wp ctx w = ((\<lparr>rh_runId = i, rh_status = AR_FAILED\<rparr>, None), w') \<and>
     vendor_getStatus i w' = AR_FAILED"
  by (auto simp: vendor_execute_def Let_def vendor_getStatus_def update_run_def split: prod.split)

text \<open>
  The engine passes no secret references, so with any of the three adapters every work item that it executes ends in
  REPAIR_REQUIRED with a failed attempt, and no model is ever asked.
\<close>

lemma vendor_verdict:
  assumes "agent_verdict (vendor_adapter sha h v agentId) wp (engine_ctx corr wrun aid) w = (d, w')"
  shows "vd_attempt d = AT_FAILED \<and> vd_item d = WI_REPAIR_REQUIRED"
proof -
  have "''OPENAI_API_KEY'' \<notin> set (rc_secretRefs (engine_ctx corr wrun aid))" by (simp add: engine_ctx_def)
  from own_key_is_not_enough[OF this] obtain i u where
    "vendor_execute sha h v agentId wp (engine_ctx corr wrun aid) w = ((\<lparr>rh_runId = i, rh_status = AR_FAILED\<rparr>, None), u)"
    "vendor_getStatus i u = AR_FAILED" by blast
  then show ?thesis using assms
    by (auto simp: agent_verdict_def run_verdict_def vendor_adapter_def collectResult_def act_bind_def act_return_def)
qed

lemma engine_never_reaches_the_model:
  assumes "item_of db (wi_id w) = Some w" "assertExecutable w wp = Inr ()" "\<not> busy_item db (wi_id w)"
    and "attempt_of db aid = None"
  shows "\<exists>r db' x'. engine_execute work_store_ops (vendor_adapter sha h v agentId) w wp corr wrun aid now (db, x) = (Inr r, (db', x')) \<and>
    wi_lifecycleState (wr_workItem r) = WI_REPAIR_REQUIRED \<and> at_st (wr_attempt r) = AT_FAILED"
proof -
  obtain d x' where v: "agent_verdict (vendor_adapter sha h v agentId) wp (engine_ctx corr wrun aid) x = (d, x')" by force
  from wstore.execute_returns[OF assms v, of now] vendor_verdict[OF v] show ?thesis
    by (fastforce simp: attempt_in_def)
qed

end
