(* ===== verification/Mock_Agent.thy ===== *)
theory Mock_Agent
  imports Provider_Agents
begin

text \<open>
  The scripted agent of the worker (\<^verbatim>\<open>packages/agents/src/mock/mock-agent-adapter.ts\<close>): its scenario
  decides the status of every run, and a registry keeps the runs. Also the check of
  \<open>WorkPackageSchema\<close> (\<^verbatim>\<open>packages/contracts/src/agent/contracts.ts\<close>), which it and the worker apply.
\<close>

section \<open>The schema of work packages\<close>

text \<open>The lists of a work package have their defaults already: an absent list is the empty one.\<close>

definition valid_work_package :: "work_package \<Rightarrow> bool" where
  "valid_work_package wp \<longleftrightarrow> wp_schemaVersion wp = ''1.0.0'' \<and> wp_workPackageId wp \<noteq> [] \<and> wp_version wp > 0 \<and>
     wp_projectId wp \<noteq> [] \<and> wp_workItemId wp \<noteq> [] \<and> wp_completionObjectRef wp \<noteq> [] \<and> wp_objective wp \<noteq> [] \<and>
     list_all (\<lambda>(ref, _). ref \<noteq> []) (wp_authoritativeInputs wp) \<and> wp_authorityContextRef wp \<noteq> []"

definition parse_work_package :: "work_package \<Rightarrow> exn + work_package" where
  "parse_work_package wp = (if valid_work_package wp then Inr wp else Inl (exn.ZodError ''WorkPackageSchema''))"

section \<open>Runs\<close>

datatype mockAgent_scenario = MS_SUCCESS | MS_FAIL | MS_TIMEOUT | MS_INTERRUPTED | MS_WAITING_FOR_INPUT | MS_MALFORMED_RESULT

record stored_run =
  sr_scenario :: mockAgent_scenario
  sr_status :: agent_run_status
  sr_workPackage :: work_package
  sr_artifacts :: "artifact_ref list option"
  sr_evidence :: "evidence_ref list option"
  sr_usage :: "agent_usage option"

record 'x mock_world =
  mk_runs :: "(string, stored_run) jsmap"
  mk_outside :: 'x

fun initialStatus :: "mockAgent_scenario \<Rightarrow> agent_run_status" where
  "initialStatus MS_SUCCESS = AR_COMPLETED"
| "initialStatus MS_FAIL = AR_FAILED"
| "initialStatus MS_MALFORMED_RESULT = AR_FAILED"
| "initialStatus MS_INTERRUPTED = AR_INTERRUPTED"
| "initialStatus MS_TIMEOUT = AR_INTERRUPTED"
| "initialStatus MS_WAITING_FOR_INPUT = AR_WAITING_FOR_INPUT"

definition mock_usage :: agent_usage where
  "mock_usage = \<lparr>us_inputUnits = 10, us_outputUnits = 5, us_estimatedCost = 0, us_currency = ''USD'', us_costStatus = COST_UNKNOWN\<rparr>"

definition mock_patch :: "string \<Rightarrow> artifact_ref" where
  "mock_patch runId = \<lparr>ar_artifactId = runId, ar_type = ART_PATCH, ar_ref = ''mock://patch/'' @ runId\<rparr>"

definition mock_evidence :: "(string \<Rightarrow> string) \<Rightarrow> string \<Rightarrow> evidence_ref" where
  "mock_evidence sha runId = run_evidence sha runId ''AGENT_RESULT'' ''MockAdapter'' ''Mock successful completion''"

definition mock_run :: "(string \<Rightarrow> string) \<Rightarrow> mockAgent_scenario \<Rightarrow> work_package \<Rightarrow> string \<Rightarrow> stored_run" where
  "mock_run sha sc wp runId =
     \<lparr>sr_scenario = sc, sr_status = initialStatus sc, sr_workPackage = wp,
      sr_artifacts = Some (if sc = MS_SUCCESS then [mock_patch runId] else []),
      sr_evidence = Some (if sc = MS_SUCCESS then [mock_evidence sha runId] else []), sr_usage = Some mock_usage\<rparr>"

definition mockAgent_execute :: "(string \<Rightarrow> string) \<Rightarrow> ('x \<Rightarrow> string \<times> 'x) \<Rightarrow> mockAgent_scenario \<Rightarrow> work_package \<Rightarrow> runtime_context \<Rightarrow>
    ('x mock_world, exn, run_handle) act" where
  "mockAgent_execute sha uuid sc wp ctx w =
     (case parse_work_package wp of
        Inl e \<Rightarrow> (Inl e, w)
      | Inr p \<Rightarrow> (case uuid (mk_outside w) of (runId, x) \<Rightarrow>
          (Inr \<lparr>rh_runId = runId, rh_status = initialStatus sc\<rparr>,
           w\<lparr>mk_runs := jm_set runId (mock_run sha sc p runId) (mk_runs w), mk_outside := x\<rparr>)))"

text \<open>Every call but \<open>execute\<close> is about a stored run.\<close>

definition getRun :: "string \<Rightarrow> ('x mock_world, exn, stored_run) act" where
  "getRun i w = (case jm_get (mk_runs w) i of None \<Rightarrow> (Inl (AgentRunNotFoundError i), w) | Some r \<Rightarrow> (Inr r, w))"

definition put_run :: "string \<Rightarrow> stored_run \<Rightarrow> ('x mock_world, exn, unit) act" where
  "put_run i r w = (Inr (), w\<lparr>mk_runs := jm_set i r (mk_runs w)\<rparr>)"

definition resumable :: "agent_run_status list" where
  "resumable = [AR_INTERRUPTED, AR_WAITING_FOR_INPUT, AR_UNKNOWN, AR_RUNNING, AR_STARTING, AR_QUEUED, AR_CREATED,
     AR_WAITING_FOR_TOOL]"

definition mock_resume :: "string \<Rightarrow> runtime_context \<Rightarrow> ('x mock_world, exn, run_handle) act" where
  "mock_resume i ctx =
     act_bind (getRun i) (\<lambda>r.
       if sr_status r \<in> set resumable
       then act_bind (put_run i (r\<lparr>sr_status := AR_COMPLETED, sr_artifacts := Some [mock_patch i]\<rparr>))
         (\<lambda>_. act_return \<lparr>rh_runId = i, rh_status = AR_COMPLETED\<rparr>)
       else act_return \<lparr>rh_runId = i, rh_status = sr_status r\<rparr>)"

definition mock_getStatus :: "string \<Rightarrow> ('x mock_world, exn, agent_run_status) act" where
  "mock_getStatus i = act_bind (getRun i) (\<lambda>r. act_return (sr_status r))"

definition mock_getArtifacts :: "string \<Rightarrow> ('x mock_world, exn, artifact_ref list) act" where
  "mock_getArtifacts i = act_bind (getRun i) (\<lambda>r.
     if sr_scenario r = MS_MALFORMED_RESULT then act_throw (AgentResultValidationError ''Malformed artifact data'')
     else act_return (case sr_artifacts r of None \<Rightarrow> [] | Some as \<Rightarrow> as))"

definition mock_getEvidence :: "string \<Rightarrow> ('x mock_world, exn, evidence_ref list) act" where
  "mock_getEvidence i = act_bind (getRun i) (\<lambda>r.
     if sr_scenario r = MS_MALFORMED_RESULT then act_throw (AgentResultValidationError ''Malformed evidence data'')
     else act_return (case sr_evidence r of None \<Rightarrow> [] | Some es \<Rightarrow> es))"

definition mock_cancel :: "string \<Rightarrow> ('x mock_world, exn, run_handle) act" where
  "mock_cancel i = act_bind (getRun i) (\<lambda>r. act_bind (put_run i (r\<lparr>sr_status := AR_CANCELLED\<rparr>))
     (\<lambda>_. act_return \<lparr>rh_runId = i, rh_status = AR_CANCELLED\<rparr>))"

definition mock_getUsage :: "string \<Rightarrow> ('x mock_world, exn, agent_usage) act" where
  "mock_getUsage i = act_bind (getRun i) (\<lambda>r. act_return (case sr_usage r of None \<Rightarrow> no_usage | Some u \<Rightarrow> u))"

definition mock_adapter :: "(string \<Rightarrow> string) \<Rightarrow> ('x \<Rightarrow> string \<times> 'x) \<Rightarrow> mockAgent_scenario \<Rightarrow> 'x mock_world agent_adapter" where
  "mock_adapter sha uuid sc =
     \<lparr>ad_execute = mockAgent_execute sha uuid sc, ad_resume = mock_resume, ad_getStatus = mock_getStatus,
      ad_getArtifacts = mock_getArtifacts, ad_getEvidence = mock_getEvidence, ad_getUsage = mock_getUsage\<rparr>"

lemmas mock_defs = mock_adapter_def mockAgent_execute_def mock_getStatus_def mock_getArtifacts_def mock_getEvidence_def
  mock_getUsage_def getRun_def

section \<open>What the engine makes of each scenario\<close>

text \<open>The result that a run of a scenario gives, if its data are well formed.\<close>

definition mock_result :: "(string \<Rightarrow> string) \<Rightarrow> mockAgent_scenario \<Rightarrow> string \<Rightarrow> agent_run_result" where
  "mock_result sha sc runId =
     \<lparr>res_schemaVersion = ''1.0.0'', res_runId = runId, res_status = initialStatus sc,
      res_summary = ''Execution completed'', res_actionsTaken = [],
      res_artifacts = (if sc = MS_SUCCESS then [mock_patch runId] else []), res_findings = [],
      res_evidence = (if sc = MS_SUCCESS then [mock_evidence sha runId] else []), res_unresolvedItems = [],
      res_requestedInputs = [], res_sideEffects = [], res_usage = mock_usage\<rparr>"

definition mock_verdict :: "(string \<Rightarrow> string) \<Rightarrow> mockAgent_scenario \<Rightarrow> string \<Rightarrow> verdict" where
  "mock_verdict sha sc runId =
     (let run = \<lparr>rh_runId = runId, rh_status = initialStatus sc\<rparr> in
      if sc = MS_WAITING_FOR_INPUT
      then \<lparr>vd_run = Some run, vd_result = None, vd_attempt = AT_INTERRUPTED, vd_item = WI_WAITING\<rparr>
      else if sc = MS_MALFORMED_RESULT
      then \<lparr>vd_run = Some run, vd_result = None, vd_attempt = AT_FAILED, vd_item = WI_RECOVERY_REQUIRED\<rparr>
      else \<lparr>vd_run = Some run, vd_result = Some (mock_result sha sc runId),
        vd_attempt = fst (mapResult (initialStatus sc)), vd_item = snd (mapResult (initialStatus sc))\<rparr>)"

lemma mock_agent_verdict:
  assumes "valid_work_package wp" "uuid (mk_outside w) = (i, x)"
  shows "agent_verdict (mock_adapter sha uuid sc) wp ctx w =
    (mock_verdict sha sc i, w\<lparr>mk_runs := jm_set i (mock_run sha sc wp i) (mk_runs w), mk_outside := x\<rparr>)"
  using assms by (cases sc) (simp_all add: agent_verdict_def run_verdict_def collectResult_def mock_defs parse_work_package_def
    mock_run_def mock_result_def mock_verdict_def act_bind_def act_return_def act_throw_def)

text \<open>A resumed run completes with its patch; only a run that was SUCCESSFUL from the start has evidence.\<close>

lemma resumed_mock_run_has_no_evidence:
  assumes "sc \<noteq> MS_SUCCESS" "sc \<noteq> MS_MALFORMED_RESULT" "jm_get (mk_runs w) i = Some (mock_run sha sc wp i)"
    and "mock_resume i ctx w = (Inr h, w')"
  shows "fst (mock_getEvidence i w') = Inr []"
  using assms by (cases sc) (auto simp: mock_resume_def put_run_def mock_defs mock_run_def resumable_def act_bind_def act_return_def)

end
