(* ===== verification/Worker_Host.thy ===== *)
theory Worker_Host
  imports Mock_Agent Evidence_Store
begin

text \<open>
  The worker (\<^verbatim>\<open>apps/worker/src/worker.ts\<close>): it polls the work items that are READY or QUEUED, runs each
  through the workflow engine and stores the artifacts and the evidence of the run. Here the components meet: the engine
  and the evidence store work on one database, so the evidence tables refer to the work items and attempts of the
  work tables.
\<close>

section \<open>The worker's world\<close>

record 'x worker_world =
  ww_db :: work_db
  ww_evidence :: evidence_db
  ww_agent :: 'x
  ww_isRunning :: bool

text \<open>
  The host: random ids, the clock, the order in which the database lists the rows of a query (or its failure), whether
  a shutdown has been signalled by now, and the wait between two polls.
\<close>

record 'x worker_host =
  kh_uuid :: "'x \<Rightarrow> string \<times> 'x"
  kh_now :: "'x \<Rightarrow> int \<times> 'x"
  kh_query :: "work_item list \<Rightarrow> ('x, exn, work_item list) act"
  kh_isShuttingDown :: "'x \<Rightarrow> bool"
  kh_sleep :: "'x \<Rightarrow> 'x"

definition evidence_tables :: "'x worker_world \<Rightarrow> evidence_db" where
  "evidence_tables w = (ww_evidence w)\<lparr>et_workItems := map wi_id (db_items (ww_db w)), et_attempts := map at_id (db_attempts (ww_db w))\<rparr>"

definition on_evidence :: "(evidence_db, exn, 'a) act \<Rightarrow> ('x worker_world, exn, 'a) act" where
  "on_evidence m = (\<lambda>w. case m (evidence_tables w) of (r, e) \<Rightarrow> (r, w\<lparr>ww_evidence := e\<rparr>))"

definition on_engine :: "(work_db \<times> 'x, exn, 'a) act \<Rightarrow> ('x worker_world, exn, 'a) act" where
  "on_engine m = (\<lambda>w. case m (ww_db w, ww_agent w) of (r, (db, x)) \<Rightarrow> (r, w\<lparr>ww_db := db, ww_agent := x\<rparr>))"

definition draw :: "('x \<Rightarrow> 'a \<times> 'x) \<Rightarrow> ('x worker_world, exn, 'a) act" where
  "draw f = (\<lambda>w. case f (ww_agent w) of (u, x) \<Rightarrow> (Inr u, w\<lparr>ww_agent := x\<rparr>))"

section \<open>Processing one item\<close>

definition package_for :: "work_item \<Rightarrow> string \<Rightarrow> work_package" where
  "package_for i pkg =
     \<lparr>wp_schemaVersion = ''1.0.0'', wp_workPackageId = pkg, wp_version = wi_revision i, wp_projectId = wi_projectId i,
      wp_workItemId = wi_id i, wp_completionObjectRef = ''ref:'' @ wi_id i, wp_objective = wi_objective i,
      wp_authoritativeInputs = [], wp_scopeRefs = [], wp_constraints = [], wp_authorityContextRef = ''ctx:'' @ wi_projectId i,
      wp_requiredCapabilities = [], wp_allowedActions = [], wp_forbiddenActions = [], wp_toolsAllowed = [],
      wp_expectedArtifactsOut = [], wp_verificationRequirements = [], wp_evidenceRequirements = wi_evidenceRequirements i,
      wp_dependencies = [], wp_stopConditions = []\<rparr>"

text \<open>The item the engine is given: a READY task, whatever the row's state and type are.\<close>

definition item_for :: "work_item \<Rightarrow> int \<Rightarrow> int \<Rightarrow> work_item" where
  "item_for i created updated =
     \<lparr>wi_id = wi_id i, wi_projectId = wi_projectId i, wi_parentId = None, wi_type = TASK, wi_objective = wi_objective i,
      wi_lifecycleState = WI_READY, wi_revision = wi_revision i, wi_evidenceRequirements = wi_evidenceRequirements i,
      wi_currentAttemptId = None, wi_createdAt = created, wi_updatedAt = updated\<rparr>"

fun artifact_type_name :: "artifact_type \<Rightarrow> string" where
  "artifact_type_name (ART_UNCHECKED t) = t"
| "artifact_type_name t = (case find (\<lambda>(_, a). a = t) ARTIFACT_NAMES of Some (n, _) \<Rightarrow> n | None \<Rightarrow> [])"

definition stored_run_id :: "run_handle option \<Rightarrow> string" where
  "stored_run_id run = (case run of None \<Rightarrow> ''unknown'' | Some r \<Rightarrow> text_or (rh_runId r) ''unknown'')"

definition artifact_uuid :: "(string \<Rightarrow> string) \<Rightarrow> run_handle option \<Rightarrow> nat \<Rightarrow> string" where
  "artifact_uuid sha run n =
     (let h = sha ((case run of None \<Rightarrow> ''undefined'' | Some r \<Rightarrow> rh_runId r) @ ''-art-'' @ show_int (int n)) in
      take 8 h @ ''-'' @ take 4 (drop 8 h) @ ''-4'' @ take 3 (drop 13 h) @ ''-8'' @ take 3 (drop 17 h) @ ''-'' @
      take 12 (drop 20 h))"

definition artifact_row :: "(string \<Rightarrow> string) \<Rightarrow> work_item \<Rightarrow> run_handle option \<Rightarrow> string \<Rightarrow> nat \<Rightarrow> artifact_ref \<Rightarrow> int \<Rightarrow> artifact_record" where
  "artifact_row sha i run aid n a now =
     \<lparr>af_id = text_or (ar_artifactId a) (artifact_uuid sha run n), af_projectId = wi_projectId i,
      af_runId = stored_run_id run, af_workItemId = wi_id i, af_attemptId = Some aid,
      af_kind = text_or (artifact_type_name (ar_type a)) ''OTHER'', af_uri = ar_ref a, af_hash = None,
      af_producedBy = ''codex-adapter'', af_digest = None, af_createdAt = now\<rparr>"

definition evidence_row :: "work_item \<Rightarrow> run_handle option \<Rightarrow> string \<Rightarrow> evidence_ref \<Rightarrow> int \<Rightarrow> int \<Rightarrow> evidence_record" where
  "evidence_row i run aid e observed now =
     \<lparr>ev_id = er_evidenceId e, ev_projectId = wi_projectId i, ev_runId = stored_run_id run, ev_workItemId = wi_id i,
      ev_attemptId = Some aid, ev_approvalId = None, ev_agentId = Some ''codex-adapter'', ev_artifactId = None,
      ev_claim = er_claimSupported e, ev_sourceType = text_or (er_type e) ''AGENT_RESULT'',
      ev_sourceRef = er_sourceRef e, ev_scmCommitSha = None, ev_deploymentUri = None, ev_currentness = EC_CURRENT,
      ev_digest = None, ev_observedAt = observed, ev_createdAt = now\<rparr>"

text \<open>A record that exists already is skipped; any other error of the store ends the item.\<close>

definition unless_duplicate :: "('w, exn, 'a) act \<Rightarrow> ('w, exn, unit) act" where
  "unless_duplicate m = act_try m (\<lambda>_. act_return ())
     (\<lambda>e. case e of DuplicateRecordError _ _ \<Rightarrow> act_return () | _ \<Rightarrow> act_throw e)"

fun save_artifacts :: "(string \<Rightarrow> string) \<Rightarrow> 'x worker_host \<Rightarrow> work_item \<Rightarrow> run_handle option \<Rightarrow> string \<Rightarrow> nat \<Rightarrow> artifact_ref list \<Rightarrow>
    ('x worker_world, exn, unit) act" where
  "save_artifacts sha h i run aid n [] = act_return ()"
| "save_artifacts sha h i run aid n (a # as) =
     act_bind (draw (kh_now h)) (\<lambda>now.
     act_bind (unless_duplicate (on_evidence (es_saveArtifact sha (artifact_row sha i run aid n a now)))) (\<lambda>_.
     save_artifacts sha h i run aid (Suc n) as))"

fun save_evidence :: "(string \<Rightarrow> string) \<Rightarrow> 'x worker_host \<Rightarrow> work_item \<Rightarrow> run_handle option \<Rightarrow> string \<Rightarrow> evidence_ref list \<Rightarrow>
    ('x worker_world, exn, unit) act" where
  "save_evidence sha h i run aid [] = act_return ()"
| "save_evidence sha h i run aid (e # es) =
     (if er_evidenceId e = [] then act_throw (GenericError
        (''Worker persistence rejected evidence: missing evidenceId for claim '' @ [CHR 0x27] @ er_claimSupported e @ [CHR 0x27]))
      else act_bind (draw (kh_now h)) (\<lambda>observed. act_bind (draw (kh_now h)) (\<lambda>now.
        act_bind (unless_duplicate (on_evidence (es_saveEvidence sha (evidence_row i run aid e observed now)))) (\<lambda>_.
        save_evidence sha h i run aid es))))"

definition store_result :: "(string \<Rightarrow> string) \<Rightarrow> 'x worker_host \<Rightarrow> work_item \<Rightarrow> workflow_result \<Rightarrow> ('x worker_world, exn, unit) act" where
  "store_result sha h i r =
     (case wr_agentResult r of
        None \<Rightarrow> act_return ()
      | Some res \<Rightarrow> act_bind (save_artifacts sha h i (wr_agentRun r) (at_id (wr_attempt r)) 0 (res_artifacts res)) (\<lambda>_.
          save_evidence sha h i (wr_agentRun r) (at_id (wr_attempt r)) (res_evidence res)))"

text \<open>What one item came to, as the log line says.\<close>

datatype item_outcome = IO_RAN workflow_result | IO_SKIPPED exn | IO_UNHANDLED exn

definition run_item :: "(string \<Rightarrow> string) \<Rightarrow> 'x worker_host \<Rightarrow> 'x agent_adapter \<Rightarrow> work_item \<Rightarrow> work_package \<Rightarrow> string \<Rightarrow> string \<Rightarrow>
    ('x worker_world, exn, workflow_result) act" where
  "run_item sha h ad i wp corr wrun =
     act_bind (draw (kh_now h)) (\<lambda>created. act_bind (draw (kh_now h)) (\<lambda>updated.
     act_bind (draw (kh_uuid h)) (\<lambda>aid. act_bind (draw (kh_now h)) (\<lambda>now.
     act_bind (on_engine (engine_execute work_store_ops ad (item_for i created updated) wp corr wrun aid now)) (\<lambda>r.
     act_bind (store_result sha h i r) (\<lambda>_. act_return r))))))"

definition item_failed :: "exn \<Rightarrow> item_outcome" where
  "item_failed e = (case e of
      ActiveAttemptExistsError _ \<Rightarrow> IO_SKIPPED e | WorkItemRevisionConflictError _ _ \<Rightarrow> IO_SKIPPED e | _ \<Rightarrow> IO_UNHANDLED e)"

definition processItem :: "(string \<Rightarrow> string) \<Rightarrow> 'x worker_host \<Rightarrow> 'x agent_adapter \<Rightarrow> work_item \<Rightarrow>
    ('x worker_world, exn, item_outcome) act" where
  "processItem sha h ad i =
     act_bind (draw (kh_uuid h)) (\<lambda>corr. act_bind (draw (kh_uuid h)) (\<lambda>wrun. act_bind (draw (kh_uuid h)) (\<lambda>pkg.
       case parse_work_package (package_for i pkg) of
         Inl e \<Rightarrow> act_throw e
       | Inr wp \<Rightarrow> act_try (run_item sha h ad i wp corr wrun) (\<lambda>r. act_return (IO_RAN r))
           (\<lambda>e. act_return (item_failed e)))))"

section \<open>Polling\<close>

definition POLL_BATCH_SIZE :: nat where
  "POLL_BATCH_SIZE = 5"

definition pollable :: "work_item \<Rightarrow> bool" where
  "pollable i \<longleftrightarrow> wi_lifecycleState i \<in> {WI_READY, WI_QUEUED} \<and> wi_currentAttemptId i = None"

fun process_items :: "(string \<Rightarrow> string) \<Rightarrow> 'x worker_host \<Rightarrow> 'x agent_adapter \<Rightarrow> work_item list \<Rightarrow> ('x worker_world, exn, unit) act" where
  "process_items sha h ad [] w = (Inr (), w)"
| "process_items sha h ad (i # is) w =
     (if kh_isShuttingDown h (ww_agent w) then (Inr (), w)
      else act_bind (processItem sha h ad i) (\<lambda>_. process_items sha h ad is) w)"

definition poll :: "(string \<Rightarrow> string) \<Rightarrow> 'x worker_host \<Rightarrow> 'x agent_adapter \<Rightarrow> ('x worker_world, exn, unit) act" where
  "poll sha h ad w =
     (case kh_query h (filter pollable (db_items (ww_db w))) (ww_agent w) of
        (Inl e, x) \<Rightarrow> (Inr (), w\<lparr>ww_agent := x\<rparr>)
      | (Inr rows, x) \<Rightarrow> process_items sha h ad (take POLL_BATCH_SIZE rows) (w\<lparr>ww_agent := x\<rparr>))"

partial_function (option) worker_loop :: "(string \<Rightarrow> string) \<Rightarrow> 'x worker_host \<Rightarrow> 'x agent_adapter \<Rightarrow> 'x worker_world \<Rightarrow>
    ((exn + unit) \<times> 'x worker_world) option" where
  "worker_loop sha h ad w =
     (if kh_isShuttingDown h (ww_agent w) then Some (Inr (), w\<lparr>ww_isRunning := False\<rparr>)
      else (case poll sha h ad w of
          (Inl e, w') \<Rightarrow> Some (Inl e, w')
        | (Inr _, w') \<Rightarrow> worker_loop sha h ad
            (if kh_isShuttingDown h (ww_agent w') then w' else w'\<lparr>ww_agent := kh_sleep h (ww_agent w')\<rparr>)))"

definition start :: "(string \<Rightarrow> string) \<Rightarrow> 'x worker_host \<Rightarrow> 'x agent_adapter \<Rightarrow> 'x worker_world \<Rightarrow>
    ((exn + unit) \<times> 'x worker_world) option" where
  "start sha h ad w = worker_loop sha h ad (w\<lparr>ww_isRunning := True\<rparr>)"

section \<open>Storing the result of a run\<close>

text \<open>The rows that the records of an attempt refer to exist.\<close>

definition refers_to_rows :: "'x worker_world \<Rightarrow> work_item \<Rightarrow> string \<Rightarrow> bool" where
  "refers_to_rows w i aid \<longleftrightarrow> wi_projectId i \<in> set (et_projects (ww_evidence w)) \<and>
     wi_id i \<in> wi_id ` set (db_items (ww_db w)) \<and> aid \<in> at_id ` set (db_attempts (ww_db w))"

text \<open>Only the evidence tables have changed, by artifacts and evidence that are new.\<close>

definition stored_more :: "'x worker_world \<Rightarrow> 'x worker_world \<Rightarrow> evidence_record list \<Rightarrow> bool" where
  "stored_more w w' new \<longleftrightarrow> ww_db w' = ww_db w \<and> et_projects (ww_evidence w') = et_projects (ww_evidence w) \<and>
     et_verifications (ww_evidence w') = et_verifications (ww_evidence w) \<and>
     et_evidence (ww_evidence w') = et_evidence (ww_evidence w) @ new"

lemma stored_more_refl: "stored_more w w []"
  by (simp add: stored_more_def)

lemma stored_more_trans: "stored_more u v a \<Longrightarrow> stored_more v w b \<Longrightarrow> stored_more u w (a @ b)"
  by (simp add: stored_more_def)

lemma stored_more_refers: "stored_more w w' new \<Longrightarrow> refers_to_rows w i aid \<Longrightarrow> refers_to_rows w' i aid"
  by (simp add: stored_more_def refers_to_rows_def)

lemma draw_stores: "\<exists>a w'. draw f w = (Inr a, w') \<and> stored_more w w' []"
  by (auto simp: draw_def stored_more_def split: prod.split)

lemma artifact_saved:
  assumes "refers_to_rows w i aid"
  shows "\<exists>w'. unless_duplicate (on_evidence (es_saveArtifact sha (artifact_row sha i run aid n a now))) w = (Inr (), w') \<and>
    stored_more w w' []"
  using assms by (auto simp: unless_duplicate_def on_evidence_def evidence_tables_def es_saveArtifact_def artifact_row_def
    artifact_references_def refers_to_rows_def stored_more_def act_try_def act_return_def Let_def)

lemma evidence_saved:
  assumes "refers_to_rows w i aid"
  shows "\<exists>w' new. unless_duplicate (on_evidence (es_saveEvidence sha (evidence_row i run aid e t u))) w = (Inr (), w') \<and>
    stored_more w w' new \<and> set new \<subseteq> {sealed_evidence sha (evidence_row i run aid e t u)} \<and>
    er_evidenceId e \<in> ev_id ` set (et_evidence (ww_evidence w'))"
proof (cases "er_evidenceId e \<in> ev_id ` set (et_evidence (ww_evidence w))")
  case True
  then have "find_row (\<lambda>r. ev_id r = er_evidenceId e) (et_evidence (ww_evidence w)) \<noteq> None" by (auto simp: find_row_None)
  then show ?thesis using True
    by (intro exI[of _ "w\<lparr>ww_evidence := evidence_tables w\<rparr>"] exI[of _ "[]"])
      (auto simp: unless_duplicate_def on_evidence_def evidence_tables_def es_saveEvidence_def evidence_row_def
        stored_more_def act_try_def act_return_def Let_def)
next
  case False
  then have "find_row (\<lambda>r. ev_id r = er_evidenceId e) (et_evidence (ww_evidence w)) = None" by (force simp: find_row_None)
  then show ?thesis using assms
    by (intro exI[of _ "w\<lparr>ww_evidence := (evidence_tables w)\<lparr>et_evidence := et_evidence (ww_evidence w) @
          [sealed_evidence sha (evidence_row i run aid e t u)]\<rparr>\<rparr>"]
        exI[of _ "[sealed_evidence sha (evidence_row i run aid e t u)]"])
      (auto simp: unless_duplicate_def on_evidence_def evidence_tables_def es_saveEvidence_def evidence_row_def
        evidence_references_def refers_to_rows_def stored_more_def sealed_evidence_def act_try_def act_return_def Let_def)
qed

lemma artifacts_saved:
  "refers_to_rows w i aid \<Longrightarrow> \<exists>w'. save_artifacts sha h i run aid n as w = (Inr (), w') \<and> stored_more w w' []"
proof (induction as arbitrary: n w)
  case Nil
  then show ?case by (simp add: act_return_def stored_more_refl)
next
  case (Cons a as)
  obtain now w1 where d: "draw (kh_now h) w = (Inr now, w1)" "stored_more w w1 []"
    using draw_stores[of "kh_now h" w] by blast
  note r1 = stored_more_refers[OF d(2) Cons.prems]
  obtain w2 where s: "unless_duplicate (on_evidence (es_saveArtifact sha (artifact_row sha i run aid n a now))) w1 = (Inr (), w2)"
    "stored_more w1 w2 []" using artifact_saved[OF r1] by blast
  obtain w3 where "save_artifacts sha h i run aid (Suc n) as w2 = (Inr (), w3)" "stored_more w2 w3 []"
    using Cons.IH[OF stored_more_refers[OF s(2) r1]] by blast
  then show ?case using stored_more_trans[OF stored_more_trans[OF d(2) s(2)]]
    by (auto simp: act_bind_def d(1) s(1))
qed

lemma evidences_saved:
  "refers_to_rows w i aid \<Longrightarrow> \<forall>e \<in> set es. er_evidenceId e \<noteq> [] \<Longrightarrow>
   \<exists>w' new. save_evidence sha h i run aid es w = (Inr (), w') \<and> stored_more w w' new \<and>
     (\<forall>r \<in> set new. \<exists>e \<in> set es. \<exists>t u. r = sealed_evidence sha (evidence_row i run aid e t u)) \<and>
     (\<forall>e \<in> set es. er_evidenceId e \<in> ev_id ` set (et_evidence (ww_evidence w')))"
proof (induction es arbitrary: w)
  case Nil
  then show ?case using stored_more_refl[of w] by (force simp: act_return_def)
next
  case (Cons e es)
  obtain t w1 where d: "draw (kh_now h) w = (Inr t, w1)" "stored_more w w1 []"
    using draw_stores[of "kh_now h" w] by blast
  note r1 = stored_more_refers[OF d(2) Cons.prems(1)]
  obtain u w2 where d2: "draw (kh_now h) w1 = (Inr u, w2)" "stored_more w1 w2 []"
    using draw_stores[of "kh_now h" w1] by blast
  note r2 = stored_more_refers[OF d2(2) r1]
  obtain w3 n1 where s: "unless_duplicate (on_evidence (es_saveEvidence sha (evidence_row i run aid e t u))) w2 = (Inr (), w3)"
    "stored_more w2 w3 n1" "set n1 \<subseteq> {sealed_evidence sha (evidence_row i run aid e t u)}"
    "er_evidenceId e \<in> ev_id ` set (et_evidence (ww_evidence w3))" using evidence_saved[OF r2] by blast
  obtain w4 n2 where i: "save_evidence sha h i run aid es w3 = (Inr (), w4)" "stored_more w3 w4 n2"
    "\<forall>r \<in> set n2. \<exists>e \<in> set es. \<exists>t u. r = sealed_evidence sha (evidence_row i run aid e t u)"
    "\<forall>e \<in> set es. er_evidenceId e \<in> ev_id ` set (et_evidence (ww_evidence w4))"
    using Cons.IH[OF stored_more_refers[OF s(2) r2]] Cons.prems(2) by auto
  have "save_evidence sha h i run aid (e # es) w = (Inr (), w4)"
    using Cons.prems(2) by (simp add: act_bind_def d(1) d2(1) s(1) i(1))
  moreover have "stored_more w w4 (n1 @ n2)"
    using stored_more_trans[OF stored_more_trans[OF stored_more_trans[OF d(2) d2(2)] s(2)] i(2)] by simp
  moreover have "er_evidenceId e \<in> ev_id ` set (et_evidence (ww_evidence w4))"
    using s(4) i(2) by (auto simp: stored_more_def)
  ultimately show ?case using s(3) i(3,4)
    by (intro exI[of _ w4] exI[of _ "n1 @ n2"]) (simp, fastforce)
qed

section \<open>Running an item that the query found\<close>

text \<open>An item that is stored as the query read it, and whose tables are in order.\<close>

definition claimable :: "work_db \<Rightarrow> work_item \<Rightarrow> bool" where
  "claimable db i \<longleftrightarrow> db_inv db \<and> item_of db (wi_id i) = Some i \<and> pollable i"

lemma claimable_free:
  assumes "claimable db i"
  shows "\<not> busy_item db (wi_id i)"
proof
  assume "busy_item db (wi_id i)"
  then obtain a where a: "a \<in> set (db_attempts db)" "at_workItemId a = wi_id i" "at_active a"
    by (auto simp: busy_item_def list_ex_iff)
  have inv: "db_inv db" using assms by (simp add: claimable_def)
  obtain u where u: "u \<in> set (db_items db)" "wi_id u = wi_id i" "wi_currentAttemptId u = Some (at_id a)"
    using db_inv_active_held[OF inv a(1,3)] a(2) by auto
  have "item_of db (wi_id i) = Some u" using db_inv_item[OF inv u(1)] u(2) by simp
  then show False using assms u(3) by (simp add: claimable_def pollable_def)
qed

text \<open>The ids that the evidence of a result of the agent, run on a package for the item, can have.\<close>

definition names_evidence :: "'x agent_adapter \<Rightarrow> work_item \<Rightarrow> (string \<Rightarrow> bool) \<Rightarrow> bool" where
  "names_evidence ad i P \<longleftrightarrow> (\<forall>pkg ctx x v x' res. agent_verdict ad (package_for i pkg) ctx x = (v, x') \<longrightarrow>
     vd_result v = Some res \<longrightarrow> (\<forall>e \<in> set (res_evidence res). P (er_evidenceId e)))"

lemma verdict_evidence:
  "agent_verdict ad (package_for i pkg) ctx x = (v, x') \<Longrightarrow> vd_result v = Some res \<Longrightarrow> names_evidence ad i P \<Longrightarrow>
    \<forall>e \<in> set (res_evidence res). P (er_evidenceId e)"
  unfolding names_evidence_def by blast

lemma mock_names_evidence:
  assumes "\<And>k. P (er_evidenceId (mock_evidence sha k))"
  shows "names_evidence (mock_adapter sha uuid sc) i P"
proof -
  have "P (er_evidenceId e)" if v: "agent_verdict (mock_adapter sha uuid sc) (package_for i pkg) ctx x = (v, x')"
    "vd_result v = Some res" "e \<in> set (res_evidence res)" for pkg ctx x v x' res e
  proof (cases "valid_work_package (package_for i pkg)")
    case True
    obtain k y where "uuid (mk_outside x) = (k, y)" by force
    from mock_agent_verdict[where uuid = uuid, OF True this] v show ?thesis using assms
      by (auto simp: mock_verdict_def mock_result_def Let_def split: if_splits)
  next
    case False
    then show ?thesis using v by (auto simp: agent_verdict_def mock_defs parse_work_package_def)
  qed
  then show ?thesis unfolding names_evidence_def by blast
qed

lemma mock_evidence_named: "er_evidenceId (mock_evidence sha k) \<noteq> []"
  by (simp add: mock_evidence_def run_evidence_def evId_def Let_def)

lemma engine_claims:
  assumes c: "claimable db i" and new: "attempt_of db aid = None" and v: "agent_verdict ad (package_for i pkg) (engine_ctx corr wrun aid) x = (v, x')"
  shows "\<exists>w' a' db'. engine_execute work_store_ops ad (item_for i t u) (package_for i pkg) corr wrun aid now (db, x) =
      (Inr \<lparr>wr_workItem = w', wr_attempt = a', wr_agentRun = vd_run v, wr_agentResult = vd_result v\<rparr>, (db', x')) \<and>
    item_of db' (wi_id i) = Some w' \<and> attempt_of db' aid = Some a' \<and> at_id a' = aid \<and> at_st a' = vd_attempt v \<and>
    wi_id w' = wi_id i \<and> wi_projectId w' = wi_projectId i \<and> wi_lifecycleState w' = vd_item v \<and> wi_revision w' = wi_revision i + 3"
proof -
  have facts: "wi_id (item_for i t u) = wi_id i" "wi_revision (item_for i t u) = wi_revision i"
    "assertExecutable (item_for i t u) (package_for i pkg) = Inr ()"
    by (simp_all add: item_for_def package_for_def assertExecutable_def)
  have stored: "item_of db (wi_id i) = Some i" "WI_ASSIGNED \<in> set (wi_transitions (wi_lifecycleState i))"
    using c by (auto simp: claimable_def pollable_def)
  have "item_of db (wi_id (item_for i t u)) = Some i" "\<not> busy_item db (wi_id (item_for i t u))"
    using stored claimable_free[OF c] facts by simp_all
  from wstore.execute_claims[OF this(1) _ _ stored(2) facts(3) this(2) new v, of now] facts
  show ?thesis unfolding attempt_in_def by (simp only:) blast
qed

text \<open>What a run of an item has left: the tables of the engine, and the records of the attempt.\<close>

definition evidence_of_run :: "(string \<Rightarrow> string) \<Rightarrow> work_item \<Rightarrow> workflow_result \<Rightarrow> evidence_record list \<Rightarrow> bool" where
  "evidence_of_run sha i r new \<longleftrightarrow> (\<forall>q \<in> set new. verifyEvidenceIntegrity sha q \<and> ev_projectId q = wi_projectId i \<and>
     ev_workItemId q = wi_id i \<and> ev_attemptId q = Some (at_id (wr_attempt r)) \<and> ev_currentness q = EC_CURRENT \<and>
     (\<exists>res. wr_agentResult r = Some res \<and> (\<exists>e \<in> set (res_evidence res). ev_id q = er_evidenceId e \<and> ev_claim q = er_claimSupported e)))"

definition recorded_run :: "(string \<Rightarrow> string) \<Rightarrow> work_item \<Rightarrow> 'x worker_world \<Rightarrow> 'x worker_world \<Rightarrow> workflow_result \<Rightarrow> bool" where
  "recorded_run sha i w w' r \<longleftrightarrow>
     item_of (ww_db w') (wi_id i) = Some (wr_workItem r) \<and> wi_id (wr_workItem r) = wi_id i \<and>
     wi_projectId (wr_workItem r) = wi_projectId i \<and> wi_revision (wr_workItem r) = wi_revision i + 3 \<and>
     attempt_of (ww_db w) (at_id (wr_attempt r)) = None \<and> attempt_of (ww_db w') (at_id (wr_attempt r)) = Some (wr_attempt r) \<and>
     et_projects (ww_evidence w') = et_projects (ww_evidence w) \<and> et_verifications (ww_evidence w') = et_verifications (ww_evidence w) \<and>
     (\<exists>new. et_evidence (ww_evidence w') = et_evidence (ww_evidence w) @ new \<and> evidence_of_run sha i r new) \<and>
     (\<forall>res. wr_agentResult r = Some res \<longrightarrow> (\<forall>e \<in> set (res_evidence res). er_evidenceId e \<in> ev_id ` set (et_evidence (ww_evidence w'))))"

lemma result_stored:
  assumes "nonblank sha" "refers_to_rows w i (at_id (wr_attempt r))"
    and "\<forall>res. wr_agentResult r = Some res \<longrightarrow> (\<forall>e \<in> set (res_evidence res). er_evidenceId e \<noteq> [])"
  shows "\<exists>w' new. store_result sha h i r w = (Inr (), w') \<and> stored_more w w' new \<and> evidence_of_run sha i r new \<and>
    (\<forall>res. wr_agentResult r = Some res \<longrightarrow> (\<forall>e \<in> set (res_evidence res). er_evidenceId e \<in> ev_id ` set (et_evidence (ww_evidence w'))))"
proof (cases "wr_agentResult r")
  case None
  then show ?thesis using stored_more_refl[of w] by (force simp: store_result_def act_return_def evidence_of_run_def)
next
  case (Some res)
  let ?aid = "at_id (wr_attempt r)"
  obtain w1 where a: "save_artifacts sha h i (wr_agentRun r) ?aid 0 (res_artifacts res) w = (Inr (), w1)" "stored_more w w1 []"
    using artifacts_saved[OF assms(2)] by blast
  obtain w2 new where e: "save_evidence sha h i (wr_agentRun r) ?aid (res_evidence res) w1 = (Inr (), w2)" "stored_more w1 w2 new"
    "\<forall>q \<in> set new. \<exists>e \<in> set (res_evidence res). \<exists>t u. q = sealed_evidence sha (evidence_row i (wr_agentRun r) ?aid e t u)"
    "\<forall>e \<in> set (res_evidence res). er_evidenceId e \<in> ev_id ` set (et_evidence (ww_evidence w2))"
    using evidences_saved[OF stored_more_refers[OF a(2) assms(2)]] assms(3) Some by blast
  have "verifyEvidenceIntegrity sha (sealed_evidence sha (evidence_row i (wr_agentRun r) ?aid e t u))" for e t u
    by (rule sealed_verifies(2)[OF assms(1)]) (simp add: evidence_row_def)
  then have "evidence_of_run sha i r new"
    using e(3) Some by (fastforce simp: evidence_of_run_def sealed_evidence_def evidence_row_def)
  then show ?thesis using a e(1,2,4) Some stored_more_trans[OF a(2) e(2)]
    by (auto simp: store_result_def act_bind_def)
qed

lemma drawn: "draw f w = (Inr (fst (f (ww_agent w))), w\<lparr>ww_agent := snd (f (ww_agent w))\<rparr>)"
  by (simp add: draw_def split: prod.split)

text \<open>Ids that the host draws are texts that no attempt has.\<close>

definition fresh_ids :: "'x worker_host \<Rightarrow> work_db \<Rightarrow> bool" where
  "fresh_ids h db \<longleftrightarrow> (\<forall>x. fst (kh_uuid h x) \<noteq> [] \<and> attempt_of db (fst (kh_uuid h x)) = None)"

lemma run_item_records:
  assumes "nonblank sha" "claimable (ww_db w) i" "fresh_ids h (ww_db w)" "wi_projectId i \<in> set (et_projects (ww_evidence w))"
    and "names_evidence ad i (\<lambda>k. k \<noteq> [])"
  shows "\<exists>r w'. run_item sha h ad i (package_for i pkg) corr wrun w = (Inr r, w') \<and> recorded_run sha i w w' r \<and>
    (\<exists>ctx x x' v. agent_verdict ad (package_for i pkg) ctx x = (v, x') \<and> wi_lifecycleState (wr_workItem r) = vd_item v \<and>
      at_st (wr_attempt r) = vd_attempt v \<and> wr_agentResult r = vd_result v)"
proof -
  define t where "t = fst (kh_now h (ww_agent w))"
  define x1 where "x1 = snd (kh_now h (ww_agent w))"
  define u where "u = fst (kh_now h x1)"
  define x2 where "x2 = snd (kh_now h x1)"
  define aid where "aid = fst (kh_uuid h x2)"
  define x3 where "x3 = snd (kh_uuid h x2)"
  define now where "now = fst (kh_now h x3)"
  define x4 where "x4 = snd (kh_now h x3)"
  obtain v x5 where v: "agent_verdict ad (package_for i pkg) (engine_ctx corr wrun aid) x4 = (v, x5)" by force
  have new: "attempt_of (ww_db w) aid = None" using assms(3) by (simp add: fresh_ids_def aid_def)
  obtain w' a' db' where e: "engine_execute work_store_ops ad (item_for i t u) (package_for i pkg) corr wrun aid now (ww_db w, x4) =
      (Inr \<lparr>wr_workItem = w', wr_attempt = a', wr_agentRun = vd_run v, wr_agentResult = vd_result v\<rparr>, (db', x5))"
    and f: "item_of db' (wi_id i) = Some w'" "attempt_of db' aid = Some a'" "at_id a' = aid" "at_st a' = vd_attempt v"
    "wi_id w' = wi_id i" "wi_projectId w' = wi_projectId i" "wi_lifecycleState w' = vd_item v" "wi_revision w' = wi_revision i + 3"
    using engine_claims[OF assms(2) new v, of t u now] by blast
  define r where "r = \<lparr>wr_workItem = w', wr_attempt = a', wr_agentRun = vd_run v, wr_agentResult = vd_result v\<rparr>"
  define w5 where "w5 = w\<lparr>ww_db := db', ww_agent := x5\<rparr>"
  have ran: "run_item sha h ad i (package_for i pkg) corr wrun w = act_bind (store_result sha h i r) (\<lambda>_. act_return r) w5"
    using e by (simp add: run_item_def act_bind_def drawn on_engine_def r_def w5_def t_def x1_def u_def x2_def aid_def x3_def
        now_def x4_def)
  have "refers_to_rows w5 i (at_id (wr_attempt r))"
    using assms(4) item_of_Some[OF f(1)] attempt_of_Some[OF f(2)] f(3)
    by (auto simp: refers_to_rows_def w5_def r_def intro: rev_image_eqI)
  moreover have "\<forall>res. wr_agentResult r = Some res \<longrightarrow> (\<forall>e \<in> set (res_evidence res). er_evidenceId e \<noteq> [])"
    using verdict_evidence[OF v _ assms(5)] by (simp add: r_def)
  ultimately obtain w6 new where s: "store_result sha h i r w5 = (Inr (), w6)" "stored_more w5 w6 new" "evidence_of_run sha i r new"
    "\<forall>res. wr_agentResult r = Some res \<longrightarrow> (\<forall>e \<in> set (res_evidence res). er_evidenceId e \<in> ev_id ` set (et_evidence (ww_evidence w6)))"
    using result_stored[OF assms(1)] by blast
  have "recorded_run sha i w w6 r"
    using f new s(2-4) by (simp add: recorded_run_def stored_more_def w5_def r_def)
  moreover have "run_item sha h ad i (package_for i pkg) corr wrun w = (Inr r, w6)"
    by (simp add: ran act_bind_def s(1) act_return_def)
  ultimately show ?thesis using v f(4,7) by (auto simp: r_def)
qed

lemma parsed_package: "parse_work_package p = (if valid_work_package p then Inr p else Inl (exn.ZodError ''WorkPackageSchema''))"
  by (simp add: parse_work_package_def)

text \<open>A package made for an item is valid when the item has ids, an objective and a revision.\<close>

definition well_formed :: "work_item \<Rightarrow> bool" where
  "well_formed i \<longleftrightarrow> wi_id i \<noteq> [] \<and> wi_projectId i \<noteq> [] \<and> wi_objective i \<noteq> [] \<and> wi_revision i > 0"

lemma valid_package_for: "valid_work_package (package_for i pkg) \<longleftrightarrow> well_formed i \<and> pkg \<noteq> []"
  by (auto simp: valid_work_package_def package_for_def well_formed_def)

lemma claimable_item_runs:
  assumes "nonblank sha" "claimable (ww_db w) i" "well_formed i" "fresh_ids h (ww_db w)"
    and "wi_projectId i \<in> set (et_projects (ww_evidence w))" "names_evidence ad i (\<lambda>k. k \<noteq> [])"
  shows "\<exists>r w'. processItem sha h ad i w = (Inr (IO_RAN r), w') \<and> recorded_run sha i w w' r \<and>
    (\<exists>pkg ctx x x' v. valid_work_package (package_for i pkg) \<and> agent_verdict ad (package_for i pkg) ctx x = (v, x') \<and>
      wi_lifecycleState (wr_workItem r) = vd_item v \<and>
      at_st (wr_attempt r) = vd_attempt v \<and> wr_agentResult r = vd_result v)"
proof -
  define c where "c = fst (kh_uuid h (ww_agent w))"
  define x1 where "x1 = snd (kh_uuid h (ww_agent w))"
  define n where "n = fst (kh_uuid h x1)"
  define x2 where "x2 = snd (kh_uuid h x1)"
  define p where "p = fst (kh_uuid h x2)"
  let ?w = "w\<lparr>ww_agent := snd (kh_uuid h x2)\<rparr>"
  have valid: "valid_work_package (package_for i p)" using assms(3,4) by (simp add: valid_package_for fresh_ids_def p_def)
  have pre: "claimable (ww_db ?w) i" "fresh_ids h (ww_db ?w)" "wi_projectId i \<in> set (et_projects (ww_evidence ?w))"
    using assms(2,4,5) by simp_all
  obtain r w' where "run_item sha h ad i (package_for i p) c n ?w = (Inr r, w')" "recorded_run sha i ?w w' r"
    "\<exists>ctx x x' v. agent_verdict ad (package_for i p) ctx x = (v, x') \<and> wi_lifecycleState (wr_workItem r) = vd_item v \<and>
      at_st (wr_attempt r) = vd_attempt v \<and> wr_agentResult r = vd_result v"
    using run_item_records[OF assms(1) pre assms(6), of p c n] by blast
  moreover have "processItem sha h ad i w =
      act_try (run_item sha h ad i (package_for i p) c n) (\<lambda>r. act_return (IO_RAN r)) (\<lambda>e. act_return (item_failed e)) ?w"
    using valid by (simp add: processItem_def act_bind_def drawn parsed_package c_def x1_def n_def x2_def p_def)
  ultimately show ?thesis using valid by (fastforce simp: act_try_def act_return_def recorded_run_def)
qed

lemma run_outcome:
  assumes "nonblank sha" "claimable (ww_db w) i" "well_formed i" "fresh_ids h (ww_db w)"
    and "wi_projectId i \<in> set (et_projects (ww_evidence w))" "names_evidence ad i (\<lambda>k. k \<noteq> [])"
    and "processItem sha h ad i w = (Inr (IO_RAN r), w')"
  shows "recorded_run sha i w w' r \<and>
    (\<exists>pkg ctx x x' v. valid_work_package (package_for i pkg) \<and> agent_verdict ad (package_for i pkg) ctx x = (v, x') \<and>
      wi_lifecycleState (wr_workItem r) = vd_item v \<and>
      at_st (wr_attempt r) = vd_attempt v \<and> wr_agentResult r = vd_result v)"
  using claimable_item_runs[OF assms(1-6)] assms(7) by auto

section \<open>Properties\<close>

text \<open>
  The worker runs what it finds. On tables in order, a stored, well-formed item that is READY or QUEUED and holds no
  attempt is always run, whatever the agent does: the result is reported, the item is three revisions further in the
  state that the agent's verdict gives, with a new attempt; and every evidence record added belongs to that attempt and
  item, is CURRENT and passes its integrity check, and every piece of evidence of the result is in the table.
\<close>

theorem worker_runs_and_records:
  assumes "nonblank sha" "claimable (ww_db w) i" "well_formed i" "fresh_ids h (ww_db w)"
    and "wi_projectId i \<in> set (et_projects (ww_evidence w))" "names_evidence ad i (\<lambda>k. k \<noteq> [])"
  shows "\<exists>r w'. processItem sha h ad i w = (Inr (IO_RAN r), w') \<and> recorded_run sha i w w' r \<and>
    (\<exists>pkg ctx x x' v. valid_work_package (package_for i pkg) \<and> agent_verdict ad (package_for i pkg) ctx x = (v, x') \<and>
      wi_lifecycleState (wr_workItem r) = vd_item v \<and>
      at_st (wr_attempt r) = vd_attempt v \<and> wr_agentResult r = vd_result v)"
  using claimable_item_runs[OF assms] .

text \<open>Every stored evidence record of an item can support a verification.\<close>

definition intact_evidence :: "(string \<Rightarrow> string) \<Rightarrow> work_item \<Rightarrow> evidence_db \<Rightarrow> bool" where
  "intact_evidence sha i e \<longleftrightarrow> (\<forall>q \<in> set (et_evidence e). ev_workItemId q = wi_id i \<longrightarrow>
     ev_projectId q = wi_projectId i \<and> ev_currentness q = EC_CURRENT \<and> verifyEvidenceIntegrity sha q)"

lemma intact_listing:
  assumes "intact_evidence sha i e"
  shows "es_listEvidenceForWorkItem sha (wi_projectId i) (wi_id i) e =
    (Inr (sort_key ev_createdAt (filter (\<lambda>r. ev_projectId r = wi_projectId i \<and> ev_workItemId r = wi_id i) (et_evidence e))), e)"
proof -
  have "verified_rows ''evidence'' ev_id (verifyEvidenceIntegrity sha) rows = Inr rows" if "\<forall>r \<in> set rows. verifyEvidenceIntegrity sha r" for rows
    using that by (induction rows) auto
  then show ?thesis using assms by (simp add: es_listEvidenceForWorkItem_def intact_evidence_def)
qed

lemma intact_supports:
  assumes "nonblank sha" "intact_evidence sha i e" "q \<in> set (et_evidence e)" "ev_workItemId q = wi_id i"
  shows "supports sha (wi_projectId i) (wi_id i)
    (sort_key ev_createdAt (filter (\<lambda>r. ev_projectId r = wi_projectId i \<and> ev_workItemId r = wi_id i) (et_evidence e))) (ev_id q)"
proof -
  let ?l = "sort_key ev_createdAt (filter (\<lambda>r. ev_projectId r = wi_projectId i \<and> ev_workItemId r = wi_id i) (et_evidence e))"
  have "q \<in> set (rev ?l)" using assms(2-4) by (auto simp: intact_evidence_def)
  then have "find_row (\<lambda>r. ev_id r = ev_id q) (rev ?l) \<noteq> None" unfolding find_row_None by blast
  then obtain f where f: "find_row (\<lambda>r. ev_id r = ev_id q) (rev ?l) = Some f" by blast
  from find_row_Some[OF f] have m: "f \<in> set (et_evidence e)" "ev_workItemId f = wi_id i" "ev_projectId f = wi_projectId i" by auto
  have ok: "verifyEvidenceIntegrity sha f" "ev_currentness f = EC_CURRENT" using assms(2) m by (auto simp: intact_evidence_def)
  have "\<not> blank_digest (ev_digest f)"
    using ok(1) assms(1) by (auto simp: verifyEvidenceIntegrity_def blank_digest_def nonblank_def computeEvidenceDigest_def)
  then show ?thesis using f m ok by (simp add: supports_def)
qed

text \<open>The verification that an item passes on the evidence of its run.\<close>

definition pass_on :: "workflow_result \<Rightarrow> agent_run_result \<Rightarrow> string \<Rightarrow> resolve_input" where
  "pass_on r res verifier =
     \<lparr>ri_workItem = wr_workItem r, ri_runId = res_runId res, ri_attemptId = Some (at_id (wr_attempt r)),
      ri_verificationType = VT_TEST, ri_status = VS_PASS, ri_evidenceIds = map er_evidenceId (res_evidence res),
      ri_verifierRef = verifier, ri_completionDecisionId = None\<rparr>"

lemma verification_of_pass:
  "vf_digest (verification_of (pass_on r res k) vid now) = None"
  "vf_projectId (sealed_verification sha (verification_of (pass_on r res k) vid now)) = wi_projectId (wr_workItem r)"
  "vf_workItemId (sealed_verification sha (verification_of (pass_on r res k) vid now)) = wi_id (wr_workItem r)"
  "vf_status (sealed_verification sha (verification_of (pass_on r res k) vid now)) = VS_PASS"
  "vf_evidenceIds (sealed_verification sha (verification_of (pass_on r res k) vid now)) = map er_evidenceId (res_evidence res)"
  by (simp_all add: sealed_verification_def verification_of_def pass_on_def)

text \<open>The outcome of an item, as the previous theorem says it, for an outcome that is given.\<close>

lemma verdict_completed:
  assumes "agent_verdict ad wp ctx x = (v, x')" "vd_result v = Some res" "res_status res = AR_COMPLETED"
  shows "vd_item v = WI_VERIFICATION_REQUIRED"
proof -
  obtain run y where r: "run_verdict ad run y = (v, x')"
    using assms(1,2) by (auto simp: agent_verdict_def split: prod.splits sum.splits)
  from run_verdict_item[OF r] assms(2,3) show ?thesis by blast
qed

text \<open>
  C28: from READY to COMPLETED. When the worker has run an item and its agent COMPLETED with fresh evidence, then a PASS
  verification on the evidence of that run completes the item in the database, provided that the evidence the item had
  before is intact: nothing else is needed, and the item is then four revisions further.
\<close>

theorem worked_item_completes:
  assumes "nonblank sha" "claimable (ww_db w) i" "well_formed i" "fresh_ids h (ww_db w)"
    and "wi_projectId i \<in> set (et_projects (ww_evidence w))"
    and "names_evidence ad i (\<lambda>k. k \<noteq> [] \<and> k \<notin> ev_id ` set (et_evidence (ww_evidence w)))"
    and "intact_evidence sha i (ww_evidence w)" "vid \<notin> vf_id ` set (et_verifications (ww_evidence w))"
    and "processItem sha h ad i w = (Inr (IO_RAN r), w')"
    and "wr_agentResult r = Some res" "res_status res = AR_COMPLETED" "res_evidence res \<noteq> []"
  shows "\<exists>v fin e db. recordVerificationAndResolve sha (prisma_evidence_ops sha) work_store_ops (pass_on r res k) vid now
      (evidence_tables w', ww_db w') = (Inr (v, fin), (e, db)) \<and>
    wi_lifecycleState fin = WI_COMPLETED \<and> item_of db (wi_id i) = Some fin \<and> wi_revision fin = wi_revision i + 4"
proof -
  let ?i = "pass_on r res k" and ?w = "wr_workItem r" and ?e = "evidence_tables w'"
  have named: "names_evidence ad i (\<lambda>k. k \<noteq> [])" using assms(6) by (auto simp: names_evidence_def)
  have run: "recorded_run sha i w w' r" and verdict: "\<exists>pkg ctx x x' v. agent_verdict ad (package_for i pkg) ctx x = (v, x') \<and>
      wi_lifecycleState ?w = vd_item v \<and> at_st (wr_attempt r) = vd_attempt v \<and> wr_agentResult r = vd_result v"
    using run_outcome[OF assms(1-5) named assms(9)] by blast+
  then obtain pkg ctx x x' v where v: "agent_verdict ad (package_for i pkg) ctx x = (v, x')" "wi_lifecycleState ?w = vd_item v"
    "vd_result v = Some res" using assms(10) by auto
  have state: "wi_lifecycleState ?w = WI_VERIFICATION_REQUIRED"
    using verdict_completed[OF v(1,3) assms(11)] v(2) by simp
  have stored: "item_of (ww_db w') (wi_id i) = Some ?w" "wi_id ?w = wi_id i" "wi_projectId ?w = wi_projectId i"
    "wi_revision ?w = wi_revision i + 3" "attempt_of (ww_db w') (at_id (wr_attempt r)) = Some (wr_attempt r)"
    using run by (simp_all add: recorded_run_def)
  obtain new where new: "et_evidence (ww_evidence w') = et_evidence (ww_evidence w) @ new" "evidence_of_run sha i r new"
    using run by (auto simp: recorded_run_def)
  have intact: "intact_evidence sha i ?e"
    using assms(7) new by (auto simp: intact_evidence_def evidence_of_run_def evidence_tables_def)
  have supported: "\<exists>q \<in> set (et_evidence ?e). ev_workItemId q = wi_id i \<and> ev_id q = j" if "j \<in> set (map er_evidenceId (res_evidence res))" for j
  proof -
    have "j \<notin> ev_id ` set (et_evidence (ww_evidence w))" using verdict_evidence[OF v(1,3) assms(6)] that by auto
    moreover have "j \<in> ev_id ` set (et_evidence (ww_evidence w'))" using run that assms(10) by (auto simp: recorded_run_def)
    ultimately show ?thesis using new by (auto simp: evidence_of_run_def evidence_tables_def)
  qed
  let ?v = "sealed_verification sha (verification_of ?i vid now)" and ?e' = "?e\<lparr>et_verifications := et_verifications ?e @ [sealed_verification sha (verification_of ?i vid now)]\<rparr>"
  have saved: "es_saveVerification sha (verification_of ?i vid now) ?e = (Inr ?v, ?e')"
    using run item_of_Some[OF stored(1)] attempt_of_Some[OF stored(5)] assms(5,8) stored(2,3)
    by (auto simp: es_saveVerification_def verification_of_def pass_on_def verification_references_def recorded_run_def
        evidence_tables_def sealed_verification_def Let_def find_row_None image_iff)
  have "intact_evidence sha i ?e'" using intact by (simp add: intact_evidence_def)
  note listed = intact_listing[OF this]
  have "verifyVerificationIntegrity sha ?v" by (rule sealed_verifies(3)[OF assms(1) verification_of_pass(1)])
  moreover from this have "\<not> blank_digest (vf_digest ?v)"
    using assms(1) by (auto simp: verifyVerificationIntegrity_def blank_digest_def nonblank_def computeVerificationDigest_def)
  moreover have "\<forall>j \<in> set (map er_evidenceId (res_evidence res)). supports sha (wi_projectId i) (wi_id i)
      (sort_key ev_createdAt (filter (\<lambda>r. ev_projectId r = wi_projectId i \<and> ev_workItemId r = wi_id i) (et_evidence ?e))) j"
    using supported intact_supports[OF assms(1) intact] by blast
  ultimately have checked: "assertVerificationCanCompleteWorkItem sha (wi_projectId ?w) (wi_id ?w) ?v
      (sort_key ev_createdAt (filter (\<lambda>r. ev_projectId r = wi_projectId i \<and> ev_workItemId r = wi_id i) (et_evidence ?e))) = Inr ()"
    using stored(2,3) assms(12) unfolding can_complete_iff verification_of_pass by simp
  obtain fin db where moved: "ws_transitionWorkItem (wi_id i) (wi_revision i + 3) WI_COMPLETED (ww_db w') = (Inr fin, db)"
    "item_of db (wi_id i) = Some fin" "wi_lifecycleState fin = WI_COMPLETED" "wi_revision fin = wi_revision i + 4"
    using wstore.move_item_law[OF stored(1,4), of WI_COMPLETED] state stored(4) by (auto simp: advanced_def)
  have "recordVerificationAndResolve sha (prisma_evidence_ops sha) work_store_ops ?i vid now (?e, ww_db w') = (Inr (?v, fin), (?e', db))"
    using state saved listed checked moved(1) stored(2,3,4)
    by (simp add: recordVerificationAndResolve_def act_bind_def act_return_def on_store_def on_agent_def Let_def prisma_evidence_ops_def
        pass_on_def verification_of_pass[unfolded pass_on_def])
  then show ?thesis using moved(2-4) by blast
qed

section \<open>Items that are not run\<close>

text \<open>A worker that comes too late skips the item and changes nothing but its own view of the world.\<close>

lemma engine_starts_or_throws:
  assumes "ws_startAttempt (new_engine_attempt (item_for i t u) (package_for i pkg) aid now) (wi_revision i) db = (Inl e, db)"
  shows "engine_execute work_store_ops ad (item_for i t u) (package_for i pkg) corr wrun aid now (db, x) = (Inl e, (db, x))"
proof -
  have "assertExecutable (item_for i t u) (package_for i pkg) = Inr ()"
    by (simp add: item_for_def package_for_def assertExecutable_def)
  moreover have "wi_revision (item_for i t u) = wi_revision i" by (simp add: item_for_def)
  ultimately show ?thesis using assms by (simp add: engine_execute_def act_bind_Inl on_store_def)
qed

lemma late_worker_skips:
  assumes "well_formed i" "fresh_ids h (ww_db w)" "item_of (ww_db w) (wi_id i) = Some v"
    and "wi_revision v \<noteq> wi_revision i \<or>
      WI_ASSIGNED \<in> set (wi_transitions (wi_lifecycleState v)) \<and> busy_item (ww_db w) (wi_id i)"
  shows "\<exists>e x. processItem sha h ad i w = (Inr (IO_SKIPPED e), w\<lparr>ww_agent := x\<rparr>)"
proof -
  define e where "e = (if wi_revision v \<noteq> wi_revision i then WorkItemRevisionConflictError (wi_id i) (wi_revision i)
    else ActiveAttemptExistsError (wi_id i))"
  have "ws_startAttempt (new_engine_attempt (item_for i t u) (package_for i pkg) aid now) (wi_revision i) (ww_db w) = (Inl e, ww_db w)"
    for t u pkg aid now
    using assms(3,4) item_of_id[OF assms(3)]
    by (auto simp: startAttempt_eq new_engine_attempt_def item_for_def busy_item_def list_ex_iff e_def
        simp del: wi_transitions.simps)
  note engine = engine_starts_or_throws[OF this]
  have ran: "\<exists>x. run_item sha h ad i (package_for i pkg) corr wrun (w\<lparr>ww_agent := y\<rparr>) = (Inl e, w\<lparr>ww_agent := x\<rparr>)" for pkg corr wrun y
    by (simp add: run_item_def act_bind_def drawn on_engine_def engine) blast
  have "valid_work_package (package_for i (fst (kh_uuid h x)))" for x
    using assms(1,2) by (simp add: valid_package_for fresh_ids_def)
  then obtain c n p y where "processItem sha h ad i w =
      act_try (run_item sha h ad i (package_for i p) c n) (\<lambda>r. act_return (IO_RAN r)) (\<lambda>e. act_return (item_failed e)) (w\<lparr>ww_agent := y\<rparr>)"
    by (simp add: processItem_def act_bind_def drawn parsed_package)
  moreover obtain x where "run_item sha h ad i (package_for i p) c n (w\<lparr>ww_agent := y\<rparr>) = (Inl e, w\<lparr>ww_agent := x\<rparr>)"
    using ran by blast
  moreover have "item_failed e = IO_SKIPPED e" by (simp add: item_failed_def e_def)
  ultimately show ?thesis by (auto simp: act_try_def act_return_def)
qed

text \<open>
  An item whose package the schema rejects (an empty objective is enough) escapes the error handling of the loop: the
  poll throws, so \<open>start\<close> throws and never marks the worker as stopped, and the item is still there for the next start.
\<close>

lemma invalid_item_throws:
  assumes "\<not> well_formed i"
  shows "\<exists>x. processItem sha h ad i w = (Inl (exn.ZodError ''WorkPackageSchema''), w\<lparr>ww_agent := x\<rparr>)"
  using assms by (auto simp: processItem_def act_bind_def drawn parsed_package valid_package_for act_throw_def)

lemma invalid_item_stops_the_worker:
  assumes "\<not> kh_isShuttingDown h (ww_agent w)"
    and "kh_query h (filter pollable (db_items (ww_db w))) (ww_agent w) = (Inr (i # rows), x)"
    and "\<not> kh_isShuttingDown h x" "\<not> well_formed i"
  shows "\<exists>w'. start sha h ad w = Some (Inl (exn.ZodError ''WorkPackageSchema''), w') \<and> ww_isRunning w' \<and> ww_db w' = ww_db w"
proof -
  let ?w = "w\<lparr>ww_isRunning := True\<rparr>"
  obtain y where "processItem sha h ad i (?w\<lparr>ww_agent := x\<rparr>) =
      (Inl (exn.ZodError ''WorkPackageSchema''), ?w\<lparr>ww_agent := x, ww_agent := y\<rparr>)"
    using invalid_item_throws[OF assms(4), of sha h ad "?w\<lparr>ww_agent := x\<rparr>"] by blast
  then have "poll sha h ad ?w = (Inl (exn.ZodError ''WorkPackageSchema''), ?w\<lparr>ww_agent := y\<rparr>)"
    using assms(2,3) by (simp add: poll_def POLL_BATCH_SIZE_def act_bind_def)
  then show ?thesis using assms(1) by (simp add: start_def worker_loop.simps)
qed

section \<open>A worker with the scripted agent\<close>

definition sample_mock :: "unit mock_world agent_adapter" where
  "sample_mock = mock_adapter sample_sha (\<lambda>x. (''u'', x)) MS_SUCCESS"

definition sample_worker_host :: "unit mock_world worker_host" where
  "sample_worker_host = \<lparr>kh_uuid = (\<lambda>x. (''u'', x)), kh_now = (\<lambda>x. (9, x)), kh_query = (\<lambda>rows x. (Inr rows, x)),
     kh_isShuttingDown = (\<lambda>_. False), kh_sleep = (\<lambda>x. x)\<rparr>"

definition sample_worker :: "unit mock_world worker_world" where
  "sample_worker = \<lparr>ww_db = sample_ready,
     ww_evidence = \<lparr>et_projects = [''p''], et_workItems = [], et_attempts = [], et_approvals = [], et_decisions = [],
       et_artifacts = [], et_evidence = [], et_verifications = []\<rparr>,
     ww_agent = \<lparr>mk_runs = [], mk_outside = ()\<rparr>, ww_isRunning = True\<rparr>"

lemma sample_worker_facts:
  "claimable (ww_db sample_worker) sample_ready_item" "well_formed sample_ready_item"
  "fresh_ids sample_worker_host (ww_db sample_worker)"
  "wi_projectId sample_ready_item \<in> set (et_projects (ww_evidence sample_worker))"
  "names_evidence sample_mock sample_ready_item (\<lambda>k. k \<noteq> [])"
proof -
  have "db_inv sample_ready" using db_inv_reach[OF sample_ready_reach db_inv_empty] .
  moreover have "item_of sample_ready (wi_id sample_ready_item) = Some sample_ready_item" "pollable sample_ready_item" by code_simp+
  ultimately show "claimable (ww_db sample_worker) sample_ready_item" by (simp add: claimable_def sample_worker_def)
  show "well_formed sample_ready_item" by code_simp
  have "attempt_of sample_ready ''u'' = None" by code_simp
  then show "fresh_ids sample_worker_host (ww_db sample_worker)" by (simp add: fresh_ids_def sample_worker_host_def sample_worker_def)
  show "wi_projectId sample_ready_item \<in> set (et_projects (ww_evidence sample_worker))" by code_simp
  show "names_evidence sample_mock sample_ready_item (\<lambda>k. k \<noteq> [])"
    unfolding sample_mock_def by (rule mock_names_evidence) (rule mock_evidence_named)
qed

theorem worker_runs_and_records_witness:
  "\<exists>r w'. processItem sample_sha sample_worker_host sample_mock sample_ready_item sample_worker = (Inr (IO_RAN r), w') \<and>
    recorded_run sample_sha sample_ready_item sample_worker w' r"
  using worker_runs_and_records[OF sample_sha_good(1) sample_worker_facts] by blast

definition sample_worker_outcome :: "(exn + item_outcome) \<times> unit mock_world worker_world" where
  "sample_worker_outcome = processItem sample_sha sample_worker_host sample_mock sample_ready_item sample_worker"

lemma sample_worker_outcome_completed:
  "\<exists>r w' res. sample_worker_outcome = (Inr (IO_RAN r), w') \<and> wr_agentResult r = Some res \<and> res_status res = AR_COMPLETED \<and> res_evidence res \<noteq> []"
proof -
  obtain r w' pkg ctx x x' v where o: "sample_worker_outcome = (Inr (IO_RAN r), w')" "valid_work_package (package_for sample_ready_item pkg)"
    "agent_verdict sample_mock (package_for sample_ready_item pkg) ctx x = (v, x')" "wr_agentResult r = vd_result v"
    using claimable_item_runs[OF sample_sha_good(1) sample_worker_facts] unfolding sample_worker_outcome_def by blast
  have "v = mock_verdict sample_sha MS_SUCCESS ''u''"
    using mock_agent_verdict[OF o(2), of "\<lambda>x. (''u'', x)" x] o(3) by (simp add: sample_mock_def)
  then have "wr_agentResult r = Some (mock_result sample_sha MS_SUCCESS ''u'')" using o(4) by (simp add: mock_verdict_def)
  with o(1) show ?thesis
    by (intro exI[of _ r] exI[of _ w'] exI[of _ "mock_result sample_sha MS_SUCCESS ''u''"]) (simp add: mock_result_def)
qed

theorem worked_item_completes_witness:
  "\<exists>r res w' v fin e db. sample_worker_outcome = (Inr (IO_RAN r), w') \<and>
    recordVerificationAndResolve sample_sha (prisma_evidence_ops sample_sha) work_store_ops (pass_on r res ''verifier'') ''v'' 10
      (evidence_tables w', ww_db w') = (Inr (v, fin), (e, db)) \<and> wi_lifecycleState fin = WI_COMPLETED"
proof -
  obtain r w' res where o: "sample_worker_outcome = (Inr (IO_RAN r), w')" "wr_agentResult r = Some res" "res_status res = AR_COMPLETED"
    "res_evidence res \<noteq> []" using sample_worker_outcome_completed by blast
  have none: "et_evidence (ww_evidence sample_worker) = []" "et_verifications (ww_evidence sample_worker) = []"
    by (simp_all add: sample_worker_def)
  have named: "names_evidence sample_mock sample_ready_item (\<lambda>k. k \<noteq> [] \<and> k \<notin> ev_id ` set (et_evidence (ww_evidence sample_worker)))"
    unfolding sample_mock_def by (rule mock_names_evidence) (simp add: mock_evidence_named none)
  have "intact_evidence sample_sha sample_ready_item (ww_evidence sample_worker)"
    "''v'' \<notin> vf_id ` set (et_verifications (ww_evidence sample_worker))" by (simp_all add: intact_evidence_def none)
  from worked_item_completes[OF sample_sha_good(1) sample_worker_facts(1-4) named this o(1)[unfolded sample_worker_outcome_def] o(2-4), of "''verifier''" 10]
  show ?thesis using o(1) by blast
qed

end
