(* ===== verification/Antigravity_Bridge.thy ===== *)
theory Antigravity_Bridge
  imports Provider_Agents
begin

text \<open>
  The bridge to the Python agent (\<^verbatim>\<open>packages/agents/src/antigravity\<close>): \<open>AntigravityPythonBridge\<close> starts one child
  process and one IPC server for each attempt, turns what the child prints into a run result, and cancels or times
  out runs; \<open>PerRunIpcServer\<close> lets the child propose tool calls; \<open>AntigravityAdapter\<close> presents the bridge as an
  agent adapter. Events of the children, timers and calls interleave as steps of a transition relation.
\<close>

section \<open>The IPC server\<close>

record ipc_server =
  is_nonce :: string
  is_context :: runtime_context
  is_wp :: "work_package option"
  is_agentId :: string
  is_secrets :: "string list"

record host_proposal =
  hp_tool :: string
  hp_operation :: "string option"
  hp_parameters :: "(string \<times> json) list"
  hp_nonce :: "string option"

text \<open>A field of an object that may be absent but is a text otherwise.\<close>

definition optional_text :: "(string \<times> json) list \<Rightarrow> string \<Rightarrow> string option option" where
  "optional_text kvs k = (case map_of kvs k of None \<Rightarrow> Some None | Some (JStr s) \<Rightarrow> Some (Some s) | _ \<Rightarrow> None)"

definition read_proposal :: "json \<Rightarrow> host_proposal option" where
  "read_proposal v =
     (case v of
        JObj kvs \<Rightarrow>
          (case (map_of kvs ''tool'', optional_text kvs ''operation'', map_of kvs ''parameters'', optional_text kvs ''nonce'') of
             (Some (JStr t), Some oper, Some (JObj ps), Some nonce) \<Rightarrow>
               Some \<lparr>hp_tool = t, hp_operation = oper, hp_parameters = ps, hp_nonce = nonce\<rparr>
           | _ \<Rightarrow> None)
      | _ \<Rightarrow> None)"

text \<open>
  The world outside: the gateway of the attempt (its error is the message of what it throws), random ids, the text of a
  parse error, and whether a server can be started.
\<close>

record 'x bridge_host =
  hb_gateway :: "string \<Rightarrow> tool_request \<Rightarrow> ('x, string, tool_result) act"
  hb_uuid :: "'x \<Rightarrow> string \<times> 'x"
  hb_reason :: "string \<Rightarrow> string"
  hb_listen :: "string \<Rightarrow> ('x, exn, unit) act"

definition default_to :: "'a \<Rightarrow> 'b option \<Rightarrow> ('b \<Rightarrow> 'a) \<Rightarrow> 'a" where
  "default_to d v f = (case v of None \<Rightarrow> d | Some y \<Rightarrow> f y)"

definition host_request :: "ipc_server \<Rightarrow> host_proposal \<Rightarrow> string \<Rightarrow> string \<Rightarrow> tool_request" where
  "host_request sv p requestId key =
     \<lparr>tq_schemaVersion = ''1.0.0'', tq_requestId = requestId, tq_projectId = default_to ''default'' (is_wp sv) wp_projectId,
      tq_actorRef = is_agentId sv,
      tq_workItemRef = default_to (rc_workflowRunId (is_context sv)) (is_wp sv) wp_workItemId,
      tq_workPackageRef = default_to (rc_workflowRunId (is_context sv)) (is_wp sv) wp_workPackageId,
      tq_toolId = hp_tool p, tq_operationId = default_to (hp_tool p) (hp_operation p) (\<lambda>y. y),
      tq_targetResource = ''repo://local'', tq_environment = ''LOCAL'', tq_parameters = hp_parameters p,
      tq_authorityContextRef = default_to ''system'' (is_wp sv) wp_authorityContextRef, tq_idempotencyKey = key,
      tq_correlationId = rc_correlationId (is_context sv)\<rparr>"

datatype ipc_reply = IR_RESULT tool_result | IR_ERROR string

definition handleMessage :: "json_reader \<Rightarrow> 'x bridge_host \<Rightarrow> ipc_server \<Rightarrow> string \<Rightarrow> 'x \<Rightarrow> ipc_reply \<times> 'x" where
  "handleMessage rd h sv line x =
     (let failed = (\<lambda>m. IR_ERROR (redact (is_secrets sv) m)) in
      case json_parse rd line of
        None \<Rightarrow> (failed (hb_reason h line), x)
      | Some v \<Rightarrow>
          (case read_proposal v of
             None \<Rightarrow> (failed (hb_reason h line), x)
           | Some p \<Rightarrow>
               if hp_nonce p \<noteq> Some (is_nonce sv) then (failed ''Unauthorized IPC connection'', x)
               else (case hb_uuid h x of (requestId, x1) \<Rightarrow> case hb_uuid h x1 of (key, x2) \<Rightarrow>
                 let q = host_request sv p requestId key in
                 if \<not> valid_request q then (failed (hb_reason h line), x2)
                 else (case hb_gateway h (rc_attemptId (is_context sv)) q x2 of
                     (Inl m, x3) \<Rightarrow> (failed m, x3)
                   | (Inr r, x3) \<Rightarrow> (IR_RESULT (r\<lparr>tx_summary := redact (is_secrets sv) (tx_summary r)\<rparr>), x3)))))"

text \<open>One chunk of data on a connection: the first line that the buffer then holds is handled, and no other.\<close>

definition line_end :: char where
  "line_end = CHR 0x0A"

definition on_data :: "json_reader \<Rightarrow> 'x bridge_host \<Rightarrow> ipc_server \<Rightarrow> string \<Rightarrow> string \<Rightarrow> 'x \<Rightarrow> (string \<times> ipc_reply list) \<times> 'x" where
  "on_data rd h sv buffer chunk x =
     (let b = buffer @ chunk in
      if line_end \<notin> set b then ((b, []), x)
      else let line = takeWhile (\<lambda>c. c \<noteq> line_end) b; rest = drop (length line + 1) b in
        case handleMessage rd h sv line x of (r, x') \<Rightarrow> ((rest, [r]), x'))"

fun connection :: "json_reader \<Rightarrow> 'x bridge_host \<Rightarrow> ipc_server \<Rightarrow> string \<Rightarrow> string list \<Rightarrow> 'x \<Rightarrow> (string \<times> ipc_reply list) \<times> 'x" where
  "connection rd h sv buffer [] x = ((buffer, []), x)"
| "connection rd h sv buffer (c # cs) x =
     (case on_data rd h sv buffer c x of ((b, rs), x1) \<Rightarrow>
      case connection rd h sv b cs x1 of ((b', rs'), x2) \<Rightarrow> ((b', rs @ rs'), x2))"

section \<open>The result of a child\<close>

definition evId_at :: "(string \<Rightarrow> string) \<Rightarrow> string \<Rightarrow> string \<Rightarrow> string \<Rightarrow> string \<Rightarrow> nat \<Rightarrow> string" where
  "evId_at sha base type sourceRef claim n =
     (let hash = take 32 (sha (base @ '':'' @ type @ '':'' @ sourceRef @ '':'' @ claim @ '':'' @ show_int (int n))) in
      take 8 hash @ ''-'' @ take 4 (drop 8 hash) @ ''-4'' @ take 3 (drop 13 hash) @ ''-8'' @ take 3 (drop 17 hash) @
      ''-'' @ take 12 (drop 20 hash))"

fun all_or_none :: "('a \<Rightarrow> 'b option) \<Rightarrow> 'a list \<Rightarrow> 'b list option" where
  "all_or_none f [] = Some []"
| "all_or_none f (y # ys) =
     (case (f y, all_or_none f ys) of (Some z, Some zs) \<Rightarrow> Some (z # zs) | _ \<Rightarrow> None)"

definition read_list :: "(json \<Rightarrow> 'b option) \<Rightarrow> json option \<Rightarrow> 'b list option" where
  "read_list f v = (case v of None \<Rightarrow> Some [] | Some (JArr vs) \<Rightarrow> all_or_none f vs | _ \<Rightarrow> None)"

definition read_text :: "json \<Rightarrow> string option" where
  "read_text v = (case v of JStr s \<Rightarrow> Some s | _ \<Rightarrow> None)"

definition read_artifact_ref :: "json \<Rightarrow> artifact_ref option" where
  "read_artifact_ref v =
     (case v of
        JObj kvs \<Rightarrow>
          (case (map_of kvs ''artifactId'', map_of kvs ''type'', map_of kvs ''ref'') of
             (Some (JStr i), Some (JStr t), Some (JStr r)) \<Rightarrow>
               if i \<noteq> [] \<and> r \<noteq> [] \<and> strict_keys [''artifactId'', ''type'', ''ref''] kvs
               then map_option (\<lambda>a. \<lparr>ar_artifactId = i, ar_type = a, ar_ref = r\<rparr>) (map_of ARTIFACT_NAMES t) else None
           | _ \<Rightarrow> None)
      | _ \<Rightarrow> None)"

text \<open>The ids are made by the bridge before the check, in the form of a UUID.\<close>

definition read_evidence_ref :: "json \<Rightarrow> evidence_ref option" where
  "read_evidence_ref v =
     (case v of
        JObj kvs \<Rightarrow>
          (case (map_of kvs ''evidenceId'', map_of kvs ''type'', map_of kvs ''claimSupported'', map_of kvs ''sourceRef'') of
             (Some (JStr i), Some (JStr t), Some (JStr c), Some (JStr s)) \<Rightarrow>
               if strict_keys [''evidenceId'', ''type'', ''claimSupported'', ''sourceRef''] kvs
               then Some \<lparr>er_evidenceId = i, er_type = t, er_claimSupported = c, er_sourceRef = s\<rparr> else None
           | _ \<Rightarrow> None)
      | _ \<Rightarrow> None)"

definition SEVERITIES :: "(string \<times> finding_severity) list" where
  "SEVERITIES = [(''CRITICAL'', SEV_CRITICAL), (''HIGH'', SEV_HIGH), (''MEDIUM'', SEV_MEDIUM), (''LOW'', SEV_LOW)]"

definition read_finding :: "json \<Rightarrow> (string \<times> finding_severity \<times> string list) option" where
  "read_finding v =
     (case v of
        JObj kvs \<Rightarrow>
          (case (map_of kvs ''claim'', map_of kvs ''severity'', read_list read_text (map_of kvs ''evidenceRefs'')) of
             (Some (JStr c), Some (JStr s), Some refs) \<Rightarrow> map_option (\<lambda>sev. (c, sev, refs)) (map_of SEVERITIES s)
           | _ \<Rightarrow> None)
      | _ \<Rightarrow> None)"

definition read_units :: "json option \<Rightarrow> nat option" where
  "read_units v = (case v of None \<Rightarrow> Some 0 | Some (JNum n) \<Rightarrow> if n < 0 then None else Some (nat n) | _ \<Rightarrow> None)"

definition COST_STATUSES :: "(string \<times> cost_status) list" where
  "COST_STATUSES = [(''KNOWN'', COST_KNOWN), (''ESTIMATED'', COST_ESTIMATED), (''UNKNOWN'', COST_UNKNOWN)]"

definition read_usage :: "json \<Rightarrow> agent_usage option" where
  "read_usage v =
     (case v of
        JObj kvs \<Rightarrow>
          (case (read_units (map_of kvs ''inputUnits''), read_units (map_of kvs ''outputUnits''),
                 read_units (map_of kvs ''estimatedCost''), optional_text kvs ''currency'', optional_text kvs ''costStatus'') of
             (Some i, Some u, Some c, Some cur, Some st) \<Rightarrow>
               map_option (\<lambda>cs. \<lparr>us_inputUnits = i, us_outputUnits = u, us_estimatedCost = of_nat c,
                   us_currency = default_to ''USD'' cur (\<lambda>y. y), us_costStatus = cs\<rparr>)
                 (default_to (Some COST_UNKNOWN) st (map_of COST_STATUSES))
           | _ \<Rightarrow> None)
      | _ \<Rightarrow> None)"

definition read_run_ref :: "json \<Rightarrow> string option" where
  "read_run_ref v =
     (case v of
        JObj kvs \<Rightarrow> (case map_of kvs ''runId'' of
            Some (JStr i) \<Rightarrow> if i \<noteq> [] \<and> strict_keys [''runId''] kvs then Some i else None | _ \<Rightarrow> None)
      | _ \<Rightarrow> None)"

definition RESULT_STATUSES :: "(string \<times> agent_run_status) list" where
  "RESULT_STATUSES = [(''COMPLETED'', AR_COMPLETED), (''FAILED'', AR_FAILED), (''CANCELLED'', AR_CANCELLED),
     (''INTERRUPTED'', AR_INTERRUPTED)]"

definition RESULT_KEYS :: "string list" where
  "RESULT_KEYS = [''schemaVersion'', ''runRef'', ''status'', ''summary'', ''actionsTaken'', ''artifacts'', ''findings'',
     ''evidence'', ''unresolvedItems'', ''requestedInputs'', ''sideEffects'', ''usage'']"

definition read_required :: "(json \<Rightarrow> 'a option) \<Rightarrow> json option \<Rightarrow> 'a option" where
  "read_required f v = (case v of None \<Rightarrow> None | Some j \<Rightarrow> f j)"

definition read_status :: "json \<Rightarrow> agent_run_status option" where
  "read_status v = (case v of JStr s \<Rightarrow> map_of RESULT_STATUSES s | _ \<Rightarrow> None)"

definition read_result :: "(string \<times> json) list \<Rightarrow> agent_run_result option" where
  "read_result kvs =
     (let texts = (\<lambda>k. read_list read_text (map_of kvs k)) in
      if map_of kvs ''schemaVersion'' \<noteq> Some (JStr ''1.0.0'') \<or> \<not> strict_keys RESULT_KEYS kvs then None
      else case (read_required read_run_ref (map_of kvs ''runRef''), read_required read_status (map_of kvs ''status''),
          read_required read_text (map_of kvs ''summary''), read_required read_usage (map_of kvs ''usage'')) of
        (Some i, Some st, Some s, Some u) \<Rightarrow>
          (case (texts ''actionsTaken'', read_list read_artifact_ref (map_of kvs ''artifacts''),
              read_list read_finding (map_of kvs ''findings''), read_list read_evidence_ref (map_of kvs ''evidence'')) of
             (Some acts, Some arts, Some fs, Some evs) \<Rightarrow>
               (case (texts ''unresolvedItems'', texts ''requestedInputs'', texts ''sideEffects'') of
                  (Some un, Some ins, Some effs) \<Rightarrow>
                    Some \<lparr>res_schemaVersion = ''1.0.0'', res_runId = i, res_status = st, res_summary = s, res_actionsTaken = acts,
                      res_artifacts = arts, res_findings = fs, res_evidence = evs, res_unresolvedItems = un,
                      res_requestedInputs = ins, res_sideEffects = effs, res_usage = u\<rparr>
                | _ \<Rightarrow> None)
           | _ \<Rightarrow> None)
      | _ \<Rightarrow> None)"

text \<open>Every piece of evidence gets an id of the bridge; an element that is no object cannot pass the check.\<close>

definition field_text :: "(string \<times> json) list \<Rightarrow> string \<Rightarrow> string \<Rightarrow> string" where
  "field_text kvs k d = (case map_of kvs k of Some (JStr s) \<Rightarrow> s | _ \<Rightarrow> d)"

definition label_evidence :: "(string \<Rightarrow> string) \<Rightarrow> string \<Rightarrow> nat \<Rightarrow> json \<Rightarrow> json" where
  "label_evidence sha runId n v =
     (case v of
        JObj kvs \<Rightarrow> JObj (jm_set ''evidenceId'' (JStr (evId_at sha runId (text_or (field_text kvs ''type'' []) ''unknown_type'')
            (text_or (field_text kvs ''sourceRef'' []) ''unknown_source'') (field_text kvs ''claimSupported'' ''undefined'') n)) kvs)
      | _ \<Rightarrow> v)"

definition label_all :: "(string \<Rightarrow> string) \<Rightarrow> string \<Rightarrow> (string \<times> json) list \<Rightarrow> (string \<times> json) list" where
  "label_all sha runId kvs =
     (case map_of kvs ''evidence'' of
        Some (JArr es) \<Rightarrow> jm_set ''evidence'' (JArr (map (\<lambda>(n, e). label_evidence sha runId n e) (List.enumerate 0 es))) kvs
      | _ \<Rightarrow> kvs)"

text \<open>What the text that a child printed amounts to: an error it reports, a result, or neither.\<close>

datatype child_output = CO_ERROR string | CO_RESULT agent_run_result | CO_MALFORMED

definition falsy :: "json \<Rightarrow> bool" where
  "falsy v = (case v of JNull \<Rightarrow> True | JBool b \<Rightarrow> \<not> b | JNum n \<Rightarrow> n = 0 | JStr s \<Rightarrow> s = [] | _ \<Rightarrow> False)"

definition read_output :: "(string \<Rightarrow> string) \<Rightarrow> json_reader \<Rightarrow> string \<Rightarrow> string \<Rightarrow> child_output" where
  "read_output sha rd runId out =
     (case json_parse rd out of
        Some (JObj kvs) \<Rightarrow>
          (case map_of kvs ''error'' of
             Some (JStr (c # m)) \<Rightarrow> CO_ERROR (c # m)
           | e \<Rightarrow>
               if default_to False e (\<lambda>v. \<not> falsy v) then CO_MALFORMED
               else (case read_result (label_all sha runId kvs) of None \<Rightarrow> CO_MALFORMED | Some r \<Rightarrow> CO_RESULT r))
      | _ \<Rightarrow> CO_MALFORMED)"

section \<open>Results that the bridge makes itself\<close>

definition bridge_name :: string where
  "bridge_name = ''AntigravityPythonBridge''"

definition made_result :: "(string \<Rightarrow> string) \<Rightarrow> string \<Rightarrow> agent_run_status \<Rightarrow> string \<Rightarrow> string \<Rightarrow> string \<Rightarrow> agent_run_result" where
  "made_result sha runId st summary type claim =
     \<lparr>res_schemaVersion = ''1.0.0'', res_runId = runId, res_status = st, res_summary = summary, res_actionsTaken = [],
      res_artifacts = [], res_findings = [],
      res_evidence = [\<lparr>er_evidenceId = evId_at sha runId type bridge_name claim 0, er_type = type, er_claimSupported = claim,
        er_sourceRef = bridge_name\<rparr>],
      res_unresolvedItems = [], res_requestedInputs = [], res_sideEffects = [], res_usage = no_usage\<rparr>"

definition createMalformedResult :: "(string \<Rightarrow> string) \<Rightarrow> string list \<Rightarrow> string \<Rightarrow> string \<Rightarrow> agent_run_result" where
  "createMalformedResult sha secrets runId summary =
     made_result sha runId AR_FAILED (redact secrets summary) ''malformed_output'' ''Malformed output from provider''"

definition createFailedResult :: "(string \<Rightarrow> string) \<Rightarrow> string list \<Rightarrow> string \<Rightarrow> string \<Rightarrow> agent_run_result" where
  "createFailedResult sha secrets runId summary =
     made_result sha runId AR_FAILED (redact secrets summary) ''error''
       (if str_includes summary ''spawn'' then ''Spawn failure'' else ''Error'')"

definition createTimeoutResult :: "(string \<Rightarrow> string) \<Rightarrow> string \<Rightarrow> agent_run_result" where
  "createTimeoutResult sha runId = made_result sha runId AR_FAILED ''Run timed out'' ''timeout'' ''Timeout''"

definition createCancelledResult :: "(string \<Rightarrow> string) \<Rightarrow> string \<Rightarrow> agent_run_result" where
  "createCancelledResult sha runId = made_result sha runId AR_CANCELLED ''Run was cancelled'' ''cancellation'' ''Timeout''"

section \<open>The bridge\<close>

datatype child_signal = SIGTERM | SIGKILL
datatype child_event = CE_CLOSE | CE_ERROR string

text \<open>
  A child with what it has printed, the signals it got, the events it has emitted, those whose handler is still waiting
  for the server to stop, and the promise of its result.
\<close>

record child =
  ch_runId :: string
  ch_attemptId :: string
  ch_stdin :: "work_package \<times> runtime_context"
  ch_stdout :: string
  ch_signals :: "child_signal list"
  ch_events :: "child_event list"
  ch_pending :: "child_event list"
  ch_result :: "agent_run_result option"

record 'x bridge_world =
  bw_cancelledRuns :: "string list"
  bw_timeoutRuns :: "string list"
  bw_activeProcesses :: "(string, nat) jsmap"
  bw_activeResults :: "(string, nat) jsmap"
  bw_activeIpcServers :: "(string, ipc_server) jsmap"
  bw_children :: "child list"
  bw_timers :: "string list"
  bw_outside :: 'x

record bridge_config =
  bc_agentId :: string
  bc_secrets :: "string list"
  bc_hasBudget :: "runtime_context \<Rightarrow> bool"

definition jm_delete :: "'k \<Rightarrow> ('k, 'v) jsmap \<Rightarrow> ('k, 'v) jsmap" where
  "jm_delete k m = filter (\<lambda>(j, _). j \<noteq> k) m"

definition on_child :: "nat \<Rightarrow> (child \<Rightarrow> child) \<Rightarrow> 'x bridge_world \<Rightarrow> 'x bridge_world" where
  "on_child c f w = (if c < length (bw_children w) then w\<lparr>bw_children := (bw_children w)[c := f (bw_children w ! c)]\<rparr> else w)"

text \<open>The constructor of the server draws its nonce, then it starts to listen.\<close>

definition dispatch :: "bridge_config \<Rightarrow> 'x bridge_host \<Rightarrow> work_package \<Rightarrow> runtime_context \<Rightarrow> ('x bridge_world, exn, run_handle) act" where
  "dispatch cf h wp ctx w =
     (if jm_get (bw_activeIpcServers w) (rc_attemptId ctx) \<noteq> None
      then (Inl (GenericError (''Duplicate host session for attempt: '' @ rc_attemptId ctx)), w)
      else case hb_uuid h (bw_outside w) of (nonce, x1) \<Rightarrow>
        let sv = \<lparr>is_nonce = nonce, is_context = ctx, is_wp = Some wp, is_agentId = bc_agentId cf, is_secrets = bc_secrets cf\<rparr> in
        case hb_listen h nonce x1 of
          (Inl e, x2) \<Rightarrow> (Inl e, w\<lparr>bw_outside := x2\<rparr>)
        | (Inr _, x2) \<Rightarrow>
            let n = length (bw_children w);
                child = \<lparr>ch_runId = rc_workflowRunId ctx, ch_attemptId = rc_attemptId ctx, ch_stdin = (wp, ctx), ch_stdout = [],
                  ch_signals = [], ch_events = [], ch_pending = [], ch_result = None\<rparr>
            in (Inr \<lparr>rh_runId = rc_workflowRunId ctx, rh_status = AR_RUNNING\<rparr>,
                w\<lparr>bw_activeIpcServers := jm_set (rc_attemptId ctx) sv (bw_activeIpcServers w),
                  bw_children := bw_children w @ [child],
                  bw_activeProcesses := jm_set (rc_workflowRunId ctx) n (bw_activeProcesses w),
                  bw_activeResults := jm_set (rc_workflowRunId ctx) n (bw_activeResults w),
                  bw_timers := (if bc_hasBudget cf ctx then bw_timers w @ [rc_workflowRunId ctx] else bw_timers w),
                  bw_outside := x2\<rparr>))"

definition child_prints :: "nat \<Rightarrow> string \<Rightarrow> 'x bridge_world \<Rightarrow> 'x bridge_world" where
  "child_prints c chunk = on_child c (\<lambda>k. k\<lparr>ch_stdout := ch_stdout k @ chunk\<rparr>)"

text \<open>The handler of an event up to its wait for the server, and what it does then.\<close>

definition child_emits :: "nat \<Rightarrow> child_event \<Rightarrow> 'x bridge_world \<Rightarrow> 'x bridge_world" where
  "child_emits c e w =
     (let k = bw_children w ! c in
      on_child c (\<lambda>k. k\<lparr>ch_events := ch_events k @ [e], ch_pending := ch_pending k @ [e]\<rparr>)
        (w\<lparr>bw_activeProcesses := jm_delete (ch_runId k) (bw_activeProcesses w)\<rparr>))"

definition result_of_close :: "(string \<Rightarrow> string) \<Rightarrow> json_reader \<Rightarrow> 'x bridge_host \<Rightarrow> bridge_config \<Rightarrow> child \<Rightarrow> 'x bridge_world \<Rightarrow> agent_run_result" where
  "result_of_close sha rd h cf k w =
     (if ch_runId k \<in> set (bw_timeoutRuns w) then createTimeoutResult sha (ch_runId k)
      else if ch_runId k \<in> set (bw_cancelledRuns w) then createCancelledResult sha (ch_runId k)
      else case read_output sha rd (ch_runId k) (ch_stdout k) of
        CO_ERROR m \<Rightarrow> createFailedResult sha (bc_secrets cf) (ch_runId k) m
      | CO_MALFORMED \<Rightarrow> createMalformedResult sha (bc_secrets cf) (ch_runId k)
          (''Invalid JSON or output from Python: '' @ hb_reason h (ch_stdout k))
      | CO_RESULT r \<Rightarrow> r\<lparr>res_summary := redact (bc_secrets cf) (res_summary r)\<rparr>)"

definition event_result :: "(string \<Rightarrow> string) \<Rightarrow> json_reader \<Rightarrow> 'x bridge_host \<Rightarrow> bridge_config \<Rightarrow> child \<Rightarrow> child_event \<Rightarrow> 'x bridge_world \<Rightarrow> agent_run_result" where
  "event_result sha rd h cf k e w =
     (case e of CE_CLOSE \<Rightarrow> result_of_close sha rd h cf k w
      | CE_ERROR m \<Rightarrow> createFailedResult sha (bc_secrets cf) (ch_runId k) (''Process spawn error: '' @ m))"

definition handler_resumes :: "(string \<Rightarrow> string) \<Rightarrow> json_reader \<Rightarrow> 'x bridge_host \<Rightarrow> bridge_config \<Rightarrow> nat \<Rightarrow> child_event \<Rightarrow> 'x bridge_world \<Rightarrow> 'x bridge_world" where
  "handler_resumes sha rd h cf c e w =
     (let k = bw_children w ! c in
      on_child c (\<lambda>k. k\<lparr>ch_pending := remove1 e (ch_pending k),
          ch_result := (case ch_result k of None \<Rightarrow> Some (event_result sha rd h cf k e w) | r \<Rightarrow> r)\<rparr>)
        (w\<lparr>bw_activeIpcServers := jm_delete (ch_attemptId k) (bw_activeIpcServers w)\<rparr>))"

definition signal_child :: "child_signal \<Rightarrow> nat \<Rightarrow> 'x bridge_world \<Rightarrow> 'x bridge_world" where
  "signal_child s c = on_child c (\<lambda>k. k\<lparr>ch_signals := ch_signals k @ [s]\<rparr>)"

text \<open>The timer of a budget, and the second one that it starts; both look for the process of the run.\<close>

definition budget_fires :: "string \<Rightarrow> 'x bridge_world \<Rightarrow> 'x bridge_world" where
  "budget_fires runId w =
     (let w1 = w\<lparr>bw_timers := remove1 runId (bw_timers w)\<rparr> in
      case jm_get (bw_activeProcesses w) runId of
        None \<Rightarrow> w1
      | Some c \<Rightarrow> signal_child SIGTERM c (w1\<lparr>bw_timeoutRuns := jset_add runId (bw_timeoutRuns w)\<rparr>))"

text \<open>Half a second after a SIGTERM the same child is killed if the run still has a process.\<close>

definition kill_fires :: "string \<Rightarrow> nat \<Rightarrow> 'x bridge_world \<Rightarrow> 'x bridge_world" where
  "kill_fires runId c w = (if jm_get (bw_activeProcesses w) runId = None then w else signal_child SIGKILL c w)"

definition bridge_cancel :: "string \<Rightarrow> 'x bridge_world \<Rightarrow> 'x bridge_world" where
  "bridge_cancel runId w =
     (let w1 = w\<lparr>bw_cancelledRuns := jset_add runId (bw_cancelledRuns w)\<rparr> in
      case jm_get (bw_activeProcesses w) runId of None \<Rightarrow> w1 | Some c \<Rightarrow> signal_child SIGTERM c w1)"

text \<open>The calls that wait for a promise: \<open>None\<close> while it is not resolved.\<close>

definition bridge_getStatus :: "string \<Rightarrow> 'x bridge_world \<Rightarrow> agent_run_status option" where
  "bridge_getStatus runId w =
     (if runId \<in> set (bw_cancelledRuns w) then Some AR_CANCELLED
      else if runId \<in> set (bw_timeoutRuns w) then Some AR_FAILED
      else if jm_get (bw_activeProcesses w) runId \<noteq> None then Some AR_RUNNING
      else case jm_get (bw_activeResults w) runId of
        None \<Rightarrow> Some AR_UNKNOWN
      | Some c \<Rightarrow> map_option res_status (ch_result (bw_children w ! c)))"

definition bridge_getResult :: "(string \<Rightarrow> string) \<Rightarrow> bridge_config \<Rightarrow> string \<Rightarrow> 'x bridge_world \<Rightarrow> agent_run_result option" where
  "bridge_getResult sha cf runId w =
     (case jm_get (bw_activeResults w) runId of
        None \<Rightarrow> Some (createFailedResult sha (bc_secrets cf) runId ''Result not found or process already exited without result.'')
      | Some c \<Rightarrow> ch_result (bw_children w ! c))"

text \<open>The adapter over the bridge; what waits for a promise is \<open>None\<close> until it is there.\<close>

definition antigravity_getArtifacts :: "(string \<Rightarrow> string) \<Rightarrow> bridge_config \<Rightarrow> string \<Rightarrow> 'x bridge_world \<Rightarrow> artifact_ref list option" where
  "antigravity_getArtifacts sha cf i w = map_option res_artifacts (bridge_getResult sha cf i w)"

definition antigravity_getEvidence :: "(string \<Rightarrow> string) \<Rightarrow> bridge_config \<Rightarrow> string \<Rightarrow> 'x bridge_world \<Rightarrow> evidence_ref list option" where
  "antigravity_getEvidence sha cf i w = map_option res_evidence (bridge_getResult sha cf i w)"

definition antigravity_getUsage :: "(string \<Rightarrow> string) \<Rightarrow> bridge_config \<Rightarrow> string \<Rightarrow> 'x bridge_world \<Rightarrow> agent_usage option" where
  "antigravity_getUsage sha cf i w = map_option res_usage (bridge_getResult sha cf i w)"

definition antigravity_cancel :: "string \<Rightarrow> 'x bridge_world \<Rightarrow> agent_run_status \<times> 'x bridge_world" where
  "antigravity_cancel i w = (AR_CANCELLED, bridge_cancel i w)"

definition antigravity_resume :: "string \<Rightarrow> runtime_context \<Rightarrow> ('x bridge_world, exn, run_handle) act" where
  "antigravity_resume i ctx = act_throw (GenericError
     ''UNSUPPORTED: Antigravity Python bridge cannot genuinely resume a terminated execution session.'')"

section \<open>Interleavings\<close>

text \<open>
  A child emits each kind of event once, and prints nothing after its streams have closed; a timer fires once.
\<close>

definition may_emit :: "child \<Rightarrow> child_event \<Rightarrow> bool" where
  "may_emit k e \<longleftrightarrow> CE_CLOSE \<notin> set (ch_events k) \<and> (e = CE_CLOSE \<or> ch_events k = [])"

inductive bridge_step :: "(string \<Rightarrow> string) \<Rightarrow> json_reader \<Rightarrow> 'x bridge_host \<Rightarrow> bridge_config \<Rightarrow> 'x bridge_world \<Rightarrow> 'x bridge_world \<Rightarrow> bool"
  for sha rd h cf where
  bs_dispatch: "bridge_step sha rd h cf w (snd (dispatch cf h wp ctx w))"
| bs_print: "c < length (bw_children w) \<Longrightarrow> CE_CLOSE \<notin> set (ch_events (bw_children w ! c)) \<Longrightarrow>
    bridge_step sha rd h cf w (child_prints c chunk w)"
| bs_emit: "c < length (bw_children w) \<Longrightarrow> may_emit (bw_children w ! c) e \<Longrightarrow> bridge_step sha rd h cf w (child_emits c e w)"
| bs_resume: "c < length (bw_children w) \<Longrightarrow> e \<in> set (ch_pending (bw_children w ! c)) \<Longrightarrow>
    bridge_step sha rd h cf w (handler_resumes sha rd h cf c e w)"
| bs_budget: "runId \<in> set (bw_timers w) \<Longrightarrow> bridge_step sha rd h cf w (budget_fires runId w)"
| bs_kill: "bridge_step sha rd h cf w (kill_fires runId c w)"
| bs_cancel: "bridge_step sha rd h cf w (bridge_cancel runId w)"
| bs_outside: "bridge_step sha rd h cf w (w\<lparr>bw_outside := x\<rparr>)"

inductive bridge_reach :: "(string \<Rightarrow> string) \<Rightarrow> json_reader \<Rightarrow> 'x bridge_host \<Rightarrow> bridge_config \<Rightarrow> 'x bridge_world \<Rightarrow> 'x bridge_world \<Rightarrow> bool"
  for sha rd h cf w where
  br_here: "bridge_reach sha rd h cf w w"
| br_next: "bridge_reach sha rd h cf w u \<Longrightarrow> bridge_step sha rd h cf u v \<Longrightarrow> bridge_reach sha rd h cf w v"

definition new_bridge :: "'x \<Rightarrow> 'x bridge_world" where
  "new_bridge x = \<lparr>bw_cancelledRuns = [], bw_timeoutRuns = [], bw_activeProcesses = [], bw_activeResults = [],
     bw_activeIpcServers = [], bw_children = [], bw_timers = [], bw_outside = x\<rparr>"

text \<open>A result that says COMPLETED is what the child printed before its streams closed, with the summary redacted.\<close>

definition honest_child :: "(string \<Rightarrow> string) \<Rightarrow> json_reader \<Rightarrow> bridge_config \<Rightarrow> child \<Rightarrow> bool" where
  "honest_child sha rd cf k \<longleftrightarrow> set (ch_pending k) \<subseteq> set (ch_events k) \<and>
     (\<forall>r. ch_result k = Some r \<longrightarrow> res_status r = AR_COMPLETED \<longrightarrow> CE_CLOSE \<in> set (ch_events k) \<and>
        (\<exists>p. read_output sha rd (ch_runId k) (ch_stdout k) = CO_RESULT p \<and> r = p\<lparr>res_summary := redact (bc_secrets cf) (res_summary p)\<rparr>))"

definition bridge_inv :: "(string \<Rightarrow> string) \<Rightarrow> json_reader \<Rightarrow> bridge_config \<Rightarrow> 'x bridge_world \<Rightarrow> bool" where
  "bridge_inv sha rd cf w \<longleftrightarrow> (\<forall>k \<in> set (bw_children w). honest_child sha rd cf k) \<and>
     (\<forall>i c. jm_get (bw_activeResults w) i = Some c \<longrightarrow> c < length (bw_children w) \<and> ch_runId (bw_children w ! c) = i)"

lemma on_child_sel [simp]:
  "bw_activeResults (on_child c f w) = bw_activeResults w" "length (bw_children (on_child c f w)) = length (bw_children w)"
  "bw_cancelledRuns (on_child c f w) = bw_cancelledRuns w" "bw_activeProcesses (on_child c f w) = bw_activeProcesses w"
  by (simp_all add: on_child_def)

lemma on_child_inv:
  assumes "bridge_inv sha rd cf w" "\<And>k. ch_runId (f k) = ch_runId k"
    and "c < length (bw_children w) \<Longrightarrow> honest_child sha rd cf (bw_children w ! c) \<Longrightarrow> honest_child sha rd cf (f (bw_children w ! c))"
  shows "bridge_inv sha rd cf (on_child c f w)"
proof (cases "c < length (bw_children w)")
  case True
  have "honest_child sha rd cf k" if "k \<in> set ((bw_children w)[c := f (bw_children w ! c)])" for k
    using that assms(1) assms(3)[OF True] True set_update_subset_insert[of "bw_children w" c "f (bw_children w ! c)"]
    by (auto simp: bridge_inv_def)
  moreover have "ch_runId ((bw_children w)[c := f (bw_children w ! c)] ! d) = ch_runId (bw_children w ! d)" if "d < length (bw_children w)" for d
    using that assms(2) by (cases "d = c") auto
  ultimately show ?thesis using assms(1) True by (auto simp: bridge_inv_def on_child_def)
qed (use assms(1) in \<open>simp add: on_child_def\<close>)

lemma same_children_inv:
  "bridge_inv sha rd cf w \<Longrightarrow> bw_children w' = bw_children w \<Longrightarrow> bw_activeResults w' = bw_activeResults w \<Longrightarrow> bridge_inv sha rd cf w'"
  by (simp add: bridge_inv_def)

lemma close_honest:
  "res_status (result_of_close sha rd h cf k w) = AR_COMPLETED \<Longrightarrow>
   \<exists>p. read_output sha rd (ch_runId k) (ch_stdout k) = CO_RESULT p \<and>
     result_of_close sha rd h cf k w = p\<lparr>res_summary := redact (bc_secrets cf) (res_summary p)\<rparr>"
  by (auto simp: result_of_close_def createTimeoutResult_def createCancelledResult_def createFailedResult_def
    createMalformedResult_def made_result_def split: if_splits child_output.splits)

lemma event_honest:
  assumes "honest_child sha rd cf k" "e \<in> set (ch_pending k)"
  shows "honest_child sha rd cf (k\<lparr>ch_pending := remove1 e (ch_pending k),
    ch_result := (case ch_result k of None \<Rightarrow> Some (event_result sha rd h cf k e w) | r \<Rightarrow> r)\<rparr>)"
proof -
  have "set (remove1 e (ch_pending k)) \<subseteq> set (ch_events k)"
    using assms(1) set_remove1_subset[of e "ch_pending k"] by (auto simp: honest_child_def)
  moreover have "e \<in> set (ch_events k)" using assms by (auto simp: honest_child_def)
  moreover have "res_status (event_result sha rd h cf k e w) = AR_COMPLETED \<Longrightarrow> e = CE_CLOSE"
    by (cases e) (simp_all add: event_result_def createFailedResult_def made_result_def)
  ultimately show ?thesis
    using assms(1) close_honest[of sha rd h cf k w]
    by (auto simp: honest_child_def event_result_def split: option.splits)
qed

lemma signal_inv: "bridge_inv sha rd cf w \<Longrightarrow> bridge_inv sha rd cf (signal_child s c w)"
  unfolding signal_child_def by (rule on_child_inv) (auto simp: honest_child_def)

lemma dispatch_inv:
  assumes "bridge_inv sha rd cf w"
  shows "bridge_inv sha rd cf (snd (dispatch cf h wp ctx w))"
proof (cases "jm_get (bw_activeIpcServers w) (rc_attemptId ctx) = None")
  case True
  have known: "c < length (bw_children w) \<and> ch_runId (bw_children w ! c) = i" if "jm_get (bw_activeResults w) i = Some c" for i c
    using assms that by (auto simp: bridge_inv_def)
  have fresh: "honest_child sha rd cf \<lparr>ch_runId = i, ch_attemptId = a, ch_stdin = b, ch_stdout = [], ch_signals = [],
      ch_events = [], ch_pending = [], ch_result = None\<rparr>" for i a b by (simp add: honest_child_def)
  show ?thesis using assms known fresh True
    by (auto simp: dispatch_def Let_def bridge_inv_def nth_append less_SucI split: prod.split sum.split)
qed (use assms in \<open>simp add: dispatch_def\<close>)

lemma bridge_inv_step: "bridge_step sha rd h cf w w' \<Longrightarrow> bridge_inv sha rd cf w \<Longrightarrow> bridge_inv sha rd cf w'"
proof (induction rule: bridge_step.induct)
  case (bs_dispatch w wp ctx)
  then show ?case by (rule dispatch_inv)
next
  case (bs_print c w chunk)
  then show ?case unfolding child_prints_def by (intro on_child_inv) (auto simp: honest_child_def)
next
  case (bs_emit c w e)
  have "bridge_inv sha rd cf (w\<lparr>bw_activeProcesses := jm_delete (ch_runId (bw_children w ! c)) (bw_activeProcesses w)\<rparr>)"
    using bs_emit.prems by (rule same_children_inv) simp_all
  then show ?case unfolding child_emits_def Let_def by (rule on_child_inv) (auto simp: honest_child_def)
next
  case (bs_resume c w e)
  have "bridge_inv sha rd cf (w\<lparr>bw_activeIpcServers := jm_delete (ch_attemptId (bw_children w ! c)) (bw_activeIpcServers w)\<rparr>)"
    using bs_resume.prems by (rule same_children_inv) simp_all
  then show ?case unfolding handler_resumes_def Let_def
    using bs_resume.hyps event_honest[of sha rd cf "bw_children w ! c" e h w]
    by (intro on_child_inv) (simp_all, cases "ch_result (bw_children w ! c)", simp_all)
next
  case (bs_budget runId w)
  then show ?case by (auto simp: budget_fires_def Let_def split: option.split intro!: signal_inv elim!: same_children_inv)
next
  case (bs_kill w runId c)
  then show ?case by (simp add: kill_fires_def signal_inv)
next
  case (bs_cancel w runId)
  then show ?case by (auto simp: bridge_cancel_def Let_def split: option.split intro!: signal_inv elim!: same_children_inv)
next
  case (bs_outside w x)
  then show ?case by (rule same_children_inv) simp_all
qed

lemma bridge_inv_reach: "bridge_reach sha rd h cf w w' \<Longrightarrow> bridge_inv sha rd cf w \<Longrightarrow> bridge_inv sha rd cf w'"
  by (induction rule: bridge_reach.induct) (auto intro: bridge_inv_step)

section \<open>What passes the check of a result\<close>

lemma all_or_none_nth: "all_or_none f ys = Some zs \<Longrightarrow> length zs = length ys \<and> (\<forall>n < length ys. f (ys ! n) = Some (zs ! n))"
proof (induction ys arbitrary: zs)
  case (Cons y ys)
  then obtain z zs' where "zs = z # zs'" "f y = Some z" "all_or_none f ys = Some zs'" by (auto split: option.splits)
  then show ?case using Cons.IH by (auto simp: nth_Cons split: nat.split)
qed simp

lemma jm_set_get: "map_of (jm_set k v m) j = (if j = k then Some v else map_of m j)"
  by (induction m) auto

lemma read_result_fields:
  assumes "read_result kvs = Some r"
  shows "read_list read_evidence_ref (map_of kvs ''evidence'') = Some (res_evidence r)"
  using assms by (auto simp: read_result_def Let_def split: if_splits option.splits)

text \<open>The bridge's own id of a piece of evidence.\<close>

definition bridge_id :: "(string \<Rightarrow> string) \<Rightarrow> string \<Rightarrow> nat \<Rightarrow> evidence_ref \<Rightarrow> string" where
  "bridge_id sha runId n e = evId_at sha runId (text_or (er_type e) ''unknown_type'')
     (text_or (er_sourceRef e) ''unknown_source'') (er_claimSupported e) n"

lemma labelled_id:
  assumes "read_evidence_ref (label_evidence sha runId n v) = Some e"
  shows "er_evidenceId e = bridge_id sha runId n e"
proof -
  obtain kvs where v: "v = JObj kvs" using assms by (cases v) (simp_all add: label_evidence_def read_evidence_ref_def)
  show ?thesis using assms unfolding v
    by (auto simp: label_evidence_def read_evidence_ref_def jm_set_get bridge_id_def field_text_def split: option.splits json.splits if_splits)
qed

lemma labelled_ids:
  assumes "read_result (label_all sha runId kvs) = Some r" "n < length (res_evidence r)"
  shows "er_evidenceId (res_evidence r ! n) = bridge_id sha runId n (res_evidence r ! n)"
proof -
  note ev = read_result_fields[OF assms(1)]
  obtain es where es: "map_of kvs ''evidence'' = Some (JArr es)"
    using ev assms(2) by (auto simp: label_all_def read_list_def split: option.splits json.splits)
  let ?ls = "map (\<lambda>(n, e). label_evidence sha runId n e) (List.enumerate 0 es)"
  have "all_or_none read_evidence_ref ?ls = Some (res_evidence r)"
    using ev es by (simp add: label_all_def jm_set_get read_list_def)
  from all_or_none_nth[OF this] assms(2)
  have "read_evidence_ref (label_evidence sha runId n (es ! n)) = Some (res_evidence r ! n)"
    by (simp add: nth_enumerate_eq)
  then show ?thesis by (rule labelled_id)
qed

lemma output_ids:
  assumes "read_output sha rd runId out = CO_RESULT r" "n < length (res_evidence r)"
  shows "er_evidenceId (res_evidence r ! n) = bridge_id sha runId n (res_evidence r ! n)"
proof -
  obtain kvs where "read_result (label_all sha runId kvs) = Some r"
    using assms(1) by (auto simp: read_output_def split: option.splits json.splits if_splits list.splits)
  then show ?thesis using assms(2) by (rule labelled_ids)
qed

section \<open>Properties\<close>

text \<open>
  C29: a run is COMPLETED only by its child. Whatever the interleaving of children, timers, calls and events since the
  bridge was made: when it reports a run as COMPLETED, the run is neither cancelled nor timed out and has no process;
  a child of that run has closed its streams, what it printed reads as a result that says COMPLETED, the result the
  bridge gives is that one with its summary redacted, and the id of every piece of evidence is the bridge's own digest.
\<close>

theorem completed_only_by_the_child:
  assumes "bridge_reach sha rd h cf (new_bridge x) w" "bridge_getStatus runId w = Some AR_COMPLETED"
  shows "runId \<notin> set (bw_cancelledRuns w) \<and> runId \<notin> set (bw_timeoutRuns w) \<and> jm_get (bw_activeProcesses w) runId = None \<and>
    (\<exists>k \<in> set (bw_children w). \<exists>p. ch_runId k = runId \<and> CE_CLOSE \<in> set (ch_events k) \<and>
       read_output sha rd runId (ch_stdout k) = CO_RESULT p \<and> res_status p = AR_COMPLETED \<and>
       bridge_getResult sha cf runId w = Some (p\<lparr>res_summary := redact (bc_secrets cf) (res_summary p)\<rparr>) \<and>
       (\<forall>n < length (res_evidence p). er_evidenceId (res_evidence p ! n) = bridge_id sha runId n (res_evidence p ! n)))"
proof -
  have inv: "bridge_inv sha rd cf w"
    by (rule bridge_inv_reach[OF assms(1)]) (simp add: bridge_inv_def new_bridge_def)
  obtain c r where c: "runId \<notin> set (bw_cancelledRuns w)" "runId \<notin> set (bw_timeoutRuns w)"
    "jm_get (bw_activeProcesses w) runId = None" "jm_get (bw_activeResults w) runId = Some c"
    "ch_result (bw_children w ! c) = Some r" "res_status r = AR_COMPLETED"
    using assms(2) by (auto simp: bridge_getStatus_def split: if_splits option.splits)
  let ?k = "bw_children w ! c"
  have k: "?k \<in> set (bw_children w)" "ch_runId ?k = runId" using inv c(4) by (auto simp: bridge_inv_def)
  then have "honest_child sha rd cf ?k" using inv by (simp add: bridge_inv_def)
  then obtain p where p: "CE_CLOSE \<in> set (ch_events ?k)" "read_output sha rd runId (ch_stdout ?k) = CO_RESULT p"
    "r = p\<lparr>res_summary := redact (bc_secrets cf) (res_summary p)\<rparr>"
    using c(5,6) k(2) by (auto simp: honest_child_def)
  then have "res_status p = AR_COMPLETED" using c(6) by simp
  then show ?thesis using c k p output_ids[OF p(2)] by (auto simp: bridge_getResult_def)
qed

definition sample_bridge_host :: "unit bridge_host" where
  "sample_bridge_host = \<lparr>hb_gateway = (\<lambda>a q x. (Inr (plain_result q ''e'' TS_SUCCEEDED ''ok''), x)), hb_uuid = (\<lambda>x. (''n'', x)),
     hb_reason = (\<lambda>_. ''bad''), hb_listen = (\<lambda>_ x. (Inr (), x))\<rparr>"

definition sample_config :: bridge_config where
  "sample_config = \<lparr>bc_agentId = ''agent:antigravity'', bc_secrets = [], bc_hasBudget = (\<lambda>_. True)\<rparr>"

definition sample_ctx :: "string \<Rightarrow> runtime_context" where
  "sample_ctx attempt = \<lparr>rc_correlationId = ''c'', rc_workflowRunId = ''r'', rc_attemptId = attempt, rc_secretRefs = []\<rparr>"

definition sample_printed :: string where
  "sample_printed = json_text (JObj [(''schemaVersion'', JStr ''1.0.0''), (''runRef'', JObj [(''runId'', JStr ''r'')]),
     (''status'', JStr ''COMPLETED''), (''summary'', JStr ''ok''),
     (''evidence'', JArr [JObj [(''type'', JStr ''t''), (''claimSupported'', JStr ''c''), (''sourceRef'', JStr ''s'')]]),
     (''usage'', JObj [])])"

text \<open>A run of one attempt: dispatched, its child prints and exits, and the handler of the exit runs.\<close>

definition sample_dispatched :: "string \<Rightarrow> unit bridge_world \<Rightarrow> unit bridge_world" where
  "sample_dispatched attempt w = snd (dispatch sample_config sample_bridge_host sample_package (sample_ctx attempt) w)"

definition sample_closed :: "unit bridge_world" where
  "sample_closed = handler_resumes sample_sha sample_reader sample_bridge_host sample_config 0 CE_CLOSE
     (child_emits 0 CE_CLOSE (child_prints 0 sample_printed (sample_dispatched ''a1'' (new_bridge ()))))"

lemma sample_bridge_reach: "bridge_reach sample_sha sample_reader sample_bridge_host sample_config (new_bridge ()) sample_closed"
proof -
  let ?w1 = "sample_dispatched ''a1'' (new_bridge ())" and ?w2 = "child_prints 0 sample_printed (sample_dispatched ''a1'' (new_bridge ()))"
  have kids: "bw_children ?w1 = [\<lparr>ch_runId = ''r'', ch_attemptId = ''a1'', ch_stdin = (sample_package, sample_ctx ''a1''), ch_stdout = [],
      ch_signals = [], ch_events = [], ch_pending = [], ch_result = None\<rparr>]"
    by (simp add: sample_dispatched_def dispatch_def new_bridge_def sample_bridge_host_def sample_ctx_def sample_config_def Let_def)
  have r1: "bridge_reach sample_sha sample_reader sample_bridge_host sample_config (new_bridge ()) ?w1"
    unfolding sample_dispatched_def by (intro br_next[OF br_here] bs_dispatch)
  have r2: "bridge_reach sample_sha sample_reader sample_bridge_host sample_config (new_bridge ()) ?w2"
    by (rule br_next[OF r1], rule bs_print) (simp_all add: kids)
  have kids2: "bw_children ?w2 = [(bw_children ?w1 ! 0)\<lparr>ch_stdout := sample_printed\<rparr>]"
    by (simp add: child_prints_def on_child_def kids)
  have r3: "bridge_reach sample_sha sample_reader sample_bridge_host sample_config (new_bridge ()) (child_emits 0 CE_CLOSE ?w2)"
    by (rule br_next[OF r2], rule bs_emit) (simp_all add: kids2 kids may_emit_def)
  show ?thesis unfolding sample_closed_def
    by (rule br_next[OF r3], rule bs_resume) (simp_all add: child_emits_def on_child_def Let_def kids2 kids)
qed

lemma sample_closed_status: "bridge_getStatus ''r'' sample_closed = Some AR_COMPLETED"
  by code_simp

theorem completed_only_by_the_child_witness:
  "\<exists>p. bridge_getResult sample_sha sample_config ''r'' sample_closed = Some (p\<lparr>res_summary := redact (bc_secrets sample_config) (res_summary p)\<rparr>) \<and>
    res_status p = AR_COMPLETED"
  using completed_only_by_the_child[OF sample_bridge_reach sample_closed_status] by blast

section \<open>What reaches the gateway\<close>

text \<open>A host that keeps a record of the requests its gateway got.\<close>

definition bridge_logging :: "'x bridge_host \<Rightarrow> ('x \<times> (string \<times> tool_request) list) bridge_host" where
  "bridge_logging h = \<lparr>hb_gateway = (\<lambda>a q (x, lg). case hb_gateway h a q x of (r, x') \<Rightarrow> (r, (x', lg @ [(a, q)]))),
     hb_uuid = (\<lambda>(x, lg). case hb_uuid h x of (u, x') \<Rightarrow> (u, (x', lg))), hb_reason = hb_reason h,
     hb_listen = (\<lambda>i (x, lg). case hb_listen h i x of (r, x') \<Rightarrow> (r, (x', lg)))\<rparr>"

text \<open>A request that a line of the connection asked for, with the nonce of the server.\<close>

definition asked_for :: "json_reader \<Rightarrow> ipc_server \<Rightarrow> string \<times> tool_request \<Rightarrow> bool" where
  "asked_for rd sv e \<longleftrightarrow> fst e = rc_attemptId (is_context sv) \<and> valid_request (snd e) \<and>
     (\<exists>line v p i j. line_end \<notin> set line \<and> json_parse rd line = Some v \<and> read_proposal v = Some p \<and>
        hp_nonce p = Some (is_nonce sv) \<and> snd e = host_request sv p i j)"

lemma asked_forI:
  "line_end \<notin> set line \<Longrightarrow> json_parse rd line = Some v \<Longrightarrow> read_proposal v = Some p \<Longrightarrow> hp_nonce p = Some (is_nonce sv) \<Longrightarrow>
    valid_request (host_request sv p i j) \<Longrightarrow> asked_for rd sv (rc_attemptId (is_context sv), host_request sv p i j)"
  unfolding asked_for_def fst_conv snd_conv by blast

lemma handled_line:
  assumes "handleMessage rd (bridge_logging h) sv line (x, lg) = (r, (x', lg'))" "line_end \<notin> set line"
  shows "lg' = lg \<or> (\<exists>e. lg' = lg @ [e] \<and> asked_for rd sv e)"
  using assms by (auto simp: handleMessage_def bridge_logging_def Let_def intro: asked_forI split: option.splits prod.splits sum.splits if_splits)

lemma data_handled:
  assumes "on_data rd (bridge_logging h) sv b c (x, lg) = ((b', rs), (x', lg'))"
  shows "\<exists>new. lg' = lg @ new \<and> list_all (asked_for rd sv) new \<and> length new \<le> length rs \<and> length rs \<le> 1"
proof (cases "line_end \<in> set (b @ c)")
  case True
  let ?line = "takeWhile (\<lambda>c. c \<noteq> line_end) (b @ c)"
  obtain r where m: "handleMessage rd (bridge_logging h) sv ?line (x, lg) = (r, (x', lg'))" "rs = [r]"
    using assms True by (auto simp: on_data_def Let_def split: prod.splits)
  have "line_end \<notin> set ?line" by (auto dest: set_takeWhileD)
  from handled_line[OF m(1) this] show ?thesis using m(2) by auto
qed (use assms in \<open>auto simp: on_data_def Let_def\<close>)

lemma connection_handled:
  "connection rd (bridge_logging h) sv b cs (x, lg) = ((b', rs), (x', lg')) \<Longrightarrow>
   \<exists>new. lg' = lg @ new \<and> list_all (asked_for rd sv) new \<and> length new \<le> length rs \<and> length rs \<le> length cs"
proof (induction cs arbitrary: b x lg b' rs x' lg')
  case (Cons c cs)
  obtain b1 r1 x1 l1 where d: "on_data rd (bridge_logging h) sv b c (x, lg) = ((b1, r1), (x1, l1))" by (metis surj_pair)
  obtain b2 r2 x2 l2 where n: "connection rd (bridge_logging h) sv b1 cs (x1, l1) = ((b2, r2), (x2, l2))" by (metis surj_pair)
  obtain n1 where n1: "l1 = lg @ n1" "list_all (asked_for rd sv) n1" "length n1 \<le> length r1" "length r1 \<le> 1"
    using data_handled[OF d] by blast
  obtain n2 where n2: "l2 = l1 @ n2" "list_all (asked_for rd sv) n2" "length n2 \<le> length r2" "length r2 \<le> length cs"
    using Cons.IH[OF n] by blast
  have "rs = r1 @ r2" "lg' = l2" using Cons.prems by (simp_all add: d n)
  then show ?case using n1 n2 by (intro exI[of _ "n1 @ n2"]) auto
qed simp

text \<open>
  C30: the child acts only through the gateway and only for its attempt. Whatever data arrive on a connection, every
  request that reaches the gateway is schema-valid, belongs to the attempt of the server and was asked for by one line
  that carries the nonce of this server; it names the agent, the work package and its authority, and it is local. There are at
  most as many requests as answers, and at most one answer for each chunk of data.
\<close>

theorem ipc_requests_are_authenticated:
  assumes "connection rd (bridge_logging h) sv [] chunks (x, []) = ((b, rs), (x', lg))" "is_wp sv = Some wp"
  shows "length lg \<le> length rs \<and> length rs \<le> length chunks \<and>
    (\<forall>(attempt, q) \<in> set lg. attempt = rc_attemptId (is_context sv) \<and> valid_request q \<and> tq_actorRef q = is_agentId sv \<and>
       tq_projectId q = wp_projectId wp \<and> tq_workItemRef q = wp_workItemId wp \<and> tq_workPackageRef q = wp_workPackageId wp \<and>
       tq_authorityContextRef q = wp_authorityContextRef wp \<and> tq_environment q = ''LOCAL'' \<and>
       (\<exists>line v p. json_parse rd line = Some v \<and> read_proposal v = Some p \<and> hp_nonce p = Some (is_nonce sv) \<and>
          tq_toolId q = hp_tool p \<and> tq_parameters q = hp_parameters p))"
proof -
  obtain new where "lg = new" "list_all (asked_for rd sv) new" "length new \<le> length rs" "length rs \<le> length chunks"
    using connection_handled[OF assms(1)] by auto
  then show ?thesis using assms(2)
    by (fastforce simp: list_all_iff asked_for_def host_request_def default_to_def)
qed

definition sample_server :: ipc_server where
  "sample_server = \<lparr>is_nonce = ''n'', is_context = sample_ctx ''a1'', is_wp = Some sample_package,
     is_agentId = ''agent:antigravity'', is_secrets = []\<rparr>"

definition sample_line :: string where
  "sample_line = json_text (JObj [(''tool'', JStr ''git''), (''operation'', JStr ''git.status''), (''parameters'', JObj []),
     (''nonce'', JStr ''n'')])"

definition sample_connection :: "(string \<times> ipc_reply list) \<times> (unit \<times> (string \<times> tool_request) list)" where
  "sample_connection = connection sample_reader (bridge_logging sample_bridge_host) sample_server [] [sample_line, [line_end]] ((), [])"

lemma sample_connection_log: "map (\<lambda>(a, q). (a, tq_toolId q)) (snd (snd sample_connection)) = [(''a1'', ''git'')]"
  by code_simp

theorem ipc_requests_are_authenticated_witness:
  "\<exists>q. snd (snd sample_connection) = [(''a1'', q)] \<and> valid_request q \<and> tq_actorRef q = ''agent:antigravity''"
proof -
  obtain b rs x' lg where c: "sample_connection = ((b, rs), (x', lg))" by (metis surj_pair)
  have wp: "is_wp sample_server = Some sample_package" by (simp add: sample_server_def)
  obtain q where q: "lg = [(''a1'', q)]" using sample_connection_log unfolding c snd_conv by (auto simp: map_eq_Cons_conv)
  have "valid_request q \<and> tq_actorRef q = ''agent:antigravity''"
    using ipc_requests_are_authenticated[OF c[unfolded sample_connection_def] wp] q by (simp add: sample_server_def)
  moreover have "snd (snd sample_connection) = [(''a1'', q)]" unfolding c q by simp
  ultimately show ?thesis by blast
qed

section \<open>Where the bridge goes wrong\<close>

text \<open>
  A second line that arrives in the same chunk is not answered: it waits in the buffer for more data, which a client that
  waits for its answer never sends.
\<close>

lemma second_line_waits:
  assumes "line_end \<notin> set line"
  shows "\<exists>r x'. on_data rd h sv [] (line @ [line_end] @ rest) x = ((rest, [r]), x')"
proof -
  have "takeWhile (\<lambda>c. c \<noteq> line_end) (line @ [line_end] @ rest) = line"
    using assms by (subst takeWhile_append2) auto
  then show ?thesis by (simp add: on_data_def Let_def split: prod.split)
qed

text \<open>A run that has completed can still be cancelled: its status is CANCELLED then, its result still COMPLETED.\<close>

lemma cancelled_after_completion:
  "bridge_getStatus ''r'' (bridge_cancel ''r'' sample_closed) = Some AR_CANCELLED \<and>
   map_option res_status (bridge_getResult sample_sha sample_config ''r'' (bridge_cancel ''r'' sample_closed)) = Some AR_COMPLETED"
  by code_simp

text \<open>
  The flags and timers are kept by run, not by attempt. The budget of a finished attempt, whose timer nothing clears,
  kills the process of the next attempt of the run; and once a run was cancelled, every later attempt is CANCELLED
  from its start.
\<close>

lemma old_budget_kills_the_next_attempt:
  "(let w = sample_dispatched ''a2'' sample_closed; w' = budget_fires ''r'' w in
    bridge_getStatus ''r'' w = Some AR_RUNNING \<and> hd (bw_timers w) = ''r'' \<and> ch_attemptId (bw_children w' ! 1) = ''a2'' \<and>
    ch_signals (bw_children w' ! 1) = [SIGTERM] \<and> bridge_getStatus ''r'' w' = Some AR_FAILED)"
  by code_simp

lemma cancelled_forever:
  "runId \<in> set (bw_cancelledRuns w) \<Longrightarrow> bridge_step sha rd h cf w w' \<Longrightarrow> bridge_getStatus runId w' = Some AR_CANCELLED"
  by (erule bridge_step.cases)
    (auto simp: bridge_getStatus_def dispatch_def child_prints_def child_emits_def handler_resumes_def budget_fires_def kill_fires_def
      bridge_cancel_def signal_child_def Let_def jset_add_def split: prod.splits sum.splits option.splits)

text \<open>The evidence of a cancellation claims a timeout.\<close>

lemma cancellation_claims_a_timeout:
  "map er_claimSupported (res_evidence (createCancelledResult sha runId)) = [''Timeout'']"
  by (simp add: createCancelledResult_def made_result_def)

end
