(* ===== verification/Api_Approvals.thy ===== *)
theory Api_Approvals
  imports Domain_Model Json_Text "HOL-Library.List_Lexorder" "HOL-Library.Char_ord" "HOL-Library.Multiset"
begin

text \<open>
  The approval routes of the API (\<^verbatim>\<open>apps/api/src/index.ts\<close>): an approval of one gate and one scope is
  requested, decided, consumed once and verified. A route that writes reads the row first and then updates it on the
  condition that its status is still the one expected; other requests may run in between, so such a route is two
  steps. Every change of a status writes an event to the audit table. Times are milliseconds, ids and clock readings
  are arguments, and the text of a client error is its class.
\<close>

section \<open>Requests and responses\<close>

datatype api_actor = API_SERVICE | API_USER
datatype api_role = ROLE_AGENT | ROLE_OWNER

record auth_context =
  ac_actorType :: api_actor
  ac_role :: api_role
  ac_projectId :: "string option"

datatype response = Response (rs_status: nat) (rs_json: json)

definition error_body :: "string \<Rightarrow> json" where
  "error_body e = JObj [(''error'', JStr e)]"

definition coded_error :: "string \<Rightarrow> string \<Rightarrow> json" where
  "coded_error e c = JObj [(''error'', JStr e), (''code'', JStr c)]"

text \<open>The \<open>catch\<close> of the routes answers 500 with the text of the error.\<close>

definition failed :: "string \<Rightarrow> response" where
  "failed e = Response 500 (error_body e)"

definition type_error :: string where "type_error = ''TypeError''"
definition client_error :: string where "client_error = ''PrismaClientValidationError''"

text \<open>
  A request's body is what the JSON middleware left, if anything; a member of a body that is not there is
  \<open>undefined\<close>.
\<close>

fun member_of :: "json \<Rightarrow> string \<Rightarrow> json option" where
  "member_of (JObj kvs) k = jm_get kvs k"
| "member_of v k = None"

fun is_truthy :: "json option \<Rightarrow> bool" where
  "is_truthy None = False"
| "is_truthy (Some JNull) = False"
| "is_truthy (Some (JBool b)) = b"
| "is_truthy (Some (JNum i)) = (i \<noteq> 0)"
| "is_truthy (Some (JStr s)) = (s \<noteq> [])"
| "is_truthy (Some v) = True"

text \<open>\<open>v || d\<close>.\<close>

definition or_value :: "json option \<Rightarrow> json \<Rightarrow> json" where
  "or_value v d = (case v of Some x \<Rightarrow> if is_truthy v then x else d | None \<Rightarrow> d)"

text \<open>A nullable text column takes a text or \<open>null\<close>; the client refuses anything else.\<close>

fun text_column :: "json \<Rightarrow> string option option" where
  "text_column (JStr s) = Some (Some s)"
| "text_column JNull = Some None"
| "text_column v = None"

section \<open>Scopes\<close>

definition validateApprovalGateScope :: "string \<Rightarrow> json \<Rightarrow> string option" where
  "validateApprovalGateScope gate scope =
     (if \<not> (case scope of JObj _ \<Rightarrow> True | JArr _ \<Rightarrow> True | _ \<Rightarrow> False) then Some ''Scope must be an object''
      else if gate = ''COMMIT'' then
        (if member_of scope ''kind'' \<noteq> Some (JStr ''COMMIT'') then Some ''gateKind COMMIT requires scope.kind = COMMIT''
         else if json_arr (member_of scope ''paths'') = None then Some ''gateKind COMMIT requires scope.paths array''
         else if json_str (member_of scope ''message'') = None then Some ''gateKind COMMIT requires scope.message string''
         else None)
      else if gate = ''PUSH'' then
        (if member_of scope ''kind'' \<noteq> Some (JStr ''PUSH'') then Some ''gateKind PUSH requires scope.kind = PUSH''
         else if json_str (member_of scope ''commitSha'') = None then Some ''gateKind PUSH requires scope.commitSha string''
         else if json_str (member_of scope ''remote'') = None then Some ''gateKind PUSH requires scope.remote string''
         else if json_str (member_of scope ''branch'') = None then Some ''gateKind PUSH requires scope.branch string''
         else None)
      else None)"

text \<open>
  A \<open>Set\<close> of values keeps one of equal primitive values; two arrays or objects are never the same element. Then
  \<open>sort()\<close> orders the values by their texts.
\<close>

fun is_primitive :: "json \<Rightarrow> bool" where
  "is_primitive (JArr vs) = False"
| "is_primitive (JObj kvs) = False"
| "is_primitive v = True"

definition value_set :: "json list \<Rightarrow> json list" where
  "value_set vs = fold (\<lambda>v acc. if is_primitive v \<and> v \<in> set acc then acc else acc @ [v]) vs []"

definition sorted_values :: "json list \<Rightarrow> json list" where
  "sorted_values vs = sort_key js_string (value_set vs)"

text \<open>
  The members are copied in the order of their names. Assigning the name \<open>__proto__\<close> sets the prototype of the
  copy and adds no member. (A copy lists names that are array indices first; the comparison does not depend on it.)
\<close>

definition copied_members :: "(string \<times> json) list \<Rightarrow> (string \<times> json) list" where
  "copied_members kvs = sort_key fst (filter (\<lambda>(k, v). k \<noteq> ''__proto__'') kvs)"

function canonicalizeScope :: "json \<Rightarrow> json" where
  "canonicalizeScope (JArr vs) = JArr (map canonicalizeScope vs)"
| "canonicalizeScope (JObj kvs) =
     JObj (copied_members (map (\<lambda>(k, v). (k,
       if jm_get kvs ''kind'' = Some (JStr ''COMMIT'') \<and> k = ''paths'' \<and> json_arr (Some v) \<noteq> None
       then JArr (sorted_values (the (json_arr (Some v)))) else canonicalizeScope v)) kvs))"
| "canonicalizeScope JNull = JNull"
| "canonicalizeScope (JBool b) = JBool b"
| "canonicalizeScope (JNum i) = JNum i"
| "canonicalizeScope (JStr s) = JStr s"
  by pat_completeness auto

termination
proof (relation "measure size")
  show "(v, JArr vs) \<in> measure size" if "v \<in> set vs" for v vs
    using size_list_estimation' [OF that, of "size v" size] by simp
  show "(v, JObj kvs) \<in> measure size" if "x \<in> set kvs" "(k, v) = x" for x k v kvs
    using that size_list_estimation' [of x kvs "size v" "size_prod (\<lambda>_. 0) size"] by auto
qed simp

text \<open>A scope that the request does not have is \<open>undefined\<close>, whose text is \<open>undefined\<close> too.\<close>

definition isScopeEqual :: "json \<Rightarrow> json option \<Rightarrow> bool" where
  "isScopeEqual persisted requested =
     (map_option (\<lambda>r. json_text (canonicalizeScope r)) requested = Some (json_text (canonicalizeScope persisted)))"


section \<open>Approvals and their audit events\<close>

datatype approval_status = AP_PENDING | AP_APPROVED | AP_REJECTED | AP_USED | AP_EXPIRED

fun approval_name :: "approval_status \<Rightarrow> string" where
  "approval_name AP_PENDING = ''PENDING''"
| "approval_name AP_APPROVED = ''APPROVED''"
| "approval_name AP_REJECTED = ''REJECTED''"
| "approval_name AP_USED = ''USED''"
| "approval_name AP_EXPIRED = ''EXPIRED''"

record approval =
  ap_id :: string
  ap_projectId :: string
  ap_workItemId :: "string option"
  ap_attemptId :: "string option"
  ap_gateKind :: string
  ap_status :: approval_status
  ap_scope :: json
  ap_evidenceRefs :: json
  ap_requestedBy :: string
  ap_requestedAt :: int
  ap_expiresAt :: "int option"
  ap_decidedBy :: "string option"
  ap_decidedAt :: "int option"
  ap_rationale :: "string option"
  ap_consumedAt :: "int option"
  ap_postActionVerification :: "json option"

record approval_event =
  ae_id :: string
  ae_approvalId :: string
  ae_eventType :: string
  ae_actorId :: string
  ae_payload :: json
  ae_occurredAt :: int

text \<open>The tables of the routes, and the ids of the rows that an approval refers to.\<close>

record approval_db =
  ad_projects :: "string list"
  ad_workItems :: "string list"
  ad_attempts :: "string list"
  ad_approvals :: "approval list"
  ad_audit :: "approval_event list"

text \<open>What the host gives a request: \<open>new Date()\<close>, the clock of the database, and two fresh ids.\<close>

record stamp =
  sp_now :: int
  sp_dbNow :: int
  sp_approvalId :: string
  sp_eventId :: string

definition approval_of :: "approval_db \<Rightarrow> string \<Rightarrow> approval option" where
  "approval_of db i = find_row (\<lambda>a. ap_id a = i) (ad_approvals db)"

definition approval_in :: "approval_db \<Rightarrow> string \<Rightarrow> string \<Rightarrow> approval option" where
  "approval_in db i project = find_row (\<lambda>a. ap_id a = i \<and> ap_projectId a = project) (ad_approvals db)"

text \<open>Inserting an event fails when its id is taken.\<close>

definition create_event :: "stamp \<Rightarrow> string \<Rightarrow> string \<Rightarrow> string \<Rightarrow> json \<Rightarrow> approval_db \<Rightarrow> approval_db option" where
  "create_event st i kind actor payload db =
     (if find_row (\<lambda>e. ae_id e = sp_eventId st) (ad_audit db) \<noteq> None then None
      else Some (db\<lparr>ad_audit := ad_audit db @ [\<lparr>ae_id = sp_eventId st, ae_approvalId = i, ae_eventType = kind,
        ae_actorId = actor, ae_payload = payload, ae_occurredAt = sp_dbNow st\<rparr>]\<rparr>))"

definition date_or_null :: "int option \<Rightarrow> json" where
  "date_or_null d = (case d of None \<Rightarrow> JNull | Some t \<Rightarrow> JStr (toISOString t))"

definition mapApprovalToDto :: "approval \<Rightarrow> json" where
  "mapApprovalToDto a = JObj
     [(''id'', JStr (ap_id a)), (''projectId'', JStr (ap_projectId a)), (''workItemId'', str_or_null (ap_workItemId a)),
      (''attemptId'', str_or_null (ap_attemptId a)), (''gateKind'', JStr (ap_gateKind a)),
      (''status'', JStr (approval_name (ap_status a))), (''scope'', ap_scope a),
      (''evidenceRefs'', or_value (Some (ap_evidenceRefs a)) (JArr [])), (''requestedBy'', JStr (ap_requestedBy a)),
      (''requestedAt'', JStr (toISOString (ap_requestedAt a))), (''expiresAt'', date_or_null (ap_expiresAt a)),
      (''decidedBy'', str_or_null (ap_decidedBy a)), (''decidedAt'', date_or_null (ap_decidedAt a)),
      (''rationale'', str_or_null (ap_rationale a)), (''consumedAt'', date_or_null (ap_consumedAt a)),
      (''postActionVerification'', or_value (ap_postActionVerification a) JNull)]"

section \<open>Reading and requesting approvals\<close>

text \<open>A query on \<open>projectId: null\<close> is refused by the client: the column is not nullable.\<close>

definition list_approvals :: "auth_context \<Rightarrow> string option \<Rightarrow> approval_db \<Rightarrow> response" where
  "list_approvals c status db =
     (case ac_projectId c of None \<Rightarrow> failed client_error
      | Some p \<Rightarrow> (let wanted = (if truthy status then the status else ''PENDING'') in
          Response 200 (JArr (map mapApprovalToDto (sort_key (\<lambda>a. - ap_requestedAt a)
            (filter (\<lambda>a. approval_name (ap_status a) = wanted \<and> ap_projectId a = p) (ad_approvals db)))))))"

definition not_found :: response where
  "not_found = Response 404 (error_body ''Approval not found'')"

definition get_approval :: "auth_context \<Rightarrow> string \<Rightarrow> approval_db \<Rightarrow> response" where
  "get_approval c i db =
     (case ac_projectId c of None \<Rightarrow> failed client_error
      | Some p \<Rightarrow> (case approval_in db i p of None \<Rightarrow> not_found | Some a \<Rightarrow> Response 200 (mapApprovalToDto a)))"

text \<open>
  \<open>new Date(v)\<close> of a number is that time; which texts are dates is the host's (\<open>parse_date\<close>). The client refuses an
  invalid date.
\<close>

definition expiry_column :: "(string \<Rightarrow> int option) \<Rightarrow> json option \<Rightarrow> int option option" where
  "expiry_column parse_date v =
     (if \<not> is_truthy v then Some None
      else (case v of Some (JNum i) \<Rightarrow> if \<bar>i\<bar> \<le> 8640000000000000 then Some (Some i) else None
        | Some (JBool b) \<Rightarrow> Some (Some 1)
        | Some x \<Rightarrow> map_option Some (parse_date (js_string x)) | None \<Rightarrow> Some None))"

definition references_exist :: "approval_db \<Rightarrow> approval \<Rightarrow> bool" where
  "references_exist db a \<longleftrightarrow> ap_projectId a \<in> set (ad_projects db) \<and>
     (\<forall>i \<in> set_option (ap_workItemId a). i \<in> set (ad_workItems db)) \<and>
     (\<forall>i \<in> set_option (ap_attemptId a). i \<in> set (ad_attempts db))"

definition requested_row :: "(string \<Rightarrow> int option) \<Rightarrow> stamp \<Rightarrow> string \<Rightarrow> json \<Rightarrow> approval option" where
  "requested_row parse_date st p b =
     (case (json_str (member_of b ''gateKind''), text_column (or_value (member_of b ''workItemId'') JNull),
            text_column (or_value (member_of b ''attemptId'') JNull),
            text_column (or_value (member_of b ''requestedBy'') (JStr ''SYSTEM'')),
            expiry_column parse_date (member_of b ''expiresAt'')) of
        (Some gate, Some item, Some attempt, Some (Some by), Some expiry) \<Rightarrow>
          Some \<lparr>ap_id = sp_approvalId st, ap_projectId = p, ap_workItemId = item, ap_attemptId = attempt,
            ap_gateKind = gate, ap_status = AP_PENDING, ap_scope = the (member_of b ''scope''),
            ap_evidenceRefs = or_value (member_of b ''evidenceRefs'') (JArr []), ap_requestedBy = by,
            ap_requestedAt = sp_dbNow st, ap_expiresAt = expiry, ap_decidedBy = None, ap_decidedAt = None,
            ap_rationale = None, ap_consumedAt = None, ap_postActionVerification = None\<rparr>
      | _ \<Rightarrow> None)"

definition create_approval ::
  "(string \<Rightarrow> int option) \<Rightarrow> stamp \<Rightarrow> auth_context \<Rightarrow> json option \<Rightarrow> approval_db \<Rightarrow> response \<times> approval_db" where
  "create_approval parse_date st c body db =
     (case body of None \<Rightarrow> (failed type_error, db)
      | Some b \<Rightarrow>
          if member_of b ''projectId'' \<noteq> Some (str_or_null (ac_projectId c))
            then (Response 403 (error_body ''Project scope mismatch''), db)
          else if \<not> is_truthy (member_of b ''projectId'') \<or> \<not> is_truthy (member_of b ''gateKind'') \<or>
                  \<not> is_truthy (member_of b ''scope'')
            then (Response 400 (error_body ''projectId, gateKind, and scope are required''), db)
          else (case validateApprovalGateScope (case json_str (member_of b ''gateKind'') of Some g \<Rightarrow> g | None \<Rightarrow> [])
                       (the (member_of b ''scope'')) of
              Some e \<Rightarrow> (Response 400 (coded_error e ''INVALID_GATE_SCOPE_COMBINATION''), db)
            | None \<Rightarrow>
                (case requested_row parse_date st (the (ac_projectId c)) b of
                   None \<Rightarrow> (failed client_error, db)
                 | Some a \<Rightarrow>
                     if approval_of db (ap_id a) \<noteq> None \<or> \<not> references_exist db a
                       then (failed ''PrismaClientKnownRequestError'', db)
                     else (case create_event st (ap_id a) ''REQUESTED'' (ap_requestedBy a)
                         (JObj [(''gateKind'', JStr (ap_gateKind a)), (''scope'', ap_scope a),
                           (''expiresAt'', or_value (member_of b ''expiresAt'') JNull)])
                         (db\<lparr>ad_approvals := ad_approvals db @ [a]\<rparr>) of
                       None \<Rightarrow> (failed ''PrismaClientKnownRequestError'', db)
                     | Some db' \<Rightarrow> (Response 201 (mapApprovalToDto a), db')))))"


section \<open>Writing routes\<close>

text \<open>
  What a route still has to write after it has read the row: the conditional update with its audit event. The row that
  was read is kept where the code uses it again; the status of it is the condition of the update.
\<close>

datatype pending_write =
    PW_EXPIRE approval
  | PW_DECIDE string approval_status json json int
  | PW_CONSUME_EXPIRED approval
  | PW_CONSUME string "json option" "json option" json int
  | PW_VERIFY string "json option"
  | PW_VERIFIED string "json option" approval

definition has_expired :: "approval \<Rightarrow> int \<Rightarrow> bool" where
  "has_expired a now \<longleftrightarrow> (case ap_expiresAt a of None \<Rightarrow> False | Some e \<Rightarrow> now \<ge> e)"

definition update_where_status :: "string \<Rightarrow> approval_status \<Rightarrow> (approval \<Rightarrow> approval) \<Rightarrow> approval_db \<Rightarrow> nat \<times> approval_db" where
  "update_where_status i expected f db =
     (let (n, rows) = update_many (\<lambda>a. ap_id a = i \<and> ap_status a = expected) f (ad_approvals db)
      in (n, db\<lparr>ad_approvals := rows\<rparr>))"

text \<open>A transaction that throws leaves the tables as they were.\<close>

definition with_event ::
  "stamp \<Rightarrow> string \<Rightarrow> string \<Rightarrow> string \<Rightarrow> json \<Rightarrow> response \<Rightarrow> approval_db \<Rightarrow> approval_db \<Rightarrow> (response + pending_write) \<times> approval_db" where
  "with_event st i kind actor payload r db db0 =
     (case create_event st i kind actor payload db of
        None \<Rightarrow> (Inl (failed ''PrismaClientKnownRequestError''), db0) | Some db' \<Rightarrow> (Inl r, db'))"

subsection \<open>Deciding\<close>

definition decide_response :: "string \<Rightarrow> approval option \<Rightarrow> response" where
  "decide_response outcome a =
     (if outcome = ''NOT_FOUND'' then not_found
      else if outcome = ''NOT_PENDING'' then Response 409 (coded_error (''Approval is not pending (current status: '' @
        (case a of None \<Rightarrow> ''undefined'' | Some x \<Rightarrow> approval_name (ap_status x)) @ '')'') ''APPROVAL_NOT_PENDING'')
      else if outcome = ''EXPIRED'' then Response 409 (coded_error ''Approval has expired'' ''APPROVAL_EXPIRED'')
      else if outcome = ''CONCURRENCY_CONFLICT''
        then Response 409 (coded_error ''Concurrent decide conflict'' ''APPROVAL_NOT_PENDING'')
      else (case a of None \<Rightarrow> failed type_error | Some x \<Rightarrow> Response 200 (mapApprovalToDto x)))"

fun requested_decision :: "json option \<Rightarrow> approval_status option" where
  "requested_decision (Some (JStr s)) =
     (if s = ''APPROVED'' then Some AP_APPROVED else if s = ''REJECTED'' then Some AP_REJECTED else None)"
| "requested_decision v = None"

definition decide_read ::
  "auth_context \<Rightarrow> string \<Rightarrow> json option \<Rightarrow> int \<Rightarrow> approval_db \<Rightarrow> response + pending_write" where
  "decide_read c i body now db =
     (case body of None \<Rightarrow> Inl (failed type_error)
      | Some b \<Rightarrow> (case requested_decision (member_of b ''decision'') of
          None \<Rightarrow> Inl (Response 400 (error_body ''decision must be APPROVED or REJECTED''))
        | Some d \<Rightarrow> (case ac_projectId c of None \<Rightarrow> Inl (failed client_error)
          | Some p \<Rightarrow> (case approval_in db i p of
              None \<Rightarrow> Inl (decide_response ''NOT_FOUND'' None)
            | Some a \<Rightarrow>
                if ap_status a \<in> {AP_USED, AP_REJECTED, AP_APPROVED} then Inl (decide_response ''NOT_PENDING'' (Some a))
                else if has_expired a now then
                  (if ap_status a \<noteq> AP_EXPIRED then Inr (PW_EXPIRE a) else Inl (decide_response ''EXPIRED'' (Some a)))
                else if ap_status a = AP_EXPIRED then Inl (decide_response ''EXPIRED'' (Some a))
                else if ap_status a \<noteq> AP_PENDING then Inl (decide_response ''NOT_PENDING'' (Some a))
                else Inr (PW_DECIDE i d (or_value (member_of b ''decidedBy'') (JStr ''OWNER''))
                  (or_value (member_of b ''rationale'') JNull) now)))))"

definition tryExpireApproval :: "stamp \<Rightarrow> approval \<Rightarrow> approval_db \<Rightarrow> (response + pending_write) \<times> approval_db" where
  "tryExpireApproval st a db =
     (if ap_status a \<in> {AP_USED, AP_REJECTED, AP_EXPIRED} then (Inl (decide_response ''NOT_APPLICABLE'' (Some a)), db)
      else (let (n, db') = update_where_status (ap_id a) (ap_status a) (\<lambda>r. r\<lparr>ap_status := AP_EXPIRED\<rparr>) db in
        if n = 0 then
          (case approval_of db (ap_id a) of
             None \<Rightarrow> (Inl (decide_response ''NOT_FOUND'' None), db)
           | Some r \<Rightarrow> (Inl (decide_response (if ap_status r = AP_EXPIRED then ''EXPIRED'' else ''CONCURRENCY_CONFLICT'')
               (Some r)), db))
        else with_event st (ap_id a) ''EXPIRED'' ''SYSTEM'' (JObj [(''expiresAt'', date_or_null (ap_expiresAt a))])
          (decide_response ''EXPIRED'' (approval_of db' (ap_id a))) db' db))"

definition decided_row :: "approval_status \<Rightarrow> string \<Rightarrow> string option \<Rightarrow> int \<Rightarrow> approval \<Rightarrow> approval" where
  "decided_row d by why now a =
     a\<lparr>ap_status := d, ap_decidedBy := Some by, ap_decidedAt := Some now, ap_rationale := why\<rparr>"

definition decide_write ::
  "stamp \<Rightarrow> string \<Rightarrow> approval_status \<Rightarrow> json \<Rightarrow> json \<Rightarrow> int \<Rightarrow> approval_db \<Rightarrow> (response + pending_write) \<times> approval_db" where
  "decide_write st i d by why now db =
     (case (text_column by, text_column why) of
        (Some (Some who), Some reason) \<Rightarrow>
          (let (n, db') = update_where_status i AP_PENDING (decided_row d who reason now) db in
           if n = 0 then (Inl (decide_response ''CONCURRENCY_CONFLICT'' None), db)
           else with_event st i (approval_name d) who
             (JObj [(''decision'', JStr (approval_name d)), (''rationale'', why)])
             (decide_response ''DECIDED'' (approval_of db' i)) db' db)
      | _ \<Rightarrow> (Inl (failed client_error), db))"

subsection \<open>Consuming\<close>

definition consume_response :: "string \<Rightarrow> approval option \<Rightarrow> response" where
  "consume_response outcome a =
     (if outcome = ''NOT_FOUND'' then not_found
      else if outcome = ''EXPIRED'' then Response 409 (coded_error ''Approval has expired'' ''APPROVAL_EXPIRED'')
      else if outcome = ''NOT_APPROVED''
        then Response 409 (coded_error ''Approval cannot be consumed'' ''APPROVAL_NOT_APPROVED'')
      else if outcome = ''GATE_KIND_MISMATCH''
        then Response 400 (coded_error ''Approval gate kind mismatch'' ''APPROVAL_GATE_KIND_MISMATCH'')
      else if outcome = ''SCOPE_MISMATCH''
        then Response 400 (coded_error ''Approval scope mismatch'' ''APPROVAL_SCOPE_MISMATCH'')
      else if outcome = ''CONCURRENCY_CONFLICT''
        then Response 409 (coded_error ''Concurrent consume conflict'' ''APPROVAL_NOT_APPROVED'')
      else (case a of None \<Rightarrow> failed type_error | Some x \<Rightarrow> Response 200 (mapApprovalToDto x)))"

definition consume_read ::
  "auth_context \<Rightarrow> string \<Rightarrow> json option \<Rightarrow> int \<Rightarrow> approval_db \<Rightarrow> response + pending_write" where
  "consume_read c i body now db =
     (case ac_projectId c of None \<Rightarrow> Inl (failed client_error)
      | Some p \<Rightarrow> (case approval_in db i p of
          None \<Rightarrow> Inl (consume_response ''NOT_FOUND'' None)
        | Some a \<Rightarrow>
            if ap_status a \<in> {AP_USED, AP_REJECTED} then Inl (consume_response ''NOT_APPROVED'' (Some a))
            else if has_expired a now then
              (if ap_status a \<noteq> AP_EXPIRED then Inr (PW_CONSUME_EXPIRED a)
               else Inl (consume_response ''EXPIRED'' (Some a)))
            else if ap_status a = AP_EXPIRED then Inl (consume_response ''EXPIRED'' (Some a))
            else if ap_status a \<noteq> AP_APPROVED then Inl (consume_response ''NOT_APPROVED'' (Some a))
            else (case body of None \<Rightarrow> Inl (failed type_error)
              | Some b \<Rightarrow>
                  if Some (JStr (ap_gateKind a)) \<noteq> member_of b ''gateKind''
                    then Inl (consume_response ''GATE_KIND_MISMATCH'' (Some a))
                  else if \<not> isScopeEqual (ap_scope a) (member_of b ''scope'')
                    then Inl (consume_response ''SCOPE_MISMATCH'' (Some a))
                  else Inr (PW_CONSUME i (member_of b ''gateKind'') (member_of b ''scope'')
                    (or_value (member_of b ''executorRef'') (JStr ''EXECUTOR'')) now))))"

definition consume_expired :: "stamp \<Rightarrow> approval \<Rightarrow> approval_db \<Rightarrow> (response + pending_write) \<times> approval_db" where
  "consume_expired st a db =
     (let (n, db') = update_where_status (ap_id a) (ap_status a) (\<lambda>r. r\<lparr>ap_status := AP_EXPIRED\<rparr>) db in
      if n = 0 then
        (case approval_of db (ap_id a) of
           None \<Rightarrow> (Inl (consume_response ''NOT_FOUND'' None), db)
         | Some r \<Rightarrow> (Inl (consume_response (if ap_status r = AP_EXPIRED then ''EXPIRED''
             else if ap_status r \<noteq> AP_APPROVED then ''NOT_APPROVED'' else ''CONCURRENCY_CONFLICT'') (Some r)), db))
      else with_event st (ap_id a) ''EXPIRED'' ''SYSTEM'' (JObj [(''expiresAt'', date_or_null (ap_expiresAt a))])
        (consume_response ''EXPIRED'' (approval_of db' (ap_id a))) db' db)"

text \<open>A member that is \<open>undefined\<close> is not part of a JSON value.\<close>

definition present :: "string \<Rightarrow> json option \<Rightarrow> (string \<times> json) list" where
  "present k v = (case v of None \<Rightarrow> [] | Some x \<Rightarrow> [(k, x)])"

definition used_row :: "int \<Rightarrow> approval \<Rightarrow> approval" where
  "used_row now a = a\<lparr>ap_status := AP_USED, ap_consumedAt := Some now\<rparr>"

definition consume_write ::
  "stamp \<Rightarrow> string \<Rightarrow> json option \<Rightarrow> json option \<Rightarrow> json \<Rightarrow> int \<Rightarrow> approval_db \<Rightarrow> (response + pending_write) \<times> approval_db" where
  "consume_write st i gate scope executor now db =
     (let (n, db') = update_where_status i AP_APPROVED (used_row now) db in
      if n = 0 then (Inl (consume_response ''CONCURRENCY_CONFLICT'' None), db)
      else (case text_column executor of
          Some (Some who) \<Rightarrow> with_event st i ''USED'' who
            (JObj ((''consumedAt'', JStr (toISOString now)) # present ''gateKind'' gate @ present ''scope'' scope))
            (consume_response ''USED'' (approval_of db' i)) db' db
        | _ \<Rightarrow> (Inl (failed client_error), db)))"

subsection \<open>Verifying\<close>

text \<open>This route has no transaction: the row is read, then updated, then the event is written.\<close>

definition verify_read :: "auth_context \<Rightarrow> string \<Rightarrow> json option \<Rightarrow> approval_db \<Rightarrow> response + pending_write" where
  "verify_read c i body db =
     (case ac_projectId c of None \<Rightarrow> Inl (failed client_error)
      | Some p \<Rightarrow> (case approval_in db i p of
          None \<Rightarrow> Inl not_found
        | Some a \<Rightarrow> if ap_status a \<noteq> AP_USED
            then Inl (Response 409 (error_body ''Post-action verification only allowed on USED approvals''))
            else Inr (PW_VERIFY i body)))"

definition verify_write :: "string \<Rightarrow> json option \<Rightarrow> approval_db \<Rightarrow> (response + pending_write) \<times> approval_db" where
  "verify_write i body db =
     (let db' = db\<lparr>ad_approvals := map (\<lambda>a. if ap_id a = i \<and> body \<noteq> None
        then a\<lparr>ap_postActionVerification := body\<rparr> else a) (ad_approvals db)\<rparr>
      in (case approval_of db' i of None \<Rightarrow> (Inl (failed ''PrismaClientKnownRequestError''), db)
          | Some a \<Rightarrow> (Inr (PW_VERIFIED i body a), db')))"

definition verify_event ::
  "stamp \<Rightarrow> string \<Rightarrow> json option \<Rightarrow> approval \<Rightarrow> approval_db \<Rightarrow> (response + pending_write) \<times> approval_db" where
  "verify_event st i body a db =
     (case body of None \<Rightarrow> (Inl (failed client_error), db)
      | Some b \<Rightarrow> with_event st i ''POST_ACTION_VERIFIED'' ''VERIFIER'' b (Response 200 (mapApprovalToDto a)) db db)"

fun continue_write :: "stamp \<Rightarrow> pending_write \<Rightarrow> approval_db \<Rightarrow> (response + pending_write) \<times> approval_db" where
  "continue_write st (PW_EXPIRE a) db = tryExpireApproval st a db"
| "continue_write st (PW_DECIDE i d by why now) db = decide_write st i d by why now db"
| "continue_write st (PW_CONSUME_EXPIRED a) db = consume_expired st a db"
| "continue_write st (PW_CONSUME i gate scope executor now) db = consume_write st i gate scope executor now db"
| "continue_write st (PW_VERIFY i body) db = verify_write i body db"
| "continue_write st (PW_VERIFIED i body a) db = verify_event st i body a db"


section \<open>Concurrent requests\<close>

text \<open>
  The server handles many requests at once. A step creates an approval, reads for a writing route, runs one pending
  write, or changes the tables that other components own.
\<close>

record api_world =
  aw_db :: approval_db
  aw_pending :: "pending_write list"

definition begin_route :: "response + pending_write \<Rightarrow> api_world \<Rightarrow> api_world" where
  "begin_route r w = (case r of Inl _ \<Rightarrow> w | Inr t \<Rightarrow> w\<lparr>aw_pending := aw_pending w @ [t]\<rparr>)"

definition run_pending :: "stamp \<Rightarrow> pending_write \<Rightarrow> api_world \<Rightarrow> api_world" where
  "run_pending st t w =
     (let (r, db) = continue_write st t (aw_db w)
      in begin_route r (w\<lparr>aw_db := db, aw_pending := remove1 t (aw_pending w)\<rparr>))"

inductive api_step :: "api_world \<Rightarrow> api_world \<Rightarrow> bool" where
  step_create: "api_step w (w\<lparr>aw_db := snd (create_approval parse_date st c body (aw_db w))\<rparr>)"
| step_decide: "api_step w (begin_route (decide_read c i body now (aw_db w)) w)"
| step_consume: "api_step w (begin_route (consume_read c i body now (aw_db w)) w)"
| step_verify: "api_step w (begin_route (verify_read c i body (aw_db w)) w)"
| step_write: "t \<in> set (aw_pending w) \<Longrightarrow> api_step w (run_pending st t w)"
| step_others: "api_step w (w\<lparr>aw_db := (aw_db w)\<lparr>ad_projects := ps, ad_workItems := ws, ad_attempts := ts\<rparr>\<rparr>)"

inductive api_reach :: "api_world \<Rightarrow> api_world \<Rightarrow> bool" where
  reach_refl: "api_reach w w"
| reach_step: "api_reach w w1 \<Longrightarrow> api_step w1 w2 \<Longrightarrow> api_reach w w2"

definition fresh_api :: api_world where
  "fresh_api = \<lparr>aw_db = \<lparr>ad_projects = [], ad_workItems = [], ad_attempts = [], ad_approvals = [], ad_audit = []\<rparr>,
     aw_pending = []\<rparr>"

section \<open>What the tables keep\<close>

text \<open>The events of an approval that record its status, and the histories that end in a status.\<close>

definition status_trail :: "string \<Rightarrow> approval_event list \<Rightarrow> string list" where
  "status_trail i es = map ae_eventType (filter (\<lambda>e. ae_approvalId e = i \<and> ae_eventType e \<noteq> ''POST_ACTION_VERIFIED'') es)"

fun trails :: "approval_status \<Rightarrow> string list set" where
  "trails AP_PENDING = {[''REQUESTED'']}"
| "trails AP_APPROVED = {[''REQUESTED'', ''APPROVED'']}"
| "trails AP_REJECTED = {[''REQUESTED'', ''REJECTED'']}"
| "trails AP_USED = {[''REQUESTED'', ''APPROVED'', ''USED'']}"
| "trails AP_EXPIRED = {[''REQUESTED'', ''EXPIRED''], [''REQUESTED'', ''APPROVED'', ''EXPIRED'']}"

text \<open>A use that is in order: it was asked for the gate and the scope of the approval, before its expiry.\<close>

definition used_properly :: "approval \<Rightarrow> json \<Rightarrow> int \<Rightarrow> bool" where
  "used_properly a scope now \<longleftrightarrow> isScopeEqual (ap_scope a) (Some scope) \<and> \<not> has_expired a now"

definition row_in_order :: "approval_event list \<Rightarrow> approval \<Rightarrow> bool" where
  "row_in_order es a \<longleftrightarrow> status_trail (ap_id a) es \<in> trails (ap_status a) \<and>
     (ap_status a = AP_USED \<longrightarrow> (\<exists>e \<in> set es. \<exists>now scope. ae_approvalId e = ap_id a \<and> ae_eventType e = ''USED'' \<and>
        ap_consumedAt a = Some now \<and> used_properly a scope now \<and>
        ae_payload e = JObj [(''consumedAt'', JStr (toISOString now)), (''gateKind'', JStr (ap_gateKind a)), (''scope'', scope)]))"

text \<open>What never changes in a row.\<close>

definition same_request :: "approval \<Rightarrow> approval \<Rightarrow> bool" where
  "same_request a b \<longleftrightarrow> ap_id a = ap_id b \<and> ap_projectId a = ap_projectId b \<and> ap_gateKind a = ap_gateKind b \<and>
     ap_scope a = ap_scope b \<and> ap_expiresAt a = ap_expiresAt b"

fun pending_ok :: "approval list \<Rightarrow> pending_write \<Rightarrow> bool" where
  "pending_ok rows (PW_EXPIRE a) \<longleftrightarrow> ap_status a \<in> {AP_PENDING, AP_APPROVED}"
| "pending_ok rows (PW_CONSUME_EXPIRED a) \<longleftrightarrow> ap_status a \<in> {AP_PENDING, AP_APPROVED}"
| "pending_ok rows (PW_DECIDE i d by why now) \<longleftrightarrow> d \<in> {AP_APPROVED, AP_REJECTED}"
| "pending_ok rows (PW_CONSUME i gate scope executor now) \<longleftrightarrow>
     (\<exists>a \<in> set rows. \<exists>s. ap_id a = i \<and> gate = Some (JStr (ap_gateKind a)) \<and> scope = Some s \<and> used_properly a s now)"
| "pending_ok rows (PW_VERIFY i body) \<longleftrightarrow> (\<exists>a \<in> set rows. ap_id a = i \<and> ap_status a = AP_USED)"
| "pending_ok rows (PW_VERIFIED i body b) \<longleftrightarrow> (\<exists>a \<in> set rows. ap_id a = i \<and> ap_status a = AP_USED)"

definition tables_ok :: "approval list \<Rightarrow> approval_event list \<Rightarrow> bool" where
  "tables_ok rows es \<longleftrightarrow> distinct (map ap_id rows) \<and> (\<forall>e \<in> set es. ae_approvalId e \<in> ap_id ` set rows) \<and>
     (\<forall>a \<in> set rows. row_in_order es a)"

definition api_inv :: "api_world \<Rightarrow> bool" where
  "api_inv w \<longleftrightarrow> tables_ok (ad_approvals (aw_db w)) (ad_audit (aw_db w)) \<and>
     (\<forall>t \<in> set (aw_pending w). pending_ok (ad_approvals (aw_db w)) t)"

text \<open>How the rows of two moments correspond: requests stay, ended statuses stay.\<close>

definition rows_later :: "approval list \<Rightarrow> approval list \<Rightarrow> bool" where
  "rows_later rows rows' \<longleftrightarrow> (\<forall>a \<in> set rows. \<exists>b \<in> set rows'. same_request a b \<and>
     (ap_status a \<in> {AP_USED, AP_REJECTED, AP_EXPIRED} \<longrightarrow> ap_status b = ap_status a \<and> ap_consumedAt b = ap_consumedAt a))"

lemma same_request_refl [simp]: "same_request a a" by (simp add: same_request_def)

lemma rows_later_refl: "rows_later rows rows"
  unfolding rows_later_def by (metis same_request_refl)

lemma rows_later_trans: "rows_later r1 r2 \<Longrightarrow> rows_later r2 r3 \<Longrightarrow> rows_later r1 r3"
  unfolding rows_later_def same_request_def by metis

lemma used_properly_same: "same_request a b \<Longrightarrow> used_properly b s t = used_properly a s t"
  by (simp add: used_properly_def same_request_def has_expired_def)

lemma pending_later: "pending_ok rows t \<Longrightarrow> rows_later rows rows' \<Longrightarrow> pending_ok rows' t"
  by (cases t) (auto simp: rows_later_def used_properly_def same_request_def has_expired_def; metis)+


lemma status_trail_snoc:
  "status_trail i (es @ [e]) = status_trail i es @
     (if ae_approvalId e = i \<and> ae_eventType e \<noteq> ''POST_ACTION_VERIFIED'' then [ae_eventType e] else [])"
  by (simp add: status_trail_def)

lemma status_trail_new: "(\<forall>e \<in> set es. ae_approvalId e \<noteq> i) \<Longrightarrow> status_trail i es = []"
  by (auto simp: status_trail_def filter_empty_conv)

text \<open>An event of another approval, or one of a verification, leaves a row in order.\<close>

lemma row_in_order_other:
  assumes "row_in_order es a" and "ae_approvalId e \<noteq> ap_id a \<or> ae_eventType e = ''POST_ACTION_VERIFIED''"
  shows "row_in_order (es @ [e]) a"
  using assms unfolding row_in_order_def by (auto simp: status_trail_snoc)

definition moves :: "string \<Rightarrow> approval_status \<Rightarrow> (approval \<Rightarrow> approval) \<Rightarrow> approval list \<Rightarrow> approval list" where
  "moves i s f rows = map (\<lambda>a. if ap_id a = i \<and> ap_status a = s then f a else a) rows"

lemma update_where_status_eq:
  "update_where_status i s f db =
     (length (filter (\<lambda>a. ap_id a = i \<and> ap_status a = s) (ad_approvals db)), db\<lparr>ad_approvals := moves i s f (ad_approvals db)\<rparr>)"
  by (simp add: update_where_status_def update_many_def moves_def)

lemma create_event_Some:
  "create_event st i kind actor payload db = Some db' \<Longrightarrow>
     \<exists>e. ae_approvalId e = i \<and> ae_eventType e = kind \<and> ae_payload e = payload \<and>
         db' = db\<lparr>ad_audit := ad_audit db @ [e]\<rparr>"
  unfolding create_event_def
  by (auto split: if_splits intro!: exI [of _ "\<lparr>ae_id = sp_eventId st, ae_approvalId = i, ae_eventType = kind,
    ae_actorId = actor, ae_payload = payload, ae_occurredAt = sp_dbNow st\<rparr>"])

lemma moves_ids: "(\<And>a. ap_id (f a) = ap_id a) \<Longrightarrow> map ap_id (moves i s f rows) = map ap_id rows"
  by (simp add: moves_def)

lemma moves_later:
  assumes "\<And>a. same_request a (f a)" and "s \<notin> {AP_USED, AP_REJECTED, AP_EXPIRED}"
  shows "rows_later rows (moves i s f rows)"
  unfolding rows_later_def
proof (intro ballI)
  fix a assume a: "a \<in> set rows"
  let ?b = "if ap_id a = i \<and> ap_status a = s then f a else a"
  have "?b \<in> set (moves i s f rows)" using a by (auto simp: moves_def)
  then show "\<exists>b \<in> set (moves i s f rows). same_request a b \<and>
      (ap_status a \<in> {AP_USED, AP_REJECTED, AP_EXPIRED} \<longrightarrow> ap_status b = ap_status a \<and> ap_consumedAt b = ap_consumedAt a)"
    using assms by (intro bexI [of _ ?b]) auto
qed

text \<open>A conditional update that found its row, with its event.\<close>

lemma tables_move:
  assumes ok: "tables_ok rows es" and a: "a \<in> set rows" "ap_id a = i" "ap_status a = s"
    and f: "\<And>a. same_request a (f a)" "\<And>a. ap_status (f a) = s'"
    and e: "ae_approvalId e = i" "ae_eventType e = kind" "kind \<noteq> ''POST_ACTION_VERIFIED''"
    and trail: "\<And>t. t \<in> trails s \<Longrightarrow> t @ [kind] \<in> trails s'"
    and used: "s' = AP_USED \<Longrightarrow> kind = ''USED'' \<and> (\<exists>now scope. ap_consumedAt (f a) = Some now \<and> used_properly a scope now \<and>
        ae_payload e = JObj [(''consumedAt'', JStr (toISOString now)), (''gateKind'', JStr (ap_gateKind a)), (''scope'', scope)])"
  shows "tables_ok (moves i s f rows) (es @ [e])"
proof -
  have ids: "ap_id (f b) = ap_id b" for b using f(1) [of b] by (simp add: same_request_def)
  have dist: "distinct (map ap_id rows)" and orders: "\<And>b. b \<in> set rows \<Longrightarrow> row_in_order es b"
    and refs: "\<And>x. x \<in> set es \<Longrightarrow> ae_approvalId x \<in> ap_id ` set rows" using ok by (auto simp: tables_ok_def)
  have new_ids: "ap_id ` set (moves i s f rows) = ap_id ` set rows"
    using moves_ids [of f i s rows, OF ids] by (metis list.set_map)
  have moved: "row_in_order (es @ [e]) (f a)"
    using orders [OF a(1)] a e trail used f(2) [of a] f(1) [of a]
    unfolding row_in_order_def by (auto simp: status_trail_snoc ids same_request_def used_properly_def has_expired_def)
  have "row_in_order (es @ [e]) b" if b: "b \<in> set (moves i s f rows)" for b
  proof -
    obtain c where c: "c \<in> set rows" "b = (if ap_id c = i \<and> ap_status c = s then f c else c)"
      using b by (auto simp: moves_def)
    show ?thesis
    proof (cases "ap_id c = i")
      case True
      then have "c = a" using dist c(1) a by (metis distinct_key_eq)
      then show ?thesis using c a moved by simp
    next
      case False
      then show ?thesis using c orders e(1) by (auto intro!: row_in_order_other)
    qed
  qed
  then show ?thesis
    using dist refs a e(1) new_ids unfolding tables_ok_def by (auto simp: moves_ids ids)
qed

text \<open>What a write does to the tables and what it leaves to do.\<close>

definition writes_ok :: "approval_db \<Rightarrow> (response + pending_write) \<times> approval_db \<Rightarrow> bool" where
  "writes_ok db res \<longleftrightarrow> tables_ok (ad_approvals (snd res)) (ad_audit (snd res)) \<and>
     rows_later (ad_approvals db) (ad_approvals (snd res)) \<and>
     (\<forall>t. fst res = Inr t \<longrightarrow> pending_ok (ad_approvals (snd res)) t)"

definition db_ok :: "approval_db \<Rightarrow> bool" where
  "db_ok db \<longleftrightarrow> tables_ok (ad_approvals db) (ad_audit db)"

lemma writes_nothing: "db_ok db \<Longrightarrow> writes_ok db (Inl r, db)"
  by (simp add: writes_ok_def db_ok_def rows_later_refl)

lemma writes_move:
  assumes ok: "db_ok db" and f: "\<And>a. same_request a (f a)" "\<And>a. ap_status (f a) = s'"
    and s: "s \<notin> {AP_USED, AP_REJECTED, AP_EXPIRED}" and k: "kind \<noteq> ''POST_ACTION_VERIFIED''"
    and upd: "update_where_status i s f db = (n, db1)" "n \<noteq> 0"
    and trail: "\<And>t. t \<in> trails s \<Longrightarrow> t @ [kind] \<in> trails s'"
    and used: "\<And>a. a \<in> set (ad_approvals db) \<Longrightarrow> ap_id a = i \<Longrightarrow> s' = AP_USED \<Longrightarrow>
      kind = ''USED'' \<and> (\<exists>now scope. ap_consumedAt (f a) = Some now \<and> used_properly a scope now \<and>
        payload = JObj [(''consumedAt'', JStr (toISOString now)), (''gateKind'', JStr (ap_gateKind a)), (''scope'', scope)])"
  shows "writes_ok db (with_event st i kind actor payload r db1 db)"
proof (cases "create_event st i kind actor payload db1")
  case None
  then show ?thesis using ok by (simp add: with_event_def writes_nothing)
next
  case (Some db')
  obtain e where e: "ae_approvalId e = i" "ae_eventType e = kind" "ae_payload e = payload"
    "db' = (db\<lparr>ad_approvals := moves i s f (ad_approvals db)\<rparr>)\<lparr>ad_audit := ad_audit db @ [e]\<rparr>"
    using create_event_Some [OF Some] upd by (auto simp: update_where_status_eq)
  obtain a where a: "a \<in> set (ad_approvals db)" "ap_id a = i" "ap_status a = s"
    using upd by (auto simp: update_where_status_eq filter_empty_conv)
  have "tables_ok (moves i s f (ad_approvals db)) (ad_audit db @ [e])"
    using ok a f e k trail used [OF a(1,2)] by (intro tables_move [where kind = kind]) (auto simp: db_ok_def)
  then show ?thesis using Some e moves_later [OF f(1) s] by (simp add: with_event_def writes_ok_def)
qed


lemma expire_trail: "s \<in> {AP_PENDING, AP_APPROVED} \<Longrightarrow> t \<in> trails s \<Longrightarrow> t @ [''EXPIRED''] \<in> trails AP_EXPIRED"
  by auto

lemma expire_writes:
  assumes "db_ok db" and "s \<in> {AP_PENDING, AP_APPROVED}"
    and "update_where_status i s (\<lambda>r. r\<lparr>ap_status := AP_EXPIRED\<rparr>) db = (n, db1)" and "n \<noteq> 0"
  shows "writes_ok db (with_event st i ''EXPIRED'' actor payload r db1 db)"
  by (rule writes_move [where s' = AP_EXPIRED])
     (use assms expire_trail [of s] in \<open>auto simp: same_request_def\<close>)

lemma try_expire_ok: "db_ok db \<Longrightarrow> ap_status a \<in> {AP_PENDING, AP_APPROVED} \<Longrightarrow> writes_ok db (tryExpireApproval st a db)"
  unfolding tryExpireApproval_def by (auto intro: writes_nothing expire_writes split: prod.split option.split)

lemma consume_expired_ok: "db_ok db \<Longrightarrow> ap_status a \<in> {AP_PENDING, AP_APPROVED} \<Longrightarrow> writes_ok db (consume_expired st a db)"
  unfolding consume_expired_def by (auto intro: writes_nothing expire_writes split: prod.split option.split)

lemma decided_writes:
  assumes "db_ok db" and "d \<in> {AP_APPROVED, AP_REJECTED}"
    and "update_where_status i AP_PENDING (decided_row d who why now) db = (n, db1)" and "n \<noteq> 0"
  shows "writes_ok db (with_event st i (approval_name d) actor payload r db1 db)"
  by (rule writes_move [where s' = d])
     (use assms in \<open>auto simp: same_request_def decided_row_def\<close>)

lemma decide_write_ok: "db_ok db \<Longrightarrow> d \<in> {AP_APPROVED, AP_REJECTED} \<Longrightarrow> writes_ok db (decide_write st i d by why now db)"
  unfolding decide_write_def
  by (simp only: Let_def split: prod.split option.split if_split) (blast intro: writes_nothing decided_writes)

lemma used_writes:
  assumes ok: "db_ok db" and p: "pending_ok (ad_approvals db) (PW_CONSUME i gate scope executor now)"
    and upd: "update_where_status i AP_APPROVED (used_row now) db = (n, db1)" "n \<noteq> 0"
  shows "writes_ok db (with_event st i ''USED'' actor
    (JObj ((''consumedAt'', JStr (toISOString now)) # present ''gateKind'' gate @ present ''scope'' scope)) r db1 db)"
proof (rule writes_move [where s' = AP_USED and s = AP_APPROVED and f = "used_row now" and n = n])
  obtain b s where b: "b \<in> set (ad_approvals db)" "ap_id b = i" "gate = Some (JStr (ap_gateKind b))" "scope = Some s"
    "used_properly b s now" using p by auto
  fix a assume a: "a \<in> set (ad_approvals db)" "ap_id a = i"
  have "a = b" using ok a b by (metis db_ok_def tables_ok_def distinct_key_eq)
  then show "''USED'' = ''USED'' \<and> (\<exists>t sc. ap_consumedAt (used_row now a) = Some t \<and> used_properly a sc t \<and>
      JObj ((''consumedAt'', JStr (toISOString now)) # present ''gateKind'' gate @ present ''scope'' scope) =
      JObj [(''consumedAt'', JStr (toISOString t)), (''gateKind'', JStr (ap_gateKind a)), (''scope'', sc)])"
    using b by (auto simp: used_row_def present_def)
qed (use ok upd in \<open>auto simp: same_request_def used_row_def\<close>)

lemma consume_write_ok:
  "db_ok db \<Longrightarrow> pending_ok (ad_approvals db) (PW_CONSUME i gate scope executor now) \<Longrightarrow>
     writes_ok db (consume_write st i gate scope executor now db)"
  unfolding consume_write_def
  by (simp only: Let_def split: prod.split option.split if_split) (blast intro: writes_nothing used_writes)

text \<open>A change that keeps the requests, statuses and use times of all rows in place.\<close>

lemma tables_same:
  assumes ok: "tables_ok rows es" and f: "\<And>a. same_request a (f a) \<and> ap_status (f a) = ap_status a \<and> ap_consumedAt (f a) = ap_consumedAt a"
  shows "tables_ok (map f rows) es \<and> rows_later rows (map f rows)"
proof -
  have ids: "ap_id (f a) = ap_id a" for a using f [of a] by (simp add: same_request_def)
  have "row_in_order es (f a)" if "row_in_order es a" for a
    using that f [of a] unfolding row_in_order_def by (auto simp: same_request_def used_properly_def has_expired_def)
  then have "tables_ok (map f rows) es" using ok unfolding tables_ok_def by (auto simp: ids comp_def image_image)
  moreover have "rows_later rows (map f rows)"
    unfolding rows_later_def using f by (auto intro!: bexI [OF _ imageI])
  ultimately show ?thesis by blast
qed

lemma verify_write_ok:
  assumes ok: "db_ok db" and p: "pending_ok (ad_approvals db) (PW_VERIFY i body)"
  shows "writes_ok db (verify_write i body db)"
proof -
  let ?f = "\<lambda>a. if ap_id a = i \<and> body \<noteq> None then a\<lparr>ap_postActionVerification := body\<rparr> else a"
  let ?rows = "map ?f (ad_approvals db)"
  have t: "tables_ok ?rows (ad_audit db) \<and> rows_later (ad_approvals db) ?rows"
    using ok unfolding db_ok_def by (intro tables_same) (auto simp: same_request_def)
  have left: "pending_ok ?rows (PW_VERIFIED i body b)" for b
    using pending_later [OF p conjunct2 [OF t]] by (simp only: pending_ok.simps)
  show ?thesis
  proof (cases "approval_of (db\<lparr>ad_approvals := ?rows\<rparr>) i")
    case None
    show ?thesis unfolding verify_write_def Let_def None option.case by (rule writes_nothing [OF ok])
  next
    case (Some b)
    show ?thesis unfolding verify_write_def Let_def Some option.case writes_ok_def
      using t left by (simp del: pending_ok.simps)
  qed
qed

lemma verify_event_ok:
  assumes ok: "db_ok db" and p: "pending_ok (ad_approvals db) (PW_VERIFIED i body b)"
  shows "writes_ok db (verify_event st i body b db)"
proof (cases body)
  case None
  then show ?thesis using ok by (simp add: verify_event_def writes_nothing)
next
  case (Some v)
  have t: "tables_ok (ad_approvals db) (ad_audit db @ [e])"
    if e: "ae_approvalId e = i" "ae_eventType e = ''POST_ACTION_VERIFIED''" for e
  proof -
    have "i \<in> ap_id ` set (ad_approvals db)" using p by auto
    moreover have "row_in_order (ad_audit db @ [e]) a" if "a \<in> set (ad_approvals db)" for a
      by (rule row_in_order_other) (use ok e that in \<open>auto simp: db_ok_def tables_ok_def\<close>)
    ultimately show ?thesis using ok e by (simp add: db_ok_def tables_ok_def)
  qed
  let ?new = "create_event st i ''POST_ACTION_VERIFIED'' ''VERIFIER'' v db"
  show ?thesis
  proof (cases ?new)
    case None
    then show ?thesis using ok Some by (simp add: verify_event_def with_event_def writes_nothing)
  next
    case new: (Some db')
    from create_event_Some [OF this] obtain e where "ae_approvalId e = i" "ae_eventType e = ''POST_ACTION_VERIFIED''"
      "db' = db\<lparr>ad_audit := ad_audit db @ [e]\<rparr>" by blast
    then show ?thesis using t Some new by (simp add: verify_event_def with_event_def writes_ok_def rows_later_refl)
  qed
qed

lemma continue_ok: "db_ok db \<Longrightarrow> pending_ok (ad_approvals db) t \<Longrightarrow> writes_ok db (continue_write st t db)"
  by (cases t) (simp_all only: continue_write.simps try_expire_ok consume_expired_ok decide_write_ok consume_write_ok
    verify_write_ok verify_event_ok pending_ok.simps(1,2,3))


section \<open>Every step keeps the tables in order\<close>

lemma approval_in_row: "approval_in db i p = Some a \<Longrightarrow> a \<in> set (ad_approvals db) \<and> ap_id a = i \<and> ap_projectId a = p"
  unfolding approval_in_def using find_row_Some by fastforce

lemma open_status: "s \<noteq> AP_USED \<Longrightarrow> s \<noteq> AP_REJECTED \<Longrightarrow> s \<noteq> AP_EXPIRED \<Longrightarrow> s \<noteq> AP_APPROVED \<Longrightarrow> s = AP_PENDING"
  by (cases s) auto

lemma decision_cases: "requested_decision v = Some d \<Longrightarrow> d = AP_APPROVED \<or> d = AP_REJECTED"
  by (cases v rule: requested_decision.cases) (auto split: if_splits)

lemma decide_read_ok: "decide_read c i body now db = Inr t \<Longrightarrow> pending_ok (ad_approvals db) t"
  unfolding decide_read_def
  by (auto split: option.splits if_splits dest: decision_cases intro: open_status)

lemma consume_read_ok: "consume_read c i body now db = Inr t \<Longrightarrow> pending_ok (ad_approvals db) t"
  unfolding consume_read_def
  by (auto split: option.splits if_splits dest!: approval_in_row simp: used_properly_def isScopeEqual_def
    intro!: bexI intro: open_status)

lemma verify_read_ok: "verify_read c i body db = Inr t \<Longrightarrow> pending_ok (ad_approvals db) t"
  unfolding verify_read_def by (auto split: option.splits if_splits dest!: approval_in_row)

lemma begin_ok:
  assumes "api_inv w" and "\<And>t. r = Inr t \<Longrightarrow> pending_ok (ad_approvals (aw_db w)) t"
  shows "api_inv (begin_route r w)"
  using assms by (cases r) (auto simp: begin_route_def api_inv_def)

lemma create_ok:
  assumes ok: "db_ok db"
  shows "db_ok (snd (create_approval parse_date st c body db)) \<and>
    rows_later (ad_approvals db) (ad_approvals (snd (create_approval parse_date st c body db)))"
proof -
  have added: "db_ok db' \<and> rows_later (ad_approvals db) (ad_approvals db')"
    if new: "approval_of db (ap_id a) = None" "ap_status a = AP_PENDING"
      and ev: "create_event st (ap_id a) ''REQUESTED'' actor payload (db\<lparr>ad_approvals := ad_approvals db @ [a]\<rparr>) = Some db'"
    for a db' actor payload
  proof -
    obtain e where e: "ae_approvalId e = ap_id a" "ae_eventType e = ''REQUESTED''"
      "db' = db\<lparr>ad_approvals := ad_approvals db @ [a], ad_audit := ad_audit db @ [e]\<rparr>"
      using create_event_Some [OF ev] by auto
    have fresh: "ap_id a \<notin> ap_id ` set (ad_approvals db)" using new by (auto simp: approval_of_def find_row_None)
    have "status_trail (ap_id a) (ad_audit db) = []"
      using ok fresh by (intro status_trail_new) (metis db_ok_def tables_ok_def)
    then have "row_in_order (ad_audit db @ [e]) a" using e new by (simp add: row_in_order_def status_trail_snoc)
    moreover have "row_in_order (ad_audit db @ [e]) b" if "b \<in> set (ad_approvals db)" for b
      by (rule row_in_order_other) (use ok e fresh that in \<open>auto simp: db_ok_def tables_ok_def image_iff\<close>)
    ultimately have "db_ok db'" using ok e fresh by (auto simp: db_ok_def tables_ok_def)
    moreover have "rows_later (ad_approvals db) (ad_approvals db @ [a])"
      unfolding rows_later_def by (metis same_request_refl Un_iff set_append)
    ultimately show ?thesis using e by simp
  qed
  have pending: "requested_row parse_date st p b = Some a \<Longrightarrow> ap_status a = AP_PENDING" for p b a
    unfolding requested_row_def by (auto split: option.splits)
  show ?thesis
    unfolding create_approval_def using added pending ok
    by (auto simp: rows_later_refl split: option.splits if_splits)
qed

lemma api_inv_step: "api_step w w' \<Longrightarrow> api_inv w \<Longrightarrow> api_inv w' \<and> rows_later (ad_approvals (aw_db w)) (ad_approvals (aw_db w'))"
proof (induction rule: api_step.induct)
  case (step_create w parse_date st c body)
  then show ?case using create_ok [of "aw_db w" parse_date st c body]
    unfolding api_inv_def db_ok_def by (auto intro: pending_later)
next
  case (step_decide w c i body now)
  then show ?case using begin_ok decide_read_ok by (auto simp: begin_route_def rows_later_refl split: sum.split)
next
  case (step_consume w c i body now)
  then show ?case using begin_ok consume_read_ok by (auto simp: begin_route_def rows_later_refl split: sum.split)
next
  case (step_verify w c i body)
  then show ?case using begin_ok verify_read_ok by (auto simp: begin_route_def rows_later_refl split: sum.split)
next
  case (step_write t w st)
  obtain r db where r: "continue_write st t (aw_db w) = (r, db)" by force
  have c: "writes_ok (aw_db w) (r, db)"
    using continue_ok [of "aw_db w" t st] step_write r by (simp add: api_inv_def db_ok_def)
  have left: "pending_ok (ad_approvals db) u" if "u \<in> set (remove1 t (aw_pending w))" for u
  proof (rule pending_later)
    show "pending_ok (ad_approvals (aw_db w)) u"
      using that step_write set_remove1_subset [of t "aw_pending w"] by (auto simp: api_inv_def)
    show "rows_later (ad_approvals (aw_db w)) (ad_approvals db)" using c by (simp add: writes_ok_def)
  qed
  have "api_inv (w\<lparr>aw_db := db, aw_pending := remove1 t (aw_pending w)\<rparr>)"
    using c left by (simp add: writes_ok_def api_inv_def)
  then have "api_inv (run_pending st t w)"
    unfolding run_pending_def r split_conv Let_def by (rule begin_ok) (use c in \<open>simp add: writes_ok_def\<close>)
  then show ?case
    using c by (simp add: writes_ok_def run_pending_def r begin_route_def split: sum.split)
next
  case (step_others w ps ws ts)
  then show ?case by (simp add: api_inv_def rows_later_refl)
qed

lemma api_inv_reach:
  "api_reach w w' \<Longrightarrow> api_inv w \<Longrightarrow> api_inv w' \<and> rows_later (ad_approvals (aw_db w)) (ad_approvals (aw_db w'))"
  by (induction rule: api_reach.induct) (auto simp: rows_later_refl dest: api_inv_step intro: rows_later_trans)

lemma fresh_api_inv: "api_inv fresh_api" by (simp add: api_inv_def fresh_api_def tables_ok_def)


section \<open>Equal scopes\<close>

lemma isScopeEqual_iff: "isScopeEqual p (Some r) \<longleftrightarrow> canonicalizeScope p = canonicalizeScope r"
  by (auto simp: isScopeEqual_def json_text_inject)

lemma value_set_texts: "value_set (map JStr xs) = map JStr (jset_of xs)"
proof -
  have "fold (\<lambda>v acc. if is_primitive v \<and> v \<in> set acc then acc else acc @ [v]) (map JStr xs) (map JStr acc) =
      map JStr (fold jset_add xs acc)" for acc
  proof (induction xs arbitrary: acc)
    case (Cons x xs)
    show ?case using Cons [of "jset_add x acc"] by (simp add: jset_add_def image_iff split: if_splits)
  qed simp
  from this [of "[]"] show ?thesis by (simp add: value_set_def jset_of_def)
qed

lemma insort_texts: "insort_key js_string (JStr x) (map JStr xs) = map JStr (insort x xs)"
  by (induction xs) auto

lemma sorted_texts: "sorted_values (map JStr xs) = map JStr (sort (jset_of xs))"
proof -
  have "sort_key js_string (map JStr ys) = map JStr (sort ys)" for ys
    by (induction ys) (auto simp: insort_texts)
  then show ?thesis by (simp add: sorted_values_def value_set_texts)
qed

lemma sorted_texts_eq: "sorted_values (map JStr xs) = sorted_values (map JStr ys) \<longleftrightarrow> set xs = set ys"
proof -
  have "map JStr as = map JStr bs \<longleftrightarrow> as = bs" for as bs by (rule inj_map_eq_map) (simp add: inj_def)
  then have "sorted_values (map JStr xs) = sorted_values (map JStr ys) \<longleftrightarrow> sort (jset_of xs) = sort (jset_of ys)"
    by (simp only: sorted_texts)
  also have "\<dots> \<longleftrightarrow> set xs = set ys"
  proof
    assume "sort (jset_of xs) = sort (jset_of ys)"
    then have "set (sort (jset_of xs)) = set (sort (jset_of ys))" by simp
    then show "set xs = set ys" by simp
  next
    assume "set xs = set ys"
    then show "sort (jset_of xs) = sort (jset_of ys)"
      by (intro sorted_distinct_set_unique) (simp_all add: distinct_jset_of)
  qed
  finally show ?thesis .
qed

text \<open>Two objects with the same members have the same copy, and only those.\<close>

lemma members_eq:
  assumes "distinct (map fst xs)" and "distinct (map fst ys)"
  shows "set xs = set ys \<longleftrightarrow> (\<forall>k. jm_get xs k = jm_get ys k)"
proof
  assume "set xs = set ys"
  then show "\<forall>k. jm_get xs k = jm_get ys k"
    using assms by (metis jm_get_Some_in jm_get_in_distinct option.exhaust)
next
  assume r: "\<forall>k. jm_get xs k = jm_get ys k"
  have "(k, v) \<in> set xs \<longleftrightarrow> (k, v) \<in> set ys" for k v
    using assms r jm_get_Some_in jm_get_in_distinct by metis
  then show "set xs = set ys" by auto
qed

lemma get_filter: "jm_get (filter (\<lambda>(k, v). k \<noteq> n) xs) k = (if k = n then None else jm_get xs k)"
  by (induction xs) auto

lemma get_map: "jm_get (map (\<lambda>(k, v). (k, f k v)) xs) k = map_option (f k) (jm_get xs k)"
  by (induction xs) auto

lemma copied_members_eq:
  assumes "distinct (map fst xs)" and "distinct (map fst ys)"
  shows "copied_members xs = copied_members ys \<longleftrightarrow> (\<forall>k. k \<noteq> ''__proto__'' \<longrightarrow> jm_get xs k = jm_get ys k)"
proof -
  let ?f = "filter (\<lambda>(k, v). k \<noteq> ''__proto__'')"
  have d: "distinct (map fst (?f xs))" "distinct (map fst (?f ys))" using assms by (auto intro: distinct_map_filter)
  have "copied_members xs = copied_members ys \<longleftrightarrow> set (?f xs) = set (?f ys)"
  proof
    assume "copied_members xs = copied_members ys"
    then show "set (?f xs) = set (?f ys)" unfolding copied_members_def by (metis set_sort)
  next
    assume e: "set (?f xs) = set (?f ys)"
    have "distinct (map fst (sort_key fst zs)) \<longleftrightarrow> distinct (map fst zs)" for zs :: "(string \<times> json) list"
      by (metis mset_map mset_sort mset_eq_imp_distinct_iff)
    then show "copied_members xs = copied_members ys"
      unfolding copied_members_def using d e
      by (intro map_sorted_distinct_set_unique [where f = fst]) (auto simp: distinct_map simp del: set_filter)
  qed
  also have "\<dots> \<longleftrightarrow> (\<forall>k. k \<noteq> ''__proto__'' \<longrightarrow> jm_get xs k = jm_get ys k)"
    unfolding members_eq [OF d] get_filter by simp
  finally show ?thesis .
qed


definition copy_member :: "(string \<times> json) list \<Rightarrow> string \<Rightarrow> json \<Rightarrow> json" where
  "copy_member kvs k v =
     (if jm_get kvs ''kind'' = Some (JStr ''COMMIT'') \<and> k = ''paths'' \<and> json_arr (Some v) \<noteq> None
      then JArr (sorted_values (the (json_arr (Some v)))) else canonicalizeScope v)"

lemma canonical_objects_eq:
  assumes "distinct (map fst ps)" and "distinct (map fst rs)"
  shows "canonicalizeScope (JObj ps) = canonicalizeScope (JObj rs) \<longleftrightarrow>
    (\<forall>k. k \<noteq> ''__proto__'' \<longrightarrow>
      map_option (copy_member ps k) (jm_get ps k) = map_option (copy_member rs k) (jm_get rs k))"
proof -
  have c: "canonicalizeScope (JObj kvs) = JObj (copied_members (map (\<lambda>(k, v). (k, copy_member kvs k v)) kvs))" for kvs
    by (simp add: copy_member_def)
  have d: "map fst (map (\<lambda>(k, v). (k, copy_member kvs k v)) xs) = map fst xs" for kvs xs
    by (induction xs) auto
  show ?thesis unfolding c json.inject
    by (subst copied_members_eq) (simp_all only: d assms get_map not_False_eq_True)
qed

lemma all_split: "(\<forall>k. P k) \<longleftrightarrow> P c \<and> (\<forall>k. k \<noteq> c \<longrightarrow> P k)"
  by metis

section \<open>Properties\<close>

definition sample_stamp :: "int \<Rightarrow> string \<Rightarrow> stamp" where
  "sample_stamp t i = \<lparr>sp_now = t, sp_dbNow = t, sp_approvalId = ''a1'', sp_eventId = i\<rparr>"

definition sample_agent :: auth_context where
  "sample_agent = \<lparr>ac_actorType = API_SERVICE, ac_role = ROLE_AGENT, ac_projectId = Some ''p1''\<rparr>"

definition sample_scope :: "string list \<Rightarrow> json" where
  "sample_scope paths = JObj [(''kind'', JStr ''COMMIT''), (''paths'', JArr (map JStr paths)), (''message'', JStr ''fix'')]"

definition sample_create :: json where
  "sample_create = JObj [(''projectId'', JStr ''p1''), (''gateKind'', JStr ''COMMIT''),
     (''scope'', sample_scope [''b'', ''a'', ''b'']), (''expiresAt'', JNum 2000)]"

definition sample_decision :: json where "sample_decision = JObj [(''decision'', JStr ''APPROVED'')]"

definition sample_consume :: json where
  "sample_consume = JObj [(''gateKind'', JStr ''COMMIT''), (''scope'', sample_scope [''a'', ''b''])]"

lemma sample_scopes: "isScopeEqual (sample_scope [''b'', ''a'', ''b'']) (Some (sample_scope [''a'', ''b'']))"
  by (simp add: isScopeEqual_iff sample_scope_def copied_members_def json_arr_def sorted_values_def value_set_def
    less_eq_char_def)

definition sample_asked :: approval where
  "sample_asked = \<lparr>ap_id = ''a1'', ap_projectId = ''p1'', ap_workItemId = None, ap_attemptId = None, ap_gateKind = ''COMMIT'',
     ap_status = AP_PENDING, ap_scope = sample_scope [''b'', ''a'', ''b''], ap_evidenceRefs = JArr [], ap_requestedBy = ''SYSTEM'',
     ap_requestedAt = 1000, ap_expiresAt = Some 2000, ap_decidedBy = None, ap_decidedAt = None, ap_rationale = None,
     ap_consumedAt = None, ap_postActionVerification = None\<rparr>"

definition sample_approved :: approval where
  "sample_approved = sample_asked\<lparr>ap_status := AP_APPROVED, ap_decidedBy := Some ''OWNER'', ap_decidedAt := Some 1100\<rparr>"

definition sample_used :: approval where
  "sample_used = sample_approved\<lparr>ap_status := AP_USED, ap_consumedAt := Some 1200\<rparr>"

definition sample_db :: "approval list \<Rightarrow> approval_event list \<Rightarrow> approval_db" where
  "sample_db rows es = \<lparr>ad_projects = [''p1''], ad_workItems = [], ad_attempts = [], ad_approvals = rows, ad_audit = es\<rparr>"

definition sample_audit_event :: "string \<Rightarrow> string \<Rightarrow> string \<Rightarrow> int \<Rightarrow> json \<Rightarrow> approval_event" where
  "sample_audit_event i kind actor t payload = \<lparr>ae_id = i, ae_approvalId = ''a1'', ae_eventType = kind, ae_actorId = actor,
     ae_payload = payload, ae_occurredAt = t\<rparr>"

definition sample_requested :: approval_event where
  "sample_requested = sample_audit_event ''e1'' ''REQUESTED'' ''SYSTEM'' 1000 (JObj [(''gateKind'', JStr ''COMMIT''),
     (''scope'', sample_scope [''b'', ''a'', ''b'']), (''expiresAt'', JNum 2000)])"

definition sample_decided_event :: approval_event where
  "sample_decided_event = sample_audit_event ''e2'' ''APPROVED'' ''OWNER'' 1100 (JObj [(''decision'', JStr ''APPROVED''), (''rationale'', JNull)])"

definition sample_spent :: approval_event where
  "sample_spent = sample_audit_event ''e3'' ''USED'' ''EXECUTOR'' 1200 (JObj [(''consumedAt'', JStr (toISOString 1200)),
     (''gateKind'', JStr ''COMMIT''), (''scope'', sample_scope [''a'', ''b''])])"

lemma sample_created:
  "snd (create_approval (\<lambda>_. None) (sample_stamp 1000 ''e1'') sample_agent (Some sample_create) (sample_db [] [])) =
     sample_db [sample_asked] [sample_requested]"
  by (simp add: create_approval_def sample_stamp_def sample_agent_def sample_create_def sample_db_def str_or_null_def
    sample_scope_def validateApprovalGateScope_def json_arr_def json_str_def requested_row_def or_value_def
    expiry_column_def approval_of_def references_exist_def create_event_def sample_asked_def sample_requested_def
    sample_audit_event_def)

lemma sample_decide:
  "decide_read sample_agent ''a1'' (Some sample_decision) 1100 (sample_db [sample_asked] [sample_requested]) =
     Inr (PW_DECIDE ''a1'' AP_APPROVED (JStr ''OWNER'') JNull 1100)"
  "continue_write (sample_stamp 1100 ''e2'') (PW_DECIDE ''a1'' AP_APPROVED (JStr ''OWNER'') JNull 1100)
     (sample_db [sample_asked] [sample_requested]) =
     (Inl (Response 200 (mapApprovalToDto sample_approved)), sample_db [sample_approved] [sample_requested, sample_decided_event])"
  by (simp_all add: decide_read_def sample_agent_def sample_decision_def sample_db_def approval_in_def sample_asked_def
    has_expired_def or_value_def decide_write_def update_where_status_def update_many_def decided_row_def with_event_def
    create_event_def sample_stamp_def sample_requested_def sample_audit_event_def sample_decided_event_def decide_response_def
    approval_of_def sample_approved_def)

lemma sample_consume_run:
  "consume_read sample_agent ''a1'' (Some sample_consume) 1200 (sample_db [sample_approved] es) =
     Inr (PW_CONSUME ''a1'' (Some (JStr ''COMMIT'')) (Some (sample_scope [''a'', ''b''])) (JStr ''EXECUTOR'') 1200)"
  "continue_write (sample_stamp 1200 ''e3'')
     (PW_CONSUME ''a1'' (Some (JStr ''COMMIT'')) (Some (sample_scope [''a'', ''b''])) (JStr ''EXECUTOR'') 1200)
     (sample_db [sample_approved] [sample_requested, sample_decided_event]) =
     (Inl (Response 200 (mapApprovalToDto sample_used)), sample_db [sample_used] [sample_requested, sample_decided_event, sample_spent])"
  using sample_scopes
  by (simp_all add: consume_read_def sample_agent_def sample_consume_def sample_db_def approval_in_def sample_asked_def
    has_expired_def or_value_def consume_write_def update_where_status_def update_many_def used_row_def with_event_def
    create_event_def sample_stamp_def sample_requested_def sample_audit_event_def sample_decided_event_def consume_response_def
    approval_of_def sample_approved_def sample_used_def sample_spent_def present_def)

definition sample_world :: "approval_db \<Rightarrow> pending_write list \<Rightarrow> api_world" where
  "sample_world db ts = \<lparr>aw_db = db, aw_pending = ts\<rparr>"

definition sample_world4 :: api_world where
  "sample_world4 = sample_world (sample_db [sample_approved] [sample_requested, sample_decided_event]) []"

definition sample_world6 :: api_world where
  "sample_world6 = sample_world (sample_db [sample_used] [sample_requested, sample_decided_event, sample_spent]) []"

lemma sample_api_reach: "api_reach fresh_api sample_world4" "api_reach sample_world4 sample_world6"
proof -
  have "api_reach fresh_api (sample_world (sample_db [] []) [])"
    using reach_step [OF reach_refl step_others [where w = fresh_api and ps = "[''p1'']" and ws = "[]" and ts = "[]"]]
    by (simp add: fresh_api_def sample_world_def sample_db_def)
  then have "api_reach fresh_api (sample_world (sample_db [sample_asked] [sample_requested]) [])"
    using reach_step [OF _ step_create [of "sample_world (sample_db [] []) []"]] sample_created
    by (metis (no_types, lifting) api_world.select_convs(1) api_world.update_convs(1) sample_world_def)
  then have "api_reach fresh_api (sample_world (sample_db [sample_asked] [sample_requested])
      [PW_DECIDE ''a1'' AP_APPROVED (JStr ''OWNER'') JNull 1100])"
    using reach_step [OF _ step_decide [of "sample_world (sample_db [sample_asked] [sample_requested]) []"
      sample_agent "''a1''" "Some sample_decision" 1100]] by (simp add: sample_world_def sample_decide begin_route_def)
  from reach_step [OF this step_write [where st = "sample_stamp 1100 ''e2''"]]
  show "api_reach fresh_api sample_world4"
    by (simp add: sample_world4_def sample_world_def run_pending_def begin_route_def sample_decide del: continue_write.simps)
  have "api_reach sample_world4 (sample_world (sample_db [sample_approved] [sample_requested, sample_decided_event])
      [PW_CONSUME ''a1'' (Some (JStr ''COMMIT'')) (Some (sample_scope [''a'', ''b''])) (JStr ''EXECUTOR'') 1200])"
    using reach_step [OF reach_refl step_consume [of sample_world4 sample_agent "''a1''" "Some sample_consume" 1200]]
    by (simp add: sample_world4_def sample_world_def sample_consume_run begin_route_def)
  from reach_step [OF this step_write [where st = "sample_stamp 1200 ''e3''"]]
  show "api_reach sample_world4 sample_world6"
    by (simp add: sample_world6_def sample_world_def run_pending_def begin_route_def sample_consume_run del: continue_write.simps)
qed

lemma api_reach_trans: "api_reach v w \<Longrightarrow> api_reach u v \<Longrightarrow> api_reach u w"
  by (induction rule: api_reach.induct) (auto intro: reach_step)

lemma sample_used_facts: "ad_approvals (aw_db sample_world6) = [sample_used]" "ap_status sample_used = AP_USED" "ap_id sample_used = ''a1''"
  "ad_approvals (aw_db sample_world4) = [sample_approved]"
  by (simp_all add: sample_world6_def sample_world4_def sample_world_def sample_db_def sample_used_def sample_approved_def
    sample_asked_def)

text \<open>
  C31: On every interleaving of requests, the audit events of an approval tell its status: it was requested, then
  approved or rejected at most once, and an approved one was used or expired at most once. A use was asked for the
  approval's own gate and an equal scope, at a time before its expiry, and its event says so.
\<close>

theorem approvals_are_used_once:
  assumes "api_reach fresh_api w" and "a \<in> set (ad_approvals (aw_db w))"
  shows "status_trail (ap_id a) (ad_audit (aw_db w)) \<in> trails (ap_status a) \<and>
    (ap_status a = AP_USED \<longrightarrow> (\<exists>e \<in> set (ad_audit (aw_db w)). \<exists>now scope.
       ae_approvalId e = ap_id a \<and> ae_eventType e = ''USED'' \<and> ap_consumedAt a = Some now \<and>
       isScopeEqual (ap_scope a) (Some scope) \<and> (\<forall>t. ap_expiresAt a = Some t \<longrightarrow> now < t) \<and>
       ae_payload e = JObj [(''consumedAt'', JStr (toISOString now)), (''gateKind'', JStr (ap_gateKind a)), (''scope'', scope)]))"
proof -
  have "row_in_order (ad_audit (aw_db w)) a"
    using api_inv_reach [OF assms(1) fresh_api_inv] assms(2) by (simp add: api_inv_def tables_ok_def)
  then show ?thesis unfolding row_in_order_def used_properly_def has_expired_def by force
qed

theorem approvals_are_used_once_witness:
  "status_trail ''a1'' (ad_audit (aw_db sample_world6)) = [''REQUESTED'', ''APPROVED'', ''USED'']"
  using approvals_are_used_once [OF api_reach_trans [OF sample_api_reach(2,1)], of sample_used] sample_used_facts by simp

text \<open>
  Whatever requests follow, an approval keeps its project, gate, scope and expiry, and once it is used, rejected
  or expired it keeps that status and its time of use.
\<close>

theorem ended_approval_is_final:
  assumes "api_reach fresh_api w" and "api_reach w w'" and "a \<in> set (ad_approvals (aw_db w))"
  shows "\<exists>b \<in> set (ad_approvals (aw_db w')). ap_id b = ap_id a \<and> ap_projectId b = ap_projectId a \<and>
    ap_gateKind b = ap_gateKind a \<and> ap_scope b = ap_scope a \<and> ap_expiresAt b = ap_expiresAt a \<and>
    (ap_status a \<in> {AP_USED, AP_REJECTED, AP_EXPIRED} \<longrightarrow> ap_status b = ap_status a \<and> ap_consumedAt b = ap_consumedAt a)"
proof -
  have "rows_later (ad_approvals (aw_db w)) (ad_approvals (aw_db w'))"
    using api_inv_reach [OF assms(2)] api_inv_reach [OF assms(1) fresh_api_inv] by blast
  then show ?thesis using assms(3) unfolding rows_later_def same_request_def by metis
qed

theorem ended_approval_is_final_witness:
  "\<exists>b \<in> set (ad_approvals (aw_db sample_world6)). ap_id b = ap_id sample_approved \<and> ap_scope b = ap_scope sample_approved"
  using ended_approval_is_final [OF sample_api_reach, of sample_approved] sample_used_facts by auto

text \<open>
  C32: Two commit scopes count as equal exactly when they name the same set of paths, in whatever order and number, and
  agree, up to the order of members, on everything else.
\<close>

theorem commit_scopes_equal_iff:
  assumes "distinct (map fst ps)" and "distinct (map fst rs)"
    and "jm_get ps ''kind'' = Some (JStr ''COMMIT'')" and "jm_get rs ''kind'' = Some (JStr ''COMMIT'')"
    and "jm_get ps ''paths'' = Some (JArr (map JStr xs))" and "jm_get rs ''paths'' = Some (JArr (map JStr ys))"
  shows "isScopeEqual (JObj ps) (Some (JObj rs)) \<longleftrightarrow> set xs = set ys \<and>
    (\<forall>k. k \<noteq> ''paths'' \<and> k \<noteq> ''__proto__'' \<longrightarrow>
       map_option canonicalizeScope (jm_get ps k) = map_option canonicalizeScope (jm_get rs k))"
proof -
  have other: "k \<noteq> ''paths'' \<Longrightarrow> copy_member kvs k = canonicalizeScope" for k kvs by (simp add: copy_member_def fun_eq_iff)
  have path: "jm_get kvs ''kind'' = Some (JStr ''COMMIT'') \<Longrightarrow> copy_member kvs ''paths'' (JArr vs) = JArr (sorted_values vs)" for kvs vs
    by (simp add: copy_member_def json_arr_def)
  have "isScopeEqual (JObj ps) (Some (JObj rs)) \<longleftrightarrow> (\<forall>k. k \<noteq> ''__proto__'' \<longrightarrow>
      map_option (copy_member ps k) (jm_get ps k) = map_option (copy_member rs k) (jm_get rs k))"
    unfolding isScopeEqual_iff canonical_objects_eq [OF assms(1,2)] ..
  also have "\<dots> \<longleftrightarrow> sorted_values (map JStr xs) = sorted_values (map JStr ys) \<and>
      (\<forall>k. k \<noteq> ''paths'' \<and> k \<noteq> ''__proto__'' \<longrightarrow>
        map_option canonicalizeScope (jm_get ps k) = map_option canonicalizeScope (jm_get rs k))"
    (is "(\<forall>k. ?P k) \<longleftrightarrow> _")
  proof -
    have "?P ''paths'' \<longleftrightarrow> sorted_values (map JStr xs) = sorted_values (map JStr ys)"
      using assms path by simp
    moreover have "(\<forall>k. ?P k) \<longleftrightarrow> ?P ''paths'' \<and> (\<forall>k. k \<noteq> ''paths'' \<longrightarrow> ?P k)"
      using all_split [of ?P] .
    ultimately show ?thesis by (simp add: other) (simp only: imp_conjL)
  qed
  finally show ?thesis by (simp add: sorted_texts_eq)
qed

theorem commit_scopes_equal_iff_witness:
  "isScopeEqual (sample_scope [''b'', ''a'', ''b'']) (Some (sample_scope [''a'', ''b'']))"
  using commit_scopes_equal_iff [of "[(''kind'', JStr ''COMMIT''), (''paths'', JArr (map JStr [''b'', ''a'', ''b''])), (''message'', JStr ''fix'')]"
      "[(''kind'', JStr ''COMMIT''), (''paths'', JArr (map JStr [''a'', ''b''])), (''message'', JStr ''fix'')]" "[''b'', ''a'', ''b'']" "[''a'', ''b'']"]
  by (auto simp: sample_scope_def)

text \<open>
  The decide route does not ask for the owner's role: the service token of an agent approves the agent's own request,
  and the row says that the owner decided.
\<close>

lemma agent_approves_its_own_request:
  "ac_role sample_agent = ROLE_AGENT \<and> api_reach fresh_api sample_world4 \<and>
     ad_approvals (aw_db sample_world4) = [sample_approved] \<and> ap_status sample_approved = AP_APPROVED \<and>
     ap_decidedBy sample_approved = Some ''OWNER''"
  using sample_api_reach by (simp add: sample_used_facts) (simp add: sample_agent_def sample_approved_def)

text \<open>A member named \<open>__proto__\<close> is not compared.\<close>

lemma proto_member_is_ignored:
  "isScopeEqual (JObj [(''env'', JStr ''x'')]) (Some (JObj [(''env'', JStr ''x''), (''__proto__'', JStr ''y'')]))"
  by (simp add: isScopeEqual_iff copied_members_def)

end
