(* ===== verification/Api_Server.thy ===== *)
theory Api_Server
  imports Api_Approvals Evidence_Store Event_Ledger Json_Reader
begin

text \<open>
  The rest of the API (\<^verbatim>\<open>apps/api/src/index.ts\<close>): the check of a request's origin, the owner's session in a signed
  cookie, the authentication that every later route passes, and the routes of projects, work items, attempts and
  evidence. The signature of cookies and the HMAC of service tokens are parameters; what the cookie middleware makes of
  the cookie is part of a request. Rows are sent as they are, with their dates as texts.
\<close>

section \<open>Requests\<close>

record api_env =
  en_production :: bool
  en_WEB_ORIGIN :: "string option"
  en_SESSION_SECRET :: "string option"
  en_API_SERVICE_TOKEN :: "string option"
  en_OWNER_BOOTSTRAP_KEY :: "string option"

text \<open>The cookie \<open>co_session\<close>: absent, not signed, signed by someone else, or signed by this server.\<close>

datatype session_cookie = CK_NONE | CK_UNSIGNED string | CK_FORGED | CK_SIGNED string

record api_request =
  rq_method :: string
  rq_origin :: "string option"
  rq_path :: string
  rq_authorization :: "string option"
  rq_cookie :: session_cookie
  rq_body :: "json option"

text \<open>A cookie that the answer sets (the value to be signed and its age), or the clearing of it.\<close>

datatype cookie_order = CO_KEEP | CO_SET json int | CO_CLEAR

definition text_or_else :: "string option \<Rightarrow> string \<Rightarrow> string" where
  "text_or_else s d = (if truthy s then the s else d)"

definition getExactWebOrigin :: "api_env \<Rightarrow> string" where
  "getExactWebOrigin e = (if en_production e then text_or_else (en_WEB_ORIGIN e) ''fail-closed-missing-origin''
     else text_or_else (en_WEB_ORIGIN e) ''http://localhost:5173'')"

definition csrf_check :: "api_env \<Rightarrow> api_request \<Rightarrow> response option" where
  "csrf_check e q =
     (if rq_method q \<in> {''POST'', ''PUT'', ''PATCH'', ''DELETE''} then
        (if truthy (rq_origin q) \<and> rq_origin q \<noteq> Some (getExactWebOrigin e)
           then Some (Response 403 (error_body ''CSRF violation: invalid origin''))
         else if \<not> truthy (rq_origin q) \<and> rq_cookie q \<noteq> CK_NONE
           then Some (Response 403 (error_body ''CSRF violation: missing origin for cookie session''))
         else None)
      else None)"

section \<open>Sessions\<close>

definition day_ms :: int where "day_ms = 24 * 60 * 60 * 1000"

text \<open>The text that the cookie middleware gives for a signed cookie; anything else is not truthy.\<close>

definition session_text :: "api_request \<Rightarrow> string option" where
  "session_text q = (case rq_cookie q of CK_SIGNED s \<Rightarrow> if s = [] then None else Some s | _ \<Rightarrow> None)"

definition number_member :: "json \<Rightarrow> string \<Rightarrow> int option" where
  "number_member v k = (case member_of v k of Some (JNum i) \<Rightarrow> Some i | _ \<Rightarrow> None)"

text \<open>A comparison with something that is no number is false.\<close>

definition both :: "(int \<Rightarrow> int \<Rightarrow> bool) \<Rightarrow> int option \<Rightarrow> int option \<Rightarrow> bool" where
  "both r a b = (case (a, b) of (Some x, Some y) \<Rightarrow> r x y | _ \<Rightarrow> False)"

definition session_in_time :: "json \<Rightarrow> int \<Rightarrow> bool" where
  "session_in_time v now \<longleftrightarrow>
     (let issued = number_member v ''issuedAt''; expires = number_member v ''expiresAt''
      in both (\<le>) issued (Some now) \<and> both (>) expires (Some now) \<and> both (>) expires issued \<and>
         both (\<lambda>x y. x - y \<le> day_ms) expires issued)"

definition is_owner_session :: "json \<Rightarrow> bool" where
  "is_owner_session v \<longleftrightarrow> member_of v ''version'' = Some (JNum 1) \<and> member_of v ''role'' = Some (JStr ''OWNER'')"

definition auth_session :: "json_reader \<Rightarrow> api_request \<Rightarrow> int \<Rightarrow> response" where
  "auth_session rd q now =
     (let answer = (\<lambda>a b. Response 200 (JObj [(''authenticated'', JBool a), (''projectBound'', JBool b)]))
      in (case session_text q of None \<Rightarrow> answer False False
          | Some s \<Rightarrow> (case json_parse rd s of None \<Rightarrow> answer False False
            | Some v \<Rightarrow> if is_truthy (Some v) \<and> is_owner_session v \<and> session_in_time v now
                then answer True (is_truthy (member_of v ''projectId'')) else answer False False)))"

definition session_payload :: "json \<Rightarrow> int \<Rightarrow> json" where
  "session_payload project now =
     JObj [(''version'', JNum 1), (''role'', JStr ''OWNER''), (''projectId'', project), (''issuedAt'', JNum now),
       (''expiresAt'', JNum (now + day_ms))]"

definition misconfigured :: response where
  "misconfigured = Response 500 (error_body ''Server authentication configuration missing'')"

definition unauthorized :: "string \<Rightarrow> response" where
  "unauthorized e = Response 401 (error_body e)"

text \<open>Without a body the handler throws, and the framework answers.\<close>

definition auth_login :: "api_env \<Rightarrow> api_request \<Rightarrow> int \<Rightarrow> response \<times> cookie_order" where
  "auth_login e q now =
     (if \<not> truthy (en_OWNER_BOOTSTRAP_KEY e) \<or> \<not> truthy (en_SESSION_SECRET e) then (misconfigured, CO_KEEP)
      else (case rq_body q of None \<Rightarrow> (failed type_error, CO_KEEP)
        | Some b \<Rightarrow> (case member_of b ''bootstrapKey'' of
            Some (JStr key) \<Rightarrow>
              if key = [] \<or> en_OWNER_BOOTSTRAP_KEY e \<noteq> Some key then (unauthorized ''Unauthorized'', CO_KEEP)
              else (Response 200 (JObj [(''status'', JStr ''ok'')]), CO_SET (session_payload JNull now) day_ms)
          | _ \<Rightarrow> (unauthorized ''Unauthorized'', CO_KEEP))))"

text \<open>\<open>{ ...payload, projectId }\<close>.\<close>

fun with_project :: "json \<Rightarrow> string \<Rightarrow> json" where
  "with_project (JObj kvs) p = JObj (jm_set ''projectId'' (JStr p) kvs)"
| "with_project v p = JObj [(''projectId'', JStr p)]"

definition select_project :: "json_reader \<Rightarrow> api_request \<Rightarrow> int \<Rightarrow> json ledger_db \<Rightarrow> response \<times> cookie_order" where
  "select_project rd q now db =
     (case session_text q of None \<Rightarrow> (unauthorized ''Unauthorized'', CO_KEEP)
      | Some s \<Rightarrow> (case json_parse rd s of None \<Rightarrow> (unauthorized ''Malformed token'', CO_KEEP)
        | Some v \<Rightarrow>
            if \<not> is_truthy (Some v) \<or> member_of v ''version'' \<noteq> Some (JNum 1) \<or>
               both (>) (number_member v ''issuedAt'') (Some now) \<or> both (<) (number_member v ''expiresAt'') (Some now)
              then (unauthorized ''Invalid or expired session'', CO_KEEP)
            else if member_of v ''role'' \<noteq> Some (JStr ''OWNER'') then (Response 403 (error_body ''Forbidden''), CO_KEEP)
            else (case rq_body q of None \<Rightarrow> (failed type_error, CO_KEEP)
              | Some b \<Rightarrow> (case member_of b ''projectId'' of
                  Some (JStr p) \<Rightarrow>
                    if p = [] then (Response 400 (error_body ''Missing projectId''), CO_KEEP)
                    else (case project_of db p of
                        Some pr \<Rightarrow> if pj_lifecycleState pr \<noteq> PJ_ACTIVE
                            then (Response 404 (error_body ''Project not found''), CO_KEEP)
                          else (Response 200 (JObj [(''status'', JStr ''ok''), (''projectId'', JStr p)]),
                            CO_SET (with_project v p) (8 * 60 * 60 * 1000))
                      | None \<Rightarrow> (Response 404 (error_body ''Project not found''), CO_KEEP))
                | _ \<Rightarrow> (Response 400 (error_body ''Missing projectId''), CO_KEEP)))))"

definition auth_logout :: "response \<times> cookie_order" where
  "auth_logout = (Response 200 (JObj [(''status'', JStr ''ok'')]), CO_CLEAR)"

section \<open>The authentication of a request\<close>

fun split_dots :: "string \<Rightarrow> string list" where
  "split_dots [] = [[]]"
| "split_dots (c # s) = (if c = CHR ''.'' then [] # split_dots s
     else (case split_dots s of p # ps \<Rightarrow> (c # p) # ps | [] \<Rightarrow> [[c]]))"

text \<open>The project that a service token proves: \<open>hmac secret project\<close> is the hexadecimal HMAC.\<close>

definition bearer_project :: "(string \<Rightarrow> string \<Rightarrow> string) \<Rightarrow> string \<Rightarrow> string \<Rightarrow> string option" where
  "bearer_project hmac secret token =
     (case split_dots token of [p, sig] \<Rightarrow> if sig = hmac secret p then Some p else None | _ \<Rightarrow> None)"

definition session_context :: "string \<Rightarrow> json \<Rightarrow> int \<Rightarrow> (response + auth_context) option" where
  "session_context path v now =
     (if is_owner_session v \<and> number_member v ''issuedAt'' \<noteq> None \<and> number_member v ''expiresAt'' \<noteq> None \<and>
         (member_of v ''projectId'' = Some JNull \<or> json_str (member_of v ''projectId'') \<noteq> None) \<and> session_in_time v now
      then (let project = (if is_truthy (member_of v ''projectId'') then json_str (member_of v ''projectId'') else None)
            in if project = None \<and> path \<noteq> ''/api/projects''
               then Some (Inl (Response 403 (error_body ''Project context required'')))
               else Some (Inr \<lparr>ac_actorType = API_USER, ac_role = ROLE_OWNER, ac_projectId = project\<rparr>))
      else None)"

definition cookie_context :: "api_env \<Rightarrow> json_reader \<Rightarrow> api_request \<Rightarrow> int \<Rightarrow> response + auth_context" where
  "cookie_context e rd q now =
     (if \<not> truthy (en_SESSION_SECRET e) then Inl misconfigured
      else (case session_text q of None \<Rightarrow> Inl (unauthorized ''Missing or invalid Authentication'')
        | Some s \<Rightarrow> (case json_parse rd s of None \<Rightarrow> Inl (unauthorized ''Missing or invalid Authentication'')
          | Some v \<Rightarrow> (case session_context (rq_path q) v now of
              Some r \<Rightarrow> r | None \<Rightarrow> Inl (unauthorized ''Missing or invalid Authentication'')))))"

definition authenticate ::
  "api_env \<Rightarrow> json_reader \<Rightarrow> (string \<Rightarrow> string \<Rightarrow> string) \<Rightarrow> api_request \<Rightarrow> int \<Rightarrow> response + auth_context" where
  "authenticate e rd hmac q now =
     (case rq_authorization q of
        Some h \<Rightarrow>
          if starts_with h ''Bearer '' then
            (if \<not> truthy (en_API_SERVICE_TOKEN e) then Inl misconfigured
             else (case bearer_project hmac (the (en_API_SERVICE_TOKEN e)) (drop 7 h) of
                 Some p \<Rightarrow> Inr \<lparr>ac_actorType = API_SERVICE, ac_role = ROLE_AGENT, ac_projectId = Some p\<rparr>
               | None \<Rightarrow> cookie_context e rd q now))
          else cookie_context e rd q now
      | None \<Rightarrow> cookie_context e rd q now)"

text \<open>The two checks in front of every route that is not of \<open>/api/auth\<close>.\<close>

definition guarded ::
  "api_env \<Rightarrow> json_reader \<Rightarrow> (string \<Rightarrow> string \<Rightarrow> string) \<Rightarrow> api_request \<Rightarrow> int \<Rightarrow> response + auth_context" where
  "guarded e rd hmac q now = (case csrf_check e q of Some r \<Rightarrow> Inl r | None \<Rightarrow> authenticate e rd hmac q now)"


section \<open>Projects\<close>

text \<open>An answer is rows with a status, or an error with a status.\<close>

datatype 'a reply = RP_OK nat 'a | RP_ERROR nat string

definition internal_error :: "'a reply" where "internal_error = RP_ERROR 500 ''Internal Server Error''"

record project_ids =
  pi_project :: string
  pi_event :: string
  pi_correlation :: string

definition created_event :: "project_ids \<Rightarrow> string \<Rightarrow> string \<Rightarrow> string \<Rightarrow> int \<Rightarrow> json project_event" where
  "created_event ids p name slug now =
     \<lparr>pe_id = pi_event ids, pe_projectId = p, pe_eventType = ''PROJECT_CREATED'', pe_aggregateType = AGG_PROJECT,
      pe_aggregateId = p, pe_aggregateRevision = 1, pe_actorType = OWNER, pe_actorId = ''owner-session'',
      pe_correlationId = pi_correlation ids, pe_causationId = None, pe_schemaVersion = 1,
      pe_payload = JObj [(''name'', JStr name), (''slug'', JStr slug)], pe_occurredAt = now\<rparr>"

text \<open>\<open>now2\<close> is the second reading of the clock, for the new cookie. A name or slug that is no text is refused by the client.\<close>

definition post_project ::
  "auth_context \<Rightarrow> json option \<Rightarrow> project_ids \<Rightarrow> int \<Rightarrow> int \<Rightarrow> json ledger_db \<Rightarrow> (project reply \<times> cookie_order) \<times> json ledger_db" where
  "post_project c body ids now now2 db =
     (if ac_role c \<noteq> ROLE_OWNER then ((RP_ERROR 403 ''Only Owner can create projects'', CO_KEEP), db)
      else (case body of None \<Rightarrow> ((internal_error, CO_KEEP), db)
        | Some b \<Rightarrow>
            if \<not> is_truthy (member_of b ''name'') \<or> \<not> is_truthy (member_of b ''slug'')
              then ((RP_ERROR 400 ''name and slug required'', CO_KEEP), db)
            else if truthy (ac_projectId c) \<and> project_of db (the (ac_projectId c)) \<noteq> None
              then ((RP_ERROR 409 ''Project already exists for this context'', CO_KEEP), db)
            else (let p = (if truthy (ac_projectId c) then the (ac_projectId c) else pi_project ids)
              in (case (json_str (member_of b ''name''), json_str (member_of b ''slug'')) of
                  (Some name, Some slug) \<Rightarrow>
                    (case ps_create (createProject p slug name now) (created_event ids p name slug now) db of
                       (Inl _, db') \<Rightarrow> ((internal_error, CO_KEEP), db')
                     | (Inr created, db') \<Rightarrow> ((RP_OK 201 created,
                         if truthy (ac_projectId c) then CO_KEEP else CO_SET (session_payload (JStr p) now2) day_ms), db'))
                | _ \<Rightarrow> ((internal_error, CO_KEEP), db)))))"

definition get_projects :: "auth_context \<Rightarrow> 'p ledger_db \<Rightarrow> project list reply" where
  "get_projects c db =
     (case ac_projectId c of None \<Rightarrow> RP_ERROR 500 client_error
      | Some p \<Rightarrow> RP_OK 200 (filter (\<lambda>r. pj_id r = p) (ld_projects db)))"

section \<open>Work items, attempts and evidence\<close>

fun kind_of :: "string \<Rightarrow> wi_kind option" where
  "kind_of t = map_of [(''MILESTONE'', MILESTONE), (''FEATURE'', FEATURE), (''TASK'', TASK), (''SUBTASK'', SUBTASK),
     (''RECOVERY_TASK'', RECOVERY_TASK), (''VERIFICATION_TASK'', VERIFICATION_TASK), (''REVIEW_TASK'', REVIEW_TASK),
     (''AUDIT_TASK'', AUDIT_TASK), (''DEPLOYMENT_TASK'', DEPLOYMENT_TASK), (''OWNER_ACTION_TASK'', OWNER_ACTION_TASK),
     (''EXTERNAL_WAIT_TASK'', EXTERNAL_WAIT_TASK)] t"

text \<open>
  The route does not check that the type is one of these: a row with another text is outside the model, and the result
  is \<open>None\<close>.
\<close>

definition post_work_item ::
  "auth_context \<Rightarrow> json option \<Rightarrow> string \<Rightarrow> int \<Rightarrow> work_db \<Rightarrow> (work_item reply \<times> work_db) option" where
  "post_work_item c body fresh now db =
     (if \<not> truthy (ac_projectId c) then Some (RP_ERROR 403 ''Project context required'', db)
      else (case body of None \<Rightarrow> Some (internal_error, db)
        | Some b \<Rightarrow>
            if \<not> is_truthy (member_of b ''objective'') then Some (RP_ERROR 400 ''objective required'', db)
            else (case (json_str (member_of b ''objective''), or_value (member_of b ''type'') (JStr ''TASK'')) of
                (Some objective, JStr t) \<Rightarrow> map_option (\<lambda>k.
                    (case ws_createWorkItem (createWorkItem fresh (the (ac_projectId c)) None k objective None now) db of
                       (Inl _, db') \<Rightarrow> (internal_error, db') | (Inr w, db') \<Rightarrow> (RP_OK 201 w, db'))) (kind_of t)
              | _ \<Rightarrow> Some (internal_error, db))))"

fun wi_state_text :: "wi_state \<Rightarrow> string" where
  "wi_state_text WI_DRAFT = ''DRAFT''"
| "wi_state_text WI_READY = ''READY''"
| "wi_state_text WI_QUEUED = ''QUEUED''"
| "wi_state_text WI_ASSIGNED = ''ASSIGNED''"
| "wi_state_text WI_RUNNING = ''RUNNING''"
| "wi_state_text WI_WAITING = ''WAITING''"
| "wi_state_text WI_BLOCKED = ''BLOCKED''"
| "wi_state_text WI_REVIEW_REQUIRED = ''REVIEW_REQUIRED''"
| "wi_state_text WI_VERIFICATION_REQUIRED = ''VERIFICATION_REQUIRED''"
| "wi_state_text WI_REPAIR_REQUIRED = ''REPAIR_REQUIRED''"
| "wi_state_text WI_RECOVERY_REQUIRED = ''RECOVERY_REQUIRED''"
| "wi_state_text WI_COMPLETED = ''COMPLETED''"
| "wi_state_text WI_CANCELLED = ''CANCELLED''"
| "wi_state_text WI_SUPERSEDED = ''SUPERSEDED''"

text \<open>The route reads the item and then moves it, so the row may have changed in between: two steps.\<close>

definition start_read :: "auth_context \<Rightarrow> string \<Rightarrow> work_db \<Rightarrow> work_item reply + nat" where
  "start_read c i db =
     (if \<not> truthy (ac_projectId c) then Inl (RP_ERROR 403 ''Project context required'')
      else if ac_role c \<noteq> ROLE_OWNER then Inl (RP_ERROR 403 ''Only Owner can dispatch work items'')
      else (case ws_getWorkItem i db of
          (Inl _, _) \<Rightarrow> Inl (RP_ERROR 404 ''WorkItem not found'')
        | (Inr w, _) \<Rightarrow>
            if Some (wi_projectId w) \<noteq> ac_projectId c then Inl (RP_ERROR 403 ''Unauthorized'')
            else if wi_lifecycleState w \<in> {WI_READY, WI_QUEUED} then Inl (RP_OK 200 w)
            else if wi_lifecycleState w \<noteq> WI_DRAFT
              then Inl (RP_ERROR 409 (''Cannot start work item from state '' @ wi_state_text (wi_lifecycleState w)))
            else Inr (wi_revision w)))"

definition start_write :: "string \<Rightarrow> nat \<Rightarrow> work_db \<Rightarrow> work_item reply \<times> work_db" where
  "start_write i revision db =
     (case ws_transitionWorkItem i revision WI_READY db of
        (Inr w, db') \<Rightarrow> (RP_OK 200 w, db')
      | (Inl (RecordNotFound _), db') \<Rightarrow> (RP_ERROR 404 ''WorkItem not found'', db')
      | (Inl (InvalidWorkItemTransitionError f t), db') \<Rightarrow>
          (RP_ERROR 409 (''Invalid WorkItem transition: '' @ wi_state_text f @ '' -> '' @ wi_state_text t), db')
      | (Inl (WorkItemRevisionConflictError _ _), db') \<Rightarrow> (RP_ERROR 409 ''WorkItemRevisionConflictError'', db')
      | (Inl _, db') \<Rightarrow> (internal_error, db'))"

definition get_work_items :: "auth_context \<Rightarrow> work_db \<Rightarrow> work_item list reply" where
  "get_work_items c db =
     (case ac_projectId c of None \<Rightarrow> RP_ERROR 500 client_error
      | Some p \<Rightarrow> RP_OK 200 (filter (\<lambda>w. wi_projectId w = p) (db_items db)))"

definition get_attempts :: "auth_context \<Rightarrow> work_db \<Rightarrow> attempt_row list reply" where
  "get_attempts c db =
     (case ac_projectId c of None \<Rightarrow> RP_ERROR 500 client_error
      | Some p \<Rightarrow> RP_OK 200 (filter (\<lambda>a. at_projectId a = p) (db_attempts db)))"

definition get_evidence :: "auth_context \<Rightarrow> evidence_db \<Rightarrow> evidence_record list reply" where
  "get_evidence c db =
     (case ac_projectId c of None \<Rightarrow> RP_ERROR 500 client_error
      | Some p \<Rightarrow> RP_OK 200 (filter (\<lambda>e. ev_projectId e = p) (et_evidence db)))"

section \<open>The audit log\<close>

text \<open>\<open>parseInt\<close>: blanks, a sign, digits; a text without a digit there is not a number.\<close>

definition parse_int :: "string \<Rightarrow> int option" where
  "parse_int s =
     (let t = dropWhile json_space s;
          (neg, u) = (case t of c # r \<Rightarrow> if c = CHR ''-'' then (True, r) else if c = CHR ''+'' then (False, r) else (False, t)
            | [] \<Rightarrow> (False, []));
          ds = takeWhile is_digit u
      in if ds = [] then None else Some (if neg then - int (number_of ds) else int (number_of ds)))"

definition HOST_ACTION_EVENTS :: "string list" where
  "HOST_ACTION_EVENTS = [''HOST_ACTION_PROPOSED'', ''HOST_ACTION_POLICY_DECIDED'', ''HOST_ACTION_EXECUTION_COMPLETED'',
     ''HOST_ACTION_RECONCILIATION_REQUIRED'']"

text \<open>
  A page of a query: the rows from the cursor on (none when there is no such row), without the cursor itself, and a
  negative number of rows is taken backwards.
\<close>

definition page :: "int \<Rightarrow> string option \<Rightarrow> 'p project_event list \<Rightarrow> 'p project_event list" where
  "page n cursor rows =
     (if n \<ge> 0 then take (nat n) (if truthy cursor then drop 1 (dropWhile (\<lambda>e. Some (pe_id e) \<noteq> cursor) rows) else rows)
      else rev (take (nat (- n)) (if truthy cursor then drop 1 (dropWhile (\<lambda>e. Some (pe_id e) \<noteq> cursor) (rev rows)) else rev rows)))"

definition audit_where :: "string \<Rightarrow> string option \<Rightarrow> 'p project_event \<Rightarrow> bool" where
  "audit_where p attempt e \<longleftrightarrow> pe_projectId e = p \<and> pe_eventType e \<in> set HOST_ACTION_EVENTS \<and>
     (truthy attempt \<longrightarrow> Some (pe_aggregateId e) = attempt \<and> pe_aggregateType e = AGG_ATTEMPT)"

text \<open>
  The route orders by \<open>occurredAt\<close> alone, which is not unique: how the database arranges the rows of a query is the parameter
  \<open>arrange\<close>, and rows of the same time may come in any order, in another one at every query.
\<close>

definition audit_logs :: "auth_context \<Rightarrow> string option \<Rightarrow> string option \<Rightarrow> string option \<Rightarrow>
    ('p project_event list \<Rightarrow> 'p project_event list) \<Rightarrow> 'p ledger_db \<Rightarrow> ('p project_event list \<times> string option) reply" where
  "audit_logs c limit cursor attempt arrange db =
     (case (parse_int (text_or_else limit ''50''), ac_projectId c) of
        (Some n, Some p) \<Rightarrow>
          (let k = min n 100; events = page k cursor (arrange (filter (audit_where p attempt) (ld_events db)))
           in RP_OK 200 (events, if events \<noteq> [] \<and> int (length events) = k then Some (pe_id (last events)) else None))
      | _ \<Rightarrow> RP_ERROR 500 client_error)"


section \<open>Who is let in\<close>

lemma split_dots_nonempty: "split_dots s \<noteq> []" by (induction s) (auto split: list.split)

lemma split_dots_one: "split_dots s = [p] \<longleftrightarrow> s = p \<and> CHR ''.'' \<notin> set p"
proof (induction s arbitrary: p)
  case (Cons c s)
  show ?case
  proof (cases "c = CHR ''.''")
    case True
    then show ?thesis using split_dots_nonempty [of s] by auto
  next
    case False
    obtain q qs where q: "split_dots s = q # qs" using split_dots_nonempty [of s] by (cases "split_dots s") auto
    then show ?thesis using False Cons.IH [of q] Cons.IH by (cases p) auto
  qed
qed auto

lemma split_dots_two: "split_dots s = [p, r] \<longleftrightarrow> s = p @ CHR ''.'' # r \<and> CHR ''.'' \<notin> set p \<and> CHR ''.'' \<notin> set r"
proof (induction s arbitrary: p)
  case (Cons c s)
  show ?case
  proof (cases "c = CHR ''.''")
    case True
    then show ?thesis using split_dots_one [of s r] by (cases p) auto
  next
    case False
    obtain q qs where q: "split_dots s = q # qs" using split_dots_nonempty [of s] by (cases "split_dots s") auto
    then show ?thesis using False Cons.IH [of q] Cons.IH by (cases p) auto
  qed
qed simp

lemma bearer_project_iff:
  "bearer_project hmac secret t = Some p \<longleftrightarrow>
     t = p @ ''.'' @ hmac secret p \<and> CHR ''.'' \<notin> set p \<and> CHR ''.'' \<notin> set (hmac secret p)"
proof -
  have "bearer_project hmac secret t = Some p \<longleftrightarrow> split_dots t = [p, hmac secret p]"
    unfolding bearer_project_def by (auto split: list.split)
  then show ?thesis by (simp add: split_dots_two)
qed

text \<open>A request that carries the token of a project, signed with the service secret.\<close>

definition service_of :: "api_env \<Rightarrow> (string \<Rightarrow> string \<Rightarrow> string) \<Rightarrow> api_request \<Rightarrow> string \<Rightarrow> bool" where
  "service_of e hmac q p \<longleftrightarrow> (\<exists>secret. en_API_SERVICE_TOKEN e = Some secret \<and> secret \<noteq> [] \<and>
     rq_authorization q = Some (''Bearer '' @ p @ ''.'' @ hmac secret p) \<and>
     CHR ''.'' \<notin> set p \<and> CHR ''.'' \<notin> set (hmac secret p))"

text \<open>A request with a signed session of the owner that is in time, and the project it is bound to.\<close>

definition owner_of :: "api_env \<Rightarrow> json_reader \<Rightarrow> api_request \<Rightarrow> int \<Rightarrow> string option \<Rightarrow> bool" where
  "owner_of e rd q now project \<longleftrightarrow> truthy (en_SESSION_SECRET e) \<and>
     (\<exists>s v. rq_cookie q = CK_SIGNED s \<and> s \<noteq> [] \<and> json_parse rd s = Some v \<and> is_owner_session v \<and> session_in_time v now \<and>
        (case project of
           None \<Rightarrow> member_of v ''projectId'' \<in> {Some JNull, Some (JStr [])} \<and> rq_path q = ''/api/projects''
         | Some p \<Rightarrow> member_of v ''projectId'' = Some (JStr p) \<and> p \<noteq> []))"

lemma both_Some: "both r a b \<Longrightarrow> a \<noteq> None \<and> b \<noteq> None" by (auto simp: both_def split: option.splits)

lemma in_time_numbers: "session_in_time v now \<Longrightarrow> number_member v ''issuedAt'' \<noteq> None \<and> number_member v ''expiresAt'' \<noteq> None"
  unfolding session_in_time_def Let_def by (blast dest: both_Some)

lemma session_context_iff:
  "session_context path v now = Some (Inr c) \<longleftrightarrow> is_owner_session v \<and> session_in_time v now \<and>
     ac_actorType c = API_USER \<and> ac_role c = ROLE_OWNER \<and>
     (case ac_projectId c of
        None \<Rightarrow> member_of v ''projectId'' \<in> {Some JNull, Some (JStr [])} \<and> path = ''/api/projects''
      | Some p \<Rightarrow> member_of v ''projectId'' = Some (JStr p) \<and> p \<noteq> [])"
proof (cases "is_owner_session v \<and> session_in_time v now")
  case True
  then have n: "number_member v ''issuedAt'' \<noteq> None" "number_member v ''expiresAt'' \<noteq> None" using in_time_numbers by blast+
  show ?thesis
  proof (cases "member_of v ''projectId''")
    case None
    then show ?thesis by (auto simp: session_context_def json_str_def split: option.split)
  next
    case (Some x)
    then show ?thesis using True n
      by (cases x; cases c) (auto simp: session_context_def json_str_def Let_def split: option.split)
  qed
next
  case False
  then show ?thesis by (auto simp: session_context_def)
qed

lemma cookie_context_iff:
  "cookie_context e rd q now = Inr c \<longleftrightarrow> ac_actorType c = API_USER \<and> ac_role c = ROLE_OWNER \<and> owner_of e rd q now (ac_projectId c)"
proof (cases "rq_cookie q")
  case (CK_SIGNED s)
  have r: "(case r of None \<Rightarrow> Inl x | Some y \<Rightarrow> y) = Inr c \<longleftrightarrow> r = Some (Inr c)" for r :: "(response + auth_context) option" and x
    by (cases r) auto
  show ?thesis using CK_SIGNED
    by (auto simp: cookie_context_def owner_of_def session_text_def r session_context_iff split: option.splits)
qed (auto simp: cookie_context_def owner_of_def session_text_def)


lemma bearer_header:
  "starts_with h ''Bearer '' \<and> bearer_project hmac secret (drop 7 h) = Some p \<longleftrightarrow>
     h = ''Bearer '' @ p @ ''.'' @ hmac secret p \<and> CHR ''.'' \<notin> set p \<and> CHR ''.'' \<notin> set (hmac secret p)"
  by (auto simp: bearer_project_iff starts_with_iff)

text \<open>
  A request is let in as a service of a project exactly when it carries that project's token, and as the owner
  exactly when it carries no such token, a signed owner session that is in time and, if it has a bearer header at all,
  the service secret is configured; a session without a project gets no further than the list of projects.
\<close>

theorem authenticate_iff:
  "authenticate e rd hmac q now = Inr c \<longleftrightarrow>
     (\<exists>p. service_of e hmac q p \<and> c = \<lparr>ac_actorType = API_SERVICE, ac_role = ROLE_AGENT, ac_projectId = Some p\<rparr>) \<or>
     ((\<nexists>p. service_of e hmac q p) \<and>
      ((\<exists>h. rq_authorization q = Some h \<and> starts_with h ''Bearer '') \<longrightarrow> truthy (en_API_SERVICE_TOKEN e)) \<and>
      owner_of e rd q now (ac_projectId c) \<and> ac_actorType c = API_USER \<and> ac_role c = ROLE_OWNER)"
proof (cases "\<exists>h. rq_authorization q = Some h \<and> starts_with h ''Bearer ''")
  case False
  then have "\<nexists>p. service_of e hmac q p" by (auto simp: service_of_def starts_with_iff)
  then show ?thesis using False cookie_context_iff [of e rd q now c] by (auto simp: authenticate_def split: option.split)
next
  case True
  then obtain h where h: "rq_authorization q = Some h" "starts_with h ''Bearer ''" by blast
  show ?thesis
  proof (cases "en_API_SERVICE_TOKEN e")
    case None
    then show ?thesis using h by (simp add: authenticate_def service_of_def)
  next
    case (Some secret)
    have s: "service_of e hmac q p \<longleftrightarrow> secret \<noteq> [] \<and> bearer_project hmac secret (drop 7 h) = Some p" for p
      using bearer_header [of h hmac secret p] h Some by (auto simp: service_of_def)
    show ?thesis
      unfolding s using h Some cookie_context_iff [of e rd q now c]
      by (cases "bearer_project hmac secret (drop 7 h)") (auto simp: authenticate_def)
  qed
qed

section \<open>How long an owner stays in\<close>

text \<open>
  The sessions that this server has signed. A login is recorded with its body; a signed cookie of a request is one of
  those that were signed before. Between the authentication of a request and the end of its handler passes at most
  \<open>d\<close>.
\<close>

record session_world =
  sw_logins :: "(int \<times> json) list"
  sw_cookies :: "json list"

definition honest :: "session_world \<Rightarrow> api_request \<Rightarrow> bool" where
  "honest w q \<longleftrightarrow> (\<forall>s. rq_cookie q = CK_SIGNED s \<longrightarrow> (\<exists>v \<in> set (sw_cookies w). s = json_text v))"

inductive session_step ::
  "api_env \<Rightarrow> json_reader \<Rightarrow> (string \<Rightarrow> string \<Rightarrow> string) \<Rightarrow> int \<Rightarrow> session_world \<Rightarrow> session_world \<Rightarrow> bool"
  for e rd hmac d where
  step_login: "auth_login e q now = (r, CO_SET v age) \<Longrightarrow> rq_body q = Some b \<Longrightarrow>
     session_step e rd hmac d w (w\<lparr>sw_logins := (now, b) # sw_logins w, sw_cookies := v # sw_cookies w\<rparr>)"
| step_select: "honest w q \<Longrightarrow> select_project rd q now db = (r, CO_SET v age) \<Longrightarrow>
     session_step e rd hmac d w (w\<lparr>sw_cookies := v # sw_cookies w\<rparr>)"
| step_project: "honest w q \<Longrightarrow> guarded e rd hmac q now = Inr c \<Longrightarrow> now \<le> now2 \<Longrightarrow> now2 \<le> now + d \<Longrightarrow> pi_project ids \<noteq> [] \<Longrightarrow>
     post_project c body ids now1 now2 db = ((r, CO_SET v age), db') \<Longrightarrow>
     session_step e rd hmac d w (w\<lparr>sw_cookies := v # sw_cookies w\<rparr>)"

inductive session_reach ::
  "api_env \<Rightarrow> json_reader \<Rightarrow> (string \<Rightarrow> string \<Rightarrow> string) \<Rightarrow> int \<Rightarrow> session_world \<Rightarrow> bool" for e rd hmac d where
  sessions_new: "session_reach e rd hmac d \<lparr>sw_logins = [], sw_cookies = []\<rparr>"
| sessions_next: "session_reach e rd hmac d w \<Longrightarrow> session_step e rd hmac d w w' \<Longrightarrow> session_reach e rd hmac d w'"

definition key_login :: "api_env \<Rightarrow> session_world \<Rightarrow> int \<Rightarrow> bool" where
  "key_login e w t \<longleftrightarrow> (\<exists>b k. (t, b) \<in> set (sw_logins w) \<and> member_of b ''bootstrapKey'' = Some (JStr k) \<and>
     en_OWNER_BOOTSTRAP_KEY e = Some k)"

text \<open>A session is from a login and not bound to a project, or its time began within a day and \<open>d\<close> of a login.\<close>

definition cookie_ok :: "api_env \<Rightarrow> int \<Rightarrow> session_world \<Rightarrow> json \<Rightarrow> bool" where
  "cookie_ok e d w v \<longleftrightarrow> (\<exists>t. key_login e w t \<and> v = session_payload JNull t) \<or>
     (\<exists>t u p. key_login e w t \<and> p \<noteq> [] \<and> v = session_payload (JStr p) u \<and> t \<le> u \<and> u < t + day_ms + d)"

lemma payload_members [simp]:
  "member_of (session_payload p u) ''version'' = Some (JNum 1)"
  "member_of (session_payload p u) ''role'' = Some (JStr ''OWNER'')"
  "member_of (session_payload p u) ''projectId'' = Some p"
  "number_member (session_payload p u) ''issuedAt'' = Some u"
  "number_member (session_payload p u) ''expiresAt'' = Some (u + day_ms)"
  by (simp_all add: session_payload_def number_member_def)

lemma payload_text: "json_text (session_payload p u) \<noteq> []" by (simp add: session_payload_def)

lemma payload_truthy: "is_truthy (Some (session_payload p u))" by (simp add: session_payload_def)

lemma payload_in_time: "session_in_time (session_payload p u) now \<longleftrightarrow> u \<le> now \<and> now < u + day_ms"
  by (auto simp: session_in_time_def both_def day_ms_def Let_def)

lemma payload_select: "with_project (session_payload p u) q = session_payload (JStr q) u"
  by (simp add: session_payload_def)

lemma payload_read:
  assumes "integer_reader rd" and "p = JNull \<or> (\<exists>s. p = JStr s)"
  shows "json_parse rd (json_text (session_payload p u)) = Some (session_payload p u)"
  by (rule json_parse_text [OF assms(1)]) (use assms(2) in \<open>auto simp: session_payload_def\<close>)

lemma cookie_read:
  assumes rd: "integer_reader rd" and h: "honest w q" "\<forall>v \<in> set (sw_cookies w). cookie_ok e d w v" and s: "rq_cookie q = CK_SIGNED s"
  shows "\<exists>v. json_parse rd s = Some v \<and> cookie_ok e d w v"
proof -
  obtain v where v: "v \<in> set (sw_cookies w)" "s = json_text v" using h(1) s by (auto simp: honest_def)
  then have "cookie_ok e d w v" using h(2) by blast
  moreover have "json_parse rd (json_text v) = Some v"
    using calculation payload_read [OF rd] by (auto simp: cookie_ok_def)
  ultimately show ?thesis using v by blast
qed

lemma session_text_Some: "session_text q = Some s \<longleftrightarrow> rq_cookie q = CK_SIGNED s \<and> s \<noteq> []"
  by (auto simp: session_text_def split: session_cookie.split)


lemma authenticated_owner:
  "authenticate e rd hmac q now = Inr c \<Longrightarrow> ac_role c = ROLE_OWNER \<Longrightarrow> owner_of e rd q now (ac_projectId c)"
  unfolding authenticate_def by (auto simp: cookie_context_iff split: option.splits if_splits)

lemma key_login_later: "key_login e w t \<Longrightarrow> key_login e (w\<lparr>sw_logins := x # sw_logins w, sw_cookies := cs\<rparr>) t"
  "key_login e w t \<Longrightarrow> key_login e (w\<lparr>sw_cookies := cs\<rparr>) t"
  by (auto simp: key_login_def)

lemma cookie_ok_later: "cookie_ok e d w v \<Longrightarrow> cookie_ok e d (w\<lparr>sw_logins := x # sw_logins w, sw_cookies := cs\<rparr>) v"
  "cookie_ok e d w v \<Longrightarrow> cookie_ok e d (w\<lparr>sw_cookies := cs\<rparr>) v"
  unfolding cookie_ok_def using key_login_later by blast+

lemma cookie_ok_select:
  assumes "cookie_ok e d w u" and "p \<noteq> []" and "0 \<le> d"
  shows "cookie_ok e d w (with_project u p)"
proof -
  obtain t u' x where t: "key_login e w t" "u = session_payload x u'" "t \<le> u'" "u' < t + day_ms + d"
    using assms(1,3) unfolding cookie_ok_def by (force simp: day_ms_def)
  then show ?thesis using assms(2) unfolding cookie_ok_def t(2) payload_select by blast
qed

lemma login_cookie:
  assumes "auth_login e q now = (r, CO_SET v age)" and "rq_body q = Some b"
  shows "v = session_payload JNull now \<and> (\<exists>k. member_of b ''bootstrapKey'' = Some (JStr k) \<and> en_OWNER_BOOTSTRAP_KEY e = Some k)"
  using assms by (auto simp: auth_login_def split: if_splits option.splits json.splits)

lemma select_cookie:
  assumes "select_project rd q now db = (r, CO_SET v age)"
  shows "\<exists>s u p. rq_cookie q = CK_SIGNED s \<and> json_parse rd s = Some u \<and> p \<noteq> [] \<and> v = with_project u p"
  using assms by (auto simp: select_project_def session_text_Some split: if_splits option.splits json.splits)

lemma project_cookie:
  assumes "post_project c body ids now1 now2 db = ((r, CO_SET v age), db')"
  shows "ac_role c = ROLE_OWNER \<and> \<not> truthy (ac_projectId c) \<and> v = session_payload (JStr (pi_project ids)) now2"
  using assms
  by (auto simp: post_project_def Let_def split: if_splits option.splits prod.splits sum.splits)

text \<open>An owner's request carries a session that is in order.\<close>

lemma owner_cookie:
  assumes rd: "integer_reader rd" and h: "honest w q" "\<forall>v \<in> set (sw_cookies w). cookie_ok e d w v"
    and c: "authenticate e rd hmac q now = Inr c" "ac_role c = ROLE_OWNER"
  shows "\<exists>v. cookie_ok e d w v \<and> session_in_time v now \<and>
    (ac_projectId c = None \<longrightarrow> member_of v ''projectId'' \<in> {Some JNull, Some (JStr [])}) \<and> ac_projectId c \<noteq> Some []"
proof -
  obtain s v where v: "rq_cookie q = CK_SIGNED s" "json_parse rd s = Some v" "session_in_time v now"
    "ac_projectId c = None \<longrightarrow> member_of v ''projectId'' \<in> {Some JNull, Some (JStr [])}" "ac_projectId c \<noteq> Some []"
    using authenticated_owner [OF c] by (auto simp: owner_of_def split: option.splits)
  then show ?thesis using cookie_read [OF rd h v(1)] by auto
qed

lemma sessions_in_order:
  assumes "session_reach e rd hmac d w" and rd: "integer_reader rd" and d: "0 \<le> d"
  shows "\<forall>v \<in> set (sw_cookies w). cookie_ok e d w v"
  using assms(1)
proof (induction rule: session_reach.induct)
  case (sessions_next w w')
  note ih = sessions_next.IH
  from sessions_next.hyps(2) show ?case
  proof cases
    case (step_login q now r v age b)
    have "key_login e w' now" using login_cookie [OF step_login(2,3)] step_login(1) by (auto simp: key_login_def)
    then have "cookie_ok e d w' v" using login_cookie [OF step_login(2,3)] by (auto simp: cookie_ok_def)
    then show ?thesis using ih step_login(1) by (auto intro: cookie_ok_later)
  next
    case (step_select q now db r v age)
    obtain s u p where s: "rq_cookie q = CK_SIGNED s" "json_parse rd s = Some u" "p \<noteq> []" "v = with_project u p"
      using select_cookie [OF step_select(3)] by blast
    have "cookie_ok e d w u" using cookie_read [OF rd step_select(2) ih s(1)] s(2) by simp
    then have "cookie_ok e d w v" unfolding s(4) using s(3) d by (rule cookie_ok_select)
    then show ?thesis using ih step_select(1) by (auto intro: cookie_ok_later)
  next
    case (step_project q now c now2 ids body now1 db r v age db')
    have pc: "ac_role c = ROLE_OWNER" "\<not> truthy (ac_projectId c)" "v = session_payload (JStr (pi_project ids)) now2"
      using project_cookie [OF step_project(7)] by auto
    have auth: "authenticate e rd hmac q now = Inr c" using step_project(3) by (auto simp: guarded_def split: option.splits)
    obtain u where u: "cookie_ok e d w u" "session_in_time u now"
      "ac_projectId c = None \<longrightarrow> member_of u ''projectId'' \<in> {Some JNull, Some (JStr [])}" "ac_projectId c \<noteq> Some []"
      using owner_cookie [OF rd step_project(2) ih auth pc(1)] by (elim exE conjE) (rule that; assumption)
    have "ac_projectId c = None" using pc(2) u(4) by (cases "ac_projectId c") auto
    then obtain t where t: "key_login e w t" "u = session_payload JNull t" using u(1,3) by (auto simp: cookie_ok_def)
    then have "t \<le> now2" "now2 < t + day_ms + d" using u(2) step_project(4,5) by (auto simp: payload_in_time)
    then have "cookie_ok e d w v" using t pc(3) step_project(6) by (auto simp: cookie_ok_def)
    then show ?thesis using ih step_project(1) by (auto intro: cookie_ok_later)
  qed
qed simp

text \<open>
  C35: Whoever is let in as the owner holds a session that goes back to a login with the bootstrap key, at most two days
  (and the duration of one request) ago: creating a project from a session without a project signs a new session once.
\<close>

theorem owner_needs_a_recent_login:
  assumes "integer_reader rd" and "0 \<le> d" and "session_reach e rd hmac d w" and "honest w q"
    and "authenticate e rd hmac q now = Inr c" and "ac_role c = ROLE_OWNER"
  shows "\<exists>t b k. (t, b) \<in> set (sw_logins w) \<and> member_of b ''bootstrapKey'' = Some (JStr k) \<and>
    en_OWNER_BOOTSTRAP_KEY e = Some k \<and> t \<le> now \<and> now < t + 2 * day_ms + d"
proof -
  obtain v where v: "cookie_ok e d w v" "session_in_time v now"
    using owner_cookie [OF assms(1,4) sessions_in_order [OF assms(3,1,2)] assms(5,6)] by blast
  obtain t where "key_login e w t" "t \<le> now" "now < t + 2 * day_ms + d"
    using v(1) unfolding cookie_ok_def
  proof (elim disjE exE conjE)
    fix t assume t: "key_login e w t" "v = session_payload JNull t" "\<And>t. key_login e w t \<Longrightarrow> t \<le> now \<Longrightarrow> now < t + 2 * day_ms + d \<Longrightarrow> thesis"
    then show thesis using v(2) assms(2) t(3) [OF t(1)] by (simp add: payload_in_time day_ms_def)
  next
    fix t u p assume t: "key_login e w t" "v = session_payload (JStr p) u" "t \<le> u" "u < t + day_ms + d"
      "\<And>t. key_login e w t \<Longrightarrow> t \<le> now \<Longrightarrow> now < t + 2 * day_ms + d \<Longrightarrow> thesis"
    then show thesis using v(2) t(5) [OF t(1)] by (simp add: payload_in_time)
  qed
  then show ?thesis unfolding key_login_def by blast
qed


section \<open>A sample session\<close>

definition plain_number :: "string \<Rightarrow> json" where
  "plain_number s = JNum (if starts_with s ''-'' then - int (number_of (tl s)) else int (number_of s))"

definition plain_reader :: json_reader where
  "plain_reader = \<lparr>jr_number = plain_number, jr_wide = (\<lambda>_. [])\<rparr>"

lemma plain_reader_integers: "integer_reader plain_reader"
proof -
  have "\<not> starts_with (digits_of n) ''-''" for n
  proof -
    obtain c r where c: "digits_of n = c # r" using digits_of_nonempty by (cases "digits_of n") auto
    then have "is_digit c" using digits_of_digits [of c n] by simp
    then show ?thesis unfolding c by (auto simp: is_digit_def)
  qed
  then show ?thesis by (simp add: integer_reader_def plain_reader_def plain_number_def show_int_def)
qed

definition sample_env :: api_env where
  "sample_env = \<lparr>en_production = False, en_WEB_ORIGIN = None, en_SESSION_SECRET = Some ''s'', en_API_SERVICE_TOKEN = Some ''t'',
     en_OWNER_BOOTSTRAP_KEY = Some ''k''\<rparr>"

definition sample_hmac :: "string \<Rightarrow> string \<Rightarrow> string" where "sample_hmac secret p = secret @ p"

definition sample_login :: api_request where
  "sample_login = \<lparr>rq_method = ''POST'', rq_origin = Some ''http://localhost:5173'', rq_path = ''/api/auth/login'',
     rq_authorization = None, rq_cookie = CK_NONE, rq_body = Some (JObj [(''bootstrapKey'', JStr ''k'')])\<rparr>"

definition sample_get :: "json \<Rightarrow> api_request" where
  "sample_get v = \<lparr>rq_method = ''GET'', rq_origin = None, rq_path = ''/api/projects'', rq_authorization = None,
     rq_cookie = CK_SIGNED (json_text v), rq_body = None\<rparr>"

definition sample_sessions :: session_world where
  "sample_sessions = \<lparr>sw_logins = [(5, JObj [(''bootstrapKey'', JStr ''k'')])], sw_cookies = [session_payload JNull 5]\<rparr>"

lemma sample_sessions_reach: "session_reach sample_env plain_reader sample_hmac 0 sample_sessions"
proof -
  have "auth_login sample_env sample_login 5 = (Response 200 (JObj [(''status'', JStr ''ok'')]), CO_SET (session_payload JNull 5) day_ms)"
    "rq_body sample_login = Some (JObj [(''bootstrapKey'', JStr ''k'')])"
    by (simp_all add: auth_login_def sample_env_def sample_login_def)
  from sessions_next [OF sessions_new step_login [OF this]] show ?thesis by (simp add: sample_sessions_def)
qed

definition sample_owner :: auth_context where
  "sample_owner = \<lparr>ac_actorType = API_USER, ac_role = ROLE_OWNER, ac_projectId = None\<rparr>"

lemma sample_authenticated: "authenticate sample_env plain_reader sample_hmac (sample_get (session_payload JNull 5)) 6 = Inr sample_owner"
proof -
  have "owner_of sample_env plain_reader (sample_get (session_payload JNull 5)) 6 None"
    using payload_read [OF plain_reader_integers, of JNull 5] payload_text [of JNull 5]
    by (auto simp: owner_of_def sample_env_def sample_get_def is_owner_session_def payload_in_time day_ms_def
      intro!: exI [of _ "session_payload JNull 5"])
  then have "cookie_context sample_env plain_reader (sample_get (session_payload JNull 5)) 6 = Inr sample_owner"
    by (simp add: cookie_context_iff sample_owner_def)
  then show ?thesis by (simp add: authenticate_def sample_get_def)
qed

theorem owner_needs_a_recent_login_witness:
  "\<exists>t b k. (t, b) \<in> set (sw_logins sample_sessions) \<and> member_of b ''bootstrapKey'' = Some (JStr k) \<and>
     en_OWNER_BOOTSTRAP_KEY sample_env = Some k \<and> t \<le> 6 \<and> 6 < t + 2 * day_ms + 0"
proof (rule owner_needs_a_recent_login [OF plain_reader_integers _ sample_sessions_reach _ sample_authenticated])
  show "honest sample_sessions (sample_get (session_payload JNull 5))"
    by (simp add: honest_def sample_sessions_def sample_get_def)
qed (simp_all add: sample_owner_def)

theorem authenticate_iff_witness:
  "authenticate sample_env plain_reader sample_hmac
     \<lparr>rq_method = ''GET'', rq_origin = None, rq_path = ''/api/attempts'', rq_authorization = Some ''Bearer p1.tp1'',
      rq_cookie = CK_NONE, rq_body = None\<rparr> 6 =
   Inr \<lparr>ac_actorType = API_SERVICE, ac_role = ROLE_AGENT, ac_projectId = Some ''p1''\<rparr>"
  by (subst authenticate_iff) (simp add: service_of_def sample_env_def sample_hmac_def)

section \<open>Starting a work item\<close>

text \<open>
  C36: A start request that was not answered after its reading step came from the owner, for an item of the project of
  the session. Whatever happened to the work tables before its writing step, that step makes the item READY with the
  next revision if the item was not moved since, and was thus still a DRAFT, and otherwise answers 409 and changes nothing.
\<close>

theorem start_moves_own_draft_items:
  assumes "start_read c i db = Inr n" and "ws_reach db db'"
  shows "\<exists>w. item_of db' i = Some w \<and> ac_role c = ROLE_OWNER \<and> ac_projectId c = Some (wi_projectId w) \<and>
    (if wi_revision w = n
     then wi_lifecycleState w = WI_DRAFT \<and> start_write i n db' = (RP_OK 200 (moved_item db' WI_READY w),
       with_item db' i (\<lambda>r. wi_revision r = n) (moved_item db' WI_READY))
     else start_write i n db' = (RP_ERROR 409 ''WorkItemRevisionConflictError'', db'))"
proof -
  obtain v where v: "item_of db i = Some v" "wi_revision v = n" "wi_lifecycleState v = WI_DRAFT"
    "ac_projectId c = Some (wi_projectId v)" "ac_role c = ROLE_OWNER"
    using assms(1) by (auto simp: start_read_def ws_getWorkItem_def split: if_splits option.splits)
  obtain w where w: "item_of db' i = Some w" "item_later v w" using item_later_reach [OF assms(2) v(1)] by blast
  then show ?thesis using v by (auto simp: item_later_def start_write_def transitionWorkItem_eq)
qed

definition sample_session :: auth_context where
  "sample_session = \<lparr>ac_actorType = API_USER, ac_role = ROLE_OWNER, ac_projectId = Some ''p1''\<rparr>"

definition sample_draft_db :: work_db where
  "sample_draft_db = \<lparr>db_items = [createWorkItem ''w1'' ''p1'' None TASK ''x'' None 3], db_attempts = [], db_now = 4\<rparr>"

theorem start_moves_own_draft_items_witness:
  "\<exists>w. item_of sample_draft_db ''w1'' = Some w \<and> ac_projectId sample_session = Some (wi_projectId w)"
proof -
  have "start_read sample_session ''w1'' sample_draft_db = Inr 1"
    by (simp add: start_read_def sample_session_def sample_draft_db_def ws_getWorkItem_def item_of_def createWorkItem_def)
  from start_moves_own_draft_items [OF this ws_here] show ?thesis by blast
qed

section \<open>Reading the audit log page by page\<close>

text \<open>
  A client that asks for the next page as long as it is given a cursor; each of its requests meets the database as it is by then,
  and the order in which that query arranges the rows. \<open>None\<close>: an error, or the requests are used up.
\<close>

type_synonym 'p audit_query = "('p project_event list \<Rightarrow> 'p project_event list) \<times> 'p ledger_db"

fun all_pages :: "'p audit_query list \<Rightarrow> auth_context \<Rightarrow> string \<Rightarrow> string option \<Rightarrow> string option \<Rightarrow> 'p project_event list option" where
  "all_pages [] c limit cursor attempt = None"
| "all_pages ((arrange, db) # qs) c limit cursor attempt =
     (case audit_logs c (Some limit) cursor attempt arrange db of
        RP_OK _ (events, None) \<Rightarrow> Some events
      | RP_OK _ (events, Some next) \<Rightarrow> map_option ((@) events) (all_pages qs c limit (Some next) attempt)
      | RP_ERROR _ _ \<Rightarrow> None)"

text \<open>Events are only ever added to the database.\<close>

fun growing :: "'p audit_query list \<Rightarrow> bool" where
  "growing [] = True"
| "growing [q] = True"
| "growing (q # q' # qs) \<longleftrightarrow> set (ld_events (snd q)) \<subseteq> set (ld_events (snd q')) \<and> growing (q' # qs)"

lemma growing_last: "growing (q # qs) \<Longrightarrow> set (ld_events (snd q)) \<subseteq> set (ld_events (snd (last (q # qs))))"
proof (induction qs arbitrary: q)
  case (Cons q' qs)
  then have more: "set (ld_events (snd q)) \<subseteq> set (ld_events (snd q'))" "growing (q' # qs)" by simp_all
  have "last (q # q' # qs) = last (q' # qs)" by simp
  then show ?case using subset_trans [OF more(1) Cons.IH [OF more(2)]] by simp
qed simp

definition asked :: "auth_context \<Rightarrow> string option \<Rightarrow> 'p ledger_db \<Rightarrow> 'p project_event set" where
  "asked c attempt db = {e \<in> set (ld_events db). \<exists>p. ac_projectId c = Some p \<and> audit_where p attempt e}"

text \<open>
  By time, and rows of one time by \<open>rank\<close>: what the database is assumed to do is to arrange the rows by time, as it was asked, and
  to give rows of one time in the same order at every query. When no two rows share a time, this says no more than that they
  come by time.
\<close>

definition precedes :: "('p project_event \<Rightarrow> nat) \<Rightarrow> 'p project_event \<Rightarrow> 'p project_event \<Rightarrow> bool" where
  "precedes rank d e \<longleftrightarrow> pe_occurredAt d < pe_occurredAt e \<or> pe_occurredAt d = pe_occurredAt e \<and> rank d < rank e"

definition same_order :: "('p project_event \<Rightarrow> nat) \<Rightarrow> auth_context \<Rightarrow> string option \<Rightarrow> 'p audit_query \<Rightarrow> bool" where
  "same_order rank c attempt q = (case (q, ac_projectId c) of
     ((arrange, db), Some p) \<Rightarrow> let rows = filter (audit_where p attempt) (ld_events db) in
       mset (arrange rows) = mset rows \<and> sorted_wrt (precedes rank) (arrange rows)
   | _ \<Rightarrow> False)"

lemma times_suffice:
  assumes "ac_projectId c = Some p" "distinct (ld_events db)" "inj_on pe_occurredAt (asked c attempt db)"
    and "\<forall>rows. mset (arrange rows) = mset rows \<and> sorted (map pe_occurredAt (arrange rows))"
  shows "same_order rank c attempt (arrange, db)"
proof -
  let ?rows = "filter (audit_where p attempt) (ld_events db)"
  have ms: "mset (arrange ?rows) = mset ?rows" "sorted (map pe_occurredAt (arrange ?rows))" using assms(4) by blast+
  have "distinct (arrange ?rows)" using mset_eq_imp_distinct_iff [OF ms(1)] assms(2) by simp
  moreover have "inj_on pe_occurredAt (set (arrange ?rows))"
    using mset_eq_setD [OF ms(1)] assms(1,3) by (auto simp: asked_def)
  ultimately have "sorted_wrt (<) (map pe_occurredAt (arrange ?rows))"
    using ms(2) by (simp add: strict_sorted_iff distinct_map)
  then have "sorted_wrt (precedes rank) (arrange ?rows)"
    unfolding sorted_wrt_map by (rule sorted_wrt_mono_rel [rotated]) (simp add: precedes_def)
  then show ?thesis using ms(1) assms(1) by (simp add: same_order_def Let_def)
qed

text \<open>What stands behind the cursor are the rows that its row precedes.\<close>

definition behind :: "('p project_event \<Rightarrow> nat) \<Rightarrow> 'p project_event option \<Rightarrow> 'p project_event \<Rightarrow> bool" where
  "behind rank cur e \<longleftrightarrow> (case cur of None \<Rightarrow> True | Some d \<Rightarrow> precedes rank d e)"

lemma rows_behind:
  assumes "sorted_wrt (precedes rank) es" "inj_on pe_id (set es)" "d \<in> set es"
  shows "drop 1 (dropWhile (\<lambda>e. Some (pe_id e) \<noteq> Some (pe_id d)) es) = filter (precedes rank d) es"
proof -
  obtain xs ys where es: "es = xs @ d # ys" using assms(3) by (meson split_list)
  have lt: "\<forall>e \<in> set xs. precedes rank e d" "\<forall>e \<in> set ys. precedes rank d e"
    using assms(1) by (auto simp: es sorted_wrt_append)
  have no: "\<not> precedes rank d d" "precedes rank e d \<Longrightarrow> \<not> precedes rank d e" for e by (auto simp: precedes_def)
  have ne: "pe_id e \<noteq> pe_id d" if e: "e \<in> set xs" for e
  proof
    assume "pe_id e = pe_id d"
    then have "e = d" using assms(2) e by (auto simp: es inj_on_def)
    then show False using lt(1) e no(1) by blast
  qed
  have "dropWhile (\<lambda>e. Some (pe_id e) \<noteq> Some (pe_id d)) (xs @ d # ys) = d # ys"
    using ne by (subst dropWhile_append2) auto
  moreover have "filter (precedes rank d) es = ys"
    using lt no by (auto simp: es filter_empty_conv filter_id_conv)
  ultimately show ?thesis by (simp add: es)
qed

definition names_rows :: "'p ledger_db \<Rightarrow> bool" where
  "names_rows db \<longleftrightarrow> distinct (map pe_id (ld_events db)) \<and> (\<forall>e \<in> set (ld_events db). pe_id e \<noteq> [])"

lemma page_behind:
  assumes "same_order rank c attempt (arrange, db)" "parse_int limit = Some n" "limit \<noteq> []" "1 \<le> n" "names_rows db"
    and "\<forall>d. cur = Some d \<longrightarrow> d \<in> asked c attempt db"
  obtains rows where "sorted_wrt (precedes rank) rows" "set rows = {e \<in> asked c attempt db. behind rank cur e}"
    "audit_logs c (Some limit) (map_option pe_id cur) attempt arrange db =
      (let es = take (nat (min n 100)) rows in RP_OK 200 (es, if int (length es) = min n 100 then Some (pe_id (last es)) else None))"
proof -
  obtain p where p: "ac_projectId c = Some p" using assms(1) by (auto simp: same_order_def split: option.splits)
  let ?all = "arrange (filter (audit_where p attempt) (ld_events db))"
  have ms: "mset ?all = mset (filter (audit_where p attempt) (ld_events db))" and srt: "sorted_wrt (precedes rank) ?all"
    using assms(1) p by (simp_all add: same_order_def Let_def)
  have set_all: "set ?all = asked c attempt db" using mset_eq_setD [OF ms] p by (auto simp: asked_def)
  let ?rows = "filter (behind rank cur) ?all"
  have inj: "inj_on pe_id (set ?all)"
    using assms(5) set_all by (auto simp: names_rows_def asked_def distinct_map intro: inj_on_subset)
  have pg: "page (min n 100) (map_option pe_id cur) ?all = take (nat (min n 100)) ?rows"
  proof (cases cur)
    case None
    then show ?thesis using assms(4) by (simp add: page_def truthy_def behind_def)
  next
    case (Some d)
    have d: "d \<in> set ?all" "pe_id d \<noteq> []" using assms(5,6) Some set_all by (auto simp: asked_def names_rows_def)
    show ?thesis using rows_behind [OF srt inj d(1)] d(2) assms(4) by (simp add: page_def truthy_def behind_def [abs_def] Some)
  qed
  show thesis
  proof (rule that [of ?rows])
    show "sorted_wrt (precedes rank) ?rows" using srt by (rule sorted_wrt_filter)
    show "set ?rows = {e \<in> asked c attempt db. behind rank cur e}" using set_all by auto
    show "audit_logs c (Some limit) (map_option pe_id cur) attempt arrange db =
      (let es = take (nat (min n 100)) ?rows in RP_OK 200 (es, if int (length es) = min n 100 then Some (pe_id (last es)) else None))"
      using pg p assms(2-4) by (auto simp: audit_logs_def text_or_else_def truthy_def Let_def)
  qed
qed

text \<open>What the requests from a cursor on return, and that enough of them return.\<close>

definition pages_good :: "('p project_event \<Rightarrow> nat) \<Rightarrow> auth_context \<Rightarrow> string option \<Rightarrow> 'p project_event option \<Rightarrow>
    'p audit_query list \<Rightarrow> 'p project_event list \<Rightarrow> bool" where
  "pages_good rank c attempt cur qs es \<longleftrightarrow> sorted_wrt (precedes rank) es \<and> (\<forall>e \<in> set es. behind rank cur e) \<and>
     {e \<in> asked c attempt (snd (hd qs)). behind rank cur e} \<subseteq> set es \<and> set es \<subseteq> asked c attempt (snd (last qs))"

lemma precedes_trans: "precedes rank d e \<Longrightarrow> precedes rank e f \<Longrightarrow> precedes rank d f"
  by (auto simp: precedes_def)

lemma sorted_wrt_last: "sorted_wrt P es \<Longrightarrow> e \<in> set es \<Longrightarrow> e = last es \<or> P e (last es)"
  by (induction es) auto

lemma sorted_wrt_distinct: "sorted_wrt P es \<Longrightarrow> (\<And>e. \<not> P e e) \<Longrightarrow> distinct es"
  by (induction es) auto

lemma all_pages_from:
  assumes "parse_int limit = Some n" "limit \<noteq> []" "1 \<le> n"
  shows "growing qs \<Longrightarrow> qs \<noteq> [] \<Longrightarrow> \<forall>q \<in> set qs. same_order rank c attempt q \<and> names_rows (snd q) \<Longrightarrow>
    \<forall>d. cur = Some d \<longrightarrow> d \<in> asked c attempt (snd (hd qs)) \<Longrightarrow>
    card {e \<in> asked c attempt (snd (last qs)). behind rank cur e} < length qs \<Longrightarrow>
    \<exists>es. all_pages qs c limit (map_option pe_id cur) attempt = Some es \<and> pages_good rank c attempt cur qs es"
proof (induction qs arbitrary: cur)
  case (Cons q qs)
  obtain arrange db where q: "q = (arrange, db)" by force
  let ?k = "nat (min n 100)" and ?last = "snd (last (q # qs))"
  have k: "0 < ?k" "int ?k = min n 100" using assms(3) by auto
  obtain rows where rows: "sorted_wrt (precedes rank) rows" "set rows = {e \<in> asked c attempt db. behind rank cur e}"
    and page: "audit_logs c (Some limit) (map_option pe_id cur) attempt arrange db =
      (let es = take ?k rows in RP_OK 200 (es, if int (length es) = min n 100 then Some (pe_id (last es)) else None))"
    by (rule page_behind [of rank c attempt arrange db limit n cur, OF _ assms]) (use Cons.prems(3,4) q in simp_all)
  have grow: "asked c attempt db \<subseteq> asked c attempt ?last" using growing_last [OF Cons.prems(1)] q by (auto simp: asked_def)
  show ?case
  proof (cases "?k \<le> length rows")
    case False
    then have "take ?k rows = rows" "int (length rows) \<noteq> min n 100" using k by auto
    then show ?thesis using rows grow by (auto simp: q page Let_def pages_good_def)
  next
    case True
    let ?es = "take ?k rows" and ?d = "last (take ?k rows)"
    have es: "?es \<noteq> []" "int (length ?es) = min n 100" using True k by auto
    have d: "?d \<in> set ?es" "?d \<in> asked c attempt db" "behind rank cur ?d"
    proof -
      show "?d \<in> set ?es" using es(1) by (rule last_in_set)
      then have "?d \<in> set rows" by (rule in_set_takeD)
      then show "?d \<in> asked c attempt db" "behind rank cur ?d" using rows(2) by simp_all
    qed
    have c: "audit_logs c (Some limit) (map_option pe_id cur) attempt arrange db = RP_OK 200 (?es, Some (pe_id ?d))"
      using page es(2) by (simp add: Let_def)
    have "?d \<in> {e \<in> asked c attempt ?last. behind rank cur e}" using d grow by blast
    moreover have "\<not> behind rank (Some ?d) ?d" by (simp add: behind_def precedes_def)
    moreover have next_behind: "behind rank cur e" if "behind rank (Some ?d) e" for e
      using that d(3) precedes_trans by (cases cur) (auto simp: behind_def)
    ultimately have "card {e \<in> asked c attempt ?last. behind rank (Some ?d) e} < card {e \<in> asked c attempt ?last. behind rank cur e}"
      by (intro psubset_card_mono) (auto simp: asked_def)
    then have few: "card {e \<in> asked c attempt ?last. behind rank (Some ?d) e} < length qs" using Cons.prems(5) by simp
    then have more: "qs \<noteq> []" by auto
    then obtain q' qs' where qs: "qs = q' # qs'" by (cases qs) auto
    have sub: "set (ld_events db) \<subseteq> set (ld_events (snd (hd qs)))" "growing qs" using Cons.prems(1) q by (simp_all add: qs)
    have "?d \<in> asked c attempt (snd (hd qs))" using d(2) sub(1) by (auto simp: asked_def)
    then obtain es' where es': "all_pages qs c limit (map_option pe_id (Some ?d)) attempt = Some es'"
        "pages_good rank c attempt (Some ?d) qs es'"
      using Cons.IH [of "Some ?d"] sub(2) more Cons.prems(3) few by (auto simp: qs)
    have split: "rows = ?es @ drop ?k rows" by simp
    have rest: "precedes rank ?d e" if "e \<in> set (drop ?k rows)" for e
      using rows(1) that d(1) by (subst (asm) split, subst (asm) sorted_wrt_append) blast
    note upto = sorted_wrt_last [OF sorted_wrt_take [OF rows(1)]]
    have "pages_good rank c attempt cur (q # qs) (?es @ es')"
      unfolding pages_good_def
    proof (intro conjI ballI subsetI)
      have "precedes rank e f" if "e \<in> set ?es" "f \<in> set es'" for e f
      proof -
        have "precedes rank ?d f" using that(2) es'(2) by (simp add: pages_good_def behind_def)
        then show ?thesis using upto [OF that(1)] precedes_trans by blast
      qed
      then show "sorted_wrt (precedes rank) (?es @ es')"
        using sorted_wrt_take [OF rows(1)] es'(2) by (simp add: sorted_wrt_append pages_good_def)
      show "behind rank cur e" if "e \<in> set (?es @ es')" for e
        using that rows(2) es'(2) next_behind by (auto simp: pages_good_def dest: in_set_takeD)
      show "e \<in> set (?es @ es')" if "e \<in> {e \<in> asked c attempt (snd (hd (q # qs))). behind rank cur e}" for e
      proof (cases "e \<in> set ?es")
        case False
        have "e \<in> set rows" using that rows(2) q by simp
        then have "e \<in> set (drop ?k rows)" using False split by (metis Un_iff set_append)
        then have "behind rank (Some ?d) e" using rest by (simp add: behind_def)
        moreover have "e \<in> asked c attempt (snd (hd qs))" using that sub(1) q by (auto simp: asked_def)
        ultimately show ?thesis using es'(2) by (auto simp: pages_good_def)
      qed simp
      show "e \<in> asked c attempt ?last" if "e \<in> set (?es @ es')" for e
        using that rows(2) grow es'(2) more by (auto simp: pages_good_def dest!: in_set_takeD)
    qed
    then show ?thesis using es'(1) by (auto simp: q c)
  qed
qed simp

text \<open>
  C37: A client that follows the cursors of the audit log, one request after the other while further events may be stored, gets
  every host action event of its project (and of the attempt it asks for) that was there at its first request, and otherwise only
  such events stored meanwhile; each once and by time, whatever the size of the pages. This rests on the database giving rows of
  one time in the same order at every query, which the route does not ask for; rows with different times need no such assumption.
\<close>

theorem audit_pages_are_complete:
  fixes qs :: "'p audit_query list"
  assumes "parse_int limit = Some n" "limit \<noteq> []" "1 \<le> n" and "growing qs" "qs \<noteq> []"
    and "\<forall>q \<in> set qs. same_order rank c attempt q \<and> names_rows (snd q)"
    and "card (asked c attempt (snd (last qs))) < length qs"
  shows "\<exists>es. all_pages qs c limit None attempt = Some es \<and> distinct es \<and> sorted (map pe_occurredAt es) \<and>
    asked c attempt (snd (hd qs)) \<subseteq> set es \<and> set es \<subseteq> asked c attempt (snd (last qs))"
proof -
  obtain es where es: "all_pages qs c limit None attempt = Some es" "pages_good rank c attempt None qs es"
    using all_pages_from [OF assms(1-6), of None] assms(7) by (auto simp: behind_def)
  have srt: "sorted_wrt (precedes rank) es" using es(2) by (simp add: pages_good_def)
  then have "distinct es" by (rule sorted_wrt_distinct) (simp add: precedes_def)
  moreover have "sorted (map pe_occurredAt es)"
    unfolding sorted_map using srt by (rule sorted_wrt_mono_rel [rotated]) (auto simp: precedes_def)
  ultimately show ?thesis using es by (auto simp: pages_good_def behind_def)
qed

definition host_event :: "string \<Rightarrow> string \<Rightarrow> int \<Rightarrow> json project_event" where
  "host_event i t now = (created_event \<lparr>pi_project = ''p1'', pi_event = i, pi_correlation = ''c1''\<rparr> ''p1'' ''n'' ''s'' now)
     \<lparr>pe_eventType := t\<rparr>"

definition sample_host_ledger :: "json project_event list \<Rightarrow> json ledger_db" where
  "sample_host_ledger es = \<lparr>ld_projects = [], ld_events = es, ld_outbox = [], ld_now = 0\<rparr>"

definition proposed7 :: "json project_event" where "proposed7 = host_event ''e1'' ''HOST_ACTION_PROPOSED'' 7"
definition decided7 :: "json project_event" where "decided7 = host_event ''e2'' ''HOST_ACTION_POLICY_DECIDED'' 7"
definition completed9 :: "json project_event" where "completed9 = host_event ''e3'' ''HOST_ACTION_EXECUTION_COMPLETED'' 9"

lemmas host_defs = proposed7_def decided7_def completed9_def host_event_def created_event_def sample_host_ledger_def

lemma sample_host_where [simp]: "audit_where ''p1'' None proposed7" "audit_where ''p1'' None decided7" "audit_where ''p1'' None completed9"
  by (simp_all add: audit_where_def HOST_ACTION_EVENTS_def truthy_def host_defs)

lemma one_is_a_number: "parse_int ''1'' = Some 1" by code_simp

text \<open>Three pages of one row each; the third event arrives after the first page.\<close>

theorem audit_pages_are_complete_witness:
  "let l1 = sample_host_ledger [proposed7, decided7]; l2 = sample_host_ledger [proposed7, decided7, completed9];
       c = sample_session in
   \<exists>es. all_pages [(id, l1), (id, l2), (id, l2), (id, l2)] c ''1'' None None = Some es \<and>
     distinct es \<and> {proposed7, decided7} \<subseteq> set es"
proof -
  let ?l1 = "sample_host_ledger [proposed7, decided7]" and ?l2 = "sample_host_ledger [proposed7, decided7, completed9]"
  let ?qs = "[(id, ?l1), (id, ?l2), (id, ?l2), (id, ?l2)]"
  let ?rank = "\<lambda>e. length (pe_eventType e)"
  have c: "ac_projectId sample_session = Some ''p1''" by (simp add: sample_session_def)
  have asked: "asked sample_session None ?l1 = {proposed7, decided7}" "asked sample_session None ?l2 = {proposed7, decided7, completed9}"
    using c by (auto simp: asked_def sample_host_ledger_def)
  have "\<forall>q \<in> set ?qs. same_order ?rank sample_session None q \<and> names_rows (snd q)"
    by (simp add: same_order_def c Let_def sample_host_ledger_def names_rows_def, simp add: precedes_def host_defs)
  moreover have "growing ?qs" by (auto simp: sample_host_ledger_def)
  moreover have "card {proposed7, decided7, completed9} < 4"
    by (rule le_less_trans [OF card_insert_le_m1 [of 3]]) (auto simp: card_insert_if)
  ultimately show ?thesis
    using audit_pages_are_complete [OF one_is_a_number _ _ , of ?qs ?rank sample_session None] asked by (auto simp: Let_def)
qed

text \<open>
  Rows of one time may be skipped, or come twice, when two queries arrange them differently: here a proposal and its decision were
  stored in the same millisecond.
\<close>

lemma ties_are_skipped_or_repeated:
  "all_pages [(id, sample_host_ledger [proposed7, decided7]), (rev, sample_host_ledger [proposed7, decided7])]
     sample_session ''1'' None None = Some [proposed7]"
  "all_pages [(id, sample_host_ledger [proposed7, decided7]), (id, sample_host_ledger [proposed7, decided7]),
      (rev, sample_host_ledger [proposed7, decided7]), (rev, sample_host_ledger [proposed7, decided7])]
     sample_session ''1'' None None = Some [proposed7, decided7, proposed7]"
  by (simp_all add: audit_logs_def text_or_else_def truthy_def one_is_a_number sample_session_def page_def sample_host_ledger_def)
     (simp_all add: host_defs)

text \<open>
  A session whose time is just over is refused by every route, but still accepted where a project is selected.
\<close>

lemma select_accepts_an_ended_session:
  "session_context path (session_payload JNull 0) day_ms = None"
  "select_project plain_reader (sample_get (session_payload JNull 0)\<lparr>rq_body := Some (JObj [(''projectId'', JStr ''p1'')])\<rparr>) day_ms
     \<lparr>ld_projects = [createProject ''p1'' ''s'' ''n'' 0], ld_events = [], ld_outbox = [], ld_now = 0\<rparr> =
   (Response 200 (JObj [(''status'', JStr ''ok''), (''projectId'', JStr ''p1'')]),
    CO_SET (session_payload (JStr ''p1'') 0) (8 * 60 * 60 * 1000))"
  using payload_read [OF plain_reader_integers, of JNull 0] payload_text [of JNull 0] payload_select [of JNull 0 "''p1''"]
    payload_truthy [of JNull 0]
  by (simp_all add: session_context_def payload_in_time select_project_def session_text_def sample_get_def both_def
    project_of_def createProject_def day_ms_def)

end
