(* ===== verification/Traceability.thy ===== *)
theory Traceability
  imports Evidence_Store Hash_Chains "HOL-Library.Multiset"
begin

text \<open>
  Reading the records back (\<^verbatim>\<open>packages/observability/src/reconstructor.ts\<close> and
  \<^verbatim>\<open>packages/persistence/src/observability/prisma-traceability.ts\<close>): the timeline of a run or an attempt from its logs
  and incidents, and the traces from a commit, a deployment, an artifact, an item of evidence or a verification to
  everything that hangs together with it. \<open>localeCompare\<close> depends on the host's language and is a parameter.
\<close>

section \<open>Timelines\<close>

datatype timeline_event = TL_LOG log_record | TL_INCIDENT incident_event

fun tl_timestamp :: "timeline_event \<Rightarrow> int" where
  "tl_timestamp (TL_LOG l) = lg_timestamp l"
| "tl_timestamp (TL_INCIDENT e) = ie_timestamp e"

fun tl_id :: "timeline_event \<Rightarrow> string" where
  "tl_id (TL_LOG l) = lg_id l"
| "tl_id (TL_INCIDENT e) = ie_id e"

text \<open>\<open>sort\<close> with a comparison: \<open>before a b\<close> says that the comparison of \<open>a\<close> with \<open>b\<close> is not positive.\<close>

fun insert_by :: "('a \<Rightarrow> 'a \<Rightarrow> bool) \<Rightarrow> 'a \<Rightarrow> 'a list \<Rightarrow> 'a list" where
  "insert_by before x [] = [x]"
| "insert_by before x (y # ys) = (if before x y then x # y # ys else y # insert_by before x ys)"

definition sort_by :: "('a \<Rightarrow> 'a \<Rightarrow> bool) \<Rightarrow> 'a list \<Rightarrow> 'a list" where
  "sort_by before xs = foldr (insert_by before) xs []"

definition tl_before :: "(string \<Rightarrow> string \<Rightarrow> int) \<Rightarrow> timeline_event \<Rightarrow> timeline_event \<Rightarrow> bool" where
  "tl_before localeCompare a b =
     (let tDiff = tl_timestamp a - tl_timestamp b
      in if tDiff \<noteq> 0 then tDiff \<le> 0 else localeCompare (tl_id a) (tl_id b) \<le> 0)"

definition reconstructByAttempt ::
  "(string \<Rightarrow> string \<Rightarrow> int) \<Rightarrow> string \<Rightarrow> string \<Rightarrow> log_record list \<Rightarrow> incident_event list \<Rightarrow> timeline_event list" where
  "reconstructByAttempt localeCompare p attempt logs incidents =
     sort_by (tl_before localeCompare)
       (map TL_LOG (filter (\<lambda>l. lg_projectId l = p \<and> lg_attemptId l = Some attempt) logs) @
        map TL_INCIDENT (filter (\<lambda>e. ie_projectId e = p \<and> ie_attemptId e = Some attempt) incidents))"

definition reconstructByRun ::
  "(string \<Rightarrow> string \<Rightarrow> int) \<Rightarrow> string \<Rightarrow> string \<Rightarrow> log_record list \<Rightarrow> incident_event list \<Rightarrow> timeline_event list" where
  "reconstructByRun localeCompare p run logs incidents =
     sort_by (tl_before localeCompare)
       (map TL_LOG (filter (\<lambda>l. lg_projectId l = p \<and> lg_runId l = run) logs) @
        map TL_INCIDENT (filter (\<lambda>e. ie_projectId e = p \<and> ie_runId e = run) incidents))"

section \<open>Traces over given records\<close>

record trace_result =
  tr_projectId :: string
  tr_commitSha :: "string option"
  tr_deploymentUri :: "string option"
  tr_artifactId :: "string option"
  tr_workItemIds :: "string list"
  tr_approvalIds :: "string list"
  tr_agentIds :: "string list"
  tr_attemptIds :: "string list"
  tr_evidenceIds :: "string list"
  tr_verificationIds :: "string list"
  tr_completionDecisionIds :: "string list"

text \<open>The values of a member that are truthy, and \<open>Array.from(new Set(xs)).sort()\<close>.\<close>

definition named :: "('r \<Rightarrow> string option) \<Rightarrow> 'r list \<Rightarrow> string list" where
  "named f rs = concat (map (\<lambda>r. if truthy (f r) then [the (f r)] else []) rs)"

definition sorted_set :: "string list \<Rightarrow> string list" where
  "sorted_set xs = sort (jset_of xs)"

definition refers_to :: "string list \<Rightarrow> verification_record \<Rightarrow> bool" where
  "refers_to ids v = list_ex (\<lambda>i. i \<in> set ids) (vf_evidenceIds v)"

text \<open>The three methods of the engine are one loop over the evidence that is hit and one over the verifications.\<close>

definition trace_by ::
  "string \<Rightarrow> (evidence_record \<Rightarrow> bool) \<Rightarrow> evidence_record list \<Rightarrow> verification_record list \<Rightarrow> trace_result" where
  "trace_by p hit evidence verifications =
     (let evs = filter (\<lambda>e. ev_projectId e = p \<and> hit e) evidence;
          ids = map ev_id evs;
          vers = filter (\<lambda>v. vf_projectId v = p \<and> refers_to ids v) verifications
      in \<lparr>tr_projectId = p, tr_commitSha = None, tr_deploymentUri = None, tr_artifactId = None,
          tr_workItemIds = sorted_set (named (Some \<circ> ev_workItemId) evs @ named (Some \<circ> vf_workItemId) vers),
          tr_approvalIds = sorted_set (named ev_approvalId evs),
          tr_agentIds = sorted_set (named ev_agentId evs),
          tr_attemptIds = sorted_set (named ev_attemptId evs @ named vf_attemptId vers),
          tr_evidenceIds = sorted_set ids,
          tr_verificationIds = sorted_set (map vf_id vers),
          tr_completionDecisionIds = sorted_set (named vf_completionDecisionId vers)\<rparr>)"

definition engine_traceScmCommit ::
  "string \<Rightarrow> string \<Rightarrow> evidence_record list \<Rightarrow> verification_record list \<Rightarrow> trace_result" where
  "engine_traceScmCommit p sha evs vers =
     (trace_by p (\<lambda>e. ev_scmCommitSha e = Some sha) evs vers)\<lparr>tr_commitSha := Some sha\<rparr>"

definition engine_traceArtifact ::
  "string \<Rightarrow> string \<Rightarrow> evidence_record list \<Rightarrow> verification_record list \<Rightarrow> trace_result" where
  "engine_traceArtifact p artifact evs vers =
     (trace_by p (\<lambda>e. ev_artifactId e = Some artifact) evs vers)\<lparr>tr_artifactId := Some artifact\<rparr>"

definition engine_traceDeployment ::
  "string \<Rightarrow> string \<Rightarrow> evidence_record list \<Rightarrow> verification_record list \<Rightarrow> trace_result" where
  "engine_traceDeployment p uri evs vers =
     (trace_by p (\<lambda>e. ev_deploymentUri e = Some uri) evs vers)\<lparr>tr_deploymentUri := Some uri\<rparr>"

section \<open>Traces from the database\<close>

text \<open>\<open>some id\<close> that an argument gives is added unless it is \<open>undefined\<close> or empty.\<close>

definition traceFromEvidenceIds ::
  "string \<Rightarrow> string list \<Rightarrow> string option \<Rightarrow> string option \<Rightarrow> string option \<Rightarrow> string option \<Rightarrow> evidence_db \<Rightarrow> trace_result" where
  "traceFromEvidenceIds p ids item approval agent attempt db =
     (let given = (\<lambda>x. if truthy x then [the x] else []);
          vers = filter (refers_to ids) (filter (\<lambda>v. vf_projectId v = p) (et_verifications db))
      in \<lparr>tr_projectId = p, tr_commitSha = None, tr_deploymentUri = None, tr_artifactId = None,
          tr_workItemIds = sorted_set (given item @ named (Some \<circ> vf_workItemId) vers),
          tr_approvalIds = sorted_set (given approval),
          tr_agentIds = sorted_set (given agent),
          tr_attemptIds = sorted_set (given attempt @ named vf_attemptId vers),
          tr_evidenceIds = sorted_set ids,
          tr_verificationIds = sorted_set (map vf_id vers),
          tr_completionDecisionIds = sorted_set (named vf_completionDecisionId vers)\<rparr>)"

text \<open>The loop over the evidence that every method runs on the result, and the deduplication after it.\<close>

definition with_evidence :: "evidence_record list \<Rightarrow> trace_result \<Rightarrow> trace_result" where
  "with_evidence evs r =
     r\<lparr>tr_attemptIds := sorted_set (tr_attemptIds r @ named ev_attemptId evs),
       tr_workItemIds := sorted_set (tr_workItemIds r @ named (Some \<circ> ev_workItemId) evs),
       tr_approvalIds := sorted_set (tr_approvalIds r @ named ev_approvalId evs),
       tr_agentIds := sorted_set (tr_agentIds r @ named ev_agentId evs)\<rparr>"

definition traceScmCommit :: "string \<Rightarrow> string \<Rightarrow> evidence_db \<Rightarrow> trace_result" where
  "traceScmCommit p sha db =
     (let evs = filter (\<lambda>e. ev_projectId e = p \<and> ev_scmCommitSha e = Some sha) (et_evidence db)
      in (with_evidence evs (traceFromEvidenceIds p (map ev_id evs) None None None None db))\<lparr>tr_commitSha := Some sha\<rparr>)"

definition traceDeployment :: "string \<Rightarrow> string \<Rightarrow> evidence_db \<Rightarrow> trace_result" where
  "traceDeployment p uri db =
     (let evs = filter (\<lambda>e. ev_projectId e = p \<and> ev_deploymentUri e = Some uri) (et_evidence db)
      in (with_evidence evs (traceFromEvidenceIds p (map ev_id evs) None None None None db))\<lparr>tr_deploymentUri := Some uri\<rparr>)"

definition traceArtifact :: "string \<Rightarrow> string \<Rightarrow> evidence_db \<Rightarrow> trace_result" where
  "traceArtifact p artifact db =
     (let evs = filter (\<lambda>e. ev_projectId e = p \<and> ev_artifactId e = Some artifact) (et_evidence db)
      in (with_evidence evs (traceFromEvidenceIds p (map ev_id evs) None None None None db))\<lparr>tr_artifactId := Some artifact\<rparr>)"

definition traceEvidence :: "string \<Rightarrow> string \<Rightarrow> evidence_db \<Rightarrow> trace_result" where
  "traceEvidence p i db =
     (case find_row (\<lambda>e. ev_id e = i) (et_evidence db) of
        Some e \<Rightarrow> if ev_projectId e \<noteq> p then traceFromEvidenceIds p [] None None None None db
          else with_evidence [e] (traceFromEvidenceIds p [i] None None None None db)
      | None \<Rightarrow> traceFromEvidenceIds p [] None None None None db)"

definition traceVerification :: "string \<Rightarrow> string \<Rightarrow> evidence_db \<Rightarrow> trace_result" where
  "traceVerification p i db =
     (case find_row (\<lambda>v. vf_id v = i) (et_verifications db) of
        Some v \<Rightarrow> if vf_projectId v \<noteq> p then traceFromEvidenceIds p [] None None None None db
          else (let r = traceFromEvidenceIds p (vf_evidenceIds v) (Some (vf_workItemId v)) None None (vf_attemptId v) db
            in r\<lparr>tr_completionDecisionIds := sorted_set (tr_completionDecisionIds r @ named vf_completionDecisionId [v])\<rparr>)
      | None \<Rightarrow> traceFromEvidenceIds p [] None None None None db)"

section \<open>Sorted sets\<close>

lemma set_sorted_set [simp]: "set (sorted_set xs) = set xs" by (simp add: sorted_set_def)

lemma sorted_set_eq: "sorted_set xs = sorted_set ys \<longleftrightarrow> set xs = set ys"
proof
  assume "sorted_set xs = sorted_set ys"
  then show "set xs = set ys" by (metis set_sorted_set)
next
  assume "set xs = set ys"
  then show "sorted_set xs = sorted_set ys"
    unfolding sorted_set_def by (intro sorted_distinct_set_unique) (simp_all add: distinct_jset_of)
qed

lemma named_Nil [simp]: "named f [] = []" by (simp add: named_def)

text \<open>The service and the engine collect the same sets.\<close>

lemma traces_join:
  assumes "evs = filter (\<lambda>e. ev_projectId e = p \<and> hit e) (et_evidence db)"
  shows "with_evidence evs (traceFromEvidenceIds p (map ev_id evs) None None None None db) =
    trace_by p hit (et_evidence db) (et_verifications db)"
  unfolding with_evidence_def traceFromEvidenceIds_def trace_by_def assms Let_def
  by (auto simp: sorted_set_eq filter_filter conj_commute comp_def)

section \<open>Sorting by a comparison\<close>

lemma mset_sort_by [simp]: "mset (sort_by before xs) = mset xs"
proof -
  have "mset (insert_by before x ys) = add_mset x (mset ys)" for x ys by (induction ys) auto
  then show ?thesis unfolding sort_by_def by (induction xs) auto
qed

lemma sorted_sort_by:
  assumes total: "\<And>a b. before a b \<or> before b a" and trans: "\<And>a b c. before a b \<Longrightarrow> before b c \<Longrightarrow> before a c"
  shows "sorted_wrt before (sort_by before xs)"
proof -
  have elems: "set (insert_by before x ys) = insert x (set ys)" for x ys by (induction ys) auto
  have "sorted_wrt before ys \<Longrightarrow> sorted_wrt before (insert_by before x ys)" for x ys
  proof (induction ys)
    case (Cons y ys)
    then show ?case using total [of x y] trans [of x y] by (auto simp: elems)
  qed simp
  then show ?thesis unfolding sort_by_def by (induction xs) auto
qed

text \<open>A comparison of texts that orders them: what \<open>localeCompare\<close> promises.\<close>

definition collation :: "(string \<Rightarrow> string \<Rightarrow> int) \<Rightarrow> bool" where
  "collation cmp \<longleftrightarrow> (\<forall>a b. cmp a b \<le> 0 \<or> cmp b a \<le> 0) \<and> (\<forall>a b c. cmp a b \<le> 0 \<longrightarrow> cmp b c \<le> 0 \<longrightarrow> cmp a c \<le> 0)"

lemma tl_before_total: "collation cmp \<Longrightarrow> tl_before cmp a b \<or> tl_before cmp b a"
  by (auto simp: tl_before_def collation_def Let_def)

lemma tl_before_trans: "collation cmp \<Longrightarrow> tl_before cmp a b \<Longrightarrow> tl_before cmp b c \<Longrightarrow> tl_before cmp a c"
  unfolding tl_before_def collation_def Let_def by (auto split: if_splits)


section \<open>Properties\<close>

text \<open>
  The timeline of an attempt is the logs and incidents of that attempt in that project, each as often as it is
  recorded, in the order of their times, and in the order of their ids where the times are equal.
\<close>

theorem timeline_is_complete_and_sorted:
  assumes "collation cmp"
  shows "mset (reconstructByAttempt cmp p a logs incidents) =
      image_mset TL_LOG (filter_mset (\<lambda>l. lg_projectId l = p \<and> lg_attemptId l = Some a) (mset logs)) +
      image_mset TL_INCIDENT (filter_mset (\<lambda>e. ie_projectId e = p \<and> ie_attemptId e = Some a) (mset incidents)) \<and>
    sorted_wrt (\<lambda>x y. tl_timestamp x < tl_timestamp y \<or>
      tl_timestamp x = tl_timestamp y \<and> cmp (tl_id x) (tl_id y) \<le> 0) (reconstructByAttempt cmp p a logs incidents)"
proof -
  have "tl_before cmp = (\<lambda>x y. tl_timestamp x < tl_timestamp y \<or> tl_timestamp x = tl_timestamp y \<and> cmp (tl_id x) (tl_id y) \<le> 0)"
    by (auto simp: fun_eq_iff tl_before_def Let_def)
  moreover have "sorted_wrt (tl_before cmp) (reconstructByAttempt cmp p a logs incidents)"
    unfolding reconstructByAttempt_def
    using tl_before_total [OF assms] tl_before_trans [OF assms] by (rule sorted_sort_by)
  ultimately show ?thesis by (simp add: reconstructByAttempt_def)
qed

definition sample_log :: "string \<Rightarrow> int \<Rightarrow> log_record" where
  "sample_log i n = \<lparr>lg_id = i, lg_projectId = ''p'', lg_runId = ''r'', lg_attemptId = Some ''a'', lg_workItemId = None,
     lg_stream = LS_SYSTEM, lg_message = ''m'', lg_sequence = n, lg_timestamp = 5, lg_metadata = None,
     lg_previousHash = None, lg_hash = ''h''\<rparr>"

text \<open>A host that compares texts by the codes of their characters.\<close>

definition code_order :: "string \<Rightarrow> string \<Rightarrow> int" where
  "code_order a b = (if a = b then 0 else if a < b then - 1 else 1)"

lemma code_collation: "collation code_order"
  by (auto simp: collation_def code_order_def)

theorem timeline_is_complete_and_sorted_witness:
  "mset (reconstructByAttempt code_order ''p'' ''a'' [sample_log ''z'' 1, sample_log ''b'' 2] []) =
     {# TL_LOG (sample_log ''z'' 1), TL_LOG (sample_log ''b'' 2) #}"
  using timeline_is_complete_and_sorted [OF code_collation, of "''p''" "''a''" "[sample_log ''z'' 1, sample_log ''b'' 2]" "[]"]
  by (simp add: sample_log_def)

text \<open>
  C33: The service that reads the database gives the same traces of a commit, an artifact and a deployment as the engine
  on all records.
\<close>

theorem database_traces_are_the_engines:
  "traceScmCommit p sha db = engine_traceScmCommit p sha (et_evidence db) (et_verifications db) \<and>
   traceArtifact p artifact db = engine_traceArtifact p artifact (et_evidence db) (et_verifications db) \<and>
   traceDeployment p uri db = engine_traceDeployment p uri (et_evidence db) (et_verifications db)"
  unfolding traceScmCommit_def traceArtifact_def traceDeployment_def engine_traceScmCommit_def engine_traceArtifact_def
    engine_traceDeployment_def Let_def by (simp add: traces_join)

text \<open>The rows of one project.\<close>

definition project_rows :: "string \<Rightarrow> evidence_db \<Rightarrow> evidence_db" where
  "project_rows p db = db\<lparr>et_evidence := filter (\<lambda>e. ev_projectId e = p) (et_evidence db),
     et_verifications := filter (\<lambda>v. vf_projectId v = p) (et_verifications db)\<rparr>"

lemma project_traceFrom: "traceFromEvidenceIds p ids w x g a (project_rows p db) = traceFromEvidenceIds p ids w x g a db"
  by (simp add: traceFromEvidenceIds_def project_rows_def)

lemma project_evidence: "filter (\<lambda>e. ev_projectId e = p \<and> P e) (et_evidence (project_rows p db)) =
    filter (\<lambda>e. ev_projectId e = p \<and> P e) (et_evidence db)"
  by (simp add: project_rows_def conj_left_commute)

text \<open>Looking a row up by its id and then comparing the project.\<close>

lemma project_lookup:
  assumes "distinct (map key rows)"
  shows "(case find_row (\<lambda>r. key r = i) (filter (\<lambda>r. proj r = p) rows) of Some r \<Rightarrow> if proj r \<noteq> p then d else f r | None \<Rightarrow> d) =
    (case find_row (\<lambda>r. key r = i) rows of Some r \<Rightarrow> if proj r \<noteq> p then d else f r | None \<Rightarrow> d)"
  using assms
proof (induction rows)
  case (Cons r rows)
  have "key r = i \<Longrightarrow> find_row (\<lambda>r. key r = i) (filter (\<lambda>r. proj r = p) rows) = None"
    using Cons.prems by (auto simp: find_row_None image_iff)
  then show ?case using Cons by simp
qed simp

text \<open>
  C34: No trace of a project depends on the records of another project: it is the same on the rows of that project alone,
  when ids are unique.
\<close>

theorem traces_ignore_other_projects:
  assumes "distinct (map ev_id (et_evidence db))" and "distinct (map vf_id (et_verifications db))"
  shows "traceScmCommit p x (project_rows p db) = traceScmCommit p x db \<and>
    traceDeployment p x (project_rows p db) = traceDeployment p x db \<and>
    traceArtifact p x (project_rows p db) = traceArtifact p x db \<and>
    traceEvidence p x (project_rows p db) = traceEvidence p x db \<and>
    traceVerification p x (project_rows p db) = traceVerification p x db"
proof -
  have rows: "et_evidence (project_rows p db) = filter (\<lambda>e. ev_projectId e = p) (et_evidence db)"
    "et_verifications (project_rows p db) = filter (\<lambda>v. vf_projectId v = p) (et_verifications db)"
    by (simp_all add: project_rows_def)
  have "traceEvidence p x (project_rows p db) = traceEvidence p x db"
    unfolding traceEvidence_def project_traceFrom rows(1) by (rule project_lookup [OF assms(1)])
  moreover have "traceVerification p x (project_rows p db) = traceVerification p x db"
    unfolding traceVerification_def project_traceFrom rows(2) by (rule project_lookup [OF assms(2)])
  ultimately show ?thesis
    unfolding traceScmCommit_def traceDeployment_def traceArtifact_def project_evidence project_traceFrom by simp
qed

definition sample_trace_db :: evidence_db where
  "sample_trace_db = \<lparr>et_projects = [''p''], et_workItems = [''w''], et_attempts = [], et_approvals = [], et_decisions = [],
     et_artifacts = [], et_evidence = [], et_verifications =
       [\<lparr>vf_id = ''v'', vf_projectId = ''p'', vf_runId = ''r'', vf_workItemId = ''w'', vf_attemptId = None,
         vf_verificationType = VT_TEST, vf_status = VS_FAIL, vf_evidenceIds = [], vf_verifierRef = ''x'',
         vf_completionDecisionId = None, vf_digest = None, vf_verifiedAt = 1, vf_createdAt = 1\<rparr>]\<rparr>"

theorem traces_ignore_other_projects_witness:
  "traceVerification ''p'' ''v'' (project_rows ''p'' sample_trace_db) = traceVerification ''p'' ''v'' sample_trace_db"
  using traces_ignore_other_projects [of sample_trace_db "''p''" "''v''"] by (simp add: sample_trace_db_def)

text \<open>The trace of a verification without evidence does not list that verification.\<close>

lemma verification_misses_its_own_trace:
  "tr_verificationIds (traceVerification ''p'' ''v'' sample_trace_db) = [] \<and>
   tr_workItemIds (traceVerification ''p'' ''v'' sample_trace_db) = [''w'']"
  by (simp add: traceVerification_def traceFromEvidenceIds_def sample_trace_db_def refers_to_def sorted_set_def named_def
    jset_of_def jset_add_def)

text \<open>
  The logger's ids end in the sequence number as a text, so of two logs of one millisecond the tenth is shown before
  the ninth.
\<close>

lemma timeline_reverses_logs:
  "generated_id ''log-'' None 5 9 = ''log-5-9'' \<and> generated_id ''log-'' None 5 10 = ''log-5-10''"
  "reconstructByRun code_order ''p'' ''r'' [sample_log ''log-5-9'' 9, sample_log ''log-5-10'' 10] [] =
     [TL_LOG (sample_log ''log-5-10'' 10), TL_LOG (sample_log ''log-5-9'' 9)]"
proof -
  show "generated_id ''log-'' None 5 9 = ''log-5-9'' \<and> generated_id ''log-'' None 5 10 = ''log-5-10''"
    by code_simp
  show "reconstructByRun code_order ''p'' ''r'' [sample_log ''log-5-9'' 9, sample_log ''log-5-10'' 10] [] =
     [TL_LOG (sample_log ''log-5-10'' 10), TL_LOG (sample_log ''log-5-9'' 9)]"
    by (simp add: reconstructByRun_def sample_log_def sort_by_def tl_before_def code_order_def less_char_def)
qed

end
