(* ===== verification/Edge_Adapters.thy ===== *)
theory Edge_Adapters
  imports Tool_Gateway Run_Coordinator
begin

text \<open>
  The small adapters at the edge of the gateway: the sandboxed file system
  (\<^verbatim>\<open>packages/tools/src/sandbox/sandbox-filesystem-adapter.ts\<close>), the qualification run
  (\<^verbatim>\<open>packages/tools/src/qualification/qualification-adapter.ts\<close>) and the reviewer that stands in for a model
  (\<^verbatim>\<open>packages/agents/src/reviewer/openai-reviewer-adapter.ts\<close>). The file system and the process are parameters that act
  on a world of their own; paths are POSIX paths.
\<close>

section \<open>Paths\<close>

fun split_slash :: "string \<Rightarrow> string list" where
  "split_slash [] = [[]]"
| "split_slash (c # s) = (if c = CHR ''/'' then [] # split_slash s
     else (case split_slash s of p # ps \<Rightarrow> (c # p) # ps | [] \<Rightarrow> [[c]]))"

text \<open>The segments of a normal path: no empty one, no \<open>.\<close>, and \<open>..\<close> takes the last one away.\<close>

definition push_segment :: "string \<Rightarrow> string list \<Rightarrow> string list" where
  "push_segment s acc = (if s = [] \<or> s = ''.'' then acc else if s = ''..'' then butlast acc else acc @ [s])"

definition segments_of :: "string \<Rightarrow> string list" where
  "segments_of p = fold push_segment (split_slash p) []"

definition path_text :: "string list \<Rightarrow> string" where
  "path_text ss = (if ss = [] then ''/'' else concat (map (\<lambda>s. CHR ''/'' # s) ss))"

definition is_absolute :: "string \<Rightarrow> bool" where "is_absolute p = starts_with p ''/''"

text \<open>\<open>resolve(path)\<close> in the working directory \<open>cwd\<close>, which is absolute.\<close>

definition resolve :: "string \<Rightarrow> string \<Rightarrow> string" where
  "resolve cwd p = path_text (segments_of (if is_absolute p then p else cwd @ ''/'' @ p))"

definition dirname :: "string \<Rightarrow> string" where
  "dirname p = path_text (butlast (segments_of p))"

section \<open>The sandboxed file system\<close>

record 'x file_host =
  fh_cwd :: string
  fh_readFile :: "string \<Rightarrow> ('x, string, string) act"
  fh_mkdir :: "string \<Rightarrow> ('x, string, unit) act"
  fh_writeFile :: "string \<Rightarrow> string \<Rightarrow> ('x, string, unit) act"

definition sandbox_roots :: "string \<Rightarrow> string list \<Rightarrow> string list" where
  "sandbox_roots cwd allowed = map (resolve cwd) allowed"

definition in_roots :: "string list \<Rightarrow> string \<Rightarrow> bool" where
  "in_roots roots candidate = list_ex (\<lambda>r. candidate = r \<or> starts_with candidate (r @ ''/'')) roots"

definition assertAllowedPath :: "string \<Rightarrow> string list \<Rightarrow> string \<Rightarrow> string + string" where
  "assertAllowedPath cwd roots p =
     (let candidate = resolve cwd p
      in if in_roots roots candidate then Inr candidate
         else Inl (''Requested path is outside allowed sandbox roots: '' @ p))"

definition hex_upper :: "nat \<Rightarrow> char" where
  "hex_upper k = (if k < 10 then char_of (48 + k) else char_of (55 + k))"

definition percent :: "nat \<Rightarrow> string" where
  "percent b = [CHR ''%'', hex_upper (b div 16), hex_upper (b mod 16)]"

definition unescaped_marks :: string where "unescaped_marks = ''-_.!~*'' @ [CHR 0x27] @ ''()''"

text \<open>A character from 128 on is two bytes in UTF-8.\<close>

definition encode_char :: "char \<Rightarrow> string" where
  "encode_char c =
     (let n = (of_char c :: nat) in
      if (48 \<le> n \<and> n \<le> 57) \<or> (65 \<le> n \<and> n \<le> 90) \<or> (97 \<le> n \<and> n \<le> 122) \<or> c \<in> set unescaped_marks then [c]
      else if n < 128 then percent n else percent (192 + n div 64) @ percent (128 + n mod 64))"

definition encodeURIComponent :: "string \<Rightarrow> string" where
  "encodeURIComponent s = concat (map encode_char s)"

definition sandbox_result ::
  "string \<Rightarrow> authorized_request \<Rightarrow> string \<Rightarrow> string option \<Rightarrow> tool_artifact list \<Rightarrow> string list \<Rightarrow> tool_result" where
  "sandbox_result eid a summary effect artifacts effects =
     (let q = az_request a in
      \<lparr>tx_schemaVersion = ''1.0.0'', tx_executionId = eid, tx_requestId = tq_requestId q, tx_toolId = ''sandbox-filesystem'',
       tx_operationId = tq_operationId q, tx_status = TS_SUCCEEDED, tx_summary = summary, tx_observedEffect = effect,
       tx_artifacts = artifacts, tx_evidenceCandidates = [], tx_sideEffects = effects, tx_reconciliationRequired = False\<rparr>)"

text \<open>The two fresh ids of a call are arguments.\<close>

definition sandbox_execute ::
  "'x file_host \<Rightarrow> string list \<Rightarrow> string \<Rightarrow> string \<Rightarrow> authorized_request \<Rightarrow> ('x, string, tool_result) act" where
  "sandbox_execute h roots aid eid a =
     (case json_str (map_of (tq_parameters (az_request a)) ''path'') of
        None \<Rightarrow> act_throw ''Sandbox filesystem operation requires string parameter \"path\".''
      | Some p \<Rightarrow> (case assertAllowedPath (fh_cwd h) roots p of
          Inl e \<Rightarrow> act_throw e
        | Inr path \<Rightarrow>
            if tq_operationId (az_request a) = ''filesystem.read'' then
              act_bind (fh_readFile h path) (\<lambda>content. act_return (sandbox_result eid a (''Read '' @ path) None
                [\<lparr>ta_artifactId = aid, ta_type = ''FILE_CONTENT'', ta_ref = ''inline:text:'' @ encodeURIComponent content\<rparr>] []))
            else if tq_operationId (az_request a) = ''filesystem.write'' then
              (case json_str (map_of (tq_parameters (az_request a)) ''content'') of
                 None \<Rightarrow> act_throw ''filesystem.write requires string parameter \"content\".''
               | Some content \<Rightarrow>
                   act_bind (fh_mkdir h (dirname path)) (\<lambda>_. act_bind (fh_writeFile h path content) (\<lambda>_.
                     act_return (sandbox_result eid a (''Wrote '' @ path) (Some (''file:'' @ path)) [] [''WRITE:'' @ path]))))
            else act_throw (''Unsupported operation: '' @ tq_operationId (az_request a))))"

section \<open>The qualification run\<close>

text \<open>The process answers with its output and its exit code, \<open>null\<close> when a signal ended it, or cannot be started.\<close>

type_synonym 'x qualification_host = "('x, string, string \<times> string \<times> int option) act"

definition newline_text :: string where "newline_text = [CHR 0x0A]"

definition qualification_result :: "string \<Rightarrow> string \<Rightarrow> string \<Rightarrow> tool_status \<Rightarrow> string \<Rightarrow> tool_result" where
  "qualification_result eid rid op st summary =
     \<lparr>tx_schemaVersion = ''1.0.0'', tx_executionId = eid, tx_requestId = rid, tx_toolId = ''qualification'', tx_operationId = op,
      tx_status = st, tx_summary = summary, tx_observedEffect = None, tx_artifacts = [], tx_evidenceCandidates = [],
      tx_sideEffects = [], tx_reconciliationRequired = False\<rparr>"

definition qualification_fail :: "int \<Rightarrow> string \<Rightarrow> string \<Rightarrow> ('x, string, tool_result) act" where
  "qualification_fail now rid reason =
     (case parse_result (qualification_result (''qual-fail-'' @ show_int now) rid ''unknown'' TS_FAILED reason) of
        Inl e \<Rightarrow> act_throw ''ZodError'' | Inr r \<Rightarrow> act_return r)"

definition qualification_execute :: "'x qualification_host \<Rightarrow> int \<Rightarrow> authorized_request \<Rightarrow> ('x, string, tool_result) act" where
  "qualification_execute spawn now a =
     (case parse_authorized a of
        Inl e \<Rightarrow> act_throw ''ZodError''
      | Inr parsed \<Rightarrow>
          (let q = az_request parsed; rid = tq_requestId q in
           if tq_operationId q \<noteq> ''qualification.run''
           then qualification_fail now rid (''Qualification operation '' @ [CHR 0x27] @ tq_operationId q @ [CHR 0x27] @ '' not allowed.'')
           else act_try spawn
             (\<lambda>(out, err, exit). let code = (case exit of None \<Rightarrow> 1 | Some k \<Rightarrow> k) in
               (case parse_result (qualification_result (''qual-'' @ show_int now) rid (tq_operationId q)
                   (if code \<noteq> 0 then TS_FAILED else TS_SUCCEEDED)
                   (''pnpm qualification'' @ newline_text @ ''Exit code: '' @ show_int code @ newline_text @ ''STDOUT:'' @ newline_text @
                    out @ newline_text @ ''STDERR:'' @ newline_text @ err)) of
                  Inl e \<Rightarrow> qualification_fail now rid ''Execution threw: ZodError'' | Inr r \<Rightarrow> act_return r))
             (\<lambda>e. qualification_fail now rid (''Execution threw: '' @ e))))"

section \<open>The stand-in reviewer\<close>

definition fallback_verdict :: "review_decision \<Rightarrow> string \<Rightarrow> review_verdict" where
  "fallback_verdict d finding =
     \<lparr>rv_decision = d, rv_findings = [finding], rv_repairPackage = None, rv_reviewDepth = ''LLM'',
      rv_lineage = [''OpenAIReviewerAdapter''], rv_pendingAction = None, rv_pendingGate = None,
      rv_pendingAuthorityType = None, rv_nextAction = None\<rparr>"

definition fallback_repair :: "string \<Rightarrow> repair_package" where
  "fallback_repair summary =
     \<lparr>rp_findingId = ''sys-1'', rp_requirementRef = ''req'', rp_observedEvidence = summary, rp_allowedScope = [''*''],
      rp_forbiddenActions = [], rp_requiredVerification = [], rp_requiredEvidence = [], rp_reReviewTrigger = ''on_completion''\<rparr>"

definition fallback_evaluate :: "agent_run_result \<Rightarrow> review_verdict" where
  "fallback_evaluate r =
     (if res_status r = AR_FAILED then
        (fallback_verdict RD_FAIL_REPAIRABLE (''Executor failure: '' @ res_summary r))
          \<lparr>rv_repairPackage := Some (fallback_repair (res_summary r))\<rparr>
      else if res_status r = AR_CANCELLED \<or> res_status r = AR_INTERRUPTED then
        fallback_verdict RD_AMBIGUOUS_SIDE_EFFECT ''Run cancelled''
      else if res_requestedInputs r \<noteq> [] then
        (fallback_verdict RD_OWNER_DECISION_REQUIRED ''Requested input'')
          \<lparr>rv_pendingAction := Some ''provide_input'', rv_pendingGate := Some ''OWNER_PRECOMMIT'',
           rv_pendingAuthorityType := Some ''OWNER_IMPLEMENTATION_APPROVED''\<rparr>
      else if res_evidence r = [] \<and> res_status r = AR_COMPLETED then
        fallback_verdict RD_NEEDS_EVIDENCE ''Missing evidence for completion''
      else fallback_verdict RD_COMPLETE ''Passed validation'')"

section \<open>What a sandbox touches\<close>

text \<open>
  A path inside a root, segment by segment: a root, or a root followed by segments none of which leads upwards.
\<close>

definition inside :: "string list \<Rightarrow> string \<Rightarrow> bool" where
  "inside roots p \<longleftrightarrow> (\<exists>r \<in> set roots. p = r \<or> (\<exists>ss. ss \<noteq> [] \<and> ''..'' \<notin> set ss \<and> p = r @ path_text ss))"

lemma split_slash_nonempty: "split_slash s \<noteq> []" by (induction s) (auto split: list.split)

lemma split_slash_parts: "s \<in> set (split_slash p) \<Longrightarrow> CHR ''/'' \<notin> set s"
proof (induction p arbitrary: s)
  case (Cons c p)
  obtain q qs where q: "split_slash p = q # qs" using split_slash_nonempty [of p] by (cases "split_slash p") auto
  show ?case using Cons.prems Cons.IH by (cases "c = CHR ''/''") (auto simp: q)
qed auto

text \<open>Segments of a normal path are not empty, contain no slash and do not lead upwards.\<close>

definition normal_segments :: "string list \<Rightarrow> bool" where
  "normal_segments ss \<longleftrightarrow> (\<forall>s \<in> set ss. s \<noteq> [] \<and> s \<noteq> ''..'' \<and> s \<noteq> ''.'' \<and> CHR ''/'' \<notin> set s)"

lemma push_normal:
  "normal_segments acc \<Longrightarrow> \<forall>s \<in> set parts. CHR ''/'' \<notin> set s \<Longrightarrow> normal_segments (fold push_segment parts acc)"
proof (induction parts arbitrary: acc)
  case (Cons s parts)
  have "normal_segments (push_segment s acc)"
    using Cons.prems by (auto simp: push_segment_def normal_segments_def dest: in_set_butlastD)
  then show ?case using Cons by simp
qed simp

lemma segments_normal: "normal_segments (segments_of p)"
  unfolding segments_of_def
  by (rule push_normal) (simp add: normal_segments_def, blast dest: split_slash_parts)


definition slashed :: "string list \<Rightarrow> string" where
  "slashed ss = concat (map (\<lambda>s. CHR ''/'' # s) ss)"

lemma path_text_slashed: "ss \<noteq> [] \<Longrightarrow> path_text ss = slashed ss"
  by (simp add: path_text_def slashed_def)

lemma split_plain: "CHR ''/'' \<notin> set s \<Longrightarrow> split_slash (s @ CHR ''/'' # t) = s # split_slash t"
  by (induction s) auto

lemma split_plain_end: "CHR ''/'' \<notin> set s \<Longrightarrow> split_slash s = [s]"
  by (induction s) auto

lemma split_slashed: "normal_segments ss \<Longrightarrow> split_slash (slashed ss) = [] # ss"
proof (induction ss)
  case (Cons s ss)
  then have s: "CHR ''/'' \<notin> set s" "normal_segments ss" by (auto simp: normal_segments_def)
  show ?case
  proof (cases ss)
    case Nil
    then show ?thesis using s by (simp add: slashed_def split_plain_end)
  next
    case (Cons u us)
    have "slashed (s # ss) = CHR ''/'' # s @ CHR ''/'' # (u @ slashed us)" by (simp add: slashed_def Cons)
    moreover have "split_slash (slashed ss) = [] # split_slash (u @ slashed us)" by (simp add: slashed_def Cons)
    ultimately show ?thesis using Cons.IH s by (simp add: split_plain)
  qed
qed (simp add: slashed_def)

lemma fold_push_normal: "normal_segments ss \<Longrightarrow> fold push_segment ss acc = acc @ ss"
  by (induction ss arbitrary: acc) (auto simp: normal_segments_def push_segment_def)

lemma segments_of_path: "normal_segments ss \<Longrightarrow> segments_of (path_text ss) = ss"
proof (cases "ss = []")
  case True
  then show ?thesis by (simp add: segments_of_def path_text_def push_segment_def)
next
  case False
  assume "normal_segments ss"
  then show ?thesis unfolding segments_of_def path_text_slashed [OF False]
    by (simp add: split_slashed push_segment_def fold_push_normal)
qed

text \<open>A path that starts with the text of another and a slash continues it by segments.\<close>

lemma slashed_prefix:
  assumes "normal_segments rs" and "normal_segments cs" and "slashed cs = slashed rs @ CHR ''/'' # t"
  shows "\<exists>ss. ss \<noteq> [] \<and> cs = rs @ ss"
proof -
  have e: "split_slash (slashed rs @ CHR ''/'' # t) = ([] # rs) @ split_slash t"
    using assms(1)
  proof (induction rs)
    case (Cons r rs)
    then have r: "CHR ''/'' \<notin> set r" "normal_segments rs" by (auto simp: normal_segments_def)
    have "slashed (r # rs) @ CHR ''/'' # t = CHR ''/'' # r @ (slashed rs @ CHR ''/'' # t)" by (simp add: slashed_def)
    moreover obtain u where "slashed rs @ CHR ''/'' # t = CHR ''/'' # u" by (cases rs) (auto simp: slashed_def)
    ultimately show ?case using Cons.IH r by (simp add: split_plain)
  qed (simp add: slashed_def)
  have "[] # cs = ([] # rs) @ split_slash t" using e split_slashed [OF assms(2)] assms(3) by simp
  then show ?thesis using split_slash_nonempty [of t] by auto
qed

lemma resolve_normal: "\<exists>ss. normal_segments ss \<and> resolve cwd p = path_text ss"
  unfolding resolve_def using segments_normal by blast

lemma in_roots_extends:
  assumes "in_roots (sandbox_roots cwd allowed) (path_text cs)" and "normal_segments cs"
  shows "\<exists>r \<in> set (sandbox_roots cwd allowed). path_text cs = r \<or>
    (\<exists>rs ss. normal_segments rs \<and> rs \<noteq> [] \<and> r = path_text rs \<and> ss \<noteq> [] \<and> cs = rs @ ss)"
proof -
  obtain r where r: "r \<in> set (sandbox_roots cwd allowed)" "path_text cs = r \<or> starts_with (path_text cs) (r @ ''/'')"
    using assms(1) by (auto simp: in_roots_def list_ex_iff)
  obtain rs where rs: "normal_segments rs" "r = path_text rs"
    using r(1) resolve_normal [of cwd] by (auto simp: sandbox_roots_def)
  show ?thesis
  proof (cases "path_text cs = r")
    case False
    then obtain t where t: "path_text cs = path_text rs @ CHR ''/'' # t" using r(2) rs(2) by (auto simp: starts_with_iff)
    have "length (path_text rs) > 0" by (cases rs) (auto simp: path_text_def)
    then have "length (path_text cs) > 1" unfolding t by simp
    then have "cs \<noteq> []" by (auto simp: path_text_def)
    then have c: "slashed cs = path_text rs @ CHR ''/'' # t" using t by (simp add: path_text_slashed)
    have "rs \<noteq> []"
    proof
      assume "rs = []"
      then obtain s cs' where "cs = s # cs'" "CHR ''/'' # s @ slashed cs' = CHR ''/'' # CHR ''/'' # t"
        using c \<open>cs \<noteq> []\<close> by (cases cs) (auto simp: slashed_def path_text_def)
      then show False using assms(2) by (cases s) (auto simp: normal_segments_def)
    qed
    then show ?thesis using slashed_prefix [OF rs(1) assms(2)] c rs r(1) by (metis path_text_slashed)
  qed (use r in blast)
qed

lemma slashed_append: "slashed (as @ bs) = slashed as @ slashed bs" by (simp add: slashed_def)

definition below :: "string list \<Rightarrow> string list \<Rightarrow> bool" where
  "below roots place \<longleftrightarrow> (\<exists>r \<in> set roots. \<exists>ss. place = segments_of r @ ss)"

lemma allowed_paths:
  assumes "assertAllowedPath cwd (sandbox_roots cwd allowed) p = Inr path"
  shows "(inside (sandbox_roots cwd allowed) path \<and> below (sandbox_roots cwd allowed) (segments_of path)) \<and>
    (inside (sandbox_roots cwd allowed) (dirname path) \<and> below (sandbox_roots cwd allowed) (segments_of (dirname path)) \<or>
     (\<exists>r \<in> set (sandbox_roots cwd allowed). dirname path = dirname r))"
proof -
  let ?roots = "sandbox_roots cwd allowed"
  obtain cs where cs: "normal_segments cs" "path = path_text cs" "in_roots ?roots (path_text cs)"
    using assms resolve_normal [of cwd p] by (auto simp: assertAllowedPath_def Let_def split: if_splits)
  obtain r where r: "r \<in> set ?roots" "path_text cs = r \<or>
    (\<exists>rs ss. normal_segments rs \<and> rs \<noteq> [] \<and> r = path_text rs \<and> ss \<noteq> [] \<and> cs = rs @ ss)"
    using in_roots_extends [OF cs(3,1)] by blast
  show ?thesis
  proof (cases "path_text cs = r")
    case True
    then show ?thesis using r cs(2) by (auto simp: inside_def below_def)
  next
    case False
    then obtain rs ss where e: "normal_segments rs" "rs \<noteq> []" "r = path_text rs" "ss \<noteq> []" "cs = rs @ ss" using r by blast
    have up: "''..'' \<notin> set ss" using cs(1) e(5) by (auto simp: normal_segments_def)
    have normal: "normal_segments (rs @ butlast ss)" using cs(1) e(5) by (auto simp: normal_segments_def dest: in_set_butlastD)
    have dir: "dirname path = path_text (rs @ butlast ss)" using cs e by (simp add: dirname_def segments_of_path butlast_append)
    have "path = r @ path_text ss" using e cs(2) by (simp add: path_text_slashed slashed_append)
    then have "inside ?roots path" using r(1) e(4) up by (auto simp: inside_def)
    moreover have "dirname path = r \<or> butlast ss \<noteq> [] \<and> dirname path = r @ path_text (butlast ss)"
      using e dir by (cases "butlast ss = []") (auto simp: path_text_slashed slashed_append)
    then have "inside ?roots (dirname path)" using r(1) up unfolding inside_def by (metis in_set_butlastD)
    moreover have "segments_of path = segments_of r @ ss" "segments_of (dirname path) = segments_of r @ butlast ss"
      using cs e dir by (simp_all add: segments_of_path segments_of_path [OF normal])
    then have "below ?roots (segments_of path)" "below ?roots (segments_of (dirname path))" using r(1) by (auto simp: below_def)
    ultimately show ?thesis by blast
  qed
qed

text \<open>A host that also records the paths it is asked for.\<close>

definition recorded :: "'x file_host \<Rightarrow> ('x \<times> (string \<times> string) list) file_host" where
  "recorded h =
     \<lparr>fh_cwd = fh_cwd h,
      fh_readFile = (\<lambda>p (x, l). case fh_readFile h p x of (r, x') \<Rightarrow> (r, (x', l @ [(''readFile'', p)]))),
      fh_mkdir = (\<lambda>p (x, l). case fh_mkdir h p x of (r, x') \<Rightarrow> (r, (x', l @ [(''mkdir'', p)]))),
      fh_writeFile = (\<lambda>p c (x, l). case fh_writeFile h p c x of (r, x') \<Rightarrow> (r, (x', l @ [(''writeFile'', p)])))\<rparr>"

text \<open>
  What a path names once symbolic links are followed: the segments are walked from the root of the file system, and a link sends
  the walk to its target, given as the segments of an absolute path. The system gives up after a number of steps (\<open>ELOOP\<close>).
  Which links there are is a parameter; the sandbox makes none and resolves none (there is no \<open>realpath\<close> in it).
\<close>

type_synonym links = "string list \<Rightarrow> string list option"

fun follow :: "nat \<Rightarrow> links \<Rightarrow> string list \<Rightarrow> string list \<Rightarrow> string list option" where
  "follow 0 links at_dir ss = None"
| "follow (Suc n) links at_dir [] = Some at_dir"
| "follow (Suc n) links at_dir (s # ss) = (case links (at_dir @ [s]) of
     None \<Rightarrow> follow n links (at_dir @ [s]) ss | Some target \<Rightarrow> follow n links [] (target @ ss))"

definition names_file :: "links \<Rightarrow> string \<Rightarrow> string list \<Rightarrow> bool" where
  "names_file links p place \<longleftrightarrow> (\<exists>n. follow n links [] (segments_of p) = Some place)"

text \<open>No link stands on the way to a root, and a link in a root leads to a place in a root.\<close>

definition links_contained :: "string list \<Rightarrow> links \<Rightarrow> bool" where
  "links_contained roots links \<longleftrightarrow> (\<forall>l target. links l = Some target \<longrightarrow>
     (below roots l \<longrightarrow> below roots target) \<and> (\<forall>r \<in> set roots. \<forall>ss. ss \<noteq> [] \<longrightarrow> segments_of r \<noteq> l @ ss))"

lemma follow_below:
  "links_contained roots links \<Longrightarrow> follow n links at_dir ss = Some place \<Longrightarrow>
    below roots at_dir \<or> (\<exists>r \<in> set roots. \<exists>us vs. segments_of r = at_dir @ us \<and> ss = us @ vs) \<Longrightarrow> below roots place"
proof (induction n links at_dir ss rule: follow.induct)
  case (2 n links at_dir)
  then show ?case by (auto simp: below_def)
next
  case (3 n links at_dir s ss)
  note at_or_above = 3(5)
  have here: "below roots (at_dir @ [s]) \<or>
      (\<exists>r \<in> set roots. \<exists>us vs. us \<noteq> [] \<and> segments_of r = (at_dir @ [s]) @ us \<and> ss = us @ vs)"
    using at_or_above unfolding below_def by (auto simp: Cons_eq_append_conv) (metis append_Nil2)+
  show ?case
  proof (cases "links (at_dir @ [s])")
    case None
    then show ?thesis using 3(1,3,4) here by auto
  next
    case (Some target)
    have c: "(below roots (at_dir @ [s]) \<longrightarrow> below roots target) \<and>
      (\<forall>r \<in> set roots. \<forall>us. us \<noteq> [] \<longrightarrow> segments_of r \<noteq> (at_dir @ [s]) @ us)"
      by (rule mp [OF spec [OF spec [OF 3(3) [unfolded links_contained_def]]] Some])
    have "below roots target" using here
    proof
      assume "\<exists>r \<in> set roots. \<exists>us vs. us \<noteq> [] \<and> segments_of r = (at_dir @ [s]) @ us \<and> ss = us @ vs"
      then show ?thesis using c by fast
    qed (use c in simp)
    then have "\<exists>r \<in> set roots. \<exists>us vs. segments_of r = [] @ us \<and> target @ ss = us @ vs" by (force simp: below_def)
    then show ?thesis using 3(2) [OF Some] 3(3,4) Some by auto
  qed
qed simp

text \<open>
  C38: Whatever path a request names and whatever the file system answers, the texts of the paths that the sandbox hands to
  \<open>readFile\<close>, \<open>writeFile\<close> and \<open>mkdir\<close> stay inside its roots (a directory may be the parent of a root). When no symbolic link inside
  a root leads out of the roots and none stands on the way to one, the files and directories they name lie in the roots, too; the
  code does not see to that, and a link that leads out is followed.
\<close>

theorem sandbox_stays_inside:
  "\<forall>(op, p) \<in> set (snd (snd (sandbox_execute (recorded h) (sandbox_roots (fh_cwd h) allowed) aid eid a (x, [])))).
     inside (sandbox_roots (fh_cwd h) allowed) p \<and>
       (links_contained (sandbox_roots (fh_cwd h) allowed) links \<longrightarrow>
         (\<forall>place. names_file links p place \<longrightarrow> below (sandbox_roots (fh_cwd h) allowed) place)) \<or>
     op = ''mkdir'' \<and> (\<exists>r \<in> set (sandbox_roots (fh_cwd h) allowed). p = dirname r)"
proof -
  have cwd: "fh_cwd (recorded h) = fh_cwd h" by (simp add: recorded_def)
  have kept: "links_contained (sandbox_roots (fh_cwd h) allowed) links \<longrightarrow>
      (\<forall>place. names_file links p place \<longrightarrow> below (sandbox_roots (fh_cwd h) allowed) place)"
    if "inside (sandbox_roots (fh_cwd h) allowed) p \<and> below (sandbox_roots (fh_cwd h) allowed) (segments_of p)" for p
    using that follow_below [of "sandbox_roots (fh_cwd h) allowed" links _ "[]" "segments_of p"] by (fastforce simp: names_file_def below_def)
  have "\<forall>(op, p) \<in> set (snd (snd (sandbox_execute (recorded h) (sandbox_roots (fh_cwd h) allowed) aid eid a (x, [])))).
     inside (sandbox_roots (fh_cwd h) allowed) p \<and> below (sandbox_roots (fh_cwd h) allowed) (segments_of p) \<or>
     op = ''mkdir'' \<and> (\<exists>r \<in> set (sandbox_roots (fh_cwd h) allowed). p = dirname r)"
    unfolding sandbox_execute_def cwd
    by (auto simp: act_throw_def act_bind_def act_return_def recorded_def dest!: allowed_paths
      split: option.splits sum.splits prod.splits if_splits)
  then show ?thesis using kept by fast
qed

definition sample_link :: links where
  "sample_link l = (if l = [''repo'', ''l''] then Some [''repo'', ''b''] else None)"

definition sample_file_host :: "string file_host" where
  "sample_file_host = \<lparr>fh_cwd = ''/repo'', fh_readFile = (\<lambda>p x. (Inr x, x)), fh_mkdir = (\<lambda>p x. (Inr (), x)),
     fh_writeFile = (\<lambda>p c x. (Inr (), c))\<rparr>"


definition sample_read :: "string \<Rightarrow> authorized_request" where
  "sample_read p =
     \<lparr>az_request = \<lparr>tq_schemaVersion = ''1.0.0'', tq_requestId = ''q'', tq_projectId = ''p'', tq_actorRef = ''a'',
        tq_workItemRef = ''w'', tq_workPackageRef = ''wp'', tq_toolId = ''sandbox-filesystem'', tq_operationId = ''filesystem.read'',
        tq_targetResource = ''r'', tq_environment = ''LOCAL'', tq_parameters = [(''path'', JStr p)],
        tq_authorityContextRef = ''c'', tq_idempotencyKey = ''k'', tq_correlationId = ''x''\<rparr>,
      az_policy = \<lparr>te_requestId = ''q'', te_decision = TP_ALLOW, te_reasonCode = ''ok'', te_policyRefs = [], te_authorityRefs = []\<rparr>\<rparr>"

lemma sample_resolutions: "resolve ''/repo'' ''src/../l/a'' = ''/repo/l/a''" "resolve ''/repo'' ''.'' = ''/repo''"
  by code_simp+

theorem sandbox_stays_inside_witness:
  "snd (snd (sandbox_execute (recorded sample_file_host) [''/repo''] ''i'' ''e'' (sample_read ''src/../l/a'') (''content'', []))) =
     [(''readFile'', ''/repo/l/a'')] \<and> names_file sample_link ''/repo/l/a'' [''repo'', ''b'', ''a''] \<and>
   below [''/repo''] [''repo'', ''b'', ''a'']"
proof -
  let ?calls = "snd (snd (sandbox_execute (recorded sample_file_host) [''/repo''] ''i'' ''e'' (sample_read ''src/../l/a'') (''content'', [])))"
  have calls: "?calls = [(''readFile'', ''/repo/l/a'')]"
    using sample_resolutions
    by (simp add: sandbox_execute_def recorded_def sample_file_host_def sample_read_def json_str_def assertAllowedPath_def in_roots_def
      act_bind_def act_return_def)
  have segs: "segments_of ''/repo'' = [''repo'']" "segments_of ''/repo/l/a'' = [''repo'', ''l'', ''a'']" by code_simp+
  have "follow 9 sample_link [] [''repo'', ''l'', ''a''] = Some [''repo'', ''b'', ''a'']" by code_simp
  then have named: "names_file sample_link ''/repo/l/a'' [''repo'', ''b'', ''a'']" unfolding names_file_def segs by blast
  have "links_contained [''/repo''] sample_link"
    by (auto simp: links_contained_def sample_link_def below_def segs Cons_eq_append_conv split: if_splits)
  then show ?thesis
    using sandbox_stays_inside [of sample_file_host "[''.'']" "''i''" "''e''" "sample_read ''src/../l/a''" "''content''" sample_link]
      sample_resolutions calls named
    by (simp add: sandbox_roots_def sample_file_host_def)
qed

text \<open>Nothing in the sandbox looks at links: one that leads out of a root makes it read a file outside.\<close>

lemma link_leads_out:
  "snd (snd (sandbox_execute (recorded sample_file_host) [''/repo''] ''i'' ''e'' (sample_read ''src/../l/a'') (''content'', []))) =
     [(''readFile'', ''/repo/l/a'')]"
  "names_file (\<lambda>l. if l = [''repo'', ''l''] then Some [''etc''] else None) ''/repo/l/a'' [''etc'', ''a'']"
  "\<not> below [''/repo''] [''etc'', ''a'']"
proof -
  show "snd (snd (sandbox_execute (recorded sample_file_host) [''/repo''] ''i'' ''e'' (sample_read ''src/../l/a'') (''content'', []))) =
     [(''readFile'', ''/repo/l/a'')]"
    using sample_resolutions
    by (simp add: sandbox_execute_def recorded_def sample_file_host_def sample_read_def json_str_def assertAllowedPath_def in_roots_def
      act_bind_def act_return_def)
  have segs: "segments_of ''/repo'' = [''repo'']" "segments_of ''/repo/l/a'' = [''repo'', ''l'', ''a'']" by code_simp+
  have "follow 9 (\<lambda>l. if l = [''repo'', ''l''] then Some [''etc''] else None) [] [''repo'', ''l'', ''a''] = Some [''etc'', ''a'']" by code_simp
  then show "names_file (\<lambda>l. if l = [''repo'', ''l''] then Some [''etc''] else None) ''/repo/l/a'' [''etc'', ''a'']"
    unfolding names_file_def segs by blast
  show "\<not> below [''/repo''] [''etc'', ''a'']" by (simp add: below_def segs)
qed

text \<open>With the file system's root as the only root, every path is refused except the root itself.\<close>

lemma root_of_everything_allows_nothing: "assertAllowedPath ''/repo'' (sandbox_roots ''/repo'' [''/'']) ''/etc'' \<noteq> Inr p"
proof -
  have "resolve ''/repo'' ''/'' = ''/''" "resolve ''/repo'' ''/etc'' = ''/etc''" by code_simp+
  then show ?thesis by (simp add: assertAllowedPath_def sandbox_roots_def in_roots_def)
qed

text \<open>
  The stand-in reviewer closes a run on any evidence: one item of evidence is enough, whatever its claim, and findings
  or unresolved items of the result do not matter.
\<close>

lemma reviewer_ignores_findings:
  "res_status r = AR_COMPLETED \<Longrightarrow> res_requestedInputs r = [] \<Longrightarrow> res_evidence r \<noteq> [] \<Longrightarrow>
     rv_decision (fallback_evaluate (r\<lparr>res_findings := fs, res_unresolvedItems := us\<rparr>)) = RD_COMPLETE"
  by (simp add: fallback_evaluate_def fallback_verdict_def)

text \<open>
  A qualification call succeeds exactly when it asks for the qualification, the process could be started and it ended
  by itself with exit code 0.
\<close>

theorem qualification_succeeds_iff:
  assumes "parse_authorized a = Inr a"
  shows "(\<exists>r. fst (qualification_execute spawn now a x) = Inr r \<and> tx_status r = TS_SUCCEEDED) \<longleftrightarrow>
    tq_operationId (az_request a) = ''qualification.run'' \<and> (\<exists>out err. fst (spawn x) = Inr (out, err, Some 0))"
proof -
  have rid: "tq_requestId (az_request a) \<noteq> []"
    using assms by (auto simp: parse_authorized_def valid_request_def list_all_iff split: if_splits)
  have fail: "fst (qualification_fail now r e y) = Inr v \<Longrightarrow> tx_status v = TS_SUCCEEDED \<Longrightarrow> False" for r e y v
    by (auto simp: qualification_fail_def parse_result_def act_throw_def act_return_def qualification_result_def
      split: sum.splits if_splits)
  have ok: "valid_result (qualification_result (''qual-'' @ show_int now) (tq_requestId (az_request a)) op st s)" if "op \<noteq> []" for op st s
    using rid that by (simp add: valid_result_def qualification_result_def)
  show ?thesis
  proof (cases "tq_operationId (az_request a) = ''qualification.run''")
    case False
    then show ?thesis by (auto simp: qualification_execute_def assms Let_def dest: fail)
  next
    case True
    obtain s y where s: "spawn x = (s, y)" by force
    show ?thesis
      using True ok [of "''qualification.run''"]
      by (cases s) (auto simp: qualification_execute_def assms s act_try_def parse_result_def act_return_def
        qualification_result_def Let_def dest: fail split: prod.splits option.splits if_splits)
  qed
qed


definition sample_qualification :: authorized_request where
  "sample_qualification = (sample_read ''p'')\<lparr>az_request := (az_request (sample_read ''p''))
     \<lparr>tq_toolId := ''qualification'', tq_operationId := ''qualification.run''\<rparr>\<rparr>"

theorem qualification_succeeds_iff_witness:
  "\<not> (\<exists>r. fst (qualification_execute (act_return (''out'', ''err'', None)) 1 sample_qualification ()) = Inr r \<and>
     tx_status r = TS_SUCCEEDED)"
proof -
  have "parse_authorized sample_qualification = Inr sample_qualification"
    by (simp add: sample_qualification_def sample_read_def parse_authorized_def valid_request_def)
  from qualification_succeeds_iff [OF this, of "act_return (''out'', ''err'', None)" 1 "()"] show ?thesis
    by (simp add: act_return_def)
qed

end
