(* ===== verification/Audit_Ledger.thy ===== *)
theory Audit_Ledger
  imports Tool_Gateway Event_Ledger
begin

text \<open>
  The persistent audit ledger of the gateway
  (\<^verbatim>\<open>packages/persistence/src/project/prisma-action-audit-ledger.ts\<close>): each proposal and each execution becomes an event
  of the attempt in the event ledger, with a revision that the ledger counts itself after it has read it once. Payloads
  are values of a datatype; fresh ids and the clock are of the host. A method is one action here: the call as it runs with no other
  call in between. How its awaits let calls overlap is the step relation of \<^verbatim>\<open>Audit_Calls\<close>, which has these actions as runs of one call alone.
\<close>

datatype audit_payload = AD_PROPOSED action_request | AD_DECIDED action_policy_decision "mutation_class list"
  | AD_EXECUTED string tool_result

record audit_host =
  ah_uuid :: "nat \<Rightarrow> string"
  ah_now :: "nat \<Rightarrow> int"
  ah_message :: "exn \<Rightarrow> string"
  ah_redact :: "(audit_payload \<Rightarrow> string + audit_payload) option"

record audit_ledger =
  dl_db :: "audit_payload ledger_db"
  dl_attemptId :: string
  dl_projectId :: string
  dl_revision :: "nat option"
  dl_entries :: "audit_entry list"
  dl_draws :: nat

definition set_revision :: "nat option \<Rightarrow> audit_ledger \<Rightarrow> audit_ledger" where
  "set_revision r l = l\<lparr>dl_revision := r\<rparr>"

definition getNextRevision :: "(audit_ledger, string, nat) act" where
  "getNextRevision l =
     (let known = (case dl_revision l of
            Some r \<Rightarrow> r
          | None \<Rightarrow> (case fst (pl_getEvents (dl_attemptId l) (dl_db l)) of
              Inr evs \<Rightarrow> fold max (map pe_aggregateRevision evs) 0 | Inl _ \<Rightarrow> 0))
      in (Inr (known + 1), set_revision (Some (known + 1)) l))"

definition attempt_audit_event ::
  "audit_host \<Rightarrow> audit_ledger \<Rightarrow> string \<Rightarrow> nat \<Rightarrow> actor_type \<Rightarrow> string \<Rightarrow> string \<Rightarrow> string \<Rightarrow> audit_payload \<Rightarrow> int \<Rightarrow>
     audit_payload project_event" where
  "attempt_audit_event h l kind n atype actor corr cause payload at =
     \<lparr>pe_id = ah_uuid h (dl_draws l), pe_projectId = dl_projectId l, pe_eventType = kind, pe_aggregateType = AGG_ATTEMPT,
      pe_aggregateId = dl_attemptId l, pe_aggregateRevision = n, pe_actorType = atype, pe_actorId = actor,
      pe_correlationId = corr, pe_causationId = Some cause, pe_schemaVersion = 1, pe_payload = payload, pe_occurredAt = at\<rparr>"

definition append_audit :: "audit_host \<Rightarrow> audit_payload project_event \<Rightarrow> (audit_ledger, string, unit) act" where
  "append_audit h ev l =
     (case pl_append ev (dl_db l) of
        (Inl e, db) \<Rightarrow> (Inl (ah_message h e), l\<lparr>dl_db := db, dl_draws := dl_draws l + 1\<rparr>)
      | (Inr _, db) \<Rightarrow> (Inr (), l\<lparr>dl_db := db, dl_draws := dl_draws l + 1\<rparr>))"

definition push_entry :: "audit_entry \<Rightarrow> audit_ledger \<Rightarrow> audit_ledger" where
  "push_entry e l = l\<lparr>dl_entries := dl_entries l @
     [e\<lparr>au_executedAt := None, au_executionResult :=
        (if pd_decision (au_decision e) = PD_DENY then Some NotExecuted else None)\<rparr>]\<rparr>"

definition audit_recordProposed :: "audit_host \<Rightarrow> audit_entry \<Rightarrow> (audit_ledger, string, unit) act" where
  "audit_recordProposed h e =
     (let rq = au_request e in
      act_bind getNextRevision (\<lambda>rev1.
      act_bind (\<lambda>l. append_audit h (attempt_audit_event h l ''HOST_ACTION_PROPOSED'' rev1 AGENT (rq_agentId rq)
        (rq_correlationId rq) (rq_actionId rq) (AD_PROPOSED rq) (au_proposedAt e)) l) (\<lambda>_.
      act_bind getNextRevision (\<lambda>rev2.
      act_bind (\<lambda>l. append_audit h (attempt_audit_event h l ''HOST_ACTION_POLICY_DECIDED'' rev2 SYSTEM ''policy-engine''
        (rq_correlationId rq) (rq_actionId rq) (AD_DECIDED (au_decision e) (au_classification e)) (ah_now h (dl_draws l))) l) (\<lambda>_ l.
      (Inr (), push_entry e l))))))"

text \<open>The first entry of the action is replaced.\<close>

fun set_executed :: "string \<Rightarrow> tool_result \<Rightarrow> int \<Rightarrow> audit_entry list \<Rightarrow> audit_entry list" where
  "set_executed i x now [] = []"
| "set_executed i x now (e # es) =
     (if au_actionId e = i then e\<lparr>au_executedAt := Some now, au_executionResult := Some (Executed x)\<rparr> # es
      else e # set_executed i x now es)"

definition redacted :: "audit_host \<Rightarrow> audit_payload \<Rightarrow> (audit_ledger, string, audit_payload) act" where
  "redacted h p = (case ah_redact h of None \<Rightarrow> act_return p
     | Some f \<Rightarrow> (case f p of Inl e \<Rightarrow> act_throw e | Inr q \<Rightarrow> act_return q))"

definition audit_recordExecuted :: "audit_host \<Rightarrow> string \<Rightarrow> tool_result \<Rightarrow> int \<Rightarrow> (audit_ledger, string, unit) act" where
  "audit_recordExecuted h i x now =
     act_bind getNextRevision (\<lambda>n.
     act_bind (redacted h (AD_EXECUTED i x)) (\<lambda>payload.
     act_bind (\<lambda>l. append_audit h (attempt_audit_event h l
         (if tx_status x = TS_UNKNOWN then ''HOST_ACTION_RECONCILIATION_REQUIRED'' else ''HOST_ACTION_EXECUTION_COMPLETED'')
         n SYSTEM ''gateway'' ''sys-corr'' i payload now) l) (\<lambda>_ l.
     (Inr (), l\<lparr>dl_entries := set_executed i x now (dl_entries l)\<rparr>))))"

definition audit_ops_of :: "audit_host \<Rightarrow> audit_ledger audit_ops" where
  "audit_ops_of h = \<lparr>al_recordProposed = audit_recordProposed h, al_recordExecuted = audit_recordExecuted h\<rparr>"

section \<open>The ledger of an attempt\<close>

text \<open>The events of one attempt, in the order in which they were appended.\<close>

definition attempt_events :: "audit_ledger \<Rightarrow> audit_payload project_event list" where
  "attempt_events l = filter (\<lambda>e. pe_aggregateId e = dl_attemptId l) (ld_events (dl_db l))"

text \<open>The revisions are 1, 2, ..., and the count, once read, is at the last of them.\<close>

definition numbered :: "audit_ledger \<Rightarrow> bool" where
  "numbered l \<longleftrightarrow> map pe_aggregateRevision (attempt_events l) = map Suc [0..<length (attempt_events l)] \<and>
     (\<forall>r. dl_revision l = Some r \<longrightarrow> r = length (attempt_events l))"

text \<open>The in-memory ledger of the tool package with the same entries.\<close>

definition mirrors :: "audit_ledger \<Rightarrow> memory_ledger \<Rightarrow> bool" where
  "mirrors l m \<longleftrightarrow> m = map (\<lambda>e. (au_actionId e, e)) (dl_entries l) \<and> distinct (map au_actionId (dl_entries l))"

lemma next_revision:
  assumes "numbered l"
  shows "getNextRevision l = (Inr (Suc (length (attempt_events l))), set_revision (Some (Suc (length (attempt_events l)))) l)"
proof (cases "dl_revision l")
  case None
  have s: "set (map pe_aggregateRevision (sort_key pe_aggregateRevision (attempt_events l))) = Suc ` {0..<length (attempt_events l)}"
    using assms by (metis numbered_def set_map set_sort set_upt)
  have "fold max (map pe_aggregateRevision (sort_key pe_aggregateRevision (attempt_events l))) 0 = length (attempt_events l)"
    (is "fold max ?rs 0 = ?n")
  proof (rule antisym)
    have "fold max ?rs 0 = Max (set (0 # ?rs))" by (simp add: Max.set_eq_fold del: set_simps)
    also have "\<dots> \<le> ?n" using s by (simp add: image_iff)
    finally show "fold max ?rs 0 \<le> ?n" .
    show "?n \<le> fold max ?rs 0"
    proof (cases ?n)
      case (Suc k)
      then have "Suc k \<in> set (0 # ?rs)" using s by auto
      from le_fold_max [OF this] show ?thesis using Suc by simp
    qed simp
  qed
  then show ?thesis using None by (simp add: getNextRevision_def pl_getEvents_def attempt_events_def Let_def)
next
  case (Some r)
  then show ?thesis using assms by (simp add: getNextRevision_def numbered_def Let_def)
qed


text \<open>An append of the next event.\<close>

lemma append_next:
  assumes "append_audit h (attempt_audit_event h l kind n t actor corr cause payload at) l = (Inr (), l')"
  shows "attempt_events l' = attempt_events l @ [attempt_audit_event h l kind n t actor corr cause payload at] \<and>
    dl_entries l' = dl_entries l \<and> dl_revision l' = dl_revision l"
  using assms insert_event_cases [of "attempt_audit_event h l kind n t actor corr cause payload at" "dl_db l"]
  by (cases rule: insert_event_cases [of "attempt_audit_event h l kind n t actor corr cause payload at" "dl_db l"])
     (auto simp: append_audit_def pl_append_def attempt_events_def attempt_audit_event_def split: prod.splits sum.splits)

lemma set_revision_sel [simp]:
  "attempt_events (set_revision r l) = attempt_events l" "dl_entries (set_revision r l) = dl_entries l"
  "dl_revision (set_revision r l) = r"
  by (simp_all add: set_revision_def attempt_events_def)

lemma counted:
  "numbered l \<Longrightarrow> act_bind getNextRevision k l =
     k (Suc (length (attempt_events l))) (set_revision (Some (Suc (length (attempt_events l)))) l)"
  by (simp add: act_bind_def next_revision)

lemma appended_next:
  assumes "numbered l" and "act_bind (\<lambda>l0. append_audit h (attempt_audit_event h l0 kind (Suc (length (attempt_events l))) t actor corr cause payload (at l0)) l0) k
      (set_revision (Some (Suc (length (attempt_events l)))) l) = (Inr (), l')"
  shows "\<exists>l1 ev. numbered l1 \<and> dl_entries l1 = dl_entries l \<and> attempt_events l1 = attempt_events l @ [ev] \<and>
    pe_eventType ev = kind \<and> pe_payload ev = payload \<and> k () l1 = (Inr (), l')"
proof -
  let ?l0 = "set_revision (Some (Suc (length (attempt_events l)))) l"
  obtain l1 where l1: "append_audit h (attempt_audit_event h ?l0 kind (Suc (length (attempt_events l))) t actor corr cause payload (at ?l0)) ?l0 = (Inr (), l1)"
    "k () l1 = (Inr (), l')"
    using assms(2) by (auto simp: act_bind_def split: prod.splits sum.splits)
  let ?ev = "attempt_audit_event h ?l0 kind (Suc (length (attempt_events l))) t actor corr cause payload (at ?l0)"
  have e: "attempt_events l1 = attempt_events l @ [?ev]" "dl_entries l1 = dl_entries l"
    "dl_revision l1 = Some (Suc (length (attempt_events l)))"
    using append_next [OF l1(1)] by simp_all
  have ev: "pe_eventType ?ev = kind" "pe_payload ?ev = payload" "pe_aggregateRevision ?ev = Suc (length (attempt_events l))"
    by (simp_all add: attempt_audit_event_def)
  have "numbered l1" using assms(1) e ev(3) by (simp add: numbered_def)
  then show ?thesis using e ev l1(2) by blast
qed

lemma proposed_effect:
  assumes n: "numbered l" and r: "audit_recordProposed h e l = (Inr (), l')"
  shows "numbered l' \<and> dl_entries l' = dl_entries (push_entry e l) \<and>
    (\<exists>ev1 ev2. attempt_events l' = attempt_events l @ [ev1, ev2] \<and> pe_payload ev1 = AD_PROPOSED (au_request e) \<and>
       pe_payload ev2 = AD_DECIDED (au_decision e) (au_classification e))"
proof -
  note r1 = r [unfolded audit_recordProposed_def Let_def counted [OF n]]
  obtain l1 ev1 where l1: "numbered l1" "dl_entries l1 = dl_entries l" "attempt_events l1 = attempt_events l @ [ev1]"
    "pe_payload ev1 = AD_PROPOSED (au_request e)"
    "act_bind getNextRevision (\<lambda>n. act_bind (\<lambda>l. append_audit h (attempt_audit_event h l ''HOST_ACTION_POLICY_DECIDED'' n SYSTEM ''policy-engine''
        (rq_correlationId (au_request e)) (rq_actionId (au_request e)) (AD_DECIDED (au_decision e) (au_classification e))
        (ah_now h (dl_draws l))) l) (\<lambda>_ l. (Inr (), push_entry e l))) l1 = (Inr (), l')"
    using appended_next [where at = "\<lambda>_. au_proposedAt e", OF n r1] by blast
  note r2 = l1(5) [unfolded counted [OF l1(1)]]
  obtain l2 ev2 where "numbered l2" "dl_entries l2 = dl_entries l1" "attempt_events l2 = attempt_events l1 @ [ev2]"
    "pe_payload ev2 = AD_DECIDED (au_decision e) (au_classification e)" "(Inr (), push_entry e l2) = (Inr () :: string + unit, l')"
    using appended_next [OF l1(1) r2] by blast
  then show ?thesis using l1 by (auto simp: push_entry_def numbered_def attempt_events_def)
qed

text \<open>The payload of an execution as the redactor leaves it.\<close>

definition stored_payload :: "audit_host \<Rightarrow> audit_payload \<Rightarrow> audit_payload \<Rightarrow> bool" where
  "stored_payload h p q \<longleftrightarrow> (case ah_redact h of None \<Rightarrow> q = p | Some f \<Rightarrow> f p = Inr q)"

definition execution_kind :: "tool_result \<Rightarrow> string" where
  "execution_kind x = (if tx_status x = TS_UNKNOWN then ''HOST_ACTION_RECONCILIATION_REQUIRED'' else ''HOST_ACTION_EXECUTION_COMPLETED'')"

lemma redacted_bind: "act_bind (redacted h p) k l = (Inr (), l') \<Longrightarrow> \<exists>q. stored_payload h p q \<and> k q l = (Inr (), l')"
  unfolding stored_payload_def
  by (auto simp: redacted_def act_bind_def act_return_def act_throw_def split: option.splits sum.splits)

lemma executed_effect:
  assumes n: "numbered l" and r: "audit_recordExecuted h i x now l = (Inr (), l')"
  shows "numbered l' \<and> dl_entries l' = set_executed i x now (dl_entries l) \<and>
    (\<exists>ev. attempt_events l' = attempt_events l @ [ev] \<and> pe_eventType ev = execution_kind x \<and>
       stored_payload h (AD_EXECUTED i x) (pe_payload ev))"
proof -
  obtain q where q: "stored_payload h (AD_EXECUTED i x) q" and "act_bind (\<lambda>l0. append_audit h (attempt_audit_event h l0
         (if tx_status x = TS_UNKNOWN then ''HOST_ACTION_RECONCILIATION_REQUIRED'' else ''HOST_ACTION_EXECUTION_COMPLETED'')
         (Suc (length (attempt_events l))) SYSTEM ''gateway'' ''sys-corr'' i q now) l0)
     (\<lambda>_ l. (Inr (), l\<lparr>dl_entries := set_executed i x now (dl_entries l)\<rparr>))
     (set_revision (Some (Suc (length (attempt_events l)))) l) = (Inr (), l')"
    using redacted_bind [OF r [unfolded audit_recordExecuted_def counted [OF n]]] by blast
  from appended_next [where at = "\<lambda>_. now", OF n this(2)] obtain l1 ev where "numbered l1" "dl_entries l1 = dl_entries l"
    "attempt_events l1 = attempt_events l @ [ev]" "pe_eventType ev = execution_kind x" "pe_payload ev = q"
    "(Inr () :: string + unit, l1\<lparr>dl_entries := set_executed i x now (dl_entries l1)\<rparr>) = (Inr (), l')" unfolding execution_kind_def by blast
  then show ?thesis using q by (auto simp: numbered_def attempt_events_def)
qed

section \<open>Agreement with the ledger in memory\<close>

lemma jm_set_absent: "k \<notin> fst ` set m \<Longrightarrow> jm_set k v m = m @ [(k, v)]"
  by (induction m) auto

lemma mirrors_proposed:
  assumes "mirrors l m" and "au_actionId e \<notin> au_actionId ` set (dl_entries l)" and "dl_entries l' = dl_entries (push_entry e l)"
  shows "mirrors l' (snd (mem_recordProposed e m))"
proof -
  have "au_actionId e \<notin> fst ` set m" using assms(1,2) by (auto simp: mirrors_def)
  then show ?thesis using assms by (simp add: mem_recordProposed_def jm_set_absent mirrors_def push_entry_def)
qed

lemma set_executed_ids: "map au_actionId (set_executed i x now es) = map au_actionId es"
  by (induction es) auto

lemma mirrors_executed:
  assumes "mirrors l m" and "dl_entries l' = set_executed i x now (dl_entries l)"
  shows "mirrors l' (snd (mem_recordExecuted i x now m))"
proof -
  have "snd (mem_recordExecuted i x now (map (\<lambda>e. (au_actionId e, e)) es)) =
      map (\<lambda>e. (au_actionId e, e)) (set_executed i x now es)" for es
  proof (induction es)
    case (Cons e es)
    then show ?case by (cases "jm_get (map (\<lambda>e. (au_actionId e, e)) es) i") (auto simp: mem_recordExecuted_def)
  qed (simp add: mem_recordExecuted_def)
  then show ?thesis using assms by (simp add: mirrors_def set_executed_ids)
qed

text \<open>
  Calls that run one after the other: when a call succeeds, on a ledger whose count agrees with the events of the attempt, its entries
  stay those of the ledger in memory (a proposal must be of an action that has no entry yet), and the events of the attempt keep the
  revisions 1, 2, and so on: a proposal adds the request and the decision, an execution its redacted result.
\<close>

theorem audit_ledger_refines_memory:
  assumes "numbered l" and "mirrors l m"
  shows "(audit_recordProposed h e l = (Inr (), l') \<longrightarrow> au_actionId e \<notin> au_actionId ` set (dl_entries l) \<longrightarrow>
      numbered l' \<and> mirrors l' (snd (mem_recordProposed e m)) \<and>
      (\<exists>ev1 ev2. attempt_events l' = attempt_events l @ [ev1, ev2] \<and> pe_payload ev1 = AD_PROPOSED (au_request e) \<and>
         pe_payload ev2 = AD_DECIDED (au_decision e) (au_classification e))) \<and>
    (audit_recordExecuted h i x now l = (Inr (), l') \<longrightarrow>
      numbered l' \<and> mirrors l' (snd (mem_recordExecuted i x now m)) \<and>
      (\<exists>ev. attempt_events l' = attempt_events l @ [ev] \<and> pe_eventType ev = execution_kind x \<and>
         stored_payload h (AD_EXECUTED i x) (pe_payload ev)))"
  using proposed_effect [OF assms(1)] executed_effect [OF assms(1)] mirrors_proposed [OF assms(2)] mirrors_executed [OF assms(2)]
  by metis


definition sample_audit_host :: audit_host where
  "sample_audit_host = \<lparr>ah_uuid = (\<lambda>n. replicate (Suc n) (CHR ''u'')), ah_now = (\<lambda>n. 7), ah_message = (\<lambda>e. ''append failed''),
     ah_redact = None\<rparr>"

definition sample_entry :: "string \<Rightarrow> audit_entry" where
  "sample_entry i = \<lparr>au_actionId = i, au_proposedAt = 5, au_request = (sample_git_request ''git.commit'' [] [])\<lparr>rq_actionId := i\<rparr>,
     au_classification = [], au_decision = \<lparr>pd_actionId = i, pd_decision = PD_DENY, pd_policyRule = ''r'', pd_currentGate = G_AUDIT,
       pd_requiredAuthority = None, pd_grantedByAuthorityId = None, pd_triggeringClasses = [], pd_allClasses = [],
       pd_reason = ''x''\<rparr>, au_executedAt = None, au_executionResult = None\<rparr>"

definition empty_audit :: audit_ledger where
  "empty_audit = \<lparr>dl_db = \<lparr>ld_projects = [createProject ''p1'' ''s'' ''n'' 0], ld_events = [], ld_outbox = [], ld_now = 0\<rparr>,
     dl_attemptId = ''a1'', dl_projectId = ''p1'', dl_revision = None, dl_entries = [], dl_draws = 0\<rparr>"

definition proposed_once :: audit_ledger where
  "proposed_once = snd (audit_recordProposed sample_audit_host (sample_entry ''x1'') empty_audit)"

lemmas audit_unfold = audit_recordProposed_def getNextRevision_def append_audit_def pl_append_def insert_event_def
  event_violation_def attempt_audit_event_def set_revision_def pl_getEvents_def act_bind_def project_of_def outbox_of_def push_entry_def

lemma first_proposal: "audit_recordProposed sample_audit_host (sample_entry ''x1'') empty_audit = (Inr (), proposed_once)"
  unfolding proposed_once_def
  by (simp add: audit_unfold empty_audit_def sample_audit_host_def createProject_def Let_def)

theorem audit_ledger_refines_memory_witness:
  "numbered proposed_once \<and> mirrors proposed_once (snd (mem_recordProposed (sample_entry ''x1'') []))"
proof -
  have "numbered empty_audit" "mirrors empty_audit []" by (simp_all add: numbered_def attempt_events_def mirrors_def empty_audit_def)
  from audit_ledger_refines_memory [OF this, of sample_audit_host "sample_entry ''x1''" proposed_once] show ?thesis
    using first_proposal by (simp add: empty_audit_def)
qed

text \<open>
  Two ledgers of one attempt count apart: after another one has written, the next proposal of the first is refused by the
  unique revisions, and with it the action.
\<close>

definition other_ledger :: audit_ledger where
  "other_ledger = snd (audit_recordProposed sample_audit_host (sample_entry ''x2'') (proposed_once\<lparr>dl_revision := None, dl_entries := []\<rparr>))"

lemma second_ledger_blocks_the_first:
  "fst (audit_recordProposed sample_audit_host (sample_entry ''x2'') (proposed_once\<lparr>dl_revision := None, dl_entries := []\<rparr>)) = Inr ()"
  "fst (audit_recordProposed sample_audit_host (sample_entry ''x3'') (proposed_once\<lparr>dl_db := dl_db other_ledger, dl_draws := 4\<rparr>)) =
     Inl ''append failed''"
  unfolding other_ledger_def proposed_once_def
  by (simp_all add: audit_unfold empty_audit_def sample_audit_host_def createProject_def Let_def numeral_eq_Suc)

end
