(* ===== verification/Runtime_Composition.thy ===== *)
theory Runtime_Composition
  imports Governed_Runs Git_Adapter Edge_Adapters Audit_Ledger Run_Services Antigravity_Bridge
begin

text \<open>
  The runtime as it is put together (\<^verbatim>\<open>packages/orchestrator/src/runtime-composition.ts\<close>): one owner processor, one
  policy engine on its read-only view, three adapters, an audit ledger of its own and one for each attempt, and the
  gateways on them: for the Codex agent, for the reviewer, and one for each attempt of the Antigravity bridge, which its
  child reaches through the socket of the attempt. All ledgers write to one event ledger. What belongs to the host
  (processes, files, clock, random ids) is a parameter.
\<close>

record 'w runtime_env =
  re_sha :: "string \<Rightarrow> string"
  re_git :: "'w git_host"
  re_files :: "'w file_host"
  re_qualification :: "'w qualification_host"
  re_ids :: "'w \<Rightarrow> string \<times> string"
  re_uuid :: "'w \<Rightarrow> string \<times> 'w"
  re_audit :: audit_host
  re_message :: "gateway_error \<Rightarrow> string"
  re_reason :: "string \<Rightarrow> string"
  re_listen :: "string \<Rightarrow> ('w, exn, unit) act"

record runtime_options =
  ro_taskId :: string
  ro_ownerRef :: "string option"
  ro_initialGate :: "execution_gate option"
  ro_environment :: "environment option"
  ro_attemptId :: "string option"
  ro_projectId :: "string option"
  ro_secrets :: "string list option"

text \<open>
  The ledgers share the rows of the event ledger and the supply of ids. \<open>None\<close> names the ledger of the composition,
  \<open>Some\<close> that of an attempt.
\<close>

record runtime_ledgers =
  ru_db :: "audit_payload ledger_db"
  ru_draws :: nat
  ru_open :: "(string option, audit_ledger) jsmap"

type_synonym 'w runtime_world = "(runtime_ledgers, 'w git_repo) gw_world"

definition new_audit_ledger :: "string \<Rightarrow> string \<Rightarrow> audit_payload ledger_db \<Rightarrow> nat \<Rightarrow> audit_ledger" where
  "new_audit_ledger attemptId projectId db draws =
     \<lparr>dl_db = db, dl_attemptId = attemptId, dl_projectId = projectId, dl_revision = None, dl_entries = [], dl_draws = draws\<rparr>"

definition ledger_at :: "runtime_options \<Rightarrow> string \<Rightarrow> string option \<Rightarrow> runtime_ledgers \<Rightarrow> audit_ledger" where
  "ledger_at opts fresh k ls =
     (case jm_get (ru_open ls) k of
        None \<Rightarrow> new_audit_ledger (case k of None \<Rightarrow> default_to fresh (ro_attemptId opts) (\<lambda>i. i) | Some i \<Rightarrow> i)
          (default_to ''default'' (ro_projectId opts) (\<lambda>i. i)) (ru_db ls) (ru_draws ls)
      | Some l \<Rightarrow> l\<lparr>dl_db := ru_db ls, dl_draws := ru_draws ls\<rparr>)"

definition on_ledger :: "runtime_options \<Rightarrow> string \<Rightarrow> string option \<Rightarrow> (audit_ledger, string, unit) act \<Rightarrow>
    (runtime_ledgers, string, unit) act" where
  "on_ledger opts fresh k m ls =
     (case m (ledger_at opts fresh k ls) of
        (r, l) \<Rightarrow> (r, \<lparr>ru_db = dl_db l, ru_draws = dl_draws l, ru_open = jm_set k l (ru_open ls)\<rparr>))"

definition runtime_audit :: "'w runtime_env \<Rightarrow> runtime_options \<Rightarrow> string \<Rightarrow> string option \<Rightarrow> runtime_ledgers audit_ops" where
  "runtime_audit env opts fresh k =
     \<lparr>al_recordProposed = (\<lambda>e. on_ledger opts fresh k (audit_recordProposed (re_audit env) e)),
      al_recordExecuted = (\<lambda>i x now. on_ledger opts fresh k (audit_recordExecuted (re_audit env) i x now))\<rparr>"

definition runtime_adapters :: "'w runtime_env \<Rightarrow> (string \<times> 'w git_repo tool_adapter) list" where
  "runtime_adapters env =
     [(''sandbox-filesystem'', \<lambda>a r. case re_ids env (gr_outside r) of (aid, eid) \<Rightarrow>
         on_outside (sandbox_execute (re_files env) (sandbox_roots (fh_cwd (re_files env)) []) aid eid a) r),
      (''git'', executeAuthorized (re_sha env) (re_git env) (gh_processCwd (re_git env))),
      (''qualification'', \<lambda>a r. on_outside (qualification_execute (re_qualification env) (gh_now (re_git env) (gr_outside r)) a) r)]"

definition runtime_gateway :: "'w runtime_env \<Rightarrow> runtime_options \<Rightarrow> string \<Rightarrow> string option \<Rightarrow>
    (runtime_ledgers, 'w git_repo) gateway" where
  "runtime_gateway env opts fresh k =
     createProductionGateway (runtime_adapters env) (runtime_audit env opts fresh k) True
       (Some (default_to [] (ro_secrets opts) (\<lambda>ss. ss)))"

text \<open>What the server of an attempt hands a proposal to: the gateway of the attempt, with a fresh action id.\<close>

definition draw_id :: "'w runtime_env \<Rightarrow> 'w runtime_world \<Rightarrow> string \<times> 'w runtime_world" where
  "draw_id env = (\<lambda>(p, ls, r). case re_uuid env (gr_outside r) of (i, x) \<Rightarrow> (i, (p, ls, r\<lparr>gr_outside := x\<rparr>)))"

definition runtime_bridge_host :: "'w runtime_env \<Rightarrow> runtime_options \<Rightarrow> string \<Rightarrow> 'w runtime_world bridge_host" where
  "runtime_bridge_host env opts fresh =
     \<lparr>hb_gateway = (\<lambda>attemptId q w. case draw_id env w of (aid, w1) \<Rightarrow>
        (case gateway_execute (runtime_gateway env opts fresh (Some attemptId)) q aid (gh_now (re_git env) (gr_outside (snd (snd w1)))) w1 of
           (Inl e, w2) \<Rightarrow> (Inl (re_message env e), w2) | (Inr x, w2) \<Rightarrow> (Inr x, w2))),
      hb_uuid = draw_id env, hb_reason = re_reason env,
      hb_listen = (\<lambda>nonce (p, ls, r). case re_listen env nonce (gr_outside r) of (res, x) \<Rightarrow> (res, (p, ls, r\<lparr>gr_outside := x\<rparr>)))\<rparr>"

text \<open>
  The run coordinator is made of the bridge on \<open>rt_bridgeHost\<close>, the event ledger, the reviewer and the task; its theory has
  them as parameters.
\<close>

record 'w runtime_composition =
  rt_issuer :: issuer
  rt_reconIssuer :: "bool \<Rightarrow> string \<Rightarrow> string \<Rightarrow> string \<Rightarrow> outcome_arg"
  rt_ownerProcessor :: owner_processor
  rt_gateway :: "(runtime_ledgers, 'w git_repo) gateway"
  rt_reviewerGateway :: "(runtime_ledgers, 'w git_repo) gateway"
  rt_gatewayFactory :: "string \<Rightarrow> (runtime_ledgers, 'w git_repo) gateway"
  rt_bridgeHost :: "'w runtime_world bridge_host"
  rt_reviewer :: "agent_run_result \<Rightarrow> review_request option \<Rightarrow> ('w runtime_world, exn, review_verdict) act"
  rt_canonicalTaskId :: string

definition createRuntimeComposition :: "'w runtime_env \<Rightarrow> runtime_options \<Rightarrow> string \<Rightarrow> int \<Rightarrow> 'w runtime_composition" where
  "createRuntimeComposition env opts fresh now =
     (let owner = default_to ''owner:system'' (ro_ownerRef opts) (\<lambda>r. r) in
      \<lparr>rt_issuer = \<lparr>is_ownerRef = owner, is_taskId = ro_taskId opts\<rparr>, rt_reconIssuer = issueOutcome owner,
       rt_ownerProcessor = new_processor (ro_taskId opts) (default_to G_AUDIT (ro_initialGate opts) (\<lambda>g. g))
         (default_to ENV_LOCAL (ro_environment opts) (\<lambda>e. e)) now,
       rt_gateway = runtime_gateway env opts fresh None, rt_reviewerGateway = runtime_gateway env opts fresh None,
       rt_gatewayFactory = (\<lambda>attemptId. runtime_gateway env opts fresh (Some attemptId)),
       rt_bridgeHost = runtime_bridge_host env opts fresh,
       rt_reviewer = reviewExecution (Some (\<lambda>request candidate. act_return (fallback_evaluate candidate))),
       rt_canonicalTaskId = ro_taskId opts\<rparr>)"

section \<open>The runtime over time, without the owner\<close>

text \<open>
  What agents, reviewers and the world can do: any call of a gateway, anything a child writes to the socket of its attempt,
  a new ledger for an attempt, and changes of the event ledger and of the world. No event of the owner is among it.
\<close>

inductive runtime_step :: "'w runtime_env \<Rightarrow> runtime_options \<Rightarrow> string \<Rightarrow> json_reader \<Rightarrow> 'w runtime_world \<Rightarrow> 'w runtime_world \<Rightarrow> bool"
  for env opts fresh rd where
  ru_call: "runtime_step env opts fresh rd w (snd (gateway_execute (runtime_gateway env opts fresh k) q aid now w))"
| ru_socket: "runtime_step env opts fresh rd w (snd (connection rd (runtime_bridge_host env opts fresh) sv buffer chunks w))"
| ru_attempt: "runtime_step env opts fresh rd (p, ls, r) (p, ls\<lparr>ru_open := jm_delete (Some attemptId) (ru_open ls)\<rparr>, r)"
| ru_outside: "runtime_step env opts fresh rd (p, ls, r) (p, ls\<lparr>ru_db := db\<rparr>, r\<lparr>gr_outside := x\<rparr>)"

inductive runtime_reach :: "'w runtime_env \<Rightarrow> runtime_options \<Rightarrow> string \<Rightarrow> json_reader \<Rightarrow> 'w runtime_world \<Rightarrow> 'w runtime_world \<Rightarrow> bool"
  for env opts fresh rd w where
  rr_here: "runtime_reach env opts fresh rd w w"
| rr_next: "runtime_reach env opts fresh rd w u \<Longrightarrow> runtime_step env opts fresh rd u v \<Longrightarrow> runtime_reach env opts fresh rd w v"

text \<open>The classes that a gate lets pass without a grant.\<close>

definition free_class :: "execution_gate \<Rightarrow> mutation_class \<Rightarrow> bool" where
  "free_class gate c \<longleftrightarrow> c \<in> set (gr_allowedClasses (GATE_POLICY gate)) \<and> required_token (GATE_POLICY gate) c = None"

lemma no_grants_no_tokens:
  assumes "ow_grants p = []" and "pd_decision (policy_decision_of p aid q) = PD_ALLOW"
  shows "pd_grantedByAuthorityId (policy_decision_of p aid q) = None"
    and "\<forall>c \<in> set (classify (bridgeToActionRequest aid q)). free_class (ow_gate p) c"
proof -
  have view: "cx_activeAuthorities (readOnlyView p) = []" "cx_gate (readOnlyView p) = ow_gate p"
    using assms(1) by (simp_all add: readOnlyView_def)
  note allow = assms(2) [unfolded policy_decision_of_def]
  show "pd_grantedByAuthorityId (policy_decision_of p aid q) = None"
  proof (rule ccontr)
    assume "pd_grantedByAuthorityId (policy_decision_of p aid q) \<noteq> None"
    from check_tokens_granted [OF conjunct1 [OF evaluate_granted [OF allow]] this [unfolded policy_decision_of_def]]
    show False by (simp add: view)
  qed
  show "\<forall>c \<in> set (classify (bridgeToActionRequest aid q)). free_class (ow_gate p) c"
    using allow unfolding allow_conditions_iff allow_conditions_def free_class_def view
    by (metis empty_iff list.set(1) option.exhaust)
qed

text \<open>What a call does while there is no grant: the owner's state stays, and an adapter runs only on free classes.\<close>

lemma call_without_grants:
  assumes cfg: "gw_policy g = ActionPolicy" and none: "ow_grants p = []"
    and call: "gateway_execute g q aid now (p, l, x) = (r, (p', l', x'))"
  shows "p' = p" and "x' = x \<or> (\<exists>ad. adapter_of g (tq_toolId q) = Some ad \<and> x' = snd (ad (authorized_for p aid q) x) \<and>
    (\<forall>c \<in> set (classify (bridgeToActionRequest aid q)). free_class (ow_gate p) c))"
proof -
  consider (invalid) "\<not> valid_request q" | (denied) "valid_request q" "pd_decision (policy_decision_of p aid q) \<noteq> PD_ALLOW"
    | (allowed) "valid_request q" "pd_decision (policy_decision_of p aid q) = PD_ALLOW" by blast
  then have "p' = p \<and> (x' = x \<or> (\<exists>ad. adapter_of g (tq_toolId q) = Some ad \<and> x' = snd (ad (authorized_for p aid q) x) \<and>
    (\<forall>c \<in> set (classify (bridgeToActionRequest aid q)). free_class (ow_gate p) c)))"
  proof cases
    case invalid
    then show ?thesis using call by (simp add: gateway_execute_def act_throw_def)
  next
    case denied
    then show ?thesis using call by (auto simp: gateway_action_eq [OF cfg] split: prod.splits sum.splits)
  next
    case allowed
    note free = no_grants_no_tokens [OF none allowed(2)]
    have v: "vp_grant (verdict_for p aid q) = None" using free(1) by (simp add: verdict_for_def Let_def)
    have "x' = x \<or> (\<exists>ad. adapter_of g (tq_toolId q) = Some ad \<and> x' = snd (ad (authorized_for p aid q) x))"
      using call
      by (auto simp: gateway_action_eq [OF cfg allowed(1)] act_bind_def act_try_def on_adapter_def with_grant_unused [OF v]
        settle_grant_def of_sum_def act_throw_def record_execution_def act_return_def on_audit_def
        split: sum.splits if_splits option.splits prod.splits)
    then show ?thesis using ungranted_call [OF cfg free(1) call] free(2) by blast
  qed
  then show "p' = p" and "x' = x \<or> (\<exists>ad. adapter_of g (tq_toolId q) = Some ad \<and> x' = snd (ad (authorized_for p aid q) x) \<and>
    (\<forall>c \<in> set (classify (bridgeToActionRequest aid q)). free_class (ow_gate p) c))" by blast+
qed

lemma runtime_gateway_sel [simp]: "gw_policy (runtime_gateway env opts fresh k) = ActionPolicy"
  by (simp add: runtime_gateway_def createProductionGateway_def)

lemma runtime_adapter_of:
  "adapter_of (runtime_gateway env opts fresh k) t = Some ad \<Longrightarrow> (t, ad) \<in> set (runtime_adapters env)"
  by (auto simp: adapter_of_def runtime_gateway_def createProductionGateway_def runtime_adapters_def split: if_splits)

text \<open>The sandbox has no roots: it touches nothing.\<close>

lemma rootless_sandbox: "snd (sandbox_execute h (sandbox_roots cwd []) aid eid a x) = x"
  by (simp add: sandbox_execute_def assertAllowedPath_def sandbox_roots_def in_roots_def act_throw_def Let_def split: option.split)

lemma rootless_adapter: "snd (on_outside (sandbox_execute h (sandbox_roots cwd []) aid eid a) r) = r"
proof -
  obtain res w where e: "sandbox_execute h (sandbox_roots cwd []) aid eid a (gr_outside r) = (res, w)" by fastforce
  have "w = gr_outside r" using rootless_sandbox [of h cwd aid eid a "gr_outside r"] e by simp
  then show ?thesis by (simp add: on_outside_def e)
qed

lemma keeps_draw: "fst (snd (draw_id env w)) = fst w"
  by (cases w) (simp add: draw_id_def split: prod.split)

lemma keeps_message:
  assumes "ow_grants (fst w) = []"
  shows "fst (snd (handleMessage rd (runtime_bridge_host env opts fresh) sv line w)) = fst w"
proof -
  have call: "fst (snd (hb_gateway (runtime_bridge_host env opts fresh) a q w1)) = fst w1" if "ow_grants (fst w1) = []" for a q w1
  proof -
    obtain aid p l x where w1: "draw_id env w1 = (aid, (p, l, x))" by (metis prod_cases4)
    have p: "p = fst w1" using keeps_draw [of env w1] w1 by simp
    obtain r p' l' x' where g: "gateway_execute (runtime_gateway env opts fresh (Some a)) q aid
        (gh_now (re_git env) (gr_outside x)) (p, l, x) = (r, (p', l', x'))" by (metis prod_cases4)
    have "p' = p" by (rule call_without_grants(1) [OF _ _ g]) (use that p in simp_all)
    then show ?thesis by (cases r) (simp_all add: runtime_bridge_host_def w1 g flip: p)
  qed
  have draw: "hb_uuid (runtime_bridge_host env opts fresh) = draw_id env" by (simp add: runtime_bridge_host_def)
  obtain i w1 where d1: "draw_id env w = (i, w1)" by (metis prod.exhaust)
  obtain j w2 where d2: "draw_id env w1 = (j, w2)" by (metis prod.exhaust)
  have kept: "fst w1 = fst w" "fst w2 = fst w" using keeps_draw [of env w] keeps_draw [of env w1] by (simp_all add: d1 d2)
  have answered: "fst w3 = fst w" if "hb_gateway (runtime_bridge_host env opts fresh) a q w2 = (r, w3)" for a q r w3
    using call [of w2 a q] that assms kept by simp
  show ?thesis by (auto simp: handleMessage_def draw d1 d2 kept Let_def split: option.split prod.split sum.split dest: answered)
qed

lemma keeps_connection:
  "ow_grants (fst w) = [] \<Longrightarrow> fst (snd (connection rd (runtime_bridge_host env opts fresh) sv buffer chunks w)) = fst w"
proof (induction chunks arbitrary: buffer w)
  case (Cons c cs)
  let ?h = "runtime_bridge_host env opts fresh"
  obtain b rs w1 where d: "on_data rd ?h sv buffer c w = ((b, rs), w1)" by (metis prod.exhaust)
  obtain b' rs' w2 where e: "connection rd ?h sv b cs w1 = ((b', rs'), w2)" by (metis prod.exhaust)
  have w1: "fst w1 = fst w"
  proof -
    obtain t where t: "t = buffer @ c" by simp
    obtain m u where m: "handleMessage rd ?h sv (takeWhile (\<lambda>c. c \<noteq> line_end) t) w = (m, u)" by (metis prod.exhaust)
    then have "fst u = fst w" using keeps_message [OF Cons.prems] by (metis snd_conv)
    then show ?thesis using d by (auto simp: on_data_def Let_def m simp flip: t split: if_splits)
  qed
  then show ?case using Cons.IH [of w1 b] Cons.prems by (simp add: d e)
qed simp

lemma runtime_step_keeps:
  "runtime_step env opts fresh rd w w' \<Longrightarrow> ow_grants (fst w) = [] \<Longrightarrow> fst w' = fst w"
proof (induction rule: runtime_step.induct)
  case (ru_call w k q aid now)
  obtain p l x where w: "w = (p, l, x)" by (cases w) auto
  obtain r p' l' x' where g: "gateway_execute (runtime_gateway env opts fresh k) q aid now (p, l, x) = (r, (p', l', x'))" by (metis prod_cases4)
  show ?case using call_without_grants(1) [OF _ _ g] ru_call w g by simp
qed (simp_all add: keeps_connection)

lemma runtime_reach_keeps:
  "runtime_reach env opts fresh rd w w' \<Longrightarrow> ow_grants (fst w) = [] \<Longrightarrow> fst w' = fst w"
  by (induction rule: runtime_reach.induct) (auto dest: runtime_step_keeps)

text \<open>
  C40: Without the owner the runtime only does what its first gate gives away: whatever agents, reviewers and the children
  of the bridge do, the gate, the grants and the approved files stay as the composition made them, and a call of any of its
  gateways that changes anything outside is one of the Git or the qualification adapter whose classes that gate allows
  without a grant; in the gate AUDIT, from which the runtime starts by default, these are reads.
\<close>

theorem agents_alone_only_read:
  assumes "c = createRuntimeComposition env opts fresh now"
    and "runtime_reach env opts fresh rd (rt_ownerProcessor c, ls, x0) (p, l, x)"
    and "g = rt_gateway c \<or> g = rt_reviewerGateway c \<or> g = rt_gatewayFactory c attemptId"
    and "gateway_execute g q aid t (p, l, x) = (r, (p', l', x'))"
  shows "p = rt_ownerProcessor c \<and> p' = p \<and> (x' \<noteq> x \<longrightarrow> tq_toolId q \<in> {''git'', ''qualification''} \<and>
    (\<forall>k \<in> set (classify (bridgeToActionRequest aid q)).
       free_class (default_to G_AUDIT (ro_initialGate opts) (\<lambda>g. g)) k \<and>
       (ro_initialGate opts = None \<longrightarrow> k \<in> {READ_ONLY, PRODUCTION_READ})))"
proof -
  have start: "ow_grants (rt_ownerProcessor c) = []" "ow_gate (rt_ownerProcessor c) = default_to G_AUDIT (ro_initialGate opts) (\<lambda>g. g)"
    by (simp_all add: assms(1) createRuntimeComposition_def new_processor_def Let_def)
  have p: "p = rt_ownerProcessor c" using runtime_reach_keeps [OF assms(2)] start by simp
  obtain k where g: "g = runtime_gateway env opts fresh k"
    using assms(3) by (auto simp: assms(1) createRuntimeComposition_def Let_def)
  have cfg: "gw_policy g = ActionPolicy" "ow_grants p = []" using g p start by simp_all
  note effect = call_without_grants [OF cfg assms(4)]
  show ?thesis
  proof (intro conjI impI p effect(1))
    assume change: "x' \<noteq> x"
    then obtain ad where ad: "(tq_toolId q, ad) \<in> set (runtime_adapters env)" "x' = snd (ad (authorized_for p aid q) x)"
      and free: "\<forall>k \<in> set (classify (bridgeToActionRequest aid q)). free_class (ow_gate p) k"
      using effect(2) runtime_adapter_of g by blast
    have "tq_toolId q \<noteq> ''sandbox-filesystem''"
      using ad change by (auto simp: runtime_adapters_def rootless_adapter split: prod.splits)
    then show "tq_toolId q \<in> {''git'', ''qualification''}" using ad(1) by (auto simp: runtime_adapters_def)
    show "\<forall>k \<in> set (classify (bridgeToActionRequest aid q)).
        free_class (default_to G_AUDIT (ro_initialGate opts) (\<lambda>g. g)) k \<and>
        (ro_initialGate opts = None \<longrightarrow> k \<in> {READ_ONLY, PRODUCTION_READ})"
      using free p start(2) by (auto simp: free_class_def default_to_def)
  qed
qed

text \<open>A host that answers a little, and a project to write to.\<close>

definition sample_runtime_env :: "string list runtime_env" where
  "sample_runtime_env =
     \<lparr>re_sha = sample_sha, re_git = \<lparr>gh_spawn = (\<lambda>c w. (Inl ''no process'', w @ [''spawn''])), gh_access = (\<lambda>f w. False),
        gh_mkdtemp = (\<lambda>s w. (Inl ''no'', w)), gh_mkdir = (\<lambda>s w. (Inl ''no'', w)), gh_writeFile = (\<lambda>s t w. (Inl ''no'', w)),
        gh_readFile = (\<lambda>s w. (Inl ''no'', w)), gh_writable = (\<lambda>s w. (Inl ''no'', w)), gh_now = (\<lambda>w. 7), gh_env = (\<lambda>v. None),
        gh_processCwd = ''/repo'', gh_tmpdir = ''/tmp''\<rparr>,
      re_files = \<lparr>fh_cwd = ''/repo'', fh_readFile = (\<lambda>f w. (Inr ''content'', w @ [''read''])), fh_mkdir = (\<lambda>s w. (Inr (), w @ [''mkdir''])),
        fh_writeFile = (\<lambda>s t w. (Inr (), w @ [''write'']))\<rparr>,
      re_qualification = (\<lambda>w. (Inr (''ok'', [], Some 0), w @ [''pnpm''])), re_ids = (\<lambda>w. (''i'', ''e'')), re_uuid = (\<lambda>w. (''u'', w @ [''uuid''])),
      re_audit = sample_audit_host, re_message = (\<lambda>e. ''error''), re_reason = (\<lambda>s. ''reason''), re_listen = (\<lambda>s w. (Inr (), w))\<rparr>"

definition sample_runtime_options :: runtime_options where
  "sample_runtime_options = \<lparr>ro_taskId = ''t'', ro_ownerRef = None, ro_initialGate = None, ro_environment = None, ro_attemptId = Some ''a1'',
     ro_projectId = Some ''p1'', ro_secrets = None\<rparr>"

definition sample_ledgers :: runtime_ledgers where
  "sample_ledgers = \<lparr>ru_db = \<lparr>ld_projects = [createProject ''p1'' ''s'' ''n'' 0], ld_events = [], ld_outbox = [], ld_now = 0\<rparr>,
     ru_draws = 0, ru_open = []\<rparr>"

definition sample_read_request :: tool_request where
  "sample_read_request = (sample_tool_request ''filesystem.read'' [(''path'', JStr ''/repo/f'')])\<lparr>tq_toolId := ''sandbox-filesystem''\<rparr>"

theorem agents_alone_only_read_witness:
  "\<exists>r l'. gateway_execute (rt_gateway (createRuntimeComposition sample_runtime_env sample_runtime_options ''a'' 3)) sample_read_request ''x'' 9
     (new_processor ''t'' G_AUDIT ENV_LOCAL 3, sample_ledgers, \<lparr>gr_staging = [], gr_actions = [], gr_outside = []\<rparr>) =
     (r, (new_processor ''t'' G_AUDIT ENV_LOCAL 3, l', \<lparr>gr_staging = [], gr_actions = [], gr_outside = []\<rparr>))"
proof -
  let ?c = "createRuntimeComposition sample_runtime_env sample_runtime_options ''a'' 3"
  let ?x = "\<lparr>gr_staging = [], gr_actions = [], gr_outside = []\<rparr>"
  have p: "rt_ownerProcessor ?c = new_processor ''t'' G_AUDIT ENV_LOCAL 3"
    by (simp add: createRuntimeComposition_def sample_runtime_options_def default_to_def Let_def)
  obtain r p' l' x' where call: "gateway_execute (rt_gateway ?c) sample_read_request ''x'' 9 (rt_ownerProcessor ?c, sample_ledgers, ?x) =
    (r, (p', l', x'))" by (metis prod_cases4)
  have "p' = rt_ownerProcessor ?c \<and> x' = ?x"
    using agents_alone_only_read [OF refl rr_here disjI1 [OF refl] call]
    by (auto simp: sample_read_request_def sample_tool_request_def)
  then show ?thesis using call p by simp
qed

section \<open>A commit in the gate AUDIT\<close>

text \<open>
  The classes are those of the words of the request, not those of the operation that runs: a commit whose parameters name
  the subcommand \<open>status\<close> counts as a read. In a fresh runtime, before the owner has said anything, the policy lets it
  pass, and the Git adapter commits. The same holds for \<open>git.stage_paths\<close> and \<open>git.push_main\<close>.
\<close>

definition disguised :: "string \<Rightarrow> (string \<times> json) list \<Rightarrow> tool_request" where
  "disguised op params = sample_tool_request op ((''subcommand'', JStr ''status'') # params)"

definition passes_at_once :: "tool_request \<Rightarrow> bool" where
  "passes_at_once q \<longleftrightarrow> valid_request q \<and> pd_decision (policy_decision_of (new_processor ''t'' G_AUDIT ENV_LOCAL 3) ''x'' q) = PD_ALLOW"

lemma disguised_commit_passes: "passes_at_once (disguised ''git.commit'' [(''message'', JStr ''m'')])"
  by code_simp

lemma free_call_runs:
  assumes cfg: "gw_policy g = ActionPolicy" and none: "ow_grants p = []" and pass: "valid_request q" "pd_decision (policy_decision_of p aid q) = PD_ALLOW"
    and rec: "record_proposed g (proposed_entry p aid q now) l = (Inr (), l1)" and ad: "adapter_of g (tq_toolId q) = Some ad"
    and call: "gateway_execute g q aid now (p, l, x) = (r, (p', l', x'))"
  shows "x' = snd (ad (authorized_for p aid q) x)"
proof -
  have v: "vp_grant (verdict_for p aid q) = None"
    using no_grants_no_tokens(1) [OF none pass(2)] by (simp add: verdict_for_def Let_def)
  show ?thesis using call
    by (auto simp: gateway_action_eq [OF cfg pass(1)] rec pass(2) ad act_bind_def act_try_def on_adapter_def with_grant_unused [OF v]
      settle_grant_def of_sum_def act_throw_def record_execution_def act_return_def on_audit_def
      split: sum.splits if_splits option.splits prod.splits)
qed

lemma runtime_records:
  assumes "fst (audit_recordProposed (re_audit env) e (ledger_at opts fresh k ls)) = Inr ()"
  shows "\<exists>ls1. record_proposed (runtime_gateway env opts fresh k) e ls = (Inr (), ls1)"
proof -
  obtain l where "audit_recordProposed (re_audit env) e (ledger_at opts fresh k ls) = (Inr (), l)"
    using assms by (metis prod.collapse)
  then show ?thesis by (simp add: record_proposed_def runtime_gateway_def createProductionGateway_def runtime_audit_def on_ledger_def)
qed

lemma commit_without_the_owner:
  assumes "gateway_execute (rt_gateway (createRuntimeComposition env sample_runtime_options fresh 3))
      (disguised ''git.commit'' [(''message'', JStr ''m'')]) ''x'' t
      (new_processor ''t'' G_AUDIT ENV_LOCAL 3, ls, r) = (out, (p', ls', r'))"
    and "\<And>e. fst (audit_recordProposed (re_audit env) e (ledger_at sample_runtime_options fresh None ls)) = Inr ()"
  shows "r' = snd (executeCommit (re_sha env) (re_git env) (gh_processCwd (re_git env)) ''r'' ''w'' ''m'' [] r)"
proof -
  let ?q = "disguised ''git.commit'' [(''message'', JStr ''m'')]"
  let ?p = "new_processor ''t'' G_AUDIT ENV_LOCAL 3"
  have pass: "valid_request ?q" "pd_decision (policy_decision_of ?p ''x'' ?q) = PD_ALLOW"
    using disguised_commit_passes by (simp_all add: passes_at_once_def)
  have g: "rt_gateway (createRuntimeComposition env sample_runtime_options fresh 3) = runtime_gateway env sample_runtime_options fresh None"
    by (simp add: createRuntimeComposition_def Let_def)
  have tool: "tq_toolId ?q = ''git''" by (simp add: disguised_def sample_tool_request_def)
  obtain ls1 where "record_proposed (runtime_gateway env sample_runtime_options fresh None) (proposed_entry ?p ''x'' ?q t) ls = (Inr (), ls1)"
    using runtime_records [OF assms(2)] by blast
  from free_call_runs [OF _ _ pass this _ assms(1) [unfolded g]]
  have "r' = snd (executeAuthorized (re_sha env) (re_git env) (gh_processCwd (re_git env)) (authorized_for ?p ''x'' ?q) r)"
    by (simp add: tool adapter_of_def runtime_gateway_def createProductionGateway_def runtime_adapters_def new_processor_def)
  moreover have "replace_first ''git.'' (tq_operationId ?q) = ''commit''" by code_simp
  moreover have "param ?q ''message'' = Some (JStr ''m'')" "text_param ?q ''stageActionId'' = []"
    by (simp_all add: disguised_def sample_tool_request_def param_def text_param_def)
  moreover have "az_request (authorized_for ?p ''x'' ?q) = ?q" "tq_requestId ?q = ''r''" "tq_workPackageRef ?q = ''w''"
    by (simp_all add: authorized_for_def disguised_def sample_tool_request_def)
  ultimately show ?thesis
    unfolding executeAuthorized_def parse_authorized_allowed [OF pass] by (simp add: ALLOWED_OPERATIONS_def Let_def json_str_def)
qed

end
