(* ===== verification/Web_Client.thy ===== *)
theory Web_Client
  imports Api_Server
begin

text \<open>
  The client of the web interface (\<^verbatim>\<open>apps/web/src/data/api.ts\<close>): every call is a request through the browser's \<open>fetch\<close>, which
  is a parameter on a world \<open>'x\<close>; an answer has a status and a body that may not be JSON. Nothing checks the shape of a body:
  a member that is not there is shown as \<open>None\<close>. The world also counts the events \<open>co-auth-unauthorized\<close> that the client sends
  to the window. The address of the API is left out of the paths.
\<close>

record web_request =
  wq_method :: string
  wq_path :: string
  wq_headers :: "(string \<times> string) list"
  wq_credentials :: bool
  wq_body :: "json option"

record web_response =
  wr_status :: nat
  wr_statusText :: string
  wr_body :: "json option"

text \<open>\<open>Date.toLocaleString\<close> and the errors of the language depend on the browser.\<close>

record 'x browser =
  bw_fetch :: "web_request \<Rightarrow> ('x, exn, web_response) act"
  bw_localeString :: "json option \<Rightarrow> string"
  bw_parseError :: exn
  bw_typeError :: exn

type_synonym ('x, 'a) web_act = "('x \<times> nat, exn, 'a) act"

definition res_ok :: "web_response \<Rightarrow> bool" where
  "res_ok r \<longleftrightarrow> 200 \<le> wr_status r \<and> wr_status r \<le> 299"

definition web_send :: "'x browser \<Rightarrow> web_request \<Rightarrow> ('x, web_response) web_act" where
  "web_send b q = (\<lambda>(x, n). case bw_fetch b q x of (r, x') \<Rightarrow> (r, (x', n)))"

definition web_json :: "'x browser \<Rightarrow> web_response \<Rightarrow> ('x, json) web_act" where
  "web_json b r = (case wr_body r of None \<Rightarrow> act_throw (bw_parseError b) | Some v \<Rightarrow> act_return v)"

definition web_error :: "string \<Rightarrow> ('x, 'a) web_act" where
  "web_error m = act_throw (GenericError m)"

definition json_headers :: "(string \<times> string) list" where
  "json_headers = [(''Content-Type'', ''application/json'')]"

section \<open>The session\<close>

definition signed_out :: json where
  "signed_out = JObj [(''authenticated'', JBool False), (''projectBound'', JBool False)]"

definition checkSession :: "'x browser \<Rightarrow> ('x, json) web_act" where
  "checkSession b =
     act_try (act_bind (web_send b \<lparr>wq_method = ''GET'', wq_path = ''/api/auth/session'', wq_headers = [], wq_credentials = True, wq_body = None\<rparr>)
         (\<lambda>res. if \<not> res_ok res then act_return signed_out else web_json b res))
       act_return (\<lambda>e. act_return signed_out)"

definition loginWithBootstrap :: "'x browser \<Rightarrow> string \<Rightarrow> ('x, unit) web_act" where
  "loginWithBootstrap b key =
     act_bind (web_send b \<lparr>wq_method = ''POST'', wq_path = ''/api/auth/login'', wq_headers = json_headers, wq_credentials = True,
         wq_body = Some (JObj [(''bootstrapKey'', JStr key)])\<rparr>)
       (\<lambda>res. if \<not> res_ok res then web_error ''Invalid bootstrap key'' else act_return ())"

definition logoutOwner :: "'x browser \<Rightarrow> ('x, unit) web_act" where
  "logoutOwner b =
     act_bind (web_send b \<lparr>wq_method = ''POST'', wq_path = ''/api/auth/logout'', wq_headers = [], wq_credentials = True, wq_body = None\<rparr>)
       (\<lambda>res. act_return ())"

definition authenticatedFetch :: "'x browser \<Rightarrow> string \<Rightarrow> string \<Rightarrow> json option \<Rightarrow> ('x, web_response) web_act" where
  "authenticatedFetch b meth path body =
     act_bind (web_send b \<lparr>wq_method = meth, wq_path = path, wq_headers = json_headers, wq_credentials = True, wq_body = body\<rparr>)
       (\<lambda>res (x, n). (Inr res, (x, if wr_status res = 401 then n + 1 else n)))"

text \<open>\<open>dtos.map\<close>: the value must be an array, and none of its elements \<open>null\<close>.\<close>

definition web_rows :: "'x browser \<Rightarrow> json \<Rightarrow> ('x, json list) web_act" where
  "web_rows b v = (case v of JArr vs \<Rightarrow> if JNull \<in> set vs then act_throw (bw_typeError b) else act_return vs
     | _ \<Rightarrow> act_throw (bw_typeError b))"

definition web_row :: "'x browser \<Rightarrow> json \<Rightarrow> ('x, json) web_act" where
  "web_row b v = (if v = JNull then act_throw (bw_typeError b) else act_return v)"

definition fetch_json :: "'x browser \<Rightarrow> string \<Rightarrow> string \<Rightarrow> ('x, json) web_act" where
  "fetch_json b path message =
     act_bind (authenticatedFetch b ''GET'' path None) (\<lambda>res. if \<not> res_ok res then web_error message else web_json b res)"

section \<open>What the pages show\<close>

record web_project =
  wj_id :: "json option"
  wj_name :: "json option"
  wj_status :: "json option"
  wj_repository :: "json option"
  wj_branch :: string
  wj_currentWorkPackage :: "string option"
  wj_lastRun :: "json option"
  wj_health :: string
  wj_openApprovals :: nat
  wj_openIncidents :: nat
  wj_qualificationState :: string

definition shown_project :: "json \<Rightarrow> web_project" where
  "shown_project dto =
     \<lparr>wj_id = member_of dto ''id'', wj_name = member_of dto ''name'', wj_status = member_of dto ''lifecycleState'',
      wj_repository = member_of dto ''slug'', wj_branch = ''main'', wj_currentWorkPackage = None,
      wj_lastRun = member_of dto ''updatedAt'', wj_health = ''HEALTHY'', wj_openApprovals = 0, wj_openIncidents = 0,
      wj_qualificationState = ''UNKNOWN''\<rparr>"

definition fetchProjects :: "'x browser \<Rightarrow> ('x, web_project list) web_act" where
  "fetchProjects b =
     act_bind (fetch_json b ''/api/projects'' ''Failed to fetch projects'') (\<lambda>v.
     act_bind (web_rows b v) (\<lambda>dtos. act_return (map shown_project dtos)))"

datatype run_status = RUN_RUNNING | RUN_REVIEW | RUN_REPAIR | RUN_WAITING | RUN_COMPLETE

definition mapLifecycleStateToRunStatus :: "json option \<Rightarrow> run_status" where
  "mapLifecycleStateToRunStatus state =
     (if state = Some (JStr ''RUNNING'') then RUN_RUNNING
      else if state = Some (JStr ''REVIEW_REQUIRED'') then RUN_REVIEW
      else if state = Some (JStr ''REPAIR_REQUIRED'') then RUN_REPAIR
      else if state = Some (JStr ''WAITING'') then RUN_WAITING
      else if state = Some (JStr ''COMPLETED'') then RUN_COMPLETE
      else RUN_WAITING)"

record web_item =
  wt_id :: "json option"
  wt_title :: "json option"
  wt_status :: run_status
  wt_startedAt :: "json option"

definition shown_item :: "json \<Rightarrow> web_item" where
  "shown_item dto =
     \<lparr>wt_id = member_of dto ''id'', wt_title = member_of dto ''objective'',
      wt_status = mapLifecycleStateToRunStatus (member_of dto ''lifecycleState''), wt_startedAt = member_of dto ''createdAt''\<rparr>"

definition fetchWorkItems :: "'x browser \<Rightarrow> ('x, web_item list) web_act" where
  "fetchWorkItems b =
     act_bind (fetch_json b ''/api/work-items'' ''Failed to fetch work items'') (\<lambda>v.
     act_bind (web_rows b v) (\<lambda>dtos. act_return (map shown_item dtos)))"

definition fetchAttempts :: "'x browser \<Rightarrow> ('x, json) web_act" where
  "fetchAttempts b = fetch_json b ''/api/attempts'' ''Failed to fetch attempts''"

record web_evidence =
  we_id :: "json option"
  we_timestamp :: "json option"
  we_actor :: string
  we_type :: "json option"
  we_status :: string
  we_description :: "json option"

definition shown_evidence :: "json \<Rightarrow> web_evidence" where
  "shown_evidence dto =
     \<lparr>we_id = member_of dto ''id'', we_timestamp = member_of dto ''observedAt'', we_actor = ''System'',
      we_type = member_of dto ''sourceType'', we_status = ''SUCCESS'', we_description = member_of dto ''claim''\<rparr>"

definition fetchEvidence :: "'x browser \<Rightarrow> ('x, web_evidence list) web_act" where
  "fetchEvidence b =
     act_bind (fetch_json b ''/api/evidence'' ''Failed to fetch evidence'') (\<lambda>v.
     act_bind (web_rows b v) (\<lambda>dtos. act_return (map shown_evidence dtos)))"

section \<open>Approvals\<close>

text \<open>An approval keeps these members of the answer.\<close>

definition approval_members :: "string list" where
  "approval_members = [''id'', ''projectId'', ''workItemId'', ''gateKind'', ''status'', ''scope'', ''evidenceRefs'', ''requestedBy'',
     ''requestedAt'', ''expiresAt'', ''decidedBy'', ''decidedAt'', ''rationale'', ''consumedAt'', ''postActionVerification'']"

definition mapApprovalDtoToFrontend :: "json \<Rightarrow> (string \<times> json option) list" where
  "mapApprovalDtoToFrontend dto = map (\<lambda>k. (k, member_of dto k)) approval_members"

definition fetchApprovals :: "'x browser \<Rightarrow> string \<Rightarrow> ('x, (string \<times> json option) list list) web_act" where
  "fetchApprovals b status =
     act_bind (fetch_json b (''/api/approvals?status='' @ status) ''Failed to fetch approvals'') (\<lambda>v.
     act_bind (web_rows b v) (\<lambda>dtos. act_return (map mapApprovalDtoToFrontend dtos)))"

definition fetchApproval :: "'x browser \<Rightarrow> string \<Rightarrow> ('x, (string \<times> json option) list) web_act" where
  "fetchApproval b i =
     act_bind (fetch_json b (''/api/approvals/'' @ i) ''Failed to fetch approval'') (\<lambda>v.
     act_bind (web_row b v) (\<lambda>dto. act_return (mapApprovalDtoToFrontend dto)))"

text \<open>
  The error of an answer that is not ok: the text of its member \<open>error\<close>, or else a fixed one; \<open>fallback\<close> stands for a body that
  is not JSON.
\<close>

definition throw_answer :: "'x browser \<Rightarrow> web_response \<Rightarrow> string \<Rightarrow> string \<Rightarrow> ('x, 'a) web_act" where
  "throw_answer b res fallback message =
     (case (case wr_body res of None \<Rightarrow> JObj [(''error'', JStr fallback)] | Some v \<Rightarrow> v) of
        JNull \<Rightarrow> act_throw (bw_typeError b)
      | err \<Rightarrow> web_error (js_string (or_value (member_of err ''error'') (JStr message))))"

definition createApproval :: "'x browser \<Rightarrow> json \<Rightarrow> ('x, (string \<times> json option) list) web_act" where
  "createApproval b payload =
     act_bind (authenticatedFetch b ''POST'' ''/api/approvals'' (Some payload)) (\<lambda>res.
       if \<not> res_ok res then web_error ''Failed to create approval''
       else act_bind (web_json b res) (\<lambda>v. act_bind (web_row b v) (\<lambda>dto. act_return (mapApprovalDtoToFrontend dto))))"

definition post_approval :: "'x browser \<Rightarrow> string \<Rightarrow> json \<Rightarrow> string \<Rightarrow> ('x, (string \<times> json option) list) web_act" where
  "post_approval b path body message =
     act_bind (authenticatedFetch b ''POST'' path (Some body)) (\<lambda>res.
       if \<not> res_ok res then throw_answer b res (wr_statusText res) message
       else act_bind (web_json b res) (\<lambda>v. act_bind (web_row b v) (\<lambda>dto. act_return (mapApprovalDtoToFrontend dto))))"

text \<open>Members that are \<open>undefined\<close> are not in the text of the body.\<close>

definition optional_member :: "string \<Rightarrow> string option \<Rightarrow> (string \<times> json) list" where
  "optional_member k v = (case v of None \<Rightarrow> [] | Some s \<Rightarrow> [(k, JStr s)])"

definition decideApproval :: "'x browser \<Rightarrow> string \<Rightarrow> string \<Rightarrow> string option \<Rightarrow> string option \<Rightarrow>
    ('x, (string \<times> json option) list) web_act" where
  "decideApproval b i decision rationale decidedBy =
     post_approval b (''/api/approvals/'' @ i @ ''/decide'')
       (JObj ((''decision'', JStr decision) # optional_member ''rationale'' rationale @ optional_member ''decidedBy'' decidedBy))
       ''Failed to decide on approval''"

definition consumeApproval :: "'x browser \<Rightarrow> string \<Rightarrow> json \<Rightarrow> ('x, (string \<times> json option) list) web_act" where
  "consumeApproval b i payload =
     post_approval b (''/api/approvals/'' @ i @ ''/consume'') payload ''Failed to consume approval''"

section \<open>The dashboard and the other pages\<close>

record dashboard_stats =
  ds_activeRuns :: nat
  ds_agentsOnline :: nat
  ds_totalAgents :: nat
  ds_pendingApprovals :: nat
  ds_openIncidents :: nat
  ds_qualificationStatus :: string
  ds_governanceState :: string

definition or_none :: "('x, 'a list) web_act \<Rightarrow> ('x, 'a list) web_act" where
  "or_none m = act_try m act_return (\<lambda>e. act_return [])"

text \<open>The two lists are asked for at once; the order of the two requests is that of the code.\<close>

definition fetchDashboardStats :: "'x browser \<Rightarrow> ('x, dashboard_stats) web_act" where
  "fetchDashboardStats b =
     act_bind (or_none (fetchWorkItems b)) (\<lambda>runs.
     act_bind (or_none (fetchApprovals b ''PENDING'')) (\<lambda>approvals.
     act_return \<lparr>ds_activeRuns = length (filter (\<lambda>r. wt_status r = RUN_RUNNING) runs), ds_agentsOnline = 0, ds_totalAgents = 0,
       ds_pendingApprovals = length approvals, ds_openIncidents = 0, ds_qualificationStatus = ''PASSING'',
       ds_governanceState = ''SECURE''\<rparr>))"

text \<open>These lists have no source behind them yet.\<close>

definition fetchAgents :: "('x, json list) web_act" where "fetchAgents = act_return []"
definition fetchIncidents :: "('x, json list) web_act" where "fetchIncidents = act_return []"
definition fetchFindings :: "('x, json list) web_act" where "fetchFindings = act_return []"
definition fetchTaskGraph :: "('x, json list) web_act" where "fetchTaskGraph = act_return []"

record web_log =
  wl_id :: "json option"
  wl_timestamp :: "json option"
  wl_actor :: json
  wl_status :: string
  wl_operation :: "json option"
  wl_message :: string

definition log_message :: "json option \<Rightarrow> string" where
  "log_message payload =
     (case payload of
        Some JNull \<Rightarrow> json_text JNull
      | Some (JArr vs) \<Rightarrow> json_text (JArr vs)
      | Some (JObj kvs) \<Rightarrow> json_text (JObj kvs)
      | v \<Rightarrow> js_string (or_value v (JStr ''No details'')))"

definition shown_log :: "json \<Rightarrow> web_log" where
  "shown_log item =
     \<lparr>wl_id = member_of item ''id'', wl_timestamp = member_of item ''occurredAt'',
      wl_actor = or_value (member_of item ''actorType'') (JStr ''System''), wl_status = ''SUCCESS'',
      wl_operation = member_of item ''eventType'', wl_message = log_message (member_of item ''payload'')\<rparr>"

definition fetchLogs :: "'x browser \<Rightarrow> ('x, web_log list) web_act" where
  "fetchLogs b =
     act_bind (fetch_json b ''/api/audit-logs'' ''Failed to fetch logs'') (\<lambda>data.
       if \<not> is_truthy (member_of data ''items'') then act_return []
       else act_bind (web_rows b (the (member_of data ''items''))) (\<lambda>items. act_return (map shown_log items)))"

record run_detail =
  rd_id :: "json option"
  rd_title :: "json option"
  rd_startedAt :: string
  rd_status :: run_status
  rd_currentAgent :: string
  rd_reviewer :: string
  rd_duration :: string
  rd_evidenceState :: string
  rd_approvalState :: string

definition shown_run :: "'x browser \<Rightarrow> web_item \<Rightarrow> run_detail" where
  "shown_run b item =
     \<lparr>rd_id = wt_id item, rd_title = wt_title item, rd_startedAt = bw_localeString b (wt_startedAt item), rd_status = wt_status item,
      rd_currentAgent = ''Orchestrator'', rd_reviewer = ''Pending'', rd_duration = ''0s'', rd_evidenceState = ''PENDING'',
      rd_approvalState = ''PENDING''\<rparr>"

definition fetchRunDetails :: "'x browser \<Rightarrow> ('x, run_detail list) web_act" where
  "fetchRunDetails b = act_bind (or_none (fetchWorkItems b)) (\<lambda>items. act_return (map (shown_run b) items))"

definition fetchWorkspaceState :: "('x, json) web_act" where
  "fetchWorkspaceState = act_return (JObj
     [(''header'', JObj [(''name'', JStr ''Constructie Orchestrator''), (''description'', JStr [])]), (''activeWorkPackage'', JStr ''None''),
      (''objective'', JObj [(''title'', JStr ''None''), (''description'', JStr ''No active objective'')]), (''timeline'', JArr [])])"

definition createProject_web :: "'x browser \<Rightarrow> string \<Rightarrow> string \<Rightarrow> ('x, web_project) web_act" where
  "createProject_web b name slug =
     act_bind (authenticatedFetch b ''POST'' ''/api/projects'' (Some (JObj [(''name'', JStr name), (''slug'', JStr slug)]))) (\<lambda>res.
       if \<not> res_ok res then throw_answer b res ''Failed to create project'' ''Failed to create project''
       else act_bind (web_json b res) (\<lambda>v. act_bind (web_row b v) (\<lambda>dto. act_return (shown_project dto))))"

definition createWorkItem_web :: "'x browser \<Rightarrow> string \<Rightarrow> ('x, web_item) web_act" where
  "createWorkItem_web b objective =
     act_bind (authenticatedFetch b ''POST'' ''/api/work-items'' (Some (JObj [(''objective'', JStr objective), (''type'', JStr ''TASK'')])))
       (\<lambda>res. if \<not> res_ok res then web_error ''Failed to create work item''
         else act_bind (web_json b res) (\<lambda>v. act_bind (web_row b v) (\<lambda>dto. act_return (shown_item dto))))"

section \<open>The client against the API\<close>

text \<open>How the routes of the API answer with an item (\<^verbatim>\<open>apps/api/src/index.ts\<close>): its row, with the dates as texts.\<close>

fun kind_text :: "wi_kind \<Rightarrow> string" where
  "kind_text MILESTONE = ''MILESTONE''" | "kind_text FEATURE = ''FEATURE''" | "kind_text TASK = ''TASK''"
| "kind_text SUBTASK = ''SUBTASK''" | "kind_text RECOVERY_TASK = ''RECOVERY_TASK''" | "kind_text VERIFICATION_TASK = ''VERIFICATION_TASK''"
| "kind_text REVIEW_TASK = ''REVIEW_TASK''" | "kind_text AUDIT_TASK = ''AUDIT_TASK''" | "kind_text DEPLOYMENT_TASK = ''DEPLOYMENT_TASK''"
| "kind_text OWNER_ACTION_TASK = ''OWNER_ACTION_TASK''" | "kind_text EXTERNAL_WAIT_TASK = ''EXTERNAL_WAIT_TASK''"

definition item_dto :: "work_item \<Rightarrow> json" where
  "item_dto w = JObj
     [(''id'', JStr (wi_id w)), (''projectId'', JStr (wi_projectId w)), (''parentId'', str_or_null (wi_parentId w)),
      (''type'', JStr (kind_text (wi_type w))), (''objective'', JStr (wi_objective w)),
      (''lifecycleState'', JStr (wi_state_text (wi_lifecycleState w))), (''revision'', JNum (int (wi_revision w))),
      (''evidenceRequirements'', JArr (map JStr (wi_evidenceRequirements w))), (''currentAttemptId'', str_or_null (wi_currentAttemptId w)),
      (''createdAt'', JStr (toISOString (wi_createdAt w))), (''updatedAt'', JStr (toISOString (wi_updatedAt w)))]"

definition answer_of :: "('a \<Rightarrow> json) \<Rightarrow> 'a reply \<Rightarrow> web_response" where
  "answer_of f r = (case r of RP_OK k v \<Rightarrow> \<lparr>wr_status = k, wr_statusText = [], wr_body = Some (f v)\<rparr>
     | RP_ERROR k m \<Rightarrow> \<lparr>wr_status = k, wr_statusText = [], wr_body = Some (error_body m)\<rparr>)"

text \<open>The routes of the work items, for a session that has been let in as \<open>c\<close>, at the time \<open>now\<close> with the fresh id \<open>fresh\<close>.\<close>

definition item_routes :: "auth_context \<Rightarrow> string \<Rightarrow> int \<Rightarrow> web_request \<Rightarrow> (work_db, exn, web_response) act" where
  "item_routes c fresh now q db =
     (if wq_path q = ''/api/work-items'' \<and> wq_method q = ''GET''
      then (Inr (answer_of (\<lambda>ws. JArr (map item_dto ws)) (get_work_items c db)), db)
      else if wq_path q = ''/api/work-items'' \<and> wq_method q = ''POST''
      then (case post_work_item c (wq_body q) fresh now db of
          None \<Rightarrow> (Inr (answer_of item_dto internal_error), db) | Some (r, db') \<Rightarrow> (Inr (answer_of item_dto r), db'))
      else (Inr \<lparr>wr_status = 404, wr_statusText = ''Not Found'', wr_body = None\<rparr>, db))"

definition shown_of :: "work_item \<Rightarrow> web_item" where
  "shown_of w = \<lparr>wt_id = Some (JStr (wi_id w)), wt_title = Some (JStr (wi_objective w)),
     wt_status = (case wi_lifecycleState w of WI_RUNNING \<Rightarrow> RUN_RUNNING | WI_REVIEW_REQUIRED \<Rightarrow> RUN_REVIEW
       | WI_REPAIR_REQUIRED \<Rightarrow> RUN_REPAIR | WI_COMPLETED \<Rightarrow> RUN_COMPLETE | _ \<Rightarrow> RUN_WAITING),
     wt_startedAt = Some (JStr (toISOString (wi_createdAt w)))\<rparr>"

lemma shown_item_dto: "shown_item (item_dto w) = shown_of w"
  by (cases "wi_lifecycleState w") (simp_all add: shown_item_def item_dto_def shown_of_def mapLifecycleStateToRunStatus_def)

lemma item_rows: "web_rows b (JArr (map item_dto ws)) = act_return (map item_dto ws)"
  by (auto simp: web_rows_def item_dto_def)

lemmas web_calls = fetch_json_def authenticatedFetch_def web_send_def web_json_def act_bind_def act_return_def

text \<open>
  What the pages list is what the tables hold: a session of project \<open>p\<close> is shown exactly the items of \<open>p\<close>, each with its own
  id, objective and date; an item is shown as COMPLETE only when it is COMPLETED, and as running only when it is RUNNING.
\<close>

theorem client_shows_the_projects_items:
  assumes "bw_fetch b = item_routes c fresh now" and "ac_projectId c = Some p"
  shows "fetchWorkItems b (db, n) = (Inr (map shown_of (filter (\<lambda>w. wi_projectId w = p) (db_items db))), (db, n))"
proof -
  let ?ws = "filter (\<lambda>w. wi_projectId w = p) (db_items db)"
  have "fetch_json b ''/api/work-items'' ''Failed to fetch work items'' (db, n) = (Inr (JArr (map item_dto ?ws)), (db, n))"
    using assms by (simp add: web_calls item_routes_def get_work_items_def answer_of_def res_ok_def)
  then show ?thesis
    by (simp add: fetchWorkItems_def act_bind_def item_rows act_return_def shown_item_dto comp_def)
qed

theorem client_creates_a_draft:
  assumes "bw_fetch b = item_routes c fresh now" and "ac_projectId c = Some p" "p \<noteq> []" and "item_of db fresh = None" and "objective \<noteq> []"
  shows "createWorkItem_web b objective (db, n) =
    (let w = createWorkItem fresh p None TASK objective None now in (Inr (shown_of w), (db\<lparr>db_items := db_items db @ [w]\<rparr>, n)))"
  using assms
  by (simp add: createWorkItem_web_def web_calls item_routes_def post_work_item_def answer_of_def res_ok_def Let_def or_value_def
      json_str_def ws_createWorkItem_def createWorkItem_def web_row_def item_dto_def truthy_simps
      flip: shown_item_dto)

text \<open>
  The dashboard always has an answer. When nothing can be fetched it shows that nothing runs and that no approval is pending,
  and it calls the system secure whatever the API said.
\<close>

lemma or_none_returns: "\<exists>xs w'. or_none m w = (Inr xs, w')"
  by (cases "m w") (auto simp: or_none_def act_try_def act_return_def split: sum.split)

lemma dashboard_is_always_secure: "\<exists>st w'. fetchDashboardStats b w = (Inr st, w') \<and> ds_governanceState st = ''SECURE''"
proof -
  obtain runs w1 where r: "or_none (fetchWorkItems b) w = (Inr runs, w1)" using or_none_returns by metis
  obtain approvals w2 where a: "or_none (fetchApprovals b ''PENDING'') w1 = (Inr approvals, w2)" using or_none_returns by metis
  show ?thesis by (simp add: fetchDashboardStats_def act_bind_def r a act_return_def)
qed

lemma failing_call:
  assumes "\<And>q x. isl (fst (bw_fetch b q x))"
  shows "\<exists>e w'. fetch_json b path m w = (Inl e, w')"
proof -
  obtain x n where w: "w = (x, n)" by (cases w)
  let ?q = "\<lparr>wq_method = ''GET'', wq_path = path, wq_headers = json_headers, wq_credentials = True, wq_body = None\<rparr>"
  obtain e x' where "bw_fetch b ?q x = (Inl e, x')" using assms [of ?q x] by (cases "bw_fetch b ?q x") (auto simp: isl_def)
  then show ?thesis by (simp add: web_calls w)
qed

lemma dashboard_hides_failures:
  assumes "\<And>q x. isl (fst (bw_fetch b q x))"
  shows "\<exists>st w'. fetchDashboardStats b w = (Inr st, w') \<and> ds_pendingApprovals st = 0 \<and> ds_activeRuns st = 0"
proof -
  have none: "\<exists>w'. or_none (fetchWorkItems b) u = (Inr [], w')" "\<exists>w'. or_none (fetchApprovals b s) u = (Inr [], w')" for u s
    using failing_call [OF assms, of "''/api/work-items''" "''Failed to fetch work items''" u]
      failing_call [OF assms, of "''/api/approvals?status='' @ s" "''Failed to fetch approvals''" u]
    by (auto simp: or_none_def fetchWorkItems_def fetchApprovals_def act_try_def act_bind_def act_return_def)
  obtain w1 where r: "or_none (fetchWorkItems b) w = (Inr [], w1)" using none by blast
  obtain w2 where a: "or_none (fetchApprovals b ''PENDING'') w1 = (Inr [], w2)" using none by blast
  show ?thesis by (simp add: fetchDashboardStats_def act_bind_def r a act_return_def)
qed

text \<open>An evidence record is shown as a success whatever it says, and so is a log entry.\<close>

lemma evidence_is_always_a_success: "we_status (shown_evidence dto) = ''SUCCESS''" "wl_status (shown_log item) = ''SUCCESS''"
  by (simp_all add: shown_evidence_def shown_log_def)

definition sample_browser :: "work_db browser" where
  "sample_browser = \<lparr>bw_fetch = item_routes sample_session ''w2'' 5, bw_localeString = (\<lambda>v. ''date''), bw_parseError = GenericError ''parse'',
     bw_typeError = GenericError ''type''\<rparr>"

lemma client_shows_the_projects_items_witness:
  "fetchWorkItems sample_browser (sample_draft_db, 0) =
     (Inr [shown_of (createWorkItem ''w1'' ''p1'' None TASK ''x'' None 3)], (sample_draft_db, 0))"
  by (subst client_shows_the_projects_items [of _ sample_session "''w2''" 5 "''p1''"])
    (simp_all add: sample_browser_def sample_session_def sample_draft_db_def createWorkItem_def)

lemma client_creates_a_draft_witness:
  "fst (createWorkItem_web sample_browser ''y'' (sample_draft_db, 0)) = Inr (shown_of (createWorkItem ''w2'' ''p1'' None TASK ''y'' None 5))"
  by (subst client_creates_a_draft [of _ sample_session "''w2''" 5 "''p1''"])
    (simp_all add: sample_browser_def sample_session_def sample_draft_db_def createWorkItem_def item_of_def Let_def)

end
