(* ===== verification/Item_Lifecycle.thy ===== *)
theory Item_Lifecycle
  imports Web_Client Worker_Host
begin

text \<open>
  The way of a work item through the program: created by the client of the web interface, started over the API, found and run by
  the worker, listed again by the client. The parts are those of \<^verbatim>\<open>Web_Client\<close>, \<^verbatim>\<open>Api_Server\<close>, \<^verbatim>\<open>Work_Store\<close> and \<^verbatim>\<open>Worker_Host\<close>,
  on one database; between any two of the steps others may change it by any calls of the work store.
\<close>

text \<open>The client reports an item only when the API has stored it.\<close>

lemma refused_creation:
  assumes "bw_fetch b = item_routes c f now" and "\<not> truthy (ac_projectId c) \<or> objective = [] \<or> item_of db f \<noteq> None"
  shows "isl (fst (createWorkItem_web b objective (db, n)))"
proof -
  let ?body = "Some (JObj [(''objective'', JStr objective), (''type'', JStr ''TASK'')])"
  have "\<exists>k m. post_work_item c ?body f now db = Some (RP_ERROR k m, db) \<and> 400 \<le> k"
    using assms(2) by (cases "truthy (ac_projectId c)"; cases "objective = []")
      (auto simp: post_work_item_def or_value_def json_str_def ws_createWorkItem_def createWorkItem_def internal_error_def)
  then obtain k m where "post_work_item c ?body f now db = Some (RP_ERROR k m, db)" "400 \<le> k" by blast
  then show ?thesis using assms(1)
    by (simp add: createWorkItem_web_def web_calls item_routes_def answer_of_def res_ok_def web_error_def act_throw_def)
qed

lemma created_item:
  assumes "bw_fetch b = item_routes c f now" and "createWorkItem_web b objective (db, n) = (Inr shown, (db1, n1))"
  shows "\<exists>p. ac_projectId c = Some p \<and> p \<noteq> [] \<and> objective \<noteq> [] \<and> item_of db f = None \<and>
    shown = shown_of (createWorkItem f p None TASK objective None now) \<and>
    ws_createWorkItem (createWorkItem f p None TASK objective None now) db = (Inr (createWorkItem f p None TASK objective None now), db1)"
proof -
  have "\<not> (\<not> truthy (ac_projectId c) \<or> objective = [] \<or> item_of db f \<noteq> None)"
  proof
    assume "\<not> truthy (ac_projectId c) \<or> objective = [] \<or> item_of db f \<noteq> None"
    from refused_creation [OF assms(1) this, of n] show False by (simp add: assms(2))
  qed
  then have "truthy (ac_projectId c)" and ok: "objective \<noteq> []" "item_of db f = None" by blast+
  then obtain p where p: "ac_projectId c = Some p" "p \<noteq> []" by (cases "ac_projectId c") auto
  show ?thesis
    using client_creates_a_draft [OF assms(1) p ok(2,1), of n] assms(2) p ok
    by (simp add: Let_def ws_createWorkItem_def) (simp add: createWorkItem_def)
qed

text \<open>A start that is answered with the item has made it READY, whatever others did between its two steps.\<close>

lemma started_item:
  assumes "item_of db1 f = Some v" and "start_read c f db1 = Inr k" and "ws_reach db1 db2" and "start_write f k db2 = (RP_OK 200 i, db3)"
  shows "item_of db3 f = Some i \<and> wi_lifecycleState i = WI_READY \<and> wi_revision i = wi_revision v + 1 \<and> wi_objective i = wi_objective v \<and>
    wi_projectId i = wi_projectId v \<and> wi_id i = f \<and> wi_currentAttemptId i \<in> {None, wi_currentAttemptId v} \<and> ws_reach db1 db3"
proof -
  have k: "k = wi_revision v" using assms(1,2) by (auto simp: start_read_def ws_getWorkItem_def split: if_splits)
  obtain u where u: "item_of db2 f = Some u" "item_later v u" using item_later_reach [OF assms(3,1)] by blast
  have move: "wi_revision u = k" "i = moved_item db2 WI_READY u" "db3 = with_item db2 f (\<lambda>w. wi_revision w = k) (moved_item db2 WI_READY)"
    using assms(4) u(1) by (auto simp: start_write_def transitionWorkItem_eq split: if_splits)
  have "db3 = snd (ws_transitionWorkItem f k WI_READY db2)"
    using assms(4) by (auto simp: start_write_def split: prod.splits sum.splits exn.splits)
  then have "ws_reach db1 db3" using ws_next [OF assms(3) ws_move] by simp
  moreover have "item_of db3 f = Some i" using u(1) item_of_id [OF u(1)] by (simp add: move item_of_with)
  ultimately show ?thesis using u(2) move(1) k item_of_id [OF u(1)]
    by (simp add: move(2) item_later_def) (simp add: moved_item_def)
qed

lemma verdict_waits:
  assumes "agent_verdict ad wp ctx x = (v, x')" and "wi_lifecycleState i = vd_item v"
  shows "wt_status (shown_of i) \<in> {RUN_WAITING, RUN_REPAIR}"
proof -
  have "vd_item v \<in> {WI_VERIFICATION_REQUIRED, WI_REPAIR_REQUIRED, WI_RECOVERY_REQUIRED, WI_WAITING}"
    using assms(1) run_verdict_item [of ad _ _ v x'] unfolding agent_verdict_def by (auto split: prod.splits sum.splits)
  then show ?thesis using assms(2) by (auto simp: shown_of_def)
qed

lemma shown_row:
  assumes "bw_fetch b = item_routes c f now" and "ac_projectId c = Some p" and "item_of db k = Some i" and "wi_projectId i = p"
  shows "\<exists>page. fetchWorkItems b (db, n) = (Inr page, (db, n)) \<and> shown_of i \<in> set page"
  using client_shows_the_projects_items [OF assms(1,2), of db n] item_of_Some [OF assms(3)] assms(4) by auto

text \<open>
  C3: From the form to the evidence. When the client has reported a new item and its start over the API was answered with the
  item, then any worker that comes to it before anyone else has moved it runs it, with any agent, whatever other calls of the
  work store came in between: the result is stored with its evidence, the item is three revisions further, and the client
  then lists it under the same id, as waiting or in repair, but never as complete.
\<close>

theorem created_item_is_worked:
  assumes "bw_fetch b = item_routes c f now" and "db_inv db" and "f \<noteq> []"
    and "createWorkItem_web b objective (db, n) = (Inr shown, (db1, n1))"
    and "start_read c f db1 = Inr k" and "ws_reach db1 db2" and "start_write f k db2 = (RP_OK 200 i, db3)"
    and "ws_reach db3 (ww_db w)" and "item_of (ww_db w) f = Some j" and "wi_revision j = wi_revision i"
    and "nonblank sha" and "fresh_ids h (ww_db w)" and "wi_projectId i \<in> set (et_projects (ww_evidence w))"
    and "names_evidence ad j (\<lambda>e. e \<noteq> [])"
  shows "\<exists>r w' page s. processItem sha h ad j w = (Inr (IO_RAN r), w') \<and> recorded_run sha j w w' r \<and>
    fetchWorkItems b (ww_db w', m) = (Inr page, (ww_db w', m)) \<and> s \<in> set page \<and> s = shown_of (wr_workItem r) \<and>
    wt_id s = wt_id shown \<and> wt_status s \<in> {RUN_WAITING, RUN_REPAIR}"
proof -
  obtain p where c: "ac_projectId c = Some p" "p \<noteq> []" "objective \<noteq> []" "item_of db f = None"
    "shown = shown_of (createWorkItem f p None TASK objective None now)"
    "ws_createWorkItem (createWorkItem f p None TASK objective None now) db = (Inr (createWorkItem f p None TASK objective None now), db1)"
    using created_item [OF assms(1,4)] by blast
  let ?v = "createWorkItem f p None TASK objective None now"
  have v: "wi_id ?v = f" "wi_projectId ?v = p" "wi_objective ?v = objective" "wi_currentAttemptId ?v = None" "wi_revision ?v = 1"
    by (simp_all add: createWorkItem_def)
  have "item_of db1 f = Some ?v" using c(4,6) v(1) by (auto simp: ws_createWorkItem_def item_of_def find_row_append)
  from started_item [OF this assms(5,6,7)] have i: "item_of db3 f = Some i" "wi_lifecycleState i = WI_READY" "wi_revision i = 2"
    "wi_objective i = objective" "wi_projectId i = p" "wi_id i = f" "wi_currentAttemptId i = None" "ws_reach db1 db3"
    using v by auto
  have "ws_step db db1" using ws_create [of ?v db] v(4) c(6) by simp
  then have "db_inv db3" using db_inv_reach [OF i(8)] db_inv_step assms(2) by blast
  then have inv: "db_inv (ww_db w)" using db_inv_reach [OF assms(8)] by blast
  have "item_later i j" using item_later_reach [OF assms(8) i(1)] assms(9) by auto
  then have j: "wi_lifecycleState j = WI_READY" "wi_objective j = objective" "wi_projectId j = p" "wi_id j = f"
    "wi_currentAttemptId j = None" using i assms(10) by (auto simp: item_later_def)
  have pre: "claimable (ww_db w) j" "well_formed j" "wi_projectId j \<in> set (et_projects (ww_evidence w))"
    using inv assms(3,9,10,13) c(2,3) i j by (simp_all add: claimable_def pollable_def well_formed_def)
  obtain r w' pkg ctx x x' u where run: "processItem sha h ad j w = (Inr (IO_RAN r), w')" "recorded_run sha j w w' r"
    "agent_verdict ad (package_for j pkg) ctx x = (u, x')" "wi_lifecycleState (wr_workItem r) = vd_item u"
    using claimable_item_runs [OF assms(11) pre(1,2) assms(12) pre(3) assms(14)] by blast
  have row: "item_of (ww_db w') f = Some (wr_workItem r)" "wi_id (wr_workItem r) = f" "wi_projectId (wr_workItem r) = p"
    using run(2) j by (simp_all add: recorded_run_def)
  obtain page where "fetchWorkItems b (ww_db w', m) = (Inr page, (ww_db w', m))" "shown_of (wr_workItem r) \<in> set page"
    using shown_row [OF assms(1) c(1) row(1,3)] by blast
  moreover have "wt_id (shown_of (wr_workItem r)) = wt_id shown" using row(2) v(1) by (simp add: c(5) shown_of_def)
  ultimately show ?thesis using run(1,2) verdict_waits [OF run(3,4)] by blast
qed

text \<open>One item on an empty database, with the worker's scripted agent.\<close>

definition life_session :: auth_context where
  "life_session = \<lparr>ac_actorType = API_USER, ac_role = ROLE_OWNER, ac_projectId = Some ''p''\<rparr>"

definition life_browser :: "work_db browser" where
  "life_browser = sample_browser\<lparr>bw_fetch := item_routes life_session ''w1'' 5\<rparr>"

definition life_draft :: work_item where
  "life_draft = createWorkItem ''w1'' ''p'' None TASK ''y'' None 5"

definition life_created :: work_db where
  "life_created = \<lparr>db_items = [life_draft], db_attempts = [], db_now = 4\<rparr>"

definition life_started :: work_db where
  "life_started = with_item life_created ''w1'' (\<lambda>w. wi_revision w = 1) (moved_item life_created WI_READY)"

definition life_worker :: "unit mock_world worker_world" where
  "life_worker = sample_worker\<lparr>ww_db := life_started\<rparr>"

lemma life_steps:
  "createWorkItem_web life_browser ''y'' (empty_work_db 4, 0) = (Inr (shown_of life_draft), (life_created, 0))"
  "start_read life_session ''w1'' life_created = Inr 1"
  "start_write ''w1'' 1 life_created = (RP_OK 200 (moved_item life_created WI_READY life_draft), life_started)"
  "item_of life_started ''w1'' = Some (moved_item life_created WI_READY life_draft)"
proof -
  show "createWorkItem_web life_browser ''y'' (empty_work_db 4, 0) = (Inr (shown_of life_draft), (life_created, 0))"
    by (subst client_creates_a_draft [of _ life_session "''w1''" 5 "''p''"])
      (simp_all add: life_browser_def life_session_def empty_work_db_def item_of_def Let_def life_created_def life_draft_def)
  have row: "item_of life_created ''w1'' = Some life_draft" "wi_lifecycleState life_draft = WI_DRAFT" "wi_revision life_draft = 1"
    "wi_projectId life_draft = ''p''" "wi_id life_draft = ''w1''"
    by (simp_all add: item_of_def life_created_def life_draft_def createWorkItem_def)
  then show "start_read life_session ''w1'' life_created = Inr 1"
    by (simp add: start_read_def ws_getWorkItem_def life_session_def)
  show "start_write ''w1'' 1 life_created = (RP_OK 200 (moved_item life_created WI_READY life_draft), life_started)"
    using row by (simp add: start_write_def transitionWorkItem_eq life_started_def)
  show "item_of life_started ''w1'' = Some (moved_item life_created WI_READY life_draft)"
    using row by (simp add: life_started_def item_of_with)
qed

theorem created_item_is_worked_witness:
  "\<exists>r w' page. processItem sample_sha sample_worker_host sample_mock (moved_item life_created WI_READY life_draft) life_worker = (Inr (IO_RAN r), w') \<and>
    fetchWorkItems life_browser (ww_db w', 0) = (Inr page, (ww_db w', 0)) \<and> (\<exists>s \<in> set page. wt_id s = Some (JStr ''w1''))"
proof -
  let ?i = "moved_item life_created WI_READY life_draft"
  have routes: "bw_fetch life_browser = item_routes life_session ''w1'' 5" by (simp add: life_browser_def)
  have "attempt_of life_started ''u'' = None" by (simp add: attempt_of_def life_started_def life_created_def with_item_def)
  then have fresh: "fresh_ids sample_worker_host (ww_db life_worker)" by (simp add: fresh_ids_def sample_worker_host_def life_worker_def)
  have db: "ws_reach life_started (ww_db life_worker)" "item_of (ww_db life_worker) ''w1'' = Some ?i"
    using life_steps(4) by (simp_all add: life_worker_def ws_here)
  have p: "wi_projectId ?i \<in> set (et_projects (ww_evidence life_worker))"
    by (simp add: life_worker_def sample_worker_def life_draft_def createWorkItem_def)
  have named: "names_evidence sample_mock ?i (\<lambda>e. e \<noteq> [])"
    unfolding sample_mock_def by (rule mock_names_evidence) (rule mock_evidence_named)
  have "wt_id (shown_of life_draft) = Some (JStr ''w1'')" by (simp add: shown_of_def life_draft_def createWorkItem_def)
  then show ?thesis
    using created_item_is_worked [OF routes db_inv_empty _ life_steps(1,2) ws_here life_steps(3) db refl sample_sha_good(1) fresh p named, of 0]
    by force
qed

end
