(* ===== verification/Audit_Calls.thy ===== *)
theory Audit_Calls
  imports Audit_Ledger
begin

text \<open>
  Calls of one audit ledger that overlap (\<^verbatim>\<open>prisma-action-audit-ledger.ts\<close>, lines 19 to 91). A call gives up control wherever the code
  awaits: while it reads the events of the attempt, while it appends one of its events, and after each answer. The state between two
  such points is a value of \<open>audit_pc\<close>; the calls share the ledger object and the database.
\<close>

section \<open>The steps of a call\<close>

text \<open>The two methods, with the time an execution is recorded at.\<close>

datatype audit_job = PROPOSE audit_entry | EXECUTE string tool_result int

text \<open>
  Where a call stands: it has asked for the events of the attempt (the flag says that this is for its second event), it has been
  answered with the greatest revision among them, it appends an event, it has been answered, it has returned.
\<close>

datatype audit_pc =
    AW_READS audit_job bool
  | AW_READ audit_job bool nat
  | AW_APPENDS audit_job bool "audit_payload project_event"
  | AW_ANSWERED audit_job bool "exn + unit"
  | AW_RETURNED audit_job "string + unit"

definition proposed_event :: "audit_host \<Rightarrow> audit_entry \<Rightarrow> nat \<Rightarrow> audit_ledger \<Rightarrow> audit_payload project_event" where
  "proposed_event h e n l = attempt_audit_event h l ''HOST_ACTION_PROPOSED'' n AGENT (rq_agentId (au_request e))
     (rq_correlationId (au_request e)) (rq_actionId (au_request e)) (AD_PROPOSED (au_request e)) (au_proposedAt e)"

definition decided_event :: "audit_host \<Rightarrow> audit_entry \<Rightarrow> nat \<Rightarrow> audit_ledger \<Rightarrow> audit_payload project_event" where
  "decided_event h e n l = attempt_audit_event h l ''HOST_ACTION_POLICY_DECIDED'' n SYSTEM ''policy-engine''
     (rq_correlationId (au_request e)) (rq_actionId (au_request e)) (AD_DECIDED (au_decision e) (au_classification e)) (ah_now h (dl_draws l))"

definition executed_event :: "audit_host \<Rightarrow> string \<Rightarrow> tool_result \<Rightarrow> int \<Rightarrow> audit_payload \<Rightarrow> nat \<Rightarrow> audit_ledger \<Rightarrow>
    audit_payload project_event" where
  "executed_event h i x now payload n l = attempt_audit_event h l (execution_kind x) n SYSTEM ''gateway'' ''sys-corr'' i payload now"

definition appends :: "audit_job \<Rightarrow> bool \<Rightarrow> audit_payload project_event \<Rightarrow> audit_ledger \<Rightarrow> audit_pc \<times> audit_ledger" where
  "appends job second ev l = (AW_APPENDS job second ev, l\<lparr>dl_draws := dl_draws l + 1\<rparr>)"

text \<open>\<open>this.revision++\<close> after the count is known to be \<open>n\<close>, and the next append.\<close>

definition take_revision :: "audit_host \<Rightarrow> audit_job \<Rightarrow> bool \<Rightarrow> nat \<Rightarrow> audit_ledger \<Rightarrow> audit_pc \<times> audit_ledger" where
  "take_revision h job second n l =
     (let l1 = set_revision (Some (n + 1)) l in
      case job of
        PROPOSE e \<Rightarrow> appends job second (if second then decided_event h e (n + 1) l1 else proposed_event h e (n + 1) l1) l1
      | EXECUTE i x now \<Rightarrow>
          (case fst (redacted h (AD_EXECUTED i x) l1) of
             Inl m \<Rightarrow> (AW_RETURNED job (Inl m), l1)
           | Inr payload \<Rightarrow> appends job second (executed_event h i x now payload (n + 1) l1) l1))"

text \<open>\<open>getNextRevision\<close> up to its await: without a count it reads.\<close>

definition ask_revision :: "audit_host \<Rightarrow> audit_job \<Rightarrow> bool \<Rightarrow> audit_ledger \<Rightarrow> audit_pc \<times> audit_ledger" where
  "ask_revision h job second l =
     (case dl_revision l of None \<Rightarrow> (AW_READS job second, l) | Some n \<Rightarrow> take_revision h job second n l)"

definition greatest_revision :: "audit_ledger \<Rightarrow> nat" where
  "greatest_revision l = (case fst (pl_getEvents (dl_attemptId l) (dl_db l)) of
     Inr evs \<Rightarrow> fold max (map pe_aggregateRevision evs) 0 | Inl _ \<Rightarrow> 0)"

text \<open>The next step of a call: of the database, when the call waits for it, and else of the program.\<close>

fun audit_move :: "audit_host \<Rightarrow> audit_pc \<Rightarrow> audit_ledger \<Rightarrow> (audit_pc \<times> audit_ledger) option" where
  "audit_move h (AW_READS job second) l = Some (AW_READ job second (greatest_revision l), l)"
| "audit_move h (AW_READ job second n) l = Some (take_revision h job second n l)"
| "audit_move h (AW_APPENDS job second ev) l =
     (case pl_append ev (dl_db l) of (r, db) \<Rightarrow> Some (AW_ANSWERED job second r, l\<lparr>dl_db := db\<rparr>))"
| "audit_move h (AW_ANSWERED job second (Inl e)) l = Some (AW_RETURNED job (Inl (ah_message h e)), l)"
| "audit_move h (AW_ANSWERED (PROPOSE e) second (Inr u)) l =
     Some (if second then (AW_RETURNED (PROPOSE e) (Inr ()), push_entry e l) else ask_revision h (PROPOSE e) True l)"
| "audit_move h (AW_ANSWERED (EXECUTE i x now) second (Inr u)) l =
     Some (AW_RETURNED (EXECUTE i x now) (Inr ()), l\<lparr>dl_entries := set_executed i x now (dl_entries l)\<rparr>)"
| "audit_move h (AW_RETURNED job r) l = None"

text \<open>
  The ledger and its calls. A call may begin at any time; a read or an append may fail for the call, an append also after the row has
  been stored; and other writers append to the database.
\<close>

type_synonym audit_world = "audit_ledger \<times> audit_pc list"

inductive audit_step :: "audit_host \<Rightarrow> audit_world \<Rightarrow> audit_world \<Rightarrow> bool" for h where
  as_begin: "ask_revision h job False l = (pc, l') \<Longrightarrow> audit_step h (l, cs) (l', cs @ [pc])"
| as_move: "k < length cs \<Longrightarrow> audit_move h (cs ! k) l = Some (pc, l') \<Longrightarrow> audit_step h (l, cs) (l', cs[k := pc])"
| as_read_fails: "k < length cs \<Longrightarrow> cs ! k = AW_READS job second \<Longrightarrow> audit_step h (l, cs) (l, cs[k := AW_RETURNED job (Inl m)])"
| as_append_fails: "k < length cs \<Longrightarrow> cs ! k = AW_APPENDS job second ev \<Longrightarrow> db = dl_db l \<or> db = snd (pl_append ev (dl_db l)) \<Longrightarrow>
    audit_step h (l, cs) (l\<lparr>dl_db := db\<rparr>, cs[k := AW_ANSWERED job second (Inl e)])"
| as_other: "ld_events db = ld_events (dl_db l) @ rows \<Longrightarrow> audit_step h (l, cs) (l\<lparr>dl_db := db\<rparr>, cs)"

inductive audit_reach :: "audit_host \<Rightarrow> audit_world \<Rightarrow> audit_world \<Rightarrow> bool" for h where
  ar_here: "audit_reach h w w"
| ar_next: "audit_reach h w w' \<Longrightarrow> audit_step h w' w'' \<Longrightarrow> audit_reach h w w''"

lemma audit_reach_trans: "audit_reach h w' w'' \<Longrightarrow> audit_reach h w w' \<Longrightarrow> audit_reach h w w''"
  by (induction rule: audit_reach.induct) (auto intro: ar_next)

section \<open>A call that runs alone\<close>

text \<open>Without another call in between, the steps of a call are the one action of \<open>Audit_Ledger\<close>.\<close>

fun run_alone :: "nat \<Rightarrow> audit_host \<Rightarrow> audit_pc \<times> audit_ledger \<Rightarrow> audit_pc \<times> audit_ledger" where
  "run_alone 0 h s = s"
| "run_alone (Suc n) h s = (case audit_move h (fst s) (snd s) of None \<Rightarrow> s | Some s' \<Rightarrow> run_alone n h s')"

lemma run_alone_reach:
  "audit_reach h (l, cs @ [pc]) (snd (run_alone n h (pc, l)), cs @ [fst (run_alone n h (pc, l))])"
proof (induction n arbitrary: l pc)
  case (Suc n)
  show ?case
  proof (cases "audit_move h pc l")
    case (Some s)
    obtain pc' l' where s: "s = (pc', l')" by force
    have "audit_step h (l, cs @ [pc]) (l', (cs @ [pc])[length cs := pc'])" using Some s by (intro as_move) simp_all
    then have "audit_reach h (l, cs @ [pc]) (l', cs @ [pc'])" using ar_next [OF ar_here] by simp
    from audit_reach_trans [OF Suc.IH this] show ?thesis using Some s by simp
  qed (simp add: ar_here)
qed (simp add: ar_here)

lemma next_revision_asked:
  "getNextRevision l = (Inr (n + 1), set_revision (Some (n + 1)) l)" if "n = (case dl_revision l of Some r \<Rightarrow> r | None \<Rightarrow> greatest_revision l)"
  using that by (simp add: getNextRevision_def greatest_revision_def Let_def split: option.split)

lemma run_alone_add: "run_alone (a + b) h s = run_alone b h (run_alone a h s)"
proof (induction a arbitrary: s)
  case (Suc a)
  have "run_alone b h s = s" if "audit_move h (fst s) (snd s) = None" for b using that by (cases b) simp_all
  then show ?case using Suc by (simp split: option.split)
qed simp

definition leads :: "audit_host \<Rightarrow> audit_pc \<times> audit_ledger \<Rightarrow> audit_pc \<times> audit_ledger \<Rightarrow> bool" where
  "leads h s s' \<longleftrightarrow> (\<exists>n. run_alone n h s = s')"

lemma leads_trans: "leads h s s' \<Longrightarrow> leads h s' s'' \<Longrightarrow> leads h s s''"
  unfolding leads_def by (metis run_alone_add)

lemma leads_refl: "leads h s s" unfolding leads_def by (intro exI [of _ 0]) simp

lemma leads_move: "audit_move h (fst s) (snd s) = Some s' \<Longrightarrow> leads h s s'"
  unfolding leads_def by (intro exI [of _ 1]) simp

lemma asked_alone: "leads h (ask_revision h job second l)
   (take_revision h job second (case dl_revision l of Some r \<Rightarrow> r | None \<Rightarrow> greatest_revision l) l)"
proof (cases "dl_revision l")
  case None
  have "leads h (AW_READS job second, l) (AW_READ job second (greatest_revision l), l)" by (rule leads_move) simp
  moreover have "leads h (AW_READ job second (greatest_revision l), l) (take_revision h job second (greatest_revision l) l)"
    by (rule leads_move) simp
  ultimately show ?thesis using None leads_trans by (simp add: ask_revision_def)
qed (simp add: ask_revision_def leads_refl)

lemma appended_alone: "leads h (appends job second ev l)
   (case append_audit h ev l of (Inl m, l') \<Rightarrow> (AW_RETURNED job (Inl m), l')
    | (Inr _, l') \<Rightarrow> the (audit_move h (AW_ANSWERED job second (Inr ())) l'))"
proof -
  obtain r db where ap: "pl_append ev (dl_db l) = (r, db)" by force
  let ?l = "l\<lparr>dl_draws := dl_draws l + 1, dl_db := db\<rparr>"
  have first: "leads h (appends job second ev l) (AW_ANSWERED job second r, ?l)"
    by (rule leads_move) (simp add: appends_def ap)
  have upd: "l\<lparr>dl_db := db, dl_draws := Suc (dl_draws l)\<rparr> = l\<lparr>dl_draws := Suc (dl_draws l), dl_db := db\<rparr>" by (cases l) simp
  have "audit_move h (AW_ANSWERED job second r) ?l = Some (case append_audit h ev l of (Inl m, l') \<Rightarrow> (AW_RETURNED job (Inl m), l')
    | (Inr _, l') \<Rightarrow> the (audit_move h (AW_ANSWERED job second (Inr ())) l'))"
    unfolding append_audit_def ap by (cases r; cases job) (simp_all, simp_all add: upd)
  from leads_trans [OF first leads_move] this show ?thesis by simp
qed

lemma decided_alone: "leads h (appends (PROPOSE e) True ev l)
   (case append_audit h ev l of (Inl m, l') \<Rightarrow> (AW_RETURNED (PROPOSE e) (Inl m), l')
    | (Inr _, l') \<Rightarrow> (AW_RETURNED (PROPOSE e) (Inr ()), push_entry e l'))"
  using appended_alone [of h "PROPOSE e" True ev l] by (simp cong: sum.case_cong)

lemma executed_alone: "leads h (appends (EXECUTE i x now) False ev l)
   (case append_audit h ev l of (Inl m, l') \<Rightarrow> (AW_RETURNED (EXECUTE i x now) (Inl m), l')
    | (Inr _, l') \<Rightarrow> (AW_RETURNED (EXECUTE i x now) (Inr ()), l'\<lparr>dl_entries := set_executed i x now (dl_entries l')\<rparr>))"
  using appended_alone [of h "EXECUTE i x now" False ev l] by (simp cong: sum.case_cong)

theorem proposal_alone:
  assumes "audit_recordProposed h e l = (r, l')"
  shows "audit_reach h (l, cs) (l', cs @ [AW_RETURNED (PROPOSE e) r])"
proof -
  have run: "leads h (ask_revision h (PROPOSE e) False l) (AW_RETURNED (PROPOSE e) r, l')"
  proof -
    let ?n = "\<lambda>l. case dl_revision l of Some r \<Rightarrow> r | None \<Rightarrow> greatest_revision l"
    let ?l1 = "set_revision (Some (?n l + 1)) l"
    have bind: "act_bind getNextRevision k v = k (?n v + 1) (set_revision (Some (?n v + 1)) v)" for k and v
      using next_revision_asked [OF refl, of v] by (simp add: act_bind_def)
    have first: "leads h (ask_revision h (PROPOSE e) False l) (appends (PROPOSE e) False (proposed_event h e (?n l + 1) ?l1) ?l1)"
      using asked_alone [of h "PROPOSE e" False l] by (simp add: take_revision_def Let_def)
    note r = assms [unfolded audit_recordProposed_def Let_def bind, folded proposed_event_def decided_event_def]
    show ?thesis
    proof (cases "append_audit h (proposed_event h e (?n l + 1) ?l1) ?l1")
      case (Pair r1 l2)
      show ?thesis
      proof (cases r1)
        case (Inl m)
        then show ?thesis using leads_trans [OF first appended_alone] r Pair by (simp add: act_bind_def)
      next
        case (Inr u)
        let ?l3 = "set_revision (Some (?n l2 + 1)) l2"
        have "leads h (ask_revision h (PROPOSE e) False l) (ask_revision h (PROPOSE e) True l2)"
          using leads_trans [OF first appended_alone] Pair Inr by simp
        moreover have "leads h (ask_revision h (PROPOSE e) True l2) (appends (PROPOSE e) True (decided_event h e (?n l2 + 1) ?l3) ?l3)"
          using asked_alone [of h "PROPOSE e" True l2] by (simp add: take_revision_def Let_def)
        ultimately have c: "leads h (ask_revision h (PROPOSE e) False l) (appends (PROPOSE e) True (decided_event h e (?n l2 + 1) ?l3) ?l3)"
          by (rule leads_trans)
        have "leads h (ask_revision h (PROPOSE e) False l)
            (case append_audit h (decided_event h e (?n l2 + 1) ?l3) ?l3 of (Inl m, l') \<Rightarrow> (AW_RETURNED (PROPOSE e) (Inl m), l')
             | (Inr _, l') \<Rightarrow> (AW_RETURNED (PROPOSE e) (Inr ()), push_entry e l'))"
          by (rule leads_trans [OF c decided_alone])
        then show ?thesis using r Pair Inr by (auto simp: act_bind_def bind split: prod.splits sum.splits)
      qed
    qed
  qed
  then obtain n where n: "run_alone n h (ask_revision h (PROPOSE e) False l) = (AW_RETURNED (PROPOSE e) r, l')" by (auto simp: leads_def)
  obtain pc l1 where a: "ask_revision h (PROPOSE e) False l = (pc, l1)" by force
  have "audit_reach h (l, cs) (l1, cs @ [pc])" by (rule ar_next [OF ar_here as_begin [OF a]])
  from audit_reach_trans [OF run_alone_reach this, of n] n a show ?thesis by simp
qed

theorem execution_alone:
  assumes "audit_recordExecuted h i x now l = (r, l')"
  shows "audit_reach h (l, cs) (l', cs @ [AW_RETURNED (EXECUTE i x now) r])"
proof -
  let ?job = "EXECUTE i x now" and ?n = "case dl_revision l of Some r \<Rightarrow> r | None \<Rightarrow> greatest_revision l"
  let ?l1 = "set_revision (Some (?n + 1)) l"
  have bind: "act_bind getNextRevision k l = k (?n + 1) ?l1" for k
    using next_revision_asked [OF refl, of l] by (simp add: act_bind_def)
  note r = assms [unfolded audit_recordExecuted_def Let_def bind, folded execution_kind_def, folded executed_event_def]
  have red: "redacted h p v = (fst (redacted h p v), v)" for p v
    by (simp add: redacted_def act_return_def act_throw_def split: option.split sum.split)
  have "leads h (ask_revision h ?job False l) (AW_RETURNED ?job r, l')"
  proof (cases "fst (redacted h (AD_EXECUTED i x) ?l1)")
    case (Inl m)
    then have "take_revision h ?job False ?n l = (AW_RETURNED ?job r, l')"
      using r red [of "AD_EXECUTED i x" ?l1] by (simp add: take_revision_def Let_def act_bind_def)
    then show ?thesis using asked_alone [of h ?job False l] by simp
  next
    case (Inr payload)
    let ?ev = "executed_event h i x now payload (?n + 1) ?l1"
    have "leads h (ask_revision h ?job False l) (appends ?job False ?ev ?l1)"
      using asked_alone [of h ?job False l] Inr by (simp add: take_revision_def Let_def)
    from leads_trans [OF this executed_alone] show ?thesis
      using r red [of "AD_EXECUTED i x" ?l1] Inr by (auto simp: act_bind_def split: prod.splits sum.splits)
  qed
  then obtain n where n: "run_alone n h (ask_revision h ?job False l) = (AW_RETURNED ?job r, l')" by (auto simp: leads_def)
  obtain pc l1 where a: "ask_revision h ?job False l = (pc, l1)" by force
  have "audit_reach h (l, cs) (l1, cs @ [pc])" by (rule ar_next [OF ar_here as_begin [OF a]])
  from audit_reach_trans [OF run_alone_reach this, of n] n a show ?thesis by simp
qed

section \<open>What the database holds for an entry\<close>

text \<open>The first event stands before the second in the table.\<close>

definition one_before :: "'a list \<Rightarrow> ('a \<Rightarrow> bool) \<Rightarrow> ('a \<Rightarrow> bool) \<Rightarrow> bool" where
  "one_before es p q \<longleftrightarrow> (\<exists>xs ys d e. es = xs @ ys \<and> d \<in> set xs \<and> e \<in> set ys \<and> p d \<and> q e)"

definition of_attempt :: "audit_ledger \<Rightarrow> audit_payload project_event \<Rightarrow> bool" where
  "of_attempt l ev \<longleftrightarrow> pe_aggregateId ev = dl_attemptId l \<and> pe_aggregateType ev = AGG_ATTEMPT \<and> pe_projectId ev = dl_projectId l"

definition tells_proposal :: "audit_ledger \<Rightarrow> audit_entry \<Rightarrow> audit_payload project_event \<Rightarrow> bool" where
  "tells_proposal l e ev \<longleftrightarrow> of_attempt l ev \<and> pe_eventType ev = ''HOST_ACTION_PROPOSED'' \<and>
     pe_payload ev = AD_PROPOSED (au_request e) \<and> pe_occurredAt ev = au_proposedAt e \<and> pe_actorId ev = rq_agentId (au_request e)"

definition tells_decision :: "audit_ledger \<Rightarrow> audit_entry \<Rightarrow> audit_payload project_event \<Rightarrow> bool" where
  "tells_decision l e ev \<longleftrightarrow> of_attempt l ev \<and> pe_eventType ev = ''HOST_ACTION_POLICY_DECIDED'' \<and>
     pe_payload ev = AD_DECIDED (au_decision e) (au_classification e)"

definition tells_execution :: "audit_host \<Rightarrow> audit_ledger \<Rightarrow> string \<Rightarrow> tool_result \<Rightarrow> audit_payload project_event \<Rightarrow> bool" where
  "tells_execution h l i x ev \<longleftrightarrow> of_attempt l ev \<and> pe_eventType ev = execution_kind x \<and> pe_causationId ev = Some i \<and>
     stored_payload h (AD_EXECUTED i x) (pe_payload ev)"

definition proposal_stored :: "audit_ledger \<Rightarrow> audit_entry \<Rightarrow> bool" where
  "proposal_stored l e \<longleftrightarrow> one_before (ld_events (dl_db l)) (tells_proposal l e) (tells_decision l e)"

definition execution_stored :: "audit_host \<Rightarrow> audit_ledger \<Rightarrow> string \<Rightarrow> tool_result \<Rightarrow> bool" where
  "execution_stored h l i x \<longleftrightarrow> (\<exists>ev \<in> set (ld_events (dl_db l)). tells_execution h l i x ev)"

definition entry_stored :: "audit_host \<Rightarrow> audit_ledger \<Rightarrow> audit_entry \<Rightarrow> bool" where
  "entry_stored h l e \<longleftrightarrow> proposal_stored l e \<and>
     (case au_executionResult e of None \<Rightarrow> pd_decision (au_decision e) \<noteq> PD_DENY
      | Some NotExecuted \<Rightarrow> pd_decision (au_decision e) = PD_DENY
      | Some (Executed x) \<Rightarrow> execution_stored h l (au_actionId e) x)"

definition job_recorded :: "audit_host \<Rightarrow> audit_ledger \<Rightarrow> audit_job \<Rightarrow> bool" where
  "job_recorded h l job = (case job of
     PROPOSE e \<Rightarrow> proposal_stored l e \<and> (\<exists>e' \<in> set (dl_entries l). au_actionId e' = au_actionId e \<and> au_request e' = au_request e \<and>
       au_decision e' = au_decision e)
   | EXECUTE i x now \<Rightarrow> execution_stored h l i x)"

text \<open>What is known of a call at its next step.\<close>

fun call_ok :: "audit_host \<Rightarrow> audit_ledger \<Rightarrow> audit_pc \<Rightarrow> bool" where
  "call_ok h l (AW_READS job second) = (case job of PROPOSE e \<Rightarrow> second \<longrightarrow> (\<exists>ev \<in> set (ld_events (dl_db l)). tells_proposal l e ev) | _ \<Rightarrow> \<not> second)"
| "call_ok h l (AW_READ job second n) = (case job of PROPOSE e \<Rightarrow> second \<longrightarrow> (\<exists>ev \<in> set (ld_events (dl_db l)). tells_proposal l e ev) | _ \<Rightarrow> \<not> second)"
| "call_ok h l (AW_APPENDS job second ev) = (case job of
     PROPOSE e \<Rightarrow> if second then (\<exists>ev \<in> set (ld_events (dl_db l)). tells_proposal l e ev) \<and> tells_decision l e ev else tells_proposal l e ev
   | EXECUTE i x now \<Rightarrow> tells_execution h l i x ev)"
| "call_ok h l (AW_ANSWERED job second r) = (case (job, r) of
     (PROPOSE e, Inr _) \<Rightarrow> if second then proposal_stored l e else (\<exists>ev \<in> set (ld_events (dl_db l)). tells_proposal l e ev)
   | (EXECUTE i x now, Inr _) \<Rightarrow> execution_stored h l i x | _ \<Rightarrow> True)"
| "call_ok h l (AW_RETURNED job r) = (case r of Inl _ \<Rightarrow> True | Inr _ \<Rightarrow> job_recorded h l job)"

definition audit_inv :: "audit_host \<Rightarrow> audit_world \<Rightarrow> bool" where
  "audit_inv h w \<longleftrightarrow> (\<forall>e \<in> set (dl_entries (fst w)). entry_stored h (fst w) e) \<and> (\<forall>pc \<in> set (snd w). call_ok h (fst w) pc)"

text \<open>A later state of the ledger: events were added, entries kept but for their results.\<close>

definition grown :: "audit_ledger \<Rightarrow> audit_ledger \<Rightarrow> bool" where
  "grown l l' \<longleftrightarrow> dl_attemptId l' = dl_attemptId l \<and> dl_projectId l' = dl_projectId l \<and>
     (\<exists>rows. ld_events (dl_db l') = ld_events (dl_db l) @ rows) \<and>
     (\<forall>e \<in> set (dl_entries l). \<exists>e' \<in> set (dl_entries l'). au_actionId e' = au_actionId e \<and> au_request e' = au_request e \<and>
        au_decision e' = au_decision e)"

lemma grown_tells: "grown l l' \<Longrightarrow> tells_proposal l' = tells_proposal l \<and> tells_decision l' = tells_decision l \<and>
    tells_execution h l' = tells_execution h l"
  by (auto simp: grown_def tells_proposal_def tells_decision_def tells_execution_def of_attempt_def fun_eq_iff)

lemma grown_events: "grown l l' \<Longrightarrow> set (ld_events (dl_db l)) \<subseteq> set (ld_events (dl_db l'))"
  by (auto simp: grown_def)

lemma one_before_more: "one_before es p q \<Longrightarrow> one_before (es @ rows) p q"
  unfolding one_before_def by (metis Un_iff append_assoc set_append)

lemma grown_proposal: "grown l l' \<Longrightarrow> proposal_stored l e \<Longrightarrow> proposal_stored l' e"
  using grown_tells [of l l'] one_before_more by (auto simp: proposal_stored_def grown_def)

lemma grown_execution: "grown l l' \<Longrightarrow> execution_stored h l i x \<Longrightarrow> execution_stored h l' i x"
  using grown_tells [of l l' h] grown_events [of l l'] by (auto simp: execution_stored_def)

lemma grown_entry: "grown l l' \<Longrightarrow> entry_stored h l e \<Longrightarrow> entry_stored h l' e"
  using grown_proposal grown_execution by (auto simp: entry_stored_def split: option.splits execution_outcome.splits)

lemma grown_job: "grown l l' \<Longrightarrow> job_recorded h l job \<Longrightarrow> job_recorded h l' job"
  using grown_proposal [of l l'] grown_execution [of l l' h]
  by (cases job) (auto simp: job_recorded_def grown_def, metis)

lemma grown_call: "grown l l' \<Longrightarrow> call_ok h l pc \<Longrightarrow> call_ok h l' pc"
  using grown_tells [of l l' h] grown_events [of l l'] grown_proposal [of l l'] grown_execution [of l l' h] grown_job [of l l' h]
  by (cases pc) (auto split: audit_job.splits sum.splits if_splits)

section \<open>Every step keeps it\<close>

lemma grown_same: "dl_attemptId l' = dl_attemptId l \<Longrightarrow> dl_projectId l' = dl_projectId l \<Longrightarrow> dl_db l' = dl_db l \<Longrightarrow>
    dl_entries l' = dl_entries l \<Longrightarrow> grown l l'"
  by (auto simp: grown_def)

lemma attempt_event_sel [simp]:
  "pe_eventType (attempt_audit_event h l kind n t actor corr cause payload at) = kind"
  "pe_payload (attempt_audit_event h l kind n t actor corr cause payload at) = payload"
  "pe_causationId (attempt_audit_event h l kind n t actor corr cause payload at) = Some cause"
  "pe_occurredAt (attempt_audit_event h l kind n t actor corr cause payload at) = at"
  "pe_actorId (attempt_audit_event h l kind n t actor corr cause payload at) = actor"
  "of_attempt l' (attempt_audit_event h l kind n t actor corr cause payload at) \<longleftrightarrow>
     dl_attemptId l' = dl_attemptId l \<and> dl_projectId l' = dl_projectId l"
  by (auto simp: attempt_audit_event_def of_attempt_def)

lemma redacted_stored: "fst (redacted h p l) = Inr q \<Longrightarrow> stored_payload h p q"
  by (auto simp: redacted_def stored_payload_def act_return_def act_throw_def split: option.splits sum.splits)

lemma take_ok:
  assumes "take_revision h job second n l = (pc, l')" "call_ok h l (AW_READ job second n)"
  shows "grown l l' \<and> call_ok h l' pc \<and> dl_entries l' = dl_entries l"
proof -
  have l': "dl_attemptId l' = dl_attemptId l" "dl_projectId l' = dl_projectId l" "dl_db l' = dl_db l" "dl_entries l' = dl_entries l"
    using assms(1) by (auto simp: take_revision_def appends_def set_revision_def Let_def split: audit_job.splits sum.splits if_splits)
  then have g: "grown l l'" by (rule grown_same)
  have "call_ok h l' pc"
  proof (cases job)
    case (PROPOSE e)
    then show ?thesis using assms grown_tells [OF g, of h] l'
      by (auto simp: take_revision_def appends_def Let_def set_revision_def tells_proposal_def tells_decision_def
          proposed_event_def decided_event_def split: if_splits)
  next
    case (EXECUTE i x now)
    then show ?thesis using assms l' redacted_stored [of h "AD_EXECUTED i x" "set_revision (Some (n + 1)) l"]
      by (auto simp: take_revision_def appends_def Let_def set_revision_def tells_execution_def executed_event_def
          job_recorded_def split: sum.splits)
  qed
  then show ?thesis using g l' by simp
qed

lemma ask_ok:
  assumes "ask_revision h job second l = (pc, l')" "call_ok h l (AW_READS job second)"
  shows "grown l l' \<and> call_ok h l' pc \<and> dl_entries l' = dl_entries l"
proof (cases "dl_revision l")
  case None
  then show ?thesis using assms by (auto simp: ask_revision_def grown_same)
next
  case (Some n)
  show ?thesis using take_ok [of h job second n l pc l'] assms Some by (simp add: ask_revision_def)
qed

lemma append_ok:
  assumes "pl_append ev (dl_db l) = (r, db)" "call_ok h l (AW_APPENDS job second ev)"
  shows "grown l (l\<lparr>dl_db := db\<rparr>) \<and> call_ok h (l\<lparr>dl_db := db\<rparr>) (AW_ANSWERED job second r)"
proof -
  let ?l = "l\<lparr>dl_db := db\<rparr>"
  obtain rows where rows: "ld_events db = ld_events (dl_db l) @ rows" "\<not> isl r \<longrightarrow> rows = [ev]"
    using assms(1) by (cases rule: insert_event_cases [of ev "dl_db l"]) (auto simp: pl_append_def)
  then have g: "grown l ?l" by (auto simp: grown_def)
  note t = grown_tells [OF g, of h]
  have "call_ok h ?l (AW_ANSWERED job second r)"
  proof (cases r)
    case (Inr u)
    then have ev: "ld_events (dl_db ?l) = ld_events (dl_db l) @ [ev]" using rows by simp
    show ?thesis
    proof (cases job)
      case (PROPOSE e)
      have "proposal_stored ?l e" if two: "second"
      proof -
        obtain d where "d \<in> set (ld_events (dl_db l))" "tells_proposal l e d" "tells_decision l e ev"
          using assms(2) PROPOSE two by auto
        then show ?thesis unfolding proposal_stored_def ev one_before_def using t by fastforce
      qed
      then show ?thesis using assms(2) PROPOSE Inr ev t by auto
    next
      case (EXECUTE i x now)
      then show ?thesis using assms(2) Inr ev t by (auto simp: execution_stored_def)
    qed
  qed (simp split: audit_job.split)
  then show ?thesis using g by simp
qed

lemma set_executed_entry: "e' \<in> set (set_executed i x now es) \<Longrightarrow>
    e' \<in> set es \<or> (\<exists>e \<in> set es. au_actionId e = i \<and> e' = e\<lparr>au_executedAt := Some now, au_executionResult := Some (Executed x)\<rparr>)"
  by (induction es) (auto split: if_splits)

lemma set_executed_keeps: "e \<in> set es \<Longrightarrow> \<exists>e' \<in> set (set_executed i x now es). au_actionId e' = au_actionId e \<and>
    au_request e' = au_request e \<and> au_decision e' = au_decision e"
  by (induction es) auto

lemma entry_executed: "entry_stored h l e \<Longrightarrow> execution_stored h l (au_actionId e) x \<Longrightarrow>
    entry_stored h l (e\<lparr>au_executedAt := Some now, au_executionResult := Some (Executed x)\<rparr>)"
  by (simp add: entry_stored_def proposal_stored_def tells_proposal_def [abs_def] tells_decision_def [abs_def])

lemma move_ok:
  assumes "audit_move h pc l = Some (pc', l')" "call_ok h l pc" "\<forall>e \<in> set (dl_entries l). entry_stored h l e"
  shows "grown l l' \<and> call_ok h l' pc' \<and> (\<forall>e \<in> set (dl_entries l'). entry_stored h l' e)"
proof -
  have same: ?thesis if "grown l l' \<and> call_ok h l' pc' \<and> dl_entries l' = dl_entries l"
    using that assms(3) grown_entry by auto
  show ?thesis
  proof (cases "(h, pc, l)" rule: audit_move.cases)
    case (1 h' job second l0)
    then show ?thesis using assms(1,2) same by (auto simp: grown_same)
  next
    case (2 h' job second n l0)
    then show ?thesis using assms(1,2) same take_ok [of h job second n l pc' l'] by simp
  next
    case (3 h' job second ev l0)
    then show ?thesis using assms(1,2) same append_ok [of ev l _ _ h job second] by (auto split: prod.splits)
  next
    case (4 h' job second e l0)
    then show ?thesis using assms(1,2) same by (auto simp: grown_same)
  next
    case (5 h' e second u l0)
    show ?thesis
    proof (cases second)
      case True
      then have l': "l' = push_entry e l" "pc' = AW_RETURNED (PROPOSE e) (Inr ())" and st: "proposal_stored l e"
        using 5 assms(1,2) by simp_all
      have g: "grown l l'" by (auto simp: l' push_entry_def grown_def)
      have new: "entry_stored h l' (e\<lparr>au_executedAt := None, au_executionResult :=
          (if pd_decision (au_decision e) = PD_DENY then Some NotExecuted else None)\<rparr>)"
        using grown_proposal [OF g st]
        by (simp add: entry_stored_def proposal_stored_def tells_proposal_def [abs_def] tells_decision_def [abs_def])
      have "entry_stored h l' f" if "f \<in> set (dl_entries l)" for f using that assms(3) grown_entry [OF g] by simp
      then have "\<forall>f \<in> set (dl_entries l'). entry_stored h l' f" using new by (auto simp: l' push_entry_def)
      moreover have "call_ok h l' pc'" using grown_proposal [OF g st] by (auto simp: l' job_recorded_def push_entry_def)
      ultimately show ?thesis using g by simp
    next
      case False
      then show ?thesis using 5 assms(1,2) same ask_ok [of h "PROPOSE e" True l pc' l'] by simp
    qed
  next
    case (6 h' i x now second u l0)
    then have l': "l' = l\<lparr>dl_entries := set_executed i x now (dl_entries l)\<rparr>" "pc' = AW_RETURNED (EXECUTE i x now) (Inr ())"
      and st: "execution_stored h l i x" using assms(1,2) by simp_all
    have g: "grown l l'" using set_executed_keeps by (auto simp: l' grown_def)
    have "entry_stored h l' f" if f: "f \<in> set (dl_entries l')" for f
    proof -
      have "f \<in> set (dl_entries l) \<or> (\<exists>e \<in> set (dl_entries l). au_actionId e = i \<and>
          f = e\<lparr>au_executedAt := Some now, au_executionResult := Some (Executed x)\<rparr>)"
        using f set_executed_entry by (simp add: l')
      then have "entry_stored h l f" using assms(3) st entry_executed by auto
      then show ?thesis by (rule grown_entry [OF g])
    qed
    then show ?thesis using g grown_execution [OF g st] by (simp add: l' job_recorded_def)
  next
    case (7 h' job r l0)
    then show ?thesis using assms(1) by simp
  qed
qed

lemma audit_inv_step: "audit_step h w w' \<Longrightarrow> audit_inv h w \<Longrightarrow> audit_inv h w'"
proof (induction rule: audit_step.induct)
  case (as_begin job l pc l' cs)
  have "call_ok h l (AW_READS job False)" by (cases job) simp_all
  from ask_ok [OF as_begin(1) this] show ?case
    using as_begin(2) grown_entry grown_call by (auto simp: audit_inv_def)
next
  case (as_move k cs l pc l')
  have "call_ok h l (cs ! k)" "\<forall>e \<in> set (dl_entries l). entry_stored h l e" using as_move(1,3) by (simp_all add: audit_inv_def)
  from move_ok [OF as_move(2) this] show ?case
    using as_move(3) grown_call [of l l'] by (auto simp: audit_inv_def dest!: set_update_subset_insert [THEN subsetD])
next
  case (as_read_fails k cs job second l m)
  then show ?case by (auto simp: audit_inv_def dest!: set_update_subset_insert [THEN subsetD])
next
  case (as_append_fails k cs job second ev db l e)
  let ?l = "l\<lparr>dl_db := db\<rparr>"
  obtain rows where "ld_events db = ld_events (dl_db l) @ rows"
    using as_append_fails(3) by (cases rule: insert_event_cases [of ev "dl_db l"]) (auto simp: pl_append_def)
  then have g: "grown l ?l" by (auto simp: grown_def)
  have "call_ok h ?l (AW_ANSWERED job second (Inl e))" by (simp split: audit_job.split)
  then show ?case using as_append_fails(4) grown_entry [OF g] grown_call [OF g]
    by (auto simp: audit_inv_def dest!: set_update_subset_insert [THEN subsetD])
next
  case (as_other db l rows cs)
  then have g: "grown l (l\<lparr>dl_db := db\<rparr>)" by (auto simp: grown_def)
  then show ?case using as_other(2) grown_entry [OF g] grown_call [OF g] by (auto simp: audit_inv_def)
qed

lemma audit_inv_reach: "audit_reach h w w' \<Longrightarrow> audit_inv h w \<Longrightarrow> audit_inv h w'"
  by (induction rule: audit_reach.induct) (auto intro: audit_inv_step)

text \<open>
  C39: However the calls of one audit ledger overlap with each other and with other writers, and whichever reads and appends fail,
  every entry the ledger holds is in the database: its proposal and, behind it in the table, its decision, both of the attempt, with
  the request, the time of the proposal, the verdict and the classes; an entry with an execution result has an execution event of its
  action, of the kind that the result's status asks for and with the redacted result. A call that returned without an error has its
  events stored, and a proposal its entry.
\<close>

theorem audit_entries_are_stored:
  assumes "audit_reach h (l0, []) (l, cs)" and "dl_entries l0 = []"
  shows "(\<forall>e \<in> set (dl_entries l). entry_stored h l e) \<and>
    (\<forall>job. AW_RETURNED job (Inr ()) \<in> set cs \<longrightarrow> job_recorded h l job)"
proof -
  have "audit_inv h (l, cs)" using audit_inv_reach [OF assms(1)] assms(2) by (simp add: audit_inv_def)
  then show ?thesis by (fastforce simp: audit_inv_def)
qed

section \<open>Two proposals at once\<close>

text \<open>A schedule begins calls and lets calls take their next step.\<close>

datatype audit_turn = BEGIN audit_job | STEP nat

fun audit_schedule :: "audit_host \<Rightarrow> audit_turn list \<Rightarrow> audit_world \<Rightarrow> audit_world option" where
  "audit_schedule h [] w = Some w"
| "audit_schedule h (BEGIN job # ts) (l, cs) = (case ask_revision h job False l of (pc, l') \<Rightarrow> audit_schedule h ts (l', cs @ [pc]))"
| "audit_schedule h (STEP k # ts) (l, cs) =
     (if k < length cs then (case audit_move h (cs ! k) l of None \<Rightarrow> None | Some (pc, l') \<Rightarrow> audit_schedule h ts (l', cs[k := pc])) else None)"

lemma schedule_reach: "audit_schedule h ts w = Some w' \<Longrightarrow> audit_reach h w w'"
proof (induction h ts w rule: audit_schedule.induct)
  case (2 h job ts l cs)
  obtain pc l' where a: "ask_revision h job False l = (pc, l')" by force
  have "audit_reach h (l', cs @ [pc]) w'" using 2 a by simp
  then show ?case by (rule audit_reach_trans) (rule ar_next [OF ar_here as_begin [OF a]])
next
  case (3 h k ts l cs)
  then obtain pc l' where m: "k < length cs" "audit_move h (cs ! k) l = Some (pc, l')" "audit_schedule h ts (l', cs[k := pc]) = Some w'"
    by (auto split: if_splits option.splits)
  have "audit_reach h (l', cs[k := pc]) w'" using 3(1) m by simp
  then show ?case by (rule audit_reach_trans) (rule ar_next [OF ar_here as_move [OF m(1,2)]])
qed (simp add: ar_here)

text \<open>
  Two proposals that begin before the count is known both read that there is no event yet, and both take revision 1: the second
  append is refused by the unique revisions, and its caller is told that the proposal could not be written.
\<close>

definition race :: "audit_turn list" where
  "race = [BEGIN (PROPOSE (sample_entry ''x1'')), BEGIN (PROPOSE (sample_entry ''x2'')), STEP 0, STEP 1, STEP 0, STEP 1, STEP 0, STEP 1,
     STEP 1, STEP 0, STEP 0, STEP 0]"

lemma overlapping_proposals_take_one_revision:
  "\<exists>l. audit_schedule sample_audit_host race (empty_audit, []) =
     Some (l, [AW_RETURNED (PROPOSE (sample_entry ''x1'')) (Inr ()), AW_RETURNED (PROPOSE (sample_entry ''x2'')) (Inl ''append failed'')]) \<and>
     map pe_eventType (ld_events (dl_db l)) = [''HOST_ACTION_PROPOSED'', ''HOST_ACTION_POLICY_DECIDED''] \<and> map au_actionId (dl_entries l) = [''x1'']"
  by (simp add: race_def ask_revision_def take_revision_def greatest_revision_def appends_def proposed_event_def decided_event_def
      audit_unfold empty_audit_def sample_audit_host_def createProject_def Let_def numeral_eq_Suc, simp add: sample_entry_def)

theorem audit_entries_are_stored_witness:
  "\<exists>l. audit_reach sample_audit_host (empty_audit, [])
     (l, [AW_RETURNED (PROPOSE (sample_entry ''x1'')) (Inr ()), AW_RETURNED (PROPOSE (sample_entry ''x2'')) (Inl ''append failed'')]) \<and>
     job_recorded sample_audit_host l (PROPOSE (sample_entry ''x1''))"
proof -
  obtain l where "audit_schedule sample_audit_host race (empty_audit, []) =
     Some (l, [AW_RETURNED (PROPOSE (sample_entry ''x1'')) (Inr ()), AW_RETURNED (PROPOSE (sample_entry ''x2'')) (Inl ''append failed'')])"
    using overlapping_proposals_take_one_revision by blast
  then have r: "audit_reach sample_audit_host (empty_audit, [])
     (l, [AW_RETURNED (PROPOSE (sample_entry ''x1'')) (Inr ()), AW_RETURNED (PROPOSE (sample_entry ''x2'')) (Inl ''append failed'')])"
    by (rule schedule_reach)
  have "dl_entries empty_audit = []" by (simp add: empty_audit_def)
  from audit_entries_are_stored [OF r this] r show ?thesis by auto
qed

end
