(* ===== verification/Spec2Isabelle.thy ===== *)
theory Spec2Isabelle
  imports Workflow_Engine Governed_Runs Run_Services Evidence_Store Completion Durable_Journals Git_Adapter Worker_Host Antigravity_Bridge Api_Server Traceability Runtime_Composition Item_Lifecycle Audit_Calls
begin

text \<open>
  \<^bold>\<open>A verification library for the Constructie Orchestrator\<close>

  The orchestrator moves work items from DRAFT to COMPLETED while agents and tools act under the authority of an owner.
  Its TypeScript packages (\<^verbatim>\<open>packages\<close>, \<^verbatim>\<open>apps/api\<close>, \<^verbatim>\<open>apps/worker\<close>) are modelled here as functions on records and
  datatypes that keep the names of the source; this text says which theory holds which part.

  \<^bold>\<open>How the parts work together.\<close> The API creates and starts work items and keeps approvals. The worker polls the items
  that are READY or QUEUED and runs each through the workflow engine, which claims the item in the work store, asks an
  agent adapter for a result, and moves the attempt and the item accordingly; the worker stores the artifacts and the
  evidence of the run. The verification service completes an item only on intact evidence, the reconciliation and the
  completion engine decide whether a project is complete. Every effect that an agent asks for passes the tool gateway:
  the classifier sorts it into mutation classes, the policy engine decides on gate, guards and owner tokens, a grant pays
  for it, the audit ledger records it, and an adapter executes it. The run coordinator drives a governed run through
  dispatch, evaluation, repair, owner decisions and reconciliation, and writes each step to the event ledger, from which
  a parked run is resumed. Logs and incidents are kept in hash chains; timelines and traces read the records back.

  \<^bold>\<open>Conventions.\<close> Strings are lists of 8-bit characters, dates are integers (milliseconds), revisions and counters
  naturals. A call that may throw is a result \<open>exn + 'a\<close>; an operation that also changes state is an action
  \<open>('w, 'e, 'a) act\<close> on a world \<open>'w\<close>, composed with \<open>act_bind\<close> and \<open>act_try\<close> (\<^verbatim>\<open>Prelude_CO\<close>). A JavaScript \<open>Map\<close> is an association
  list in insertion order, an SQL table a list of rows, and a transaction that throws leaves the tables unchanged. The
  clock, fresh ids, SHA-256, the HMAC, model clients, the \<open>git\<close> executable, child processes and the like are parameters;
  what a theorem needs of them (a clock that advances, a digest without a collision among the texts at hand, an integer
  that reads back as itself) is a named hypothesis, and its witness shows that it can hold. Concurrency is a step relation
  whose steps end where the code awaits, with the properties proved on every reachable state.

  \<^bold>\<open>Work.\<close>
  \<^item> \<^verbatim>\<open>Domain_Model\<close> (\<^verbatim>\<open>packages/domain\<close>): work items, attempts, their lifecycle tables, projects, events, errors.
  \<^item> \<^verbatim>\<open>Work_Store\<close> (\<^verbatim>\<open>persistence/src/work/work-store.ts\<close>): the two tables and their methods; the invariant that ties an item
    to at most one active attempt, on every sequence of calls; the effect of the optimistic lock; how rows evolve.
  \<^item> \<^verbatim>\<open>Workflow_Engine\<close> (\<^verbatim>\<open>workflow/src/minimal-workflow-engine.ts\<close>, \<^verbatim>\<open>resume-coordinator.ts\<close>, \<^verbatim>\<open>contracts/src/agent\<close>): the engine over an
    interface of the store (a locale, discharged by the durable store); \<open>execute\<close> and \<open>resume\<close> implement a table of verdicts.
  \<^item> \<^verbatim>\<open>Worker_Host\<close> (\<^verbatim>\<open>apps/worker\<close>): the loop over items with engine, agent and evidence store on one database; a READY item with a
    valid package ends as the agent's scenario says, with its evidence stored. \<^verbatim>\<open>Mock_Agent\<close> is the worker's scripted agent.

  \<^bold>\<open>Authority and tools.\<close>
  \<^item> \<^verbatim>\<open>Js_Regex\<close>: the regular expressions of the rules and their executable matcher, sound and complete for the meaning of the
    expressions. \<^verbatim>\<open>Policy_Types\<close>, \<^verbatim>\<open>Action_Classifier\<close>, \<^verbatim>\<open>Policy_Engine\<close> (\<^verbatim>\<open>packages/policy\<close>): when ALLOW is said, exactly.
  \<^item> \<^verbatim>\<open>Owner_Authority\<close> (\<^verbatim>\<open>policy/src/context\<close>): sealed owner events, grants, gates; no gate beyond AUDIT without the grants of its row.
  \<^item> \<^verbatim>\<open>Tool_Gateway\<close>, \<^verbatim>\<open>Governed_Runs\<close> (\<^verbatim>\<open>tools/src/governed-tool-gateway.ts\<close>): one call, and sequences of calls and owner events:
    a denied call reaches no adapter, and a grant pays for one success. \<^verbatim>\<open>Audit_Ledger\<close>: the audit ledger kept as events.
  \<^item> \<^verbatim>\<open>Git_Adapter\<close> (\<^verbatim>\<open>tools/src/git\<close>): staging intents, the action journal, commits and pushes over an arbitrary \<open>git\<close>.
  \<^item> \<^verbatim>\<open>Edge_Adapters\<close> (\<^verbatim>\<open>tools/src/sandbox\<close>, \<^verbatim>\<open>tools/src/qualification\<close>, \<^verbatim>\<open>agents/src/reviewer\<close>): the sandbox never leaves its roots;
    the qualification run; the reviewer that stands in for a model.
  \<^item> \<^verbatim>\<open>Runtime_Composition\<close> (\<^verbatim>\<open>orchestrator/src/runtime-composition.ts\<close>): the parts above put together, with every way in which agents
    and children reach a tool. Without an event of the owner nothing but what the first gate gives away has an effect.

  \<^bold>\<open>Runs.\<close>
  \<^item> \<^verbatim>\<open>Event_Ledger\<close> (\<^verbatim>\<open>persistence/src/project\<close>): events, outbox, projects; both ledgers satisfy the locale \<open>run_ledger\<close>.
  \<^item> \<^verbatim>\<open>Run_Coordinator\<close> (\<^verbatim>\<open>workflow/src/run-coordinator.ts\<close>), with \<^verbatim>\<open>Run_Trace\<close> (what a run writes), \<^verbatim>\<open>Run_Termination\<close> (that it ends),
    \<^verbatim>\<open>Run_Resumption\<close> (replay gives the state of the run, and what resuming requires) and \<^verbatim>\<open>Run_Services\<close> (recovery trigger,
    structured reviewer, blueprint runner, router).
  \<^item> \<^verbatim>\<open>Provider_Agents\<close> (\<^verbatim>\<open>agents/src/codex\<close>, \<^verbatim>\<open>anthropic\<close>, \<^verbatim>\<open>google\<close>): one machine over three vendors, its bounds and its end;
    \<^verbatim>\<open>Provider_Output\<close>: the parser of answers. \<^verbatim>\<open>Antigravity_Bridge\<close>: the bridge to a child process with its IPC server.

  \<^bold>\<open>Records.\<close>
  \<^item> \<^verbatim>\<open>Json_Text\<close>, \<^verbatim>\<open>Json_Reader\<close>: \<open>JSON.stringify\<close> and \<open>toISOString\<close> (injective), \<open>JSON.parse\<close> (reads a printed value back).
  \<^item> \<^verbatim>\<open>Evidence_Records\<close>, \<^verbatim>\<open>Evidence_Store\<close> (\<^verbatim>\<open>packages/evidence\<close>, \<^verbatim>\<open>persistence/src/evidence\<close>): digests reveal changes of the records;
    an item is completed only by a verification of intact, current evidence.
  \<^item> \<^verbatim>\<open>Completion\<close> (\<^verbatim>\<open>packages/reconciliation\<close>, \<^verbatim>\<open>packages/completion\<close>): when the decision is COMPLETE, exactly.
  \<^item> \<^verbatim>\<open>Hash_Chains\<close> (\<^verbatim>\<open>packages/observability\<close>) and \<^verbatim>\<open>Durable_Journals\<close> (\<^verbatim>\<open>persistence/src/observability\<close>): the chains verify and
    commit to their history; the mutex is fair; a flush writes a prefix of the queue.
  \<^item> \<^verbatim>\<open>Traceability\<close>: timelines, and traces that agree with the in-memory engine and ignore other projects.

  \<^bold>\<open>The API\<close> (\<^verbatim>\<open>apps/api/src/index.ts\<close>). \<^verbatim>\<open>Api_Approvals\<close>: an approval is used at most once, for its own gate and an equal scope, on
  every interleaving of requests. \<^verbatim>\<open>Api_Server\<close>: origin check, sessions, service tokens, and the routes of projects, work items,
  attempts, evidence and the audit log; who is let in, exactly, and for how long after a login. \<^verbatim>\<open>Web_Client\<close>
  (\<^verbatim>\<open>apps/web/src/data/api.ts\<close>): the client of the pages, alone and against the routes of the items. \<^verbatim>\<open>Item_Lifecycle\<close>: an item from
  the form of the client over the API and the worker to the list of the client, with others at work in between.

  \<^bold>\<open>Termination and bounds.\<close> Loops over data are structural. Polling, repairs, drains, the worker's loop and the coordinator's
  loop may run for ever in the code and are \<open>partial_function (option)\<close>; that they return is proved under the conditions that
  make them return (a clock that advances, a finite plan of the reviewer, batch sizes in range), never assumed. The provider
  machine ends by a rank on its states. The regular expression matcher, the JSON scanner and its stack machine are total. The
  client of the audit log has fuel, and more fuel than there are events is enough.

  \<^bold>\<open>Not modelled.\<close> The pages of the web interface (React components) show what its client
  returns and have no state beyond a cache. Frameworks (Express, Prisma, zod, the vendors' clients) are parameters or are modelled by what the code relies on. Numbers in JSON are integers outside the reader; texts beyond
  8-bit characters and UUID checks of database columns are left out; in the Git adapter action ids have no path separators.
  SQL migrations appear as the constraints of the tables; the scripts, tests and the Python side of the bridge are
  not modelled.
\<close>

end
